(* ===== verification/Prelude.thy ===== *)
theory Prelude
  imports Main "HOL-Library.Word" "HOL-Library.Sublist" "HOL-Library.Multiset"
begin

text \<open>
  Shared vocabulary of the development: the machine types of the Rust sources, the string
  functions of Rust's standard library that the sources call, and the statement-by-statement
  database monad in which every fallible query is one step.

  Strings. A Rust \<open>str\<close> is a sequence of UTF-8 bytes; here it is a \<open>string\<close>, the list of these
  bytes. Splitting, searching and prefix tests for ASCII text are byte operations and exact on
  every string. Letter case and white space are modelled for ASCII (bytes above 127 have no case
  and are not white space), which is Rust's behaviour on ASCII text. \<open>len\<close> counts bytes, as
  \<open>str::len\<close> does.
\<close>

section \<open>Machine types\<close>

type_synonym u8 = "8 word"
type_synonym u32 = "32 word"
type_synonym i32 = "32 word"
type_synonym u64 = "64 word"
type_synonym i64 = "64 word"
type_synonym u128 = "128 word"
type_synonym uuid = "128 word"

text \<open>Points in time and durations, in nanoseconds.\<close>

type_synonym instant = int

text \<open>Collections of facts that the component proofs pass to the simplifier.\<close>

named_theorems str_simps \<open>characteristic equations of the string functions\<close>
named_theorems db_simps \<open>unfolding rules of the database monad and its statements\<close>
named_theorems model_defs \<open>definitions that are unfolded when a model is evaluated\<close>

section \<open>ASCII characters\<close>

definition is_ascii_digit :: "char \<Rightarrow> bool" where
  "is_ascii_digit c = (48 \<le> (of_char c :: nat) \<and> (of_char c :: nat) \<le> 57)"

definition is_ascii_lower :: "char \<Rightarrow> bool" where
  "is_ascii_lower c = (97 \<le> (of_char c :: nat) \<and> (of_char c :: nat) \<le> 122)"

definition is_ascii_upper :: "char \<Rightarrow> bool" where
  "is_ascii_upper c = (65 \<le> (of_char c :: nat) \<and> (of_char c :: nat) \<le> 90)"

definition is_ascii_alpha :: "char \<Rightarrow> bool" where
  "is_ascii_alpha c = (is_ascii_lower c \<or> is_ascii_upper c)"

definition is_ascii_alnum :: "char \<Rightarrow> bool" where
  "is_ascii_alnum c = (is_ascii_alpha c \<or> is_ascii_digit c)"

definition ascii_lower :: "char \<Rightarrow> char" where
  "ascii_lower c = (if is_ascii_upper c then char_of ((of_char c :: nat) + 32) else c)"

definition is_space :: "char \<Rightarrow> bool" where
  "is_space c = (let n = (of_char c :: nat) in (9 \<le> n \<and> n \<le> 13) \<or> n = 32)"

text \<open>A byte that continues a multi-byte UTF-8 character.\<close>

definition is_utf8_cont :: "char \<Rightarrow> bool" where
  "is_utf8_cont c = (let n = (of_char c :: nat) in 128 \<le> n \<and> n < 192)"

text \<open>The bytes of the first character of a non-empty string.\<close>

definition utf8_head :: "string \<Rightarrow> string" where
  "utf8_head s = (case s of [] \<Rightarrow> [] | c # cs \<Rightarrow> c # takeWhile is_utf8_cont cs)"

lemma ascii_lower_not_upper [simp]: "\<not> is_ascii_upper (ascii_lower c)"
  by (auto simp: ascii_lower_def is_ascii_upper_def)

lemma ascii_lower_idem [simp]: "ascii_lower (ascii_lower c) = ascii_lower c"
  using ascii_lower_not_upper [of c] by (simp add: ascii_lower_def [of "ascii_lower c"])

lemma is_ascii_alnum_cases:
  "is_ascii_alnum c \<Longrightarrow> is_ascii_lower c \<or> is_ascii_upper c \<or> is_ascii_digit c"
  by (auto simp: is_ascii_alnum_def is_ascii_alpha_def)

section \<open>String functions of the standard library\<close>

definition to_lower :: "string \<Rightarrow> string" where
  "to_lower s = map ascii_lower s"

definition eq_ignore_case :: "string \<Rightarrow> string \<Rightarrow> bool" where
  "eq_ignore_case s t = (to_lower s = to_lower t)"

fun strip_prefix :: "'a list \<Rightarrow> 'a list \<Rightarrow> 'a list option" where
  "strip_prefix [] s = Some s"
| "strip_prefix (p # ps) [] = None"
| "strip_prefix (p # ps) (c # cs) = (if p = c then strip_prefix ps cs else None)"

definition starts_with :: "'a list \<Rightarrow> 'a list \<Rightarrow> bool" where
  "starts_with p s = (strip_prefix p s \<noteq> None)"

definition strip_suffix :: "'a list \<Rightarrow> 'a list \<Rightarrow> 'a list option" where
  "strip_suffix p s = map_option rev (strip_prefix (rev p) (rev s))"

definition ends_with :: "'a list \<Rightarrow> 'a list \<Rightarrow> bool" where
  "ends_with p s = (strip_suffix p s \<noteq> None)"

fun contains_str :: "'a list \<Rightarrow> 'a list \<Rightarrow> bool" where
  "contains_str p [] = (p = [])"
| "contains_str p (c # cs) = (starts_with p (c # cs) \<or> contains_str p cs)"

text \<open>\<open>s.split(c)\<close>: always at least one piece.\<close>

fun split_on :: "'a \<Rightarrow> 'a list \<Rightarrow> 'a list list" where
  "split_on c [] = [[]]"
| "split_on c (x # xs) =
     (if x = c then [] # split_on c xs
      else case split_on c xs of [] \<Rightarrow> [[x]] | w # ws \<Rightarrow> (x # w) # ws)"

fun join_with :: "'a list \<Rightarrow> 'a list list \<Rightarrow> 'a list" where
  "join_with sep [] = []"
| "join_with sep [w] = w"
| "join_with sep (w # v # ws) = w @ sep @ join_with sep (v # ws)"

text \<open>\<open>s.split_once(pat)\<close> and \<open>s.rsplit_once(c)\<close>: the text before and after the pattern.\<close>

fun split_once :: "'a list \<Rightarrow> 'a list \<Rightarrow> ('a list \<times> 'a list) option" where
  "split_once p [] = (if p = [] then Some ([], []) else None)"
| "split_once p (c # cs) =
     (case strip_prefix p (c # cs) of
        Some rest \<Rightarrow> Some ([], rest)
      | None \<Rightarrow> (case split_once p cs of None \<Rightarrow> None | Some (a, b) \<Rightarrow> Some (c # a, b)))"

definition rsplit_once :: "'a list \<Rightarrow> 'a list \<Rightarrow> ('a list \<times> 'a list) option" where
  "rsplit_once p s =
     (case split_once (rev p) (rev s) of None \<Rightarrow> None | Some (a, b) \<Rightarrow> Some (rev b, rev a))"

definition trim_start_while :: "('a \<Rightarrow> bool) \<Rightarrow> 'a list \<Rightarrow> 'a list" where
  "trim_start_while P s = dropWhile P s"

definition trim_end_while :: "('a \<Rightarrow> bool) \<Rightarrow> 'a list \<Rightarrow> 'a list" where
  "trim_end_while P s = rev (dropWhile P (rev s))"

definition trim_start :: "string \<Rightarrow> string" where
  "trim_start = trim_start_while is_space"

definition trim_end :: "string \<Rightarrow> string" where
  "trim_end = trim_end_while is_space"

definition trim :: "string \<Rightarrow> string" where
  "trim s = trim_end (trim_start s)"

text \<open>\<open>s.trim_start_matches(pat)\<close> for a non-empty string pattern: repeated removal.\<close>

function trim_prefixes :: "'a list \<Rightarrow> 'a list \<Rightarrow> 'a list" where
  "trim_prefixes p s =
     (if p = [] then s
      else case strip_prefix p s of None \<Rightarrow> s | Some rest \<Rightarrow> trim_prefixes p rest)"
  by pat_completeness auto

lemma strip_prefix_Some: "strip_prefix p s = Some r \<longleftrightarrow> s = p @ r"
  by (induction p s rule: strip_prefix.induct) auto

lemma strip_prefix_None: "strip_prefix p s = None \<longleftrightarrow> (\<nexists>r. s = p @ r)"
  by (metis not_None_eq option.distinct(1) strip_prefix_Some)

termination trim_prefixes
  by (relation "measure (\<lambda>(p, s). length s)") (auto simp: strip_prefix_Some)

declare trim_prefixes.simps [simp del]

text \<open>\<open>s.split_whitespace()\<close>: the maximal runs of characters that are not white space.\<close>

function split_ws :: "string \<Rightarrow> string list" where
  "split_ws s =
     (case dropWhile is_space s of
        [] \<Rightarrow> []
      | c # cs \<Rightarrow> (c # takeWhile (\<lambda>x. \<not> is_space x) cs) # split_ws (dropWhile (\<lambda>x. \<not> is_space x) cs))"
  by pat_completeness auto
termination
proof (relation "measure length", goal_cases)
  case 1
  then show ?case by simp
next
  case (2 s c cs)
  have "length (dropWhile (\<lambda>x. \<not> is_space x) cs) \<le> length cs"
    by (rule length_dropWhile_le)
  also have "length cs < length (dropWhile is_space s)"
    using 2 by simp
  also have "\<dots> \<le> length s" by (rule length_dropWhile_le)
  finally show ?case by simp
qed

declare split_ws.simps [simp del]

text \<open>\<open>s.lines()\<close>: split at newlines, no piece for a final newline, a carriage return before a
  newline removed.\<close>

definition strip_cr :: "string \<Rightarrow> string" where
  "strip_cr l = (case strip_suffix [CHR 0x0D] l of Some l' \<Rightarrow> l' | None \<Rightarrow> l)"

definition lines_of :: "string \<Rightarrow> string list" where
  "lines_of s =
     (let ps = split_on (CHR 0x0A) s
      in map strip_cr (butlast ps) @ (if last ps = [] then [] else [last ps]))"

text \<open>\<open>parse::<u64>()\<close>: an optional plus sign, at least one digit, no overflow.\<close>

definition digit_val :: "char \<Rightarrow> nat" where
  "digit_val c = (of_char c :: nat) - 48"

definition digits_val :: "string \<Rightarrow> nat" where
  "digits_val s = foldl (\<lambda>acc c. 10 * acc + digit_val c) 0 s"

definition parse_u64 :: "string \<Rightarrow> u64 option" where
  "parse_u64 s =
     (let ds = (case strip_prefix ''+'' s of Some r \<Rightarrow> r | None \<Rightarrow> s)
      in if ds = [] \<or> \<not> list_all is_ascii_digit ds then None
         else if digits_val ds < 2 ^ 64 then Some (of_nat (digits_val ds)) else None)"

text \<open>\<open>Display\<close> of an unsigned number.\<close>

function show_nat :: "nat \<Rightarrow> string" where
  "show_nat n =
     (if n < 10 then [char_of (48 + n)] else show_nat (n div 10) @ [char_of (48 + n mod 10)])"
  by pat_completeness auto
termination by (relation "measure id") auto

declare show_nat.simps [simp del]

section \<open>Facts on the string functions\<close>

lemma to_lower_idem [simp]: "to_lower (to_lower s) = to_lower s"
  by (simp add: to_lower_def comp_def)

lemma length_to_lower [simp]: "length (to_lower s) = length s"
  by (simp add: to_lower_def)

lemma to_lower_append [simp]: "to_lower (s @ t) = to_lower s @ to_lower t"
  by (simp add: to_lower_def)

lemma to_lower_Nil [simp]: "to_lower s = [] \<longleftrightarrow> s = []" "to_lower [] = []"
  by (simp_all add: to_lower_def)

lemma eq_ignore_case_refl [simp]: "eq_ignore_case s s"
  by (simp add: eq_ignore_case_def)

lemma eq_ignore_case_lower [simp]:
  "eq_ignore_case (to_lower s) t = eq_ignore_case s t"
  "eq_ignore_case s (to_lower t) = eq_ignore_case s t"
  by (simp_all add: eq_ignore_case_def)

lemma strip_prefix_append [simp]: "strip_prefix p (p @ r) = Some r"
  by (simp add: strip_prefix_Some)

lemma starts_with_iff: "starts_with p s \<longleftrightarrow> (\<exists>r. s = p @ r)"
  by (auto simp: starts_with_def strip_prefix_Some)

lemma strip_suffix_Some: "strip_suffix p s = Some r \<longleftrightarrow> s = r @ p"
  by (auto simp: strip_suffix_def strip_prefix_Some rev_swap)

lemma strip_suffix_append [simp]: "strip_suffix p (r @ p) = Some r"
  by (simp add: strip_suffix_Some)

lemma strip_suffix_None: "strip_suffix p s = None \<longleftrightarrow> (\<nexists>r. s = r @ p)"
  by (metis not_None_eq strip_suffix_Some)

lemma ends_with_iff: "ends_with p s \<longleftrightarrow> (\<exists>r. s = r @ p)"
  by (auto simp: ends_with_def strip_suffix_Some)

lemma contains_str_iff: "contains_str p s \<longleftrightarrow> (\<exists>a b. s = a @ p @ b)"
proof (induction s)
  case (Cons c cs)
  have "(\<exists>a b. c # cs = a @ p @ b) \<longleftrightarrow> (\<exists>r. c # cs = p @ r) \<or> (\<exists>a b. cs = a @ p @ b)"
    by (auto simp: Cons_eq_append_conv)
  then show ?case by (simp add: Cons.IH starts_with_iff)
qed simp

lemma contains_str_single [simp]: "contains_str [c] s \<longleftrightarrow> c \<in> set s"
  by (auto simp: contains_str_iff in_set_conv_decomp)

lemma contains_str_append: "contains_str p (a @ p @ b)"
  by (auto simp: contains_str_iff)

lemma split_on_not_Nil [simp]: "split_on c s \<noteq> []"
  by (induction s) (auto split: list.splits)

lemma join_split_on [simp]: "join_with [c] (split_on c s) = s"
proof (induction s)
  case (Cons x xs)
  then show ?case by (cases "split_on c xs" rule: remdups_adj.cases) auto
qed simp

lemma split_on_pieces: "w \<in> set (split_on c s) \<Longrightarrow> c \<notin> set w"
proof (induction s arbitrary: w)
  case (Cons x xs)
  then show ?case by (cases "split_on c xs") (auto split: if_splits)
qed simp

lemma split_on_set: "w \<in> set (split_on c s) \<Longrightarrow> set w \<subseteq> set s"
proof (induction s arbitrary: w)
  case (Cons x xs)
  then show ?case by (cases "split_on c xs") (fastforce split: if_splits)+
qed simp

lemma split_on_no_sep: "c \<notin> set w \<Longrightarrow> split_on c w = [w]"
  by (induction w) auto

lemma split_on_append_sep: "c \<notin> set w \<Longrightarrow> split_on c (w @ c # s) = w # split_on c s"
  by (induction w) auto

lemma split_on_append: "split_on c (x @ c # y) = split_on c x @ split_on c y"
proof (induction x)
  case (Cons a x)
  then show ?case by (cases "split_on c x") auto
qed simp

lemma split_on_join:
  "ws \<noteq> [] \<Longrightarrow> \<forall>w \<in> set ws. c \<notin> set w \<Longrightarrow> split_on c (join_with [c] ws) = ws"
  by (induction "[c]" ws rule: join_with.induct) (auto simp: split_on_no_sep split_on_append_sep)

lemma join_with_Cons: "ws \<noteq> [] \<Longrightarrow> join_with sep (w # ws) = w @ sep @ join_with sep ws"
  by (cases ws) auto

lemma set_join_with: "set (join_with sep ws) \<subseteq> set sep \<union> (\<Union>w \<in> set ws. set w)"
  by (induction sep ws rule: join_with.induct) auto

lemma split_once_Some: "split_once p s = Some (a, b) \<Longrightarrow> s = a @ p @ b"
proof (induction p s arbitrary: a b rule: split_once.induct)
  case (2 p c cs)
  then show ?case
    by (auto split: option.splits prod.splits simp: strip_prefix_Some)
qed (auto split: if_splits)

lemma split_once_None: "split_once p s = None \<longleftrightarrow> \<not> contains_str p s"
proof (induction p s rule: split_once.induct)
  case (2 p c cs)
  then show ?case
    by (auto simp: starts_with_def split: option.splits prod.splits)
qed auto

lemma split_once_first:
  "c \<notin> set a \<Longrightarrow> split_once [c] (a @ c # b) = Some (a, b)"
  by (induction a) auto

lemma split_once_not_in: "split_once [c] s = Some (a, b) \<Longrightarrow> c \<notin> set a"
proof (induction s arbitrary: a)
  case (Cons x xs)
  show ?case
  proof (cases "x = c")
    case True
    with Cons.prems show ?thesis by simp
  next
    case False
    with Cons.prems obtain a' where "split_once [c] xs = Some (a', b)" and "a = x # a'"
      by (auto split: option.splits)
    with Cons.IH False show ?thesis by auto
  qed
qed simp

lemma split_once_char: "split_once [c] s = Some (a, b) \<longleftrightarrow> s = a @ c # b \<and> c \<notin> set a"
proof
  assume h: "split_once [c] s = Some (a, b)"
  show "s = a @ c # b \<and> c \<notin> set a"
    using split_once_Some [OF h] split_once_not_in [OF h] by simp
next
  assume "s = a @ c # b \<and> c \<notin> set a"
  then show "split_once [c] s = Some (a, b)" by (simp add: split_once_first)
qed

lemma rsplit_once_split:
  "rsplit_once p s = Some (a, b) \<longleftrightarrow> split_once (rev p) (rev s) = Some (rev b, rev a)"
  by (cases "split_once (rev p) (rev s)") (auto simp: rsplit_once_def split: prod.splits)

lemma rsplit_once_char: "rsplit_once [c] s = Some (a, b) \<longleftrightarrow> s = a @ c # b \<and> c \<notin> set b"
proof -
  have "rev s = rev b @ c # rev a \<longleftrightarrow> s = a @ c # b"
    by (metis append_Cons append_assoc append_Nil rev.simps(2) rev_append rev_is_rev_conv)
  then show ?thesis by (simp add: rsplit_once_split split_once_char)
qed

lemma trim_start_while_id: "s = [] \<or> \<not> P (hd s) \<Longrightarrow> trim_start_while P s = s"
  by (cases s) (auto simp: trim_start_while_def)

lemma trim_start_while_hd: "trim_start_while P s \<noteq> [] \<Longrightarrow> \<not> P (hd (trim_start_while P s))"
  by (simp add: trim_start_while_def hd_dropWhile)

lemma trim_end_while_id: "s = [] \<or> \<not> P (last s) \<Longrightarrow> trim_end_while P s = s"
  by (cases s rule: rev_cases) (auto simp: trim_end_while_def)

lemma trim_end_while_last: "trim_end_while P s \<noteq> [] \<Longrightarrow> \<not> P (last (trim_end_while P s))"
  by (simp add: trim_end_while_def last_rev hd_dropWhile)

lemma trim_end_while_hd: "trim_end_while P s \<noteq> [] \<Longrightarrow> hd (trim_end_while P s) = hd s"
proof -
  assume ne: "trim_end_while P s \<noteq> []"
  have "rev s = takeWhile P (rev s) @ dropWhile P (rev s)" by simp
  then have "s = rev (dropWhile P (rev s)) @ rev (takeWhile P (rev s))"
    by (metis rev_append rev_rev_ident)
  then have "s = trim_end_while P s @ rev (takeWhile P (rev s))"
    by (simp add: trim_end_while_def)
  with ne show ?thesis by (metis hd_append2)
qed

lemma trim_end_while_snoc [simp]: "P c \<Longrightarrow> trim_end_while P (s @ [c]) = trim_end_while P s"
  by (simp add: trim_end_while_def)

lemma trim_trimmed: "s = [] \<or> \<not> is_space (hd s) \<and> \<not> is_space (last s) \<Longrightarrow> trim s = s"
  by (simp only: trim_def trim_start_def trim_end_def trim_start_while_id trim_end_while_id)
    (metis trim_start_while_id trim_end_while_id)

lemma trim_hd_last: "trim s \<noteq> [] \<Longrightarrow> \<not> is_space (hd (trim s)) \<and> \<not> is_space (last (trim s))"
  by (metis (no_types, lifting) trim_def trim_end_def trim_end_while_hd trim_end_while_last
      trim_start_def trim_start_while_hd trim_end_while_def dropWhile.simps(1) rev.simps(1))

lemma trim_idem [simp]: "trim (trim s) = trim s"
  using trim_hd_last [of s] by (intro trim_trimmed) blast

lemma trim_prefixes_no_prefix: "p \<noteq> [] \<Longrightarrow> \<not> starts_with p (trim_prefixes p s)"
proof (induction p s rule: trim_prefixes.induct)
  case (1 p s)
  then show ?case
    by (subst trim_prefixes.simps) (auto simp: starts_with_def split: option.splits)
qed

lemma trim_prefixes_id: "\<not> starts_with p s \<Longrightarrow> trim_prefixes p s = s"
  by (subst trim_prefixes.simps) (auto simp: starts_with_def split: option.splits)

lemma digits_val_snoc: "digits_val (ds @ [d]) = 10 * digits_val ds + digit_val d"
  by (simp add: digits_val_def)

lemma digit_char: "n < 10 \<Longrightarrow> is_ascii_digit (char_of (48 + n)) \<and> digit_val (char_of (48 + n)) = n"
  by (simp add: is_ascii_digit_def digit_val_def)

lemma show_nat_digits: "list_all is_ascii_digit (show_nat n) \<and> show_nat n \<noteq> [] \<and> digits_val (show_nat n) = n"
proof (induction n rule: show_nat.induct)
  case (1 n)
  show ?case
  proof (cases "n < 10")
    case True
    with digit_char [OF True] show ?thesis
      by (simp add: show_nat.simps [of n] digits_val_def)
  next
    case False
    with 1 digit_char [of "n mod 10"] show ?thesis
      by (simp add: show_nat.simps [of n] digits_val_snoc)
  qed
qed

lemma plus_not_digit: "\<not> is_ascii_digit (CHR ''+'')"
  by (simp add: is_ascii_digit_def)

lemma show_nat_no_plus: "strip_prefix ''+'' (show_nat n) = None"
  using show_nat_digits [of n] plus_not_digit by (cases "show_nat n") auto

lemma parse_u64_show [simp]: "parse_u64 (show_nat (unat w)) = Some w"
proof -
  have "unat w < 2 ^ 64" using unsigned_less [of w] by simp
  then show ?thesis
    using show_nat_digits [of "unat w"] by (simp add: parse_u64_def show_nat_no_plus)
qed

section \<open>Statements against a fallible store\<close>

text \<open>
  Every query of the program returns a \<open>Result\<close>; the sources follow it with \<open>?\<close> or match on it.
  A statement is a function from the state to a result and the next state. The state of a
  component extends \<open>conn\<close>, whose field \<open>faults\<close> scripts which of the coming statements fail:
  each statement consumes one entry, \<open>True\<close> makes it fail without effect, and after the end of
  the script every statement succeeds. Quantifying over the script covers every failure pattern.
\<close>

record conn =
  faults :: "bool list"

type_synonym ('s, 'e, 'a) stm = "'s \<Rightarrow> ('e + 'a) \<times> 's"

definition ret :: "'a \<Rightarrow> ('s, 'e, 'a) stm" where
  "ret a s = (Inr a, s)"

definition fail :: "'e \<Rightarrow> ('s, 'e, 'a) stm" where
  "fail e s = (Inl e, s)"

text \<open>\<open>m?\<close> followed by the continuation.\<close>

definition bind_ok :: "('s, 'e, 'a) stm \<Rightarrow> ('a \<Rightarrow> ('s, 'e, 'b) stm) \<Rightarrow> ('s, 'e, 'b) stm" where
  "bind_ok m k s = (case m s of (Inl e, t) \<Rightarrow> (Inl e, t) | (Inr a, t) \<Rightarrow> k a t)"

text \<open>\<open>match m\<close>: the continuation sees the result, error or not.\<close>

definition bind_res :: "('s, 'e, 'a) stm \<Rightarrow> ('e + 'a \<Rightarrow> ('s, 'f, 'b) stm) \<Rightarrow> ('s, 'f, 'b) stm" where
  "bind_res m k s = (case m s of (r, t) \<Rightarrow> k r t)"

definition map_err :: "('e \<Rightarrow> 'f) \<Rightarrow> ('s, 'e, 'a) stm \<Rightarrow> ('s, 'f, 'a) stm" where
  "map_err f m s = (case m s of (Inl e, t) \<Rightarrow> (Inl (f e), t) | (Inr a, t) \<Rightarrow> (Inr a, t))"

definition from_result :: "'e + 'a \<Rightarrow> ('s, 'e, 'a) stm" where
  "from_result r s = (r, s)"

definition exec_sql ::
  "'e \<Rightarrow> ('z conn_scheme \<Rightarrow> 'a \<times> 'z conn_scheme) \<Rightarrow> ('z conn_scheme, 'e, 'a) stm" where
  "exec_sql e f s =
     (case faults s of
        [] \<Rightarrow> (case f s of (a, t) \<Rightarrow> (Inr a, t))
      | b # bs \<Rightarrow>
          if b then (Inl e, s\<lparr>faults := bs\<rparr>)
          else (case f (s\<lparr>faults := bs\<rparr>) of (a, t) \<Rightarrow> (Inr a, t)))"

text \<open>A query that only reads, and a statement that only writes.\<close>

definition select_sql :: "'e \<Rightarrow> ('z conn_scheme \<Rightarrow> 'a) \<Rightarrow> ('z conn_scheme, 'e, 'a) stm" where
  "select_sql e g = exec_sql e (\<lambda>s. (g s, s))"

definition update_sql :: "'e \<Rightarrow> ('z conn_scheme \<Rightarrow> 'z conn_scheme) \<Rightarrow> ('z conn_scheme, 'e, unit) stm" where
  "update_sql e u = exec_sql e (\<lambda>s. ((), u s))"

lemma bind_ok_ret [db_simps]: "bind_ok (ret a) k = k a"
  by (rule ext) (simp add: bind_ok_def ret_def)

lemma bind_ok_fail [db_simps]: "bind_ok (fail e) k = fail e"
  by (rule ext) (simp add: bind_ok_def fail_def)

lemma bind_res_ret [db_simps]: "bind_res (ret a) k = k (Inr a)"
  by (rule ext) (simp add: bind_res_def ret_def)

lemma ret_app [db_simps]: "ret a s = (Inr a, s)"
  by (simp add: ret_def)

lemma fail_app [db_simps]: "fail e s = (Inl e, s)"
  by (simp add: fail_def)

lemma from_result_app [db_simps]: "from_result r s = (r, s)"
  by (simp add: from_result_def)

lemma bind_ok_InrD:
  "bind_ok m k s = (Inr b, u) \<Longrightarrow> \<exists>a t. m s = (Inr a, t) \<and> k a t = (Inr b, u)"
  by (auto simp: bind_ok_def split: prod.splits sum.splits)

lemma bind_ok_Inr_iff:
  "bind_ok m k s = (Inr b, u) \<longleftrightarrow> (\<exists>a t. m s = (Inr a, t) \<and> k a t = (Inr b, u))"
  by (auto simp: bind_ok_def split: prod.splits sum.splits)

lemma bind_ok_Inl_iff:
  "bind_ok m k s = (Inl e, u) \<longleftrightarrow>
     m s = (Inl e, u) \<or> (\<exists>a t. m s = (Inr a, t) \<and> k a t = (Inl e, u))"
  by (auto simp: bind_ok_def split: prod.splits sum.splits)

lemma map_err_Inr: "map_err f m s = (Inr a, t) \<longleftrightarrow> m s = (Inr a, t)"
  by (auto simp: map_err_def split: prod.splits sum.splits)

lemma bind_ok_Inr [simp]: "m s = (Inr a, t) \<Longrightarrow> bind_ok m k s = k a t"
  by (simp add: bind_ok_def)

lemma bind_ok_Inl [simp]: "m s = (Inl e, t) \<Longrightarrow> bind_ok m k s = (Inl e, t)"
  by (simp add: bind_ok_def)

lemma bind_res_app [simp]: "m s = (r, t) \<Longrightarrow> bind_res m k s = k r t"
  by (simp add: bind_res_def)

lemma exec_sql_no_faults:
  "faults s = [] \<Longrightarrow> exec_sql e f s = (case f s of (a, t) \<Rightarrow> (Inr a, t))"
  by (simp add: exec_sql_def)

lemma select_sql_no_faults [simp]: "faults s = [] \<Longrightarrow> select_sql e g s = (Inr (g s), s)"
  by (simp add: select_sql_def exec_sql_def)

lemma update_sql_no_faults [simp]: "faults s = [] \<Longrightarrow> update_sql e u s = (Inr (), u s)"
  by (simp add: update_sql_def exec_sql_def)

text \<open>What is left of the script after a statement, and what a read returns when it succeeds: its
  value at the state it started from, whose data it does not change.\<close>

lemma select_sql_cases:
  obtains (failed) bs where "faults s = True # bs" and "select_sql e g s = (Inl e, s\<lparr>faults := bs\<rparr>)"
  | (succeeded) "select_sql e g s = (Inr (g (s\<lparr>faults := tl (faults s)\<rparr>)), s\<lparr>faults := tl (faults s)\<rparr>)"
proof (cases "faults s")
  case Nil
  then have same: "s\<lparr>faults := []\<rparr> = s" by (metis conn.surjective conn.update_convs(1))
  show ?thesis by (rule succeeded) (simp add: select_sql_def exec_sql_def Nil same)
next
  case (Cons b bs)
  show ?thesis
  proof (cases b)
    case True
    with Cons show ?thesis by (intro failed) (auto simp: select_sql_def exec_sql_def)
  next
    case False
    with Cons show ?thesis by (intro succeeded) (auto simp: select_sql_def exec_sql_def)
  qed
qed

lemma update_sql_cases:
  obtains (failed) bs where "faults s = True # bs" and "update_sql e u s = (Inl e, s\<lparr>faults := bs\<rparr>)"
  | (succeeded) "update_sql e u s = (Inr (), u (s\<lparr>faults := tl (faults s)\<rparr>))"
proof (cases "faults s")
  case Nil
  then have same: "s\<lparr>faults := []\<rparr> = s" by (metis conn.surjective conn.update_convs(1))
  show ?thesis by (rule succeeded) (simp add: update_sql_def exec_sql_def Nil same)
next
  case (Cons b bs)
  show ?thesis
  proof (cases b)
    case True
    with Cons show ?thesis by (intro failed) (auto simp: update_sql_def exec_sql_def)
  next
    case False
    with Cons show ?thesis by (intro succeeded) (auto simp: update_sql_def exec_sql_def)
  qed
qed

text \<open>A statement that can also fail on a constraint of the schema: then it has no effect.\<close>

definition try_sql ::
  "'e \<Rightarrow> ('z conn_scheme \<Rightarrow> 'e + 'a \<times> 'z conn_scheme) \<Rightarrow> ('z conn_scheme, 'e, 'a) stm" where
  "try_sql e f s =
     (case faults s of
        [] \<Rightarrow> (case f s of Inl e' \<Rightarrow> (Inl e', s) | Inr (a, t) \<Rightarrow> (Inr a, t))
      | b # bs \<Rightarrow>
          let s' = s\<lparr>faults := bs\<rparr>
          in if b then (Inl e, s')
             else (case f s' of Inl e' \<Rightarrow> (Inl e', s') | Inr (a, t) \<Rightarrow> (Inr a, t)))"

lemma set_faults_same: "faults s = bs \<Longrightarrow> s\<lparr>faults := bs\<rparr> = s"
  by (metis conn.surjective conn.update_convs(1))

lemma set_faults_iff [simp]:
  "s\<lparr>faults := bs\<rparr> = s \<longleftrightarrow> bs = faults s" "s = s\<lparr>faults := bs\<rparr> \<longleftrightarrow> bs = faults s"
  using set_faults_same [of s bs] by (metis conn.select_convs(1) conn.surjective conn.update_convs(1))+

lemma try_sql_Inr:
  assumes "try_sql e f s = (Inr a, t)"
  shows "f (s\<lparr>faults := tl (faults s)\<rparr>) = Inr (a, t)"
proof (cases "faults s")
  case Nil
  with assms show ?thesis
    by (auto simp: try_sql_def set_faults_same [OF Nil] split: sum.splits prod.splits)
next
  case (Cons b bs)
  with assms show ?thesis
    by (auto simp: try_sql_def Let_def split: sum.splits prod.splits if_splits)
qed

lemma try_sql_no_faults:
  "faults s = [] \<Longrightarrow> try_sql e f s = (case f s of Inl e' \<Rightarrow> (Inl e', s) | Inr (a, t) \<Rightarrow> (Inr a, t))"
  by (simp add: try_sql_def)

lemma exec_sql_Inr:
  assumes "exec_sql e f s = (Inr a, t)"
  shows "f (s\<lparr>faults := tl (faults s)\<rparr>) = (a, t)"
proof (cases "faults s")
  case Nil
  with assms show ?thesis
    by (auto simp: exec_sql_def set_faults_same [OF Nil] split: prod.splits)
next
  case (Cons b bs)
  with assms show ?thesis by (auto simp: exec_sql_def split: prod.splits if_splits)
qed

lemma update_sql_Inr:
  "update_sql e u s = (Inr x, t) \<Longrightarrow> t = u (s\<lparr>faults := tl (faults s)\<rparr>)"
  by (auto simp: update_sql_def dest: exec_sql_Inr)

lemma select_sql_Inr:
  "select_sql e g s = (Inr a, t) \<Longrightarrow>
     a = g (s\<lparr>faults := tl (faults s)\<rparr>) \<and> t = s\<lparr>faults := tl (faults s)\<rparr>"
  by (auto simp: select_sql_def dest: exec_sql_Inr)

section \<open>Programs that only read\<close>

text \<open>\<open>reads m g\<close>: whatever statements fail, \<open>m\<close> changes nothing but the script of failures; if it
  returns a value this is \<open>g\<close> of the state it started from; and it returns one when no statement
  fails. The rules follow the structure of the code, so the result of a composed query is the
  composition of the results.\<close>

definition stable :: "('z conn_scheme \<Rightarrow> 'a) \<Rightarrow> bool" where
  "stable g = (\<forall>s bs. g (s\<lparr>faults := bs\<rparr>) = g s)"

definition reads :: "('z conn_scheme, 'e, 'a) stm \<Rightarrow> ('z conn_scheme \<Rightarrow> 'a) \<Rightarrow> bool" where
  "reads m g =
     (\<forall>s. (\<exists>bs. snd (m s) = s\<lparr>faults := bs\<rparr>) \<and>
          (\<forall>a. fst (m s) = Inr a \<longrightarrow> a = g s) \<and>
          (faults s = [] \<longrightarrow> m s = (Inr (g s), s)))"

lemma readsD:
  assumes "reads m g" and "m s = (r, t)"
  shows "\<exists>bs. t = s\<lparr>faults := bs\<rparr>" and "r = Inr a \<Longrightarrow> a = g s"
proof -
  have r: "(\<exists>bs. snd (m s) = s\<lparr>faults := bs\<rparr>) \<and> (\<forall>a. fst (m s) = Inr a \<longrightarrow> a = g s)"
    using assms(1) unfolding reads_def by blast
  show "\<exists>bs. t = s\<lparr>faults := bs\<rparr>" using r assms(2) by simp
  show "r = Inr a \<Longrightarrow> a = g s" using r assms(2) by (metis fst_conv)
qed

lemma readsI:
  assumes "\<And>s r t. m s = (r, t) \<Longrightarrow> \<exists>bs. t = s\<lparr>faults := bs\<rparr>"
    and "\<And>s a t. m s = (Inr a, t) \<Longrightarrow> a = g s"
    and "\<And>s. faults s = [] \<Longrightarrow> m s = (Inr (g s), s)"
  shows "reads m g"
  unfolding reads_def using assms by (metis prod.collapse)

lemma reads_no_faults: "reads m g \<Longrightarrow> faults s = [] \<Longrightarrow> m s = (Inr (g s), s)"
  unfolding reads_def by blast

lemma stable_const [simp]: "stable (\<lambda>s. c)"
  by (simp add: stable_def)

lemma reads_ret: "reads (ret a) (\<lambda>s. a)"
  by (rule readsI) (auto simp: ret_def intro: exI [of _ "faults s" for s] set_faults_same [symmetric])

lemma reads_select:
  assumes "stable g"
  shows "reads (select_sql e g) g"
proof (rule readsI)
  fix s r t
  assume h: "select_sql e g s = (r, t)"
  show "\<exists>bs. t = s\<lparr>faults := bs\<rparr>"
    by (rule select_sql_cases [of s e g]) (use h in auto)
next
  fix s a t
  assume "select_sql e g s = (Inr a, t)"
  then show "a = g s" using assms by (auto simp: stable_def dest: select_sql_Inr)
qed simp

lemma reads_bind:
  assumes m: "reads m g" and k: "\<And>a. reads (k a) (h a)" and st: "\<And>a. stable (h a)"
  shows "reads (bind_ok m k) (\<lambda>s. h (g s) s)"
proof (rule readsI)
  fix s r t
  assume h: "bind_ok m k s = (r, t)"
  obtain r1 t1 where m1: "m s = (r1, t1)" by fastforce
  obtain bs where t1: "t1 = s\<lparr>faults := bs\<rparr>" using readsD(1) [OF m m1] by blast
  show "\<exists>bs. t = s\<lparr>faults := bs\<rparr>"
  proof (cases r1)
    case (Inl e)
    with h m1 t1 show ?thesis by auto
  next
    case (Inr a)
    with h m1 have "k a t1 = (r, t)" by simp
    from readsD(1) [OF k this] show ?thesis by (auto simp: t1)
  qed
next
  fix s b t
  assume "bind_ok m k s = (Inr b, t)"
  then obtain a t1 where m1: "m s = (Inr a, t1)" and k1: "k a t1 = (Inr b, t)"
    by (auto simp: bind_ok_Inr_iff)
  obtain bs where t1: "t1 = s\<lparr>faults := bs\<rparr>" using readsD(1) [OF m m1] by blast
  have "a = g s" using readsD(2) [OF m m1] by simp
  moreover have "b = h a t1" using readsD(2) [OF k k1] by simp
  ultimately show "b = h (g s) s" using st by (simp add: stable_def t1)
next
  fix s :: "'a conn_scheme"
  assume "faults s = []"
  then show "bind_ok m k s = (Inr (h (g s) s), s)"
    by (simp add: reads_no_faults [OF m] reads_no_faults [OF k])
qed

lemma reads_map_err:
  assumes m: "reads m g"
  shows "reads (map_err f m) g"
proof (rule readsI)
  fix s r t
  assume h: "map_err f m s = (r, t)"
  then obtain r1 where m1: "m s = (r1, t)"
    by (auto simp: map_err_def split: prod.splits sum.splits)
  from readsD(1) [OF m m1] show "\<exists>bs. t = s\<lparr>faults := bs\<rparr>" .
next
  fix s a t
  assume "map_err f m s = (Inr a, t)"
  then have "m s = (Inr a, t)" by (auto simp: map_err_def split: prod.splits sum.splits)
  from readsD(2) [OF m this] show "a = g s" by simp
next
  fix s :: "'a conn_scheme"
  assume "faults s = []"
  then show "map_err f m s = (Inr (g s), s)" by (simp add: map_err_def reads_no_faults [OF m])
qed

lemma reads_cong: "reads m g \<Longrightarrow> (\<And>s. g s = h s) \<Longrightarrow> reads m h"
  using ext [of g h] by blast

lemma reads_if: "(b \<Longrightarrow> reads m g) \<Longrightarrow> (\<not> b \<Longrightarrow> reads n h) \<Longrightarrow>
    reads (if b then m else n) (\<lambda>s. if b then g s else h s)"
  by simp

lemma reads_option:
  "(x = None \<Longrightarrow> reads m g) \<Longrightarrow> (\<And>a. x = Some a \<Longrightarrow> reads (n a) (h a)) \<Longrightarrow>
    reads (case x of None \<Rightarrow> m | Some a \<Rightarrow> n a) (\<lambda>s. case x of None \<Rightarrow> g s | Some a \<Rightarrow> h a s)"
  by (cases x) auto

section \<open>What a program leaves alone\<close>

text \<open>\<open>preserves same m\<close>: whatever the outcome of \<open>m\<close>, the states before and after are related. The
  contract of \<open>frame\<close> makes it compositional: each component names the part of its state that a
  group of statements must not touch, and gets the rules that follow the structure of the code.\<close>

definition preserves :: "('s \<Rightarrow> 's \<Rightarrow> bool) \<Rightarrow> ('s, 'e, 'a) stm \<Rightarrow> bool" where
  "preserves same m \<longleftrightarrow> (\<forall>s r t. m s = (r, t) \<longrightarrow> same s t)"

named_theorems frame_intros \<open>statements that leave a part of the state alone\<close>

lemma preservesD: "preserves same m \<Longrightarrow> m s = (r, t) \<Longrightarrow> same s t"
  unfolding preserves_def by blast

lemma preservesI: "(\<And>s r t. m s = (r, t) \<Longrightarrow> same s t) \<Longrightarrow> preserves same m"
  unfolding preserves_def by blast

locale frame =
  fixes same :: "'z conn_scheme \<Rightarrow> 'z conn_scheme \<Rightarrow> bool"
  assumes same_refl [simp]: "same s s"
    and same_trans: "same s t \<Longrightarrow> same t u \<Longrightarrow> same s u"
    and same_faults: "same s (s\<lparr>faults := bs\<rparr>)"
begin

lemma frame_pure [frame_intros]:
  "preserves same (ret a)" "preserves same (fail e)" "preserves same (from_result x)"
  by (simp_all add: preserves_def ret_def fail_def from_result_def)

lemma frame_read: "preserves same (\<lambda>s. ret (g s) s)"
  by (simp add: preserves_def ret_def)

lemma frame_bind [frame_intros]:
  assumes m: "preserves same m" and k: "\<And>a. preserves same (k a)"
  shows "preserves same (bind_ok m k)"
proof (rule preservesI)
  fix s r t
  assume run: "bind_ok m k s = (r, t)"
  obtain r1 t1 where m1: "m s = (r1, t1)" by fastforce
  have first: "same s t1" by (rule preservesD [OF m m1])
  show "same s t"
  proof (cases r1)
    case (Inl e)
    then show ?thesis using run m1 first by simp
  next
    case (Inr a)
    then have "k a t1 = (r, t)" using run m1 by simp
    from same_trans [OF first preservesD [OF k this]] show ?thesis .
  qed
qed

lemma frame_res [frame_intros]:
  assumes m: "preserves same m" and k: "\<And>x. preserves same (k x)"
  shows "preserves same (bind_res m k)"
proof (rule preservesI)
  fix s r t
  assume run: "bind_res m k s = (r, t)"
  obtain x t1 where m1: "m s = (x, t1)" by fastforce
  with run have "k x t1 = (r, t)" by simp
  from same_trans [OF preservesD [OF m m1] preservesD [OF k this]] show "same s t" .
qed

text \<open>The same for one run, when what follows depends on the state it meets.\<close>

lemma frame_run:
  assumes "bind_ok m k s = (r, u)"
    and "\<And>x t. m s = (x, t) \<Longrightarrow> same s t"
    and "\<And>a t. m s = (Inr a, t) \<Longrightarrow> k a t = (r, u) \<Longrightarrow> same t u"
  shows "same s u"
proof -
  obtain x t where m: "m s = (x, t)" by fastforce
  note first = assms(2) [OF m]
  show ?thesis
  proof (cases x)
    case (Inl e)
    with assms(1) m first show ?thesis by simp
  next
    case (Inr a)
    with assms(1) m have "k a t = (r, u)" by simp
    from same_trans [OF first assms(3) [OF m [unfolded Inr] this]] show ?thesis .
  qed
qed

lemma frame_exec:
  assumes "\<And>s. same s (snd (f s))"
  shows "preserves same (exec_sql e f)"
proof (rule preservesI)
  fix s r t
  assume run: "exec_sql e f s = (r, t)"
  have step: "same s (snd (f (s\<lparr>faults := bs\<rparr>)))" for bs
    using same_trans [OF same_faults assms] .
  show "same s t"
    using run step [of "tl (faults s)"] assms [of s] same_faults [of s "tl (faults s)"]
    by (auto simp: exec_sql_def split: list.splits if_splits prod.splits)
qed

lemma frame_select [frame_intros]: "preserves same (select_sql e g)"
  unfolding select_sql_def by (rule frame_exec) simp

lemma frame_update: "(\<And>s. same s (u s)) \<Longrightarrow> preserves same (update_sql e u)"
  unfolding update_sql_def by (rule frame_exec) simp

lemma frame_try:
  assumes "\<And>s a t. f s = Inr (a, t) \<Longrightarrow> same s t"
  shows "preserves same (try_sql e f)"
proof (rule preservesI)
  fix s r t
  assume run: "try_sql e f s = (r, t)"
  show "same s t"
  proof (cases r)
    case (Inl x)
    then have "\<exists>bs. t = s\<lparr>faults := bs\<rparr>"
      using run by (auto simp: try_sql_def Let_def split: list.splits if_splits sum.splits)
    then show ?thesis using same_faults by auto
  next
    case (Inr a)
    from same_trans [OF same_faults assms [OF try_sql_Inr [OF run [unfolded Inr]]]] show ?thesis .
  qed
qed

lemma frame_map_err [frame_intros]: "preserves same m \<Longrightarrow> preserves same (map_err f m)"
  unfolding preserves_def map_err_def by (auto split: prod.splits sum.splits)

lemma frame_if [frame_intros]: "preserves same m \<Longrightarrow> preserves same n \<Longrightarrow> preserves same (if b then m else n)"
  by simp

lemma frame_option [frame_intros]:
  "preserves same m \<Longrightarrow> (\<And>a. preserves same (n a)) \<Longrightarrow>
    preserves same (case x of None \<Rightarrow> m | Some a \<Rightarrow> n a)"
  by (cases x) auto

lemma frame_sum [frame_intros]:
  "(\<And>a. preserves same (m a)) \<Longrightarrow> (\<And>b. preserves same (n b)) \<Longrightarrow>
    preserves same (case x of Inl a \<Rightarrow> m a | Inr b \<Rightarrow> n b)"
  by (cases x) auto

lemma frame_pair [frame_intros]: "(\<And>a b. preserves same (n a b)) \<Longrightarrow> preserves same (case p of (a, b) \<Rightarrow> n a b)"
  by (cases p) auto

end

section \<open>Keyed stores\<close>

lemma map_of_filter_distinct:
  "distinct (map fst tbl) \<Longrightarrow> map_of (filter Q tbl) i =
     (case map_of tbl i of None \<Rightarrow> None | Some v \<Rightarrow> if Q (i, v) then Some v else None)"
proof (induction tbl)
  case (Cons e tbl)
  obtain k v where e: "e = (k, v)" by (rule prod.exhaust)
  have "k \<notin> fst ` set tbl" using Cons.prems by (simp add: e)
  then have "map_of tbl k = None" by (simp add: map_of_eq_None_iff)
  with Cons show ?case by (auto simp: e)
qed simp

text \<open>The contract of a store with one value per key: the session table, the token cache and the
  cache of virtual repositories keep it, and what a sequence of removals leaves is derived from it
  once.\<close>

locale keyed_store =
  fixes lookup :: "'m \<Rightarrow> 'k \<Rightarrow> 'v option"
    and insert_key :: "'k \<Rightarrow> 'v \<Rightarrow> 'm \<Rightarrow> 'm"
    and remove_key :: "'k \<Rightarrow> 'm \<Rightarrow> 'm"
  assumes lookup_insert: "lookup (insert_key k v m) j = (if j = k then Some v else lookup m j)"
    and lookup_remove: "lookup (remove_key k m) j = (if j = k then None else lookup m j)"
begin

lemma lookup_remove_all:
  "lookup (fold remove_key ks m) j = (if j \<in> set ks then None else lookup m j)"
  by (induction ks arbitrary: m) (auto simp: lookup_remove)

lemma insert_then_remove: "lookup (remove_key k (insert_key k v m)) j = lookup (remove_key k m) j"
  by (simp add: lookup_insert lookup_remove)

lemma last_insert_wins: "lookup (insert_key k w (insert_key k v m)) j = lookup (insert_key k w m) j"
  by (simp add: lookup_insert)

end

end
