(* ===== verification/StoragePath.thy ===== *)
theory StoragePath
  imports Prelude
begin

text \<open>
  Storage paths (crates/core/src/storage/storage_path.rs): the UTF-8 path below the root of a
  repository that every storage operation takes. The record is the struct; \<open>path_from\<close> is
  \<open>From<&str>\<close>, \<open>from_untrusted\<close> the parser for request paths, \<open>path_to_string\<close> the \<open>Display\<close> and
  \<open>Serialize\<close> text, \<open>to_path_buf\<close> the conversion to a file-system path.
\<close>

datatype storage_path_error = InvalidPath

record storage_path =
  components :: "string list"
  trailing_slash :: "bool option"

definition should_add_slash :: "string \<Rightarrow> bool option" where
  "should_add_slash component =
     (if ends_with ''/'' component then Some True
      else if contains_str ''.'' component then Some False
      else None)"

text \<open>\<open>StoragePathComponent::try_from\<close>.\<close>

definition component_try_from :: "string \<Rightarrow> storage_path_error + string" where
  "component_try_from value =
     (if value = '''' then Inl InvalidPath
      else if contains_str ''/'' value then Inl InvalidPath
      else Inr value)"

definition path_from :: "string \<Rightarrow> storage_path" where
  "path_from value =
     \<lparr>components = filter (\<lambda>v. v \<noteq> []) (split_on (CHR ''/'') value),
      trailing_slash = should_add_slash value\<rparr>"

definition bad_component :: "string \<Rightarrow> bool" where
  "bad_component c =
     (c = ''.'' \<or> c = ''..'' \<or> CHR 0x5C \<in> set c \<or> CHR 0x00 \<in> set c)"

definition validate :: "storage_path \<Rightarrow> storage_path_error + unit" where
  "validate p = (if list_ex bad_component (components p) then Inl InvalidPath else Inr ())"

definition from_untrusted :: "string \<Rightarrow> storage_path_error + storage_path" where
  "from_untrusted value =
     (if value = '''' \<or> value = ''/'' then Inr (path_from value)
      else if starts_with ''/'' value \<or> starts_with [CHR 0x5C] value \<or> contains_str ''//'' value
      then Inl InvalidPath
      else let path = path_from value
           in case validate path of Inl e \<Rightarrow> Inl e | Inr _ \<Rightarrow> Inr path)"

definition parent :: "storage_path \<Rightarrow> storage_path" where
  "parent p = \<lparr>components = butlast (components p), trailing_slash = Some True\<rparr>"

definition number_of_components :: "storage_path \<Rightarrow> nat" where
  "number_of_components p = length (components p)"

definition has_extension :: "storage_path \<Rightarrow> string \<Rightarrow> bool" where
  "has_extension p extension =
     (if trailing_slash p = Some True then False
      else case components p of [] \<Rightarrow> False | cs \<Rightarrow> ends_with extension (last cs))"

text \<open>\<open>push\<close> and \<open>push_mut\<close>.\<close>

definition push :: "storage_path \<Rightarrow> string \<Rightarrow> storage_path" where
  "push p component =
     (let new_path = path_from component
      in \<lparr>components = components p @ components new_path,
          trailing_slash = trailing_slash new_path\<rparr>)"

definition is_directory :: "storage_path \<Rightarrow> bool" where
  "is_directory p = (trailing_slash p = Some True)"

definition from_components :: "string list \<Rightarrow> storage_path" where
  "from_components cs = \<lparr>components = cs, trailing_slash = None\<rparr>"

definition path_to_string :: "storage_path \<Rightarrow> string" where
  "path_to_string p =
     join_with ''/'' (components p) @ (if trailing_slash p = Some True then ''/'' else '''')"

text \<open>\<open>PathBuf::push\<close> on Unix: an absolute argument replaces the path, a relative one is appended
  behind a separator.\<close>

definition pathbuf_push :: "string \<Rightarrow> string \<Rightarrow> string" where
  "pathbuf_push base p =
     (if starts_with ''/'' p then p
      else if base = '''' \<or> ends_with ''/'' base then base @ p
      else base @ ''/'' @ p)"

definition to_path_buf :: "storage_path \<Rightarrow> string" where
  "to_path_buf p = foldl pathbuf_push '''' (components p)"

section \<open>Well-formed paths\<close>

text \<open>Every component a parsed path holds is non-empty and free of separators, and the flag agrees
  with the text.\<close>

definition wf_components :: "string list \<Rightarrow> bool" where
  "wf_components cs = list_all (\<lambda>c. c \<noteq> [] \<and> CHR ''/'' \<notin> set c) cs"

lemma wf_path_from: "wf_components (components (path_from s))"
  using split_on_pieces by (fastforce simp: wf_components_def path_from_def list_all_iff)

lemma wf_push: "wf_components (components p) \<Longrightarrow> wf_components (components (push p c))"
  using wf_path_from [of c] by (simp add: push_def Let_def wf_components_def)

lemma wf_parent: "wf_components (components p) \<Longrightarrow> wf_components (components (parent p))"
  by (auto simp: parent_def wf_components_def list_all_iff dest: in_set_butlastD)

lemma wf_ends: "wf_components cs \<Longrightarrow> cs \<noteq> [] \<Longrightarrow> join_with ''/'' cs \<noteq> [] \<and> last (join_with ''/'' cs) \<noteq> CHR ''/''"
proof (induction "''/''" cs rule: join_with.induct)
  case (2 w)
  then show ?case by (auto simp: wf_components_def) (metis last_in_set)
next
  case (3 w v ws)
  then show ?case by (auto simp: wf_components_def)
qed simp

lemma split_join_components:
  assumes "wf_components cs"
  shows "filter (\<lambda>v. v \<noteq> []) (split_on (CHR ''/'') (join_with ''/'' cs)) = cs"
proof (cases "cs = []")
  case False
  with assms have "split_on (CHR ''/'') (join_with ''/'' cs) = cs"
    by (intro split_on_join) (auto simp: wf_components_def list_all_iff)
  with assms show ?thesis
    by (simp add: wf_components_def list_all_iff filter_id_conv)
qed simp

lemma split_on_snoc_sep: "split_on c (s @ [c]) = split_on c s @ [[]]"
proof (induction s)
  case (Cons x xs)
  then show ?case by (cases "split_on c xs") auto
qed simp

lemma components_to_string:
  "wf_components (components p) \<Longrightarrow> components (path_from (path_to_string p)) = components p"
  by (simp add: path_from_def path_to_string_def split_on_snoc_sep split_join_components)

lemma ends_with_char: "ends_with [c] s \<longleftrightarrow> s \<noteq> [] \<and> last s = c"
  by (cases s rule: rev_cases) (auto simp: ends_with_iff)

lemma no_dot_join: "CHR ''.'' \<in> set (join_with ''/'' cs) \<longleftrightarrow> (\<exists>c \<in> set cs. CHR ''.'' \<in> set c)"
  by (induction "''/''" cs rule: join_with.induct) auto

lemma join_filter_set:
  "(\<Union>w \<in> set (split_on c s). set w) = set s - {c}"
proof (induction s)
  case (Cons x xs)
  then show ?case by (cases "split_on c xs") auto
qed simp

lemma should_add_slash_normal:
  "should_add_slash (path_to_string (path_from s)) = should_add_slash s"
proof (cases "ends_with ''/'' s")
  case True
  then show ?thesis
    by (simp add: should_add_slash_def path_to_string_def path_from_def ends_with_char)
next
  case False
  let ?cs = "filter (\<lambda>v. v \<noteq> []) (split_on (CHR ''/'') s)"
  have wf: "wf_components ?cs" using wf_path_from [of s] by (simp add: path_from_def)
  have str: "path_to_string (path_from s) = join_with ''/'' ?cs"
    using False by (simp add: path_to_string_def path_from_def should_add_slash_def)
  have "\<not> ends_with ''/'' (join_with ''/'' ?cs)"
    using wf_ends [OF wf] by (cases "?cs = []") (auto simp: ends_with_char)
  moreover have "CHR ''.'' \<in> set (join_with ''/'' ?cs) \<longleftrightarrow> CHR ''.'' \<in> set s"
  proof -
    have "CHR ''.'' \<in> set (join_with ''/'' ?cs) \<longleftrightarrow> CHR ''.'' \<in> (\<Union>w \<in> set (split_on (CHR ''/'') s). set w)"
      unfolding no_dot_join by auto
    then show ?thesis unfolding join_filter_set by simp
  qed
  ultimately show ?thesis using False by (simp add: should_add_slash_def str)
qed

text \<open>A text without an empty piece in the middle keeps all its pieces.\<close>

lemma contains_dslash_Cons:
  "contains_str [c, c] (x # y # ys) \<longleftrightarrow> (x = c \<and> y = c) \<or> contains_str [c, c] (y # ys)"
  by (simp add: starts_with_def)

lemma contains_str_appendR: "contains_str p t \<Longrightarrow> contains_str p (u @ t)"
  by (auto simp: contains_str_iff) (metis append_assoc)

lemma split_filter_join:
  assumes "\<not> contains_str [c, c] s" "s \<noteq> []" "hd s \<noteq> c"
  shows "join_with [c] (filter (\<lambda>v. v \<noteq> []) (split_on c s)) @ (if last s = c then [c] else []) = s"
  using assms
proof (induction s rule: length_induct)
  case (1 s)
  show ?case
  proof (cases "c \<in> set s")
    case False
    then have "last s \<noteq> c" using 1(3) by (metis last_in_set)
    with False 1(3) show ?thesis by (simp add: split_on_no_sep)
  next
    case True
    then obtain w t where s: "s = w @ c # t" and cw: "c \<notin> set w" by (meson split_list_first)
    have w: "w \<noteq> []" using 1(4) s by (cases w) auto
    have sp: "split_on c s = w # split_on c t" using s cw by (simp add: split_on_append_sep)
    show ?thesis
    proof (cases t)
      case Nil
      with s sp w show ?thesis by simp
    next
      case (Cons y ys)
      have "contains_str [c, c] (c # t) \<Longrightarrow> contains_str [c, c] s"
        unfolding s by (rule contains_str_appendR)
      with 1(2) have nd2: "\<not> contains_str [c, c] (c # t)" by blast
      then have nd: "\<not> contains_str [c, c] t" and hd: "hd t \<noteq> c"
        using Cons by (auto simp: contains_dslash_Cons starts_with_iff)
      have IH: "join_with [c] (filter (\<lambda>v. v \<noteq> []) (split_on c t))
          @ (if last t = c then [c] else []) = t"
      proof -
        have "length t < length s" "t \<noteq> []" using s Cons by simp_all
        with 1(1) nd hd show ?thesis by blast
      qed
      have ne: "filter (\<lambda>v. v \<noteq> []) (split_on c t) \<noteq> []"
      proof
        assume "filter (\<lambda>v. v \<noteq> []) (split_on c t) = []"
        with IH have "(if last t = c then [c] else []) = t" by simp
        with hd Cons show False by (auto split: if_splits)
      qed
      have "join_with [c] (filter (\<lambda>v. v \<noteq> []) (split_on c s))
          = w @ [c] @ join_with [c] (filter (\<lambda>v. v \<noteq> []) (split_on c t))"
        using w ne by (simp add: sp join_with_Cons)
      moreover have "last s = last t" using s Cons by simp
      ultimately show ?thesis using IH s by simp
    qed
  qed
qed

section \<open>Conversion to file-system paths\<close>

lemma starts_with_char: "starts_with [c] s \<longleftrightarrow> s \<noteq> [] \<and> hd s = c"
  by (cases s) (auto simp: starts_with_iff)

lemma foldl_pathbuf_push:
  assumes "b \<noteq> []" "last b \<noteq> CHR ''/''" "wf_components cs"
  shows "foldl pathbuf_push b cs = join_with ''/'' (b # cs)"
  using assms
proof (induction cs arbitrary: b)
  case (Cons c cs)
  have c: "c \<noteq> []" "CHR ''/'' \<notin> set c" and wf: "wf_components cs"
    using Cons.prems(3) by (auto simp: wf_components_def)
  then have "hd c \<noteq> CHR ''/''" by (cases c) auto
  then have push: "pathbuf_push b c = b @ ''/'' @ c"
    using Cons.prems by (simp add: pathbuf_push_def starts_with_char ends_with_char)
  have "last (b @ ''/'' @ c) \<noteq> CHR ''/''" using c by (metis last_appendR last_in_set append_is_Nil_conv)
  then have "foldl pathbuf_push (b @ ''/'' @ c) cs = join_with ''/'' ((b @ ''/'' @ c) # cs)"
    using Cons.IH wf by simp
  then show ?case by (cases cs) (simp_all add: push)
qed simp

lemma to_path_buf_join:
  assumes "wf_components (components p)"
  shows "to_path_buf p = join_with ''/'' (components p)"
proof (cases "components p")
  case Nil
  then show ?thesis by (simp add: to_path_buf_def)
next
  case (Cons c cs)
  have c: "c \<noteq> []" "CHR ''/'' \<notin> set c" and wf: "wf_components cs"
    using assms Cons by (auto simp: wf_components_def)
  then have "pathbuf_push '''' c = c"
    by (cases c) (auto simp: pathbuf_push_def)
  moreover have "last c \<noteq> CHR ''/''" using c by (metis last_in_set)
  ultimately show ?thesis
    using foldl_pathbuf_push [OF c(1) _ wf] Cons by (simp add: to_path_buf_def)
qed

text \<open>What the operating system does with a relative path, component by component, from the
  directory stack \<open>st\<close>: \<open>.\<close> stays, \<open>..\<close> leaves the directory.\<close>

fun walk :: "string list \<Rightarrow> string list \<Rightarrow> string list" where
  "walk st [] = st"
| "walk st (c # cs) =
     (if c = ''.'' then walk st cs
      else if c = ''..'' then walk (butlast st) cs
      else walk (st @ [c]) cs)"

definition path_pieces :: "string \<Rightarrow> string list" where
  "path_pieces s = filter (\<lambda>v. v \<noteq> []) (split_on (CHR ''/'') s)"

lemma walk_safe: "\<not> list_ex bad_component cs \<Longrightarrow> walk st cs = st @ cs"
  by (induction cs arbitrary: st) (auto simp: bad_component_def)

lemma validate_Inr: "validate p = Inr u \<longleftrightarrow> \<not> list_ex bad_component (components p)"
  by (simp add: validate_def)

lemma from_untrusted_path:
  assumes "from_untrusted s = Inr p"
  shows "p = path_from s" and "\<not> list_ex bad_component (components p)"
  using assms
  by (auto simp: from_untrusted_def validate_def Let_def path_from_def split: if_splits)

lemma bad_component_iff:
  "list_ex bad_component cs \<longleftrightarrow>
     ''.'' \<in> set cs \<or> ''..'' \<in> set cs \<or> (\<exists>c \<in> set cs. CHR 0x5C \<in> set c \<or> CHR 0x00 \<in> set c)"
  by (auto simp: list_ex_iff bad_component_def)

lemma pieces_char:
  assumes "x \<noteq> CHR ''/''"
  shows "(\<exists>c \<in> set (path_pieces s). x \<in> set c) \<longleftrightarrow> x \<in> set s"
proof -
  have "(\<exists>c \<in> set (path_pieces s). x \<in> set c) \<longleftrightarrow> x \<in> (\<Union>w \<in> set (split_on (CHR ''/'') s). set w)"
    unfolding path_pieces_def by auto
  with assms show ?thesis unfolding join_filter_set by simp
qed

lemma path_from_components: "components (path_from s) = path_pieces s"
  by (simp add: path_from_def path_pieces_def)

section \<open>Properties\<close>

text \<open>
  C1. A request path that \<open>from_untrusted\<close> accepts stays inside the repository: walking the
  file-system path made from it, from any directory, ends below that directory at exactly the
  parsed components, and no component holds a separator, a backslash or a NUL byte.
\<close>

theorem from_untrusted_confined:
  assumes "from_untrusted s = Inr p"
  shows "walk root (path_pieces (to_path_buf p)) = root @ components p \<and>
    (\<forall>c \<in> set (components p). c \<noteq> [] \<and> CHR ''/'' \<notin> set c \<and> CHR 0x5C \<notin> set c \<and> CHR 0x00 \<notin> set c)"
proof -
  note p = from_untrusted_path [OF assms]
  have wf: "wf_components (components p)" using p(1) wf_path_from by simp
  have "path_pieces (to_path_buf p) = components p"
    using split_join_components [OF wf] by (simp add: to_path_buf_join [OF wf] path_pieces_def)
  with p(2) wf show ?thesis
    by (auto simp: walk_safe bad_component_iff wf_components_def list_all_iff)
qed

theorem from_untrusted_confined_witness:
  "walk [''data''] (path_pieces (to_path_buf (path_from ''a/b.jar''))) = [''data'', ''a'', ''b.jar'']"
proof -
  have h: "from_untrusted ''a/b.jar'' = Inr (path_from ''a/b.jar'')" by code_simp
  have c: "components (path_from ''a/b.jar'') = [''a'', ''b.jar'']" by code_simp
  show ?thesis using from_untrusted_confined [OF h, of "[''data'']"] by (simp add: c)
qed

text \<open>
  The exact language of \<open>from_untrusted\<close>: the empty path and the root are accepted, any other
  text exactly when it starts with no separator, has no empty piece in the middle, no \<open>.\<close> or
  \<open>..\<close> piece, and no backslash or NUL byte.
\<close>

theorem from_untrusted_accepts_iff:
  "(\<exists>p. from_untrusted s = Inr p) \<longleftrightarrow>
     s = '''' \<or> s = ''/'' \<or>
     (hd s \<noteq> CHR ''/'' \<and> \<not> contains_str ''//'' s \<and> CHR 0x5C \<notin> set s \<and> CHR 0x00 \<notin> set s \<and>
      ''.'' \<notin> set (path_pieces s) \<and> ''..'' \<notin> set (path_pieces s))"
proof (cases "s = '''' \<or> s = ''/''")
  case True
  then show ?thesis by (auto simp: from_untrusted_def)
next
  case False
  have "list_ex bad_component (path_pieces s) \<longleftrightarrow>
      ''.'' \<in> set (path_pieces s) \<or> ''..'' \<in> set (path_pieces s) \<or> CHR 0x5C \<in> set s \<or> CHR 0x00 \<in> set s"
    unfolding bad_component_iff
    using pieces_char [of "CHR 0x5C" s] pieces_char [of "CHR 0x00" s] by auto
  moreover have "hd s = CHR 0x5C \<Longrightarrow> CHR 0x5C \<in> set s" using False by (metis hd_in_set)
  ultimately show ?thesis
    using False
    by (auto simp: from_untrusted_def validate_def Let_def path_from_components starts_with_char)
qed

text \<open>
  Storage paths are stored and sent as text without loss: an accepted request path prints as
  the text it was parsed from, and parsing the printed text of any path that \<open>From<&str>\<close> makes
  gives the same path again (components and trailing slash).
\<close>

theorem storage_path_roundtrip:
  "(case from_untrusted s of Inl _ \<Rightarrow> True | Inr p \<Rightarrow> path_to_string p = s) \<and>
   path_from (path_to_string (path_from s)) = path_from s"
proof
  show "case from_untrusted s of Inl _ \<Rightarrow> True | Inr p \<Rightarrow> path_to_string p = s"
  proof (cases "from_untrusted s")
    case (Inr p)
    have p: "p = path_from s" using from_untrusted_path(1) [OF Inr] .
    show ?thesis
    proof (cases "s = '''' \<or> s = ''/''")
      case True
      then show ?thesis
        by (auto simp: Inr p path_from_def path_to_string_def should_add_slash_def ends_with_char)
    next
      case False
      with Inr have "\<not> contains_str ''//'' s" "hd s \<noteq> CHR ''/''"
        by (auto simp: from_untrusted_def starts_with_char split: if_splits)
      with split_filter_join [of "CHR ''/''" s] False show ?thesis
        by (auto simp: Inr p path_from_def path_to_string_def should_add_slash_def ends_with_char
            split: if_splits)
    qed
  qed simp
  show "path_from (path_to_string (path_from s)) = path_from s"
    using components_to_string [OF wf_path_from [of s]] should_add_slash_normal [of s]
    by (simp add: path_from_def)
qed

end
