(* ===== verification/Names.thy ===== *)
theory Names
  imports StoragePath
begin

text \<open>
  Validated names: the value types \<open>Username\<close>, \<open>Email\<close> (crates/core/src/user/mod.rs), \<open>StorageName\<close>
  (crates/core/src/storage/mod.rs) and \<open>RepositoryName\<close> (crates/core/src/repository/mod.rs), and
  the character test they share (crates/core/src/utils.rs). The locale \<open>validated_text\<close> is the
  contract of such a type (the constructor keeps or rejects its text), from which the conversions
  that the macro \<open>convert_traits_to_new\<close> generates inherit their facts.
\<close>

definition valid_name_char :: "char \<Rightarrow> bool" where
  "valid_name_char c = (is_ascii_alnum c \<or> c = CHR ''_'' \<or> c = CHR ''-'')"

definition valid_name_string :: "string \<Rightarrow> bool" where
  "valid_name_string s = list_all valid_name_char s"

text \<open>The error enums \<open>InvalidUsername\<close>, \<open>InvalidStorageName\<close> and \<open>InvalidRepositoryName\<close> have the
  same three constructors; the character is carried as its UTF-8 bytes.\<close>

datatype invalid_name = TooShort nat | TooLong nat | InvalidCharacter string

definition username_new :: "string \<Rightarrow> invalid_name + string" where
  "username_new username =
     (if length username < 3 then Inl (TooShort (length username))
      else if length username > 32 then Inl (TooLong (length username))
      else case dropWhile valid_name_char username of
             [] \<Rightarrow> Inr username
           | bad # rest \<Rightarrow> Inl (InvalidCharacter (utf8_head (bad # rest))))"

definition storage_name_new :: "string \<Rightarrow> invalid_name + string" where
  "storage_name_new storage_name =
     (if length storage_name < 3 then Inl (TooShort (length storage_name))
      else if length storage_name > 32 then Inl (TooLong (length storage_name))
      else case dropWhile valid_name_char storage_name of
             [] \<Rightarrow> Inr storage_name
           | bad # rest \<Rightarrow> Inl (InvalidCharacter (utf8_head (bad # rest))))"

definition repository_name_new :: "string \<Rightarrow> invalid_name + string" where
  "repository_name_new repository_name =
     (if length repository_name < 3 then Inl (TooShort (length repository_name))
      else if length repository_name > 32 then Inl (TooLong (length repository_name))
      else case dropWhile valid_name_char repository_name of
             [] \<Rightarrow> Inr repository_name
           | bad # rest \<Rightarrow> Inl (InvalidCharacter (utf8_head (bad # rest))))"

datatype invalid_email = EmailTooShort nat | EmailTooLong nat | MissingAt

definition email_new :: "string \<Rightarrow> invalid_email + string" where
  "email_new email =
     (if length email < 3 then Inl (EmailTooShort (length email))
      else if length email > 32 then Inl (EmailTooLong (length email))
      else if \<not> contains_str ''@'' email then Inl MissingAt
      else Inr email)"

section \<open>The contract of a validated text type\<close>

text \<open>\<open>make\<close> is the constructor, \<open>accepts\<close> the language it promises; \<open>TryFrom<String>\<close>,
  \<open>TryFrom<&str>\<close> and \<open>FromStr\<close> are all \<open>make\<close>, and \<open>Display\<close>/\<open>Serialize\<close> give the text back.\<close>

locale validated_text =
  fixes make :: "string \<Rightarrow> 'e + string"
    and accepts :: "string \<Rightarrow> bool"
  assumes make_accepts: "make s = Inr t \<longleftrightarrow> accepts s \<and> t = s"
begin

lemma make_keeps: "make s = Inr t \<Longrightarrow> t = s"
  by (simp add: make_accepts)

lemma make_reject: "(\<exists>e. make s = Inl e) \<longleftrightarrow> \<not> accepts s"
  using make_accepts [of s s] make_accepts [of s] by (cases "make s") auto

lemma make_again: "make s = Inr t \<Longrightarrow> make t = Inr t"
  by (simp add: make_accepts)

end

text \<open>The pattern \<open>^([a-zA-Z0-9_\-]{3,32}$)\<close> of the published schemas, with its characters written out.\<close>

definition name_pattern :: "string \<Rightarrow> bool" where
  "name_pattern s =
     (3 \<le> length s \<and> length s \<le> 32 \<and>
      set s \<subseteq> set ''ABCDEFGHIJKLMNOPQRSTUVWXYZabcdefghijklmnopqrstuvwxyz0123456789_-'')"

lemma valid_name_char_listed:
  "valid_name_char c \<longleftrightarrow> c \<in> set ''ABCDEFGHIJKLMNOPQRSTUVWXYZabcdefghijklmnopqrstuvwxyz0123456789_-''"
proof -
  have "\<forall>c. valid_name_char c = (c \<in> set ''ABCDEFGHIJKLMNOPQRSTUVWXYZabcdefghijklmnopqrstuvwxyz0123456789_-'')"
    by code_simp
  then show ?thesis by blast
qed

lemma name_pattern_valid:
  "name_pattern s \<longleftrightarrow> 3 \<le> length s \<and> length s \<le> 32 \<and> valid_name_string s"
  unfolding name_pattern_def valid_name_string_def list_all_iff valid_name_char_listed by blast

lemma dropWhile_case_Inr:
  "(case dropWhile P s of [] \<Rightarrow> Inr s | x # xs \<Rightarrow> Inl (f x xs)) = Inr t \<longleftrightarrow> list_all P s \<and> t = s"
  by (auto simp: list_all_iff dropWhile_eq_Nil_conv split: list.splits)
    (metis list.distinct(1) dropWhile_eq_Nil_conv)+

interpretation username: validated_text username_new name_pattern
  by unfold_locales
    (auto simp: username_new_def name_pattern_valid valid_name_string_def dropWhile_case_Inr)

interpretation storage_name: validated_text storage_name_new name_pattern
  by unfold_locales
    (auto simp: storage_name_new_def name_pattern_valid valid_name_string_def dropWhile_case_Inr)

interpretation repository_name: validated_text repository_name_new name_pattern
  by unfold_locales
    (auto simp: repository_name_new_def name_pattern_valid valid_name_string_def dropWhile_case_Inr)

interpretation email: validated_text email_new
  "\<lambda>s. 3 \<le> length s \<and> length s \<le> 32 \<and> CHR ''@'' \<in> set s"
  by unfold_locales (auto simp: email_new_def)

section \<open>Names as path components\<close>

lemma valid_name_char_safe:
  "valid_name_char c \<Longrightarrow>
     c \<noteq> CHR ''/'' \<and> c \<noteq> CHR 0x5C \<and> c \<noteq> CHR 0x00 \<and> c \<noteq> CHR ''.''"
  by (auto simp: valid_name_char_def is_ascii_alnum_def is_ascii_alpha_def is_ascii_lower_def
      is_ascii_upper_def is_ascii_digit_def)

lemma name_pattern_safe:
  assumes "name_pattern s"
  shows "s \<noteq> []" "CHR ''/'' \<notin> set s" "CHR 0x5C \<notin> set s" "CHR 0x00 \<notin> set s" "CHR ''.'' \<notin> set s"
  using assms valid_name_char_safe
  by (fastforce simp: name_pattern_valid valid_name_string_def list_all_iff)+

lemma path_from_name:
  assumes "name_pattern s"
  shows "path_from s = \<lparr>components = [s], trailing_slash = None\<rparr>"
proof -
  note safe = name_pattern_safe [OF assms]
  have "last s \<noteq> CHR ''/''" using safe last_in_set [of s] by metis
  with safe show ?thesis
    by (simp add: path_from_def split_on_no_sep should_add_slash_def ends_with_char)
qed

lemma from_untrusted_name:
  assumes pat: "name_pattern s"
  shows "from_untrusted s = Inr \<lparr>components = [s], trailing_slash = None\<rparr>"
proof -
  note safe = name_pattern_safe [OF pat]
  have "\<not> contains_str ''//'' s" using safe(2) by (auto simp: contains_str_iff)
  moreover have "hd s \<noteq> CHR ''/''" "hd s \<noteq> CHR 0x5C" using safe hd_in_set [of s] by metis+
  moreover have "\<not> bad_component s" using safe by (auto simp: bad_component_def)
  ultimately show ?thesis
    using safe by (auto simp: from_untrusted_def validate_def path_from_name [OF pat] starts_with_char)
qed

text \<open>
  C2. User, storage and repository names accept exactly the pattern their schemas publish, 3 to 32
  characters, each one of the ASCII letters, the digits, the underscore and the hyphen, and keep the text;
  every such name is usable as one path component: the request-path parser reads it as itself and nothing else.
\<close>

theorem name_is_one_component:
  "(username_new s = Inr n \<longleftrightarrow> name_pattern s \<and> n = s) \<and>
   (storage_name_new s = Inr n \<longleftrightarrow> name_pattern s \<and> n = s) \<and>
   (repository_name_new s = Inr n \<longleftrightarrow> name_pattern s \<and> n = s) \<and>
   (name_pattern s \<longleftrightarrow> 3 \<le> length s \<and> length s \<le> 32 \<and>
      (\<forall>c \<in> set s. c \<in> set ''ABCDEFGHIJKLMNOPQRSTUVWXYZabcdefghijklmnopqrstuvwxyz0123456789_-'')) \<and>
   (name_pattern n \<longrightarrow> from_untrusted n = Inr \<lparr>components = [n], trailing_slash = None\<rparr>)"
  by (auto simp: username.make_accepts storage_name.make_accepts repository_name.make_accepts
      from_untrusted_name name_pattern_def simp del: list.set)

theorem name_is_one_component_witness:
  "from_untrusted ''maven-releases'' = Inr \<lparr>components = [''maven-releases''], trailing_slash = None\<rparr>"
proof -
  have h: "repository_name_new ''maven-releases'' = Inr ''maven-releases''" by code_simp
  show ?thesis using name_is_one_component [of "''maven-releases''" "''maven-releases''"] h by blast
qed

end
