(* ===== verification/UserDb.thy ===== *)
theory UserDb
  imports Names
begin

text \<open>
  The user tables (crates/core/src/database/entities/user/mod.rs and the SQL of
  crates/core/migrations): the rows, the state that holds them, and the queries of \<open>UserType\<close>
  and \<open>NewUserRequest\<close>. A table is the list of its rows, in the order a scan finds them. Identifiers
  are \<open>SERIAL\<close> columns: numbers drawn from a sequence whose last value is the largest \<open>i32\<close>.
  Times are instants (nanoseconds); \<open>now\<close> is what \<open>NOW()\<close> and \<open>Utc::now()\<close> give.
\<close>

section \<open>Rows\<close>

type_synonym rowid = int

datatype repository_action = Read | Write | Edit

definition all_actions :: "repository_action list" where
  "all_actions = [Read, Write, Edit]"

record user =
  u_id :: rowid
  u_name :: string
  u_username :: string
  u_email :: "string option"
  u_active :: bool
  u_password :: "string option"
  u_password_last_changed :: "instant option"
  u_require_password_change :: bool
  u_admin :: bool
  u_user_manager :: bool
  u_system_manager :: bool
  u_default_repository_actions :: "repository_action list"
  u_updated_at :: instant
  u_created_at :: instant

record user_safe =
  us_id :: rowid
  us_name :: string
  us_username :: string
  us_email :: "string option"
  us_require_password_change :: bool
  us_active :: bool
  us_admin :: bool
  us_user_manager :: bool
  us_system_manager :: bool
  us_default_repository_actions :: "repository_action list"
  us_updated_at :: instant
  us_created_at :: instant

text \<open>\<open>impl From<User> for UserSafeData\<close>; selecting the columns of \<open>UserSafeData\<close> gives the same.\<close>

definition user_safe_from :: "user \<Rightarrow> user_safe" where
  "user_safe_from user =
     \<lparr>us_id = u_id user, us_name = u_name user, us_username = u_username user,
      us_email = u_email user, us_require_password_change = u_require_password_change user,
      us_active = u_active user, us_admin = u_admin user, us_user_manager = u_user_manager user,
      us_system_manager = u_system_manager user,
      us_default_repository_actions = u_default_repository_actions user,
      us_updated_at = u_updated_at user, us_created_at = u_created_at user\<rparr>"

record repo_permission =
  p_id :: rowid
  p_user_id :: rowid
  p_repository_id :: uuid
  p_actions :: "repository_action list"
  p_updated_at :: instant
  p_created_at :: instant

section \<open>State\<close>

datatype sqlx_error =
    QueryFailed
  | ForeignKeyViolation
  | UniqueViolation
  | SequenceExhausted
  | UndefinedColumn

record user_db = conn +
  now :: instant
  users :: "user list"
  user_seq :: rowid
  repo_permissions :: "repo_permission list"
  permission_seq :: rowid
  repositories :: "uuid list"

type_synonym ('z, 'a) query = "('z user_db_scheme, sqlx_error, 'a) stm"

text \<open>The largest value of a \<open>SERIAL\<close> sequence.\<close>

definition serial_max :: int where
  "serial_max = 2147483647"

section \<open>Queries of \<open>UserType\<close>\<close>

definition find_user :: "user list \<Rightarrow> rowid \<Rightarrow> user option" where
  "find_user rows i = find (\<lambda>u. u_id u = i) rows"

definition get_user_by_id :: "rowid \<Rightarrow> ('z, user option) query" where
  "get_user_by_id i = select_sql QueryFailed (\<lambda>s. find_user (users s) i)"

definition get_safe_by_id :: "rowid \<Rightarrow> ('z, user_safe option) query" where
  "get_safe_by_id i =
     select_sql QueryFailed (\<lambda>s. map_option user_safe_from (find_user (users s) i))"

text \<open>The columns have the collation \<open>ignoreCase\<close>: comparison without case.\<close>

definition matches_email :: "string \<Rightarrow> user \<Rightarrow> bool" where
  "matches_email v u = (case u_email u of None \<Rightarrow> False | Some e \<Rightarrow> eq_ignore_case e v)"

definition get_by_email :: "string \<Rightarrow> ('z, user option) query" where
  "get_by_email email = select_sql QueryFailed (\<lambda>s. find (matches_email email) (users s))"

definition get_by_username_or_email :: "string \<Rightarrow> ('z, user option) query" where
  "get_by_username_or_email username =
     select_sql QueryFailed
       (\<lambda>s. find (\<lambda>u. matches_email username u \<or> eq_ignore_case (u_username u) username) (users s))"

definition update_user_row :: "rowid \<Rightarrow> (user \<Rightarrow> user) \<Rightarrow> user list \<Rightarrow> user list" where
  "update_user_row i f rows = map (\<lambda>u. if u_id u = i then f u else u) rows"

definition update_password :: "rowid \<Rightarrow> string option \<Rightarrow> ('z, unit) query" where
  "update_password i password =
     update_sql QueryFailed
       (\<lambda>s. s\<lparr>users := update_user_row i
          (\<lambda>u. u\<lparr>u_password := password, u_password_last_changed := Some (now s),
                 u_require_password_change := False\<rparr>) (users s)\<rparr>)"

text \<open>A change of a \<open>UNIQUE\<close> column fails if another row has the value; null values are no conflict.\<close>

definition other_user :: "(user \<Rightarrow> bool) \<Rightarrow> rowid \<Rightarrow> user list \<Rightarrow> bool" where
  "other_user P i rows = list_ex (\<lambda>u. u_id u \<noteq> i \<and> P u) rows"

definition has_user :: "rowid \<Rightarrow> user list \<Rightarrow> bool" where
  "has_user i rows = list_ex (\<lambda>u. u_id u = i) rows"

definition update_email_address :: "rowid \<Rightarrow> string option \<Rightarrow> ('z, unit) query" where
  "update_email_address i email =
     try_sql QueryFailed
       (\<lambda>s. let t = s\<lparr>users := update_user_row i (\<lambda>u. u\<lparr>u_email := email\<rparr>) (users s)\<rparr>
            in case email of
                 None \<Rightarrow> Inr ((), t)
               | Some e \<Rightarrow>
                   if has_user i (users s) \<and> other_user (matches_email e) i (users s)
                   then Inl UniqueViolation
                   else Inr ((), t))"

definition update_username :: "rowid \<Rightarrow> string \<Rightarrow> ('z, unit) query" where
  "update_username i username =
     try_sql QueryFailed
       (\<lambda>s. if has_user i (users s)
               \<and> other_user (\<lambda>u. eq_ignore_case (u_username u) username) i (users s)
            then Inl UniqueViolation
            else Inr ((), s\<lparr>users := update_user_row i (\<lambda>u. u\<lparr>u_username := username\<rparr>) (users s)\<rparr>))"

definition update_name :: "rowid \<Rightarrow> string \<Rightarrow> ('z, unit) query" where
  "update_name i name =
     update_sql QueryFailed
       (\<lambda>s. s\<lparr>users := update_user_row i (\<lambda>u. u\<lparr>u_name := name\<rparr>) (users s)\<rparr>)"

section \<open>New users\<close>

record initial_permissions =
  ip_admin :: bool
  ip_user_manager :: bool
  ip_system_manager :: bool
  ip_default_repository_actions :: "repository_action list"

definition default_initial_permissions :: initial_permissions where
  "default_initial_permissions =
     \<lparr>ip_admin = False, ip_user_manager = False, ip_system_manager = False,
      ip_default_repository_actions = []\<rparr>"

record new_user_request =
  nu_name :: string
  nu_username :: string
  nu_email :: "string option"
  nu_password :: "string option"
  nu_permissions :: "initial_permissions option"

text \<open>The row an \<open>INSERT\<close> builds from the request and the defaults of the columns.\<close>

definition new_user_row :: "rowid \<Rightarrow> instant \<Rightarrow> new_user_request \<Rightarrow> initial_permissions \<Rightarrow> user" where
  "new_user_row i t r p =
     \<lparr>u_id = i, u_name = nu_name r, u_username = nu_username r, u_email = nu_email r,
      u_active = True, u_password = nu_password r, u_password_last_changed = Some t,
      u_require_password_change = False, u_admin = ip_admin p,
      u_user_manager = ip_user_manager p, u_system_manager = ip_system_manager p,
      u_default_repository_actions = ip_default_repository_actions p,
      u_updated_at = t, u_created_at = t\<rparr>"

definition insert_user_row :: "new_user_request \<Rightarrow> initial_permissions \<Rightarrow> ('z, user) query" where
  "insert_user_row r p =
     try_sql QueryFailed
       (\<lambda>s. if serial_max < user_seq s then Inl SequenceExhausted
            else if list_ex (\<lambda>u. eq_ignore_case (u_username u) (nu_username r)) (users s)
                    \<or> (case nu_email r of None \<Rightarrow> False | Some e \<Rightarrow> list_ex (matches_email e) (users s))
            then Inl UniqueViolation
            else let row = new_user_row (user_seq s) (now s) r p
                 in Inr (row, s\<lparr>users := users s @ [row], user_seq := user_seq s + 1\<rparr>))"

definition insert_user :: "new_user_request \<Rightarrow> ('z, user) query" where
  "insert_user r =
     insert_user_row r
       (case nu_permissions r of Some p \<Rightarrow> p | None \<Rightarrow> default_initial_permissions)"

definition insert_admin :: "new_user_request \<Rightarrow> ('z, user) query" where
  "insert_admin r =
     insert_user_row r
       \<lparr>ip_admin = True, ip_user_manager = True, ip_system_manager = True,
        ip_default_repository_actions = []\<rparr>"

section \<open>Well-formed user tables\<close>

text \<open>What the schema promises: primary keys are distinct and below the sequence, names and e-mail
  addresses are unique without regard to case, every permission row belongs to a user and a
  repository, and there is one row per user and repository.\<close>

definition emails :: "user list \<Rightarrow> string list" where
  "emails rows = map to_lower (List.map_filter u_email rows)"

definition wf_users :: "'z user_db_scheme \<Rightarrow> bool" where
  "wf_users s \<longleftrightarrow>
     distinct (map u_id (users s)) \<and>
     list_all (\<lambda>u. u_id u < user_seq s) (users s) \<and>
     distinct (map (\<lambda>u. to_lower (u_username u)) (users s)) \<and>
     distinct (emails (users s))"

definition wf_permissions :: "'z user_db_scheme \<Rightarrow> bool" where
  "wf_permissions s \<longleftrightarrow>
     distinct (map p_id (repo_permissions s)) \<and>
     list_all (\<lambda>p. p_id p < permission_seq s) (repo_permissions s) \<and>
     distinct (map (\<lambda>p. (p_user_id p, p_repository_id p)) (repo_permissions s)) \<and>
     list_all (\<lambda>p. has_user (p_user_id p) (users s) \<and> p_repository_id p \<in> set (repositories s))
       (repo_permissions s)"

lemma find_user_Some: "find_user rows i = Some u \<Longrightarrow> u \<in> set rows \<and> u_id u = i"
  by (auto simp: find_user_def find_Some_iff)

lemma find_user_update:
  assumes "\<And>u. u_id (f u) = u_id u"
  shows "find_user (update_user_row i f rows) j =
     (if j = i then map_option f (find_user rows j) else find_user rows j)"
  using assms by (induction rows) (auto simp: find_user_def update_user_row_def)

lemma map_update_user_row:
  "(\<And>u. g (f u) = g u) \<Longrightarrow> map g (update_user_row i f rows) = map g rows"
  by (induction rows) (auto simp: update_user_row_def)

lemma list_all_update_user_row:
  "(\<And>u. P u \<Longrightarrow> P (f u)) \<Longrightarrow> list_all P rows \<Longrightarrow> list_all P (update_user_row i f rows)"
  by (induction rows) (auto simp: update_user_row_def)

lemma has_user_update:
  "(\<And>u. u_id (f u) = u_id u) \<Longrightarrow> has_user j (update_user_row i f rows) = has_user j rows"
  by (induction rows) (auto simp: has_user_def update_user_row_def)

lemma stable_user_db [simp]:
  "stable (\<lambda>s. f (users s))" "stable (\<lambda>s. g (repo_permissions s))" "stable (\<lambda>s. h (now s) (users s))"
  by (simp_all add: stable_def)

lemma reads_get_safe_by_id:
  "reads (get_safe_by_id i) (\<lambda>s. map_option user_safe_from (find_user (users s) i))"
  unfolding get_safe_by_id_def by (rule reads_select) (simp add: stable_def)

lemma distinct_map_update:
  assumes "distinct (map g rows)" and "distinct (map u_id rows)"
    and "\<not> list_ex (\<lambda>u. u_id u \<noteq> i \<and> g u = v) rows" and "\<And>u. g (f u) = v"
  shows "distinct (map g (update_user_row i f rows))"
  using assms
  by (induction rows) (auto simp: update_user_row_def list_ex_iff image_iff)

lemma matches_email_iff: "matches_email e u \<longleftrightarrow> map_option to_lower (u_email u) = Some (to_lower e)"
  by (auto simp: matches_email_def eq_ignore_case_def split: option.splits)

lemma wf_users_faults [simp]: "wf_users (s\<lparr>faults := bs\<rparr>) = wf_users s"
  by (simp add: wf_users_def)

lemma wf_permissions_faults [simp]: "wf_permissions (s\<lparr>faults := bs\<rparr>) = wf_permissions s"
  by (simp add: wf_permissions_def)

text \<open>A statement keeps an invariant of the data if its effect does.\<close>

lemma update_sql_keeps:
  assumes "update_sql e f s = (r, t)" and "I s"
    and "\<And>s bs. I (s\<lparr>faults := bs\<rparr>) = I s" and "\<And>s. I s \<Longrightarrow> I (f s)"
  shows "I t"
  by (rule update_sql_cases [of s e f]) (use assms in auto)

lemma try_sql_keeps:
  assumes "try_sql e f s = (r, t)" and "I s"
    and "\<And>s bs. I (s\<lparr>faults := bs\<rparr>) = I s" and "\<And>s a t. I s \<Longrightarrow> f s = Inr (a, t) \<Longrightarrow> I t"
  shows "I t"
proof (cases "faults s")
  case Nil
  with assms show ?thesis by (auto simp: try_sql_def split: sum.splits)
next
  case (Cons b bs)
  have s': "I (s\<lparr>faults := bs\<rparr>)" using assms(2,3) by simp
  from assms(1) Cons have "t = s\<lparr>faults := bs\<rparr> \<or> (\<exists>a. f (s\<lparr>faults := bs\<rparr>) = Inr (a, t))"
    by (auto simp: try_sql_def Let_def split: sum.splits if_splits)
  with s' assms(4) [OF s'] show ?thesis by blast
qed

lemma try_sql_error:
  assumes "fst (try_sql e f s) = Inl e'"
  shows "\<exists>bs. snd (try_sql e f s) = s\<lparr>faults := bs\<rparr>"
proof (cases "faults s")
  case Nil
  with assms show ?thesis
    by (auto simp: try_sql_def intro: exI [of _ "[]"] set_faults_same [symmetric] split: sum.splits)
next
  case (Cons b bs)
  with assms show ?thesis by (auto simp: try_sql_def Let_def split: sum.splits)
qed

lemma emails_Cons:
  "emails (u # rows) = (case u_email u of None \<Rightarrow> [] | Some e \<Rightarrow> [to_lower e]) @ emails rows"
  by (simp add: emails_def List.map_filter_simps split: option.splits)

lemma emails_Nil [simp]: "emails [] = []"
  by (simp add: emails_def List.map_filter_simps)

lemma emails_append: "emails (rows @ rows') = emails rows @ emails rows'"
  by (induction rows) (auto simp: emails_Cons)

lemma emails_mem: "m \<in> set (emails rows) \<longleftrightarrow> (\<exists>u \<in> set rows. \<exists>e. u_email u = Some e \<and> to_lower e = m)"
proof (induction rows)
  case (Cons u rows)
  then show ?case by (cases "u_email u") (auto simp: emails_Cons)
qed simp

lemma emails_no_match:
  "\<not> list_ex (matches_email e) rows \<longleftrightarrow> to_lower e \<notin> set (emails rows)"
  by (auto simp: emails_mem list_ex_iff matches_email_def eq_ignore_case_def split: option.splits)

lemma emails_update_same:
  "(\<And>u. u_email (f u) = u_email u) \<Longrightarrow> emails (update_user_row i f rows) = emails rows"
  by (induction rows) (auto simp: emails_Cons update_user_row_def)

lemma emails_update_clear:
  assumes "distinct (emails rows)" and "\<And>u. u_email (f u) = None"
  shows "distinct (emails (update_user_row i f rows))"
proof -
  have "set (emails (update_user_row i f rows)) \<subseteq> set (emails rows)" for rows
    using assms(2) by (induction rows) (auto simp: emails_Cons update_user_row_def split: option.splits)
  with assms show ?thesis
    by (induction rows) (auto simp: emails_Cons update_user_row_def split: option.splits)
qed

lemma emails_update_new:
  assumes "distinct (emails rows)" "distinct (map u_id rows)"
    and "\<not> list_ex (\<lambda>u. u_id u \<noteq> i \<and> matches_email e u) rows" and "\<And>u. u_email (f u) = Some e"
  shows "distinct (emails (update_user_row i f rows))"
  using assms
proof (induction rows)
  case (Cons u rows)
  have IH: "distinct (emails (update_user_row i f rows))"
    using Cons by (auto simp: emails_Cons split: option.splits)
  show ?case
  proof (cases "u_id u = i")
    case True
    then have i: "i \<notin> u_id ` set rows" using Cons.prems(2) by auto
    then have same: "update_user_row i f rows = rows"
      by (auto simp: update_user_row_def intro!: map_idI)
    have "\<not> list_ex (matches_email e) rows"
      using Cons.prems(3) i unfolding list_ex_iff image_iff by (metis list.set_intros(2))
    then have "to_lower e \<notin> set (emails rows)" by (simp add: emails_no_match)
    with IH same True Cons.prems(4) show ?thesis
      by (simp add: update_user_row_def emails_Cons)
  next
    case False
    have sub: "m \<in> set (emails (update_user_row i f rows)) \<Longrightarrow> m = to_lower e \<or> m \<in> set (emails rows)" for m
      using Cons.prems(4)
      by (induction rows) (auto simp: emails_Cons update_user_row_def split: option.splits if_splits)
    have "\<not> matches_email e u" using False Cons.prems(3) by auto
    with IH sub Cons.prems(1) False show ?thesis
      by (auto simp: update_user_row_def emails_Cons matches_email_def eq_ignore_case_def
          split: option.splits)
  qed
qed (simp add: update_user_row_def)

lemma insert_user_row_wf:
  assumes "insert_user_row r p s = (x, t)" and "wf_users s"
  shows "wf_users t"
proof (rule try_sql_keeps [where I = wf_users, OF assms(1) [unfolded insert_user_row_def] assms(2)])
  fix s :: "'a user_db_scheme" and a t
  assume wf: "wf_users s"
    and h: "(if serial_max < user_seq s then Inl SequenceExhausted
            else if list_ex (\<lambda>u. eq_ignore_case (u_username u) (nu_username r)) (users s)
                    \<or> (case nu_email r of None \<Rightarrow> False | Some e \<Rightarrow> list_ex (matches_email e) (users s))
            then Inl UniqueViolation
            else let row = new_user_row (user_seq s) (now s) r p
                 in Inr (row, s\<lparr>users := users s @ [row], user_seq := user_seq s + 1\<rparr>)) = Inr (a, t)"
  from h have names: "\<not> list_ex (\<lambda>u. eq_ignore_case (u_username u) (nu_username r)) (users s)"
    and mails: "nu_email r = Some e \<Longrightarrow> \<not> list_ex (matches_email e) (users s)"
    and t: "t = s\<lparr>users := users s @ [new_user_row (user_seq s) (now s) r p], user_seq := user_seq s + 1\<rparr>"
    for e by (auto simp: Let_def split: if_splits)
  have ids: "user_seq s \<notin> u_id ` set (users s)"
    using wf by (auto simp: wf_users_def list_all_iff)
  have less: "list_all (\<lambda>u. u_id u < user_seq s + 1) (users s)"
    using wf by (auto simp: wf_users_def list_all_iff)
  have name: "to_lower (nu_username r) \<notin> (\<lambda>u. to_lower (u_username u)) ` set (users s)"
    using names by (auto simp: list_ex_iff eq_ignore_case_def)
  have mail: "distinct (emails (users s @ [new_user_row (user_seq s) (now s) r p]))"
    using wf mails by (cases "nu_email r")
      (auto simp: wf_users_def emails_append emails_Cons new_user_row_def emails_no_match)
  show "wf_users t"
    using wf ids less name mail by (simp add: wf_users_def t new_user_row_def)
qed simp

lemma update_row_wf:
  assumes "wf_users s" and "\<And>u. u_id (f u) = u_id u" and "\<And>u. u_username (f u) = u_username u"
    and "\<And>u. u_email (f u) = u_email u"
  shows "wf_users (s\<lparr>users := update_user_row i f (users s)\<rparr>)"
  using assms
  by (simp add: wf_users_def map_update_user_row list_all_update_user_row emails_update_same)

lemma update_password_wf: "update_password i pw s = (r, t) \<Longrightarrow> wf_users s \<Longrightarrow> wf_users t"
  unfolding update_password_def
  by (erule update_sql_keeps [where I = wf_users]) (simp_all add: update_row_wf)

lemma update_name_wf: "update_name i n s = (r, t) \<Longrightarrow> wf_users s \<Longrightarrow> wf_users t"
  unfolding update_name_def
  by (erule update_sql_keeps [where I = wf_users]) (simp_all add: update_row_wf)

lemma update_username_wf:
  assumes "update_username i n s = (r, t)" and "wf_users s"
  shows "wf_users t"
proof (rule try_sql_keeps [where I = wf_users, OF assms(1) [unfolded update_username_def] assms(2)])
  fix s :: "'a user_db_scheme" and a t
  let ?f = "u_username_update (\<lambda>_. n)"
  assume wf: "wf_users s"
    and h: "(if has_user i (users s) \<and> other_user (\<lambda>u. eq_ignore_case (u_username u) n) i (users s)
            then Inl UniqueViolation
            else Inr ((), s\<lparr>users := update_user_row i ?f (users s)\<rparr>)) = Inr (a, t)"
  from h have t: "t = s\<lparr>users := update_user_row i ?f (users s)\<rparr>" by (auto split: if_splits)
  have "distinct (map (\<lambda>u. to_lower (u_username u)) (update_user_row i ?f (users s)))"
  proof (cases "has_user i (users s)")
    case True
    with h have "\<not> list_ex (\<lambda>u. u_id u \<noteq> i \<and> to_lower (u_username u) = to_lower n) (users s)"
      by (auto simp: other_user_def list_ex_iff eq_ignore_case_def split: if_splits)
    with wf show ?thesis by (intro distinct_map_update) (auto simp: wf_users_def)
  next
    case False
    then have "update_user_row i ?f (users s) = users s"
      by (auto simp: update_user_row_def has_user_def list_ex_iff intro!: map_idI)
    with wf show ?thesis by (simp add: wf_users_def)
  qed
  with wf show "wf_users t"
    by (simp add: wf_users_def t map_update_user_row list_all_update_user_row emails_update_same)
qed simp

lemma update_email_wf:
  assumes "update_email_address i m s = (r, t)" and "wf_users s"
  shows "wf_users t"
proof (rule try_sql_keeps [where I = wf_users, OF assms(1) [unfolded update_email_address_def] assms(2)])
  fix s :: "'a user_db_scheme" and a t
  let ?f = "u_email_update (\<lambda>_. m)"
  assume wf: "wf_users s"
    and h: "(let t = s\<lparr>users := update_user_row i ?f (users s)\<rparr>
            in case m of
                 None \<Rightarrow> Inr ((), t)
               | Some e \<Rightarrow>
                   if has_user i (users s) \<and> other_user (matches_email e) i (users s)
                   then Inl UniqueViolation
                   else Inr ((), t)) = Inr (a, t)"
  then have t: "t = s\<lparr>users := update_user_row i ?f (users s)\<rparr>"
    by (auto simp: Let_def split: option.splits if_splits)
  have "distinct (emails (update_user_row i ?f (users s)))"
  proof (cases "has_user i (users s)")
    case False
    then have "update_user_row i ?f (users s) = users s"
      by (auto simp: update_user_row_def has_user_def list_ex_iff intro!: map_idI)
    with wf show ?thesis by (simp add: wf_users_def)
  next
    case True
    show ?thesis
    proof (cases m)
      case None
      with wf show ?thesis by (intro emails_update_clear) (auto simp: wf_users_def)
    next
      case (Some e)
      with h True have "\<not> list_ex (\<lambda>u. u_id u \<noteq> i \<and> matches_email e u) (users s)"
        by (auto simp: other_user_def Let_def split: if_splits)
      with wf Some show ?thesis by (intro emails_update_new) (auto simp: wf_users_def)
    qed
  qed
  with wf show "wf_users t"
    by (simp add: wf_users_def t map_update_user_row list_all_update_user_row)
qed simp

lemma try_sql_error_users:
  "fst (try_sql e f s) = Inl e' \<Longrightarrow> users (snd (try_sql e f s)) = users s"
  using try_sql_error [of e f s e'] by auto

lemmas user_ops_wf =
  insert_user_row_wf [OF prod.collapse [symmetric]] update_password_wf [OF prod.collapse [symmetric]]
  update_email_wf [OF prod.collapse [symmetric]] update_username_wf [OF prod.collapse [symmetric]]
  update_name_wf [OF prod.collapse [symmetric]]

lemma user_ops_error:
  "fst (insert_user_row req p s) = Inl e \<Longrightarrow> users (snd (insert_user_row req p s)) = users s"
  "fst (update_email_address i mail s) = Inl e \<Longrightarrow> users (snd (update_email_address i mail s)) = users s"
  "fst (update_username i nm s) = Inl e \<Longrightarrow> users (snd (update_username i nm s)) = users s"
  unfolding insert_user_row_def update_email_address_def update_username_def
  by (rule try_sql_error_users; assumption)+


definition sample_user :: "rowid \<Rightarrow> string \<Rightarrow> string \<Rightarrow> user" where
  "sample_user i name mail =
     new_user_row i 0 \<lparr>nu_name = name, nu_username = name, nu_email = Some mail, nu_password = None,
       nu_permissions = None\<rparr> default_initial_permissions"

definition sample_db :: user_db where
  "sample_db =
     \<lparr>faults = [], now = 100, users = [sample_user 1 ''alice'' ''a@x'', sample_user 2 ''bob'' ''b@x''],
      user_seq = 3, repo_permissions = [], permission_seq = 1, repositories = [7, 8]\<rparr>"


end
