(* ===== verification/Permissions.thy ===== *)
theory Permissions
  imports UserDb
begin

text \<open>
  Repository permissions (crates/core/src/user/permissions.rs,
  crates/core/src/database/entities/user/permissions.rs) and the checks by which a request is
  allowed to read a repository (pkgly/src/repository/utils.rs). The trait \<open>HasPermissions\<close> is the
  locale \<open>authorizer\<close>: what a holder of permissions answers is a function of the stored rows, and
  the readers of a repository rely on nothing else.
\<close>

record user_permissions =
  up_id :: rowid
  up_admin :: bool
  up_user_manager :: bool
  up_system_manager :: bool
  up_default_repository_actions :: "repository_action list"

definition safe_permissions :: "user_safe \<Rightarrow> user_permissions" where
  "safe_permissions u =
     \<lparr>up_id = us_id u, up_admin = us_admin u, up_user_manager = us_user_manager u,
      up_system_manager = us_system_manager u,
      up_default_repository_actions = us_default_repository_actions u\<rparr>"

definition is_admin_or_user_manager :: "user_permissions option \<Rightarrow> bool" where
  "is_admin_or_user_manager p =
     (case p of None \<Rightarrow> False | Some p \<Rightarrow> up_admin p \<or> up_user_manager p)"

definition is_admin_or_system_manager :: "user_permissions option \<Rightarrow> bool" where
  "is_admin_or_system_manager p =
     (case p of None \<Rightarrow> False | Some p \<Rightarrow> up_admin p \<or> up_system_manager p)"

section \<open>Rows of \<open>user_repository_permissions\<close>\<close>

definition row_of :: "rowid \<Rightarrow> uuid \<Rightarrow> repo_permission \<Rightarrow> bool" where
  "row_of u r p = (p_user_id p = u \<and> p_repository_id p = r)"

definition explicit_actions :: "rowid \<Rightarrow> uuid \<Rightarrow> repo_permission list \<Rightarrow> repository_action list option" where
  "explicit_actions u r rows = map_option p_actions (find (row_of u r) rows)"

definition get_actions :: "rowid \<Rightarrow> uuid \<Rightarrow> ('z, repository_action list option) query" where
  "get_actions u r = select_sql QueryFailed (\<lambda>s. explicit_actions u r (repo_permissions s))"

definition user_has_repository_action :: "rowid \<Rightarrow> uuid \<Rightarrow> repository_action \<Rightarrow> ('z, bool) query" where
  "user_has_repository_action u r a =
     bind_ok (get_actions u r) (\<lambda>actions.
       case actions of None \<Rightarrow> ret False | Some actions \<Rightarrow> ret (a \<in> set actions))"

text \<open>The map is filled row by row: a later row for the same repository would win.\<close>

definition get_all_for_user_as_map ::
  "rowid \<Rightarrow> ('z, uuid \<rightharpoonup> repository_action list) query" where
  "get_all_for_user_as_map u =
     select_sql QueryFailed
       (\<lambda>s. foldl (\<lambda>m p. m(p_repository_id p \<mapsto> p_actions p)) Map.empty
              (filter (\<lambda>p. p_user_id p = u) (repo_permissions s)))"

definition delete_permission :: "rowid \<Rightarrow> uuid \<Rightarrow> ('z, unit) query" where
  "delete_permission u r =
     update_sql QueryFailed
       (\<lambda>s. s\<lparr>repo_permissions := filter (\<lambda>p. \<not> row_of u r p) (repo_permissions s)\<rparr>)"

text \<open>\<open>NewUserRepositoryPermissions::insert\<close>: \<open>INSERT \<dots> ON CONFLICT \<dots> DO UPDATE SET actions\<close>. The
  identifier is drawn from the sequence before the conflict is found.\<close>

definition insert_permission ::
  "rowid \<Rightarrow> uuid \<Rightarrow> repository_action list \<Rightarrow> ('z, rowid) query" where
  "insert_permission u r actions =
     try_sql QueryFailed
       (\<lambda>s. if serial_max < permission_seq s then Inl SequenceExhausted
            else case find (row_of u r) (repo_permissions s) of
                   Some row \<Rightarrow>
                     Inr (p_id row,
                       s\<lparr>repo_permissions :=
                           map (\<lambda>p. if row_of u r p then p\<lparr>p_actions := actions\<rparr> else p)
                             (repo_permissions s),
                         permission_seq := permission_seq s + 1\<rparr>)
                 | None \<Rightarrow>
                     if \<not> has_user u (users s) \<or> r \<notin> set (repositories s)
                     then Inl ForeignKeyViolation
                     else Inr (permission_seq s,
                       s\<lparr>repo_permissions := repo_permissions s @
                           [\<lparr>p_id = permission_seq s, p_user_id = u, p_repository_id = r,
                             p_actions = actions, p_updated_at = now s, p_created_at = now s\<rparr>],
                         permission_seq := permission_seq s + 1\<rparr>))"

record full_user_permissions =
  fp_user_id :: rowid
  fp_admin :: bool
  fp_user_manager :: bool
  fp_system_manager :: bool
  fp_default_repository_actions :: "repository_action list"
  fp_repository_permissions :: "uuid \<rightharpoonup> repository_action list"

definition full_permissions_by_id :: "rowid \<Rightarrow> ('z, full_user_permissions option) query" where
  "full_permissions_by_id u =
     bind_ok (select_sql QueryFailed (\<lambda>s. find_user (users s) u)) (\<lambda>permissions.
       case permissions of
         None \<Rightarrow> ret None
       | Some row \<Rightarrow>
           bind_ok (get_all_for_user_as_map u) (\<lambda>repository_permissions.
             ret (Some \<lparr>fp_user_id = u, fp_admin = u_admin row, fp_user_manager = u_user_manager row,
               fp_system_manager = u_system_manager row,
               fp_default_repository_actions = u_default_repository_actions row,
               fp_repository_permissions = repository_permissions\<rparr>)))"

section \<open>The decision\<close>

definition check_user_repository_action ::
  "user_permissions option \<Rightarrow> rowid option \<Rightarrow> repository_action \<Rightarrow> uuid \<Rightarrow> ('z, bool) query" where
  "check_user_repository_action permissions user_id action repository =
     (if is_admin_or_system_manager permissions then ret True
      else case user_id of
             None \<Rightarrow> ret False
           | Some uid \<Rightarrow>
               bind_ok (get_actions uid repository) (\<lambda>explicit.
                 case explicit of
                   Some explicit \<Rightarrow> ret (action \<in> set explicit)
                 | None \<Rightarrow>
                     (case permissions of
                        Some perms \<Rightarrow> ret (action \<in> set (up_default_repository_actions perms))
                      | None \<Rightarrow> ret False)))"

text \<open>\<open>has_action\<close> of \<open>UserPermissions\<close>, of \<open>UserSafeData\<close> and of an optional holder.\<close>

definition permissions_has_action ::
  "user_permissions \<Rightarrow> repository_action \<Rightarrow> uuid \<Rightarrow> ('z, bool) query" where
  "permissions_has_action p = check_user_repository_action (Some p) (Some (up_id p))"

definition safe_has_action :: "user_safe \<Rightarrow> repository_action \<Rightarrow> uuid \<Rightarrow> ('z, bool) query" where
  "safe_has_action u = check_user_repository_action (Some (safe_permissions u)) (Some (us_id u))"

definition option_has_action ::
  "('a \<Rightarrow> repository_action \<Rightarrow> uuid \<Rightarrow> ('z, bool) query) \<Rightarrow>
     'a option \<Rightarrow> repository_action \<Rightarrow> uuid \<Rightarrow> ('z, bool) query" where
  "option_has_action has_action auth action repository =
     (case auth of Some auth \<Rightarrow> has_action auth action repository | None \<Rightarrow> ret False)"

text \<open>What the stored rows allow: the reference the checks are compared with.\<close>

definition user_allowed ::
  "user_safe \<Rightarrow> repository_action \<Rightarrow> uuid \<Rightarrow> 'z user_db_scheme \<Rightarrow> bool" where
  "user_allowed u a r s =
     (us_admin u \<or> us_system_manager u \<or>
      (case explicit_actions (us_id u) r (repo_permissions s) of
         Some actions \<Rightarrow> a \<in> set actions
       | None \<Rightarrow> a \<in> set (us_default_repository_actions u)))"

section \<open>Readers of a repository\<close>

datatype visibility = Public | Private | Hidden

record auth_config =
  auth_enabled :: bool

definition can_read_repository ::
  "('a \<Rightarrow> repository_action \<Rightarrow> uuid \<Rightarrow> ('z, bool) query) \<Rightarrow>
     'a \<Rightarrow> visibility \<Rightarrow> uuid \<Rightarrow> ('z, bool) query" where
  "can_read_repository has_action auth visibility repository_id =
     (if visibility = Private \<or> visibility = Hidden then has_action auth Read repository_id
      else ret True)"

definition can_read_repository_with_auth ::
  "('a \<Rightarrow> repository_action \<Rightarrow> uuid \<Rightarrow> ('z, bool) query) \<Rightarrow>
     'a \<Rightarrow> visibility \<Rightarrow> uuid \<Rightarrow> auth_config \<Rightarrow> ('z, bool) query" where
  "can_read_repository_with_auth has_action auth visibility repository_id config =
     (if auth_enabled config then has_action auth Read repository_id
      else can_read_repository has_action auth visibility repository_id)"

text \<open>The contract of \<open>HasPermissions::has_action\<close>: it only reads, and answers \<open>allowed\<close>.\<close>

locale authorizer =
  fixes has_action :: "'a \<Rightarrow> repository_action \<Rightarrow> uuid \<Rightarrow> ('z, bool) query"
    and allowed :: "'a \<Rightarrow> repository_action \<Rightarrow> uuid \<Rightarrow> 'z user_db_scheme \<Rightarrow> bool"
  assumes answers: "reads (has_action auth action repository) (allowed auth action repository)"
begin

definition readable :: "'a \<Rightarrow> visibility \<Rightarrow> uuid \<Rightarrow> auth_config \<Rightarrow> 'z user_db_scheme \<Rightarrow> bool" where
  "readable auth vis repository config s =
     ((\<not> auth_enabled config \<and> vis = Public) \<or> allowed auth Read repository s)"

lemma can_read_answers:
  "reads (can_read_repository_with_auth has_action auth vis repository config)
     (readable auth vis repository config)"
proof (cases "\<not> auth_enabled config \<and> vis = Public")
  case True
  then have "readable auth vis repository config = (\<lambda>s. True)" by (auto simp: readable_def)
  with True show ?thesis
    by (simp add: can_read_repository_with_auth_def can_read_repository_def reads_ret)
next
  case False
  then have "readable auth vis repository config = allowed auth Read repository"
    by (auto simp: readable_def)
  with False show ?thesis
    by (cases vis) (auto simp: can_read_repository_with_auth_def can_read_repository_def answers)
qed

lemma option_answers:
  "reads (option_has_action has_action auth action repository)
     (\<lambda>s. case auth of None \<Rightarrow> False | Some a \<Rightarrow> allowed a action repository s)"
  by (cases auth) (auto simp: option_has_action_def reads_ret answers)

end

section \<open>What the checks answer\<close>

lemma explicit_actions_stable: "stable (\<lambda>s. f (explicit_actions u r (repo_permissions s)))"
  by (simp add: stable_def)

lemma reads_get_actions:
  "reads (get_actions u r) (\<lambda>s. explicit_actions u r (repo_permissions s))"
  unfolding get_actions_def by (rule reads_select) (simp add: stable_def)

lemma reads_check:
  "reads (check_user_repository_action permissions user_id action repository)
     (\<lambda>s. is_admin_or_system_manager permissions \<or>
          (case user_id of
             None \<Rightarrow> False
           | Some uid \<Rightarrow>
               (case explicit_actions uid repository (repo_permissions s) of
                  Some actions \<Rightarrow> action \<in> set actions
                | None \<Rightarrow>
                    (case permissions of
                       None \<Rightarrow> False
                     | Some p \<Rightarrow> action \<in> set (up_default_repository_actions p)))))"
proof -
  have step: "reads (case explicit of
                   Some explicit \<Rightarrow> ret (action \<in> set explicit)
                 | None \<Rightarrow>
                     (case permissions of
                        Some perms \<Rightarrow> ret (action \<in> set (up_default_repository_actions perms))
                      | None \<Rightarrow> ret False))
       (\<lambda>s. case explicit of
              Some actions \<Rightarrow> action \<in> set actions
            | None \<Rightarrow> (case permissions of
                       None \<Rightarrow> False
                     | Some p \<Rightarrow> action \<in> set (up_default_repository_actions p)))" for explicit
    by (cases explicit; cases permissions) (auto simp: reads_ret)
  show ?thesis
  proof (cases "is_admin_or_system_manager permissions")
    case True
    then show ?thesis by (simp add: check_user_repository_action_def reads_ret)
  next
    case False
    show ?thesis
    proof (cases user_id)
      case None
      with False show ?thesis by (simp add: check_user_repository_action_def reads_ret)
    next
      case (Some uid)
      have "reads (bind_ok (get_actions uid repository) (\<lambda>explicit.
                 case explicit of
                   Some explicit \<Rightarrow> ret (action \<in> set explicit)
                 | None \<Rightarrow>
                     (case permissions of
                        Some perms \<Rightarrow> ret (action \<in> set (up_default_repository_actions perms))
                      | None \<Rightarrow> ret False)))
           (\<lambda>s. case explicit_actions uid repository (repo_permissions s) of
              Some actions \<Rightarrow> action \<in> set actions
            | None \<Rightarrow> (case permissions of
                       None \<Rightarrow> False
                     | Some p \<Rightarrow> action \<in> set (up_default_repository_actions p)))"
        by (rule reads_bind [OF reads_get_actions step]) simp
      with False Some show ?thesis by (simp add: check_user_repository_action_def)
    qed
  qed
qed

interpretation safe: authorizer safe_has_action user_allowed
proof
  fix u a r
  show "reads (safe_has_action u a r) (user_allowed u a r)"
    unfolding safe_has_action_def
    by (rule reads_cong [OF reads_check])
      (auto simp: user_allowed_def is_admin_or_system_manager_def safe_permissions_def
        split: option.splits)
qed

section \<open>Updating permissions\<close>

record update_request =
  upd_admin :: "bool option"
  upd_user_manager :: "bool option"
  upd_system_manager :: "bool option"
  upd_default_repository_actions :: "repository_action list option"
  upd_repository_permissions :: "(uuid \<times> repository_action list) list"

text \<open>The \<open>HashMap\<close> of the request is the list of its entries, with distinct keys, in the order the
  loop visits them.\<close>

definition has_regular_change :: "update_request \<Rightarrow> bool" where
  "has_regular_change r =
     (upd_admin r \<noteq> None \<or> upd_user_manager r \<noteq> None \<or> upd_system_manager r \<noteq> None \<or>
      upd_default_repository_actions r \<noteq> None)"

definition or_keep :: "'a option \<Rightarrow> 'a \<Rightarrow> 'a" where
  "or_keep new old = (case new of Some v \<Rightarrow> v | None \<Rightarrow> old)"

definition apply_regular :: "update_request \<Rightarrow> user \<Rightarrow> user" where
  "apply_regular r u =
     u\<lparr>u_admin := or_keep (upd_admin r) (u_admin u),
       u_user_manager := or_keep (upd_user_manager r) (u_user_manager u),
       u_system_manager := or_keep (upd_system_manager r) (u_system_manager u),
       u_default_repository_actions :=
         or_keep (upd_default_repository_actions r) (u_default_repository_actions u)\<rparr>"

definition update_regular :: "update_request \<Rightarrow> rowid \<Rightarrow> ('z, unit) query" where
  "update_regular r user_id =
     update_sql QueryFailed
       (\<lambda>s. s\<lparr>users := update_user_row user_id (apply_regular r) (users s)\<rparr>)"

fun update_repositories :: "rowid \<Rightarrow> (uuid \<times> repository_action list) list \<Rightarrow> ('z, unit) query" where
  "update_repositories user_id [] = ret ()"
| "update_repositories user_id ((repository, actions) # rest) =
     (if actions = []
      then bind_ok (delete_permission user_id repository) (\<lambda>_. update_repositories user_id rest)
      else bind_ok (insert_permission user_id repository actions)
             (\<lambda>_. update_repositories user_id rest))"

definition update_permissions :: "update_request \<Rightarrow> rowid \<Rightarrow> ('z, unit) query" where
  "update_permissions r user_id =
     bind_ok (if has_regular_change r then update_regular r user_id else ret ())
       (\<lambda>_. update_repositories user_id (upd_repository_permissions r))"

section \<open>Effect of an update\<close>

lemma explicit_after_delete:
  "explicit_actions u' r' (filter (\<lambda>p. \<not> row_of u r p) rows) =
     (if u' = u \<and> r' = r then None else explicit_actions u' r' rows)"
  by (induction rows) (auto simp: explicit_actions_def row_of_def)

lemma row_of_actions [simp]: "row_of u r (p\<lparr>p_actions := acts\<rparr>) = row_of u r p"
  by (simp add: row_of_def)

lemma row_of_unique: "row_of u r p \<Longrightarrow> row_of u' r' p \<longleftrightarrow> u' = u \<and> r' = r"
  by (auto simp: row_of_def)

lemma find_overwrite:
  "find (row_of u' r') (map (\<lambda>p. if row_of u r p then p\<lparr>p_actions := acts\<rparr> else p) rows) =
     map_option (\<lambda>p. if row_of u r p then p\<lparr>p_actions := acts\<rparr> else p) (find (row_of u' r') rows)"
  by (induction rows) simp_all

lemma explicit_after_overwrite:
  assumes "find (row_of u r) rows = Some row"
  shows "explicit_actions u' r' (map (\<lambda>p. if row_of u r p then p\<lparr>p_actions := acts\<rparr> else p) rows) =
     (if u' = u \<and> r' = r then Some acts else explicit_actions u' r' rows)"
proof (cases "u' = u \<and> r' = r")
  case True
  have "row_of u r row" using assms by (auto simp: find_Some_iff)
  with True assms show ?thesis by (simp add: explicit_actions_def find_overwrite)
next
  case False
  have "\<not> row_of u r p" if "find (row_of u' r') rows = Some p" for p
    using that False row_of_unique by (fastforce simp: find_Some_iff)
  with False show ?thesis
    by (cases "find (row_of u' r') rows") (auto simp: explicit_actions_def find_overwrite)
qed

lemma explicit_after_append:
  assumes "find (row_of u r) rows = None" "row_of u r p"
  shows "explicit_actions u' r' (rows @ [p]) =
     (if u' = u \<and> r' = r then Some (p_actions p) else explicit_actions u' r' rows)"
  using assms by (induction rows) (auto simp: explicit_actions_def row_of_def split: if_splits)

lemma delete_permission_effect:
  assumes "delete_permission u r s = (Inr x, t)"
  shows "explicit_actions u' r' (repo_permissions t) =
      (if u' = u \<and> r' = r then None else explicit_actions u' r' (repo_permissions s))"
    and "users t = users s" "repositories t = repositories s"
  using assms unfolding delete_permission_def
  by (auto dest!: update_sql_Inr simp: explicit_after_delete)

lemma insert_permission_effect:
  assumes "insert_permission u r actions s = (Inr x, t)"
  shows "explicit_actions u' r' (repo_permissions t) =
      (if u' = u \<and> r' = r then Some actions else explicit_actions u' r' (repo_permissions s))"
    and "users t = users s" "repositories t = repositories s"
proof -
  from assms obtain s' where s': "s' = s\<lparr>faults := tl (faults s)\<rparr>"
    and h: "(if serial_max < permission_seq s' then Inl SequenceExhausted
            else case find (row_of u r) (repo_permissions s') of
                   Some row \<Rightarrow>
                     Inr (p_id row,
                       s'\<lparr>repo_permissions :=
                           map (\<lambda>p. if row_of u r p then p\<lparr>p_actions := actions\<rparr> else p)
                             (repo_permissions s'),
                         permission_seq := permission_seq s' + 1\<rparr>)
                 | None \<Rightarrow>
                     if \<not> has_user u (users s') \<or> r \<notin> set (repositories s')
                     then Inl ForeignKeyViolation
                     else Inr (permission_seq s',
                       s'\<lparr>repo_permissions := repo_permissions s' @
                           [\<lparr>p_id = permission_seq s', p_user_id = u, p_repository_id = r,
                             p_actions = actions, p_updated_at = now s', p_created_at = now s'\<rparr>],
                         permission_seq := permission_seq s' + 1\<rparr>)) = Inr (x, t)"
    unfolding insert_permission_def by (auto dest!: try_sql_Inr)
  show "explicit_actions u' r' (repo_permissions t) =
      (if u' = u \<and> r' = r then Some actions else explicit_actions u' r' (repo_permissions s))"
  proof (cases "find (row_of u r) (repo_permissions s')")
    case None
    then have N: "find (row_of u r) (repo_permissions s) = None" by (simp add: s')
    from h show ?thesis
      by (auto simp: s' N explicit_after_append [OF N] row_of_def split: if_splits)
  next
    case (Some row)
    then have S: "find (row_of u r) (repo_permissions s) = Some row" by (simp add: s')
    from h show ?thesis
      by (auto simp: s' S explicit_after_overwrite [OF S] split: if_splits)
  qed
  show "users t = users s" "repositories t = repositories s"
    using h by (auto simp: s' split: if_splits option.splits)
qed

lemma update_repositories_effect:
  assumes "update_repositories u reqs s = (Inr x, t)" and "distinct (map fst reqs)"
  shows "explicit_actions u' r' (repo_permissions t) =
      (case map_of reqs r' of
         Some actions \<Rightarrow>
           if u' = u then (if actions = [] then None else Some actions)
           else explicit_actions u' r' (repo_permissions s)
       | None \<Rightarrow> explicit_actions u' r' (repo_permissions s))
     \<and> users t = users s \<and> repositories t = repositories s"
  using assms
proof (induction reqs arbitrary: s)
  case Nil
  then show ?case by (simp add: ret_def)
next
  case (Cons req reqs)
  obtain r acts where req: "req = (r, acts)" by fastforce
  have fresh: "map_of reqs r = None" using Cons.prems(2) by (simp add: req map_of_eq_None_iff)
  have dist: "distinct (map fst reqs)" using Cons.prems(2) by simp
  show ?case
  proof (cases "acts = []")
    case True
    with Cons.prems(1) obtain y t1 where d: "delete_permission u r s = (Inr y, t1)"
      and rest: "update_repositories u reqs t1 = (Inr x, t)"
      by (auto simp: req bind_ok_Inr_iff)
    from Cons.IH [OF rest dist] delete_permission_effect [OF d] True fresh show ?thesis
      by (auto simp: req split: option.splits)
  next
    case False
    with Cons.prems(1) obtain y t1 where d: "insert_permission u r acts s = (Inr y, t1)"
      and rest: "update_repositories u reqs t1 = (Inr x, t)"
      by (auto simp: req bind_ok_Inr_iff)
    from Cons.IH [OF rest dist] insert_permission_effect [OF d] False fresh show ?thesis
      by (auto simp: req split: option.splits)
  qed
qed

lemma update_regular_effect:
  assumes "(if has_regular_change r then update_regular r u else ret ()) s = (Inr x, t)"
  shows "find_user (users t) u' =
      (if u' = u then map_option (apply_regular r) (find_user (users s) u')
       else find_user (users s) u')
     \<and> repo_permissions t = repo_permissions s \<and> repositories t = repositories s"
proof (cases "has_regular_change r")
  case True
  with assms have "t = (let s' = s\<lparr>faults := tl (faults s)\<rparr>
      in s'\<lparr>users := update_user_row u (apply_regular r) (users s')\<rparr>)"
    by (auto simp: update_regular_def dest!: update_sql_Inr)
  then show ?thesis
    by (simp add: find_user_update apply_regular_def)
next
  case False
  then have "apply_regular r w = w" for w
    by (simp add: apply_regular_def has_regular_change_def or_keep_def)
  then have "apply_regular r = (\<lambda>w. w)" by (rule ext)
  with False assms show ?thesis by (simp add: ret_def option.map_ident)
qed

text \<open>The effect of a whole update on what a user may do afterwards.\<close>

lemma update_permissions_effect:
  assumes "update_permissions r u s = (Inr x, t)" and "distinct (map fst (upd_repository_permissions r))"
  shows "find_user (users t) u' =
      (if u' = u then map_option (apply_regular r) (find_user (users s) u')
       else find_user (users s) u')"
    and "explicit_actions u' r' (repo_permissions t) =
      (case map_of (upd_repository_permissions r) r' of
         Some actions \<Rightarrow>
           if u' = u then (if actions = [] then None else Some actions)
           else explicit_actions u' r' (repo_permissions s)
       | None \<Rightarrow> explicit_actions u' r' (repo_permissions s))"
proof -
  from assms(1) obtain y t1
    where a: "(if has_regular_change r then update_regular r u else ret ()) s = (Inr y, t1)"
      and b: "update_repositories u (upd_repository_permissions r) t1 = (Inr x, t)"
    unfolding update_permissions_def bind_ok_Inr_iff by blast
  note b' = update_repositories_effect [OF b assms(2)] and a' = update_regular_effect [OF a]
  show "find_user (users t) u' =
      (if u' = u then map_option (apply_regular r) (find_user (users s) u')
       else find_user (users s) u')"
    using a' b' by simp
  show "explicit_actions u' r' (repo_permissions t) =
      (case map_of (upd_repository_permissions r) r' of
         Some actions \<Rightarrow>
           if u' = u then (if actions = [] then None else Some actions)
           else explicit_actions u' r' (repo_permissions s)
       | None \<Rightarrow> explicit_actions u' r' (repo_permissions s))"
    unfolding b' [THEN conjunct1] a' [THEN conjunct2, THEN conjunct1] by (rule refl)
qed

text \<open>
  C4. Reading a repository. With authentication switched off for the repository a public one is
  open to everybody; in every other case the answer is the permission to read: managers may,
  otherwise the row stored for the user and the repository decides, and the user's default actions
  when there is none. The check changes no data, a failed query is an error and never a grant, and
  without failures there is an answer.
\<close>

theorem repository_read_decision:
  assumes out: "can_read_repository_with_auth safe_has_action u vis r config s = (x, t)"
  shows "(\<exists>bs. t = s\<lparr>faults := bs\<rparr>) \<and>
     (x = Inr b \<longrightarrow> b =
        ((\<not> auth_enabled config \<and> vis = Public) \<or> us_admin u \<or> us_system_manager u \<or>
         (case explicit_actions (us_id u) r (repo_permissions s) of
            Some actions \<Rightarrow> Read \<in> set actions
          | None \<Rightarrow> Read \<in> set (us_default_repository_actions u)))) \<and>
     (faults s = [] \<longrightarrow> (\<exists>b. x = Inr b))"
proof -
  note r = safe.can_read_answers [of u vis r config]
  have "\<exists>bs. t = s\<lparr>faults := bs\<rparr>" by (rule readsD(1) [OF r out])
  moreover have "x = Inr b \<Longrightarrow> b = safe.readable u vis r config s" by (rule readsD(2) [OF r out])
  moreover have "faults s = [] \<Longrightarrow> x = Inr (safe.readable u vis r config s)"
    using reads_no_faults [OF r, of s] out by simp
  ultimately show ?thesis unfolding safe.readable_def user_allowed_def by blast
qed

theorem repository_read_decision_witness:
  "fst (can_read_repository_with_auth safe_has_action
     (user_safe_from (sample_user 1 ''alice'' ''a@x'')) Hidden 7 \<lparr>auth_enabled = False\<rparr> sample_db) = Inr False"
proof -
  let ?u = "user_safe_from (sample_user 1 ''alice'' ''a@x'')"
  have no: "\<not> us_admin ?u" "\<not> us_system_manager ?u" "us_default_repository_actions ?u = []"
      "explicit_actions (us_id ?u) 7 (repo_permissions sample_db) = None" "faults sample_db = []"
    by code_simp+
  let ?out = "can_read_repository_with_auth safe_has_action ?u Hidden 7 \<lparr>auth_enabled = False\<rparr> sample_db"
  note d = repository_read_decision [of ?u Hidden 7 "\<lparr>auth_enabled = False\<rparr>" sample_db, OF prod.collapse [symmetric]]
  obtain b where b: "fst ?out = Inr b" using d no(5) by blast
  with d [of b] no have "\<not> b" by simp
  with b show ?thesis by simp
qed

text \<open>What a request leaves of a user, field by field.\<close>

lemma apply_regular_fields:
  "apply_regular r = (\<lambda>w.
     w\<lparr>u_admin := (case upd_admin r of Some b \<Rightarrow> b | None \<Rightarrow> u_admin w),
       u_user_manager := (case upd_user_manager r of Some b \<Rightarrow> b | None \<Rightarrow> u_user_manager w),
       u_system_manager := (case upd_system_manager r of Some b \<Rightarrow> b | None \<Rightarrow> u_system_manager w),
       u_default_repository_actions :=
         (case upd_default_repository_actions r of Some as \<Rightarrow> as | None \<Rightarrow> u_default_repository_actions w)\<rparr>)"
  by (rule ext) (simp add: apply_regular_def or_keep_def)

text \<open>
  C5. A permission update that succeeds is exact: the flags and default actions given in the
  request replace the old ones of that user and the others stay; for every repository of the
  request, in whatever order they are visited, the given actions are what the next check finds, an
  empty list removes the entry; every other repository and every other user is untouched.
\<close>

theorem update_permissions_exact:
  assumes "update_permissions r u s = (Inr x, t)" and "distinct (map fst (upd_repository_permissions r))"
  shows "find_user (users t) u = map_option (\<lambda>w.
       w\<lparr>u_admin := (case upd_admin r of Some b \<Rightarrow> b | None \<Rightarrow> u_admin w),
         u_user_manager := (case upd_user_manager r of Some b \<Rightarrow> b | None \<Rightarrow> u_user_manager w),
         u_system_manager := (case upd_system_manager r of Some b \<Rightarrow> b | None \<Rightarrow> u_system_manager w),
         u_default_repository_actions :=
           (case upd_default_repository_actions r of Some as \<Rightarrow> as | None \<Rightarrow> u_default_repository_actions w)\<rparr>)
       (find_user (users s) u) \<and>
     (u' \<noteq> u \<longrightarrow> find_user (users t) u' = find_user (users s) u') \<and>
     get_actions u' repository (t\<lparr>faults := []\<rparr>) =
       (Inr (case map_of (upd_repository_permissions r) repository of
          Some actions \<Rightarrow>
            if u' = u then (if actions = [] then None else Some actions)
            else explicit_actions u' repository (repo_permissions s)
        | None \<Rightarrow> explicit_actions u' repository (repo_permissions s)), t\<lparr>faults := []\<rparr>)"
  using update_permissions_effect [OF assms] apply_regular_fields [of r]
  by (simp add: get_actions_def)

definition sample_update :: update_request where
  "sample_update =
     \<lparr>upd_admin = None, upd_user_manager = Some True, upd_system_manager = None,
      upd_default_repository_actions = None,
      upd_repository_permissions = [(7, [Read, Write]), (8, [])]\<rparr>"

theorem update_permissions_exact_witness:
  "fst (get_actions 1 7 ((snd (update_permissions sample_update 1 sample_db))\<lparr>faults := []\<rparr>)) =
     Inr (Some [Read, Write]) \<and>
   map_option u_user_manager (find_user (users (snd (update_permissions sample_update 1 sample_db))) 1) = Some True"
proof -
  let ?out = "update_permissions sample_update 1 sample_db"
  have ok: "fst ?out = Inr ()" by code_simp
  then have run: "?out = (Inr (), snd ?out)" by (metis prod.collapse)
  have h: "distinct (map fst (upd_repository_permissions sample_update))" by code_simp
  have m: "map_of (upd_repository_permissions sample_update) 7 = Some [Read, Write]"
    "upd_user_manager sample_update = Some True" by code_simp+
  have "find_user (users sample_db) 1 \<noteq> None" by code_simp
  then show ?thesis
    using update_permissions_exact [OF run h, of 1 7] m by auto
qed

end
