(* ===== verification/AuthTokens.thy ===== *)
theory AuthTokens
  imports Permissions
begin

text \<open>
  Access tokens (crates/core/src/database/entities/user/auth_token.rs and its modules
  \<open>repository_scope\<close>, \<open>scope\<close> and \<open>utils\<close>, crates/core/src/user/scopes.rs): the token rows and their
  scopes, their creation, look-up, expiry and deletion, and the check that combines the rights of
  the user with the scopes of the token. The digest of a token (SHA-256 in base64, third-party
  code) is the parameter \<open>hash\<close>; the texts the random generator draws are the list \<open>draws\<close>.
\<close>

datatype nr_scope = ReadRepository | WriteRepository | EditRepository | UpdatePassword

fun scope_of_action :: "repository_action \<Rightarrow> nr_scope" where
  "scope_of_action Read = ReadRepository"
| "scope_of_action Write = WriteRepository"
| "scope_of_action Edit = EditRepository"

record auth_token =
  t_id :: rowid
  t_user_id :: rowid
  t_name :: "string option"
  t_description :: "string option"
  t_token :: string
  t_active :: bool
  t_source :: string
  t_expires_at :: "instant option"
  t_created_at :: instant

record token_scope =
  ts_id :: rowid
  ts_token_id :: rowid
  ts_scope :: nr_scope
  ts_created_at :: instant

record token_repository_scope =
  tr_id :: rowid
  tr_token_id :: rowid
  tr_repository_id :: uuid
  tr_actions :: "repository_action list"
  tr_created_at :: instant

record token_db = user_db +
  tokens :: "auth_token list"
  token_seq :: rowid
  token_scopes :: "token_scope list"
  token_scope_seq :: rowid
  token_repository_scopes :: "token_repository_scope list"
  token_repository_scope_seq :: rowid

type_synonym ('z, 'a) token_query = "('z token_db_scheme, sqlx_error, 'a) stm"

section \<open>Queries\<close>

text \<open>\<open>ORDER BY created_at DESC\<close>.\<close>

definition get_owned_by_user :: "rowid \<Rightarrow> ('z, auth_token list) token_query" where
  "get_owned_by_user u =
     select_sql QueryFailed
       (\<lambda>s. sort_key (\<lambda>t. - t_created_at t) (filter (\<lambda>t. t_user_id t = u) (tokens s)))"

definition token_live :: "instant \<Rightarrow> auth_token \<Rightarrow> bool" where
  "token_live n t = (t_active t \<and> (case t_expires_at t of None \<Rightarrow> True | Some e \<Rightarrow> e > n))"

definition get_by_token :: "(string \<Rightarrow> string) \<Rightarrow> string \<Rightarrow> ('z, auth_token option) token_query" where
  "get_by_token hash token =
     select_sql QueryFailed
       (\<lambda>s. find (\<lambda>t. t_token t = hash token \<and> token_live (now s) t) (tokens s))"

definition has_scope :: "auth_token \<Rightarrow> nr_scope \<Rightarrow> ('z, bool) token_query" where
  "has_scope token scope =
     bind_ok (select_sql QueryFailed
        (\<lambda>s. length (filter (\<lambda>r. ts_token_id r = t_id token \<and> ts_scope r = scope) (token_scopes s))))
       (\<lambda>can_read. ret (can_read > 0))"

text \<open>\<open>AuthToken::get_scopes\<close> and \<open>AuthTokenScope::get_by_token_id\<close>.\<close>

definition get_scopes :: "rowid \<Rightarrow> ('z, token_scope list) token_query" where
  "get_scopes i = select_sql QueryFailed (\<lambda>s. filter (\<lambda>r. ts_token_id r = i) (token_scopes s))"

definition get_repository_scopes :: "rowid \<Rightarrow> ('z, token_repository_scope list) token_query" where
  "get_repository_scopes i =
     select_sql QueryFailed (\<lambda>s. filter (\<lambda>r. tr_token_id r = i) (token_repository_scopes s))"

definition scoped_actions ::
  "rowid \<Rightarrow> uuid \<Rightarrow> token_repository_scope list \<Rightarrow> repository_action list option" where
  "scoped_actions i r rows =
     map_option tr_actions (find (\<lambda>x. tr_token_id x = i \<and> tr_repository_id x = r) rows)"

definition token_has_repository_action ::
  "auth_token \<Rightarrow> uuid \<Rightarrow> repository_action \<Rightarrow> ('z, bool) token_query" where
  "token_has_repository_action token repository action =
     bind_ok (has_scope token (scope_of_action action)) (\<lambda>general.
       if general then ret True
       else bind_ok (select_sql QueryFailed
              (\<lambda>s. scoped_actions (t_id token) repository (token_repository_scopes s)))
            (\<lambda>actions.
               case actions of None \<Rightarrow> ret False | Some actions \<Rightarrow> ret (action \<in> set actions)))"

definition get_by_id_and_user_id :: "rowid \<Rightarrow> rowid \<Rightarrow> ('z, auth_token option) token_query" where
  "get_by_id_and_user_id i u =
     select_sql QueryFailed (\<lambda>s. find (\<lambda>t. t_id t = i \<and> t_user_id t = u) (tokens s))"

text \<open>The foreign keys of both scope tables are \<open>ON DELETE CASCADE\<close>.\<close>

definition remove_tokens :: "(auth_token \<Rightarrow> bool) \<Rightarrow> 'z token_db_scheme \<Rightarrow> 'z token_db_scheme" where
  "remove_tokens P s =
     (let gone = map t_id (filter P (tokens s))
      in s\<lparr>tokens := filter (\<lambda>t. \<not> P t) (tokens s),
           token_scopes := filter (\<lambda>r. ts_token_id r \<notin> set gone) (token_scopes s),
           token_repository_scopes :=
             filter (\<lambda>r. tr_token_id r \<notin> set gone) (token_repository_scopes s)\<rparr>)"

definition delete_token :: "auth_token \<Rightarrow> ('z, unit) token_query" where
  "delete_token token = update_sql QueryFailed (remove_tokens (\<lambda>t. t_id t = t_id token))"

definition token_expired :: "instant \<Rightarrow> auth_token \<Rightarrow> bool" where
  "token_expired n t = (case t_expires_at t of None \<Rightarrow> False | Some e \<Rightarrow> e < n)"

definition delete_expired :: "('z, nat) token_query" where
  "delete_expired =
     exec_sql QueryFailed
       (\<lambda>s. (length (filter (token_expired (now s)) (tokens s)),
             remove_tokens (token_expired (now s)) s))"

section \<open>Creation\<close>

text \<open>\<open>create_token\<close>: draw until the digest is not in use. The loop runs over the texts drawn;
  \<open>None\<close> is a loop still running after them.\<close>

fun create_token ::
  "(string \<Rightarrow> string) \<Rightarrow> string list \<Rightarrow> ('z, (string \<times> string) option) token_query" where
  "create_token hash [] = ret None"
| "create_token hash (token # draws) =
     (let hashed_token = hash token
      in bind_ok (select_sql QueryFailed
            (\<lambda>s. length (filter (\<lambda>t. t_token t = hashed_token) (tokens s))))
           (\<lambda>exists_count.
              if exists_count = 0 then ret (Some (token, hashed_token))
              else create_token hash draws))"

definition insert_token_row ::
  "rowid \<Rightarrow> string option \<Rightarrow> string option \<Rightarrow> string \<Rightarrow> string \<Rightarrow> instant option \<Rightarrow>
     ('z, rowid) token_query" where
  "insert_token_row u name description hashed source expires =
     try_sql QueryFailed
       (\<lambda>s. if serial_max < token_seq s then Inl SequenceExhausted
            else if hashed \<in> t_token ` set (tokens s) then Inl UniqueViolation
            else if \<not> has_user u (users s) then Inl ForeignKeyViolation
            else Inr (token_seq s,
              s\<lparr>tokens := tokens s @
                  [\<lparr>t_id = token_seq s, t_user_id = u, t_name = name, t_description = description,
                    t_token = hashed, t_active = True, t_source = source, t_expires_at = expires,
                    t_created_at = now s\<rparr>],
                token_seq := token_seq s + 1\<rparr>))"

definition insert_scope :: "rowid \<Rightarrow> nr_scope \<Rightarrow> ('z, unit) token_query" where
  "insert_scope i scope =
     try_sql QueryFailed
       (\<lambda>s. if serial_max < token_scope_seq s then Inl SequenceExhausted
            else if i \<notin> t_id ` set (tokens s) then Inl ForeignKeyViolation
            else Inr ((),
              s\<lparr>token_scopes := token_scopes s @
                  [\<lparr>ts_id = token_scope_seq s, ts_token_id = i, ts_scope = scope,
                    ts_created_at = now s\<rparr>],
                token_scope_seq := token_scope_seq s + 1\<rparr>))"

definition insert_repository_scope ::
  "rowid \<Rightarrow> uuid \<Rightarrow> repository_action list \<Rightarrow> ('z, unit) token_query" where
  "insert_repository_scope i repository actions =
     try_sql QueryFailed
       (\<lambda>s. if serial_max < token_repository_scope_seq s then Inl SequenceExhausted
            else if i \<notin> t_id ` set (tokens s) \<or> repository \<notin> set (repositories s)
            then Inl ForeignKeyViolation
            else Inr ((),
              s\<lparr>token_repository_scopes := token_repository_scopes s @
                  [\<lparr>tr_id = token_repository_scope_seq s, tr_token_id = i,
                    tr_repository_id = repository, tr_actions = actions, tr_created_at = now s\<rparr>],
                token_repository_scope_seq := token_repository_scope_seq s + 1\<rparr>))"

fun insert_scopes :: "rowid \<Rightarrow> nr_scope list \<Rightarrow> ('z, unit) token_query" where
  "insert_scopes i [] = ret ()"
| "insert_scopes i (scope # rest) = bind_ok (insert_scope i scope) (\<lambda>_. insert_scopes i rest)"

fun insert_repository_scopes ::
  "rowid \<Rightarrow> (uuid \<times> repository_action list) list \<Rightarrow> ('z, unit) token_query" where
  "insert_repository_scopes i [] = ret ()"
| "insert_repository_scopes i ((repository, actions) # rest) =
     bind_ok (insert_repository_scope i repository actions)
       (\<lambda>_. insert_repository_scopes i rest)"

record new_auth_token =
  nt_user_id :: rowid
  nt_name :: "string option"
  nt_description :: "string option"
  nt_source :: string
  nt_expires_at :: "instant option"
  nt_scopes :: "nr_scope list"
  nt_repositories :: "(uuid \<times> repository_action list) list"

definition insert_auth_token ::
  "(string \<Rightarrow> string) \<Rightarrow> string list \<Rightarrow> new_auth_token \<Rightarrow> ('z, (rowid \<times> string) option) token_query"
where
  "insert_auth_token hash draws new =
     bind_ok (create_token hash draws) (\<lambda>created.
       case created of
         None \<Rightarrow> ret None
       | Some (token, hashed) \<Rightarrow>
           bind_ok (insert_token_row (nt_user_id new) (nt_name new) (nt_description new) hashed
                      (nt_source new) (nt_expires_at new)) (\<lambda>token_id.
             bind_ok (insert_scopes token_id (nt_scopes new)) (\<lambda>_.
               bind_ok (insert_repository_scopes token_id (nt_repositories new)) (\<lambda>_.
                 ret (Some (token_id, token))))))"

record new_repository_token =
  nr_user_id :: rowid
  nr_source :: string
  nr_repositories :: "(uuid \<times> repository_action list) list"
  nr_expires_at :: "instant option"

definition new_repository_token_new ::
  "rowid \<Rightarrow> string \<Rightarrow> uuid \<Rightarrow> repository_action list \<Rightarrow> new_repository_token" where
  "new_repository_token_new u source repository actions =
     \<lparr>nr_user_id = u, nr_source = source, nr_repositories = [(repository, actions)],
      nr_expires_at = None\<rparr>"

definition add_repository ::
  "new_repository_token \<Rightarrow> uuid \<Rightarrow> repository_action list \<Rightarrow> new_repository_token" where
  "add_repository t repository actions =
     t\<lparr>nr_repositories := nr_repositories t @ [(repository, actions)]\<rparr>"

definition insert_repository_token ::
  "(string \<Rightarrow> string) \<Rightarrow> string list \<Rightarrow> new_repository_token \<Rightarrow>
     ('z, (rowid \<times> string) option) token_query" where
  "insert_repository_token hash draws new =
     bind_ok (create_token hash draws) (\<lambda>created.
       case created of
         None \<Rightarrow> ret None
       | Some (token, hashed) \<Rightarrow>
           bind_ok (insert_token_row (nr_user_id new) None None hashed (nr_source new)
                      (nr_expires_at new)) (\<lambda>token_id.
             bind_ok (insert_repository_scopes token_id (nr_repositories new)) (\<lambda>_.
               ret (Some (token_id, token)))))"

section \<open>User and token together\<close>

definition does_user_and_token_have_repository_action ::
  "('u \<Rightarrow> repository_action \<Rightarrow> uuid \<Rightarrow> ('z, bool) token_query) \<Rightarrow>
     'u \<Rightarrow> auth_token \<Rightarrow> repository_action \<Rightarrow> uuid \<Rightarrow> ('z, bool) token_query" where
  "does_user_and_token_have_repository_action has_action user token action repository =
     bind_ok (has_action user action repository) (\<lambda>ok.
       if \<not> ok then ret False else token_has_repository_action token repository action)"

definition token_allowed ::
  "auth_token \<Rightarrow> repository_action \<Rightarrow> uuid \<Rightarrow> 'z token_db_scheme \<Rightarrow> bool" where
  "token_allowed token action repository s =
     ((\<exists>r \<in> set (token_scopes s). ts_token_id r = t_id token \<and> ts_scope r = scope_of_action action) \<or>
      (case scoped_actions (t_id token) repository (token_repository_scopes s) of
         None \<Rightarrow> False
       | Some actions \<Rightarrow> action \<in> set actions))"

lemma stable_tokens [simp]:
  "stable (\<lambda>s. f (token_scopes s))" "stable (\<lambda>s. g (token_repository_scopes s))"
  "stable (\<lambda>s. h (now s) (tokens s))" "stable (token_allowed t a r)"
  by (simp_all add: stable_def token_allowed_def)

lemma reads_has_scope:
  "reads (has_scope token scope)
     (\<lambda>s. \<exists>r \<in> set (token_scopes s). ts_token_id r = t_id token \<and> ts_scope r = scope)"
proof -
  have sel: "reads (select_sql QueryFailed
      (\<lambda>s. length (filter (\<lambda>r. ts_token_id r = t_id token \<and> ts_scope r = scope) (token_scopes s))))
    (\<lambda>s. length (filter (\<lambda>r. ts_token_id r = t_id token \<and> ts_scope r = scope) (token_scopes s)))"
    by (rule reads_select) (simp add: stable_def)
  show ?thesis
    unfolding has_scope_def
    by (rule reads_cong [OF reads_bind [OF sel reads_ret]])
      (auto simp: filter_empty_conv)
qed

lemma reads_token_has_repository_action:
  "reads (token_has_repository_action token repository action) (token_allowed token action repository)"
proof -
  have sel: "reads (select_sql QueryFailed
      (\<lambda>s. scoped_actions (t_id token) repository (token_repository_scopes s)))
    (\<lambda>s. scoped_actions (t_id token) repository (token_repository_scopes s))"
    by (rule reads_select) (simp add: stable_def)
  have k: "reads (case actions of None \<Rightarrow> ret False | Some actions \<Rightarrow> ret (action \<in> set actions))
     (\<lambda>s. case actions of None \<Rightarrow> False | Some actions \<Rightarrow> action \<in> set actions)" for actions
    by (cases actions) (auto simp: reads_ret)
  have second: "reads (bind_ok (select_sql QueryFailed
              (\<lambda>s. scoped_actions (t_id token) repository (token_repository_scopes s)))
            (\<lambda>actions.
               case actions of None \<Rightarrow> ret False | Some actions \<Rightarrow> ret (action \<in> set actions)))
      (\<lambda>s. case scoped_actions (t_id token) repository (token_repository_scopes s) of
              None \<Rightarrow> False | Some actions \<Rightarrow> action \<in> set actions)"
    by (rule reads_bind [OF sel k]) simp
  have branch: "reads (if general then ret True else bind_ok (select_sql QueryFailed
              (\<lambda>s. scoped_actions (t_id token) repository (token_repository_scopes s)))
            (\<lambda>actions.
               case actions of None \<Rightarrow> ret False | Some actions \<Rightarrow> ret (action \<in> set actions)))
      (\<lambda>s. general \<or> (case scoped_actions (t_id token) repository (token_repository_scopes s) of
              None \<Rightarrow> False | Some actions \<Rightarrow> action \<in> set actions))" for general
    using second reads_ret [of True] by (cases general) auto
  show ?thesis
    unfolding token_has_repository_action_def
    by (rule reads_cong [OF reads_bind [OF reads_has_scope branch]])
      (simp_all add: stable_def token_allowed_def)
qed

lemma reads_user_and_token:
  assumes "\<And>u a r. reads (has_action u a r) (allowed u a r)"
  shows "reads (does_user_and_token_have_repository_action has_action user token action repository)
     (\<lambda>s. allowed user action repository s \<and> token_allowed token action repository s)"
proof -
  have k: "reads (if \<not> ok then ret False else token_has_repository_action token repository action)
     (\<lambda>s. ok \<and> token_allowed token action repository s)" for ok
    using reads_token_has_repository_action reads_ret [of False] by (cases ok) auto
  show ?thesis
    unfolding does_user_and_token_have_repository_action_def
    by (rule reads_bind [OF assms k]) (simp add: stable_def token_allowed_def)
qed

section \<open>Well-formed token tables\<close>

definition wf_tokens :: "'z token_db_scheme \<Rightarrow> bool" where
  "wf_tokens s \<longleftrightarrow>
     distinct (map t_id (tokens s)) \<and> distinct (map t_token (tokens s)) \<and>
     list_all (\<lambda>t. t_id t < token_seq s) (tokens s) \<and>
     list_all (\<lambda>r. ts_token_id r \<in> t_id ` set (tokens s)) (token_scopes s) \<and>
     list_all (\<lambda>r. tr_token_id r \<in> t_id ` set (tokens s)) (token_repository_scopes s)"

lemma wf_tokens_faults [simp]: "wf_tokens (s\<lparr>faults := bs\<rparr>) = wf_tokens s"
  by (simp add: wf_tokens_def)

lemma remove_tokens_wf: "wf_tokens s \<Longrightarrow> wf_tokens (remove_tokens P s)"
proof -
  assume wf: "wf_tokens s"
  then have inj: "inj_on t_id (set (tokens s))" by (auto simp: wf_tokens_def distinct_map)
  have keep: "i \<in> t_id ` set (filter (\<lambda>t. \<not> P t) (tokens s))"
    if "i \<in> t_id ` set (tokens s)" "i \<notin> set (map t_id (filter P (tokens s)))" for i
    using that by auto
  show ?thesis
    using wf keep
    by (auto simp: wf_tokens_def remove_tokens_def Let_def list_all_iff distinct_map
        intro: inj_on_subset)
qed

lemma delete_token_wf: "delete_token x s = (r, t) \<Longrightarrow> wf_tokens s \<Longrightarrow> wf_tokens t"
  unfolding delete_token_def
  by (erule update_sql_keeps [where I = wf_tokens]) (simp_all add: remove_tokens_wf)

lemma create_token_effect:
  assumes "create_token hash draws s = (Inr (Some (token, hashed)), t)"
  shows "hashed = hash token \<and> token \<in> set draws \<and> hashed \<notin> t_token ` set (tokens s) \<and>
     (\<exists>bs. t = s\<lparr>faults := bs\<rparr>)"
  using assms
proof (induction draws arbitrary: s)
  case Nil
  then show ?case by (simp add: ret_def)
next
  case (Cons d draws)
  from Cons.prems obtain n t1
    where q: "select_sql QueryFailed
        (\<lambda>s. length (filter (\<lambda>t. t_token t = hash d) (tokens s))) s = (Inr n, t1)"
      and k: "(if n = 0 then ret (Some (d, hash d)) else create_token hash draws) t1 =
        (Inr (Some (token, hashed)), t)"
    by (auto simp: Let_def bind_ok_Inr_iff)
  from select_sql_Inr [OF q] have n: "n = length (filter (\<lambda>t. t_token t = hash d) (tokens s))"
    and t1: "t1 = s\<lparr>faults := tl (faults s)\<rparr>" by auto
  show ?case
  proof (cases "n = 0")
    case True
    with k n t1 show ?thesis by (auto simp: ret_def filter_empty_conv)
  next
    case False
    with k have "create_token hash draws t1 = (Inr (Some (token, hashed)), t)" by simp
    from Cons.IH [OF this] t1 show ?thesis by auto
  qed
qed

text \<open>The loop ends as soon as one of the texts drawn is not in use.\<close>

lemma create_token_ends:
  assumes "faults s = []" and "\<exists>d \<in> set draws. hash d \<notin> t_token ` set (tokens s)"
  shows "\<exists>token. create_token hash draws s = (Inr (Some (token, hash token)), s)"
  using assms(2)
proof (induction draws)
  case (Cons d draws)
  show ?case
  proof (cases "hash d \<in> t_token ` set (tokens s)")
    case True
    with Cons.prems have "\<exists>d \<in> set draws. hash d \<notin> t_token ` set (tokens s)" by simp
    from Cons.IH [OF this] True assms(1) show ?thesis
      by (auto simp: Let_def bind_ok_def filter_empty_conv)
  next
    case False
    with assms(1) have "create_token hash (d # draws) s = (Inr (Some (d, hash d)), s)"
      by (auto simp: Let_def bind_ok_def ret_def filter_empty_conv image_iff)
    then show ?thesis by blast
  qed
qed simp

lemma insert_token_row_effect:
  assumes "insert_token_row u n d hashed src ex s = (Inr i, t)"
  shows "i = token_seq s \<and> token_seq t = token_seq s + 1 \<and> now t = now s \<and>
     tokens t = tokens s @ [\<lparr>t_id = i, t_user_id = u, t_name = n, t_description = d,
       t_token = hashed, t_active = True, t_source = src, t_expires_at = ex, t_created_at = now s\<rparr>] \<and>
     token_scopes t = token_scopes s \<and> token_repository_scopes t = token_repository_scopes s"
  using try_sql_Inr [OF assms [unfolded insert_token_row_def]] by (auto split: if_splits)

lemma insert_scopes_effect:
  assumes "insert_scopes i scopes s = (Inr x, t)"
  shows "tokens t = tokens s \<and> now t = now s \<and> token_seq t = token_seq s \<and>
     token_repository_scopes t = token_repository_scopes s \<and>
     (\<exists>rows. token_scopes t = token_scopes s @ rows \<and>
        map (\<lambda>r. (ts_token_id r, ts_scope r)) rows = map (Pair i) scopes)"
  using assms
proof (induction scopes arbitrary: s)
  case Nil
  then show ?case by (simp add: ret_def)
next
  case (Cons scope scopes)
  from Cons.prems obtain y t1 where a: "insert_scope i scope s = (Inr y, t1)"
    and b: "insert_scopes i scopes t1 = (Inr x, t)" by (auto simp: bind_ok_Inr_iff)
  from try_sql_Inr [OF a [unfolded insert_scope_def]]
  have t1: "t1 = s\<lparr>faults := tl (faults s), token_scopes := token_scopes s @
      [\<lparr>ts_id = token_scope_seq s, ts_token_id = i, ts_scope = scope, ts_created_at = now s\<rparr>],
      token_scope_seq := token_scope_seq s + 1\<rparr>"
    by (auto split: if_splits)
  from Cons.IH [OF b] obtain rows where "token_scopes t = token_scopes t1 @ rows"
    and "map (\<lambda>r. (ts_token_id r, ts_scope r)) rows = map (Pair i) scopes" by blast
  with Cons.IH [OF b] show ?case by (simp add: t1)
qed

lemma insert_repository_scopes_effect:
  assumes "insert_repository_scopes i scopes s = (Inr x, t)"
  shows "tokens t = tokens s \<and> now t = now s \<and> token_seq t = token_seq s \<and>
     token_scopes t = token_scopes s \<and>
     (\<exists>rows. token_repository_scopes t = token_repository_scopes s @ rows \<and>
        map (\<lambda>r. (tr_token_id r, tr_repository_id r, tr_actions r)) rows =
        map (\<lambda>(r, a). (i, r, a)) scopes)"
  using assms
proof (induction scopes arbitrary: s)
  case Nil
  then show ?case by (simp add: ret_def)
next
  case (Cons sc scopes)
  obtain r acts where sc: "sc = (r, acts)" by fastforce
  from Cons.prems obtain y t1 where a: "insert_repository_scope i r acts s = (Inr y, t1)"
    and b: "insert_repository_scopes i scopes t1 = (Inr x, t)" by (auto simp: sc bind_ok_Inr_iff)
  let ?row = "\<lparr>tr_id = token_repository_scope_seq s, tr_token_id = i, tr_repository_id = r,
      tr_actions = acts, tr_created_at = now s\<rparr>"
  from try_sql_Inr [OF a [unfolded insert_repository_scope_def]]
  have t1: "t1 = s\<lparr>faults := tl (faults s),
      token_repository_scopes := token_repository_scopes s @ [?row],
      token_repository_scope_seq := token_repository_scope_seq s + 1\<rparr>"
    by (auto split: if_splits)
  from Cons.IH [OF b] obtain rows
    where r: "token_repository_scopes t = token_repository_scopes t1 @ rows"
      and m: "map (\<lambda>r. (tr_token_id r, tr_repository_id r, tr_actions r)) rows =
        map (\<lambda>(r, a). (i, r, a)) scopes" by blast
  have "token_repository_scopes t = token_repository_scopes s @ (?row # rows)" using r t1 by simp
  moreover have "map (\<lambda>r. (tr_token_id r, tr_repository_id r, tr_actions r)) (?row # rows) =
        map (\<lambda>(r, a). (i, r, a)) (sc # scopes)" using m sc by simp
  ultimately show ?case using Cons.IH [OF b] t1 by simp
qed

lemma scoped_actions_new:
  assumes "\<And>x. x \<in> set old \<Longrightarrow> tr_token_id x \<noteq> i"
    and "map (\<lambda>r. (tr_token_id r, tr_repository_id r, tr_actions r)) rows = map (\<lambda>(r, a). (i, r, a)) scopes"
  shows "scoped_actions i r (old @ rows) = map_of scopes r"
proof -
  have old: "find (\<lambda>x. tr_token_id x = i \<and> tr_repository_id x = r) (old @ rows) =
      find (\<lambda>x. tr_token_id x = i \<and> tr_repository_id x = r) rows"
    using assms(1) by (induction old) auto
  have "map_option tr_actions (find (\<lambda>x. tr_token_id x = i \<and> tr_repository_id x = r) rows) = map_of scopes r"
    using assms(2)
  proof (induction rows arbitrary: scopes)
    case (Cons x rows)
    then obtain sc rest where "scopes = sc # rest" by (cases scopes) auto
    with Cons show ?case by (cases sc) auto
  qed simp
  with old show ?thesis by (simp add: scoped_actions_def)
qed

lemma fresh_token_found:
  assumes "\<And>x. x \<in> set old \<Longrightarrow> t_token x \<noteq> h" and "t_token row = h"
  shows "find (\<lambda>t. t_token t = h \<and> token_live n t) (old @ [row]) =
     (if token_live n row then Some row else None)"
  using assms by (induction old) auto

lemma insert_auth_token_effect:
  assumes "insert_auth_token hash draws new s = (Inr (Some (i, token)), t)" and wf: "wf_tokens s"
  shows "find (\<lambda>x. t_token x = hash token \<and> token_live (now t) x) (tokens t) =
      (let row = \<lparr>t_id = i, t_user_id = nt_user_id new, t_name = nt_name new,
         t_description = nt_description new, t_token = hash token, t_active = True,
         t_source = nt_source new, t_expires_at = nt_expires_at new, t_created_at = now s\<rparr>
       in if token_live (now s) row then Some row else None)"
    and "(\<exists>r \<in> set (token_scopes t). ts_token_id r = i \<and> ts_scope r = sc) \<longleftrightarrow> sc \<in> set (nt_scopes new)"
    and "scoped_actions i repository (token_repository_scopes t) = map_of (nt_repositories new) repository"
    and "\<forall>x \<in> set (tokens s). t_id x \<noteq> i" and "wf_tokens t"
proof -
  from assms(1) obtain hashed s1 s2 s3
    where a: "create_token hash draws s = (Inr (Some (token, hashed)), s1)"
      and b: "insert_token_row (nt_user_id new) (nt_name new) (nt_description new) hashed
                (nt_source new) (nt_expires_at new) s1 = (Inr i, s2)"
      and c: "insert_scopes i (nt_scopes new) s2 = (Inr (), s3)"
      and d: "insert_repository_scopes i (nt_repositories new) s3 = (Inr (), t)"
    unfolding insert_auth_token_def
    by (auto simp: bind_ok_Inr_iff ret_def split: option.splits prod.splits)
  obtain bs where h: "hashed = hash token" "hashed \<notin> t_token ` set (tokens s)" "s1 = s\<lparr>faults := bs\<rparr>"
    using create_token_effect [OF a] by blast
  note b' = insert_token_row_effect [OF b] and c' = insert_scopes_effect [OF c]
    and d' = insert_repository_scopes_effect [OF d]
  obtain srows where sr: "token_scopes s3 = token_scopes s2 @ srows"
    "map (\<lambda>r. (ts_token_id r, ts_scope r)) srows = map (Pair i) (nt_scopes new)" using c' by blast
  obtain rrows where rr: "token_repository_scopes t = token_repository_scopes s3 @ rrows"
    "map (\<lambda>r. (tr_token_id r, tr_repository_id r, tr_actions r)) rrows =
      map (\<lambda>(r, a). (i, r, a)) (nt_repositories new)" using d' by blast
  have i: "i = token_seq s" using b' h by simp
  have ids: "t_id x \<noteq> i" if "x \<in> set (tokens s)" for x
    using wf that by (auto simp: wf_tokens_def list_all_iff i)
  have toks: "tokens t = tokens s @ [\<lparr>t_id = i, t_user_id = nt_user_id new, t_name = nt_name new,
         t_description = nt_description new, t_token = hash token, t_active = True,
         t_source = nt_source new, t_expires_at = nt_expires_at new, t_created_at = now s\<rparr>]"
    using b' c' d' h by simp
  have nows: "now t = now s" using b' c' d' h by simp
  show "find (\<lambda>x. t_token x = hash token \<and> token_live (now t) x) (tokens t) =
      (let row = \<lparr>t_id = i, t_user_id = nt_user_id new, t_name = nt_name new,
         t_description = nt_description new, t_token = hash token, t_active = True,
         t_source = nt_source new, t_expires_at = nt_expires_at new, t_created_at = now s\<rparr>
       in if token_live (now s) row then Some row else None)"
    unfolding toks nows Let_def by (rule fresh_token_found) (use h in \<open>auto simp: image_iff\<close>)
  have scs: "token_scopes t = token_scopes s @ srows" using sr b' d' h by simp
  have old: "ts_token_id x \<noteq> i" if "x \<in> set (token_scopes s)" for x
    using wf that ids by (fastforce simp: wf_tokens_def list_all_iff)
  have pairs: "(\<lambda>r. (ts_token_id r, ts_scope r)) ` set srows = Pair i ` set (nt_scopes new)"
    using sr(2) by (metis list.set_map)
  have new: "(\<exists>r \<in> set srows. ts_token_id r = i \<and> ts_scope r = sc) \<longleftrightarrow> sc \<in> set (nt_scopes new)"
  proof -
    have "(\<exists>r \<in> set srows. ts_token_id r = i \<and> ts_scope r = sc) \<longleftrightarrow>
        (i, sc) \<in> (\<lambda>r. (ts_token_id r, ts_scope r)) ` set srows" by auto
    then show ?thesis unfolding pairs by auto
  qed
  show "(\<exists>r \<in> set (token_scopes t). ts_token_id r = i \<and> ts_scope r = sc) \<longleftrightarrow> sc \<in> set (nt_scopes new)"
    unfolding scs using old new by auto
  have rscs: "token_repository_scopes t = token_repository_scopes s @ rrows" using rr b' c' h by simp
  have rold: "tr_token_id x \<noteq> i" if "x \<in> set (token_repository_scopes s)" for x
    using wf that ids by (fastforce simp: wf_tokens_def list_all_iff)
  show "scoped_actions i repository (token_repository_scopes t) = map_of (nt_repositories new) repository"
    unfolding rscs by (rule scoped_actions_new [OF rold rr(2)])
  show "\<forall>x \<in> set (tokens s). t_id x \<noteq> i" using ids by blast
  have si: "ts_token_id x = i" if "x \<in> set srows" for x
    using that pairs by (metis (mono_tags, lifting) Pair_inject imageE image_eqI)
  have ri: "tr_token_id x = i" if "x \<in> set rrows" for x
  proof -
    have "map tr_token_id rrows = map fst (map (\<lambda>r. (tr_token_id r, tr_repository_id r, tr_actions r)) rrows)"
      by simp
    also have "\<dots> = map (\<lambda>_. i) (nt_repositories new)" unfolding rr(2) by (simp add: case_prod_unfold)
    finally have "tr_token_id ` set rrows \<subseteq> {i}" by (metis image_subsetI list.set_map singletonI)
    with that show ?thesis by blast
  qed
  have seq: "token_seq t = token_seq s + 1" using b' c' d' h by simp
  show "wf_tokens t"
    using wf si ri ids h(2) unfolding wf_tokens_def toks scs rscs seq
    by (auto simp: list_all_iff i h(1))
qed

text \<open>
  C6. Creating a token works as a round trip. If the request succeeds, the clear text handed to the
  user finds exactly the new row (unless the requested expiry has passed already) and no older
  token, and from then on the new token grants an action on a repository exactly when the general
  scope of the action or the first entry given for that repository contains it: no scope leaks in
  from a token created before.
\<close>

theorem new_token_roundtrip:
  assumes "insert_auth_token hash draws new s = (Inr (Some (i, token)), t)" and "wf_tokens s"
    and "t_id row = i"
  shows "get_by_token hash token (t\<lparr>faults := []\<rparr>) =
      (Inr (let row = \<lparr>t_id = i, t_user_id = nt_user_id new, t_name = nt_name new,
         t_description = nt_description new, t_token = hash token, t_active = True,
         t_source = nt_source new, t_expires_at = nt_expires_at new, t_created_at = now s\<rparr>
       in if token_live (now s) row then Some row else None), t\<lparr>faults := []\<rparr>) \<and>
    fst (token_has_repository_action row repository action (t\<lparr>faults := []\<rparr>)) =
        Inr (scope_of_action action \<in> set (nt_scopes new) \<or>
          (case map_of (nt_repositories new) repository of
             None \<Rightarrow> False
           | Some actions \<Rightarrow> action \<in> set actions)) \<and>
    i \<notin> t_id ` set (tokens s) \<and> wf_tokens t"
proof -
  note e = insert_auth_token_effect [OF assms(1,2)]
  have "get_by_token hash token (t\<lparr>faults := []\<rparr>) =
      (Inr (let row = \<lparr>t_id = i, t_user_id = nt_user_id new, t_name = nt_name new,
         t_description = nt_description new, t_token = hash token, t_active = True,
         t_source = nt_source new, t_expires_at = nt_expires_at new, t_created_at = now s\<rparr>
       in if token_live (now s) row then Some row else None), t\<lparr>faults := []\<rparr>)"
    unfolding get_by_token_def by (simp add: e(1))
  moreover have "fst (token_has_repository_action row repository action (t\<lparr>faults := []\<rparr>)) =
        Inr (scope_of_action action \<in> set (nt_scopes new) \<or>
          (case map_of (nt_repositories new) repository of
             None \<Rightarrow> False
           | Some actions \<Rightarrow> action \<in> set actions))"
    using assms(3) e(2,3)
    by (simp add: reads_no_faults [OF reads_token_has_repository_action] token_allowed_def)
  moreover have "i \<notin> t_id ` set (tokens s)" using e(4) by auto
  ultimately show ?thesis using e(5) by blast
qed

definition sample_token_db :: token_db where
  "sample_token_db =
     \<lparr>faults = [], now = 100, users = [sample_user 1 ''alice'' ''a@x'', sample_user 2 ''bob'' ''b@x''],
      user_seq = 3, repo_permissions = [], permission_seq = 1, repositories = [7, 8],
      tokens = [\<lparr>t_id = 1, t_user_id = 2, t_name = None, t_description = None, t_token = ''h0'',
        t_active = True, t_source = ''API'', t_expires_at = Some 50, t_created_at = 10\<rparr>],
      token_seq = 2, token_scopes = [\<lparr>ts_id = 1, ts_token_id = 1, ts_scope = WriteRepository,
        ts_created_at = 10\<rparr>], token_scope_seq = 2, token_repository_scopes = [],
      token_repository_scope_seq = 1\<rparr>"

definition sample_new_token :: new_auth_token where
  "sample_new_token =
     \<lparr>nt_user_id = 1, nt_name = None, nt_description = None, nt_source = ''API'',
      nt_expires_at = None, nt_scopes = [ReadRepository], nt_repositories = [(7, [Write])]\<rparr>"

theorem new_token_roundtrip_witness:
  "fst (token_has_repository_action (hd (tokens sample_token_db)\<lparr>t_id := 2\<rparr>) 7 Write
      ((snd (insert_auth_token (\<lambda>x. CHR ''h'' # x) [''0'', ''1''] sample_new_token sample_token_db))\<lparr>faults := []\<rparr>))
     = Inr True"
proof -
  let ?out = "insert_auth_token (\<lambda>x. CHR ''h'' # x) [''0'', ''1''] sample_new_token sample_token_db"
  have ok: "fst ?out = Inr (Some (2, ''1''))" by code_simp
  then have o: "?out = (Inr (Some (2, ''1'')), snd ?out)" by (metis prod.collapse)
  have wf: "wf_tokens sample_token_db" by code_simp
  have m: "map_of (nt_repositories sample_new_token) 7 = Some [Write]" by code_simp
  show ?thesis
    using new_token_roundtrip [OF o wf, of "hd (tokens sample_token_db)\<lparr>t_id := 2\<rparr>" 7 Write] m
    by simp
qed

text \<open>
  The clean-up of expired tokens. It removes exactly the tokens whose expiry has passed, reports
  their number, takes their scope rows with them and no others, and never removes a token that a
  request could still be authenticated with; a failed run removes nothing.
\<close>

theorem delete_expired_exact:
  assumes "delete_expired s = (r, t)" and "wf_tokens s"
  shows "(\<forall>n. r = Inr n \<longrightarrow>
        n + length (tokens t) = length (tokens s) \<and>
        tokens t = filter (\<lambda>x. \<not> token_expired (now s) x) (tokens s) \<and>
        (\<forall>x \<in> set (tokens s). token_live (now s) x \<longrightarrow> x \<in> set (tokens t)) \<and>
        set (token_scopes t) = {x \<in> set (token_scopes s). ts_token_id x \<in> t_id ` set (tokens t)} \<and>
        set (token_repository_scopes t) =
          {x \<in> set (token_repository_scopes s). tr_token_id x \<in> t_id ` set (tokens t)}) \<and>
     ((\<exists>e. r = Inl e) \<longrightarrow> tokens t = tokens s) \<and> wf_tokens t"
proof (cases r)
  case (Inl e)
  have "tokens t = tokens s \<and> wf_tokens t"
    using assms Inl unfolding delete_expired_def exec_sql_def
    by (auto split: list.splits if_splits prod.splits)
  with Inl show ?thesis by simp
next
  case (Inr n)
  let ?P = "token_expired (now s)"
  from exec_sql_Inr [OF assms(1) [unfolded delete_expired_def Inr]]
  have n: "n = length (filter ?P (tokens s))"
    and t: "t = remove_tokens ?P (s\<lparr>faults := tl (faults s)\<rparr>)" by auto
  have toks: "tokens t = filter (\<lambda>x. \<not> ?P x) (tokens s)"
    by (simp add: t remove_tokens_def Let_def)
  have "inj_on t_id (set (tokens s))" using assms(2) by (simp add: wf_tokens_def distinct_map)
  then have left: "i \<in> t_id ` set (tokens t) \<longleftrightarrow> i \<notin> t_id ` set (filter ?P (tokens s))"
    if "i \<in> t_id ` set (tokens s)" for i
    using that unfolding toks by (auto dest: inj_onD)
  have sc: "set (token_scopes t) = {x \<in> set (token_scopes s). ts_token_id x \<in> t_id ` set (tokens t)}"
  proof -
    have "set (token_scopes t) = {x \<in> set (token_scopes s). ts_token_id x \<notin> t_id ` set (filter ?P (tokens s))}"
      by (auto simp: t remove_tokens_def Let_def)
    with left assms(2) show ?thesis by (auto simp: wf_tokens_def list_all_iff)
  qed
  have rs: "set (token_repository_scopes t) =
      {x \<in> set (token_repository_scopes s). tr_token_id x \<in> t_id ` set (tokens t)}"
  proof -
    have "set (token_repository_scopes t) =
        {x \<in> set (token_repository_scopes s). tr_token_id x \<notin> t_id ` set (filter ?P (tokens s))}"
      by (auto simp: t remove_tokens_def Let_def)
    with left assms(2) show ?thesis by (auto simp: wf_tokens_def list_all_iff)
  qed
  have live: "\<forall>x \<in> set (tokens s). token_live (now s) x \<longrightarrow> x \<in> set (tokens t)"
    by (auto simp: toks token_live_def token_expired_def split: option.splits)
  have "n + length (tokens t) = length (tokens s)"
    by (simp add: n toks sum_length_filter_compl)
  moreover have "wf_tokens t" using assms(2) by (simp add: t remove_tokens_wf)
  ultimately show ?thesis using toks sc rs live Inr by simp
qed

theorem delete_expired_exact_witness:
  "tokens (snd (delete_expired sample_token_db)) = []"
proof -
  have "fst (delete_expired sample_token_db) = Inr 1" by code_simp
  moreover have "wf_tokens sample_token_db" by code_simp
  ultimately have "tokens (snd (delete_expired sample_token_db)) =
      filter (\<lambda>x. \<not> token_expired (now sample_token_db) x) (tokens sample_token_db)"
    using delete_expired_exact [of sample_token_db, OF prod.collapse [symmetric]] by blast
  also have "\<dots> = []" by code_simp
  finally show ?thesis .
qed

end
