(* ===== verification/Sessions.thy ===== *)
theory Sessions
  imports AuthTokens "HOL-Library.List_Lexorder" "HOL-Library.Char_ord"
begin

text \<open>
  Browser sessions (pkgly/src/app/authentication/session.rs). The sessions live in one table of an
  embedded database, keyed by the session id and stored as a tuple whose two times are RFC 3339
  texts. The table is the list of its entries in key order, which is the order of an iteration.
  A write transaction works on a copy of the table that \<open>commit\<close> publishes; leaving the function
  before drops the copy. Every call of the embedded database may fail (the script \<open>faults\<close>).
  Printing and parsing a time (third-party code) are the parameters \<open>fmt\<close> and \<open>parse\<close>; the ids the
  random generator draws are the list \<open>draws\<close>.
\<close>

datatype session_error =
    RedbError | DatabaseError | TableError | TransactionError | StorageError | CommitError | Io
  | DateTimeParseError

record session =
  s_user_id :: rowid
  s_session_id :: string
  s_user_agent :: string
  s_ip_address :: string
  s_expires :: instant
  s_created :: instant

type_synonym session_tuple = "rowid \<times> string \<times> string \<times> string \<times> string \<times> string"

record session_manager = conn +
  clock :: instant
  table :: "(string \<times> session_tuple) list"

type_synonym ('z, 'a) session_op = "('z session_manager_scheme, session_error, 'a) stm"

definition session_new :: "instant \<Rightarrow> rowid \<Rightarrow> string \<Rightarrow> string \<Rightarrow> string \<Rightarrow> int \<Rightarrow> session" where
  "session_new t user_id session_id user_agent ip_address life =
     \<lparr>s_user_id = user_id, s_session_id = session_id, s_user_agent = user_agent,
      s_ip_address = ip_address, s_expires = t + life, s_created = t\<rparr>"

definition from_tuple :: "(string \<Rightarrow> instant option) \<Rightarrow> session_tuple \<Rightarrow> session_error + session" where
  "from_tuple parse tuple =
     (case tuple of (user_id, session_id, user_agent, ip_addr, expires, created) \<Rightarrow>
        (case parse expires of
           None \<Rightarrow> Inl DateTimeParseError
         | Some expires \<Rightarrow>
             (case parse created of
                None \<Rightarrow> Inl DateTimeParseError
              | Some created \<Rightarrow>
                  Inr \<lparr>s_user_id = user_id, s_session_id = session_id, s_user_agent = user_agent,
                    s_ip_address = ip_addr, s_expires = expires, s_created = created\<rparr>)))"

definition as_tuple_ref :: "(instant \<Rightarrow> string) \<Rightarrow> session \<Rightarrow> session_tuple" where
  "as_tuple_ref fmt s =
     (s_user_id s, s_session_id s, s_user_agent s, s_ip_address s, fmt (s_expires s), fmt (s_created s))"

section \<open>The table\<close>

definition table_insert :: "string \<Rightarrow> 'v \<Rightarrow> (string \<times> 'v) list \<Rightarrow> (string \<times> 'v) list" where
  "table_insert k v tbl =
     filter (\<lambda>e. fst e < k) tbl @ (k, v) # filter (\<lambda>e. k < fst e) tbl"

definition table_remove :: "string \<Rightarrow> (string \<times> 'v) list \<Rightarrow> (string \<times> 'v) list" where
  "table_remove k tbl = filter (\<lambda>e. fst e \<noteq> k) tbl"

text \<open>A call of the embedded database without a result of interest.\<close>

definition db_call :: "session_error \<Rightarrow> ('z, unit) session_op" where
  "db_call e = select_sql e (\<lambda>_. ())"

definition begin_read :: "('z, (string \<times> session_tuple) list) session_op" where
  "begin_read =
     bind_ok (db_call TransactionError) (\<lambda>_. select_sql TableError table)"

definition begin_write :: "('z, (string \<times> session_tuple) list) session_op" where
  "begin_write =
     bind_ok (db_call TransactionError) (\<lambda>_. select_sql TableError table)"

definition commit :: "(string \<times> session_tuple) list \<Rightarrow> ('z, unit) session_op" where
  "commit tbl = update_sql CommitError (\<lambda>s. s\<lparr>table := tbl\<rparr>)"

section \<open>Operations\<close>

definition number_of_sessions :: "('z, nat) session_op" where
  "number_of_sessions =
     bind_ok begin_read (\<lambda>tbl. bind_ok (db_call StorageError) (\<lambda>_. ret (length tbl)))"

text \<open>The loop of \<open>filter_table\<close>: an entry that cannot be read or parsed ends it, or is skipped.\<close>

fun filter_entries ::
  "(string \<Rightarrow> instant option) \<Rightarrow> bool \<Rightarrow> (session \<Rightarrow> bool) \<Rightarrow> (string \<times> session_tuple) list \<Rightarrow>
     ('z, session list) session_op" where
  "filter_entries parse continue_on_err P [] = ret []"
| "filter_entries parse continue_on_err P ((key, value) # rest) =
     bind_res (db_call StorageError) (\<lambda>index.
       case index of
         Inl err \<Rightarrow>
           if \<not> continue_on_err then fail err
           else filter_entries parse continue_on_err P rest
       | Inr _ \<Rightarrow>
           (case from_tuple parse value of
              Inl err \<Rightarrow>
                if \<not> continue_on_err then fail err
                else filter_entries parse continue_on_err P rest
            | Inr session \<Rightarrow>
                bind_ok (filter_entries parse continue_on_err P rest) (\<lambda>sessions.
                  ret (if P session then session # sessions else sessions))))"

definition filter_table ::
  "(string \<Rightarrow> instant option) \<Rightarrow> bool \<Rightarrow> (session \<Rightarrow> bool) \<Rightarrow> ('z, session list) session_op" where
  "filter_table parse continue_on_err P =
     bind_ok begin_read (\<lambda>tbl.
       bind_ok (db_call StorageError) (\<lambda>_. filter_entries parse continue_on_err P tbl))"

text \<open>The removals of \<open>clean_inner\<close>: a failing one is logged and skipped, every other one counts.\<close>

fun remove_logged ::
  "session list \<Rightarrow> u32 \<Rightarrow> (string \<times> session_tuple) list \<Rightarrow>
     ('z, u32 \<times> (string \<times> session_tuple) list) session_op" where
  "remove_logged [] removed tbl = ret (removed, tbl)"
| "remove_logged (key # rest) removed tbl =
     bind_res (db_call StorageError) (\<lambda>r.
       case r of
         Inl err \<Rightarrow> remove_logged rest removed tbl
       | Inr _ \<Rightarrow> remove_logged rest (removed + 1) (table_remove (s_session_id key) tbl))"

definition clean_inner :: "(string \<Rightarrow> instant option) \<Rightarrow> ('z, u32) session_op" where
  "clean_inner parse s0 =
     (let now = clock s0
      in bind_ok (filter_table parse True (\<lambda>session. s_expires session < now)) (\<lambda>to_remove.
           bind_ok begin_write (\<lambda>tbl.
             bind_ok (remove_logged to_remove 0 tbl) (\<lambda>out.
               bind_ok (commit (snd out)) (\<lambda>_. ret (fst out))))) s0)"

text \<open>\<open>create_session_id\<close>: a look-up that fails counts as \<^emph>\<open>not there\<close>; \<open>None\<close> is a loop still
  running after the ids drawn.\<close>

fun create_session_id ::
  "(string \<times> session_tuple) list \<Rightarrow> string list \<Rightarrow> ('z, string option) session_op" where
  "create_session_id tbl [] = ret None"
| "create_session_id tbl (session_id # draws) =
     bind_res (db_call StorageError) (\<lambda>r.
       let exists = (case r of Inl _ \<Rightarrow> False | Inr _ \<Rightarrow> map_of tbl session_id \<noteq> None)
       in if \<not> exists then ret (Some session_id) else create_session_id tbl draws)"

definition create_session ::
  "(instant \<Rightarrow> string) \<Rightarrow> string list \<Rightarrow> rowid \<Rightarrow> string \<Rightarrow> string \<Rightarrow> int \<Rightarrow>
     ('z, session option) session_op" where
  "create_session fmt draws user_id user_agent ip_address life s0 =
     bind_ok begin_write (\<lambda>tbl.
       bind_ok (create_session_id tbl draws) (\<lambda>id.
         case id of
           None \<Rightarrow> ret None
         | Some session_id \<Rightarrow>
             let session = session_new (clock s0) user_id session_id user_agent ip_address life
             in bind_ok (db_call StorageError) (\<lambda>_.
                  bind_ok (commit (table_insert session_id (as_tuple_ref fmt session) tbl)) (\<lambda>_.
                    ret (Some session))))) s0"

definition get_session ::
  "(string \<Rightarrow> instant option) \<Rightarrow> string \<Rightarrow> ('z, session option) session_op" where
  "get_session parse session_id s0 =
     bind_ok begin_read (\<lambda>tbl.
       bind_ok (db_call StorageError) (\<lambda>_.
         bind_ok (case map_of tbl session_id of
                    None \<Rightarrow> ret None
                  | Some x \<Rightarrow>
                      (case from_tuple parse x of Inl e \<Rightarrow> fail e | Inr session \<Rightarrow> ret (Some session)))
           (\<lambda>session.
              case session of
                Some s \<Rightarrow> if s_expires s \<le> clock s0 then ret None else ret (Some s)
              | None \<Rightarrow> ret None))) s0"

definition delete_session ::
  "(string \<Rightarrow> instant option) \<Rightarrow> string \<Rightarrow> ('z, session option) session_op" where
  "delete_session parse session_id =
     bind_ok begin_write (\<lambda>tbl.
       bind_ok (db_call StorageError) (\<lambda>_.
         bind_ok (case map_of tbl session_id of
                    None \<Rightarrow> ret None
                  | Some x \<Rightarrow>
                      (case from_tuple parse x of Inl e \<Rightarrow> fail e | Inr session \<Rightarrow> ret (Some session)))
           (\<lambda>session. bind_ok (commit (table_remove session_id tbl)) (\<lambda>_. ret session))))"

text \<open>The removals of \<open>delete_sessions_for_user\<close>: a failing one ends the request.\<close>

fun remove_strict ::
  "session list \<Rightarrow> u32 \<Rightarrow> (string \<times> session_tuple) list \<Rightarrow>
     ('z, u32 \<times> (string \<times> session_tuple) list) session_op" where
  "remove_strict [] removed tbl = ret (removed, tbl)"
| "remove_strict (session # rest) removed tbl =
     bind_ok (db_call StorageError) (\<lambda>_.
       remove_strict rest
         (if map_of tbl (s_session_id session) \<noteq> None then removed + 1 else removed)
         (table_remove (s_session_id session) tbl))"

definition delete_sessions_for_user ::
  "(string \<Rightarrow> instant option) \<Rightarrow> rowid \<Rightarrow> ('z, u32) session_op" where
  "delete_sessions_for_user parse user_id =
     bind_ok (filter_table parse True (\<lambda>session. s_user_id session = user_id)) (\<lambda>sessions.
       if sessions = [] then ret 0
       else bind_ok begin_write (\<lambda>tbl.
              bind_ok (remove_strict sessions 0 tbl) (\<lambda>out.
                bind_ok (commit (snd out)) (\<lambda>_. ret (fst out)))))"

section \<open>The cleaner\<close>

definition cleanup_interval_to_std :: "int \<Rightarrow> nat option" where
  "cleanup_interval_to_std duration = (if duration < 0 then None else Some (nat duration))"

text \<open>One round of \<open>cleaner_task\<close> on the session store and the token tables: the pause before the
  next round, and what the metric is told.\<close>

definition cleaner_round ::
  "(string \<Rightarrow> instant option) \<Rightarrow> nat \<Rightarrow> session_manager \<Rightarrow> token_db \<Rightarrow>
     nat \<times> nat option \<times> session_manager \<times> token_db" where
  "cleaner_round parse how_often mgr db =
     (case clean_inner parse mgr of (cleaned, mgr1) \<Rightarrow>
        let sleep_for = (case cleaned of Inr _ \<Rightarrow> how_often | Inl _ \<Rightarrow> how_often div 2)
        in (case delete_expired db of (_, db1) \<Rightarrow>
             (case number_of_sessions mgr1 of (n, mgr2) \<Rightarrow>
                (sleep_for, (case n of Inr n \<Rightarrow> Some n | Inl _ \<Rightarrow> None), mgr2, db1))))"

text \<open>The loop of the task, for the values its flag \<open>running\<close> has at the head of each round; the
  times are those of the rounds.\<close>

fun cleaner_task ::
  "(string \<Rightarrow> instant option) \<Rightarrow> nat \<Rightarrow> (bool \<times> instant) list \<Rightarrow> session_manager \<Rightarrow> token_db \<Rightarrow>
     session_manager \<times> token_db" where
  "cleaner_task parse how_often [] mgr db = (mgr, db)"
| "cleaner_task parse how_often ((running, t) # rounds) mgr db =
     (if running
      then case cleaner_round parse how_often (mgr\<lparr>clock := t\<rparr>) (db\<lparr>now := t\<rparr>) of
             (_, _, mgr1, db1) \<Rightarrow> cleaner_task parse how_often rounds mgr1 db1
      else (mgr, db))"

definition start_cleaner ::
  "(string \<Rightarrow> instant option) \<Rightarrow> int \<Rightarrow> (bool \<times> instant) list \<Rightarrow> session_manager \<Rightarrow> token_db \<Rightarrow>
     (session_manager \<times> token_db) option" where
  "start_cleaner parse cleanup_interval rounds mgr db =
     (case cleanup_interval_to_std cleanup_interval of
        None \<Rightarrow> None
      | Some how_often \<Rightarrow> Some (cleaner_task parse how_often rounds mgr db))"

section \<open>The table as a keyed store\<close>

lemma map_of_filter_fst:
  "map_of (filter (\<lambda>e. P (fst e)) tbl) j = (if P j then map_of tbl j else None)"
  by (induction tbl) auto

interpretation session_table: keyed_store map_of table_insert table_remove
proof
  fix k j :: string and v :: "'v" and m :: "(string \<times> 'v) list"
  show "map_of (table_insert k v m) j = (if j = k then Some v else map_of m j)"
  proof (cases "j = k")
    case True
    have "map_of (filter (\<lambda>e. fst e < k) m) k = None" by (simp add: map_of_filter_fst [where P = "\<lambda>x. x < k"])
    with True show ?thesis by (simp add: table_insert_def map_add_def)
  next
    case False
    then have lt: "j < k \<or> k < j" by (metis linorder_neqE)
    show ?thesis
      using False lt map_of_filter_fst [where P = "\<lambda>x. x < k" and tbl = m and j = j]
        map_of_filter_fst [where P = "\<lambda>x. k < x" and tbl = m and j = j]
      by (auto simp: table_insert_def map_add_def split: option.splits)
  qed
  show "map_of (table_remove k m) j = (if j = k then None else map_of m j)"
    by (simp add: table_remove_def map_of_filter_fst [where P = "\<lambda>x. x \<noteq> k"])
qed

text \<open>Every entry is stored under its own session id, once, in key order.\<close>

definition wf_sessions :: "(string \<times> session_tuple) list \<Rightarrow> bool" where
  "wf_sessions tbl \<longleftrightarrow>
     sorted (map fst tbl) \<and> distinct (map fst tbl) \<and> list_all (\<lambda>(k, v). fst (snd v) = k) tbl"

lemma table_remove_wf: "wf_sessions tbl \<Longrightarrow> wf_sessions (table_remove k tbl)"
  by (auto simp: wf_sessions_def table_remove_def list_all_iff distinct_map
      intro: inj_on_subset sorted_filter)

lemma table_insert_wf:
  assumes "wf_sessions tbl" and "fst (snd v) = k"
  shows "wf_sessions (table_insert k v tbl)"
proof -
  have s: "sorted (map fst (filter P tbl))" and d: "distinct (map fst (filter P tbl))" for P
    using assms(1) by (auto simp: wf_sessions_def distinct_map intro: inj_on_subset sorted_filter)
  show ?thesis
    using assms s d
    by (auto simp: wf_sessions_def table_insert_def sorted_append list_all_iff less_le_trans
        intro: less_imp_le less_trans)
qed

lemma fold_table_remove:
  "fold table_remove ks tbl = filter (\<lambda>e. fst e \<notin> set ks) tbl"
  by (induction ks arbitrary: tbl) (auto simp: table_remove_def intro!: filter_cong)

section \<open>What the operations do\<close>

lemma reads_db_call: "reads (db_call e) (\<lambda>_. ())"
  unfolding db_call_def by (rule reads_select) simp

lemma reads_begin: "reads begin_read table" "reads begin_write table"
proof -
  have "reads (select_sql TableError table) table" by (rule reads_select) (simp add: stable_def)
  then show "reads begin_read table" "reads begin_write table"
    unfolding begin_read_def begin_write_def
    using reads_bind [OF reads_db_call, of "\<lambda>_. select_sql TableError table" "\<lambda>_. table"]
    by (simp_all add: stable_def)
qed

lemma faults_refl: "\<exists>bs. s = s\<lparr>faults := bs\<rparr>"
  using set_faults_same [of s "faults s"] by metis

lemma db_call_cases:
  obtains bs where "db_call e s = (Inl e, s\<lparr>faults := bs\<rparr>)"
  | bs where "db_call e s = (Inr (), s\<lparr>faults := bs\<rparr>)"
  unfolding db_call_def by (rule select_sql_cases [of s e "\<lambda>_. ()"]) auto

lemma db_call_no_faults [simp]: "faults s = [] \<Longrightarrow> db_call e s = (Inr (), s)"
  by (simp add: db_call_def)

definition parsed :: "(string \<Rightarrow> instant option) \<Rightarrow> (string \<times> session_tuple) list \<Rightarrow> session list" where
  "parsed parse tbl = concat (map (\<lambda>(k, v). case from_tuple parse v of Inl _ \<Rightarrow> [] | Inr x \<Rightarrow> [x]) tbl)"

lemma filter_entries_out:
  assumes "filter_entries parse True P tbl s = (r, t)"
  shows "(\<exists>bs. t = s\<lparr>faults := bs\<rparr>) \<and> (\<exists>xs. r = Inr xs \<and> set xs \<subseteq> set (filter P (parsed parse tbl))) \<and>
    (faults s = [] \<longrightarrow> r = Inr (filter P (parsed parse tbl)) \<and> t = s)"
  using assms
proof (induction tbl arbitrary: s r t)
  case Nil
  then show ?case by (auto simp: ret_def parsed_def faults_refl)
next
  case (Cons e tbl)
  obtain k v where e: "e = (k, v)" by (rule prod.exhaust)
  obtain i s1 where c: "db_call StorageError s = (i, s1)" by fastforce
  obtain bs where s1: "s1 = s\<lparr>faults := bs\<rparr>" using readsD(1) [OF reads_db_call c] by blast
  obtain r2 t2 where rest: "filter_entries parse True P tbl s1 = (r2, t2)" by fastforce
  note IH = Cons.IH [OF rest]
  have clean: "faults s = [] \<Longrightarrow> i = Inr () \<and> s1 = s" using c by simp
  show ?case
  proof (cases i)
    case (Inl err)
    with Cons.prems c rest have "r = r2" "t = t2" by (auto simp: e)
    with IH s1 clean Inl show ?thesis by (auto simp: e parsed_def)
  next
    case (Inr u)
    show ?thesis
    proof (cases "from_tuple parse v")
      case (Inl err)
      with Inr Cons.prems c rest have "r = r2" "t = t2" by (auto simp: e)
      with IH s1 clean Inl show ?thesis by (auto simp: e parsed_def)
    next
      case ok: (Inr x)
      from IH obtain xs where r2: "r2 = Inr xs" by blast
      with ok Inr Cons.prems c rest have "r = Inr (if P x then x # xs else xs)" "t = t2"
        by (auto simp: e ret_def)
      with IH s1 clean ok r2 show ?thesis by (auto simp: e parsed_def)
    qed
  qed
qed

text \<open>\<open>filter_table\<close> with \<open>continue_on_err\<close>: never more than the matching entries, and all of them when
  no call fails.\<close>

lemma filter_table_out:
  assumes "filter_table parse True P s = (r, t)"
  shows "(\<exists>bs. t = s\<lparr>faults := bs\<rparr>)"
    and "r = Inr xs \<Longrightarrow> set xs \<subseteq> set (filter P (parsed parse (table s)))"
    and "faults s = [] \<Longrightarrow> r = Inr (filter P (parsed parse (table s))) \<and> t = s"
proof -
  obtain r1 s1 where b: "begin_read s = (r1, s1)" by fastforce
  obtain bs1 where s1: "s1 = s\<lparr>faults := bs1\<rparr>" using readsD(1) [OF reads_begin(1) b] by blast
  obtain r2 s2 where c: "db_call StorageError s1 = (r2, s2)" by fastforce
  obtain bs2 where s2: "s2 = s1\<lparr>faults := bs2\<rparr>" using readsD(1) [OF reads_db_call c] by blast
  obtain r3 s3 where f: "filter_entries parse True P (table s) s2 = (r3, s3)" by fastforce
  note out = filter_entries_out [OF f]
  have unf: "filter_table parse True P s =
      (case r1 of Inl e \<Rightarrow> (Inl e, s1) | Inr tbl \<Rightarrow>
        (case r2 of Inl e \<Rightarrow> (Inl e, s2) | Inr _ \<Rightarrow> filter_entries parse True P tbl s2))"
    by (auto simp: filter_table_def bind_ok_def b c split: sum.splits)
  have tab: "r1 = Inr tbl \<Longrightarrow> tbl = table s" for tbl using readsD(2) [OF reads_begin(1) b] .
  show "\<exists>bs. t = s\<lparr>faults := bs\<rparr>"
    using assms unf tab f out s1 s2 by (auto split: sum.splits)
  show "set xs \<subseteq> set (filter P (parsed parse (table s)))" if "r = Inr xs"
    using that assms unf tab f out by (auto split: sum.splits)
  show "r = Inr (filter P (parsed parse (table s))) \<and> t = s" if no: "faults s = []"
  proof -
    have "r1 = Inr (table s)" "s1 = s" using reads_no_faults [OF reads_begin(1) no] b by auto
    moreover from this have "r2 = Inr ()" "s2 = s" using c no by auto
    ultimately show ?thesis using assms unf f out no by auto
  qed
qed

lemma remove_logged_out:
  assumes "remove_logged xs n tbl s = (r, t)"
  shows "(\<exists>bs. t = s\<lparr>faults := bs\<rparr>) \<and>
    (\<exists>ys. set ys \<subseteq> set xs \<and> r = Inr (n + of_nat (length ys), fold table_remove (map s_session_id ys) tbl) \<and>
      (faults s = [] \<longrightarrow> ys = xs))"
  using assms
proof (induction xs arbitrary: n tbl s)
  case Nil
  then show ?case by (simp add: ret_def faults_refl)
next
  case (Cons x xs)
  show ?case
  proof (rule db_call_cases [of StorageError s])
    fix bs assume c: "db_call StorageError s = (Inl StorageError, s\<lparr>faults := bs\<rparr>)"
    with Cons.prems have "remove_logged xs n tbl (s\<lparr>faults := bs\<rparr>) = (r, t)" by simp
    from Cons.IH [OF this] obtain ys where
      "set ys \<subseteq> set xs" "r = Inr (n + of_nat (length ys), fold table_remove (map s_session_id ys) tbl)"
      "\<exists>bs. t = s\<lparr>faults := bs\<rparr>" by auto
    moreover have "faults s \<noteq> []" using c by auto
    ultimately show ?thesis by (intro conjI exI [of _ ys]) auto
  next
    fix bs assume c: "db_call StorageError s = (Inr (), s\<lparr>faults := bs\<rparr>)"
    with Cons.prems have
      "remove_logged xs (n + 1) (table_remove (s_session_id x) tbl) (s\<lparr>faults := bs\<rparr>) = (r, t)" by simp
    from Cons.IH [OF this] obtain ys where
      y: "set ys \<subseteq> set xs" "r = Inr (n + 1 + of_nat (length ys),
        fold table_remove (map s_session_id ys) (table_remove (s_session_id x) tbl))"
      "\<exists>bs. t = s\<lparr>faults := bs\<rparr>" "bs = [] \<longrightarrow> ys = xs" by auto
    have "faults s = [] \<Longrightarrow> bs = []" using c by auto
    with y show ?thesis by (intro conjI exI [of _ "x # ys"]) (auto simp: add.assoc)
  qed
qed

lemma remove_logged_no_faults: "faults s = [] \<Longrightarrow> faults (snd (remove_logged xs n tbl s)) = []"
  by (induction xs arbitrary: n tbl s) (auto simp: ret_def)

lemma remove_strict_out:
  assumes "remove_strict xs n tbl s = (Inr (n', tbl'), t)"
  shows "tbl' = fold table_remove (map s_session_id xs) tbl \<and> (\<exists>bs. t = s\<lparr>faults := bs\<rparr>)"
  using assms
proof (induction xs arbitrary: n tbl s)
  case Nil
  then show ?case by (auto simp: ret_def faults_refl)
next
  case (Cons x xs)
  then obtain s1 where c: "db_call StorageError s = (Inr (), s1)" and
    rest: "remove_strict xs (if map_of tbl (s_session_id x) \<noteq> None then n + 1 else n)
       (table_remove (s_session_id x) tbl) s1 = (Inr (n', tbl'), t)"
    by (auto simp: bind_ok_Inr_iff)
  obtain bs where "s1 = s\<lparr>faults := bs\<rparr>" using readsD(1) [OF reads_db_call c] by blast
  with Cons.IH [OF rest] show ?case by auto
qed

lemma commit_out:
  assumes "commit tbl s = (r, t)"
  shows "clock t = clock s \<and> (table t = tbl \<or> ((\<exists>e. r = Inl e) \<and> table t = table s)) \<and>
     (faults s = [] \<longrightarrow> r = Inr () \<and> t = s\<lparr>table := tbl\<rparr>)"
proof -
  let ?u = "\<lambda>s. s\<lparr>table := tbl\<rparr>"
  show ?thesis
    by (rule update_sql_cases [of s CommitError ?u]) (use assms in \<open>auto simp: commit_def\<close>)
qed

text \<open>The answer of a look-up, as a function of the stored entry.\<close>

definition live_session ::
  "(string \<Rightarrow> instant option) \<Rightarrow> instant \<Rightarrow> session_tuple option \<Rightarrow> session_error + session option" where
  "live_session parse n entry =
     (case entry of
        None \<Rightarrow> Inr None
      | Some x \<Rightarrow>
          (case from_tuple parse x of
             Inl e \<Rightarrow> Inl e
           | Inr s \<Rightarrow> Inr (if s_expires s \<le> n then None else Some s)))"

lemma get_session_no_faults:
  assumes "faults s = []"
  shows "get_session parse i s = (live_session parse (clock s) (map_of (table s) i), s)"
  unfolding get_session_def live_session_def
  using assms reads_no_faults [OF reads_begin(1) assms]
  by (auto simp: bind_ok_def ret_def fail_def split: option.splits sum.splits)

lemma create_session_id_out:
  assumes "create_session_id tbl draws s = (Inr (Some i), t)"
  shows "(\<exists>bs. t = s\<lparr>faults := bs\<rparr>) \<and> i \<in> set draws \<and> (faults s = [] \<longrightarrow> map_of tbl i = None)"
  using assms
proof (induction draws arbitrary: s)
  case Nil
  then show ?case by (simp add: ret_def)
next
  case (Cons d draws)
  obtain r s1 where c: "db_call StorageError s = (r, s1)" by fastforce
  obtain bs where s1: "s1 = s\<lparr>faults := bs\<rparr>" using readsD(1) [OF reads_db_call c] by blast
  have ok: "faults s = [] \<Longrightarrow> r = Inr () \<and> s1 = s" using c by simp
  show ?case
  proof (cases "case r of Inl _ \<Rightarrow> False | Inr _ \<Rightarrow> map_of tbl d \<noteq> None")
    case True
    with Cons.prems c have "create_session_id tbl draws s1 = (Inr (Some i), t)" by simp
    from Cons.IH [OF this] s1 ok show ?thesis by auto
  next
    case False
    with Cons.prems c have "i = d" "t = s1" by (auto simp: ret_def)
    with False ok s1 show ?thesis by (auto split: sum.splits)
  qed
qed

lemma create_session_out:
  assumes "create_session fmt draws u ua ip life s = (Inr (Some x), t)"
  shows "\<exists>i. x = session_new (clock s) u i ua ip life \<and> i \<in> set draws \<and>
     table t = table_insert i (as_tuple_ref fmt x) (table s) \<and> clock t = clock s \<and>
     (faults s = [] \<longrightarrow> map_of (table s) i = None)"
proof -
  from assms obtain tbl s1 i s2 s3 s4
    where a: "begin_write s = (Inr tbl, s1)"
      and b: "create_session_id tbl draws s1 = (Inr (Some i), s2)"
      and c: "db_call StorageError s2 = (Inr (), s3)"
      and d: "commit (table_insert i (as_tuple_ref fmt (session_new (clock s) u i ua ip life)) tbl) s3 =
        (Inr (), s4)"
      and e: "ret (Some (session_new (clock s) u i ua ip life)) s4 = (Inr (Some x), t)"
    unfolding create_session_def
    by (auto simp: bind_ok_Inr_iff Let_def ret_def split: option.splits)
  obtain bs1 where s1: "s1 = s\<lparr>faults := bs1\<rparr>" using readsD(1) [OF reads_begin(2) a] by blast
  have tbl: "tbl = table s" using readsD(2) [OF reads_begin(2) a] by simp
  obtain bs2 where s2: "s2 = s1\<lparr>faults := bs2\<rparr>" using create_session_id_out [OF b] by blast
  obtain bs3 where s3: "s3 = s2\<lparr>faults := bs3\<rparr>" using readsD(1) [OF reads_db_call c] by blast
  have f1: "faults s = [] \<Longrightarrow> s1 = s" using reads_no_faults [OF reads_begin(2), of s] a by auto
  have x: "x = session_new (clock s) u i ua ip life" "t = s4" using e by (auto simp: ret_def)
  show ?thesis
    using commit_out [OF d] create_session_id_out [OF b] f1
    by (intro exI [of _ i]) (auto simp: x tbl s3 s2 s1)
qed

text \<open>
  C7. A session that was created is found under its id until it expires and never afterwards,
  whether or not the cleaner has run: at any time \<open>c\<close>, the look-up gives the session if \<open>c\<close> is
  before its expiry, and nothing otherwise. No other session is touched, unless a look-up failed
  while the id was drawn the id was not in use, and the table keeps its order and its keys.
\<close>

theorem session_lifetime:
  assumes "create_session fmt draws u ua ip life s = (Inr (Some x), t)"
    and "parse (fmt (clock s)) = Some (clock s)" and "parse (fmt (clock s + life)) = Some (clock s + life)"
    and "wf_sessions (table s)"
  shows "fst (get_session parse (s_session_id x) (t\<lparr>faults := [], clock := c\<rparr>)) =
      Inr (if clock s + life \<le> c then None else Some x) \<and>
    s_user_id x = u \<and>
    (\<forall>j. j \<noteq> s_session_id x \<longrightarrow> map_of (table t) j = map_of (table s) j) \<and>
    (faults s = [] \<longrightarrow> map_of (table s) (s_session_id x) = None) \<and> wf_sessions (table t)"
proof -
  obtain i where x: "x = session_new (clock s) u i ua ip life"
    and t: "table t = table_insert i (as_tuple_ref fmt x) (table s)"
    and fresh: "faults s = [] \<longrightarrow> map_of (table s) i = None"
    using create_session_out [OF assms(1)] by blast
  have i: "s_session_id x = i" by (simp add: x session_new_def)
  have m: "map_of (table t) j = (if j = i then Some (as_tuple_ref fmt x) else map_of (table s) j)" for j
    by (simp add: t session_table.lookup_insert)
  have tup: "from_tuple parse (as_tuple_ref fmt x) = Inr x"
    using assms(2,3) by (simp add: from_tuple_def as_tuple_ref_def x session_new_def)
  have ex: "s_expires x = clock s + life" by (simp add: x session_new_def)
  have "wf_sessions (table t)"
    unfolding t by (rule table_insert_wf) (simp_all add: assms(4) as_tuple_ref_def x session_new_def)
  then show ?thesis
    using fresh
    by (simp add: get_session_no_faults live_session_def i m tup ex)
      (simp add: x session_new_def)
qed

definition sample_manager :: session_manager where
  "sample_manager =
     \<lparr>faults = [], clock = 100,
      table = [(''aa'', (1, ''aa'', ''curl'', ''10.0.0.1'', ''t50'', ''t10'')),
               (''bb'', (2, ''bb'', ''curl'', ''10.0.0.2'', ''t200'', ''t10''))]\<rparr>"

definition sample_parse :: "string \<Rightarrow> instant option" where
  "sample_parse x =
     map_of [(''t10'', 10), (''t50'', 50), (''t100'', 100), (''t200'', 200)] x"

definition sample_fmt :: "instant \<Rightarrow> string" where
  "sample_fmt i = (if i = 100 then ''t100'' else ''t200'')"

theorem session_lifetime_witness:
  "fst (get_session sample_parse ''cc''
     ((snd (create_session sample_fmt [''aa'', ''cc''] 7 ''ua'' ''ip'' 100 sample_manager))
        \<lparr>faults := [], clock := 200\<rparr>)) = Inr None"
proof -
  let ?out = "create_session sample_fmt [''aa'', ''cc''] 7 ''ua'' ''ip'' 100 sample_manager"
  let ?x = "session_new 100 7 ''cc'' ''ua'' ''ip'' 100"
  have "fst ?out = Inr (Some ?x)" by code_simp
  then have o: "?out = (Inr (Some ?x), snd ?out)" by (metis prod.collapse)
  have c: "clock sample_manager = 100" "s_session_id ?x = ''cc''" by code_simp+
  have p: "sample_parse (sample_fmt (clock sample_manager)) = Some (clock sample_manager)"
    "sample_parse (sample_fmt (clock sample_manager + 100)) = Some (clock sample_manager + 100)"
    "wf_sessions (table sample_manager)" by code_simp+
  show ?thesis using session_lifetime [OF o p, of 200] c by simp
qed

text \<open>What one run of the cleaner leaves.\<close>

lemma parsed_entry:
  assumes "x \<in> set (parsed parse tbl)" and "wf_sessions tbl"
  shows "\<exists>v. map_of tbl (s_session_id x) = Some v \<and> from_tuple parse v = Inr x"
proof -
  obtain k v where e: "(k, v) \<in> set tbl" "from_tuple parse v = Inr x"
    using assms(1) by (auto simp: parsed_def split: sum.splits)
  have "fst (snd v) = k" using e(1) assms(2) by (fastforce simp: wf_sessions_def list_all_iff)
  then have "s_session_id x = k"
    using e(2) by (auto simp: from_tuple_def split: prod.splits option.splits)
  moreover have "map_of tbl k = Some v" using e(1) assms(2) by (simp add: wf_sessions_def)
  ultimately show ?thesis using e(2) by blast
qed

lemma clean_inner_out:
  assumes "clean_inner parse s = (r, t)"
  shows "\<exists>ys. set ys \<subseteq> set (filter (\<lambda>x. s_expires x < clock s) (parsed parse (table s))) \<and>
      table t = fold table_remove (map s_session_id ys) (table s) \<and> clock t = clock s \<and>
      (\<forall>n. r = Inr n \<longrightarrow> n = of_nat (length ys)) \<and>
      (faults s = [] \<longrightarrow> r = Inr (of_nat (length ys)) \<and>
         ys = filter (\<lambda>x. s_expires x < clock s) (parsed parse (table s)))"
proof -
  let ?P = "\<lambda>x. s_expires x < clock s"
  obtain r1 s1 where a: "filter_table parse True ?P s = (r1, s1)" by fastforce
  note A = filter_table_out [OF a]
  obtain bs1 where s1: "s1 = s\<lparr>faults := bs1\<rparr>" using A(1) by blast
  show ?thesis
  proof (cases r1)
    case (Inl e)
    with assms a have "r = Inl e" "t = s1" by (auto simp: clean_inner_def Let_def)
    with Inl A(3) s1 show ?thesis by (intro exI [of _ "[]"]) auto
  next
    case (Inr xs)
    obtain r2 s2 where b: "begin_write s1 = (r2, s2)" by fastforce
    obtain bs2 where s2: "s2 = s1\<lparr>faults := bs2\<rparr>" using readsD(1) [OF reads_begin(2) b] by blast
    have no2: "faults s1 = [] \<Longrightarrow> r2 = Inr (table s1) \<and> s2 = s1"
      using reads_no_faults [OF reads_begin(2), of s1] b by auto
    have no1: "faults s = [] \<Longrightarrow> s1 = s" using A(3) by auto
    show ?thesis
    proof (cases r2)
      case (Inl e)
      with assms a b \<open>r1 = Inr xs\<close> have "r = Inl e" "t = s2" by (auto simp: clean_inner_def Let_def)
      with Inl s1 s2 no1 no2 show ?thesis by (intro exI [of _ "[]"]) auto
    next
      case (Inr tbl)
      have tbl: "tbl = table s" using readsD(2) [OF reads_begin(2) b Inr] s1 by simp
      obtain r3 s3 where c: "remove_logged xs 0 tbl s2 = (r3, s3)" by fastforce
      from remove_logged_out [OF c] obtain ys bs3 where
        ys: "set ys \<subseteq> set xs" "r3 = Inr (0 + of_nat (length ys), fold table_remove (map s_session_id ys) tbl)"
          "faults s2 = [] \<longrightarrow> ys = xs" and s3: "s3 = s2\<lparr>faults := bs3\<rparr>" by blast
      obtain r4 s4 where d: "commit (fold table_remove (map s_session_id ys) tbl) s3 = (r4, s4)" by fastforce
      note D = commit_out [OF d]
      have no3: "faults s2 = [] \<Longrightarrow> faults s3 = []"
        using c by (metis remove_logged_no_faults snd_conv)
      have rt: "r = (case r4 of Inl e \<Rightarrow> Inl e | Inr _ \<Rightarrow> Inr (of_nat (length ys)))" "t = s4"
        using assms a b c d \<open>r1 = Inr xs\<close> Inr ys(2)
        by (auto simp: clean_inner_def Let_def bind_ok_def ret_def split: sum.splits)
      have sub: "set ys \<subseteq> set (filter ?P (parsed parse (table s)))"
        using ys(1) A(2) [OF \<open>r1 = Inr xs\<close>] by blast
      show ?thesis
      proof (cases "table t = fold table_remove (map s_session_id ys) tbl")
        case True
        have "faults s = [] \<Longrightarrow> r = Inr (of_nat (length ys)) \<and> ys = filter ?P (parsed parse (table s))"
          using no1 no2 no3 D ys(3) rt A(3) \<open>r1 = Inr xs\<close> by auto
        with True sub D s1 s2 s3 rt tbl show ?thesis
          by (intro exI [of _ ys]) (auto split: sum.splits)
      next
        case False
        with D rt obtain e where e: "r4 = Inl e" "table t = table s3" by auto
        then have "faults s \<noteq> []" using no1 no2 no3 D by auto
        with e D s1 s2 s3 rt show ?thesis by (intro exI [of _ "[]"]) auto
      qed
    qed
  qed
qed

definition entry_matches :: "(string \<Rightarrow> instant option) \<Rightarrow> (session \<Rightarrow> bool) \<Rightarrow> string \<times> session_tuple \<Rightarrow> bool" where
  "entry_matches parse P e = (case from_tuple parse (snd e) of Inl _ \<Rightarrow> False | Inr x \<Rightarrow> P x)"

lemma length_parsed: "length (filter P (parsed parse tbl)) = length (filter (entry_matches parse P) tbl)"
  by (induction tbl) (auto simp: parsed_def entry_matches_def split: sum.splits)

lemma parsed_Cons:
  "parsed parse (e # tbl) =
     (case from_tuple parse (snd e) of Inl _ \<Rightarrow> [] | Inr x \<Rightarrow> [x]) @ parsed parse tbl"
  by (simp add: parsed_def case_prod_unfold)

lemma parsed_mem: "x \<in> set (parsed parse tbl) \<longleftrightarrow> (\<exists>e \<in> set tbl. from_tuple parse (snd e) = Inr x)"
proof (induction tbl)
  case Nil
  then show ?case by (simp add: parsed_def)
next
  case (Cons e tbl)
  then show ?case
    by (cases "from_tuple parse (snd e)") (simp_all add: parsed_Cons eq_commute [of x])
qed

lemma remove_matching:
  assumes "wf_sessions tbl"
  shows "fold table_remove (map s_session_id (filter P (parsed parse tbl))) tbl =
     filter (\<lambda>e. \<not> entry_matches parse P e) tbl"
  unfolding fold_table_remove
proof (rule filter_cong [OF refl])
  fix e assume e: "e \<in> set tbl"
  obtain k v where kv: "e = (k, v)" by (rule prod.exhaust)
  have key: "map_of tbl k = Some v" using e assms kv by (simp add: wf_sessions_def)
  have idk: "s_session_id x = k" if "from_tuple parse v = Inr x" for x
  proof -
    have "fst (snd v) = k" using e kv assms by (fastforce simp: wf_sessions_def list_all_iff)
    with that show ?thesis by (auto simp: from_tuple_def split: prod.splits option.splits)
  qed
  have "k \<in> set (map s_session_id (filter P (parsed parse tbl))) \<longleftrightarrow> entry_matches parse P e"
  proof
    assume "k \<in> set (map s_session_id (filter P (parsed parse tbl)))"
    then obtain x where x: "x \<in> set (parsed parse tbl)" "P x" "s_session_id x = k" by auto
    from parsed_entry [OF x(1) assms] x(3) key have "from_tuple parse v = Inr x" by auto
    with x(2) show "entry_matches parse P e" by (simp add: entry_matches_def kv)
  next
    assume m: "entry_matches parse P e"
    then obtain x where x: "from_tuple parse v = Inr x" "P x"
      by (auto simp: entry_matches_def kv split: sum.splits)
    with e kv have "x \<in> set (parsed parse tbl)" unfolding parsed_mem by (metis snd_conv)
    with x idk [OF x(1)] show "k \<in> set (map s_session_id (filter P (parsed parse tbl)))" by force
  qed
  then show "(fst e \<notin> set (map s_session_id (filter P (parsed parse tbl)))) = (\<not> entry_matches parse P e)"
    by (simp add: kv)
qed

text \<open>
  Cleaning is invisible. However many of its calls to the store fail, a run of the cleaner
  changes the answer of no look-up, at that time or any later one: it removes only entries that are
  expired, which a look-up already hides. When no call fails it removes every such entry and reports
  how many, and keeps the entries it cannot parse.
\<close>

theorem clean_invisible:
  assumes "clean_inner parse s = (r, t)" and "wf_sessions (table s)" and "clock s \<le> c"
  shows "fst (get_session parse i (t\<lparr>faults := [], clock := c\<rparr>)) =
      fst (get_session parse i (s\<lparr>faults := [], clock := c\<rparr>)) \<and>
    set (table t) \<subseteq> set (table s) \<and> wf_sessions (table t) \<and>
    (faults s = [] \<longrightarrow>
       table t = filter (\<lambda>e. \<not> entry_matches parse (\<lambda>x. s_expires x < clock s) e) (table s) \<and>
       r = Inr (of_nat (length (filter (entry_matches parse (\<lambda>x. s_expires x < clock s)) (table s)))))"
proof -
  let ?P = "\<lambda>x. s_expires x < clock s"
  obtain ys where ys: "set ys \<subseteq> set (filter ?P (parsed parse (table s)))"
    and t: "table t = fold table_remove (map s_session_id ys) (table s)"
    and no: "faults s = [] \<longrightarrow> r = Inr (of_nat (length ys)) \<and> ys = filter ?P (parsed parse (table s))"
    using clean_inner_out [OF assms(1)] by blast
  have look: "live_session parse c (map_of (table t) i) = live_session parse c (map_of (table s) i)"
  proof (cases "i \<in> set (map s_session_id ys)")
    case True
    then obtain x where x: "x \<in> set (parsed parse (table s))" "s_session_id x = i" "s_expires x < clock s"
      using ys by auto
    from parsed_entry [OF x(1) assms(2)] x(2) obtain v
      where "map_of (table s) i = Some v" "from_tuple parse v = Inr x" by blast
    with True x(3) assms(3) show ?thesis
      by (simp add: t session_table.lookup_remove_all live_session_def)
  next
    case False
    then show ?thesis by (simp add: t session_table.lookup_remove_all)
  qed
  have wf: "wf_sessions (fold table_remove ks tbl)" if "wf_sessions tbl" for ks and tbl :: "(string \<times> session_tuple) list"
    using that by (induction ks arbitrary: tbl) (auto simp: table_remove_wf)
  have "set (table t) \<subseteq> set (table s)" by (auto simp: t fold_table_remove)
  moreover have "faults s = [] \<Longrightarrow> table t = filter (\<lambda>e. \<not> entry_matches parse ?P e) (table s)"
    using no remove_matching [OF assms(2)] t by simp
  moreover have "faults s = [] \<Longrightarrow> r = Inr (of_nat (length (filter (entry_matches parse ?P) (table s))))"
    using no length_parsed [of ?P] by simp
  ultimately show ?thesis using look wf [OF assms(2)] t by (simp add: get_session_no_faults)
qed

theorem clean_invisible_witness:
  "table (snd (clean_inner sample_parse sample_manager)) =
     [(''bb'', (2, ''bb'', ''curl'', ''10.0.0.2'', ''t200'', ''t10''))]"
proof -
  have wf: "wf_sessions (table sample_manager)" and f: "faults sample_manager = []" by code_simp+
  have "table (snd (clean_inner sample_parse sample_manager)) =
      filter (\<lambda>e. \<not> entry_matches sample_parse (\<lambda>x. s_expires x < clock sample_manager) e)
        (table sample_manager)"
    using clean_invisible [OF prod.collapse [symmetric] wf order_refl] f by blast
  also have "\<dots> = [(''bb'', (2, ''bb'', ''curl'', ''10.0.0.2'', ''t200'', ''t10''))]" by code_simp
  finally show ?thesis .
qed

text \<open>
  Ending all sessions of a user. If the request succeeds while the store works, no look-up
  finds a session of that user any more, and every look-up of another user's session answers as
  before.
\<close>

theorem delete_sessions_for_user_ends_them:
  assumes "delete_sessions_for_user parse u s = (Inr n, t)" and "wf_sessions (table s)" and "faults s = []"
  shows "fst (get_session parse i (t\<lparr>clock := c\<rparr>)) =
     (case fst (get_session parse i (s\<lparr>clock := c\<rparr>)) of
        Inl e \<Rightarrow> Inl e
      | Inr None \<Rightarrow> Inr None
      | Inr (Some x) \<Rightarrow> Inr (if s_user_id x = u then None else Some x))"
proof -
  let ?P = "\<lambda>x. s_user_id x = u"
  let ?xs = "filter ?P (parsed parse (table s))"
  obtain r1 s1 where a: "filter_table parse True ?P s = (r1, s1)" by fastforce
  have r1: "r1 = Inr ?xs" "s1 = s" using filter_table_out(3) [OF a assms(3)] by auto
  have tt: "table t = fold table_remove (map s_session_id ?xs) (table s) \<and> faults t = []"
  proof (cases "?xs = []")
    case True
    with assms(1,3) a r1 show ?thesis
      by (simp add: delete_sessions_for_user_def ret_def)
  next
    case False
    have b: "begin_write s = (Inr (table s), s)" by (rule reads_no_faults [OF reads_begin(2) assms(3)])
    from assms(1) False a r1 b obtain out s2 s3
      where c: "remove_strict ?xs 0 (table s) s = (Inr out, s2)"
        and d: "commit (snd out) s2 = (Inr (), s3)" and e: "t = s3"
      by (auto simp: delete_sessions_for_user_def bind_ok_Inr_iff ret_def)
    obtain m tbl where out: "out = (m, tbl)" by fastforce
    have nf: "faults (snd (remove_strict xs n tb s)) = []" for xs n tb
      using assms(3) by (induction xs arbitrary: n tb) (auto simp: ret_def)
    have "faults s2 = []" using nf [of ?xs 0 "table s"] c by simp
    with remove_strict_out [OF c [unfolded out]] commit_out [OF d] out e show ?thesis
      by auto
  qed
  then have tbl: "table t = filter (\<lambda>e. \<not> entry_matches parse ?P e) (table s)" and f: "faults t = []"
    using remove_matching [OF assms(2), of ?P parse] by auto
  have "distinct (map fst (table s))" using assms(2) by (simp add: wf_sessions_def)
  then have look: "map_of (table t) i = (case map_of (table s) i of
      None \<Rightarrow> None | Some v \<Rightarrow> if entry_matches parse ?P (i, v) then None else Some v)"
    unfolding tbl by (simp add: map_of_filter_distinct split: option.splits)
  show ?thesis
    using f assms(3)
    by (auto simp: get_session_no_faults live_session_def look entry_matches_def
        split: option.splits sum.splits)
qed

theorem delete_sessions_for_user_ends_them_witness:
  "fst (get_session sample_parse ''bb''
     ((snd (delete_sessions_for_user sample_parse 2 sample_manager))\<lparr>clock := 100\<rparr>)) = Inr None"
proof -
  have "fst (delete_sessions_for_user sample_parse 2 sample_manager) = Inr 1" by code_simp
  then have o: "delete_sessions_for_user sample_parse 2 sample_manager =
      (Inr 1, snd (delete_sessions_for_user sample_parse 2 sample_manager))" by (metis prod.collapse)
  have h: "wf_sessions (table sample_manager)" "faults sample_manager = []" by code_simp+
  have "fst (get_session sample_parse ''bb'' (sample_manager\<lparr>clock := 100\<rparr>)) =
      Inr (Some (session_new 10 2 ''bb'' ''curl'' ''10.0.0.2'' 190))" by code_simp
  moreover have "s_user_id (session_new 10 2 ''bb'' ''curl'' ''10.0.0.2'' 190) = 2" by code_simp
  ultimately show ?thesis
    using delete_sessions_for_user_ends_them [OF o h, of "''bb''" 100] by simp
qed

end
