(* ===== verification/Authn.thy ===== *)
theory Authn
  imports Sessions
begin

text \<open>
  Authentication of a request: the \<open>Authorization\<close> header (pkgly/src/app/authentication/header.rs),
  the middleware that picks the credential (layer.rs), the login check, the token check and the
  extractors of the API (mod.rs). Third-party code is a parameter: \<open>decode\<close> (base64),
  \<open>parse_hash\<close> and \<open>check_hash\<close> (Argon2), \<open>hash\<close> (the digest of tokens).
\<close>

section \<open>The \<open>Authorization\<close> header\<close>

datatype authorization_header =
    Basic string string
  | Bearer string
  | SessionHeader string
  | OtherHeader string string

datatype bad_header = InvalidFormat | InvalidValue | InvalidBasicValue | NotText

text \<open>\<open>String::from_utf8\<close>: the number of continuation bytes a first byte asks for, and the range of
  the first of them.\<close>

definition utf8_class :: "nat \<Rightarrow> (nat \<times> nat \<times> nat) option" where
  "utf8_class b =
     (if b < 128 then Some (0, 0, 0)
      else if 194 \<le> b \<and> b \<le> 223 then Some (1, 128, 191)
      else if b = 224 then Some (2, 160, 191)
      else if b = 237 then Some (2, 128, 159)
      else if 225 \<le> b \<and> b \<le> 239 then Some (2, 128, 191)
      else if b = 240 then Some (3, 144, 191)
      else if 241 \<le> b \<and> b \<le> 243 then Some (3, 128, 191)
      else if b = 244 then Some (3, 128, 143)
      else None)"

function utf8_valid :: "string \<Rightarrow> bool" where
  "utf8_valid [] = True"
| "utf8_valid (c # cs) =
     (case utf8_class (of_char c) of
        None \<Rightarrow> False
      | Some (n, lo, hi) \<Rightarrow>
          (n = 0 \<or>
           (n \<le> length cs \<and> lo \<le> of_char (hd cs) \<and> of_char (hd cs) \<le> hi \<and>
            list_all is_utf8_cont (take (n - 1) (tl cs)))) \<and>
          utf8_valid (drop n cs))"
  by pat_completeness auto
termination by (relation "measure length") auto

definition parse_basic_header :: "(string \<Rightarrow> string option) \<Rightarrow> string \<Rightarrow> bad_header + authorization_header" where
  "parse_basic_header decode header =
     (case decode header of
        None \<Rightarrow> Inl InvalidValue
      | Some decoded \<Rightarrow>
          if \<not> utf8_valid decoded then Inl InvalidValue
          else let parts = split_on (CHR '':'') decoded
               in if length parts \<noteq> 2 then Inl InvalidBasicValue
                  else Inr (Basic (parts ! 0) (parts ! 1)))"

definition header_try_from :: "(string \<Rightarrow> string option) \<Rightarrow> string \<Rightarrow> bad_header + authorization_header" where
  "header_try_from decode value =
     (case split_once '' '' value of
        None \<Rightarrow> if value = [] then Inl InvalidFormat else Inr (Bearer value)
      | Some (scheme, rest) \<Rightarrow>
          let token = trim_start rest
          in if token = [] then Inl InvalidFormat
             else if to_lower scheme = ''basic'' then parse_basic_header decode token
             else if to_lower scheme = ''bearer'' \<or> to_lower scheme = ''token'' then Inr (Bearer token)
             else if to_lower scheme = ''session'' then Inr (SessionHeader token)
             else Inr (OtherHeader scheme token))"

section \<open>The credential of a request\<close>

datatype authentication_raw =
    RawNoIdentification
  | RawAuthToken string
  | RawSession session
  | RawUnknown string string
  | RawBasic string string

text \<open>\<open>new_from_cookie\<close>, and the session case of \<open>new_from_header\<close>: a store that fails counts as no
  identification.\<close>

definition raw_from_session ::
  "(string \<Rightarrow> instant option) \<Rightarrow> string \<Rightarrow> session_manager \<Rightarrow> authentication_raw \<times> session_manager" where
  "raw_from_session parse session_id mgr =
     (case get_session parse session_id mgr of
        (Inr (Some session), mgr') \<Rightarrow> (RawSession session, mgr')
      | (Inl err, mgr') \<Rightarrow> (RawNoIdentification, mgr')
      | (Inr None, mgr') \<Rightarrow> (RawNoIdentification, mgr'))"

definition new_from_header ::
  "(string \<Rightarrow> instant option) \<Rightarrow> authorization_header \<Rightarrow> session_manager \<Rightarrow>
     authentication_raw \<times> session_manager" where
  "new_from_header parse header mgr =
     (case header of
        Basic username password \<Rightarrow> (RawBasic username password, mgr)
      | Bearer token \<Rightarrow> (RawAuthToken token, mgr)
      | SessionHeader session_id \<Rightarrow> raw_from_session parse session_id mgr
      | OtherHeader scheme value \<Rightarrow> (RawUnknown scheme value, mgr))"

text \<open>The headers the middleware looks at; \<open>to_str\<close> succeeds on visible ASCII.\<close>

record request_headers =
  h_authorization :: "string option"
  h_nuget_api_key :: "string option"
  h_session_cookie :: "string option"

definition header_to_str :: "string \<Rightarrow> string option" where
  "header_to_str v =
     (if list_all (\<lambda>c. let n = (of_char c :: nat) in (32 \<le> n \<and> n < 127) \<or> n = 9) v then Some v
      else None)"

definition process_from_parts ::
  "(string \<Rightarrow> string option) \<Rightarrow> (string \<Rightarrow> instant option) \<Rightarrow> request_headers \<Rightarrow> session_manager \<Rightarrow>
     (bad_header + authentication_raw) \<times> session_manager" where
  "process_from_parts decode parse hs mgr =
     (case h_authorization hs of
        Some value \<Rightarrow>
          (case header_to_str value of
             None \<Rightarrow> (Inl NotText, mgr)
           | Some text \<Rightarrow>
               (case header_try_from decode text of
                  Inl e \<Rightarrow> (Inl e, mgr)
                | Inr header \<Rightarrow>
                    (case new_from_header parse header mgr of (raw, mgr') \<Rightarrow> (Inr raw, mgr'))))
      | None \<Rightarrow>
          (case Option.bind (h_nuget_api_key hs) header_to_str of
             Some (c # cs) \<Rightarrow> (Inr (RawAuthToken (c # cs)), mgr)
           | _ \<Rightarrow>
               (case h_session_cookie hs of
                  Some cookie \<Rightarrow>
                    (case raw_from_session parse cookie mgr of (raw, mgr') \<Rightarrow> (Inr raw, mgr'))
                | None \<Rightarrow> (Inr RawNoIdentification, mgr))))"

section \<open>Login and tokens\<close>

datatype authentication_error =
    InternalError sqlx_error
  | Unauthorized
  | PasswordVerificationError
  | AuthTokenForbidden
  | Forbidden

type_synonym ('z, 'a) auth_op = "('z token_db_scheme, authentication_error, 'a) stm"

definition verify_password ::
  "(string \<Rightarrow> 'h option) \<Rightarrow> (string \<Rightarrow> 'h \<Rightarrow> bool) \<Rightarrow> string \<Rightarrow> string option \<Rightarrow>
     authentication_error + unit" where
  "verify_password parse_hash check_hash password stored =
     (case stored of
        None \<Rightarrow> Inl Unauthorized
      | Some text \<Rightarrow>
          (case parse_hash text of
             None \<Rightarrow> Inl PasswordVerificationError
           | Some parsed_hash \<Rightarrow>
               if \<not> check_hash password parsed_hash then Inl Unauthorized else Inr ()))"

definition verify_login ::
  "(string \<Rightarrow> 'h option) \<Rightarrow> (string \<Rightarrow> 'h \<Rightarrow> bool) \<Rightarrow> string \<Rightarrow> string \<Rightarrow> ('z, user_safe) auth_op" where
  "verify_login parse_hash check_hash username password =
     bind_ok (map_err InternalError (get_by_username_or_email username)) (\<lambda>user_found.
       case user_found of
         None \<Rightarrow> fail Unauthorized
       | Some user \<Rightarrow>
           bind_ok (from_result (verify_password parse_hash check_hash password (u_password user))) (\<lambda>_.
             if \<not> u_active user then fail Unauthorized else ret (user_safe_from user)))"

definition or_unauthorized :: "'a option \<Rightarrow> ('z, 'a) auth_op" where
  "or_unauthorized x = (case x of None \<Rightarrow> fail Unauthorized | Some a \<Rightarrow> ret a)"

text \<open>\<open>expires <= Utc::now()\<close>.\<close>

definition expired_at :: "instant \<Rightarrow> auth_token \<Rightarrow> bool" where
  "expired_at n token = (case t_expires_at token of None \<Rightarrow> False | Some e \<Rightarrow> e \<le> n)"

definition get_user_and_auth_token ::
  "(string \<Rightarrow> string) \<Rightarrow> string \<Rightarrow> ('z, user_safe \<times> auth_token) auth_op" where
  "get_user_and_auth_token hash token s0 =
     bind_ok (map_err InternalError (get_by_token hash token)) (\<lambda>found.
       bind_ok (or_unauthorized found) (\<lambda>auth_token.
         if expired_at (now s0) auth_token then fail Unauthorized
         else bind_ok (map_err InternalError (get_safe_by_id (t_user_id auth_token))) (\<lambda>found.
                bind_ok (or_unauthorized found) (\<lambda>user.
                  if \<not> us_active user then fail Unauthorized
                  else ret (user, auth_token))))) s0"

section \<open>The extractors of the API\<close>

datatype authentication =
    AuthToken auth_token user_safe
  | Session session user_safe

definition authentication_user :: "authentication \<Rightarrow> user_safe" where
  "authentication_user a = (case a of AuthToken _ user \<Rightarrow> user | Session _ user \<Rightarrow> user)"

definition user_of_session :: "session \<Rightarrow> ('z, user_safe) auth_op" where
  "user_of_session session =
     bind_ok (map_err InternalError (get_safe_by_id (s_user_id session))) or_unauthorized"

definition authentication_from_request ::
  "(string \<Rightarrow> string) \<Rightarrow> authentication_raw option \<Rightarrow> ('z, authentication) auth_op" where
  "authentication_from_request hash raw =
     (case raw of
        None \<Rightarrow> fail Unauthorized
      | Some raw_auth \<Rightarrow>
          (case raw_auth of
             RawNoIdentification \<Rightarrow> fail Unauthorized
           | RawAuthToken token \<Rightarrow>
               bind_ok (get_user_and_auth_token hash token) (\<lambda>(user, auth_token).
                 ret (AuthToken auth_token user))
           | RawSession session \<Rightarrow>
               bind_ok (user_of_session session) (\<lambda>user. ret (Session session user))
           | RawUnknown _ _ \<Rightarrow> fail Unauthorized
           | RawBasic _ _ \<Rightarrow> fail Unauthorized))"

definition optional_authentication_from_request ::
  "(string \<Rightarrow> string) \<Rightarrow> authentication_raw option \<Rightarrow> ('z, authentication option) auth_op" where
  "optional_authentication_from_request hash raw =
     (case raw of
        None \<Rightarrow> ret None
      | Some raw_auth \<Rightarrow>
          (case raw_auth of
             RawNoIdentification \<Rightarrow> ret None
           | RawAuthToken token \<Rightarrow>
               bind_ok (get_user_and_auth_token hash token) (\<lambda>(user, auth_token).
                 ret (Some (AuthToken auth_token user)))
           | RawSession session \<Rightarrow>
               bind_ok (user_of_session session) (\<lambda>user. ret (Some (Session session user)))
           | RawUnknown _ _ \<Rightarrow> ret None
           | RawBasic _ _ \<Rightarrow> ret None))"

definition only_session_from_request :: "authentication_raw option \<Rightarrow> ('z, user_safe \<times> session) auth_op" where
  "only_session_from_request raw =
     (case raw of
        None \<Rightarrow> fail Unauthorized
      | Some raw_auth \<Rightarrow>
          (case raw_auth of
             RawNoIdentification \<Rightarrow> fail Unauthorized
           | RawAuthToken _ \<Rightarrow> fail AuthTokenForbidden
           | RawSession session \<Rightarrow>
               bind_ok (user_of_session session) (\<lambda>user. ret (user, session))
           | RawUnknown _ _ \<Rightarrow> fail Unauthorized
           | RawBasic _ _ \<Rightarrow> fail Unauthorized))"

definition authentication_has_action ::
  "authentication \<Rightarrow> repository_action \<Rightarrow> uuid \<Rightarrow> ('z, bool) token_query" where
  "authentication_has_action auth action repository =
     (case auth of
        AuthToken token user \<Rightarrow>
          does_user_and_token_have_repository_action safe_has_action user token action repository
      | Session _ user \<Rightarrow> safe_has_action user action repository)"

definition authentication_allowed ::
  "authentication \<Rightarrow> repository_action \<Rightarrow> uuid \<Rightarrow> 'z token_db_scheme \<Rightarrow> bool" where
  "authentication_allowed auth action repository s =
     (case auth of
        AuthToken token user \<Rightarrow>
          user_allowed user action repository s \<and> token_allowed token action repository s
      | Session _ user \<Rightarrow> user_allowed user action repository s)"

interpretation api: authorizer authentication_has_action authentication_allowed
proof
  fix auth a r
  show "reads (authentication_has_action auth a r) (authentication_allowed auth a r)"
    using reads_user_and_token [OF safe.answers] safe.answers
    by (cases auth) (auto simp: authentication_has_action_def authentication_allowed_def [abs_def])
qed

section \<open>What a header means\<close>

lemma split_on_two: "length (split_on c s) = 2 \<longleftrightarrow> (\<exists>a b. s = a @ c # b \<and> c \<notin> set a \<and> c \<notin> set b)"
proof
  assume "length (split_on c s) = 2"
  then obtain a b where ab: "split_on c s = [a, b]"
    by (auto simp: numeral_2_eq_2 length_Suc_conv)
  then have "s = join_with [c] [a, b]" by (metis join_split_on)
  then have "s = a @ c # b" by simp
  moreover have "c \<notin> set a" "c \<notin> set b" using split_on_pieces [of _ c s] ab by auto
  ultimately show "\<exists>a b. s = a @ c # b \<and> c \<notin> set a \<and> c \<notin> set b" by blast
next
  assume "\<exists>a b. s = a @ c # b \<and> c \<notin> set a \<and> c \<notin> set b"
  then show "length (split_on c s) = 2" by (auto simp: split_on_append_sep split_on_no_sep)
qed

lemma parse_basic_iff:
  "parse_basic_header decode h = Inr hdr \<longleftrightarrow>
     (\<exists>u p. hdr = Basic u p \<and> decode h = Some (u @ CHR '':'' # p) \<and> utf8_valid (u @ CHR '':'' # p) \<and>
        CHR '':'' \<notin> set u \<and> CHR '':'' \<notin> set p)"
proof (cases "decode h")
  case None
  then show ?thesis by (simp add: parse_basic_header_def)
next
  case (Some d)
  show ?thesis
  proof (cases "utf8_valid d \<and> length (split_on (CHR '':'') d) = 2")
    case True
    then obtain a b where ab: "d = a @ CHR '':'' # b" "CHR '':'' \<notin> set a" "CHR '':'' \<notin> set b"
      using split_on_two by metis
    then have sp: "split_on (CHR '':'') d = [a, b]" by (simp add: split_on_append_sep split_on_no_sep)
    have uniq: "u = a \<and> p = b" if "d = u @ CHR '':'' # p" "CHR '':'' \<notin> set u" "CHR '':'' \<notin> set p" for u p
      using that sp by (simp add: split_on_append_sep split_on_no_sep)
    have out: "parse_basic_header decode h = Inr (Basic a b)"
      using True Some sp by (simp add: parse_basic_header_def)
    have dec: "decode h = Some (a @ CHR '':'' # b)" "utf8_valid (a @ CHR '':'' # b)"
      using Some True ab(1) by simp_all
    show ?thesis
    proof
      assume "parse_basic_header decode h = Inr hdr"
      with out have "hdr = Basic a b" by simp
      with dec ab(2,3) show "\<exists>u p. hdr = Basic u p \<and> decode h = Some (u @ CHR '':'' # p) \<and>
        utf8_valid (u @ CHR '':'' # p) \<and> CHR '':'' \<notin> set u \<and> CHR '':'' \<notin> set p" by blast
    next
      assume "\<exists>u p. hdr = Basic u p \<and> decode h = Some (u @ CHR '':'' # p) \<and>
        utf8_valid (u @ CHR '':'' # p) \<and> CHR '':'' \<notin> set u \<and> CHR '':'' \<notin> set p"
      then obtain u p where h: "hdr = Basic u p" "decode h = Some (u @ CHR '':'' # p)"
        "CHR '':'' \<notin> set u" "CHR '':'' \<notin> set p" by blast
      from h(2) Some have "d = u @ CHR '':'' # p" by (metis option.inject)
      from uniq [OF this h(3,4)] h(1) out show "parse_basic_header decode h = Inr hdr" by simp
    qed
  next
    case False
    then have "\<exists>e. parse_basic_header decode h = Inl e"
      using Some by (auto simp: parse_basic_header_def Let_def)
    then obtain e where "parse_basic_header decode h = Inl e" by blast
    moreover have "utf8_valid d \<Longrightarrow> \<not> (\<exists>u p. d = u @ CHR '':'' # p \<and> CHR '':'' \<notin> set u \<and> CHR '':'' \<notin> set p)"
      using False split_on_two [of "CHR '':''" d] by blast
    ultimately show ?thesis unfolding Some option.inject by (metis Inl_Inr_False)
  qed
qed

text \<open>
  Which basic credentials are accepted: exactly the texts that decode to UTF-8 with one single
  colon, and then the user name is what stands before it and the password what stands behind it.
  So a password that contains a colon, which RFC 7617 allows, is never accepted: the request fails
  as malformed whatever the stored password is.
\<close>

theorem basic_credentials_exact:
  "(header_try_from decode (''Basic '' @ h) = Inr (Basic u p) \<longleftrightarrow>
      trim_start h \<noteq> [] \<and> decode (trim_start h) = Some (u @ CHR '':'' # p) \<and>
      utf8_valid (u @ CHR '':'' # p) \<and> CHR '':'' \<notin> set u \<and> CHR '':'' \<notin> set p) \<and>
   (decode (trim_start h) = Some (u @ CHR '':'' # p) \<and> CHR '':'' \<in> set p \<longrightarrow>
      (\<exists>e. header_try_from decode (''Basic '' @ h) = Inl e))"
proof -
  have sp: "split_once '' '' (''Basic '' @ h) = Some (''Basic'', h)"
    by (simp add: split_once_char)
  have low: "to_lower ''Basic'' = ''basic''" by code_simp
  have hd: "header_try_from decode (''Basic '' @ h) =
      (if trim_start h = [] then Inl InvalidFormat else parse_basic_header decode (trim_start h))"
    unfolding header_try_from_def sp by (simp add: low Let_def)
  have colon: "\<exists>e. header_try_from decode (''Basic '' @ h) = Inl e"
    if "decode (trim_start h) = Some (u @ CHR '':'' # p)" "CHR '':'' \<in> set p"
  proof -
    have "\<not> length (split_on (CHR '':'') (u @ CHR '':'' # p)) = 2"
    proof
      assume "length (split_on (CHR '':'') (u @ CHR '':'' # p)) = 2"
      then obtain a b where ab: "u @ CHR '':'' # p = a @ CHR '':'' # b" "CHR '':'' \<notin> set a" "CHR '':'' \<notin> set b"
        using split_on_two by metis
      then have "count_list (u @ CHR '':'' # p) (CHR '':'') = 1" by (simp add: count_list_0_iff)
      moreover have "count_list p (CHR '':'') > 0" using that(2) by (metis count_list_0_iff gr0I)
      ultimately show False by simp
    qed
    with that(1) show ?thesis unfolding hd by (auto simp: parse_basic_header_def Let_def)
  qed
  have acc: "header_try_from decode (''Basic '' @ h) = Inr (Basic u p) \<longleftrightarrow>
      trim_start h \<noteq> [] \<and> decode (trim_start h) = Some (u @ CHR '':'' # p) \<and>
      utf8_valid (u @ CHR '':'' # p) \<and> CHR '':'' \<notin> set u \<and> CHR '':'' \<notin> set p"
    unfolding hd by (auto simp: parse_basic_iff)
  show ?thesis using colon acc by blast
qed

theorem basic_credentials_exact_witness:
  "\<exists>e. header_try_from (\<lambda>x. Some ''alice:pass:word'') (''Basic '' @ ''YWxpY2U='') = Inl e"
proof -
  have "(\<lambda>x. Some ''alice:pass:word'') (trim_start ''YWxpY2U='') = Some (''alice'' @ CHR '':'' # ''pass:word'')"
    by simp
  moreover have "CHR '':'' \<in> set ''pass:word''" by simp
  ultimately show ?thesis
    using basic_credentials_exact [of "\<lambda>x. Some ''alice:pass:word''" "''YWxpY2U=''" "''alice''" "''pass:word''"]
    by blast
qed

section \<open>Whom the API accepts\<close>

lemma reads_get_by_token:
  "reads (get_by_token hash token)
     (\<lambda>s. find (\<lambda>t. t_token t = hash token \<and> token_live (now s) t) (tokens s))"
  unfolding get_by_token_def by (rule reads_select) (simp add: stable_def)

lemma or_unauthorized_Inr: "or_unauthorized x s = (Inr a, t) \<longleftrightarrow> x = Some a \<and> t = s"
  by (auto simp: or_unauthorized_def ret_def fail_def split: option.splits)

lemma live_not_expired: "token_live n t \<Longrightarrow> \<not> expired_at n t"
  by (auto simp: token_live_def expired_at_def split: option.splits)

lemma user_of_session_Inr:
  assumes "user_of_session session s = (Inr u, t)"
  shows "\<exists>w. find_user (users s) (s_user_id session) = Some w \<and> u = user_safe_from w \<and> (\<exists>bs. t = s\<lparr>faults := bs\<rparr>)"
proof -
  from assms have g: "get_safe_by_id (s_user_id session) s = (Inr (Some u), t)"
    by (auto simp: user_of_session_def bind_ok_Inr_iff map_err_Inr or_unauthorized_Inr)
  have "map_option user_safe_from (find_user (users s) (s_user_id session)) = Some u"
    using readsD(2) [OF reads_get_safe_by_id g, of "Some u"] by simp
  then show ?thesis using readsD(1) [OF reads_get_safe_by_id g] by auto
qed

lemma get_user_and_auth_token_Inr:
  assumes "get_user_and_auth_token hash token s = (Inr (u, row), t)"
  shows "row \<in> set (tokens s) \<and> t_token row = hash token \<and> token_live (now s) row \<and>
     us_active u \<and> map_option user_safe_from (find_user (users s) (t_user_id row)) = Some u \<and>
     (\<exists>bs. t = s\<lparr>faults := bs\<rparr>)"
proof -
  from assms obtain s1
    where a: "get_by_token hash token s = (Inr (Some row), s1)"
      and b: "get_safe_by_id (t_user_id row) s1 = (Inr (Some u), t)" and act: "us_active u"
    by (auto simp: get_user_and_auth_token_def bind_ok_Inr_iff map_err_Inr or_unauthorized_Inr
        ret_def fail_def split: if_splits)
  obtain bs where s1: "s1 = s\<lparr>faults := bs\<rparr>" using readsD(1) [OF reads_get_by_token a] by blast
  have "Some row = find (\<lambda>t. t_token t = hash token \<and> token_live (now s) t) (tokens s)"
    using readsD(2) [OF reads_get_by_token a] by simp
  then have "row \<in> set (tokens s) \<and> t_token row = hash token \<and> token_live (now s) row"
    by (metis (mono_tags, lifting) find_Some_iff nth_mem)
  moreover have "Some u = map_option user_safe_from (find_user (users s) (t_user_id row))"
    using readsD(2) [OF reads_get_safe_by_id b, of "Some u"] s1 by simp
  moreover obtain bs' where "t = s1\<lparr>faults := bs'\<rparr>" using readsD(1) [OF reads_get_safe_by_id b] by blast
  ultimately show ?thesis using act s1 by auto
qed


definition sample_live_db :: token_db where
  "sample_live_db = sample_token_db\<lparr>now := 20\<rparr>"


end
