(* ===== verification/UserAdmin.thy ===== *)
theory UserAdmin
  imports Authn
begin

text \<open>
  User management (pkgly/src/app/api/user_management.rs and
  crates/core/src/database/entities/user/user_utils.rs): the handlers by which a manager lists,
  creates, changes, deactivates and deletes users. The state is the pair of the database and the
  session store; a handler answers with a response or with an internal error (status 500).
  Encrypting a password (third-party code) is the parameter \<open>encrypt\<close>.
\<close>

datatype response =
    MissingPermission
  | NotFound
  | BadRequest
  | Conflict string
  | OkUsers "user_safe list"
  | OkUser user_safe
  | OkFull full_user_permissions
  | OkCreated user
  | NoContent

datatype internal_error = DbError sqlx_error | SessionStoreError session_error

type_synonym site_state = "token_db \<times> session_manager"
type_synonym 'a handler = "(site_state, internal_error, 'a) stm"

definition on_db :: "(token_db, sqlx_error, 'a) stm \<Rightarrow> 'a handler" where
  "on_db m st =
     (case m (fst st) of (Inl e, db) \<Rightarrow> (Inl (DbError e), (db, snd st))
      | (Inr a, db) \<Rightarrow> (Inr a, (db, snd st)))"

definition on_sessions :: "(session_manager, session_error, 'a) stm \<Rightarrow> 'a handler" where
  "on_sessions m st =
     (case m (snd st) of (Inl e, mgr) \<Rightarrow> (Inl (SessionStoreError e), (fst st, mgr))
      | (Inr a, mgr) \<Rightarrow> (Inr a, (fst st, mgr)))"

definition may_manage_users :: "authentication \<Rightarrow> bool" where
  "may_manage_users auth =
     is_admin_or_user_manager (Some (safe_permissions (authentication_user auth)))"

section \<open>Look-ups of \<open>user_utils\<close>\<close>

definition is_username_taken :: "string \<Rightarrow> ('z, bool) query" where
  "is_username_taken username =
     select_sql QueryFailed (\<lambda>s. list_ex (\<lambda>u. eq_ignore_case (u_username u) username) (users s))"

definition is_username_taken_by_other :: "string \<Rightarrow> rowid \<Rightarrow> ('z, bool) query" where
  "is_username_taken_by_other username user_id =
     select_sql QueryFailed
       (\<lambda>s. list_ex (\<lambda>u. eq_ignore_case (u_username u) username \<and> u_id u \<noteq> user_id) (users s))"

definition is_email_taken :: "string \<Rightarrow> ('z, bool) query" where
  "is_email_taken email = select_sql QueryFailed (\<lambda>s. list_ex (matches_email email) (users s))"

definition is_email_taken_by_other :: "string \<Rightarrow> rowid \<Rightarrow> ('z, bool) query" where
  "is_email_taken_by_other email user_id =
     select_sql QueryFailed (\<lambda>s. list_ex (\<lambda>u. matches_email email u \<and> u_id u \<noteq> user_id) (users s))"

definition does_user_exist :: "('z, bool) query" where
  "does_user_exist = select_sql QueryFailed (\<lambda>s. list_ex u_active (users s))"

section \<open>Handlers\<close>

definition list_users :: "authentication \<Rightarrow> response handler" where
  "list_users auth =
     (if \<not> may_manage_users auth then ret MissingPermission
      else bind_ok (on_db (select_sql QueryFailed (\<lambda>s. map user_safe_from (users s)))) (\<lambda>users.
             ret (OkUsers users)))"

definition get_user :: "authentication \<Rightarrow> rowid \<Rightarrow> response handler" where
  "get_user auth user_id =
     (if \<not> may_manage_users auth then ret MissingPermission
      else bind_ok (on_db (get_safe_by_id user_id)) (\<lambda>user.
             case user of None \<Rightarrow> ret NotFound | Some user \<Rightarrow> ret (OkUser user)))"

definition get_user_permissions :: "authentication \<Rightarrow> rowid \<Rightarrow> response handler" where
  "get_user_permissions auth user_id =
     (if \<not> may_manage_users auth then ret MissingPermission
      else bind_ok (on_db (full_permissions_by_id user_id)) (\<lambda>user.
             case user of None \<Rightarrow> ret NotFound | Some user \<Rightarrow> ret (OkFull user)))"

definition create_user ::
  "(string \<Rightarrow> string option) \<Rightarrow> authentication \<Rightarrow> new_user_request \<Rightarrow> response handler" where
  "create_user encrypt auth user =
     (if \<not> may_manage_users auth then ret MissingPermission
      else bind_ok (on_db (is_username_taken (nu_username user))) (\<lambda>taken.
        if taken then ret (Conflict ''username'')
        else bind_ok (case nu_email user of
                        None \<Rightarrow> ret False
                      | Some email \<Rightarrow> on_db (is_email_taken email)) (\<lambda>taken.
          if taken then ret (Conflict ''email'')
          else case nu_password user of
                 Some raw_password \<Rightarrow>
                   (case encrypt raw_password of
                      None \<Rightarrow> ret BadRequest
                    | Some encrypted \<Rightarrow>
                        bind_ok (on_db (insert_user (user\<lparr>nu_password := Some encrypted\<rparr>)))
                          (\<lambda>row. ret (OkCreated row)))
               | None \<Rightarrow> bind_ok (on_db (insert_user user)) (\<lambda>row. ret (OkCreated row)))))"

datatype is_taken_request = TakenUsername string | TakenEmail string

definition is_taken :: "authentication \<Rightarrow> is_taken_request \<Rightarrow> response handler" where
  "is_taken auth req =
     (if \<not> may_manage_users auth then ret MissingPermission
      else case req of
             TakenUsername username \<Rightarrow>
               (case username_new username of
                  Inl _ \<Rightarrow> ret BadRequest
                | Inr _ \<Rightarrow>
                    bind_ok (on_db (is_username_taken username)) (\<lambda>taken.
                      ret (if taken then Conflict ''username'' else NoContent)))
           | TakenEmail email \<Rightarrow>
               (case email_new email of
                  Inl _ \<Rightarrow> ret BadRequest
                | Inr _ \<Rightarrow>
                    bind_ok (on_db (is_email_taken email)) (\<lambda>taken.
                      ret (if taken then Conflict ''email'' else NoContent))))"

record update_user_request =
  uu_name :: "string option"
  uu_username :: "string option"
  uu_email :: "string option"

text \<open>The two optional values of the request: \<open>None\<close> leaves the column alone, an e-mail address of
  white space clears it.\<close>

definition requested_username :: "string option \<Rightarrow> invalid_name + string option" where
  "requested_username u =
     (case u of None \<Rightarrow> Inr None
      | Some username \<Rightarrow>
          (case username_new username of Inl e \<Rightarrow> Inl e | Inr value \<Rightarrow> Inr (Some value)))"

definition requested_email :: "string option \<Rightarrow> invalid_email + string option option" where
  "requested_email m =
     (case m of
        None \<Rightarrow> Inr None
      | Some email \<Rightarrow>
          if trim email = [] then Inr (Some None)
          else case email_new email of Inl e \<Rightarrow> Inl e | Inr value \<Rightarrow> Inr (Some (Some value)))"

definition update_user :: "authentication \<Rightarrow> rowid \<Rightarrow> update_user_request \<Rightarrow> response handler" where
  "update_user auth user_id update =
     (if \<not> may_manage_users auth then ret MissingPermission
      else bind_ok (on_db (get_safe_by_id user_id)) (\<lambda>found.
        case found of
          None \<Rightarrow> ret NotFound
        | Some user \<Rightarrow>
            let new_name = (case uu_name update of Some n \<Rightarrow> n | None \<Rightarrow> us_name user)
            in (case requested_username (uu_username update) of
                  Inl _ \<Rightarrow> ret BadRequest
                | Inr new_username \<Rightarrow>
                    (case requested_email (uu_email update) of
                       Inl _ \<Rightarrow> ret BadRequest
                     | Inr new_email \<Rightarrow>
                         let target_username =
                           (case new_username of Some n \<Rightarrow> n | None \<Rightarrow> us_username user)
                         in bind_ok (if target_username \<noteq> us_username user
                                     then on_db (is_username_taken_by_other target_username user_id)
                                     else ret False) (\<lambda>taken.
                            if taken then ret (Conflict ''username'')
                            else bind_ok (case new_email of
                                            Some (Some email) \<Rightarrow>
                                              if Some email \<noteq> us_email user
                                              then on_db (is_email_taken_by_other email user_id)
                                              else ret False
                                          | _ \<Rightarrow> ret False) (\<lambda>taken.
                              if taken then ret (Conflict ''email'')
                              else bind_ok (case new_email of
                                              Some target_email \<Rightarrow>
                                                if target_email \<noteq> us_email user
                                                then on_db (update_email_address (us_id user) target_email)
                                                else ret ()
                                            | None \<Rightarrow> ret ()) (\<lambda>_.
                                bind_ok (if new_name \<noteq> us_name user
                                         then on_db (update_name (us_id user) new_name) else ret ()) (\<lambda>_.
                                  bind_ok (if target_username \<noteq> us_username user
                                           then on_db (update_username (us_id user) target_username)
                                           else ret ()) (\<lambda>_.
                                    bind_ok (on_db (get_safe_by_id user_id)) (\<lambda>updated.
                                      case updated of
                                        None \<Rightarrow> ret NotFound
                                      | Some updated_user \<Rightarrow> ret (OkUser updated_user)))))))))))"

definition update_permissions_handler ::
  "authentication \<Rightarrow> rowid \<Rightarrow> update_request \<Rightarrow> response handler" where
  "update_permissions_handler auth user_id permissions =
     (if \<not> may_manage_users auth then ret MissingPermission
      else bind_ok (on_db (get_safe_by_id user_id)) (\<lambda>found.
        case found of
          None \<Rightarrow> ret NotFound
        | Some user \<Rightarrow>
            bind_ok (on_db (update_permissions permissions (us_id user))) (\<lambda>_. ret NoContent)))"

definition update_password_handler ::
  "(string \<Rightarrow> string option) \<Rightarrow> authentication \<Rightarrow> rowid \<Rightarrow> string \<Rightarrow> response handler" where
  "update_password_handler encrypt auth user_id password =
     (if \<not> may_manage_users auth then ret MissingPermission
      else bind_ok (on_db (get_safe_by_id user_id)) (\<lambda>found.
        case found of
          None \<Rightarrow> ret NotFound
        | Some user \<Rightarrow>
            (case encrypt password of
               None \<Rightarrow> ret BadRequest
             | Some encrypted_password \<Rightarrow>
                 bind_ok (on_db (update_password (us_id user) (Some encrypted_password)))
                   (\<lambda>_. ret NoContent))))"

text \<open>\<open>SELECT COUNT(*) FROM users WHERE admin = TRUE AND active = TRUE AND id <> $1\<close>.\<close>

definition remaining_admins :: "rowid \<Rightarrow> ('z, nat) query" where
  "remaining_admins i =
     select_sql QueryFailed
       (\<lambda>s. length (filter (\<lambda>u. u_admin u \<and> u_active u \<and> u_id u \<noteq> i) (users s)))"

definition set_active :: "rowid \<Rightarrow> bool \<Rightarrow> ('z, unit) query" where
  "set_active i active =
     update_sql QueryFailed
       (\<lambda>s. s\<lparr>users := update_user_row i (\<lambda>u. u\<lparr>u_active := active\<rparr>) (users s)\<rparr>)"

definition update_user_status ::
  "(string \<Rightarrow> instant option) \<Rightarrow> authentication \<Rightarrow> rowid \<Rightarrow> bool \<Rightarrow> response handler" where
  "update_user_status parse auth user_id active =
     (if \<not> may_manage_users auth then ret MissingPermission
      else bind_ok (on_db (get_safe_by_id user_id)) (\<lambda>found.
        case found of
          None \<Rightarrow> ret NotFound
        | Some user \<Rightarrow>
            bind_ok (if \<not> active \<and> us_admin user
                     then bind_ok (on_db (remaining_admins (us_id user))) (\<lambda>n. ret (n = 0))
                     else ret False) (\<lambda>last.
              if last then ret (Conflict ''Cannot deactivate the last active administrator'')
              else bind_ok (on_db (set_active (us_id user) active)) (\<lambda>_.
                bind_ok (if \<not> active
                         then bind_ok (on_sessions (delete_sessions_for_user parse (us_id user))) (\<lambda>_. ret ())
                         else ret ()) (\<lambda>_.
                  ret (OkUser (user\<lparr>us_active := active\<rparr>)))))))"

text \<open>\<open>DELETE FROM users\<close>: the permissions and the tokens of the user, with their scopes, go by
  \<open>ON DELETE CASCADE\<close>.\<close>

definition delete_user_row :: "rowid \<Rightarrow> ('z, unit) token_query" where
  "delete_user_row i =
     update_sql QueryFailed
       (\<lambda>s. (remove_tokens (\<lambda>t. t_user_id t = i) s)
          \<lparr>users := filter (\<lambda>u. u_id u \<noteq> i) (users s),
           repo_permissions := filter (\<lambda>p. p_user_id p \<noteq> i) (repo_permissions s)\<rparr>)"

definition delete_user ::
  "(string \<Rightarrow> instant option) \<Rightarrow> authentication \<Rightarrow> rowid \<Rightarrow> response handler" where
  "delete_user parse auth user_id =
     (if \<not> may_manage_users auth then ret MissingPermission
      else bind_ok (on_db (get_safe_by_id user_id)) (\<lambda>found.
        case found of
          None \<Rightarrow> ret NotFound
        | Some user \<Rightarrow>
            bind_ok (if us_admin user
                     then bind_ok (on_db (remaining_admins (us_id user))) (\<lambda>n. ret (n = 0))
                     else ret False) (\<lambda>last.
              if last then ret (Conflict ''Cannot delete the last active administrator'')
              else bind_ok (on_sessions (delete_sessions_for_user parse (us_id user))) (\<lambda>_.
                bind_ok (on_db (delete_user_row (us_id user))) (\<lambda>_. ret NoContent)))))"

section \<open>Reasoning about handlers\<close>

text \<open>\<open>keeps I m\<close>: whatever statements fail, the handler leads from states with \<open>I\<close> to states with
  \<open>I\<close>.\<close>

definition keeps :: "(site_state \<Rightarrow> bool) \<Rightarrow> 'a handler \<Rightarrow> bool" where
  "keeps I m = (\<forall>st. I st \<longrightarrow> I (snd (m st)))"

lemma keepsD: "keeps I m \<Longrightarrow> I st \<Longrightarrow> I (snd (m st))"
  unfolding keeps_def by blast

lemma keeps_ret: "keeps I (ret a)"
  by (simp add: keeps_def ret_def)

lemma keeps_bind:
  assumes "keeps I m" and "\<And>a. keeps I (k a)"
  shows "keeps I (bind_ok m k)"
  unfolding keeps_def
proof (intro allI impI)
  fix st assume I: "I st"
  obtain r st1 where m: "m st = (r, st1)" by (rule prod.exhaust)
  have "I st1" using assms(1) I m unfolding keeps_def by (metis snd_conv)
  show "I (snd (bind_ok m k st))"
  proof (cases r)
    case (Inl e)
    with m \<open>I st1\<close> show ?thesis by simp
  next
    case (Inr b)
    have "I (snd (k b st1))" using assms(2) [unfolded keeps_def] \<open>I st1\<close> by blast
    with m Inr show ?thesis by simp
  qed
qed

lemma keeps_if: "keeps I m \<Longrightarrow> keeps I n \<Longrightarrow> keeps I (if b then m else n)"
  by simp

lemma keeps_option:
  "keeps I m \<Longrightarrow> (\<And>a. keeps I (n a)) \<Longrightarrow> keeps I (case x of None \<Rightarrow> m | Some a \<Rightarrow> n a)"
  by (cases x) auto

lemma keeps_sum:
  "(\<And>a. keeps I (m a)) \<Longrightarrow> (\<And>a. keeps I (n a)) \<Longrightarrow> keeps I (case x of Inl a \<Rightarrow> m a | Inr a \<Rightarrow> n a)"
  by (cases x) auto

lemma keeps_on_db:
  assumes "\<And>s r t. m s = (r, t) \<Longrightarrow> P s \<Longrightarrow> P t"
  shows "keeps (\<lambda>st. P (fst st)) (on_db m)"
  unfolding keeps_def
proof (intro allI impI)
  fix st :: site_state assume "P (fst st)"
  moreover obtain r t where "m (fst st) = (r, t)" by fastforce
  ultimately show "P (fst (snd (on_db m st)))"
    using assms by (cases r) (auto simp: on_db_def)
qed

lemma keeps_on_sessions: "keeps (\<lambda>st. P (fst st)) (on_sessions m)"
  by (auto simp: keeps_def on_sessions_def split: prod.splits sum.splits)

lemmas keeps_rules = keeps_ret keeps_bind keeps_if keeps_option keeps_sum keeps_on_sessions

lemma on_db_reads:
  assumes "reads m g" and "on_db m st = (r, st')"
  shows "snd st' = snd st \<and> (\<exists>bs. fst st' = (fst st)\<lparr>faults := bs\<rparr>) \<and> (\<forall>a. r = Inr a \<longrightarrow> a = g (fst st))"
proof -
  obtain x t where m: "m (fst st) = (x, t)" by fastforce
  from readsD(1) [OF assms(1) m] obtain bs where "t = (fst st)\<lparr>faults := bs\<rparr>" by blast
  moreover have "x = Inr a \<Longrightarrow> a = g (fst st)" for a by (rule readsD(2) [OF assms(1) m])
  ultimately show ?thesis using assms(2) m by (cases x) (auto simp: on_db_def)
qed

lemma reads_select_user_db:
  assumes "\<And>s bs. g (s\<lparr>faults := bs\<rparr>) = g s"
  shows "reads (select_sql e g) g"
  by (rule reads_select) (use assms in \<open>simp add: stable_def\<close>)

lemma keeps_reads:
  assumes "reads m g" and "\<And>s bs. P (s\<lparr>faults := bs\<rparr>) = P s"
  shows "keeps (\<lambda>st. P (fst st)) (on_db m)"
proof (rule keeps_on_db)
  fix s r t assume "m s = (r, t)" "P s"
  with readsD(1) [OF assms(1)] assms(2) show "P t" by metis
qed

section \<open>The last administrator\<close>

definition active_admin :: "'z user_db_scheme \<Rightarrow> bool" where
  "active_admin s = list_ex (\<lambda>u. u_admin u \<and> u_active u) (users s)"

definition managed :: "'z user_db_scheme \<Rightarrow> bool" where
  "managed s = (wf_users s \<and> active_admin s)"

lemma managed_faults [simp]: "managed (s\<lparr>faults := bs\<rparr>) = managed s"
  by (simp add: managed_def active_admin_def)

lemma active_admin_update:
  assumes "\<And>u. u_admin (f u) = u_admin u" and "\<And>u. u_active (f u) = u_active u"
  shows "active_admin (s\<lparr>users := update_user_row i f (users s)\<rparr>) = active_admin s"
proof -
  have "list_ex (\<lambda>u. u_admin u \<and> u_active u) (update_user_row i f rows) =
      list_ex (\<lambda>u. u_admin u \<and> u_active u) rows" for rows
    using assms by (induction rows) (auto simp: update_user_row_def)
  then show ?thesis by (simp add: active_admin_def)
qed

lemma active_admin_faults [simp]: "active_admin (s\<lparr>faults := bs\<rparr>) = active_admin s"
  by (simp add: active_admin_def)

lemma insert_user_managed: "insert_user r s = (x, t) \<Longrightarrow> managed s \<Longrightarrow> managed t"
proof -
  assume h: "insert_user r s = (x, t)" and m: "managed s"
  have "active_admin t"
    by (rule try_sql_keeps [where I = active_admin, OF h [unfolded insert_user_def insert_user_row_def]])
      (use m in \<open>auto simp: managed_def active_admin_def Let_def split: if_splits\<close>)
  moreover have "wf_users t" using h m insert_user_row_wf by (auto simp: managed_def insert_user_def)
  ultimately show ?thesis by (simp add: managed_def)
qed

lemma update_sql_managed:
  assumes "update_sql e (\<lambda>s. s\<lparr>users := update_user_row i (f s) (users s)\<rparr>) s = (r, t)" and "managed s"
    and "\<And>s u. u_id (f s u) = u_id u" "\<And>s u. u_username (f s u) = u_username u" "\<And>s u. u_email (f s u) = u_email u"
    and "\<And>s u. u_admin (f s u) = u_admin u" and "\<And>s u. u_active (f s u) = u_active u"
  shows "managed t"
  by (rule update_sql_keeps [where I = managed, OF assms(1,2)])
    (use assms in \<open>auto simp: managed_def active_admin_update intro: update_row_wf\<close>)

lemma update_password_managed: "update_password i pw s = (r, t) \<Longrightarrow> managed s \<Longrightarrow> managed t"
  unfolding update_password_def by (erule update_sql_managed) simp_all

lemma update_name_managed: "update_name i n s = (r, t) \<Longrightarrow> managed s \<Longrightarrow> managed t"
  unfolding update_name_def by (erule update_sql_managed) simp_all

lemma update_username_managed: "update_username i n s = (r, t) \<Longrightarrow> managed s \<Longrightarrow> managed t"
proof -
  assume h: "update_username i n s = (r, t)" and m: "managed s"
  have "active_admin t"
    by (rule try_sql_keeps [where I = active_admin, OF h [unfolded update_username_def]])
      (use m in \<open>auto simp: managed_def active_admin_update split: if_splits\<close>)
  with h m update_username_wf show ?thesis by (auto simp: managed_def)
qed

lemma update_email_managed: "update_email_address i n s = (r, t) \<Longrightarrow> managed s \<Longrightarrow> managed t"
proof -
  assume h: "update_email_address i n s = (r, t)" and m: "managed s"
  have "active_admin t"
    by (rule try_sql_keeps [where I = active_admin, OF h [unfolded update_email_address_def]])
      (use m in \<open>auto simp: managed_def active_admin_update Let_def split: if_splits option.splits\<close>)
  with h m update_email_wf show ?thesis by (auto simp: managed_def)
qed

text \<open>The look-ups of the handlers read only.\<close>

lemma reads_lookups:
  "reads (get_safe_by_id i :: (token_db, sqlx_error, _) stm) (\<lambda>s. map_option user_safe_from (find_user (users s) i))"
  "reads (is_username_taken n :: (token_db, sqlx_error, _) stm) (\<lambda>s. list_ex (\<lambda>u. eq_ignore_case (u_username u) n) (users s))"
  "reads (is_username_taken_by_other n i :: (token_db, sqlx_error, _) stm)
     (\<lambda>s. list_ex (\<lambda>u. eq_ignore_case (u_username u) n \<and> u_id u \<noteq> i) (users s))"
  "reads (is_email_taken m :: (token_db, sqlx_error, _) stm) (\<lambda>s. list_ex (matches_email m) (users s))"
  "reads (is_email_taken_by_other m i :: (token_db, sqlx_error, _) stm)
     (\<lambda>s. list_ex (\<lambda>u. matches_email m u \<and> u_id u \<noteq> i) (users s))"
  "reads (remaining_admins i :: (token_db, sqlx_error, _) stm)
     (\<lambda>s. length (filter (\<lambda>u. u_admin u \<and> u_active u \<and> u_id u \<noteq> i) (users s)))"
  unfolding get_safe_by_id_def is_username_taken_def is_username_taken_by_other_def is_email_taken_def
    is_email_taken_by_other_def remaining_admins_def
  by (rule reads_select, simp add: stable_def)+

abbreviation managed_state :: "site_state \<Rightarrow> bool" where
  "managed_state st \<equiv> managed (fst st)"

lemmas keeps_lookups = reads_lookups [THEN keeps_reads [where P = managed, OF _ managed_faults]]

lemma keeps_writes:
  "keeps managed_state (on_db (insert_user r))" "keeps managed_state (on_db (update_password i pw))"
  "keeps managed_state (on_db (update_name i n))" "keeps managed_state (on_db (update_username i n))"
  "keeps managed_state (on_db (update_email_address i m))"
  by (rule keeps_on_db, fact insert_user_managed update_password_managed update_name_managed
      update_username_managed update_email_managed)+

lemma create_user_managed: "keeps managed_state (create_user encrypt auth req)"
  unfolding create_user_def
  by (intro keeps_rules keeps_lookups keeps_writes)

lemma update_user_managed: "keeps managed_state (update_user auth i req)"
  unfolding update_user_def Let_def
  by (intro keeps_rules keeps_lookups keeps_writes)

lemma update_password_handler_managed: "keeps managed_state (update_password_handler encrypt auth i pw)"
  unfolding update_password_handler_def
  by (intro keeps_rules keeps_lookups keeps_writes)

lemma set_active_managed:
  assumes "managed s" and "\<not> active \<Longrightarrow> \<exists>u \<in> set (users s). u_admin u \<and> u_active u \<and> u_id u \<noteq> i"
  shows "managed (s\<lparr>users := update_user_row i (\<lambda>u. u\<lparr>u_active := active\<rparr>) (users s)\<rparr>)"
proof -
  have "active_admin (s\<lparr>users := update_user_row i (\<lambda>u. u\<lparr>u_active := active\<rparr>) (users s)\<rparr>)"
  proof (cases active)
    case True
    have "list_ex (\<lambda>u. u_admin u \<and> u_active u) rows \<Longrightarrow>
       list_ex (\<lambda>u. u_admin u \<and> u_active u) (update_user_row i (\<lambda>u. u\<lparr>u_active := True\<rparr>) rows)" for rows
      by (induction rows) (auto simp: update_user_row_def)
    with assms(1) True show ?thesis by (simp add: managed_def active_admin_def)
  next
    case False
    with assms(2) obtain u where u: "u \<in> set (users s)" "u_admin u" "u_active u" "u_id u \<noteq> i" by blast
    then have "u \<in> set (update_user_row i (\<lambda>u. u\<lparr>u_active := active\<rparr>) (users s))"
      by (force simp: update_user_row_def image_iff)
    with u show ?thesis by (auto simp: active_admin_def list_ex_iff)
  qed
  moreover have "wf_users (s\<lparr>users := update_user_row i (\<lambda>u. u\<lparr>u_active := active\<rparr>) (users s)\<rparr>)"
    by (rule update_row_wf) (use assms(1) in \<open>auto simp: managed_def\<close>)
  ultimately show ?thesis by (simp add: managed_def)
qed

lemma emails_filter: "distinct (emails rows) \<Longrightarrow> distinct (emails (filter P rows))"
proof (induction rows)
  case (Cons u rows)
  have "set (emails (filter P rows)) \<subseteq> set (emails rows)"
    unfolding subset_iff emails_mem by (metis filter_is_subset subsetD)
  with Cons show ?case by (cases "u_email u") (auto simp: emails_Cons)
qed simp

lemma delete_user_row_managed:
  assumes "managed s" and "\<exists>u \<in> set (users s). u_admin u \<and> u_active u \<and> u_id u \<noteq> i"
  shows "managed ((remove_tokens (\<lambda>t. t_user_id t = i) s)
          \<lparr>users := filter (\<lambda>u. u_id u \<noteq> i) (users s),
           repo_permissions := filter (\<lambda>p. p_user_id p \<noteq> i) (repo_permissions s)\<rparr>)"
  using assms
  by (auto simp: managed_def active_admin_def wf_users_def remove_tokens_def Let_def list_ex_iff
      list_all_iff emails_filter distinct_map intro: inj_on_subset)

text \<open>What the guard of both handlers establishes: unless it refuses, an active administrator other
  than the user remains whenever one is needed.\<close>

lemma other_admin:
  assumes "managed s" and "find_user (users s) i = Some w"
    and "u_admin w \<Longrightarrow> length (filter (\<lambda>u. u_admin u \<and> u_active u \<and> u_id u \<noteq> i) (users s)) \<noteq> 0"
  shows "\<exists>u \<in> set (users s). u_admin u \<and> u_active u \<and> u_id u \<noteq> i"
proof (cases "u_admin w")
  case True
  with assms(3) show ?thesis by (auto simp: filter_empty_conv)
next
  case False
  obtain v where v: "v \<in> set (users s)" "u_admin v" "u_active v"
    using assms(1) by (auto simp: managed_def active_admin_def list_ex_iff)
  have w: "w \<in> set (users s)" "u_id w = i" using find_user_Some [OF assms(2)] by auto
  have "u_id v \<noteq> i"
  proof
    assume "u_id v = i"
    with v(1) w assms(1) have "v = w" by (auto simp: managed_def wf_users_def distinct_map dest: inj_onD)
    with v False show False by simp
  qed
  with v show ?thesis by blast
qed

lemma found_user:
  assumes "on_db (get_safe_by_id i) st = (Inr found, st1)"
  shows "snd st1 = snd st \<and> (\<exists>bs. fst st1 = (fst st)\<lparr>faults := bs\<rparr>) \<and>
     found = map_option user_safe_from (find_user (users (fst st)) i)"
  using on_db_reads [OF reads_lookups(1) assms] by auto

lemma guard_keeps:
  assumes "managed (fst st)"
    and found: "map_option user_safe_from (find_user (users (fst st)) i) = Some user"
    and guard: "(if c \<and> us_admin user then bind_ok (on_db (remaining_admins (us_id user))) (\<lambda>n. ret (n = 0))
                 else ret False) st = (r, st1)"
  shows "managed (fst st1)"
    and "r = Inr False \<Longrightarrow> c \<Longrightarrow> \<exists>u \<in> set (users (fst st1)). u_admin u \<and> u_active u \<and> u_id u \<noteq> i"
    and "us_id user = i"
proof -
  obtain w where w: "find_user (users (fst st)) i = Some w" and user: "user = user_safe_from w"
    using found by auto
  have id: "us_id user = i" using find_user_Some [OF w] by (simp add: user user_safe_from_def)
  then show "us_id user = i" .
  have adm: "us_admin user = u_admin w" by (simp add: user user_safe_from_def)
  obtain x st2 where m: "on_db (remaining_admins i) st = (x, st2)" by (rule prod.exhaust)
  note R = on_db_reads [OF reads_lookups(6) m]
  show "managed (fst st1)"
  proof (cases "c \<and> us_admin user")
    case True
    with guard m id have "st1 = st2" by (cases x) (auto simp: ret_def)
    with R assms(1) show ?thesis by auto
  next
    case False
    with guard assms(1) show ?thesis by (auto simp: ret_def)
  qed
  show "\<exists>u \<in> set (users (fst st1)). u_admin u \<and> u_active u \<and> u_id u \<noteq> i" if "r = Inr False" "c"
  proof (cases "us_admin user")
    case True
    with guard m id that obtain n where x: "x = Inr n" "n \<noteq> 0" and st: "st1 = st2"
      by (cases x) (auto simp: ret_def)
    have "length (filter (\<lambda>u. u_admin u \<and> u_active u \<and> u_id u \<noteq> i) (users (fst st))) \<noteq> 0"
      using R x by auto
    from other_admin [OF assms(1) w] this R st show ?thesis by auto
  next
    case False
    with guard that have "st1 = st" by (auto simp: ret_def)
    moreover have "\<exists>u \<in> set (users (fst st)). u_admin u \<and> u_active u \<and> u_id u \<noteq> i"
      by (rule other_admin [OF assms(1) w]) (use False adm in simp)
    ultimately show ?thesis by simp
  qed
qed

lemma set_active_step:
  assumes "on_db (set_active i active) st = (r, st1)" and "managed (fst st)"
    and "\<not> active \<Longrightarrow> \<exists>u \<in> set (users (fst st)). u_admin u \<and> u_active u \<and> u_id u \<noteq> i"
  shows "managed (fst st1)"
proof -
  obtain x t where m: "set_active i active (fst st) = (x, t)" by (rule prod.exhaust)
  have "(managed t \<and> (\<not> active \<longrightarrow> True))"
  proof (rule update_sql_cases [of "fst st" QueryFailed
        "\<lambda>s. s\<lparr>users := update_user_row i (\<lambda>u. u\<lparr>u_active := active\<rparr>) (users s)\<rparr>"])
    fix bs assume "update_sql QueryFailed (\<lambda>s. s\<lparr>users := update_user_row i (\<lambda>u. u\<lparr>u_active := active\<rparr>) (users s)\<rparr>) (fst st)
      = (Inl QueryFailed, (fst st)\<lparr>faults := bs\<rparr>)"
    with m assms(2) show ?thesis by (auto simp: set_active_def)
  next
    let ?s = "(fst st)\<lparr>faults := tl (faults (fst st))\<rparr>"
    assume "update_sql QueryFailed (\<lambda>s. s\<lparr>users := update_user_row i (\<lambda>u. u\<lparr>u_active := active\<rparr>) (users s)\<rparr>) (fst st)
      = (Inr (), ?s\<lparr>users := update_user_row i (\<lambda>u. u\<lparr>u_active := active\<rparr>) (users ?s)\<rparr>)"
    with m have "t = ?s\<lparr>users := update_user_row i (\<lambda>u. u\<lparr>u_active := active\<rparr>) (users ?s)\<rparr>"
      by (simp add: set_active_def)
    moreover have "managed (?s\<lparr>users := update_user_row i (\<lambda>u. u\<lparr>u_active := active\<rparr>) (users ?s)\<rparr>)"
      by (rule set_active_managed) (use assms(2,3) in simp_all)
    ultimately show ?thesis by simp
  qed
  with assms(1) m show ?thesis by (cases x) (auto simp: on_db_def)
qed

lemma delete_row_step:
  assumes "on_db (delete_user_row i) st = (r, st1)" and "managed (fst st)"
    and "\<exists>u \<in> set (users (fst st)). u_admin u \<and> u_active u \<and> u_id u \<noteq> i"
  shows "managed (fst st1)"
proof -
  let ?f = "\<lambda>s. (remove_tokens (\<lambda>t. t_user_id t = i) s)
          \<lparr>users := filter (\<lambda>u. u_id u \<noteq> i) (users s),
           repo_permissions := filter (\<lambda>p. p_user_id p \<noteq> i) (repo_permissions s)\<rparr>"
  obtain x t where m: "delete_user_row i (fst st) = (x, t)" by (rule prod.exhaust)
  have "managed t"
  proof (rule update_sql_cases [of "fst st" QueryFailed ?f])
    fix bs assume "update_sql QueryFailed ?f (fst st) = (Inl QueryFailed, (fst st)\<lparr>faults := bs\<rparr>)"
    with m assms(2) show ?thesis by (auto simp: delete_user_row_def)
  next
    let ?s = "(fst st)\<lparr>faults := tl (faults (fst st))\<rparr>"
    assume "update_sql QueryFailed ?f (fst st) = (Inr (), ?f ?s)"
    with m have "t = ?f ?s" by (simp add: delete_user_row_def)
    moreover have "managed (?f ?s)"
      by (rule delete_user_row_managed) (use assms(2,3) in simp_all)
    ultimately show ?thesis by simp
  qed
  with assms(1) m show ?thesis by (cases x) (auto simp: on_db_def)
qed

text \<open>Handlers whose steps depend on what earlier steps found: \<open>ensures P m Q\<close> leads from \<open>P\<close> to a
  managed state, and to \<open>Q\<close> of the value if there is one.\<close>

definition ensures ::
  "(site_state \<Rightarrow> bool) \<Rightarrow> 'a handler \<Rightarrow> ('a \<Rightarrow> site_state \<Rightarrow> bool) \<Rightarrow> bool" where
  "ensures P m Q =
     (\<forall>st r st'. P st \<longrightarrow> m st = (r, st') \<longrightarrow> managed_state st' \<and> (\<forall>a. r = Inr a \<longrightarrow> Q a st'))"

lemma ensures_bind:
  assumes "ensures P m Q" and "\<And>a. ensures (Q a) (k a) R"
  shows "ensures P (bind_ok m k) R"
  unfolding ensures_def
proof (intro allI impI)
  fix st r st' assume P: "P st" and run: "bind_ok m k st = (r, st')"
  obtain x st1 where m: "m st = (x, st1)" by (rule prod.exhaust)
  have one: "managed_state st1 \<and> (\<forall>a. x = Inr a \<longrightarrow> Q a st1)"
    using assms(1) P m unfolding ensures_def by blast
  show "managed_state st' \<and> (\<forall>a. r = Inr a \<longrightarrow> R a st')"
  proof (cases x)
    case (Inl e)
    with run m have "r = Inl e" "st' = st1" by auto
    with one show ?thesis by blast
  next
    case (Inr a)
    with run m have "k a st1 = (r, st')" by simp
    with assms(2) [of a] one Inr show ?thesis unfolding ensures_def by blast
  qed
qed

lemma ensures_ret: "(\<And>st. P st \<Longrightarrow> managed_state st \<and> Q a st) \<Longrightarrow> ensures P (ret a) Q"
  unfolding ensures_def ret_def by (metis prod.inject sum.inject(2))

lemma ensures_if:
  "(b \<Longrightarrow> ensures P m Q) \<Longrightarrow> (\<not> b \<Longrightarrow> ensures P n Q) \<Longrightarrow> ensures P (if b then m else n) Q"
  by simp

lemma ensures_option:
  "(x = None \<Longrightarrow> ensures P m Q) \<Longrightarrow> (\<And>a. x = Some a \<Longrightarrow> ensures P (n a) Q) \<Longrightarrow>
     ensures P (case x of None \<Rightarrow> m | Some a \<Rightarrow> n a) Q"
  by (cases x) auto

lemma ensures_keeps: "keeps managed_state m \<Longrightarrow> (\<And>st. P st \<Longrightarrow> managed_state st) \<Longrightarrow> ensures P m (\<lambda>_. managed_state)"
  unfolding ensures_def keeps_def by (metis snd_conv)

lemma keeps_ensures: "ensures managed_state m (\<lambda>_ _. True) \<Longrightarrow> keeps managed_state m"
  unfolding ensures_def keeps_def by (metis prod.collapse)

lemma ensures_found:
  "ensures managed_state (on_db (get_safe_by_id i))
     (\<lambda>found st. managed_state st \<and> found = map_option user_safe_from (find_user (users (fst st)) i))"
  unfolding ensures_def
proof (intro allI impI)
  fix st r st' assume m: "managed_state st" and g: "on_db (get_safe_by_id i) st = (r, st')"
  from on_db_reads [OF reads_lookups(1) g] obtain bs where f: "fst st' = (fst st)\<lparr>faults := bs\<rparr>"
    and v: "\<forall>a. r = Inr a \<longrightarrow> a = map_option user_safe_from (find_user (users (fst st)) i)" by blast
  have mm: "managed_state st'" unfolding f using m by simp
  have us: "users (fst st') = users (fst st)" unfolding f by simp
  show "managed_state st' \<and> (\<forall>a. r = Inr a \<longrightarrow> managed_state st' \<and>
      a = map_option user_safe_from (find_user (users (fst st')) i))"
    unfolding us using mm v by blast
qed

lemma ensures_guard:
  "ensures (\<lambda>st. managed_state st \<and> Some user = map_option user_safe_from (find_user (users (fst st)) i))
     (if c \<and> us_admin user then bind_ok (on_db (remaining_admins (us_id user))) (\<lambda>n. ret (n = 0))
      else ret False)
     (\<lambda>last st. managed_state st \<and> us_id user = i \<and>
        (\<not> last \<longrightarrow> c \<longrightarrow> (\<exists>u \<in> set (users (fst st)). u_admin u \<and> u_active u \<and> u_id u \<noteq> i)))"
  unfolding ensures_def
proof (intro allI impI, elim conjE)
  fix st r st'
  assume m: "managed_state st" and f: "Some user = map_option user_safe_from (find_user (users (fst st)) i)"
    and g: "(if c \<and> us_admin user then bind_ok (on_db (remaining_admins (us_id user))) (\<lambda>n. ret (n = 0))
      else ret False) st = (r, st')"
  note G = guard_keeps [OF m f [symmetric] g]
  show "managed_state st' \<and> (\<forall>a. r = Inr a \<longrightarrow> managed_state st' \<and> us_id user = i \<and>
        (\<not> a \<longrightarrow> c \<longrightarrow> (\<exists>u \<in> set (users (fst st')). u_admin u \<and> u_active u \<and> u_id u \<noteq> i)))"
    using G by blast
qed

lemma ensures_sessions: "(\<And>st. P st \<Longrightarrow> managed_state st) \<Longrightarrow> (\<And>st st'. fst st' = fst st \<Longrightarrow> P st \<Longrightarrow> Q st') \<Longrightarrow>
    ensures P (on_sessions m) (\<lambda>_. Q)"
  unfolding ensures_def on_sessions_def
  by (auto split: prod.splits sum.splits)

lemma ensures_imp_pre: "ensures P m Q \<Longrightarrow> (\<And>st. P' st \<Longrightarrow> P st) \<Longrightarrow> ensures P' m Q"
  unfolding ensures_def by blast

lemma update_user_status_managed: "keeps managed_state (update_user_status parse auth i active)"
proof -
  have act: "ensures (\<lambda>st. managed_state st \<and> us_id user = i \<and> (\<not> active \<longrightarrow>
        (\<exists>u \<in> set (users (fst st)). u_admin u \<and> u_active u \<and> u_id u \<noteq> i)))
      (on_db (set_active (us_id user) active)) (\<lambda>_. managed_state)" for user
    unfolding ensures_def using set_active_step [of i active] by (metis (no_types, lifting))
  have sess: "ensures managed_state (if \<not> active
       then bind_ok (on_sessions (delete_sessions_for_user parse (us_id user))) (\<lambda>_. ret ())
       else ret ()) (\<lambda>_. managed_state)" for user
    by (rule ensures_if; (rule ensures_bind [where Q = "\<lambda>_. managed_state", OF ensures_sessions ensures_ret] ensures_ret); blast?; simp)
  have body: "ensures (\<lambda>st. managed_state st \<and> Some user = map_option user_safe_from (find_user (users (fst st)) i))
      (bind_ok (if \<not> active \<and> us_admin user
                then bind_ok (on_db (remaining_admins (us_id user))) (\<lambda>n. ret (n = 0)) else ret False) (\<lambda>last.
         if last then ret (Conflict ''Cannot deactivate the last active administrator'')
         else bind_ok (on_db (set_active (us_id user) active)) (\<lambda>_.
           bind_ok (if \<not> active
                    then bind_ok (on_sessions (delete_sessions_for_user parse (us_id user))) (\<lambda>_. ret ())
                    else ret ()) (\<lambda>_. ret (OkUser (user\<lparr>us_active := active\<rparr>)))))) (\<lambda>_ _. True)" for user
  proof (rule ensures_bind [OF ensures_guard [where c = "\<not> active"]])
    fix last
    show "ensures (\<lambda>st. managed_state st \<and> us_id user = i \<and> (\<not> last \<longrightarrow> \<not> active \<longrightarrow>
            (\<exists>u\<in>set (users (fst st)). u_admin u \<and> u_active u \<and> u_id u \<noteq> i)))
         (if last then ret (Conflict ''Cannot deactivate the last active administrator'')
         else bind_ok (on_db (set_active (us_id user) active)) (\<lambda>_.
           bind_ok (if \<not> active
                    then bind_ok (on_sessions (delete_sessions_for_user parse (us_id user))) (\<lambda>_. ret ())
                    else ret ()) (\<lambda>_. ret (OkUser (user\<lparr>us_active := active\<rparr>))))) (\<lambda>_ _. True)"
    proof (rule ensures_if)
      show "ensures (\<lambda>st. managed_state st \<and> us_id user = i \<and> (\<not> last \<longrightarrow> \<not> active \<longrightarrow>
            (\<exists>u\<in>set (users (fst st)). u_admin u \<and> u_active u \<and> u_id u \<noteq> i)))
         (ret (Conflict ''Cannot deactivate the last active administrator'')) (\<lambda>_ _. True)"
        by (rule ensures_ret) blast
    next
      assume "\<not> last"
      then show "ensures (\<lambda>st. managed_state st \<and> us_id user = i \<and> (\<not> last \<longrightarrow> \<not> active \<longrightarrow>
            (\<exists>u\<in>set (users (fst st)). u_admin u \<and> u_active u \<and> u_id u \<noteq> i)))
         (bind_ok (on_db (set_active (us_id user) active)) (\<lambda>_.
           bind_ok (if \<not> active
                    then bind_ok (on_sessions (delete_sessions_for_user parse (us_id user))) (\<lambda>_. ret ())
                    else ret ()) (\<lambda>_. ret (OkUser (user\<lparr>us_active := active\<rparr>))))) (\<lambda>_ _. True)"
        by (intro ensures_bind [OF ensures_imp_pre [OF act] ensures_bind [OF sess ensures_ret]]) blast+
    qed
  qed
  have rest: "ensures (\<lambda>st. managed_state st \<and> found = map_option user_safe_from (find_user (users (fst st)) i))
      (case found of None \<Rightarrow> ret NotFound | Some user \<Rightarrow>
         bind_ok (if \<not> active \<and> us_admin user
                then bind_ok (on_db (remaining_admins (us_id user))) (\<lambda>n. ret (n = 0)) else ret False) (\<lambda>last.
         if last then ret (Conflict ''Cannot deactivate the last active administrator'')
         else bind_ok (on_db (set_active (us_id user) active)) (\<lambda>_.
           bind_ok (if \<not> active
                    then bind_ok (on_sessions (delete_sessions_for_user parse (us_id user))) (\<lambda>_. ret ())
                    else ret ()) (\<lambda>_. ret (OkUser (user\<lparr>us_active := active\<rparr>)))))) (\<lambda>_ _. True)" for found
    by (rule ensures_option [OF ensures_ret]) (blast, rule ensures_imp_pre [OF body], blast)
  show ?thesis
    unfolding update_user_status_def
    by (rule keeps_ensures, rule ensures_if [OF ensures_ret ensures_bind [OF ensures_found rest]]) blast
qed

lemma delete_user_managed: "keeps managed_state (delete_user parse auth i)"
proof -
  have del: "ensures (\<lambda>st. managed_state st \<and> us_id user = i \<and>
        (\<exists>u \<in> set (users (fst st)). u_admin u \<and> u_active u \<and> u_id u \<noteq> i))
      (on_db (delete_user_row (us_id user))) (\<lambda>_. managed_state)" for user
    unfolding ensures_def using delete_row_step [of i] by (metis (no_types, lifting))
  have sess: "ensures (\<lambda>st. managed_state st \<and> us_id user = i \<and>
        (\<exists>u \<in> set (users (fst st)). u_admin u \<and> u_active u \<and> u_id u \<noteq> i))
      (on_sessions (delete_sessions_for_user parse (us_id user))) (\<lambda>_ st. managed_state st \<and> us_id user = i \<and>
        (\<exists>u \<in> set (users (fst st)). u_admin u \<and> u_active u \<and> u_id u \<noteq> i))" for user
    by (rule ensures_sessions) (blast, metis)
  have guard: "ensures (\<lambda>st. managed_state st \<and> Some user = map_option user_safe_from (find_user (users (fst st)) i))
     (if us_admin user then bind_ok (on_db (remaining_admins (us_id user))) (\<lambda>n. ret (n = 0)) else ret False)
     (\<lambda>last st. managed_state st \<and> us_id user = i \<and>
        (\<not> last \<longrightarrow> (\<exists>u \<in> set (users (fst st)). u_admin u \<and> u_active u \<and> u_id u \<noteq> i)))" for user
    using ensures_guard [of user i True] by simp
  have step: "ensures (\<lambda>st. managed_state st \<and> us_id user = i \<and>
        (\<not> last \<longrightarrow> (\<exists>u \<in> set (users (fst st)). u_admin u \<and> u_active u \<and> u_id u \<noteq> i)))
      (if last then ret (Conflict ''Cannot delete the last active administrator'')
       else bind_ok (on_sessions (delete_sessions_for_user parse (us_id user))) (\<lambda>_.
              bind_ok (on_db (delete_user_row (us_id user))) (\<lambda>_. ret NoContent))) (\<lambda>_ _. True)" for user last
    by (rule ensures_if)
      (rule ensures_ret, blast,
       (rule ensures_bind [OF ensures_imp_pre [OF sess] ensures_bind [OF del ensures_ret]]; blast))
  have rest: "ensures (\<lambda>st. managed_state st \<and> found = map_option user_safe_from (find_user (users (fst st)) i))
      (case found of None \<Rightarrow> ret NotFound | Some user \<Rightarrow>
         bind_ok (if us_admin user then bind_ok (on_db (remaining_admins (us_id user))) (\<lambda>n. ret (n = 0))
                  else ret False) (\<lambda>last.
           if last then ret (Conflict ''Cannot delete the last active administrator'')
           else bind_ok (on_sessions (delete_sessions_for_user parse (us_id user))) (\<lambda>_.
                  bind_ok (on_db (delete_user_row (us_id user))) (\<lambda>_. ret NoContent)))) (\<lambda>_ _. True)" for found
    by (rule ensures_option [OF ensures_ret]) (blast, rule ensures_imp_pre [OF ensures_bind [OF guard step]], blast)
  show ?thesis
    unfolding delete_user_def
    by (rule keeps_ensures, rule ensures_if [OF ensures_ret ensures_bind [OF ensures_found rest]]) blast
qed

text \<open>
  C9. A user who is neither administrator nor user manager gets nothing from user management: every
  handler answers that the permission is missing and leaves the database and the sessions exactly as
  they were.
\<close>

theorem management_needs_permission:
  assumes "\<not> us_admin (authentication_user auth)" and "\<not> us_user_manager (authentication_user auth)"
  shows "list_users auth st = (Inr MissingPermission, st) \<and>
     get_user auth i st = (Inr MissingPermission, st) \<and>
     get_user_permissions auth i st = (Inr MissingPermission, st) \<and>
     create_user encrypt auth new st = (Inr MissingPermission, st) \<and>
     is_taken auth what st = (Inr MissingPermission, st) \<and>
     update_user auth i upd st = (Inr MissingPermission, st) \<and>
     update_permissions_handler auth i perms st = (Inr MissingPermission, st) \<and>
     update_password_handler encrypt auth i pw st = (Inr MissingPermission, st) \<and>
     update_user_status parse auth i active st = (Inr MissingPermission, st) \<and>
     delete_user parse auth i st = (Inr MissingPermission, st)"
proof -
  have "\<not> may_manage_users auth"
    using assms by (simp add: may_manage_users_def is_admin_or_user_manager_def safe_permissions_def)
  then show ?thesis
    by (simp add: list_users_def get_user_def get_user_permissions_def create_user_def is_taken_def
        update_user_def update_permissions_handler_def update_password_handler_def
        update_user_status_def delete_user_def ret_def)
qed

definition plain_auth :: authentication where
  "plain_auth = Session (session_new 0 2 ''s'' ''ua'' ''ip'' 10) (user_safe_from (sample_user 2 ''bob'' ''b@x''))"

definition root_user :: user where
  "root_user = (sample_user 1 ''alice'' ''a@x'')\<lparr>u_admin := True\<rparr>"

definition root_auth :: authentication where
  "root_auth = Session (session_new 0 1 ''s'' ''ua'' ''ip'' 10) (user_safe_from root_user)"

definition sample_site :: site_state where
  "sample_site =
     (sample_token_db\<lparr>users := [root_user, sample_user 2 ''bob'' ''b@x'']\<rparr>, sample_manager)"

theorem management_needs_permission_witness:
  "delete_user sample_parse plain_auth 1 sample_site = (Inr MissingPermission, sample_site)"
proof -
  have "\<not> us_admin (authentication_user plain_auth)" "\<not> us_user_manager (authentication_user plain_auth)"
    by code_simp+
  from management_needs_permission [OF this, of sample_site 1] show ?thesis by blast
qed

text \<open>
  C10. The site keeps an administrator. Whatever the request and whichever of its statements fail,
  creating, changing, deactivating or deleting a user and setting a password leave at least one
  active administrator if there was one: deactivating or deleting the last one is refused.
\<close>

theorem last_administrator_kept:
  assumes "wf_users (fst st)" and "active_admin (fst st)"
  shows "active_admin (fst (snd (create_user encrypt auth new st))) \<and>
     active_admin (fst (snd (update_user auth i upd st))) \<and>
     active_admin (fst (snd (update_password_handler encrypt auth i pw st))) \<and>
     active_admin (fst (snd (update_user_status parse auth i active st))) \<and>
     active_admin (fst (snd (delete_user parse auth i st)))"
proof -
  have m: "managed_state st" using assms by (simp add: managed_def)
  have "managed_state (snd (create_user encrypt auth new st))"
    "managed_state (snd (update_user auth i upd st))"
    "managed_state (snd (update_password_handler encrypt auth i pw st))"
    "managed_state (snd (update_user_status parse auth i active st))"
    "managed_state (snd (delete_user parse auth i st))"
    by (rule keepsD [OF create_user_managed m] keepsD [OF update_user_managed m]
        keepsD [OF update_password_handler_managed m] keepsD [OF update_user_status_managed m]
        keepsD [OF delete_user_managed m])+
  then show ?thesis by (simp add: managed_def)
qed

theorem last_administrator_kept_witness:
  "active_admin (fst (snd (delete_user sample_parse root_auth 1 sample_site))) \<and>
   fst (delete_user sample_parse root_auth 1 sample_site) =
     Inr (Conflict ''Cannot delete the last active administrator'')"
proof -
  have "wf_users (fst sample_site)" "active_admin (fst sample_site)"
    "fst (delete_user sample_parse root_auth 1 sample_site) =
     Inr (Conflict ''Cannot delete the last active administrator'')" by code_simp+
  with last_administrator_kept [of sample_site] show ?thesis by blast
qed

text \<open>
  The permission handler does not share that guard. Whenever the last active administrator's
  admin flag is cleared through it, the request succeeds and leaves the site without any active
  administrator, although deactivating or deleting the same user is refused.
\<close>

theorem permission_update_drops_last_administrator:
  assumes "us_admin (authentication_user auth) \<or> us_user_manager (authentication_user auth)"
    and "faults (fst st) = []" and "find_user (users (fst st)) i = Some w"
    and "\<forall>u \<in> set (users (fst st)). u_admin u \<and> u_active u \<longrightarrow> u_id u = i"
    and "upd_admin r = Some False" and "upd_repository_permissions r = []"
  shows "fst (update_permissions_handler auth i r st) = Inr NoContent \<and>
     \<not> active_admin (fst (snd (update_permissions_handler auth i r st)))"
proof -
  have m: "may_manage_users auth"
    using assms(1) by (simp add: may_manage_users_def is_admin_or_user_manager_def safe_permissions_def)
  have id: "us_id (user_safe_from w) = i"
    using find_user_Some [OF assms(3)] by (simp add: user_safe_from_def)
  have g: "on_db (get_safe_by_id i) st = (Inr (Some (user_safe_from w)), st)"
    using reads_no_faults [OF reads_lookups(1) assms(2), of i] assms(3) by (simp add: on_db_def)
  have ch: "has_regular_change r" using assms(5) by (simp add: has_regular_change_def)
  let ?db = "(fst st)\<lparr>users := update_user_row i (apply_regular r) (users (fst st))\<rparr>"
  have up: "update_permissions r i (fst st) = (Inr (), ?db)"
    using assms(2,6) ch by (simp add: update_permissions_def update_regular_def bind_ok_def ret_def)
  have up': "on_db (update_permissions r i) st = (Inr (), (?db, snd st))"
    by (simp add: on_db_def up)
  have out: "update_permissions_handler auth i r st = (Inr NoContent, (?db, snd st))"
    unfolding update_permissions_handler_def
    by (simp add: m bind_ok_def g id up' ret_def)
  have "\<not> list_ex (\<lambda>u. u_admin u \<and> u_active u) (update_user_row i (apply_regular r) (users (fst st)))"
    using assms(4,5)
    by (auto simp: list_ex_iff update_user_row_def apply_regular_def or_keep_def split: if_splits)
  then show ?thesis by (simp add: out active_admin_def)
qed

theorem permission_update_drops_last_administrator_witness:
  "\<not> active_admin (fst (snd (update_permissions_handler root_auth 1
      (sample_update\<lparr>upd_admin := Some False, upd_repository_permissions := []\<rparr>) sample_site)))"
proof -
  let ?r = "sample_update\<lparr>upd_admin := Some False, upd_repository_permissions := []\<rparr>"
  have "us_admin (authentication_user root_auth) \<or> us_user_manager (authentication_user root_auth)"
    "faults (fst sample_site) = []" "find_user (users (fst sample_site)) 1 = Some root_user"
    "\<forall>u \<in> set (users (fst sample_site)). u_admin u \<and> u_active u \<longrightarrow> u_id u = 1"
    "upd_admin ?r = Some False" "upd_repository_permissions ?r = []" by code_simp+
  from permission_update_drops_last_administrator [OF this] show ?thesis by blast
qed

end
