(* ===== verification/RepoAuth.thy ===== *)
theory RepoAuth
  imports UserAdmin
begin

text \<open>
  Authentication and authorisation on the package routes
  (pkgly/src/repository/repo_http/repo_auth.rs). The state is the token database extended by the two
  caches of the site (pkgly/src/app/site.rs): entries of a cache can disappear at any time (they are
  evicted after their time to live), which \<open>evict_token\<close> models as a step of its own.
\<close>

datatype repository_authentication =
    RAuthToken auth_token user_safe
  | RAnonymousDocker string "uuid list"
  | RSession session user_safe
  | RBasic "auth_token option" user_safe
  | RVirtualRepository uuid repository_authentication
  | ROther string string
  | RNoIdentification

record auth_site = token_db +
  auth_token_cache :: "string \<rightharpoonup> auth_token \<times> user_safe"
  anonymous_docker_tokens :: "string \<rightharpoonup> uuid list"

type_synonym ('z, 'a) site_op = "('z auth_site_scheme, authentication_error, 'a) stm"

text \<open>The loop peels the wrappers from the outside in; for a read each of them replaces the id.\<close>

fun unwrap_virtual_for_action ::
  "repository_authentication \<Rightarrow> repository_action \<Rightarrow> uuid \<Rightarrow> repository_authentication \<times> uuid" where
  "unwrap_virtual_for_action (RVirtualRepository virtual_repository_id inner) action effective =
     unwrap_virtual_for_action inner action (if action = Read then virtual_repository_id else effective)"
| "unwrap_virtual_for_action auth action effective = (auth, effective)"

definition can_access_repository ::
  "repository_authentication \<Rightarrow> repository_action \<Rightarrow> uuid \<Rightarrow>
     ('z token_db_scheme, authentication_error, bool) stm" where
  "can_access_repository self action repository_id =
     (case unwrap_virtual_for_action self action repository_id of (auth, effective_repository_id) \<Rightarrow>
        (case auth of
           RAuthToken token user \<Rightarrow>
             map_err InternalError
               (does_user_and_token_have_repository_action safe_has_action user token action effective_repository_id)
         | RBasic (Some token) user \<Rightarrow>
             map_err InternalError
               (does_user_and_token_have_repository_action safe_has_action user token action effective_repository_id)
         | RSession _ user \<Rightarrow>
             map_err InternalError (safe_has_action user action effective_repository_id)
         | RBasic None user \<Rightarrow>
             map_err InternalError (safe_has_action user action effective_repository_id)
         | _ \<Rightarrow> ret False))"

definition get_user_if_has_action ::
  "repository_authentication \<Rightarrow> repository_action \<Rightarrow> uuid \<Rightarrow>
     ('z token_db_scheme, authentication_error, user_safe option) stm" where
  "get_user_if_has_action self action repository_id =
     (case unwrap_virtual_for_action self action repository_id of (auth, effective_repository_id) \<Rightarrow>
        (case auth of
           RAuthToken token user \<Rightarrow>
             bind_ok (map_err InternalError
               (does_user_and_token_have_repository_action safe_has_action user token action effective_repository_id))
               (\<lambda>ok. if ok then ret (Some user) else ret None)
         | RBasic (Some token) user \<Rightarrow>
             bind_ok (map_err InternalError
               (does_user_and_token_have_repository_action safe_has_action user token action effective_repository_id))
               (\<lambda>ok. if ok then ret (Some user) else ret None)
         | RSession _ user \<Rightarrow>
             bind_ok (map_err InternalError (safe_has_action user action effective_repository_id))
               (\<lambda>ok. if ok then ret (Some user) else ret None)
         | RBasic None user \<Rightarrow>
             bind_ok (map_err InternalError (safe_has_action user action effective_repository_id))
               (\<lambda>ok. if ok then ret (Some user) else ret None)
         | _ \<Rightarrow> ret None))"

fun get_permissions :: "repository_authentication \<Rightarrow> user_permissions option" where
  "get_permissions (RAuthToken _ user) = Some (safe_permissions user)"
| "get_permissions (RSession _ user) = Some (safe_permissions user)"
| "get_permissions (RBasic _ user) = Some (safe_permissions user)"
| "get_permissions (RVirtualRepository _ inner) = get_permissions inner"
| "get_permissions _ = None"

text \<open>\<open>user_id\<close> and \<open>get_user_id\<close> have the same branches.\<close>

fun get_user_id :: "repository_authentication \<Rightarrow> rowid option" where
  "get_user_id (RAuthToken _ user) = Some (us_id user)"
| "get_user_id (RSession _ user) = Some (us_id user)"
| "get_user_id (RBasic _ user) = Some (us_id user)"
| "get_user_id (RVirtualRepository _ inner) = get_user_id inner"
| "get_user_id _ = None"

fun get_auth_user :: "repository_authentication \<Rightarrow> user_safe option" where
  "get_auth_user (RAuthToken _ user) = Some user"
| "get_auth_user (RSession _ user) = Some user"
| "get_auth_user (RBasic _ user) = Some user"
| "get_auth_user (RVirtualRepository _ inner) = get_auth_user inner"
| "get_auth_user _ = None"

definition has_auth_token :: "repository_authentication \<Rightarrow> bool" where
  "has_auth_token a =
     (case a of RAuthToken _ _ \<Rightarrow> True | RBasic (Some _) _ \<Rightarrow> True | _ \<Rightarrow> False)"

definition wrap_for_virtual_reads :: "repository_authentication \<Rightarrow> uuid \<Rightarrow> repository_authentication" where
  "wrap_for_virtual_reads a virtual_repository_id = RVirtualRepository virtual_repository_id a"

fun as_raw :: "repository_authentication \<Rightarrow> authentication_raw" where
  "as_raw (RAuthToken token _) = RawAuthToken (t_token token)"
| "as_raw (RSession session _) = RawSession session"
| "as_raw (RAnonymousDocker token _) = RawAuthToken token"
| "as_raw (RBasic (Some token) _) = RawAuthToken (t_token token)"
| "as_raw (RBasic None user) = RawBasic (us_username user) []"
| "as_raw (RVirtualRepository _ inner) = as_raw inner"
| "as_raw (ROther scheme value) = RawUnknown scheme value"
| "as_raw RNoIdentification = RawNoIdentification"

definition repository_has_action ::
  "repository_authentication \<Rightarrow> repository_action \<Rightarrow> uuid \<Rightarrow> ('z, bool) token_query" where
  "repository_has_action self action repository =
     (case unwrap_virtual_for_action self action repository of (auth, effective_repository_id) \<Rightarrow>
        (case auth of
           RAuthToken token user \<Rightarrow>
             does_user_and_token_have_repository_action safe_has_action user token action effective_repository_id
         | RBasic (Some token) user \<Rightarrow>
             does_user_and_token_have_repository_action safe_has_action user token action effective_repository_id
         | _ \<Rightarrow>
             check_user_repository_action (get_permissions auth) (get_user_id auth) action
               effective_repository_id))"

section \<open>From the credential to the identity\<close>

definition get_by_auth_token ::
  "(string \<Rightarrow> string) \<Rightarrow> string \<Rightarrow> ('z, auth_token \<times> user_safe) auth_op" where
  "get_by_auth_token hash token s0 =
     bind_ok (map_err InternalError (get_by_token hash token)) (\<lambda>found.
       bind_ok (or_unauthorized found) (\<lambda>token.
         if expired_at (now s0) token then fail Unauthorized
         else bind_ok (map_err InternalError (get_safe_by_id (t_user_id token))) (\<lambda>found.
                bind_ok (or_unauthorized found) (\<lambda>user. ret (token, user))))) s0"

definition cache_insert :: "'k \<Rightarrow> 'v \<Rightarrow> ('k \<rightharpoonup> 'v) \<Rightarrow> ('k \<rightharpoonup> 'v)" where
  "cache_insert k v m = m(k \<mapsto> v)"

definition cache_invalidate :: "'k \<Rightarrow> ('k \<rightharpoonup> 'v) \<Rightarrow> ('k \<rightharpoonup> 'v)" where
  "cache_invalidate k m = m(k := None)"

definition get_by_auth_token_cached ::
  "(string \<Rightarrow> string) \<Rightarrow> string \<Rightarrow> ('z, auth_token \<times> user_safe) site_op" where
  "get_by_auth_token_cached hash token s =
     (case auth_token_cache s token of
        Some cached \<Rightarrow>
          if expired_at (now s) (fst cached)
          then (Inl Unauthorized, s\<lparr>auth_token_cache := cache_invalidate token (auth_token_cache s)\<rparr>)
          else (Inr cached, s)
      | None \<Rightarrow>
          (case get_by_auth_token hash token s of
             (Inl e, t) \<Rightarrow> (Inl e, t)
           | (Inr result, t) \<Rightarrow>
               (Inr result, t\<lparr>auth_token_cache := cache_insert token result (auth_token_cache t)\<rparr>)))"

definition from_raw ::
  "(string \<Rightarrow> string) \<Rightarrow> (string \<Rightarrow> 'h option) \<Rightarrow> (string \<Rightarrow> 'h \<Rightarrow> bool) \<Rightarrow> authentication_raw \<Rightarrow>
     ('z, repository_authentication) site_op" where
  "from_raw hash parse_hash check_hash raw_auth s =
     (case raw_auth of
        RawAuthToken token \<Rightarrow>
          (case anonymous_docker_tokens s token of
             Some granted \<Rightarrow> ret (RAnonymousDocker token granted) s
           | None \<Rightarrow>
               bind_ok (get_by_auth_token_cached hash token) (\<lambda>(token, user). ret (RAuthToken token user)) s)
      | RawSession session \<Rightarrow>
          bind_ok (user_of_session session) (\<lambda>user. ret (RSession session user)) s
      | RawBasic username password \<Rightarrow>
          (case verify_login parse_hash check_hash username password s of
             (Inr user, t) \<Rightarrow> (Inr (RBasic None user), t)
           | (Inl Unauthorized, t) \<Rightarrow>
               bind_ok (get_by_auth_token_cached hash password) (\<lambda>(token, user).
                 ret (RBasic (Some token) user)) t
           | (Inl err, t) \<Rightarrow> (Inl err, t))
      | RawNoIdentification \<Rightarrow> ret RNoIdentification s
      | RawUnknown scheme value \<Rightarrow> ret (ROther scheme value) s)"

definition repository_auth_from_request ::
  "(string \<Rightarrow> string) \<Rightarrow> (string \<Rightarrow> 'h option) \<Rightarrow> (string \<Rightarrow> 'h \<Rightarrow> bool) \<Rightarrow> authentication_raw option \<Rightarrow>
     ('z, repository_authentication) site_op" where
  "repository_auth_from_request hash parse_hash check_hash raw =
     (case raw of
        None \<Rightarrow> fail Unauthorized
      | Some raw_auth \<Rightarrow> from_raw hash parse_hash check_hash raw_auth)"

text \<open>Eviction of a cache entry.\<close>

definition evict_token :: "string \<Rightarrow> 'z auth_site_scheme \<Rightarrow> 'z auth_site_scheme" where
  "evict_token k s = s\<lparr>auth_token_cache := cache_invalidate k (auth_token_cache s)\<rparr>"

interpretation site_cache: keyed_store "\<lambda>m k. m k" cache_insert cache_invalidate
  by unfold_locales (auto simp: cache_insert_def cache_invalidate_def)

section \<open>The decision\<close>

text \<open>What an identity may do: the user's rights and, where the request came with a token, also the
  token's scopes; behind wrappers a read is judged for the innermost wrapper's repository. Anonymous
  Docker tokens and requests without a known identity have no rights of this kind.\<close>

fun repo_allowed ::
  "repository_authentication \<Rightarrow> repository_action \<Rightarrow> uuid \<Rightarrow> 'z token_db_scheme \<Rightarrow> bool" where
  "repo_allowed (RAuthToken token user) a r s = (user_allowed user a r s \<and> token_allowed token a r s)"
| "repo_allowed (RBasic (Some token) user) a r s = (user_allowed user a r s \<and> token_allowed token a r s)"
| "repo_allowed (RBasic None user) a r s = user_allowed user a r s"
| "repo_allowed (RSession _ user) a r s = user_allowed user a r s"
| "repo_allowed (RVirtualRepository v inner) a r s = repo_allowed inner a (if a = Read then v else r) s"
| "repo_allowed (RAnonymousDocker _ _) a r s = False"
| "repo_allowed (ROther _ _) a r s = False"
| "repo_allowed RNoIdentification a r s = False"

fun plain :: "repository_authentication \<Rightarrow> bool" where
  "plain (RVirtualRepository _ _) = False"
| "plain _ = True"

lemma unwrap_plain: "plain (fst (unwrap_virtual_for_action self a r))"
  by (induction self a r rule: unwrap_virtual_for_action.induct) auto

lemma unwrap_allowed:
  "(case unwrap_virtual_for_action self a r of (auth, r') \<Rightarrow> repo_allowed auth a r' s) = repo_allowed self a r s"
  by (induction self a r rule: unwrap_virtual_for_action.induct) auto

lemma unwrap_user: "get_auth_user (fst (unwrap_virtual_for_action self a r)) = get_auth_user self"
  by (induction self a r rule: unwrap_virtual_for_action.induct) auto

lemma reads_token_and_user:
  "reads (does_user_and_token_have_repository_action safe_has_action user token a r)
     (\<lambda>s. user_allowed user a r s \<and> token_allowed token a r s)"
  by (rule reads_user_and_token) (rule safe.answers)

lemma repo_allowed_funs:
  "repo_allowed (RAuthToken token user) a r = (\<lambda>s. user_allowed user a r s \<and> token_allowed token a r s)"
  "repo_allowed (RBasic (Some token) user) a r = (\<lambda>s. user_allowed user a r s \<and> token_allowed token a r s)"
  "repo_allowed (RBasic None user) a r = user_allowed user a r"
  "repo_allowed (RSession session user) a r = user_allowed user a r"
  "repo_allowed (RAnonymousDocker t rs) a r = (\<lambda>s. False)"
  "repo_allowed (ROther x y) a r = (\<lambda>s. False)"
  "repo_allowed RNoIdentification a r = (\<lambda>s. False)"
  by (rule ext; simp)+

lemma stable_allowed [simp]: "stable (user_allowed u a r)" "stable (repo_allowed auth a r)"
proof -
  show "stable (user_allowed u a r)" by (simp add: stable_def user_allowed_def)
  show "stable (repo_allowed auth a r)"
    unfolding stable_def
  proof (intro allI)
    fix s bs
    show "repo_allowed auth a r (s\<lparr>faults := bs\<rparr>) = repo_allowed auth a r s"
      by (induction auth a r s rule: repo_allowed.induct) (auto simp: user_allowed_def token_allowed_def)
  qed
qed

lemma reads_check_none: "reads (check_user_repository_action None None a r) (\<lambda>s. False)"
  by (simp add: check_user_repository_action_def is_admin_or_system_manager_def reads_ret)

lemma plain_has_action:
  assumes "plain auth"
  shows "reads (case auth of
           RAuthToken token user \<Rightarrow> does_user_and_token_have_repository_action safe_has_action user token a r
         | RBasic (Some token) user \<Rightarrow> does_user_and_token_have_repository_action safe_has_action user token a r
         | _ \<Rightarrow> check_user_repository_action (get_permissions auth) (get_user_id auth) a r)
     (repo_allowed auth a r)"
proof (cases auth)
  case (RBasic t u)
  then show ?thesis
    using reads_token_and_user safe.answers [unfolded safe_has_action_def]
    by (cases t) (simp_all add: repo_allowed_funs)
qed (use assms reads_token_and_user safe.answers [unfolded safe_has_action_def] reads_check_none in
    \<open>simp_all add: repo_allowed_funs\<close>)

lemma reads_repository_has_action: "reads (repository_has_action self a r) (repo_allowed self a r)"
proof -
  obtain auth r' where u: "unwrap_virtual_for_action self a r = (auth, r')" by (rule prod.exhaust)
  have "plain auth" using unwrap_plain [of self a r] u by simp
  from plain_has_action [OF this, of a r']
  have "reads (repository_has_action self a r) (repo_allowed auth a r')"
    by (simp add: repository_has_action_def u)
  then show ?thesis
    by (rule reads_cong) (use unwrap_allowed [where self = self and a = a and r = r] u in simp)
qed

interpretation repository: authorizer repository_has_action repo_allowed
  by unfold_locales (rule reads_repository_has_action)

lemma plain_can_access:
  assumes "plain auth"
  shows "reads (case auth of
           RAuthToken token user \<Rightarrow> map_err InternalError (does_user_and_token_have_repository_action safe_has_action user token a r)
         | RBasic (Some token) user \<Rightarrow> map_err InternalError (does_user_and_token_have_repository_action safe_has_action user token a r)
         | RSession _ user \<Rightarrow> map_err InternalError (safe_has_action user a r)
         | RBasic None user \<Rightarrow> map_err InternalError (safe_has_action user a r)
         | _ \<Rightarrow> ret False) (repo_allowed auth a r)"
proof (cases auth)
  case (RBasic t u)
  then show ?thesis
    using reads_map_err [OF reads_token_and_user] reads_map_err [OF safe.answers]
    by (cases t) (simp_all add: repo_allowed_funs)
qed (use assms reads_map_err [OF reads_token_and_user] reads_map_err [OF safe.answers] reads_ret [of False] in
    \<open>simp_all add: repo_allowed_funs\<close>)

lemma reads_can_access: "reads (can_access_repository self a r) (repo_allowed self a r)"
proof -
  obtain auth r' where u: "unwrap_virtual_for_action self a r = (auth, r')" by (rule prod.exhaust)
  have "plain auth" using unwrap_plain [of self a r] u by simp
  from plain_can_access [OF this]
  have "reads (can_access_repository self a r) (repo_allowed auth a r')"
    by (simp add: can_access_repository_def u)
  then show ?thesis
    by (rule reads_cong) (use unwrap_allowed [where self = self and a = a and r = r] u in simp)
qed

lemma get_user_if_has_action_eq:
  "get_user_if_has_action self a r =
     bind_ok (can_access_repository self a r) (\<lambda>ok. if ok then ret (get_auth_user self) else ret None)"
proof -
  obtain auth r' where u: "unwrap_virtual_for_action self a r = (auth, r')" by (rule prod.exhaust)
  have p: "plain auth" using unwrap_plain [of self a r] u by simp
  have usr: "get_auth_user self = get_auth_user auth" using unwrap_user [of self a r] u by simp
  show ?thesis
    unfolding get_user_if_has_action_def can_access_repository_def u usr
    using p by (cases auth) (simp_all add: bind_ok_ret cong: if_cong split: option.splits)
qed

text \<open>
  C11. One decision on the package routes. The three entry points (may this request act, the trait
  method, which user acts) agree for every identity and every action: a token never grants more than
  its user may do, a user never more than the token's scopes allow, a session or a password gives the
  user's own rights, and anonymous tokens, unknown schemes and requests without identification act
  for nobody. An answer is given whenever no query fails, and it is this one whichever queries fail.
\<close>

theorem repository_decision:
  fixes s :: "'z token_db_scheme"
  shows "(fst (can_access_repository self a r s) = Inr b \<longrightarrow> b = repo_allowed self a r s) \<and>
     (fst (repository_has_action self a r s) = Inr b \<longrightarrow> b = repo_allowed self a r s) \<and>
     (fst (get_user_if_has_action self a r s) = Inr u \<longrightarrow>
        u = (if repo_allowed self a r s then get_auth_user self else None)) \<and>
     (faults s = [] \<longrightarrow>
        can_access_repository self a r s = (Inr (repo_allowed self a r s), s) \<and>
        repository_has_action self a r s = (Inr (repo_allowed self a r s), s))"
proof -
  have k: "reads (if ok then ret (get_auth_user self) else ret None :: ('z token_db_scheme, authentication_error, _) stm)
      (\<lambda>s. if ok then get_auth_user self else None)" for ok
    by (cases ok) (auto simp: reads_ret)
  have g: "reads (get_user_if_has_action self a r) (\<lambda>s :: 'z token_db_scheme. if repo_allowed self a r s then get_auth_user self else None)"
    unfolding get_user_if_has_action_eq by (rule reads_bind [where h = "\<lambda>ok s. if ok then get_auth_user self else None", OF reads_can_access k]) simp
  show ?thesis
    using readsD(2) [OF reads_can_access prod.collapse [symmetric], of self a r s b]
      readsD(2) [OF reads_repository_has_action prod.collapse [symmetric], of self a r s b]
      readsD(2) [OF g prod.collapse [symmetric], of s u]
      reads_no_faults [OF reads_can_access, of s self a r]
      reads_no_faults [OF reads_repository_has_action, of s self a r] by blast
qed

theorem repository_decision_witness:
  "fst (can_access_repository
     (RAuthToken (hd (tokens sample_live_db)) (user_safe_from root_user)) Read 7 sample_live_db) = Inr False"
proof -
  let ?a = "RAuthToken (hd (tokens sample_live_db)) (user_safe_from root_user)"
  have h: "faults sample_live_db = []" "repo_allowed ?a Read 7 sample_live_db = False" by code_simp+
  have "can_access_repository ?a Read 7 sample_live_db = (Inr (repo_allowed ?a Read 7 sample_live_db), sample_live_db)"
    using repository_decision [of ?a Read 7 sample_live_db] h(1) by blast
  then show ?thesis unfolding h(2) by (metis fst_conv)
qed

text \<open>
  Wrapping an identity for virtual repositories, however often, changes which repository a read
  is judged for (that of the first wrapping) and nothing else: writes and edits are judged for the
  member itself, and the identity keeps its user and its credential.
\<close>

theorem virtual_wrapping:
  "repo_allowed (foldl wrap_for_virtual_reads auth vs) a r s =
     repo_allowed auth a (if a = Read \<and> vs \<noteq> [] then hd vs else r) s \<and>
   fst (unwrap_virtual_for_action (foldl wrap_for_virtual_reads auth vs) a r) =
     fst (unwrap_virtual_for_action auth a r) \<and>
   get_user_id (foldl wrap_for_virtual_reads auth vs) = get_user_id auth \<and>
   get_permissions (foldl wrap_for_virtual_reads auth vs) = get_permissions auth \<and>
   as_raw (foldl wrap_for_virtual_reads auth vs) = as_raw auth"
proof -
  have fst_unwrap: "fst (unwrap_virtual_for_action x a r) = fst (unwrap_virtual_for_action x a r')" for x r r'
    by (induction x arbitrary: r r') auto
  show ?thesis
  proof (induction vs arbitrary: r rule: rev_induct)
    case (snoc v vs)
    have hd: "hd (vs @ [v]) = (if vs = [] then v else hd vs)" by (cases vs) auto
    have f: "fst (unwrap_virtual_for_action auth a v) = fst (unwrap_virtual_for_action auth a r)"
      by (rule fst_unwrap)
    from snoc [of r] snoc [of v] f show ?case
      by (cases "a = Read"; cases "vs = []") (simp_all add: wrap_for_virtual_reads_def hd)
  qed simp
qed

section \<open>What the token cache can return\<close>

text \<open>The life of the site as far as the caches see it: requests, eviction, the passing of time,
  revocation of tokens, changes of the users, and statements that fail.\<close>

inductive site_step ::
  "(string \<Rightarrow> string) \<Rightarrow> (string \<Rightarrow> 'h option) \<Rightarrow> (string \<Rightarrow> 'h \<Rightarrow> bool) \<Rightarrow>
     'z auth_site_scheme \<Rightarrow> 'z auth_site_scheme \<Rightarrow> bool"
  for hash parse_hash check_hash where
  request: "from_raw hash parse_hash check_hash raw s = (r, t) \<Longrightarrow> site_step hash parse_hash check_hash s t"
| evicted: "site_step hash parse_hash check_hash s (evict_token k s)"
| tick: "now s \<le> n \<Longrightarrow> site_step hash parse_hash check_hash s (s\<lparr>now := n\<rparr>)"
| revoked: "delete_token row s = (r, t) \<Longrightarrow> site_step hash parse_hash check_hash s t"
| users_changed: "site_step hash parse_hash check_hash s (s\<lparr>users := us\<rparr>)"
| faults_ahead: "site_step hash parse_hash check_hash s (s\<lparr>faults := bs\<rparr>)"

inductive_cases site_stepE: "site_step hash parse_hash check_hash s t"

definition cache_sound :: "(string \<Rightarrow> string) \<Rightarrow> 'z auth_site_scheme \<Rightarrow> bool" where
  "cache_sound hash s =
     (\<forall>k row u. auth_token_cache s k = Some (row, u) \<longrightarrow> t_token row = hash k \<and> us_id u = t_user_id row)"

lemma get_by_auth_token_out:
  assumes "get_by_auth_token hash k s = (r, t)"
  shows "(\<exists>bs. t = s\<lparr>faults := bs\<rparr>)"
    and "r = Inr (row, u) \<Longrightarrow> row \<in> set (tokens s) \<and> t_token row = hash k \<and> token_live (now s) row \<and>
       us_id u = t_user_id row"
proof -
  obtain r1 s1 where a: "get_by_token hash k s = (r1, s1)" by (rule prod.exhaust)
  obtain bs1 where s1: "s1 = s\<lparr>faults := bs1\<rparr>" using readsD(1) [OF reads_get_by_token a] by blast
  note v1 = readsD(2) [OF reads_get_by_token a]
  have both: "(\<exists>bs. t = s\<lparr>faults := bs\<rparr>) \<and> (\<forall>row u. r = Inr (row, u) \<longrightarrow> row \<in> set (tokens s) \<and>
      t_token row = hash k \<and> token_live (now s) row \<and> us_id u = t_user_id row)"
  proof (cases "\<exists>row. r1 = Inr (Some row) \<and> \<not> expired_at (now s) row")
    case False
    then have "(\<exists>e. r = Inl e) \<and> t = s1"
      using assms a
      by (cases r1) (auto simp: get_by_auth_token_def bind_ok_def map_err_def or_unauthorized_def
          ret_def fail_def split: option.splits if_splits)
    with s1 show ?thesis by auto
  next
    case True
    then obtain row where row: "r1 = Inr (Some row)" "\<not> expired_at (now s) row" by blast
    have found: "row \<in> set (tokens s)" "t_token row = hash k" "token_live (now s) row"
      using v1 [OF row(1)] by (metis (mono_tags, lifting) find_Some_iff nth_mem)+
    obtain r2 s2 where b: "get_safe_by_id (t_user_id row) s1 = (r2, s2)" by (rule prod.exhaust)
    obtain bs2 where s2: "s2 = s1\<lparr>faults := bs2\<rparr>" using readsD(1) [OF reads_get_safe_by_id b] by blast
    have out: "(r, t) = (case r2 of Inl e \<Rightarrow> (Inl (InternalError e), s2)
        | Inr None \<Rightarrow> (Inl Unauthorized, s2) | Inr (Some u) \<Rightarrow> (Inr (row, u), s2))"
      using assms a row b
      by (auto simp: get_by_auth_token_def bind_ok_def map_err_def or_unauthorized_def ret_def fail_def
          split: option.splits sum.splits)
    have uid: "us_id u = t_user_id row" if "r2 = Inr (Some u)" for u
    proof -
      have "Some u = map_option user_safe_from (find_user (users s1) (t_user_id row))"
        using readsD(2) [OF reads_get_safe_by_id b that] .
      then obtain w where w: "find_user (users s1) (t_user_id row) = Some w" "u = user_safe_from w"
        by (cases "find_user (users s1) (t_user_id row)") auto
      from find_user_Some [OF w(1)] w(2) show ?thesis by (simp add: user_safe_from_def)
    qed
    show ?thesis
      using out found uid s1 s2 by (auto split: sum.splits option.splits)
  qed
  then show "\<exists>bs. t = s\<lparr>faults := bs\<rparr>" by blast
  show "r = Inr (row, u) \<Longrightarrow> row \<in> set (tokens s) \<and> t_token row = hash k \<and> token_live (now s) row \<and>
       us_id u = t_user_id row" using both by blast
qed

lemma cached_out:
  assumes "get_by_auth_token_cached hash k s = (r, t)" and "cache_sound hash s"
  shows "cache_sound hash t \<and> now t = now s \<and>
     (\<forall>row u. r = Inr (row, u) \<longrightarrow> t_token row = hash k \<and> us_id u = t_user_id row \<and> \<not> expired_at (now s) row)"
proof (cases "auth_token_cache s k")
  case (Some c)
  with assms show ?thesis
    by (cases c) (auto simp: get_by_auth_token_cached_def cache_sound_def cache_invalidate_def split: if_splits)
next
  case None
  obtain r1 s1 where g: "get_by_auth_token hash k s = (r1, s1)" by (rule prod.exhaust)
  note G = get_by_auth_token_out [OF g]
  from G(1) obtain bs where s1: "s1 = s\<lparr>faults := bs\<rparr>" by blast
  show ?thesis
  proof (cases r1)
    case (Inl e)
    with assms None g s1 show ?thesis by (auto simp: get_by_auth_token_cached_def cache_sound_def)
  next
    case (Inr p)
    obtain row u where p: "p = (row, u)" by (rule prod.exhaust)
    have ok: "t_token row = hash k" "us_id u = t_user_id row" "\<not> expired_at (now s) row"
      using G(2) [of row u] Inr p live_not_expired by auto
    have "r = Inr (row, u)" "t = s1\<lparr>auth_token_cache := cache_insert k (row, u) (auth_token_cache s1)\<rparr>"
      using assms(1) None g Inr p by (auto simp: get_by_auth_token_cached_def)
    with ok assms(2) s1 show ?thesis
      by (auto simp: cache_sound_def cache_insert_def)
  qed
qed

lemma cache_sound_faults [simp]: "cache_sound hash (s\<lparr>faults := bs\<rparr>) = cache_sound hash s"
  by (simp add: cache_sound_def)

lemma verify_login_faults:
  assumes "verify_login parse_hash check_hash username password s = (r, t)"
  shows "\<exists>bs. t = s\<lparr>faults := bs\<rparr>"
proof -
  have q: "reads (get_by_username_or_email username :: ('z token_db_scheme, sqlx_error, _) stm)
     (\<lambda>s. find (\<lambda>u. matches_email username u \<or> eq_ignore_case (u_username u) username) (users s))"
    unfolding get_by_username_or_email_def by (rule reads_select) (simp add: stable_def)
  obtain x s1 where a: "get_by_username_or_email username s = (x, s1)" by (rule prod.exhaust)
  have "t = s1"
    using assms a
    by (cases x) (auto simp: verify_login_def bind_ok_def map_err_def from_result_def ret_def fail_def
        split: option.splits sum.splits if_splits)
  with readsD(1) [OF q a] show ?thesis by simp
qed

lemma user_of_session_faults:
  assumes "user_of_session session s = (r, t)"
  shows "\<exists>bs. t = s\<lparr>faults := bs\<rparr>"
proof -
  obtain x s1 where a: "get_safe_by_id (s_user_id session) s = (x, s1)" by (rule prod.exhaust)
  have "t = s1"
    using assms a
    by (cases x) (auto simp: user_of_session_def bind_ok_def map_err_def or_unauthorized_def ret_def
        fail_def split: option.splits)
  with readsD(1) [OF reads_get_safe_by_id a] show ?thesis by simp
qed

text \<open>The identities a request can obtain by a token.\<close>

definition token_identity :: "(string \<Rightarrow> string) \<Rightarrow> instant \<Rightarrow> string \<Rightarrow> repository_authentication \<Rightarrow> bool" where
  "token_identity hash n k a =
     (case a of
        RAuthToken row u \<Rightarrow> t_token row = hash k \<and> us_id u = t_user_id row \<and> \<not> expired_at n row
      | RBasic (Some row) u \<Rightarrow> t_token row = hash k \<and> us_id u = t_user_id row \<and> \<not> expired_at n row
      | _ \<Rightarrow> True)"

definition credential_text :: "authentication_raw \<Rightarrow> string" where
  "credential_text raw =
     (case raw of RawAuthToken token \<Rightarrow> token | RawBasic _ password \<Rightarrow> password | _ \<Rightarrow> [])"

lemma from_raw_out:
  assumes "from_raw hash parse_hash check_hash raw s = (r, t)" and "cache_sound hash s"
  shows "cache_sound hash t \<and> (\<forall>a. r = Inr a \<longrightarrow> token_identity hash (now s) (credential_text raw) a)"
proof (cases raw)
  case (RawAuthToken k)
  show ?thesis
  proof (cases "anonymous_docker_tokens s k")
    case (Some rs)
    with assms RawAuthToken show ?thesis by (auto simp: from_raw_def ret_def token_identity_def)
  next
    case None
    obtain r1 t1 where c: "get_by_auth_token_cached hash k s = (r1, t1)" by (rule prod.exhaust)
    from cached_out [OF c assms(2)] assms(1) RawAuthToken None c show ?thesis
      by (cases r1) (auto simp: from_raw_def ret_def token_identity_def credential_text_def)
  qed
next
  case (RawSession session)
  obtain r1 t1 where c: "user_of_session session s = (r1, t1)" by (rule prod.exhaust)
  from user_of_session_faults [OF c] assms RawSession c show ?thesis
    by (cases r1) (auto simp: from_raw_def ret_def token_identity_def)
next
  case (RawBasic username password)
  obtain r1 t1 where v: "verify_login parse_hash check_hash username password s = (r1, t1)" by (rule prod.exhaust)
  obtain bs where t1: "t1 = s\<lparr>faults := bs\<rparr>" using verify_login_faults [OF v] by blast
  have snd1: "cache_sound hash t1" "now t1 = now s" using assms(2) by (simp_all add: t1)
  show ?thesis
  proof (cases "r1 = Inl Unauthorized")
    case False
    then have "t = t1" "\<forall>a. r = Inr a \<longrightarrow> (\<exists>u. a = RBasic None u)"
      using assms(1) RawBasic v
      by (cases r1; auto simp: from_raw_def split: authentication_error.splits)+
    with snd1 show ?thesis by (auto simp: token_identity_def)
  next
    case True
    obtain r2 t2 where c: "get_by_auth_token_cached hash password t1 = (r2, t2)" by (rule prod.exhaust)
    from cached_out [OF c snd1(1)] snd1(2) assms(1) RawBasic v True c show ?thesis
      by (cases r2) (auto simp: from_raw_def ret_def token_identity_def credential_text_def)
  qed
qed (use assms in \<open>auto simp: from_raw_def ret_def token_identity_def\<close>)

lemma site_step_sound: "site_step hash parse_hash check_hash s t \<Longrightarrow> cache_sound hash s \<Longrightarrow> cache_sound hash t"
proof (induction rule: site_step.induct)
  case (request raw s r t)
  then show ?case using from_raw_out by blast
next
  case (evicted s k)
  then show ?case by (auto simp: cache_sound_def evict_token_def cache_invalidate_def)
next
  case (revoked row s r t)
  from revoked(1) have "auth_token_cache t = auth_token_cache s"
    unfolding delete_token_def
    by (rule update_sql_keeps [where I = "\<lambda>t. auth_token_cache t = auth_token_cache s"])
      (simp_all add: remove_tokens_def Let_def)
  with revoked(2) show ?case by (simp add: cache_sound_def)
qed (auto simp: cache_sound_def)

text \<open>
  C12. The token cache never mixes identities up. In every state the site can reach from an empty
  cache, through any sequence of requests, evictions, revocations, changes of users, passing of time
  and failing statements, the identity a request obtains by a token or by a password used as a token
  carries the row whose digest is that of the presented text, the user this row belongs to, and is
  not expired at that moment.
\<close>

theorem cached_identity_sound:
  assumes "(site_step hash parse_hash check_hash)\<^sup>*\<^sup>* s0 s" and "auth_token_cache s0 = Map.empty"
    and "from_raw hash parse_hash check_hash raw s = (Inr a, t)"
  shows "token_identity hash (now s) (credential_text raw) a \<and> cache_sound hash t"
proof -
  have "cache_sound hash s0" using assms(2) by (simp add: cache_sound_def)
  with assms(1) have "cache_sound hash s"
    by (induction rule: rtranclp_induct) (auto intro: site_step_sound)
  with from_raw_out [OF assms(3)] show ?thesis by blast
qed

definition sample_auth_site :: auth_site where
  "sample_auth_site =
     \<lparr>faults = [], now = 20, users = users sample_token_db, user_seq = 3, repo_permissions = [],
      permission_seq = 1, repositories = [7, 8], tokens = tokens sample_token_db, token_seq = 2,
      token_scopes = token_scopes sample_token_db, token_scope_seq = 2, token_repository_scopes = [],
      token_repository_scope_seq = 1, auth_token_cache = Map.empty, anonymous_docker_tokens = Map.empty\<rparr>"

theorem cached_identity_sound_witness:
  "\<exists>row u. fst (from_raw (\<lambda>x. CHR ''h'' # x) (\<lambda>_. None) (\<lambda>_ (_ :: unit). True) (RawAuthToken ''0'') sample_auth_site)
      = Inr (RAuthToken row u) \<and> t_token row = ''h0'' \<and> us_id u = t_user_id row"
proof -
  let ?h = "\<lambda>x. CHR ''h'' # x" and ?p = "\<lambda>_. None" and ?c = "\<lambda>_ (_ :: unit). True"
  let ?out = "from_raw ?h ?p ?c (RawAuthToken ''0'') sample_auth_site"
  let ?a = "RAuthToken (hd (tokens sample_token_db)) (user_safe_from (sample_user 2 ''bob'' ''b@x''))"
  have f: "fst ?out = Inr ?a" by code_simp
  then have o: "?out = (Inr ?a, snd ?out)" by (metis prod.collapse)
  have "auth_token_cache sample_auth_site = Map.empty" by (simp add: sample_auth_site_def)
  from cached_identity_sound [OF rtranclp.rtrancl_refl this o] f show ?thesis
    by (simp add: token_identity_def credential_text_def)
qed

text \<open>
  C13. Deactivating a user does not end the use of the user's tokens on the package routes. For a
  live token of a deactivated user the two entrances disagree: the API refuses the request, the
  package routes accept it with the full rights of user and token.
\<close>

theorem deactivated_user_keeps_token:
  assumes "faults s = []" and "anonymous_docker_tokens s k = None" and "auth_token_cache s k = None"
    and "find (\<lambda>t. t_token t = hash k \<and> token_live (now s) t) (tokens s) = Some row"
    and "find_user (users s) (t_user_id row) = Some w" and "\<not> u_active w"
  shows "fst (from_raw hash parse_hash check_hash (RawAuthToken k) s) = Inr (RAuthToken row (user_safe_from w)) \<and>
     fst (authentication_from_request hash (Some (RawAuthToken k)) s) = Inl Unauthorized \<and>
     repo_allowed (RAuthToken row (user_safe_from w)) a r s =
       (user_allowed (user_safe_from w) a r s \<and> token_allowed row a r s)"
proof -
  have t: "get_by_token hash k s = (Inr (Some row), s)"
    using reads_no_faults [OF reads_get_by_token assms(1), of hash k] assms(4) by simp
  have live: "\<not> expired_at (now s) row"
    using assms(4) live_not_expired by (auto simp: find_Some_iff)
  have u: "get_safe_by_id (t_user_id row) s = (Inr (Some (user_safe_from w)), s)"
    using reads_no_faults [OF reads_get_safe_by_id assms(1), of "t_user_id row"] assms(5) by simp
  have g: "get_by_auth_token hash k s = (Inr (row, user_safe_from w), s)"
    using live by (simp add: get_by_auth_token_def bind_ok_def map_err_def t u or_unauthorized_def ret_def)
  have "fst (from_raw hash parse_hash check_hash (RawAuthToken k) s) = Inr (RAuthToken row (user_safe_from w))"
    by (simp add: from_raw_def assms(2,3) get_by_auth_token_cached_def g bind_ok_def ret_def)
  moreover have "fst (authentication_from_request hash (Some (RawAuthToken k)) s) = Inl Unauthorized"
    using live assms(6)
    by (simp add: authentication_from_request_def get_user_and_auth_token_def bind_ok_def map_err_def t u
        or_unauthorized_def ret_def fail_def user_safe_from_def)
  ultimately show ?thesis by simp
qed

theorem deactivated_user_keeps_token_witness:
  "\<exists>row u. fst (from_raw (\<lambda>x. CHR ''h'' # x) (\<lambda>_. None) (\<lambda>_ (_ :: unit). True) (RawAuthToken ''0'')
       (sample_auth_site\<lparr>users := [(sample_user 2 ''bob'' ''b@x'')\<lparr>u_active := False\<rparr>]\<rparr>)) = Inr (RAuthToken row u) \<and>
     \<not> us_active u"
proof -
  let ?h = "\<lambda>x. CHR ''h'' # x"
  let ?w = "(sample_user 2 ''bob'' ''b@x'')\<lparr>u_active := False\<rparr>"
  let ?s = "sample_auth_site\<lparr>users := [?w]\<rparr>"
  let ?row = "hd (tokens sample_token_db)"
  have "faults ?s = []" "anonymous_docker_tokens ?s ''0'' = None" "auth_token_cache ?s ''0'' = None"
    "find (\<lambda>t. t_token t = ?h ''0'' \<and> token_live (now ?s) t) (tokens ?s) = Some ?row"
    "find_user (users ?s) (t_user_id ?row) = Some ?w" "\<not> u_active ?w" by code_simp+
  from deactivated_user_keeps_token [where hash = ?h and k = "''0''" and s = ?s and row = ?row and w = ?w
      and parse_hash = "\<lambda>_. None" and check_hash = "\<lambda>_ (_ :: unit). True", OF this]
  have "fst (from_raw ?h (\<lambda>_. None) (\<lambda>_ (_ :: unit). True) (RawAuthToken ''0'') ?s) =
      Inr (RAuthToken ?row (user_safe_from ?w))" by blast
  moreover have "\<not> us_active (user_safe_from ?w)" by code_simp
  ultimately show ?thesis by blast
qed

end
