(* ===== verification/DockerAuth.thy ===== *)
theory DockerAuth
  imports RepoAuth
begin

text \<open>
  Docker bearer tokens (pkgly/src/repository/docker/auth.rs) and the look-up of a repository by its
  names (pkgly/src/app/state.rs, pkgly/src/app/site.rs). Parsing a configured URL (third-party code)
  is a pair of parameters, the random text of an anonymous token is \<open>fresh\<close>, printing a time is
  \<open>fmt\<close>.
\<close>

section \<open>Scopes\<close>

record parsed_scope =
  ps_raw :: string
  ps_storage :: string
  ps_repository :: string
  ps_actions :: "repository_action list"

datatype docker_token_error =
    Authentication
  | DockerForbidden
  | InvalidScope string
  | RepositoryNotFound string
  | Internal

definition docker_error_status :: "docker_token_error \<Rightarrow> nat" where
  "docker_error_status e =
     (case e of Authentication \<Rightarrow> 401 | DockerForbidden \<Rightarrow> 403 | InvalidScope _ \<Rightarrow> 400
      | RepositoryNotFound _ \<Rightarrow> 400 | Internal \<Rightarrow> 500)"

definition split_scope_values :: "string \<Rightarrow> string list" where
  "split_scope_values value = filter (\<lambda>segment. segment \<noteq> []) (split_ws value)"

definition push_new :: "'a \<Rightarrow> 'a list \<Rightarrow> 'a list" where
  "push_new a xs = (if a \<in> set xs then xs else xs @ [a])"

definition add_action :: "repository_action list \<Rightarrow> string \<Rightarrow> repository_action list" where
  "add_action actions action =
     (if action = ''pull'' then push_new Read actions
      else if action = ''push'' then push_new Write actions
      else if action = ''*'' then push_new Write (push_new Read actions)
      else actions)"

definition parse_scope :: "string \<Rightarrow> docker_token_error + parsed_scope option" where
  "parse_scope scope =
     (let parts = split_on (CHR '':'') scope
      in if length parts \<noteq> 3 then Inl (InvalidScope scope)
         else if parts ! 0 \<noteq> ''repository'' then Inr None
         else let segments = filter (\<lambda>s. s \<noteq> []) (split_on (CHR ''/'') (parts ! 1));
                  segments = (case segments of
                                s # rest \<Rightarrow> if s = ''repositories'' then rest else segments
                              | [] \<Rightarrow> [])
              in if length segments < 2 then Inl (InvalidScope scope)
                 else Inr (Some \<lparr>ps_raw = scope, ps_storage = segments ! 0,
                        ps_repository = segments ! 1,
                        ps_actions = foldl add_action [] (split_on (CHR '','') (parts ! 2))\<rparr>))"

fun parse_scope_list :: "string list \<Rightarrow> docker_token_error + parsed_scope list" where
  "parse_scope_list [] = Inr []"
| "parse_scope_list (scope # rest) =
     (case parse_scope scope of
        Inl e \<Rightarrow> Inl e
      | Inr None \<Rightarrow> parse_scope_list rest
      | Inr (Some p) \<Rightarrow>
          (case parse_scope_list rest of Inl e \<Rightarrow> Inl e | Inr ps \<Rightarrow> Inr (p # ps)))"

definition parse_scopes :: "string list \<Rightarrow> docker_token_error + parsed_scope list" where
  "parse_scopes scopes = parse_scope_list (concat (map split_scope_values scopes))"

text \<open>\<open>s.find(marker)\<close> and the shortest prefix before one of the markers.\<close>

definition find_index :: "string \<Rightarrow> string \<Rightarrow> nat option" where
  "find_index p s = map_option (\<lambda>(a, b). length a) (split_once p s)"

definition docker_repository_scope :: "string \<Rightarrow> string \<Rightarrow> string \<Rightarrow> string" where
  "docker_repository_scope storage repository rest =
     (let slash = (\<lambda>c. c = CHR ''/''); trimmed = trim_end_while slash (trim_start_while slash rest)
      in if trimmed = [] then storage @ ''/'' @ repository
         else let end_pos = foldl (\<lambda>e marker. case find_index marker trimmed of
                                 Some idx \<Rightarrow> if idx < e then idx else e | None \<Rightarrow> e)
                            (length trimmed) [''/blobs/'', ''/manifests/'', ''/tags/'', ''/_catalog''];
                  repo_suffix = trim_end_while slash (take end_pos trimmed)
              in if repo_suffix = [] then storage @ ''/'' @ repository
                 else storage @ ''/'' @ repository @ ''/'' @ repo_suffix)"

section \<open>Finding a repository by its names\<close>

datatype repository_type = Docker | Helm | OtherType string

record loaded_repository =
  lr_id :: uuid
  lr_type :: repository_type
  lr_active :: bool
  lr_visibility :: visibility

record docker_site = auth_site +
  storage_rows :: "(uuid \<times> string) list"
  repository_rows :: "(uuid \<times> uuid \<times> string) list"
  loaded :: "uuid \<rightharpoonup> loaded_repository"
  name_lookup_table :: "(string \<times> string) \<rightharpoonup> uuid"
  auth_configs :: "uuid \<rightharpoonup> auth_config"

type_synonym ('z, 'e, 'a) docker_op = "('z docker_site_scheme, 'e, 'a) stm"

definition storage_name_from :: "string \<Rightarrow> string \<Rightarrow> string \<times> string" where
  "storage_name_from storage_name repository_name = (to_lower storage_name, to_lower repository_name)"

text \<open>The join of \<open>repositories (id, storage_id, name)\<close> and \<open>storages (id, name)\<close>; both names have the
  collation \<open>ignoreCase\<close>.\<close>

definition names_match :: "(uuid \<times> string) list \<Rightarrow> string \<times> string \<Rightarrow> uuid \<times> uuid \<times> string \<Rightarrow> bool" where
  "names_match storages name row =
     (case row of (i, storage_id, repository_name) \<Rightarrow>
        eq_ignore_case repository_name (snd name) \<and>
        list_ex (\<lambda>(sid, sname). sid = storage_id \<and> eq_ignore_case sname (fst name)) storages)"

definition query_db :: "string \<times> string \<Rightarrow> ('z, sqlx_error, uuid option) docker_op" where
  "query_db name =
     select_sql QueryFailed
       (\<lambda>s. map_option fst (find (names_match (storage_rows s) name) (repository_rows s)))"

definition get_repository_from_names ::
  "string \<times> string \<Rightarrow> ('z, sqlx_error, loaded_repository option) docker_op" where
  "get_repository_from_names name s =
     (case name_lookup_table s name of
        Some i \<Rightarrow>
          (case loaded s i of
             None \<Rightarrow> (Inr None, s\<lparr>name_lookup_table := (name_lookup_table s)(name := None)\<rparr>)
           | Some repository \<Rightarrow> (Inr (Some repository), s))
      | None \<Rightarrow>
          bind_ok (query_db name) (\<lambda>found t.
            case found of
              None \<Rightarrow> (Inr None, t)
            | Some i \<Rightarrow>
                (case loaded t i of
                   None \<Rightarrow> (Inr None, t)
                 | Some repository \<Rightarrow>
                     (Inr (Some repository),
                      t\<lparr>name_lookup_table := (name_lookup_table t)(name \<mapsto> i)\<rparr>))) s)"

definition remove_repository :: "uuid \<Rightarrow> 'z docker_site_scheme \<Rightarrow> 'z docker_site_scheme" where
  "remove_repository i s =
     s\<lparr>loaded := (loaded s)(i := None),
       name_lookup_table :=
         (\<lambda>n. case name_lookup_table s n of Some j \<Rightarrow> if j \<noteq> i then Some j else None | None \<Rightarrow> None)\<rparr>"

definition default_auth_config :: auth_config where
  "default_auth_config = \<lparr>auth_enabled = True\<rparr>"

definition get_repository_auth_config :: "uuid \<Rightarrow> ('z, sqlx_error, auth_config) docker_op" where
  "get_repository_auth_config i =
     select_sql QueryFailed
       (\<lambda>s. case auth_configs s i of Some cfg \<Rightarrow> cfg | None \<Rightarrow> default_auth_config)"

section \<open>The token endpoint\<close>

text \<open>15 minutes in seconds; times count nanoseconds.\<close>

definition default_token_lifetime :: int where
  "default_token_lifetime = 15 * 60"

definition nanos :: int where
  "nanos = 1000000000"

record docker_token_query =
  dq_service :: "string option"
  dq_scope :: "string list"
  dq_account :: "string option"
  dq_client_id :: "string option"

text \<open>The query is deserialized pair by pair: the scopes of all pairs are collected, of the other keys
  the last one wins.\<close>

fun visit_query :: "docker_token_query \<Rightarrow> (string \<times> string) list \<Rightarrow> docker_token_query" where
  "visit_query q [] = q"
| "visit_query q ((key, value) # rest) =
     visit_query
       (if key = ''service'' then q\<lparr>dq_service := Some value\<rparr>
        else if key = ''scope'' then q\<lparr>dq_scope := dq_scope q @ split_scope_values value\<rparr>
        else if key = ''account'' then q\<lparr>dq_account := Some value\<rparr>
        else if key = ''client_id'' then q\<lparr>dq_client_id := Some value\<rparr>
        else q) rest"

definition deserialize_query :: "(string \<times> string) list \<Rightarrow> docker_token_query" where
  "deserialize_query pairs =
     visit_query \<lparr>dq_service = None, dq_scope = [], dq_account = None, dq_client_id = None\<rparr> pairs"

record docker_token_response =
  dr_token :: string
  dr_access_token :: string
  dr_expires_in :: int
  dr_issued_at :: string
  dr_scope :: "string option"

text \<open>The map of granted actions: \<open>entry(id).or_default()\<close>, and a push if the action is new.\<close>

fun grant :: "uuid \<Rightarrow> repository_action \<Rightarrow> (uuid \<times> repository_action list) list \<Rightarrow>
    (uuid \<times> repository_action list) list" where
  "grant i a [] = [(i, [a])]"
| "grant i a ((j, acts) # rest) =
     (if i = j then (j, push_new a acts) # rest else (j, acts) # grant i a rest)"

definition is_anonymous :: "repository_authentication \<Rightarrow> bool" where
  "is_anonymous a = (case a of RNoIdentification \<Rightarrow> True | RAnonymousDocker _ _ \<Rightarrow> True | _ \<Rightarrow> False)"

definition action_allowed ::
  "repository_authentication \<Rightarrow> loaded_repository \<Rightarrow> repository_action \<Rightarrow>
     ('z, docker_token_error, bool) docker_op" where
  "action_allowed authentication repository action =
     (if is_anonymous authentication
      then bind_ok (map_err (\<lambda>_. Internal) (get_repository_auth_config (lr_id repository))) (\<lambda>auth_config.
             if action = Read \<and> lr_active repository
             then map_err (\<lambda>_. Internal)
                    (can_read_repository_with_auth repository_has_action authentication
                       (lr_visibility repository) (lr_id repository) auth_config)
             else ret False)
      else map_err (\<lambda>_. Internal) (can_access_repository authentication action (lr_id repository)))"

fun check_actions ::
  "repository_authentication \<Rightarrow> loaded_repository \<Rightarrow> repository_action list \<Rightarrow>
     (uuid \<times> repository_action list) list \<Rightarrow>
     ('z, docker_token_error, (uuid \<times> repository_action list) list) docker_op" where
  "check_actions authentication repository [] requests = ret requests"
| "check_actions authentication repository (action # rest) requests =
     bind_ok (action_allowed authentication repository action) (\<lambda>allowed.
       if \<not> allowed
       then fail (if is_anonymous authentication then Authentication else DockerForbidden)
       else check_actions authentication repository rest (grant (lr_id repository) action requests))"

fun check_scopes ::
  "repository_authentication \<Rightarrow> parsed_scope list \<Rightarrow> (uuid \<times> repository_action list) list \<Rightarrow>
     ('z, docker_token_error, (uuid \<times> repository_action list) list) docker_op" where
  "check_scopes authentication [] requests = ret requests"
| "check_scopes authentication (scope # rest) requests =
     bind_ok (map_err (\<lambda>_. Internal)
         (get_repository_from_names (storage_name_from (ps_storage scope) (ps_repository scope))))
       (\<lambda>found.
          case found of
            None \<Rightarrow> fail (RepositoryNotFound (ps_raw scope))
          | Some repository \<Rightarrow>
              (case lr_type repository of
                 OtherType _ \<Rightarrow> fail (InvalidScope (ps_raw scope))
               | _ \<Rightarrow>
                   bind_ok (check_actions authentication repository (ps_actions scope) requests)
                     (check_scopes authentication rest)))"

definition handle_docker_token ::
  "(string \<Rightarrow> string) \<Rightarrow> (string \<Rightarrow> 'h option) \<Rightarrow> (string \<Rightarrow> 'h \<Rightarrow> bool) \<Rightarrow> (instant \<Rightarrow> string) \<Rightarrow>
     string list \<Rightarrow> string \<Rightarrow> docker_token_query \<Rightarrow> authentication_raw option \<Rightarrow>
     ('z, docker_token_error, docker_token_response option) docker_op" where
  "handle_docker_token hash parse_hash check_hash fmt draws fresh query auth_raw s0 =
     (let raw = (case auth_raw of Some inner \<Rightarrow> inner | None \<Rightarrow> RawNoIdentification)
      in bind_ok (map_err (\<lambda>_. Authentication) (from_raw hash parse_hash check_hash raw)) (\<lambda>authentication.
        let user = get_auth_user authentication
        in if user = None \<and> \<not> is_anonymous authentication then fail Authentication
           else bind_ok (from_result (parse_scopes (dq_scope query))) (\<lambda>scopes.
             bind_ok (check_scopes authentication scopes []) (\<lambda>requested.
               let respond = (\<lambda>token. \<lparr>dr_token = token, dr_access_token = token,
                     dr_expires_in = default_token_lifetime, dr_issued_at = fmt (now s0),
                     dr_scope = (if dq_scope query = [] then None
                                 else Some (join_with '' '' (dq_scope query)))\<rparr>)
               in case user of
                    Some user \<Rightarrow>
                      bind_ok (map_err (\<lambda>_. Internal)
                          (insert_repository_token hash draws
                             \<lparr>nr_user_id = us_id user,
                              nr_source = (case dq_client_id query of Some c \<Rightarrow> c | None \<Rightarrow> ''docker_bearer''),
                              nr_repositories = requested,
                              nr_expires_at = Some (now s0 + default_token_lifetime * nanos)\<rparr>))
                        (\<lambda>created.
                           case created of None \<Rightarrow> ret None
                           | Some (token_id, token) \<Rightarrow> ret (Some (respond token)))
                  | None \<Rightarrow>
                      (\<lambda>t. (Inr (Some (respond fresh)),
                            t\<lparr>anonymous_docker_tokens :=
                                cache_insert fresh (map fst requested) (anonymous_docker_tokens t)\<rparr>))))) s0)"

section \<open>Challenges\<close>

record registry_headers =
  rh_forwarded_proto :: "string option"
  rh_forwarded_host :: "string option"
  rh_host :: "string option"

definition first_some :: "'a option \<Rightarrow> 'a option \<Rightarrow> 'a option" where
  "first_some a b = (case a of Some x \<Rightarrow> Some x | None \<Rightarrow> b)"

definition resolve_registry_location ::
  "(string \<Rightarrow> string option) \<Rightarrow> (string \<Rightarrow> string option) \<Rightarrow> string \<Rightarrow> bool \<Rightarrow> registry_headers option \<Rightarrow>
     string \<times> string" where
  "resolve_registry_location extract_scheme extract_authority configured_url is_https headers =
     (let text = (\<lambda>f. Option.bind (Option.bind headers f) header_to_str);
          forwarded_proto = text rh_forwarded_proto;
          forwarded_host = text rh_forwarded_host;
          host_header = text rh_host;
          configured_scheme = (if configured_url \<noteq> [] then extract_scheme configured_url else None);
          configured_authority = (if configured_url \<noteq> [] then extract_authority configured_url else None);
          service = (case first_some (first_some forwarded_host host_header) configured_authority of
                       Some x \<Rightarrow> x | None \<Rightarrow> ''localhost'');
          authority_for_base =
            (case first_some (first_some forwarded_host configured_authority) host_header of
               Some x \<Rightarrow> x | None \<Rightarrow> service);
          scheme = (case first_some forwarded_proto configured_scheme of
                      Some x \<Rightarrow> x | None \<Rightarrow> if is_https then ''https'' else ''http'')
      in (scheme @ ''://'' @ authority_for_base, service))"

definition docker_scope_text :: "string \<Rightarrow> string list \<Rightarrow> string" where
  "docker_scope_text repository_scope actions =
     ''repository:'' @ repository_scope @ '':'' @ join_with '','' actions"

definition build_docker_bearer_challenge :: "string \<times> string \<Rightarrow> string \<Rightarrow> string list \<Rightarrow> string" where
  "build_docker_bearer_challenge location repository_scope actions =
     (case location of (base_url, service) \<Rightarrow>
        ''Bearer realm='' @ [CHR 0x22] @ base_url @ ''/v2/token'' @ [CHR 0x22] @ '',service='' @ [CHR 0x22] @
        service @ [CHR 0x22] @ '',scope='' @ [CHR 0x22] @ docker_scope_text repository_scope actions @ [CHR 0x22])"

definition build_registry_bearer_challenge :: "string \<times> string \<Rightarrow> string" where
  "build_registry_bearer_challenge location =
     (case location of (base_url, service) \<Rightarrow>
        ''Bearer realm='' @ [CHR 0x22] @ base_url @ ''/v2/token'' @ [CHR 0x22] @ '',service='' @ [CHR 0x22] @
        service @ [CHR 0x22])"

section \<open>What a Docker token grants\<close>

text \<open>The parts of the state a decision is made from; no step before the token is written changes
  them.\<close>

definition same_data :: "'z docker_site_scheme \<Rightarrow> 'z docker_site_scheme \<Rightarrow> bool" where
  "same_data s t \<longleftrightarrow>
     now t = now s \<and> repo_permissions t = repo_permissions s \<and> tokens t = tokens s \<and>
     token_seq t = token_seq s \<and> token_scopes t = token_scopes s \<and>
     token_repository_scopes t = token_repository_scopes s \<and> loaded t = loaded s \<and>
     auth_configs t = auth_configs s"

lemma same_data_refl [simp]: "same_data s s"
  by (simp add: same_data_def)

lemma same_data_trans: "same_data s t \<Longrightarrow> same_data t u \<Longrightarrow> same_data s u"
  by (simp add: same_data_def)

lemma same_data_faults [simp]: "same_data s (s\<lparr>faults := bs\<rparr>)"
  by (simp add: same_data_def)

lemma same_data_allowed: "same_data s t \<Longrightarrow> repo_allowed auth a r t = repo_allowed auth a r s"
proof (induction auth a r t rule: repo_allowed.induct)
qed (auto simp: same_data_def user_allowed_def token_allowed_def)

lemma same_data_wf: "same_data s t \<Longrightarrow> wf_tokens s \<Longrightarrow> wf_tokens t"
  by (simp add: same_data_def wf_tokens_def)

lemma reads_same_data: "reads m g \<Longrightarrow> m s = (r, t) \<Longrightarrow> same_data s t"
  using readsD(1) [of m g s r t] by auto

lemma cached_same_data:
  assumes "get_by_auth_token_cached hash k s = (r, t)"
  shows "same_data s t"
proof (cases "auth_token_cache s k")
  case (Some c)
  with assms show ?thesis by (auto simp: get_by_auth_token_cached_def same_data_def split: if_splits)
next
  case None
  obtain r1 s1 where g: "get_by_auth_token hash k s = (r1, s1)" by (rule prod.exhaust)
  from get_by_auth_token_out(1) [OF g] obtain bs where s1: "s1 = s\<lparr>faults := bs\<rparr>" by blast
  with assms None g show ?thesis
    by (cases r1) (auto simp: get_by_auth_token_cached_def same_data_def)
qed

lemma from_raw_same_data:
  assumes "from_raw hash parse_hash check_hash raw s = (r, t)"
  shows "same_data s t"
proof (cases raw)
  case (RawAuthToken k)
  show ?thesis
  proof (cases "anonymous_docker_tokens s k")
    case (Some rs)
    with assms RawAuthToken show ?thesis by (auto simp: from_raw_def ret_def)
  next
    case None
    obtain r1 t1 where c: "get_by_auth_token_cached hash k s = (r1, t1)" by (rule prod.exhaust)
    from cached_same_data [OF c] assms RawAuthToken None c show ?thesis
      by (cases r1) (auto simp: from_raw_def ret_def)
  qed
next
  case (RawSession session)
  obtain r1 t1 where c: "user_of_session session s = (r1, t1)" by (rule prod.exhaust)
  from user_of_session_faults [OF c] assms RawSession c show ?thesis
    by (cases r1) (auto simp: from_raw_def ret_def)
next
  case (RawBasic username password)
  obtain r1 t1 where v: "verify_login parse_hash check_hash username password s = (r1, t1)" by (rule prod.exhaust)
  obtain bs where t1: "t1 = s\<lparr>faults := bs\<rparr>" using verify_login_faults [OF v] by blast
  show ?thesis
  proof (cases "r1 = Inl Unauthorized")
    case False
    then have "t = t1"
      using assms RawBasic v
      by (cases r1; auto simp: from_raw_def split: authentication_error.splits)+
    with t1 show ?thesis by simp
  next
    case True
    obtain r2 t2 where c: "get_by_auth_token_cached hash password t1 = (r2, t2)" by (rule prod.exhaust)
    have "same_data s t1" by (simp add: t1)
    from same_data_trans [OF this cached_same_data [OF c]] assms RawBasic v True c show ?thesis
      by (cases r2) (auto simp: from_raw_def ret_def)
  qed
qed (use assms in \<open>auto simp: from_raw_def ret_def\<close>)

lemma names_same_data:
  assumes "get_repository_from_names name s = (r, t)"
  shows "same_data s t \<and> (\<forall>repository. r = Inr (Some repository) \<longrightarrow> repository \<in> ran (loaded s))"
proof (cases "name_lookup_table s name")
  case (Some i)
  with assms show ?thesis
    by (auto simp: get_repository_from_names_def same_data_def ran_def split: option.splits)
next
  case None
  have q: "reads (query_db name :: ('z, sqlx_error, uuid option) docker_op)
      (\<lambda>s. map_option fst (find (names_match (storage_rows s) name) (repository_rows s)))"
    unfolding query_db_def by (rule reads_select) (simp add: stable_def)
  obtain r1 s1 where a: "query_db name s = (r1, s1)" by (rule prod.exhaust)
  obtain bs where s1: "s1 = s\<lparr>faults := bs\<rparr>" using readsD(1) [OF q a] by blast
  show ?thesis
    using assms None a s1
    by (cases r1)
      (auto simp: get_repository_from_names_def bind_ok_def same_data_def ran_def split: option.splits)
qed

text \<open>The right behind one granted action.\<close>

definition action_right ::
  "repository_authentication \<Rightarrow> uuid \<Rightarrow> repository_action \<Rightarrow> 'z docker_site_scheme \<Rightarrow> bool" where
  "action_right auth i a s =
     (if is_anonymous auth
      then a = Read \<and> (\<exists>repository \<in> ran (loaded s). lr_id repository = i \<and> lr_active repository \<and>
             lr_visibility repository = Public \<and>
             (case auth_configs s i of None \<Rightarrow> False | Some cfg \<Rightarrow> \<not> auth_enabled cfg))
      else repo_allowed auth a i s)"

definition rights_only ::
  "repository_authentication \<Rightarrow> 'z docker_site_scheme \<Rightarrow> (uuid \<times> repository_action list) list \<Rightarrow> bool" where
  "rights_only auth s requests =
     (\<forall>(i, acts) \<in> set requests. acts \<noteq> [] \<and> (\<forall>a \<in> set acts. action_right auth i a s))"

lemma set_push_new [simp]: "set (push_new a xs) = insert a (set xs)"
  by (auto simp: push_new_def)

lemma push_new_not_Nil [simp]: "push_new a xs \<noteq> []"
  by (auto simp: push_new_def)

lemma grant_rights:
  "rights_only auth s requests \<Longrightarrow> action_right auth i a s \<Longrightarrow> rights_only auth s (grant i a requests)"
  by (induction i a requests rule: grant.induct) (auto simp: rights_only_def)

lemma same_data_right: "same_data s t \<Longrightarrow> action_right auth i a t = action_right auth i a s"
  using same_data_allowed [of s t auth a i] by (simp add: action_right_def same_data_def)

lemma reads_auth_config:
  "reads (get_repository_auth_config i :: ('z, sqlx_error, auth_config) docker_op)
     (\<lambda>s. case auth_configs s i of Some cfg \<Rightarrow> cfg | None \<Rightarrow> default_auth_config)"
  unfolding get_repository_auth_config_def by (rule reads_select) (simp add: stable_def)

lemma anonymous_allows_nothing: "is_anonymous auth \<Longrightarrow> \<not> repo_allowed auth a r s"
  by (cases auth) (auto simp: is_anonymous_def)

lemma map_err_state: "map_err f m s = (r, t) \<Longrightarrow> \<exists>r'. m s = (r', t)"
  by (auto simp: map_err_def split: prod.splits sum.splits)

lemma action_allowed_right:
  assumes "action_allowed auth repository a s = (Inr True, t)" and "repository \<in> ran (loaded s)"
  shows "same_data s t \<and> action_right auth (lr_id repository) a s"
proof (cases "is_anonymous auth")
  case False
  then have c: "can_access_repository auth a (lr_id repository) s = (Inr True, t)"
    using assms(1) by (simp add: action_allowed_def map_err_Inr)
  from readsD(2) [OF reads_can_access c] reads_same_data [OF reads_can_access c] False
  show ?thesis by (simp add: action_right_def)
next
  case True
  from assms(1) True obtain cfg s1
    where g: "get_repository_auth_config (lr_id repository) s = (Inr cfg, s1)"
      and k: "(if a = Read \<and> lr_active repository
             then map_err (\<lambda>_. Internal) (can_read_repository_with_auth repository_has_action auth
                       (lr_visibility repository) (lr_id repository) cfg)
             else ret False) s1 = (Inr True, t)"
    by (auto simp: action_allowed_def bind_ok_Inr_iff map_err_Inr)
  from k have act: "a = Read" "lr_active repository"
    and c: "can_read_repository_with_auth repository_has_action auth (lr_visibility repository)
              (lr_id repository) cfg s1 = (Inr True, t)"
    by (auto simp: ret_def map_err_Inr split: if_splits)
  note rd = repository.can_read_answers [of auth "lr_visibility repository" "lr_id repository" cfg]
  have sd: "same_data s t"
    using same_data_trans [OF reads_same_data [OF reads_auth_config g] reads_same_data [OF rd c]] .
  have pub: "\<not> auth_enabled cfg" "lr_visibility repository = Public"
    using readsD(2) [OF rd c] anonymous_allows_nothing [OF True]
    by (auto simp: repository.readable_def)
  have "cfg = (case auth_configs s (lr_id repository) of Some cfg \<Rightarrow> cfg | None \<Rightarrow> default_auth_config)"
    using readsD(2) [OF reads_auth_config g] by simp
  with pub(1) have conf: "case auth_configs s (lr_id repository) of None \<Rightarrow> False | Some cfg \<Rightarrow> \<not> auth_enabled cfg"
    by (auto simp: default_auth_config_def split: option.splits)
  from sd conf pub(2) act assms(2) True show ?thesis by (auto simp: action_right_def)
qed

lemma check_actions_rights:
  assumes "check_actions auth repository acts requests s = (Inr requests', t)"
    and "repository \<in> ran (loaded s)" and "rights_only auth s requests"
  shows "same_data s t \<and> rights_only auth s requests'"
  using assms
proof (induction acts arbitrary: requests s)
  case Nil
  then show ?case by (auto simp: ret_def)
next
  case (Cons a acts)
  from Cons.prems(1) obtain s1
    where a: "action_allowed auth repository a s = (Inr True, s1)"
      and k: "check_actions auth repository acts (grant (lr_id repository) a requests) s1 = (Inr requests', t)"
    by (auto simp: bind_ok_Inr_iff fail_def split: if_splits)
  note r = action_allowed_right [OF a Cons.prems(2)]
  have s1: "rights_only auth s1 rs = rights_only auth s rs" for rs
    using r same_data_right [of s s1] by (auto simp: rights_only_def)
  have "repository \<in> ran (loaded s1)" using r Cons.prems(2) by (simp add: same_data_def)
  from Cons.IH [OF k this] grant_rights [OF Cons.prems(3)] r same_data_trans show ?case
    unfolding s1 by blast
qed

lemma check_scopes_rights:
  assumes "check_scopes auth scopes requests s = (Inr requests', t)" and "rights_only auth s requests"
  shows "same_data s t \<and> rights_only auth s requests'"
  using assms
proof (induction scopes arbitrary: requests s)
  case Nil
  then show ?case by (auto simp: ret_def)
next
  case (Cons scope scopes)
  from Cons.prems(1) obtain found s1
    where g0: "get_repository_from_names (storage_name_from (ps_storage scope) (ps_repository scope)) s
        = (Inr found, s1)"
      and k0: "(case found of
            None \<Rightarrow> fail (RepositoryNotFound (ps_raw scope))
          | Some repository \<Rightarrow>
              (case lr_type repository of
                 OtherType _ \<Rightarrow> fail (InvalidScope (ps_raw scope))
               | _ \<Rightarrow>
                   bind_ok (check_actions auth repository (ps_actions scope) requests)
                     (check_scopes auth scopes))) s1 = (Inr requests', t)"
    by (auto simp: bind_ok_Inr_iff map_err_Inr)
  from k0 obtain repository where found: "found = Some repository" by (cases found) (auto simp: fail_def)
  from k0 [unfolded found] obtain rs s2
    where c: "check_actions auth repository (ps_actions scope) requests s1 = (Inr rs, s2)"
      and k: "check_scopes auth scopes rs s2 = (Inr requests', t)"
    by (cases "lr_type repository") (auto simp: bind_ok_Inr_iff fail_def)
  note g = g0 [unfolded found]
  note g' = names_same_data [OF g]
  have tr: "rights_only auth u rs = rights_only auth s rs" if "same_data s u" for u rs
    using that same_data_right [of s u] by (auto simp: rights_only_def)
  have "same_data s s1" "repository \<in> ran (loaded s1)" using g' by (auto simp: same_data_def)
  with check_actions_rights [OF c] Cons.prems(2) tr [of s1]
  have s2: "same_data s s2" "rights_only auth s rs" using same_data_trans by blast+
  with Cons.IH [OF k] tr [of s2] same_data_trans show ?case by blast
qed

lemma insert_repository_token_eq:
  "insert_repository_token hash draws new =
     insert_auth_token hash draws \<lparr>nt_user_id = nr_user_id new, nt_name = None, nt_description = None,
       nt_source = nr_source new, nt_expires_at = nr_expires_at new, nt_scopes = [],
       nt_repositories = nr_repositories new\<rparr>"
  by (simp add: insert_repository_token_def insert_auth_token_def bind_ok_ret cong: option.case_cong prod.case_cong)

text \<open>
  C14. A Docker bearer token never grants more than its requester may do. If the endpoint answers
  with a token for a known user, the token is stored for that user, is valid for fifteen minutes,
  and every action it grants on a repository was allowed to the request itself, with the limits of
  the session or token it came with, when it was made. For a request without a user the token only
  lists active public repositories for which authentication is switched off.
\<close>

theorem docker_token_within_rights:
  fixes s :: "'z docker_site_scheme"
  assumes out: "handle_docker_token hash parse_hash check_hash fmt draws fresh query auth_raw s = (Inr (Some resp), t)"
    and wf: "wf_tokens s"
  shows "\<exists>auth s1.
     from_raw hash parse_hash check_hash
       (case auth_raw of Some inner \<Rightarrow> inner | None \<Rightarrow> RawNoIdentification) s = (Inr auth, s1) \<and>
     (case get_auth_user auth of
        Some user \<Rightarrow>
          (\<exists>row. find (\<lambda>x. t_token x = hash (dr_token resp) \<and> token_live (now t) x) (tokens t) = Some row \<and>
             t_user_id row = us_id user \<and> t_expires_at row = Some (now s + 15 * 60 * nanos) \<and>
             (\<forall>a r. token_allowed row a r t \<longrightarrow> repo_allowed auth a r s))
      | None \<Rightarrow>
          is_anonymous auth \<and>
          (\<exists>ids. anonymous_docker_tokens t (dr_token resp) = Some ids \<and>
             (\<forall>i \<in> set ids. action_right auth i Read s)))"
proof -
  let ?raw = "case auth_raw of Some inner \<Rightarrow> inner | None \<Rightarrow> RawNoIdentification"
  obtain auth s1 where f: "from_raw hash parse_hash check_hash ?raw s = (Inr auth, s1)"
    and known: "\<not> (get_auth_user auth = None \<and> \<not> is_anonymous auth)"
    using out by (auto simp: handle_docker_token_def Let_def bind_ok_Inr_iff map_err_Inr fail_def split: if_splits)
  obtain scopes requested s2
    where c: "check_scopes auth scopes [] s1 = (Inr requested, s2)"
      and k: "(case get_auth_user auth of
         Some user \<Rightarrow> \<exists>i token. insert_repository_token hash draws
              \<lparr>nr_user_id = us_id user,
               nr_source = (case dq_client_id query of Some c \<Rightarrow> c | None \<Rightarrow> ''docker_bearer''),
               nr_repositories = requested, nr_expires_at = Some (now s + default_token_lifetime * nanos)\<rparr> s2 =
              (Inr (Some (i, token)), t) \<and> dr_token resp = token
       | None \<Rightarrow> dr_token resp = fresh \<and>
            t = s2\<lparr>anonymous_docker_tokens := cache_insert fresh (map fst requested) (anonymous_docker_tokens s2)\<rparr>)"
    using out known f
    by (auto simp: handle_docker_token_def Let_def bind_ok_Inr_iff map_err_Inr fail_def ret_def from_result_def
        split: option.splits prod.splits)
  have d1: "same_data s s1" by (rule from_raw_same_data [OF f])
  have c': "same_data s1 s2" "rights_only auth s1 requested"
    using check_scopes_rights [OF c] by (auto simp: rights_only_def)
  have d2: "same_data s s2" by (rule same_data_trans [OF d1 c'(1)])
  have rights: "acts \<noteq> [] \<and> (\<forall>a \<in> set acts. action_right auth i a s)" if "(i, acts) \<in> set requested" for i acts
    using c'(2) that same_data_right [OF d1] by (fastforce simp: rights_only_def)
  show ?thesis
  proof (cases "get_auth_user auth")
    case None
    have anon: "is_anonymous auth" using known None by simp
    have "action_right auth i Read s" if ids: "i \<in> set (map fst requested)" for i
    proof -
      from ids obtain acts where "(i, acts) \<in> set requested" by auto
      from rights [OF this] obtain a where "action_right auth i a s" by (metis list.set_intros(1) neq_Nil_conv)
      with anon show ?thesis by (simp add: action_right_def)
    qed
    with None k anon f show ?thesis by (auto simp: cache_insert_def)
  next
    case (Some user)
    have known_user: "\<not> is_anonymous auth" using Some by (cases auth) (auto simp: is_anonymous_def)
    let ?new = "\<lparr>nt_user_id = us_id user, nt_name = None, nt_description = None,
       nt_source = (case dq_client_id query of Some c \<Rightarrow> c | None \<Rightarrow> ''docker_bearer''),
       nt_expires_at = Some (now s + default_token_lifetime * nanos), nt_scopes = [],
       nt_repositories = requested\<rparr>"
    from k Some obtain i where ins: "insert_auth_token hash draws ?new s2 = (Inr (Some (i, dr_token resp)), t)"
      by (auto simp: insert_repository_token_eq)
    note e = insert_auth_token_effect [OF ins same_data_wf [OF d2 wf]]
    let ?row = "\<lparr>t_id = i, t_user_id = us_id user, t_name = None, t_description = None,
         t_token = hash (dr_token resp), t_active = True, t_source = nt_source ?new,
         t_expires_at = Some (now s + default_token_lifetime * nanos), t_created_at = now s2\<rparr>"
    have n: "now s2 = now s" using d2 by (simp add: same_data_def)
    have live: "token_live (now s2) ?row"
      by (simp add: token_live_def n default_token_lifetime_def nanos_def)
    have found: "find (\<lambda>x. t_token x = hash (dr_token resp) \<and> token_live (now t) x) (tokens t) = Some ?row"
      using e(1) live by (simp add: Let_def)
    have lim: "repo_allowed auth a r s" if "token_allowed ?row a r t" for a r
    proof -
      from that e(2) [of "scope_of_action a"] e(3) [of r]
      obtain acts where "map_of requested r = Some acts" "a \<in> set acts"
        by (auto simp: token_allowed_def split: option.splits)
      with rights [OF map_of_SomeD] known_user show ?thesis by (auto simp: action_right_def)
    qed
    have "\<exists>row. find (\<lambda>x. t_token x = hash (dr_token resp) \<and> token_live (now t) x) (tokens t) = Some row \<and>
             t_user_id row = us_id user \<and> t_expires_at row = Some (now s + 15 * 60 * nanos) \<and>
             (\<forall>a r. token_allowed row a r t \<longrightarrow> repo_allowed auth a r s)"
      by (rule exI [of _ ?row]) (use found lim in \<open>simp add: default_token_lifetime_def\<close>)
    with f Some show ?thesis by auto
  qed
qed

definition sample_docker_site :: docker_site where
  "sample_docker_site =
     \<lparr>faults = [], now = 20, users = users sample_token_db, user_seq = 3,
      repo_permissions = [\<lparr>p_id = 1, p_user_id = 2, p_repository_id = 7, p_actions = [Read, Write],
        p_updated_at = 0, p_created_at = 0\<rparr>],
      permission_seq = 2, repositories = [7, 8], tokens = tokens sample_token_db, token_seq = 2,
      token_scopes = token_scopes sample_token_db, token_scope_seq = 2, token_repository_scopes = [],
      token_repository_scope_seq = 1, auth_token_cache = Map.empty, anonymous_docker_tokens = Map.empty,
      storage_rows = [(1, ''Main'')], repository_rows = [(7, 1, ''images'')],
      loaded = [7 \<mapsto> \<lparr>lr_id = 7, lr_type = Docker, lr_active = True, lr_visibility = Public\<rparr>],
      name_lookup_table = Map.empty, auth_configs = Map.empty\<rparr>"

definition sample_docker_query :: docker_token_query where
  "sample_docker_query = deserialize_query [(''service'', ''x''), (''scope'', ''repository:main/images:push'')]"

theorem docker_token_within_rights_witness:
  "\<exists>resp t. handle_docker_token (\<lambda>x. CHR ''h'' # x) (\<lambda>_. None) (\<lambda>_ (_ :: unit). True) (\<lambda>_. []) [''0'', ''1''] ''f''
      sample_docker_query (Some (RawAuthToken ''0'')) sample_docker_site = (Inr (Some resp), t) \<and>
     dr_token resp = ''1'' \<and>
     (\<exists>auth s1. from_raw (\<lambda>x. CHR ''h'' # x) (\<lambda>_. None) (\<lambda>_ (_ :: unit). True) (RawAuthToken ''0'') sample_docker_site
        = (Inr auth, s1) \<and> get_auth_user auth \<noteq> None)"
proof -
  let ?h = "\<lambda>x. CHR ''h'' # x" and ?p = "\<lambda>_. None" and ?c = "\<lambda>_ (_ :: unit). True"
  let ?out = "handle_docker_token ?h ?p ?c (\<lambda>_. []) [''0'', ''1''] ''f'' sample_docker_query
      (Some (RawAuthToken ''0'')) sample_docker_site"
  let ?resp = "\<lparr>dr_token = ''1'', dr_access_token = ''1'', dr_expires_in = 900, dr_issued_at = [],
      dr_scope = Some ''repository:main/images:push''\<rparr>"
  have "fst ?out = Inr (Some ?resp)" by code_simp
  then have o: "?out = (Inr (Some ?resp), snd ?out)" by (metis prod.collapse)
  have "wf_tokens sample_docker_site" by code_simp
  from docker_token_within_rights [OF o this] obtain auth s1
    where f: "from_raw ?h ?p ?c (RawAuthToken ''0'') sample_docker_site = (Inr auth, s1)" by auto
  have "fst (from_raw ?h ?p ?c (RawAuthToken ''0'') sample_docker_site) =
      Inr (RAuthToken (hd (tokens sample_token_db)) (user_safe_from (sample_user 2 ''bob'' ''b@x'')))" by code_simp
  with f have "get_auth_user auth \<noteq> None" by auto
  moreover have "dr_token ?resp = ''1''" by simp
  ultimately show ?thesis using o f by blast
qed

section \<open>The scope of a challenge\<close>

lemma split_ws_no_space:
  assumes "s \<noteq> []" and "\<forall>c \<in> set s. \<not> is_space c"
  shows "split_ws s = [s]"
proof -
  obtain c cs where s: "s = c # cs" using assms(1) by (cases s) auto
  have "\<not> is_space c" "takeWhile (\<lambda>x. \<not> is_space x) cs = cs" "dropWhile (\<lambda>x. \<not> is_space x) cs = []"
    using assms(2) s by simp_all
  moreover have "split_ws [] = []" by (simp add: split_ws.simps)
  ultimately show ?thesis unfolding s by (subst split_ws.simps) (simp del: dropWhile_eq_Nil_conv)
qed

lemma docker_repository_scope_shape:
  obtains x where "set x \<subseteq> set rest"
    and "docker_repository_scope storage repository rest =
      storage @ ''/'' @ repository @ (if x = [] then [] else ''/'' @ x)"
proof -
  let ?slash = "\<lambda>c. c = CHR ''/''"
  let ?t = "trim_end_while ?slash (trim_start_while ?slash rest)"
  have sub: "set (trim_end_while P ys) \<subseteq> set ys" for P :: "char \<Rightarrow> bool" and ys
    using set_dropWhileD [of _ P "rev ys"] by (auto simp: trim_end_while_def)
  have t: "set ?t \<subseteq> set rest"
    using sub [of ?slash "trim_start_while ?slash rest"] set_dropWhileD [of _ ?slash rest]
    by (auto simp: trim_start_while_def)
  define n where "n = foldl (\<lambda>e marker. case find_index marker ?t of
         Some idx \<Rightarrow> if idx < e then idx else e | None \<Rightarrow> e)
      (length ?t) [''/blobs/'', ''/manifests/'', ''/tags/'', ''/_catalog'']"
  have n: "docker_repository_scope storage repository rest =
      storage @ ''/'' @ repository @
        (if ?t = [] \<or> trim_end_while ?slash (take n ?t) = [] then [] else ''/'' @ trim_end_while ?slash (take n ?t))"
    unfolding docker_repository_scope_def Let_def n_def by (simp del: foldl.simps)
  show ?thesis
  proof (cases "?t = []")
    case True
    with n show ?thesis by (intro that [of "[]"]) auto
  next
    case False
    have "set (trim_end_while ?slash (take n ?t)) \<subseteq> set rest"
      using sub [of ?slash "take n ?t"] set_take_subset [of n ?t] t by blast
    with n False show ?thesis by (intro that [of "trim_end_while ?slash (take n ?t)"]) auto
  qed
qed

lemma valid_char_plain: "valid_name_char c \<Longrightarrow> c \<noteq> CHR '':'' \<and> \<not> is_space c"
  by (auto simp: valid_name_char_def is_ascii_alnum_def is_ascii_alpha_def is_ascii_lower_def
      is_ascii_upper_def is_ascii_digit_def is_space_def Let_def)

lemma name_pattern_plain:
  "name_pattern s \<Longrightarrow> CHR '':'' \<notin> set s \<and> (\<forall>c \<in> set s. \<not> is_space c)"
  using valid_char_plain by (auto simp: name_pattern_valid valid_name_string_def list_all_iff)

lemma parse_scope_of_segments:
  assumes "name_pattern storage" "name_pattern repository" "storage \<noteq> ''repositories''"
    and "CHR '':'' \<notin> set x" and acts: "CHR '':'' \<notin> set acts"
    and S: "S = storage @ ''/'' @ repository @ (if x = [] then [] else ''/'' @ x)"
  shows "parse_scope (''repository:'' @ S @ '':'' @ acts) =
     Inr (Some \<lparr>ps_raw = ''repository:'' @ S @ '':'' @ acts, ps_storage = storage,
       ps_repository = repository, ps_actions = foldl add_action [] (split_on (CHR '','') acts)\<rparr>)"
proof -
  let ?text = "''repository:'' @ S @ '':'' @ acts"
  note st = name_pattern_safe [OF assms(1)] name_pattern_plain [OF assms(1)]
  note re = name_pattern_safe [OF assms(2)] name_pattern_plain [OF assms(2)]
  have S_plain: "CHR '':'' \<notin> set S" using st re assms(4) S by auto
  have "split_on (CHR '':'') ?text = split_on (CHR '':'') (''repository'' @ CHR '':'' # (S @ CHR '':'' # acts))"
    by simp
  also have "\<dots> = [''repository'', S, acts]"
    using split_on_append_sep [of "CHR '':''" "''repository''"] split_on_append_sep [OF S_plain, of acts]
      split_on_no_sep [OF acts] by simp
  finally have parts: "split_on (CHR '':'') ?text = [''repository'', S, acts]" .
  obtain more where segs: "split_on (CHR ''/'') S = storage # repository # more"
  proof (cases "x = []")
    case True
    with S st re that show ?thesis by (simp add: split_on_append_sep split_on_no_sep)
  next
    case False
    with S st re that show ?thesis by (simp add: split_on_append_sep)
  qed
  show ?thesis
    unfolding parse_scope_def parts Let_def
    using st(1) re(1) assms(3) by (simp add: segs)
qed

text \<open>
  The challenge the registry sends names the repository the client asked for. For a storage and
  a repository with valid names (a storage called \<open>repositories\<close> apart: the parser drops that word),
  whatever path of the registry API was requested, the scope text of the challenge is read back by
  the token endpoint as exactly this storage, this repository and the requested actions.
\<close>

theorem challenge_scope_roundtrip:
  assumes "storage_name_new storage = Inr storage" and "repository_name_new repository = Inr repository"
    and "storage \<noteq> ''repositories''" and "CHR '':'' \<notin> set rest" and "\<forall>c \<in> set rest. \<not> is_space c"
    and "actions \<noteq> []" and "set actions \<subseteq> {''pull'', ''push'', [CHR ''*'']}"
  shows "parse_scopes [docker_scope_text (docker_repository_scope storage repository rest) actions] =
     Inr [\<lparr>ps_raw = docker_scope_text (docker_repository_scope storage repository rest) actions,
       ps_storage = storage, ps_repository = repository, ps_actions = foldl add_action [] actions\<rparr>]"
proof -
  have names: "name_pattern storage" "name_pattern repository"
    using assms(1,2) by (simp_all add: storage_name.make_accepts repository_name.make_accepts)
  obtain x where x: "set x \<subseteq> set rest" and shape: "docker_repository_scope storage repository rest =
      storage @ ''/'' @ repository @ (if x = [] then [] else ''/'' @ x)"
    by (rule docker_repository_scope_shape)
  let ?S = "docker_repository_scope storage repository rest"
  let ?acts = "join_with '','' actions"
  have "set a \<subseteq> set (CHR ''*'' # '',pulsh'')" if "a \<in> set actions" for a
    using subsetD [OF assms(7) that] by auto
  then have "set ?acts \<subseteq> set (CHR ''*'' # '',pulsh'')" using set_join_with [of "'',''" actions] by fastforce
  moreover have "CHR '':'' \<notin> set (CHR ''*'' # '',pulsh'')" "\<forall>c \<in> set (CHR ''*'' # '',pulsh''). \<not> is_space c" by code_simp+
  ultimately have ap: "CHR '':'' \<notin> set ?acts" "\<forall>c \<in> set ?acts. \<not> is_space c" by blast+
  have xp: "CHR '':'' \<notin> set x" using x assms(4) by auto
  note one = parse_scope_of_segments [OF names assms(3) xp ap(1) shape]
  have spl: "split_on (CHR '','') ?acts = actions"
    by (rule split_on_join) (use assms(6,7) in auto)
  have scope_text: "docker_scope_text ?S actions = ''repository:'' @ ?S @ '':'' @ ?acts"
    by (simp add: docker_scope_text_def)
  have "\<forall>c \<in> set (docker_scope_text ?S actions). \<not> is_space c"
    using name_pattern_plain [OF names(1)] name_pattern_plain [OF names(2)] x assms(5) ap(2)
    unfolding docker_scope_text_def shape by (auto simp: is_space_def Let_def)
  then have "split_ws (docker_scope_text ?S actions) = [docker_scope_text ?S actions]"
    by (intro split_ws_no_space) (simp_all add: scope_text)
  then show ?thesis
    using one by (simp add: parse_scopes_def split_scope_values_def scope_text spl)
qed

theorem challenge_scope_roundtrip_witness:
  "parse_scopes [docker_scope_text (docker_repository_scope ''main'' ''images'' ''/team/app/manifests/1.0'') [''pull'', ''push'']]
     = Inr [\<lparr>ps_raw = ''repository:main/images/team/app:pull,push'', ps_storage = ''main'',
        ps_repository = ''images'', ps_actions = [Read, Write]\<rparr>]"
proof -
  let ?rest = "''/team/app/manifests/1.0''" and ?acts = "[''pull'', ''push'']"
  have h: "storage_name_new ''main'' = Inr ''main''" "repository_name_new ''images'' = Inr ''images''"
    "''main'' \<noteq> ''repositories''" "CHR '':'' \<notin> set ?rest" "\<forall>c \<in> set ?rest. \<not> is_space c"
    "?acts \<noteq> []" "set ?acts \<subseteq> {''pull'', ''push'', [CHR ''*'']}" by code_simp+
  have t: "docker_scope_text (docker_repository_scope ''main'' ''images'' ?rest) ?acts =
      ''repository:main/images/team/app:pull,push''" "foldl add_action [] ?acts = [Read, Write]" by code_simp+
  show ?thesis using challenge_scope_roundtrip [OF h] unfolding t .
qed

end
