(* ===== verification/Egress.thy ===== *)
theory Egress
  imports Prelude
begin

text \<open>
  The policy for outbound connections: the classification of IP addresses
  (crates/core/src/egress.rs), the policy object and the DNS resolver built on it
  (pkgly/src/utils/egress.rs), and the HTTP client that applies both to the first URL of a request
  and to every redirect (pkgly/src/utils/upstream.rs). A parsed URL is the record of what the code
  asks it for. Third-party code is a parameter: parsing and matching an IP network
  (\<open>parse_net\<close>, \<open>net_contains\<close>), parsing a URL, the system's DNS look-up and the transport.
\<close>

unbundle bit_operations_syntax

section \<open>Globally routable addresses\<close>

datatype ip_addr = V4 u32 | V6 u128

definition octets :: "u32 \<Rightarrow> u8 \<times> u8 \<times> u8 \<times> u8" where
  "octets ip = (ucast (drop_bit 24 ip), ucast (drop_bit 16 ip), ucast (drop_bit 8 ip), ucast ip)"

definition is_in_ipv6_network :: "u128 \<Rightarrow> u128 \<Rightarrow> nat \<Rightarrow> bool" where
  "is_in_ipv6_network address network bits =
     (drop_bit (128 - bits) address = drop_bit (128 - bits) network)"

definition is_ietf_global_ipv6_exception :: "u128 \<Rightarrow> bool" where
  "is_ietf_global_ipv6_exception address =
     ((0x20010001000000000000000000000001 \<le> address \<and> address \<le> 0x20010001000000000000000000000003) \<or>
      is_in_ipv6_network address 0x20010003000000000000000000000000 32 \<or>
      is_in_ipv6_network address 0x20010004011200000000000000000000 48 \<or>
      is_in_ipv6_network address 0x20010020000000000000000000000000 28 \<or>
      is_in_ipv6_network address 0x20010030000000000000000000000000 28)"

text \<open>\<open>Ipv6Addr::to_ipv4\<close>: some address for \<open>::a.b.c.d\<close> and \<open>::ffff:a.b.c.d\<close>.\<close>

definition to_ipv4 :: "u128 \<Rightarrow> u32 option" where
  "to_ipv4 ip = (if drop_bit 32 ip = 0 \<or> drop_bit 32 ip = 0xFFFF then Some (ucast ip) else None)"

definition is_global :: "ip_addr \<Rightarrow> bool" where
  "is_global address =
     (case address of
        V4 ip \<Rightarrow>
          (case octets ip of (a, b, c, d) \<Rightarrow>
             \<not> (a = 0 \<or> a = 10 \<or> a = 127 \<or>
                (a = 100 \<and> 64 \<le> b \<and> b \<le> 127) \<or>
                (a = 169 \<and> b = 254) \<or>
                (a = 172 \<and> 16 \<le> b \<and> b \<le> 31) \<or>
                (a = 192 \<and> b = 168) \<or>
                (a = 192 \<and> b = 0 \<and> (c = 0 \<or> c = 2)) \<or>
                (a = 192 \<and> b = 88 \<and> c = 99) \<or>
                (a = 198 \<and> (b = 18 \<or> b = 19)) \<or>
                (a = 198 \<and> b = 51 \<and> c = 100) \<or>
                (a = 203 \<and> b = 0 \<and> c = 113) \<or>
                224 \<le> a \<or>
                (a = 255 \<and> b = 255 \<and> c = 255 \<and> d = 255)))
      | V6 ip \<Rightarrow>
          if to_ipv4 ip \<noteq> None then False
          else
            is_in_ipv6_network ip 0x20000000000000000000000000000000 3 \<and>
            (\<not> is_in_ipv6_network ip 0x20010000000000000000000000000000 23 \<or> is_ietf_global_ipv6_exception ip) \<and>
            \<not> is_in_ipv6_network ip 0x20010db8000000000000000000000000 32 \<and>
            \<not> is_in_ipv6_network ip 0x20020000000000000000000000000000 16 \<and>
            \<not> is_in_ipv6_network ip 0x3fff0000000000000000000000000000 20)"

section \<open>The policy\<close>

datatype egress_error =
    UnsupportedScheme
  | MissingHost
  | Credentials
  | Blocked
  | InvalidCidr string

record egress_settings =
  set_allowed_hosts :: "string list"
  set_allowed_cidrs :: "string list"

text \<open>The hosts are a set; its insertion order is kept here and never read.\<close>

record 'net egress_policy =
  allowed_hosts :: "string list"
  allowed_cidrs :: "'net list"

fun parse_cidrs :: "(string \<Rightarrow> 'net option) \<Rightarrow> string list \<Rightarrow> egress_error + 'net list" where
  "parse_cidrs parse_net [] = Inr []"
| "parse_cidrs parse_net (value # rest) =
     (case parse_net value of
        None \<Rightarrow> Inl (InvalidCidr value)
      | Some n \<Rightarrow> (case parse_cidrs parse_net rest of Inl e \<Rightarrow> Inl e | Inr ns \<Rightarrow> Inr (n # ns)))"

definition host_key :: "string \<Rightarrow> string" where
  "host_key host = to_lower (trim_end_while (\<lambda>c. c = CHR ''.'') host)"

definition from_settings ::
  "(string \<Rightarrow> 'net option) \<Rightarrow> egress_settings \<Rightarrow> egress_error + 'net egress_policy" where
  "from_settings parse_net settings =
     (case parse_cidrs parse_net (set_allowed_cidrs settings) of
        Inl e \<Rightarrow> Inl e
      | Inr cidrs \<Rightarrow>
          Inr \<lparr>allowed_hosts = filter (\<lambda>host. host \<noteq> []) (map host_key (set_allowed_hosts settings)),
               allowed_cidrs = cidrs\<rparr>)"

definition validate_address ::
  "('net \<Rightarrow> ip_addr \<Rightarrow> bool) \<Rightarrow> 'net egress_policy \<Rightarrow> string \<Rightarrow> ip_addr \<Rightarrow> egress_error + unit" where
  "validate_address net_contains policy host address =
     (let host_allowed = host_key host \<in> set (allowed_hosts policy);
          range_allowed = list_ex (\<lambda>network. net_contains network address) (allowed_cidrs policy)
      in if is_global address \<or> host_allowed \<or> range_allowed then Inr () else Inl Blocked)"

datatype url_host = Ipv4Host u32 | Ipv6Host u128 | Domain string

record parsed_url =
  url_scheme :: string
  url_username :: string
  url_password :: "string option"
  url_host_str :: "string option"
  url_host :: "url_host option"

definition validate_url ::
  "('net \<Rightarrow> ip_addr \<Rightarrow> bool) \<Rightarrow> 'net egress_policy \<Rightarrow> parsed_url \<Rightarrow> egress_error + unit" where
  "validate_url net_contains policy url =
     (if url_scheme url \<noteq> ''http'' \<and> url_scheme url \<noteq> ''https'' then Inl UnsupportedScheme
      else case url_host_str url of
             None \<Rightarrow> Inl MissingHost
           | Some host \<Rightarrow>
               if url_username url \<noteq> [] \<or> url_password url \<noteq> None then Inl Credentials
               else case url_host url of
                      Some (Ipv4Host ip) \<Rightarrow> validate_address net_contains policy host (V4 ip)
                    | Some (Ipv6Host ip) \<Rightarrow> validate_address net_contains policy host (V6 ip)
                    | Some (Domain _) \<Rightarrow> Inr ()
                    | None \<Rightarrow> Inl MissingHost)"

text \<open>The process-wide policy: \<open>None\<close> is the cell before its first use.\<close>

definition install ::
  "(string \<Rightarrow> 'net option) \<Rightarrow> egress_settings \<Rightarrow> 'net egress_policy option \<Rightarrow>
     (egress_error + unit) \<times> 'net egress_policy option" where
  "install parse_net settings cell =
     (case from_settings parse_net settings of
        Inl e \<Rightarrow> (Inl e, cell)
      | Inr policy \<Rightarrow> (Inr (), Some policy))"

definition global_policy ::
  "(string \<Rightarrow> 'net option) \<Rightarrow> 'net egress_policy option \<Rightarrow> 'net egress_policy \<times> 'net egress_policy option"
where
  "global_policy parse_net cell =
     (case cell of
        Some policy \<Rightarrow> (policy, cell)
      | None \<Rightarrow>
          (let policy = (case from_settings parse_net \<lparr>set_allowed_hosts = [], set_allowed_cidrs = []\<rparr> of
                           Inr policy \<Rightarrow> policy
                         | Inl _ \<Rightarrow> \<lparr>allowed_hosts = [], allowed_cidrs = []\<rparr>)
           in (policy, Some policy)))"

definition validate_proxy_url ::
  "('net \<Rightarrow> ip_addr \<Rightarrow> bool) \<Rightarrow> (string \<Rightarrow> parsed_url option) \<Rightarrow> 'net egress_policy \<Rightarrow> string \<Rightarrow>
     egress_error + unit" where
  "validate_proxy_url net_contains parse_url policy value =
     (case parse_url value of None \<Rightarrow> Inl MissingHost | Some url \<Rightarrow> validate_url net_contains policy url)"

fun validate_proxy_urls ::
  "('net \<Rightarrow> ip_addr \<Rightarrow> bool) \<Rightarrow> (string \<Rightarrow> parsed_url option) \<Rightarrow> 'net egress_policy \<Rightarrow> string list \<Rightarrow>
     egress_error + unit" where
  "validate_proxy_urls net_contains parse_url policy [] = Inr ()"
| "validate_proxy_urls net_contains parse_url policy (value # rest) =
     (case validate_proxy_url net_contains parse_url policy value of
        Inl e \<Rightarrow> Inl e
      | Inr _ \<Rightarrow> validate_proxy_urls net_contains parse_url policy rest)"

section \<open>Name resolution\<close>

datatype 'e resolve_error = LookupFailed 'e | EgressBlocked

fun validate_addresses ::
  "('net \<Rightarrow> ip_addr \<Rightarrow> bool) \<Rightarrow> 'net egress_policy \<Rightarrow> string \<Rightarrow> ip_addr list \<Rightarrow> 'e resolve_error + unit" where
  "validate_addresses net_contains policy host [] = Inr ()"
| "validate_addresses net_contains policy host (address # rest) =
     (case validate_address net_contains policy host address of
        Inl _ \<Rightarrow> Inl EgressBlocked
      | Inr _ \<Rightarrow> validate_addresses net_contains policy host rest)"

definition safe_resolve ::
  "('net \<Rightarrow> ip_addr \<Rightarrow> bool) \<Rightarrow> 'net egress_policy \<Rightarrow> (string \<Rightarrow> 'e + ip_addr list) \<Rightarrow> string \<Rightarrow>
     'e resolve_error + ip_addr list" where
  "safe_resolve net_contains policy lookup_host host =
     (case lookup_host host of
        Inl e \<Rightarrow> Inl (LookupFailed e)
      | Inr addresses \<Rightarrow>
          if addresses = [] then Inl EgressBlocked
          else case validate_addresses net_contains policy host addresses of
                 Inl e \<Rightarrow> Inl e
               | Inr _ \<Rightarrow> Inr addresses)"

section \<open>The client\<close>

datatype redirect_action = Stop | Refuse | Follow

definition redirect_policy ::
  "('net \<Rightarrow> ip_addr \<Rightarrow> bool) \<Rightarrow> 'net egress_policy \<Rightarrow> parsed_url list \<Rightarrow> parsed_url \<Rightarrow> redirect_action" where
  "redirect_policy net_contains policy previous url =
     (if length previous \<ge> 5 then Stop
      else case validate_url net_contains policy url of Inl _ \<Rightarrow> Refuse | Inr _ \<Rightarrow> Follow)"

datatype 'e upstream_error = Request 'e | UpstreamBlocked

definition execute ::
  "('net \<Rightarrow> ip_addr \<Rightarrow> bool) \<Rightarrow> 'net egress_policy \<Rightarrow> (parsed_url \<Rightarrow> 's \<Rightarrow> ('e + 'r) \<times> 's) \<Rightarrow> parsed_url \<Rightarrow> 's \<Rightarrow>
     ('e upstream_error + 'r) \<times> 's" where
  "execute net_contains policy client_execute url s =
     (case validate_url net_contains policy url of
        Inl _ \<Rightarrow> (Inl UpstreamBlocked, s)
      | Inr _ \<Rightarrow>
          (case client_execute url s of (Inl e, t) \<Rightarrow> (Inl (Request e), t) | (Inr r, t) \<Rightarrow> (Inr r, t)))"

section \<open>Reserved networks\<close>

text \<open>The IPv4 networks that are not globally routable, and reserved IPv6 networks, as address and
  prefix length.\<close>

definition reserved_v4 :: "(u32 \<times> nat) list" where
  "reserved_v4 =
     [(0x00000000, 8), (0x0A000000, 8), (0x7F000000, 8), (0x64400000, 10), (0xA9FE0000, 16),
      (0xAC100000, 12), (0xC0A80000, 16), (0xC0000000, 24), (0xC0000200, 24), (0xC0586300, 24),
      (0xC6120000, 15), (0xC6336400, 24), (0xCB007100, 24), (0xE0000000, 3)]"

definition in_v4_network :: "u32 \<Rightarrow> u32 \<times> nat \<Rightarrow> bool" where
  "in_v4_network ip n = (drop_bit (32 - snd n) ip = drop_bit (32 - snd n) (fst n))"

text \<open>Unspecified, loopback, IPv4-mapped, the two NAT64 prefixes, discard-only, Teredo, benchmarking,
  documentation, 6to4, documentation, segment routing, unique local, link local, multicast.\<close>

definition reserved_v6 :: "(u128 \<times> nat) list" where
  "reserved_v6 =
     [(0, 128), (1, 128), (0x0000000000000000FFFF00000000, 96), (0x0064ff9b000000000000000000000000, 96),
      (0x0064ff9b000100000000000000000000, 48), (0x01000000000000000000000000000000, 64),
      (0x20010000000000000000000000000000, 32), (0x20010002000000000000000000000000, 48),
      (0x20010db8000000000000000000000000, 32), (0x20020000000000000000000000000000, 16),
      (0x3fff0000000000000000000000000000, 20), (0x5f000000000000000000000000000000, 16),
      (0xfc000000000000000000000000000000, 7), (0xfe800000000000000000000000000000, 10),
      (0xff000000000000000000000000000000, 8)]"

lemma unat_drop: "unat (drop_bit k (ip :: u32)) = unat ip div 2 ^ k"
  by (simp add: unat_drop_bit_eq drop_bit_eq_div [where 'a = nat])

lemma unat_octet: "unat (ucast (drop_bit k ip :: u32) :: u8) = unat ip div 2 ^ k mod 256"
  by (simp add: unsigned_ucast_eq unat_drop take_bit_eq_mod)

lemma in_v4_network_div: "in_v4_network ip (n, k) \<longleftrightarrow> unat ip div 2 ^ (32 - k) = unat n div 2 ^ (32 - k)"
  by (simp add: in_v4_network_def word_unat_eq_iff unat_drop)

text \<open>The four octets as digits of the address in base 256, and the tests in terms of them.\<close>

lemma div_digits:
  fixes m :: nat
  shows "m div 2 ^ 8 = m div 256" "m div 2 ^ 16 = m div 256 div 256" "m div 2 ^ 24 = m div 256 div 256 div 256"
  by (simp_all add: div_mult2_eq [symmetric])

lemma octet_digits:
  assumes "octets ip = (a, b, c, d)"
  shows "unat ip = ((unat a * 256 + unat b) * 256 + unat c) * 256 + unat d"
    and "unat a < 256" "unat b < 256" "unat c < 256" "unat d < 256"
proof -
  define m1 where "m1 = unat ip div 256"
  define m2 where "m2 = m1 div 256"
  define m3 where "m3 = m2 div 256"
  have a: "unat a = m3 mod 256" and b: "unat b = m2 mod 256"
    and c: "unat c = m1 mod 256" and d: "unat d = unat ip mod 256"
    using assms unat_octet [of 24 ip] unat_octet [of 16 ip] unat_octet [of 8 ip] unat_octet [of 0 ip]
    unfolding div_digits m1_def m2_def m3_def by (auto simp: octets_def)
  have "unat ip < 2 ^ 32" using unsigned_less [of ip] by simp
  then have "m3 < 256" by (simp add: m1_def m2_def m3_def less_mult_imp_div_less)
  then have "m3 = unat a" by (simp add: a)
  moreover have "m2 = m3 * 256 + unat b" "m1 = m2 * 256 + unat c" "unat ip = m1 * 256 + unat d"
    unfolding b c d m1_def m2_def m3_def by simp_all
  ultimately show "unat ip = ((unat a * 256 + unat b) * 256 + unat c) * 256 + unat d" by simp
  show "unat a < 256" "unat b < 256" "unat c < 256" "unat d < 256" by (simp_all add: a b c d)
qed

lemma push_digit: "(d :: nat) < 256 \<Longrightarrow> (x * 256 + d) div 256 = x"
  by simp

lemma network_of_digits:
  fixes a b c d :: nat
  assumes "a < 256" "b < 256" "c < 256" "d < 256" and n: "n = ((a * 256 + b) * 256 + c) * 256 + d"
  shows "n div 2 ^ 24 = a" "n div 2 ^ 16 = a * 256 + b" "n div 2 ^ 8 = (a * 256 + b) * 256 + c"
    "n div 2 ^ 22 = a * 4 + b div 64" "n div 2 ^ 20 = a * 16 + b div 16" "n div 2 ^ 17 = a * 128 + b div 2"
    "n div 2 ^ 29 = a div 32"
proof -
  show d24: "n div 2 ^ 24 = a" and d16: "n div 2 ^ 16 = a * 256 + b"
    and "n div 2 ^ 8 = (a * 256 + b) * 256 + c"
    unfolding div_digits n by (simp_all only: push_digit assms)
  have "n div 2 ^ 22 = (a * 256 + b) div 64" "n div 2 ^ 20 = (a * 256 + b) div 16"
    "n div 2 ^ 17 = (a * 256 + b) div 2"
    unfolding d16 [symmetric] by (simp_all add: div_mult2_eq [symmetric])
  moreover have "(a * 256 + b) div 64 = a * 4 + b div 64" "(a * 256 + b) div 16 = a * 16 + b div 16"
    "(a * 256 + b) div 2 = a * 128 + b div 2" by presburger+
  ultimately show "n div 2 ^ 22 = a * 4 + b div 64" "n div 2 ^ 20 = a * 16 + b div 16"
    "n div 2 ^ 17 = a * 128 + b div 2" by simp_all
  show "n div 2 ^ 29 = a div 32" unfolding d24 [symmetric] by (simp add: div_mult2_eq [symmetric])
qed

lemma digit_eq:
  assumes "(b :: nat) < k" "v < k"
  shows "x * k + b = y * k + v \<longleftrightarrow> x = y \<and> b = v"
proof
  assume h: "x * k + b = y * k + v"
  have "(x * k + b) div k = x" "(y * k + v) div k = y" using assms by simp_all
  with h show "x = y \<and> b = v" by simp
qed simp

lemma digit_pairs:
  fixes a b c :: nat
  assumes "b < 256" "c < 256"
  shows "a * 256 + b = 43518 \<longleftrightarrow> a = 169 \<and> b = 254"
    and "a * 256 + b = 49320 \<longleftrightarrow> a = 192 \<and> b = 168"
    and "(a * 256 + b) * 256 + c = 12582912 \<longleftrightarrow> a = 192 \<and> b = 0 \<and> c = 0"
    and "(a * 256 + b) * 256 + c = 12582914 \<longleftrightarrow> a = 192 \<and> b = 0 \<and> c = 2"
    and "(a * 256 + b) * 256 + c = 12605539 \<longleftrightarrow> a = 192 \<and> b = 88 \<and> c = 99"
    and "(a * 256 + b) * 256 + c = 12989284 \<longleftrightarrow> a = 198 \<and> b = 51 \<and> c = 100"
    and "(a * 256 + b) * 256 + c = 13303921 \<longleftrightarrow> a = 203 \<and> b = 0 \<and> c = 113"
  using digit_eq [OF assms(1), of 254 a 169] digit_eq [OF assms(1), of 168 a 192]
    digit_eq [OF assms(1), of 0 a 192] digit_eq [OF assms(1), of 88 a 192]
    digit_eq [OF assms(1), of 51 a 198] digit_eq [OF assms(1), of 0 a 203]
    digit_eq [OF assms(2), of 0 "a * 256 + b" "192 * 256 + 0"]
    digit_eq [OF assms(2), of 2 "a * 256 + b" "192 * 256 + 0"]
    digit_eq [OF assms(2), of 99 "a * 256 + b" "192 * 256 + 88"]
    digit_eq [OF assms(2), of 100 "a * 256 + b" "198 * 256 + 51"]
    digit_eq [OF assms(2), of 113 "a * 256 + b" "203 * 256 + 0"]
  by simp_all

lemma div_range: "0 < k \<Longrightarrow> (b :: nat) div k = q \<longleftrightarrow> q * k \<le> b \<and> b < Suc q * k"
  using div_nat_eqI [of k q b] dividend_less_div_times [of k b] by (auto simp: mult.commute)

lemma digit_ranges:
  fixes a b :: nat
  assumes "b < 256" and "a < 256"
  shows "a * 4 + b div 64 = 401 \<longleftrightarrow> a = 100 \<and> 64 \<le> b \<and> b \<le> 127"
    and "a * 16 + b div 16 = 2753 \<longleftrightarrow> a = 172 \<and> 16 \<le> b \<and> b \<le> 31"
    and "a * 128 + b div 2 = 25353 \<longleftrightarrow> a = 198 \<and> (b = 18 \<or> b = 19)"
    and "a div 32 = 7 \<longleftrightarrow> 224 \<le> a"
proof -
  have "b div 64 < 4" "b div 16 < 16" "b div 2 < 128" using assms(1) by (simp_all add: less_mult_imp_div_less)
  from digit_eq [OF this(1), of 1 a 100] digit_eq [OF this(2), of 1 a 172] digit_eq [OF this(3), of 9 a 198]
  have "a * 4 + b div 64 = 401 \<longleftrightarrow> a = 100 \<and> b div 64 = 1"
    and "a * 16 + b div 16 = 2753 \<longleftrightarrow> a = 172 \<and> b div 16 = 1"
    and "a * 128 + b div 2 = 25353 \<longleftrightarrow> a = 198 \<and> b div 2 = 9" by simp_all
  moreover have "b div 64 = 1 \<longleftrightarrow> 64 \<le> b \<and> b \<le> 127" "b div 16 = 1 \<longleftrightarrow> 16 \<le> b \<and> b \<le> 31"
    "b div 2 = 9 \<longleftrightarrow> b = 18 \<or> b = 19"
    by (simp_all add: div_range) linarith+
  ultimately show "a * 4 + b div 64 = 401 \<longleftrightarrow> a = 100 \<and> 64 \<le> b \<and> b \<le> 127"
    and "a * 16 + b div 16 = 2753 \<longleftrightarrow> a = 172 \<and> 16 \<le> b \<and> b \<le> 31"
    and "a * 128 + b div 2 = 25353 \<longleftrightarrow> a = 198 \<and> (b = 18 \<or> b = 19)" by simp_all
  show "a div 32 = 7 \<longleftrightarrow> 224 \<le> a" using assms(2) by (simp add: div_range)
qed

lemma unat_u8:
  fixes x :: u8
  shows "unat x = 10 \<longleftrightarrow> x = 10" "unat x = 127 \<longleftrightarrow> x = 127" "unat x = 100 \<longleftrightarrow> x = 100"
    "unat x = 172 \<longleftrightarrow> x = 172" "unat x = 198 \<longleftrightarrow> x = 198" "unat x = 18 \<longleftrightarrow> x = 18" "unat x = 19 \<longleftrightarrow> x = 19"
    "unat x = 169 \<longleftrightarrow> x = 169" "unat x = 254 \<longleftrightarrow> x = 254" "unat x = 192 \<longleftrightarrow> x = 192"
    "unat x = 168 \<longleftrightarrow> x = 168" "unat x = 2 \<longleftrightarrow> x = 2" "unat x = 88 \<longleftrightarrow> x = 88" "unat x = 99 \<longleftrightarrow> x = 99"
    "unat x = 51 \<longleftrightarrow> x = 51" "unat x = 203 \<longleftrightarrow> x = 203" "unat x = 113 \<longleftrightarrow> x = 113" "unat x = 0 \<longleftrightarrow> x = 0"
    "64 \<le> unat x \<longleftrightarrow> 64 \<le> x" "unat x \<le> 127 \<longleftrightarrow> x \<le> 127" "16 \<le> unat x \<longleftrightarrow> 16 \<le> x"
    "unat x \<le> 31 \<longleftrightarrow> x \<le> 31" "224 \<le> unat x \<longleftrightarrow> 224 \<le> x"
  by (simp_all add: word_unat_eq_iff word_le_nat_alt)

lemma is_global_v4: "is_global (V4 ip) \<longleftrightarrow> \<not> list_ex (in_v4_network ip) reserved_v4"
proof -
  obtain a b c d where o: "octets ip = (a, b, c, d)" by (rule prod_cases4)
  note dg = octet_digits [OF o]
  note net = network_of_digits [OF dg(2-5) dg(1)]
  have last: "224 \<le> a \<or> a = 255 \<and> b = 255 \<and> c = 255 \<and> d = 255 \<longleftrightarrow> 224 \<le> a" by auto
  have one_or_two: "a = 192 \<and> b = 0 \<and> (c = 0 \<or> c = 2) \<longleftrightarrow>
      (a = 192 \<and> b = 0 \<and> c = 0) \<or> (a = 192 \<and> b = 0 \<and> c = 2)" by blast
  have "list_ex (in_v4_network ip) reserved_v4 \<longleftrightarrow>
     unat a = 0 \<or> unat a = 10 \<or> unat a = 127 \<or> unat a * 4 + unat b div 64 = 401 \<or>
     unat a * 256 + unat b = 43518 \<or> unat a * 16 + unat b div 16 = 2753 \<or>
     unat a * 256 + unat b = 49320 \<or> (unat a * 256 + unat b) * 256 + unat c = 12582912 \<or>
     (unat a * 256 + unat b) * 256 + unat c = 12582914 \<or>
     (unat a * 256 + unat b) * 256 + unat c = 12605539 \<or> unat a * 128 + unat b div 2 = 25353 \<or>
     (unat a * 256 + unat b) * 256 + unat c = 12989284 \<or>
     (unat a * 256 + unat b) * 256 + unat c = 13303921 \<or> unat a div 32 = 7"
    using net by (simp add: reserved_v4_def in_v4_network_div)
  also have "\<dots> \<longleftrightarrow> \<not> is_global (V4 ip)"
    unfolding digit_pairs [OF dg(3,4)] digit_ranges [OF dg(3,2)] unat_u8 is_global_def
    by (simp only: ip_addr.case o prod.case last one_or_two not_not disj_assoc)
  finally show ?thesis by blast
qed

text \<open>An address in a network is in every coarser one, and not in a network that differs in a common
  prefix.\<close>

lemma coarser:
  assumes "is_in_ipv6_network x n k" and "j \<le> k" "k \<le> 128"
  shows "is_in_ipv6_network x n j"
proof -
  have "drop_bit (k - j) (drop_bit (128 - k) x) = drop_bit (k - j) (drop_bit (128 - k) n)"
    using assms(1) by (simp add: is_in_ipv6_network_def)
  then show ?thesis using assms(2,3) by (simp add: is_in_ipv6_network_def)
qed

lemma disjoint_networks:
  assumes "is_in_ipv6_network x n k" and "j \<le> k" "k \<le> 128" and "\<not> is_in_ipv6_network n m j"
  shows "\<not> is_in_ipv6_network x m j"
  using coarser [OF assms(1-3)] assms(4) by (simp add: is_in_ipv6_network_def)

lemma not_in_range:
  assumes "is_in_ipv6_network x n k" and "k \<le> 128" "j \<le> k"
    and "\<not> is_in_ipv6_network n 0x20010001000000000000000000000001 32" and "32 \<le> k"
  shows "\<not> (0x20010001000000000000000000000001 \<le> x \<and> x \<le> 0x20010001000000000000000000000003)"
proof
  assume "0x20010001000000000000000000000001 \<le> x \<and> x \<le> 0x20010001000000000000000000000003"
  then have "0x20010001000000000000000000000001 \<le> unat x" "unat x \<le> 0x20010001000000000000000000000003"
    by (simp_all add: word_le_nat_alt)
  then have "unat x div 2 ^ 96 = 0x20010001" by (simp add: div_range)
  then have "is_in_ipv6_network x 0x20010001000000000000000000000001 32"
    by (simp add: is_in_ipv6_network_def word_unat_eq_iff unat_drop_bit_eq drop_bit_eq_div [where 'a = nat])
  with disjoint_networks [OF assms(1,5,2,4)] show False by simp
qed

lemma not_exception:
  assumes "is_in_ipv6_network x n k" and "48 \<le> k \<and> k \<le> 128 \<or> k = 32"
    and "\<not> is_in_ipv6_network n 0x20010001000000000000000000000001 32"
    and "\<not> is_in_ipv6_network n 0x20010003000000000000000000000000 32"
    and "\<not> is_in_ipv6_network n 0x20010004000000000000000000000000 32"
    and "\<not> is_in_ipv6_network n 0x20010020000000000000000000000000 28"
    and "\<not> is_in_ipv6_network n 0x20010030000000000000000000000000 28"
  shows "\<not> is_ietf_global_ipv6_exception x"
proof -
  have k: "32 \<le> k" "28 \<le> k" "k \<le> 128" using assms(2) by auto
  have "is_in_ipv6_network x 0x20010004000000000000000000000000 32"
    if "is_in_ipv6_network x 0x20010004011200000000000000000000 48"
    using coarser [OF that, of 32] by (simp add: is_in_ipv6_network_def)
  then show ?thesis
    using disjoint_networks [OF assms(1) k(1,3)] disjoint_networks [OF assms(1) k(2,3)] assms(3-7)
      not_in_range [OF assms(1) k(3) k(1) assms(3) k(1)]
    unfolding is_ietf_global_ipv6_exception_def by blast
qed

lemma reserved_v6_kinds:
  "list_all (\<lambda>(n, k). k \<le> 128 \<and>
      ((3 \<le> k \<and> \<not> is_in_ipv6_network n 0x20000000000000000000000000000000 3) \<or>
       (n, k) \<in> {(0x20010db8000000000000000000000000, 32), (0x20020000000000000000000000000000, 16),
                  (0x3fff0000000000000000000000000000, 20), (0x20010000000000000000000000000000, 32),
                  (0x20010002000000000000000000000000, 48)})) reserved_v6"
  by code_simp

lemma ietf_not_global:
  assumes "is_in_ipv6_network ip n k"
    and "(n, k) \<in> {(0x20010000000000000000000000000000, 32), (0x20010002000000000000000000000000, 48)}"
  shows "\<not> is_global (V6 ip)"
proof -
  have "\<not> is_ietf_global_ipv6_exception ip"
    by (rule not_exception [OF assms(1)]) (use assms(2) in \<open>auto simp: is_in_ipv6_network_def\<close>)
  moreover have "is_in_ipv6_network ip 0x20010000000000000000000000000000 23"
    using coarser [OF assms(1), of 23] assms(2) by (auto simp: is_in_ipv6_network_def)
  ultimately show ?thesis by (simp add: is_global_def)
qed

lemma reserved_v6_blocked:
  assumes "(n, k) \<in> set reserved_v6" and "is_in_ipv6_network ip n k"
  shows "\<not> is_global (V6 ip)"
proof -
  from reserved_v6_kinds assms(1) have kinds: "k \<le> 128"
      "(3 \<le> k \<and> \<not> is_in_ipv6_network n 0x20000000000000000000000000000000 3) \<or>
       (n, k) \<in> {(0x20010db8000000000000000000000000, 32), (0x20020000000000000000000000000000, 16),
                  (0x3fff0000000000000000000000000000, 20), (0x20010000000000000000000000000000, 32),
                  (0x20010002000000000000000000000000, 48)}"
    unfolding list_all_iff by fastforce+
  show ?thesis
  proof (cases "3 \<le> k \<and> \<not> is_in_ipv6_network n 0x20000000000000000000000000000000 3")
    case True
    with disjoint_networks [OF assms(2)] kinds(1) show ?thesis by (auto simp: is_global_def)
  next
    case False
    with kinds(2) assms(2) ietf_not_global [OF assms(2)] show ?thesis by (auto simp: is_global_def)
  qed
qed

text \<open>
  C15. The classification of addresses is the published one. An IPv4 address counts as globally
  routable exactly when it lies in none of the reserved IPv4 networks; no address of a reserved IPv6
  network counts as globally routable, the IPv4-mapped and IPv4-compatible ones included.
\<close>

theorem global_addresses_not_reserved:
  "(is_global (V4 ip) \<longleftrightarrow> \<not> list_ex (in_v4_network ip) reserved_v4) \<and>
   (is_global (V6 ip6) \<longrightarrow> list_all (\<lambda>(n, k). \<not> is_in_ipv6_network ip6 n k) reserved_v6 \<and> to_ipv4 ip6 = None)"
proof (intro conjI impI)
  show "is_global (V4 ip) \<longleftrightarrow> \<not> list_ex (in_v4_network ip) reserved_v4" by (rule is_global_v4)
next
  assume g: "is_global (V6 ip6)"
  show "list_all (\<lambda>(n, k). \<not> is_in_ipv6_network ip6 n k) reserved_v6"
    unfolding list_all_iff using reserved_v6_blocked g by blast
  show "to_ipv4 ip6 = None" using g by (cases "to_ipv4 ip6") (simp_all add: is_global_def)
qed

theorem global_addresses_not_reserved_witness:
  "is_global (V6 0x20014860486000000000000000008888) \<and>
   \<not> is_in_ipv6_network 0x20014860486000000000000000008888 0x20010db8000000000000000000000000 32"
proof -
  have g: "is_global (V6 0x20014860486000000000000000008888)" by code_simp
  have m: "(0x20010db8000000000000000000000000, 32) \<in> set reserved_v6" by (simp add: reserved_v6_def)
  show ?thesis
    using global_addresses_not_reserved [of 0 "0x20014860486000000000000000008888"] g m
    by (auto simp: list_all_iff)
qed

section \<open>Requests and redirects\<close>

text \<open>What the HTTP library does with the policy: the URLs of one request are the first, which
  \<open>execute\<close> has checked, and each redirect target the policy says to follow, with the URLs requested
  so far as \<open>previous\<close>. It connects to the literal address of the URL's host or to an address the
  resolver returned for its name; the name server may answer differently every time.\<close>

inductive requested ::
  "('net \<Rightarrow> ip_addr \<Rightarrow> bool) \<Rightarrow> 'net egress_policy \<Rightarrow> parsed_url list \<Rightarrow> bool"
  for net_contains policy where
  initial: "validate_url net_contains policy url = Inr () \<Longrightarrow> requested net_contains policy [url]"
| redirected: "requested net_contains policy previous \<Longrightarrow>
     redirect_policy net_contains policy previous url = Follow \<Longrightarrow>
     requested net_contains policy (previous @ [url])"

inductive connects_to ::
  "('net \<Rightarrow> ip_addr \<Rightarrow> bool) \<Rightarrow> 'net egress_policy \<Rightarrow> parsed_url \<Rightarrow> string \<Rightarrow> ip_addr \<Rightarrow> bool"
  for net_contains policy where
  literal_v4: "url_host url = Some (Ipv4Host ip) \<Longrightarrow> url_host_str url = Some host \<Longrightarrow>
     connects_to net_contains policy url host (V4 ip)"
| literal_v6: "url_host url = Some (Ipv6Host ip) \<Longrightarrow> url_host_str url = Some host \<Longrightarrow>
     connects_to net_contains policy url host (V6 ip)"
| resolved: "url_host url = Some (Domain name) \<Longrightarrow>
     safe_resolve net_contains policy (lookup_host :: string \<Rightarrow> unit + ip_addr list) name = Inr addresses \<Longrightarrow>
     ip \<in> set addresses \<Longrightarrow>
     connects_to net_contains policy url name ip"

inductive_cases connects_toE: "connects_to net_contains policy url host ip"

definition permitted ::
  "('net \<Rightarrow> ip_addr \<Rightarrow> bool) \<Rightarrow> 'net egress_policy \<Rightarrow> string \<Rightarrow> ip_addr \<Rightarrow> bool" where
  "permitted net_contains policy host ip =
     (is_global ip \<or> host_key host \<in> set (allowed_hosts policy) \<or>
      (\<exists>network \<in> set (allowed_cidrs policy). net_contains network ip))"

lemma validate_address_permitted:
  "validate_address net_contains policy host ip = Inr x \<longleftrightarrow> permitted net_contains policy host ip"
  by (cases x) (auto simp: validate_address_def permitted_def Let_def list_ex_iff)

lemma validate_addresses_permitted:
  "validate_addresses net_contains policy host ips = Inr x \<longleftrightarrow>
     (\<forall>ip \<in> set ips. permitted net_contains policy host ip)"
  by (induction ips) (auto split: sum.splits simp: validate_address_permitted [symmetric, where x = "()"])

lemma resolved_permitted:
  "safe_resolve net_contains policy lookup_host host = Inr ips \<Longrightarrow>
     lookup_host host = Inr ips \<and> ips \<noteq> [] \<and> (\<forall>ip \<in> set ips. permitted net_contains policy host ip)"
  by (auto simp: safe_resolve_def validate_addresses_permitted split: sum.splits if_splits)

lemma requested_checked:
  assumes "requested net_contains policy urls"
  shows "1 \<le> length urls \<and> length urls \<le> 5 \<and> (\<forall>url \<in> set urls. validate_url net_contains policy url = Inr ())"
  using assms
  by induction (auto simp: redirect_policy_def split: if_splits sum.splits)

lemma validated_url:
  assumes "validate_url net_contains policy url = Inr x"
  shows "url_scheme url \<in> {''http'', ''https''}" "url_username url = []" "url_password url = None"
    and "url_host url = Some (Ipv4Host v4) \<Longrightarrow> url_host_str url = Some host \<Longrightarrow>
      permitted net_contains policy host (V4 v4)"
    and "url_host url = Some (Ipv6Host v6) \<Longrightarrow> url_host_str url = Some host \<Longrightarrow>
      permitted net_contains policy host (V6 v6)"
  using assms
  by (auto simp: validate_url_def validate_address_permitted split: if_splits option.splits url_host.splits)

text \<open>
  C16. Outbound requests stay within the policy. Whatever redirects the upstream answers with and
  whatever the name server returns, at each moment, for each name: every URL requested uses HTTP or
  HTTPS and carries no credentials, every address connected to is globally routable or excepted by
  its host or network, at most five URLs are requested, and a first URL that the policy refuses
  makes the request fail before anything is sent.
\<close>

theorem outbound_requests_confined:
  "(requested net_contains policy urls \<and> url \<in> set urls \<and> connects_to net_contains policy url host ip \<longrightarrow>
      permitted net_contains policy host ip \<and> url_scheme url \<in> {''http'', ''https''} \<and>
      url_username url = [] \<and> url_password url = None \<and> length urls \<le> 5) \<and>
   (\<not> requested net_contains policy [first] \<longrightarrow>
      execute net_contains policy client_execute first s = (Inl UpstreamBlocked, s))"
proof (intro conjI impI)
  assume h: "requested net_contains policy urls \<and> url \<in> set urls \<and> connects_to net_contains policy url host ip"
  then have checked: "validate_url net_contains policy url = Inr ()" and len: "length urls \<le> 5"
    using requested_checked by blast+
  from h have "connects_to net_contains policy url host ip" by blast
  then show "permitted net_contains policy host ip"
    by (rule connects_toE) (use validated_url [OF checked] resolved_permitted in blast)+
  show "url_scheme url \<in> {''http'', ''https''}" "url_username url = []" "url_password url = None"
    by (rule validated_url [OF checked])+
  show "length urls \<le> 5" by (rule len)
next
  assume "\<not> requested net_contains policy [first]"
  then have "validate_url net_contains policy first \<noteq> Inr ()" by (auto intro: requested.initial)
  then show "execute net_contains policy client_execute first s = (Inl UpstreamBlocked, s)"
    by (cases "validate_url net_contains policy first") (auto simp: execute_def)
qed

definition sample_url :: "url_host \<Rightarrow> string \<Rightarrow> parsed_url" where
  "sample_url h host = \<lparr>url_scheme = ''https'', url_username = [], url_password = None,
     url_host_str = Some host, url_host = Some h\<rparr>"

theorem outbound_requests_confined_witness:
  "requested (\<lambda>_ _. False) \<lparr>allowed_hosts = [], allowed_cidrs = ([] :: unit list)\<rparr>
      [sample_url (Domain ''a.example'') ''a.example'', sample_url (Ipv4Host 0x08080808) ''8.8.8.8''] \<and>
   is_global (V4 0x08080808) \<and>
   execute (\<lambda>_ _. False) \<lparr>allowed_hosts = [], allowed_cidrs = ([] :: unit list)\<rparr>
      (\<lambda>_ s. (Inr (), s)) (sample_url (Ipv4Host 0x7F000001) ''127.0.0.1'') (0 :: nat) =
      ((Inl UpstreamBlocked :: unit upstream_error + unit), 0)"
proof -
  let ?n = "\<lambda>_ _. False" and ?p = "\<lparr>allowed_hosts = [], allowed_cidrs = ([] :: unit list)\<rparr>"
  let ?a = "sample_url (Domain ''a.example'') ''a.example''" and ?b = "sample_url (Ipv4Host 0x08080808) ''8.8.8.8''"
  have a: "validate_url ?n ?p ?a = Inr ()" and b: "redirect_policy ?n ?p [?a] ?b = Follow" by code_simp+
  have r: "requested ?n ?p [?a, ?b]"
    using requested.redirected [OF requested.initial [OF a] b] by simp
  have c: "connects_to ?n ?p ?b ''8.8.8.8'' (V4 0x08080808)"
    by (rule connects_to.literal_v4) (simp_all add: sample_url_def)
  have "permitted ?n ?p ''8.8.8.8'' (V4 0x08080808)"
    using outbound_requests_confined [of ?n ?p "[?a, ?b]" ?b "''8.8.8.8''" "V4 0x08080808", THEN conjunct1] r c
    by simp
  then have g: "is_global (V4 0x08080808)" by (simp add: permitted_def)
  have "validate_url ?n ?p (sample_url (Ipv4Host 0x7F000001) ''127.0.0.1'') \<noteq> Inr ()" by code_simp
  moreover have "validate_url ?n ?p u = Inr ()" if "requested ?n ?p [u]" for u
    using requested_checked [OF that] by simp
  ultimately have "\<not> requested ?n ?p [sample_url (Ipv4Host 0x7F000001) ''127.0.0.1'']" by blast
  with outbound_requests_confined [of ?n ?p "[]" ?a "[]" "V4 0" "sample_url (Ipv4Host 0x7F000001) ''127.0.0.1''"
      "\<lambda>_ s. (Inr () :: unit + unit, s)" "0 :: nat", THEN conjunct2] r g show ?thesis by blast
qed

end
