(* ===== verification/VirtualRepo.thy ===== *)
theory VirtualRepo
  imports Prelude "HOL-Library.Char_ord" "HOL-Library.List_Lexorder" "HOL-Library.Product_Lexorder"
begin

text \<open>
  Virtual repositories: the validation of their configuration
  (pkgly/src/repository/virtual/config.rs) and the resolver that asks the members in order and
  remembers which one answered (pkgly/src/repository/virtual/resolver.rs). The request to a member is
  the parameter \<open>fetch\<close> with its own state, which also carries the clock (\<open>clock\<close>); the content of a
  response is not inspected.
\<close>

section \<open>Configuration\<close>

record member_config =
  mc_repository_id :: uuid
  mc_repository_name :: string
  mc_priority :: u32
  mc_enabled :: bool

record virtual_config =
  vc_member_repositories :: "member_config list"
  vc_cache_ttl_seconds :: u64
  vc_publish_to :: "uuid option"

definition default_virtual_config :: virtual_config where
  "default_virtual_config =
     \<lparr>vc_member_repositories = [], vc_cache_ttl_seconds = 60, vc_publish_to = None\<rparr>"

datatype virtual_config_error =
    EmptyMembers
  | DuplicateMember uuid
  | EmptyMemberName uuid
  | InvalidCacheTtlSeconds

fun validate_members :: "uuid list \<Rightarrow> member_config list \<Rightarrow> virtual_config_error + unit" where
  "validate_members seen [] = Inr ()"
| "validate_members seen (m # rest) =
     (if mc_repository_id m \<in> set seen then Inl (DuplicateMember (mc_repository_id m))
      else if trim (mc_repository_name m) = [] then Inl (EmptyMemberName (mc_repository_id m))
      else validate_members (mc_repository_id m # seen) rest)"

definition validate_virtual_config :: "virtual_config \<Rightarrow> virtual_config_error + unit" where
  "validate_virtual_config config =
     (if vc_member_repositories config = [] then Inl EmptyMembers
      else case validate_members [] (vc_member_repositories config) of
             Inl e \<Rightarrow> Inl e
           | Inr _ \<Rightarrow>
               if vc_cache_ttl_seconds config = 0 then Inl InvalidCacheTtlSeconds else Inr ())"

section \<open>The resolution cache\<close>

record resolution_cache =
  rc_ttl :: int
  rc_entries :: "string \<rightharpoonup> uuid \<times> instant"

definition cache_new :: "int \<Rightarrow> resolution_cache" where
  "cache_new ttl = \<lparr>rc_ttl = ttl, rc_entries = Map.empty\<rparr>"

definition update_ttl :: "int \<Rightarrow> resolution_cache \<Rightarrow> resolution_cache" where
  "update_ttl ttl cache = cache\<lparr>rc_ttl := ttl\<rparr>"

text \<open>\<open>duration_since\<close> of a later instant is zero.\<close>

definition duration_since :: "instant \<Rightarrow> instant \<Rightarrow> int" where
  "duration_since later earlier = max 0 (later - earlier)"

definition entry_remove :: "string \<Rightarrow> resolution_cache \<Rightarrow> resolution_cache" where
  "entry_remove key cache = cache\<lparr>rc_entries := (rc_entries cache)(key := None)\<rparr>"

definition entry_insert :: "string \<Rightarrow> uuid \<times> instant \<Rightarrow> resolution_cache \<Rightarrow> resolution_cache" where
  "entry_insert key e cache = cache\<lparr>rc_entries := (rc_entries cache)(key \<mapsto> e)\<rparr>"

definition cache_get :: "instant \<Rightarrow> string \<Rightarrow> resolution_cache \<Rightarrow> uuid option \<times> resolution_cache" where
  "cache_get now key cache =
     (case rc_entries cache key of
        Some (member_id, stored_at) \<Rightarrow>
          if duration_since now stored_at \<le> rc_ttl cache then (Some member_id, cache)
          else (None, entry_remove key cache)
      | None \<Rightarrow> (None, cache))"

definition cache_put :: "instant \<Rightarrow> string \<Rightarrow> uuid \<Rightarrow> resolution_cache \<Rightarrow> resolution_cache" where
  "cache_put now key member_id cache = entry_insert key (member_id, now) cache"

interpretation resolution_store: keyed_store rc_entries entry_insert entry_remove
  by unfold_locales (auto simp: entry_insert_def entry_remove_def)

section \<open>The resolver\<close>

record resolved_member =
  rm_id :: uuid
  rm_name :: string
  rm_priority :: u32
  rm_enabled :: bool

datatype 'c repo_response = FileResponse 'c | FileMetaResponse 'c | OtherResponse nat 'c

definition is_auth_failure :: "'c repo_response \<Rightarrow> bool" where
  "is_auth_failure response =
     (case response of OtherResponse status _ \<Rightarrow> status = 401 \<or> status = 403 | _ \<Rightarrow> False)"

definition is_not_found :: "'c repo_response \<Rightarrow> bool" where
  "is_not_found response = (case response of OtherResponse status _ \<Rightarrow> status = 404 | _ \<Rightarrow> False)"

text \<open>The stable sort by priority, then by name.\<close>

definition member_key :: "resolved_member \<Rightarrow> u32 \<times> string" where
  "member_key m = (rm_priority m, rm_name m)"

definition resolver_new :: "resolved_member list \<Rightarrow> resolved_member list" where
  "resolver_new members = sort_key member_key members"

fun ask_members ::
  "('s \<Rightarrow> instant) \<Rightarrow> (resolved_member \<Rightarrow> 's \<Rightarrow> ('e + 'c repo_response option) \<times> 's) \<Rightarrow> string \<Rightarrow>
     (resolved_member \<times> 'c repo_response) option \<Rightarrow> resolved_member list \<Rightarrow> resolution_cache \<Rightarrow> 's \<Rightarrow>
     ('e + (resolved_member \<times> 'c repo_response) option) \<times> resolution_cache \<times> 's" where
  "ask_members clock fetch key auth_failure [] cache s = (Inr auth_failure, cache, s)"
| "ask_members clock fetch key auth_failure (m # rest) cache s =
     (if \<not> rm_enabled m then ask_members clock fetch key auth_failure rest cache s
      else case fetch m s of
             (Inl e, t) \<Rightarrow> (Inl e, cache, t)
           | (Inr None, t) \<Rightarrow> ask_members clock fetch key auth_failure rest cache t
           | (Inr (Some response), t) \<Rightarrow>
               if is_auth_failure response
               then ask_members clock fetch key (Some (m, response)) rest cache t
               else if is_not_found response then ask_members clock fetch key auth_failure rest cache t
               else (Inr (Some (m, response)), cache_put (clock t) key (rm_id m) cache, t))"

definition resolve ::
  "('s \<Rightarrow> instant) \<Rightarrow> (resolved_member \<Rightarrow> 's \<Rightarrow> ('e + 'c repo_response option) \<times> 's) \<Rightarrow> string \<Rightarrow>
     resolved_member list \<Rightarrow> resolution_cache \<Rightarrow> 's \<Rightarrow>
     ('e + (resolved_member \<times> 'c repo_response) option) \<times> resolution_cache \<times> 's" where
  "resolve clock fetch key members cache s =
     (case cache_get (clock s) key cache of
        (cached, cache1) \<Rightarrow>
          (case cached of
             None \<Rightarrow> ask_members clock fetch key None members cache1 s
           | Some member_id \<Rightarrow>
               (case find (\<lambda>m. rm_enabled m \<and> rm_id m = member_id) members of
                  None \<Rightarrow> ask_members clock fetch key None members cache1 s
                | Some m \<Rightarrow>
                    (case fetch m s of
                       (Inl e, t) \<Rightarrow> (Inl e, cache1, t)
                     | (Inr (Some response), t) \<Rightarrow> (Inr (Some (m, response)), cache1, t)
                     | (Inr None, t) \<Rightarrow> ask_members clock fetch key None members cache1 t))))"

section \<open>What validation accepts and reports\<close>

definition member_ok :: "member_config \<Rightarrow> bool" where
  "member_ok m = (trim (mc_repository_name m) \<noteq> [])"

lemma validate_members_Inr:
  "validate_members seen ms = Inr u \<longleftrightarrow>
     distinct (map mc_repository_id ms) \<and> set (map mc_repository_id ms) \<inter> set seen = {} \<and>
     (\<forall>m \<in> set ms. member_ok m)"
  by (induction seen ms rule: validate_members.induct) (auto simp: member_ok_def)

lemma validate_members_Inl:
  "validate_members seen ms = Inl e \<Longrightarrow>
     \<exists>pre m post. ms = pre @ m # post \<and> validate_members seen pre = Inr () \<and>
        (e = DuplicateMember (mc_repository_id m) \<and> mc_repository_id m \<in> set seen \<union> mc_repository_id ` set pre \<or>
         e = EmptyMemberName (mc_repository_id m) \<and> \<not> member_ok m)"
proof (induction seen ms rule: validate_members.induct)
  case (2 seen m rest)
  show ?case
  proof (cases "mc_repository_id m \<in> set seen \<or> \<not> member_ok m")
    case True
    with 2(2) have "e = DuplicateMember (mc_repository_id m) \<and> mc_repository_id m \<in> set seen \<or>
        e = EmptyMemberName (mc_repository_id m) \<and> \<not> member_ok m"
      by (auto simp: member_ok_def split: if_splits)
    then show ?thesis by (intro exI [of _ "[]"] exI [of _ m] exI [of _ rest]) auto
  next
    case False
    with 2(2) have "validate_members (mc_repository_id m # seen) rest = Inl e" by (simp add: member_ok_def)
    with 2(1) False obtain pre x post where "rest = pre @ x # post"
      and "validate_members (mc_repository_id m # seen) pre = Inr ()"
      and "e = DuplicateMember (mc_repository_id x) \<and>
             mc_repository_id x \<in> set (mc_repository_id m # seen) \<union> mc_repository_id ` set pre \<or>
           e = EmptyMemberName (mc_repository_id x) \<and> \<not> member_ok x"
      by (auto simp: member_ok_def)
    with False show ?thesis
      by (intro exI [of _ "m # pre"] exI [of _ x] exI [of _ post]) (auto simp: member_ok_def)
  qed
qed simp

text \<open>
  A virtual repository's configuration is accepted exactly when it has members, no two of them
  the same repository, each with a name that is not blank, and a positive time to live; a refusal
  reports the problem of the first member that has one, and the time to live only when all members
  are fine.
\<close>

theorem virtual_config_validation:
  "(validate_virtual_config config = Inr () \<longleftrightarrow>
      vc_member_repositories config \<noteq> [] \<and> distinct (map mc_repository_id (vc_member_repositories config)) \<and>
      list_all member_ok (vc_member_repositories config) \<and> vc_cache_ttl_seconds config \<noteq> 0) \<and>
   (validate_virtual_config config = Inl EmptyMembers \<longleftrightarrow> vc_member_repositories config = []) \<and>
   (validate_virtual_config config = Inl InvalidCacheTtlSeconds \<longleftrightarrow>
      vc_member_repositories config \<noteq> [] \<and> distinct (map mc_repository_id (vc_member_repositories config)) \<and>
      list_all member_ok (vc_member_repositories config) \<and> vc_cache_ttl_seconds config = 0) \<and>
   (validate_virtual_config config = Inl e \<longrightarrow> e \<noteq> EmptyMembers \<longrightarrow> e \<noteq> InvalidCacheTtlSeconds \<longrightarrow>
      (\<exists>pre m post. vc_member_repositories config = pre @ m # post \<and>
         distinct (map mc_repository_id pre) \<and> list_all member_ok pre \<and>
         (e = DuplicateMember (mc_repository_id m) \<and> mc_repository_id m \<in> mc_repository_id ` set pre \<or>
          e = EmptyMemberName (mc_repository_id m) \<and> \<not> member_ok m)))"
proof -
  let ?ms = "vc_member_repositories config"
  have ok: "validate_members [] ?ms = Inr () \<longleftrightarrow> distinct (map mc_repository_id ?ms) \<and> list_all member_ok ?ms"
    by (simp add: validate_members_Inr list_all_iff)
  have bad: "\<exists>pre m post. ?ms = pre @ m # post \<and>
         distinct (map mc_repository_id pre) \<and> list_all member_ok pre \<and>
         (e = DuplicateMember (mc_repository_id m) \<and> mc_repository_id m \<in> mc_repository_id ` set pre \<or>
          e = EmptyMemberName (mc_repository_id m) \<and> \<not> member_ok m)"
    if "validate_members [] ?ms = Inl e" for e
    using validate_members_Inl [OF that] by (simp add: validate_members_Inr list_all_iff)
  show ?thesis
  proof (cases "validate_members [] ?ms")
    case (Inl f)
    from bad [OF Inl] have f: "f \<noteq> EmptyMembers" "f \<noteq> InvalidCacheTtlSeconds" by auto
    from Inl have "\<not> (distinct (map mc_repository_id ?ms) \<and> list_all member_ok ?ms)" using ok by simp
    with Inl f bad [of e] show ?thesis by (auto simp: validate_virtual_config_def)
  next
    case (Inr u)
    with ok show ?thesis by (auto simp: validate_virtual_config_def)
  qed
qed

theorem virtual_config_validation_witness:
  "\<exists>pre m post. [\<lparr>mc_repository_id = 1, mc_repository_name = ''a'', mc_priority = 0, mc_enabled = True\<rparr>,
       \<lparr>mc_repository_id = 2, mc_repository_name = '' '', mc_priority = 0, mc_enabled = True\<rparr>] = pre @ m # post \<and>
     mc_repository_id m = 2 \<and> \<not> member_ok m"
proof -
  let ?c = "\<lparr>vc_member_repositories = [\<lparr>mc_repository_id = 1, mc_repository_name = ''a'', mc_priority = 0, mc_enabled = True\<rparr>,
       \<lparr>mc_repository_id = 2, mc_repository_name = '' '', mc_priority = 0, mc_enabled = True\<rparr>],
       vc_cache_ttl_seconds = 60, vc_publish_to = None\<rparr>"
  have "validate_virtual_config ?c = Inl (EmptyMemberName 2)" by code_simp
  with virtual_config_validation [of ?c "EmptyMemberName 2"] show ?thesis by auto
qed

section \<open>What resolution answers\<close>

text \<open>A response that ends the search, and the reference: the first member, in the order of priority
  and name, whose answer is an error or usable; if there is none, the last refusal.\<close>

definition usable :: "'c repo_response \<Rightarrow> bool" where
  "usable response = (case response of OtherResponse status _ \<Rightarrow> status \<notin> {401, 403, 404} | _ \<Rightarrow> True)"

lemma usable_code: "usable response = (\<not> is_auth_failure response \<and> \<not> is_not_found response)"
  by (auto simp: usable_def is_auth_failure_def is_not_found_def split: repo_response.splits)

definition decisive :: "'e + 'c repo_response option \<Rightarrow> bool" where
  "decisive a = (case a of Inl _ \<Rightarrow> True | Inr None \<Rightarrow> False | Inr (Some response) \<Rightarrow> usable response)"

definition refusal :: "'e + 'c repo_response option \<Rightarrow> bool" where
  "refusal a = (case a of Inr (Some (OtherResponse status _)) \<Rightarrow> status \<in> {401, 403} | _ \<Rightarrow> False)"

lemma refusal_code:
  "refusal a = (case a of Inl _ \<Rightarrow> False | Inr None \<Rightarrow> False | Inr (Some response) \<Rightarrow> is_auth_failure response)"
  by (auto simp: refusal_def is_auth_failure_def split: sum.splits option.splits repo_response.splits)

definition answer_of ::
  "(resolved_member \<Rightarrow> 'e + 'c repo_response option) \<Rightarrow> resolved_member \<Rightarrow>
     'e + (resolved_member \<times> 'c repo_response) option" where
  "answer_of f m = (case f m of Inl e \<Rightarrow> Inl e | Inr r \<Rightarrow> Inr (map_option (Pair m) r))"

definition first_answer ::
  "(resolved_member \<Rightarrow> 'e + 'c repo_response option) \<Rightarrow> resolved_member list \<Rightarrow>
     'e + (resolved_member \<times> 'c repo_response) option" where
  "first_answer f ms =
     (case find (\<lambda>m. decisive (f m)) ms of
        Some m \<Rightarrow> answer_of f m
      | None \<Rightarrow>
          (case rev (filter (\<lambda>m. refusal (f m)) ms) of [] \<Rightarrow> Inr None | m # _ \<Rightarrow> answer_of f m))"

lemma auth_not_usable: "is_auth_failure r \<Longrightarrow> \<not> usable r \<and> \<not> is_not_found r"
  by (auto simp: usable_code is_auth_failure_def is_not_found_def split: repo_response.splits)

lemma ask_members_answer:
  assumes pure: "\<And>m s. fetch m s = (f m, s)"
  shows "fst (ask_members clock fetch key failure ms cache s) =
     (case find (\<lambda>m. decisive (f m)) (filter rm_enabled ms) of
        Some m \<Rightarrow> answer_of f m
      | None \<Rightarrow>
          (case rev (filter (\<lambda>m. refusal (f m)) (filter rm_enabled ms)) of
             [] \<Rightarrow> Inr failure | m # _ \<Rightarrow> answer_of f m))"
proof (induction ms arbitrary: failure)
  case (Cons m ms)
  consider "\<not> rm_enabled m" | e where "rm_enabled m" "f m = Inl e" | "rm_enabled m" "f m = Inr None"
    | r where "rm_enabled m" "f m = Inr (Some r)" by (cases "f m") auto
  then show ?case
  proof cases
    case 1
    then show ?thesis using Cons.IH by (simp cong: option.case_cong)
  next
    case 2
    then show ?thesis by (simp add: pure decisive_def answer_of_def)
  next
    case 3
    then show ?thesis using Cons.IH [of failure]
      by (simp add: pure decisive_def refusal_code cong: option.case_cong)
  next
    case (4 r)
    show ?thesis
    proof (cases "is_auth_failure r")
      case True
      with 4 Cons.IH [of "Some (m, r)"] auth_not_usable [OF True] show ?thesis
        by (simp add: pure decisive_def refusal_code answer_of_def split: option.splits list.splits)
    next
      case False
      with 4 Cons.IH [of failure] show ?thesis
        by (cases "is_not_found r") (simp_all add: pure decisive_def refusal_code answer_of_def usable_code cong: option.case_cong)
    qed
  qed
qed (simp add: answer_of_def)

lemma find_sorted_first:
  "sorted (map k xs) \<Longrightarrow> find P xs = Some m \<Longrightarrow> x \<in> set xs \<Longrightarrow> k x < k m \<Longrightarrow> \<not> P x"
  by (induction xs) (auto split: if_splits simp: find_Some_iff dest: leD)

lemma find_Some_set: "find P xs = Some m \<Longrightarrow> m \<in> set xs \<and> P m"
  by (induction xs) (auto split: if_splits)

lemma first_answer_some:
  assumes "first_answer f ms = Inr (Some (m, r))"
  shows "m \<in> set ms" "f m = Inr (Some r)"
    and "usable r \<and> find (\<lambda>m. decisive (f m)) ms = Some m \<or>
      is_auth_failure r \<and> (\<forall>x \<in> set ms. \<not> decisive (f x))"
proof -
  have from_answer: "x = m \<and> f m = Inr (Some r)" if "answer_of f x = Inr (Some (m, r))" for x
    using that by (auto simp: answer_of_def split: sum.splits)
  have all: "m \<in> set ms \<and> f m = Inr (Some r) \<and> (usable r \<and> find (\<lambda>m. decisive (f m)) ms = Some m \<or>
      is_auth_failure r \<and> (\<forall>x \<in> set ms. \<not> decisive (f x)))"
  proof (cases "find (\<lambda>m. decisive (f m)) ms")
    case (Some x)
    with assms from_answer have "x = m" "f m = Inr (Some r)" by (auto simp: first_answer_def)
    with find_Some_set [OF Some] Some show ?thesis by (auto simp: decisive_def)
  next
    case None
    obtain x xs where x: "rev (filter (\<lambda>m. refusal (f m)) ms) = x # xs"
      using assms None by (cases "rev (filter (\<lambda>m. refusal (f m)) ms)") (auto simp: first_answer_def)
    with assms None from_answer have xm: "x = m" "f m = Inr (Some r)" by (auto simp: first_answer_def)
    have "x \<in> set (rev (filter (\<lambda>m. refusal (f m)) ms))" by (simp add: x)
    with xm None show ?thesis by (auto simp: refusal_code find_None_iff)
  qed
  then show "m \<in> set ms" "f m = Inr (Some r)"
    and "usable r \<and> find (\<lambda>m. decisive (f m)) ms = Some m \<or>
      is_auth_failure r \<and> (\<forall>x \<in> set ms. \<not> decisive (f x))" by blast+
qed

lemma first_answer_none:
  assumes "first_answer f ms = Inr None" and "x \<in> set ms"
  shows "\<not> decisive (f x) \<and> \<not> refusal (f x)"
proof -
  have hit: "answer_of f y \<noteq> Inr None" if "decisive (f y) \<or> refusal (f y)" for y
    using that by (auto simp: answer_of_def decisive_def refusal_code split: sum.splits option.splits)
  have none: "find (\<lambda>m. decisive (f m)) ms = None"
    using assms(1) hit find_Some_set by (cases "find (\<lambda>m. decisive (f m)) ms") (fastforce simp: first_answer_def)+
  moreover have "filter (\<lambda>m. refusal (f m)) ms = []"
  proof (rule ccontr)
    assume "filter (\<lambda>m. refusal (f m)) ms \<noteq> []"
    then obtain y ys where y: "rev (filter (\<lambda>m. refusal (f m)) ms) = y # ys"
      by (cases "rev (filter (\<lambda>m. refusal (f m)) ms)") auto
    then have "y \<in> set (rev (filter (\<lambda>m. refusal (f m)) ms))" by simp
    then have "refusal (f y)" by simp
    with hit assms(1) none y show False by (auto simp: first_answer_def)
  qed
  ultimately show ?thesis using assms(2) by (auto simp: find_None_iff filter_empty_conv)
qed

text \<open>
  C17. The members of a virtual repository are asked in the order of their priority, then of their
  names. Without a remembered member, and with members whose answers do not depend on the order of
  asking, the resolver's answer is that of the reference: the first enabled member that fails or
  answers with something other than not found or a refusal; otherwise the last refusal; otherwise
  nothing. So a usable response never comes from a member behind another one that has it, a refusal
  is passed on only if no member has the package, and \<open>None\<close> means that every enabled member said so.
\<close>

theorem virtual_resolution_order:
  assumes pure: "\<And>m s. fetch m s = (f m, s)" and cold: "fst (cache_get (clock s) key cache) = None"
    and out: "fst (resolve clock fetch key (resolver_new members) cache s) = answer"
  shows "answer = first_answer f (filter rm_enabled (sort_key (\<lambda>m. (rm_priority m, rm_name m)) members)) \<and>
     (\<forall>m r. answer = Inr (Some (m, r)) \<longrightarrow>
        m \<in> set members \<and> rm_enabled m \<and> f m = Inr (Some r) \<and>
        (if usable r
         then \<forall>x \<in> set members. rm_enabled x \<and>
                (rm_priority x < rm_priority m \<or> rm_priority x = rm_priority m \<and> rm_name x < rm_name m) \<longrightarrow>
                \<not> decisive (f x)
         else refusal (f m) \<and> (\<forall>x \<in> set members. rm_enabled x \<longrightarrow> \<not> decisive (f x)))) \<and>
     (answer = Inr None \<longrightarrow> (\<forall>x \<in> set members. rm_enabled x \<longrightarrow> \<not> decisive (f x) \<and> \<not> refusal (f x)))"
proof -
  let ?k = "\<lambda>m. (rm_priority m, rm_name m)"
  let ?ms = "filter rm_enabled (sort_key ?k members)"
  obtain c where c: "cache_get (clock s) key cache = (None, c)" using cold by (metis prod.collapse)
  have new: "resolver_new members = sort_key ?k members"
    unfolding resolver_new_def by (rule arg_cong [where f = "\<lambda>k. sort_key k members"]) (simp add: fun_eq_iff member_key_def)
  have answer: "answer = first_answer f ?ms"
    using ask_members_answer [where fetch = fetch and f = f and failure = None, OF pure] out
    by (simp add: resolve_def c new first_answer_def)
  have sorted: "sorted (map ?k ?ms)" by (rule sorted_filter) simp
  have set: "set ?ms = {x \<in> set members. rm_enabled x}" by auto
  have some: "m \<in> set members \<and> rm_enabled m \<and> f m = Inr (Some r) \<and>
        (if usable r
         then \<forall>x \<in> set members. rm_enabled x \<and>
                (rm_priority x < rm_priority m \<or> rm_priority x = rm_priority m \<and> rm_name x < rm_name m) \<longrightarrow>
                \<not> decisive (f x)
         else refusal (f m) \<and> (\<forall>x \<in> set members. rm_enabled x \<longrightarrow> \<not> decisive (f x)))"
    if "answer = Inr (Some (m, r))" for m r
  proof -
    from that answer have fa: "first_answer f ?ms = Inr (Some (m, r))" by simp
    note F = first_answer_some [OF fa]
    show ?thesis
    proof (cases "usable r")
      case True
      with F(3) auth_not_usable have "find (\<lambda>m. decisive (f m)) ?ms = Some m" by blast
      from find_sorted_first [OF sorted this] set F(1,2) True show ?thesis by auto
    next
      case False
      with F set show ?thesis by (auto simp: refusal_code)
    qed
  qed
  have none: "\<forall>x \<in> set members. rm_enabled x \<longrightarrow> \<not> decisive (f x) \<and> \<not> refusal (f x)" if "answer = Inr None"
    using first_answer_none [of f ?ms] that set by (auto simp: answer)
  show ?thesis using answer some none by blast
qed

definition sample_member :: "uuid \<Rightarrow> u32 \<Rightarrow> resolved_member" where
  "sample_member i p = \<lparr>rm_id = i, rm_name = ''m'', rm_priority = p, rm_enabled = True\<rparr>"

text \<open>Member 1 has nothing, member 2 refuses, the others have the package.\<close>

definition sample_answers :: "resolved_member \<Rightarrow> unit + unit repo_response option" where
  "sample_answers m =
     (if rm_id m = 1 then Inr None else if rm_id m = 2 then Inr (Some (OtherResponse 401 ()))
      else Inr (Some (FileResponse ())))"

theorem virtual_resolution_order_witness:
  "fst (resolve (\<lambda>_. 0) (\<lambda>m s. (sample_answers m, s)) ''left-pad''
      (resolver_new [sample_member 4 9, sample_member 3 5, sample_member 2 1, sample_member 1 0]) (cache_new 60) ())
     = Inr (Some (sample_member 3 5, FileResponse ())) \<and> \<not> decisive (sample_answers (sample_member 2 1))"
proof -
  let ?ms = "[sample_member 4 9, sample_member 3 5, sample_member 2 1, sample_member 1 0]"
  have cold: "fst (cache_get 0 ''left-pad'' (cache_new 60)) = None" by code_simp
  have out: "fst (resolve (\<lambda>_. 0) (\<lambda>m s. (sample_answers m, s)) ''left-pad'' (resolver_new ?ms) (cache_new 60) ())
     = Inr (Some (sample_member 3 5, FileResponse ()))" by code_simp
  from virtual_resolution_order [where fetch = "\<lambda>m s. (sample_answers m, s)" and f = sample_answers
      and clock = "\<lambda>_. 0" and s = "()", OF refl cold out]
  have "if usable (FileResponse ())
      then \<forall>x \<in> set ?ms. rm_enabled x \<and>
        (rm_priority x < rm_priority (sample_member 3 5) \<or>
         rm_priority x = rm_priority (sample_member 3 5) \<and> rm_name x < rm_name (sample_member 3 5)) \<longrightarrow>
        \<not> decisive (sample_answers x)
      else refusal (sample_answers (sample_member 3 5)) \<and>
        (\<forall>x \<in> set ?ms. rm_enabled x \<longrightarrow> \<not> decisive (sample_answers x))"
    by blast
  moreover have "usable (FileResponse ())" by code_simp
  moreover have "rm_enabled (sample_member 2 1) \<and> rm_priority (sample_member 2 1) < rm_priority (sample_member 3 5)"
    by code_simp
  ultimately show ?thesis using out by simp
qed

text \<open>
  A remembered member is asked first and its answer is final. Until the entry expires, a refusal
  or an error of that member is the answer even when another enabled member has the package, which
  the same request would have been given without the cache; only when the remembered member has
  nothing are the members asked in order.
\<close>

theorem cached_member_answers_first:
  assumes pure: "\<And>m s. fetch m s = (f m, s)" and live: "fst (cache_get (clock s) key cache) = Some i"
    and m: "find (\<lambda>m. rm_enabled m \<and> rm_id m = i) (resolver_new members) = Some m"
  shows "fst (resolve clock fetch key (resolver_new members) cache s) =
       (case f m of
          Inr None \<Rightarrow> first_answer f (filter rm_enabled (sort_key member_key members))
        | _ \<Rightarrow> answer_of f m) \<and>
     (f m = Inr (Some r) \<and> is_auth_failure r \<and>
        (\<exists>x \<in> set members. rm_enabled x \<and> (\<exists>r'. f x = Inr (Some r') \<and> usable r')) \<longrightarrow>
      fst (resolve clock fetch key (resolver_new members) cache s) \<noteq>
        first_answer f (filter rm_enabled (sort_key member_key members)))"
proof -
  let ?ms = "filter rm_enabled (sort_key member_key members)"
  obtain c where c: "cache_get (clock s) key cache = (Some i, c)" using live by (metis prod.collapse)
  have out: "fst (resolve clock fetch key (resolver_new members) cache s) =
       (case f m of Inr None \<Rightarrow> first_answer f ?ms | _ \<Rightarrow> answer_of f m)"
  proof -
    have ask: "fst (ask_members clock fetch key None (resolver_new members) c s) = first_answer f ?ms"
      using ask_members_answer [where fetch = fetch and f = f and failure = None, OF pure]
      by (simp add: resolver_new_def first_answer_def)
    consider e where "f m = Inl e" | "f m = Inr None" | r where "f m = Inr (Some r)" by (cases "f m") auto
    then show ?thesis by cases (simp_all add: resolve_def c m pure ask answer_of_def)
  qed
  have "fst (resolve clock fetch key (resolver_new members) cache s) \<noteq> first_answer f ?ms"
    if r: "f m = Inr (Some r)" "is_auth_failure r"
      and x: "x \<in> set members" "rm_enabled x" "f x = Inr (Some r')" "usable r'" for x r'
  proof
    assume "fst (resolve clock fetch key (resolver_new members) cache s) = first_answer f ?ms"
    with out r have "first_answer f ?ms = Inr (Some (m, r))" by (simp add: answer_of_def)
    from first_answer_some(3) [OF this] auth_not_usable [OF r(2)]
    have "\<forall>x \<in> set ?ms. \<not> decisive (f x)" by blast
    with x show False by (auto simp: decisive_def)
  qed
  with out show ?thesis by blast
qed

theorem cached_member_answers_first_witness:
  "fst (resolve (\<lambda>_. 10) (\<lambda>m s. (sample_answers m, s)) ''left-pad''
      (resolver_new [sample_member 3 0, sample_member 2 1]) (cache_put 0 ''left-pad'' 2 (cache_new 60)) ())
     \<noteq> first_answer sample_answers (filter rm_enabled (sort_key member_key [sample_member 3 0, sample_member 2 1]))"
proof -
  let ?ms = "[sample_member 3 0, sample_member 2 1]" and ?c = "cache_put 0 ''left-pad'' 2 (cache_new 60)"
  have live: "fst (cache_get 10 ''left-pad'' ?c) = Some 2" by code_simp
  have m: "find (\<lambda>m. rm_enabled m \<and> rm_id m = 2) (resolver_new ?ms) = Some (sample_member 2 1)" by code_simp
  have r: "sample_answers (sample_member 2 1) = Inr (Some (OtherResponse 401 ()))"
    "is_auth_failure (OtherResponse 401 ())" by code_simp+
  have "rm_enabled (sample_member 3 0) \<and> sample_answers (sample_member 3 0) = Inr (Some (FileResponse ())) \<and>
      usable (FileResponse ())" by code_simp
  then have "\<exists>x \<in> set ?ms. rm_enabled x \<and> (\<exists>r'. sample_answers x = Inr (Some r') \<and> usable r')" by auto
  with cached_member_answers_first [where fetch = "\<lambda>m s. (sample_answers m, s)" and f = sample_answers
      and clock = "\<lambda>_. 10" and s = "()" and r = "OtherResponse 401 ()", OF refl live m] r
  show ?thesis by blast
qed

end
