(* ===== verification/PackageFiles.thy ===== *)
theory PackageFiles
  imports Prelude "HOL-Library.Char_ord" "HOL-Library.List_Lexorder" "HOL-Library.Product_Lexorder"
begin

text \<open>
  The catalogue of package files (crates/core/src/database/entities/package_file.rs): the table
  \<open>package_files\<close> with its unique index on the repository and the path in lower case, its updates,
  the paged and searchable listing, and the selection of files whose retention period has ended. The
  SQL function \<open>docker_referenced_size\<close> is the parameter \<open>ref_size\<close>; \<open>LOWER\<close> acts on ASCII letters.
\<close>

section \<open>Rows\<close>

record package_file =
  pf_id :: int
  pf_repository_id :: uuid
  pf_project_id :: "uuid option"
  pf_project_version_id :: "uuid option"
  pf_package :: string
  pf_name :: string
  pf_path :: string
  pf_size_bytes :: int
  pf_referenced_size_bytes :: "int option"
  pf_content_digest :: "string option"
  pf_upstream_digest :: "string option"
  pf_modified_at :: instant
  pf_created_at :: instant
  pf_updated_at :: instant
  pf_deleted_at :: "instant option"

record catalog_db = conn +
  cat_now :: instant
  cat_repositories :: "uuid list"
  cat_projects :: "uuid list"
  cat_versions :: "uuid list"
  package_files :: "package_file list"
  package_file_seq :: int

datatype catalog_error = CatalogFailed | CatalogForeignKey | CatalogSequence | NegativeLimit

type_synonym ('z, 'a) catalog_query = "('z catalog_db_scheme, catalog_error, 'a) stm"

record upsert_input =
  ui_repository_id :: uuid
  ui_project_id :: "uuid option"
  ui_project_version_id :: "uuid option"
  ui_package :: string
  ui_name :: string
  ui_path :: string
  ui_size_bytes :: int
  ui_referenced_size_bytes :: "int option"
  ui_content_digest :: "string option"
  ui_upstream_digest :: "string option"
  ui_modified_at :: instant

text \<open>The key of the unique index, and the rows it selects.\<close>

definition file_key :: "package_file \<Rightarrow> uuid \<times> string" where
  "file_key f = (pf_repository_id f, to_lower (pf_path f))"

definition is_file :: "uuid \<Rightarrow> string \<Rightarrow> package_file \<Rightarrow> bool" where
  "is_file repository_id path f = (file_key f = (repository_id, to_lower path))"

definition bigserial_max :: int where
  "bigserial_max = 2 ^ 63 - 1"

section \<open>Updates\<close>

definition new_file_row :: "int \<Rightarrow> instant \<Rightarrow> upsert_input \<Rightarrow> package_file" where
  "new_file_row i now input =
     \<lparr>pf_id = i, pf_repository_id = ui_repository_id input, pf_project_id = ui_project_id input,
      pf_project_version_id = ui_project_version_id input, pf_package = ui_package input,
      pf_name = ui_name input, pf_path = ui_path input, pf_size_bytes = max 0 (ui_size_bytes input),
      pf_referenced_size_bytes =
        (case ui_referenced_size_bytes input of Some sz \<Rightarrow> if sz > 0 then Some sz else None | None \<Rightarrow> None),
      pf_content_digest = ui_content_digest input, pf_upstream_digest = ui_upstream_digest input,
      pf_modified_at = ui_modified_at input, pf_created_at = now, pf_updated_at = now, pf_deleted_at = None\<rparr>"

definition references_exist :: "upsert_input \<Rightarrow> 'z catalog_db_scheme \<Rightarrow> bool" where
  "references_exist input s =
     (ui_repository_id input \<in> set (cat_repositories s) \<and>
      (case ui_project_id input of None \<Rightarrow> True | Some p \<Rightarrow> p \<in> set (cat_projects s)) \<and>
      (case ui_project_version_id input of None \<Rightarrow> True | Some v \<Rightarrow> v \<in> set (cat_versions s)))"

text \<open>\<open>INSERT \<dots> ON CONFLICT (repository_id, path_ci) DO UPDATE\<close>: the row found keeps its identifier and
  its creation time.\<close>

definition upsert_file_row :: "upsert_input \<Rightarrow> ('z, package_file) catalog_query" where
  "upsert_file_row input =
     try_sql CatalogFailed
       (\<lambda>s. if bigserial_max < package_file_seq s then Inl CatalogSequence
            else if \<not> references_exist input s then Inl CatalogForeignKey
            else
              (case find (is_file (ui_repository_id input) (ui_path input)) (package_files s) of
                 Some old \<Rightarrow>
                   (let row = (new_file_row (pf_id old) (cat_now s) input)\<lparr>pf_created_at := pf_created_at old\<rparr>
                    in Inr (row,
                         s\<lparr>package_files :=
                             map (\<lambda>f. if is_file (ui_repository_id input) (ui_path input) f then row else f)
                               (package_files s),
                           package_file_seq := package_file_seq s + 1\<rparr>))
               | None \<Rightarrow>
                   (let row = new_file_row (package_file_seq s) (cat_now s) input
                    in Inr (row,
                         s\<lparr>package_files := package_files s @ [row],
                           package_file_seq := package_file_seq s + 1\<rparr>))))"

definition delete_by_path :: "uuid \<Rightarrow> string \<Rightarrow> ('z, nat) catalog_query" where
  "delete_by_path repository_id path =
     exec_sql CatalogFailed
       (\<lambda>s. (length (filter (is_file repository_id path) (package_files s)),
             s\<lparr>package_files := filter (\<lambda>f. \<not> is_file repository_id path f) (package_files s)\<rparr>))"

fun delete_by_paths_batch :: "uuid \<Rightarrow> string list \<Rightarrow> nat \<Rightarrow> ('z, nat) catalog_query" where
  "delete_by_paths_batch repository_id [] deleted = ret deleted"
| "delete_by_paths_batch repository_id (path # rest) deleted =
     bind_ok (delete_by_path repository_id path)
       (\<lambda>n. delete_by_paths_batch repository_id rest (deleted + n))"

definition soft_delete_row :: "instant \<Rightarrow> package_file \<Rightarrow> package_file" where
  "soft_delete_row now f = f\<lparr>pf_deleted_at := Some now, pf_updated_at := now\<rparr>"

fun soft_delete_by_paths :: "uuid \<Rightarrow> string list \<Rightarrow> nat \<Rightarrow> ('z, nat) catalog_query" where
  "soft_delete_by_paths repository_id [] updated = ret updated"
| "soft_delete_by_paths repository_id (path # rest) updated =
     bind_ok
       (exec_sql CatalogFailed
          (\<lambda>s. (length (filter (\<lambda>f. is_file repository_id path f \<and> pf_deleted_at f = None) (package_files s)),
                s\<lparr>package_files :=
                    map (\<lambda>f. if is_file repository_id path f \<and> pf_deleted_at f = None
                             then soft_delete_row (cat_now s) f else f) (package_files s)\<rparr>)))
       (\<lambda>n. soft_delete_by_paths repository_id rest (updated + n))"

section \<open>Queries\<close>

definition live_files :: "uuid \<Rightarrow> package_file list \<Rightarrow> package_file list" where
  "live_files repository_id rows =
     filter (\<lambda>f. pf_repository_id f = repository_id \<and> pf_deleted_at f = None) rows"

definition repository_has_rows :: "uuid \<Rightarrow> ('z, bool) catalog_query" where
  "repository_has_rows repository_id =
     select_sql CatalogFailed (\<lambda>s. live_files repository_id (package_files s) \<noteq> [])"

text \<open>\<open>ROW_NUMBER() OVER (PARTITION BY package ORDER BY modified_at DESC, id DESC)\<close>.\<close>

definition newer :: "package_file \<Rightarrow> package_file \<Rightarrow> bool" where
  "newer g f = (pf_modified_at g > pf_modified_at f \<or> (pf_modified_at g = pf_modified_at f \<and> pf_id g > pf_id f))"

definition package_rank :: "package_file list \<Rightarrow> package_file \<Rightarrow> nat" where
  "package_rank rows f = 1 + length (filter (\<lambda>g. pf_package g = pf_package f \<and> newer g f) rows)"

definition retention_candidates :: "uuid \<Rightarrow> instant \<Rightarrow> int \<Rightarrow> ('z, package_file list) catalog_query" where
  "retention_candidates repository_id cutoff keep_latest_per_package =
     select_sql CatalogFailed
       (\<lambda>s. let rows = live_files repository_id (package_files s)
            in sort_key (\<lambda>f. (pf_package f, pf_modified_at f, pf_id f))
                 (filter (\<lambda>f. pf_modified_at f < cutoff \<and>
                              int (package_rank rows f) > max 0 keep_latest_per_package) rows))"

definition normalize_search_term :: "string option \<Rightarrow> string option" where
  "normalize_search_term value =
     (case value of
        None \<Rightarrow> None
      | Some v \<Rightarrow> if trim v = [] then None else Some (to_lower (trim v)))"

text \<open>\<open>LIKE\<close>: a percent sign matches any text, an underscore one character, a backslash takes the next
  character literally.\<close>

fun sql_like :: "string \<Rightarrow> string \<Rightarrow> bool" where
  "sql_like [] s = (s = [])"
| "sql_like (p # ps) s =
     (if p = CHR ''%'' then sql_like ps s \<or> (case s of [] \<Rightarrow> False | _ # cs \<Rightarrow> sql_like (p # ps) cs)
      else if p = CHR ''_'' then (case s of [] \<Rightarrow> False | _ # cs \<Rightarrow> sql_like ps cs)
      else if p = CHR 0x5C
      then (case ps of [] \<Rightarrow> False | q # qs \<Rightarrow> (case s of [] \<Rightarrow> False | c # cs \<Rightarrow> q = c \<and> sql_like qs cs))
      else (case s of [] \<Rightarrow> False | c # cs \<Rightarrow> p = c \<and> sql_like ps cs))"

definition digest_text :: "package_file \<Rightarrow> string" where
  "digest_text f =
     (case pf_content_digest f of
        Some d \<Rightarrow> d
      | None \<Rightarrow> (case pf_upstream_digest f of Some d \<Rightarrow> d | None \<Rightarrow> []))"

definition matches_search :: "string option \<Rightarrow> package_file \<Rightarrow> bool" where
  "matches_search search f =
     (case search of
        None \<Rightarrow> True
      | Some term \<Rightarrow>
          (let pattern = ''%'' @ term @ ''%''
           in sql_like pattern (to_lower (pf_package f)) \<or> sql_like pattern (to_lower (pf_name f)) \<or>
              sql_like pattern (to_lower (pf_path f)) \<or> sql_like pattern (to_lower (digest_text f))))"

datatype sort_by = SortModified | SortPackage | SortName | SortSize | SortPath | SortDigest

datatype sort_direction = Ascending | Descending

text \<open>The value sorted by: a number or a text (compared bytewise, as \<open>COLLATE "C"\<close> does).\<close>

definition sort_expression :: "(uuid \<Rightarrow> string \<Rightarrow> int option) \<Rightarrow> sort_by \<Rightarrow> package_file \<Rightarrow> int \<times> string" where
  "sort_expression ref_size order f =
     (case order of
        SortModified \<Rightarrow> (pf_modified_at f, [])
      | SortPackage \<Rightarrow> (0, to_lower (pf_package f))
      | SortName \<Rightarrow> (0, to_lower (pf_name f))
      | SortSize \<Rightarrow> (case ref_size (pf_repository_id f) (pf_path f) of
                      Some sz \<Rightarrow> (sz, []) | None \<Rightarrow> (pf_size_bytes f, []))
      | SortPath \<Rightarrow> (0, to_lower (pf_path f))
      | SortDigest \<Rightarrow> (0, to_lower (digest_text f)))"

record list_params =
  lp_repository_id :: uuid
  lp_page :: u64
  lp_per_page :: u64
  lp_search :: "string option"
  lp_sort_by :: sort_by
  lp_sort_dir :: sort_direction

definition matching_files :: "list_params \<Rightarrow> package_file list \<Rightarrow> package_file list" where
  "matching_files params rows =
     filter (matches_search (normalize_search_term (lp_search params))) (live_files (lp_repository_id params) rows)"

definition ordered_files ::
  "(uuid \<Rightarrow> string \<Rightarrow> int option) \<Rightarrow> list_params \<Rightarrow> package_file list \<Rightarrow> package_file list" where
  "ordered_files ref_size params rows =
     (let asc = sort_key (\<lambda>f. (sort_expression ref_size (lp_sort_by params) f, pf_id f)) (matching_files params rows)
      in case lp_sort_dir params of Ascending \<Rightarrow> asc | Descending \<Rightarrow> rev asc)"

text \<open>The column \<open>referenced_size_bytes\<close> of a listed row is computed by the query.\<close>

definition listed_row :: "(uuid \<Rightarrow> string \<Rightarrow> int option) \<Rightarrow> package_file \<Rightarrow> package_file" where
  "listed_row ref_size f = f\<lparr>pf_referenced_size_bytes := ref_size (pf_repository_id f) (pf_path f)\<rparr>"

definition query_page ::
  "(uuid \<Rightarrow> string \<Rightarrow> int option) \<Rightarrow> list_params \<Rightarrow> i64 \<Rightarrow> ('z, package_file list) catalog_query" where
  "query_page ref_size params offset =
     try_sql CatalogFailed
       (\<lambda>s. if sint (lp_per_page params) < 0 \<or> sint offset < 0 then Inl NegativeLimit
            else Inr (map (listed_row ref_size)
                   (take (nat (sint (lp_per_page params)))
                     (drop (nat (sint offset)) (ordered_files ref_size params (package_files s)))), s))"

text \<open>\<open>usize\<close> arithmetic wraps in a release build; the casts to \<open>i64\<close> keep the bits.\<close>

definition list_repository_page ::
  "(uuid \<Rightarrow> string \<Rightarrow> int option) \<Rightarrow> list_params \<Rightarrow> ('z, nat \<times> package_file list) catalog_query" where
  "list_repository_page ref_size params =
     (let per_page = max 1 (lp_per_page params);
          page = max 1 (lp_page params);
          offset = (page - 1) * per_page
      in bind_ok (select_sql CatalogFailed (\<lambda>s. length (matching_files params (package_files s)))) (\<lambda>total.
         bind_ok (query_page ref_size params offset) (\<lambda>rows. ret (total, rows))))"

section \<open>Values derived for a row\<close>

definition normalize_digest :: "string option \<Rightarrow> string option" where
  "normalize_digest value =
     (case value of
        None \<Rightarrow> None
      | Some v \<Rightarrow>
          (let trimmed = trim v
           in if trimmed = [] then None
              else if contains_str '':'' trimmed then Some trimmed
              else Some (''sha256:'' @ trimmed)))"

definition file_name_from_path :: "string \<Rightarrow> string \<Rightarrow> string" where
  "file_name_from_path path fallback =
     (let name = last (split_on (CHR ''/'') path) in if trim name \<noteq> [] then name else fallback)"

section \<open>The table's invariant\<close>

definition wf_catalog :: "'z catalog_db_scheme \<Rightarrow> bool" where
  "wf_catalog s \<longleftrightarrow>
     distinct (map pf_id (package_files s)) \<and> distinct (map file_key (package_files s)) \<and>
     (\<forall>f \<in> set (package_files s). pf_id f < package_file_seq s \<and> 0 \<le> pf_size_bytes f)"

lemma wf_catalog_faults [simp]: "wf_catalog (s\<lparr>faults := bs\<rparr>) = wf_catalog s"
  by (simp add: wf_catalog_def)

lemma file_key_new [simp]: "file_key (new_file_row i n input) = (ui_repository_id input, to_lower (ui_path input))"
  by (simp add: file_key_def new_file_row_def)

lemma is_file_key: "is_file r p f \<Longrightarrow> is_file r p g \<longleftrightarrow> file_key g = file_key f"
  by (auto simp: is_file_def)

lemma distinct_key_unique:
  "distinct (map k xs) \<Longrightarrow> f \<in> set xs \<Longrightarrow> g \<in> set xs \<Longrightarrow> k f = k g \<Longrightarrow> f = g"
  by (metis distinct_map inj_onD)

lemma map_replace_key:
  assumes "\<And>f. P f \<Longrightarrow> k f = k row"
  shows "map k (map (\<lambda>f. if P f then row else f) xs) = map k xs"
  using assms by (induction xs) auto

text \<open>The two outcomes of an upsert that succeeds.\<close>

lemma upsert_cases:
  assumes "upsert_file_row input s = (Inr row, t)"
  obtains (updated) old where "find (is_file (ui_repository_id input) (ui_path input)) (package_files s) = Some old"
      and "row = (new_file_row (pf_id old) (cat_now s) input)\<lparr>pf_created_at := pf_created_at old\<rparr>"
      and "package_files t = map (\<lambda>f. if is_file (ui_repository_id input) (ui_path input) f then row else f) (package_files s)"
      and "package_file_seq t = package_file_seq s + 1"
  | (inserted) "find (is_file (ui_repository_id input) (ui_path input)) (package_files s) = None"
      and "row = new_file_row (package_file_seq s) (cat_now s) input"
      and "package_files t = package_files s @ [row]" and "package_file_seq t = package_file_seq s + 1"
  using try_sql_Inr [OF assms [unfolded upsert_file_row_def]]
  by (auto simp: Let_def split: if_splits option.splits)

lemma upsert_failed:
  "upsert_file_row input s = (Inl e, t) \<Longrightarrow> package_files t = package_files s \<and> package_file_seq t = package_file_seq s"
  unfolding upsert_file_row_def try_sql_def
  by (auto simp: Let_def split: list.splits if_splits option.splits sum.splits prod.splits)

lemma find_is_file:
  assumes "find (is_file r p) fs = Some old"
  shows "old \<in> set fs" "is_file r p old"
  using assms by (auto simp: find_Some_iff)

lemma row_key: "file_key (f\<lparr>pf_created_at := c\<rparr>) = file_key f" "is_file r p (f\<lparr>pf_created_at := c\<rparr>) = is_file r p f"
  by (simp_all add: file_key_def is_file_def)

lemma upsert_wf:
  assumes out: "upsert_file_row input s = (Inr row, t)" and wf: "wf_catalog s"
  shows "wf_catalog t"
  using out
proof (cases rule: upsert_cases)
  case (updated old)
  let ?P = "is_file (ui_repository_id input) (ui_path input)"
  note old = find_is_file [OF updated(1)]
  have key: "file_key row = file_key old" using old(2) by (simp add: updated(2) row_key is_file_def)
  have only: "f = old" if "?P f" "f \<in> set (package_files s)" for f
    using distinct_key_unique [of file_key "package_files s" f old] wf that old is_file_key [OF old(2), of f]
    by (auto simp: wf_catalog_def)
  have same: "package_files t = map (\<lambda>f. if f = old then row else f) (package_files s)"
    unfolding updated(3) by (rule map_cong [OF refl]) (use only old(2) in auto)
  have ids: "map pf_id (package_files t) = map pf_id (package_files s)"
    and keys: "map file_key (package_files t) = map file_key (package_files s)"
    unfolding same using key by (auto simp: updated(2) new_file_row_def)
  have "pf_id row < package_file_seq s + 1 \<and> 0 \<le> pf_size_bytes row"
    using wf old(1) by (auto simp: updated(2) new_file_row_def wf_catalog_def)
  then show ?thesis
    using wf unfolding wf_catalog_def ids keys by (auto simp: same updated(4))
next
  case inserted
  have "file_key row \<notin> file_key ` set (package_files s)"
    using inserted(1) by (auto simp: find_None_iff is_file_def inserted(2))
  moreover have "pf_id row \<notin> pf_id ` set (package_files s)"
    using wf by (auto simp: wf_catalog_def inserted(2) new_file_row_def)
  moreover have "pf_id row = package_file_seq s" "0 \<le> pf_size_bytes row" by (simp_all add: inserted(2) new_file_row_def)
  ultimately show ?thesis
    using wf by (auto simp: wf_catalog_def inserted(3,4))
qed

lemma upsert_finds:
  assumes out: "upsert_file_row input s = (Inr row, t)" and wf: "wf_catalog s"
  shows "row \<in> set (package_files t)" "is_file (ui_repository_id input) (ui_path input) row"
    and "f \<in> set (package_files t) \<Longrightarrow> is_file (ui_repository_id input) (ui_path input) f \<Longrightarrow> f = row"
    and "\<not> is_file (ui_repository_id input) (ui_path input) f \<Longrightarrow>
      f \<in> set (package_files t) \<longleftrightarrow> f \<in> set (package_files s)"
proof -
  let ?P = "is_file (ui_repository_id input) (ui_path input)"
  have all: "row \<in> set (package_files t) \<and> ?P row \<and>
     (\<forall>f. \<not> ?P f \<longrightarrow> (f \<in> set (package_files t) \<longleftrightarrow> f \<in> set (package_files s)))"
    using out
  proof (cases rule: upsert_cases)
    case (updated old)
    have "?P row" by (simp add: updated(2) row_key is_file_def)
    with find_is_file [OF updated(1)] show ?thesis by (auto simp: updated(3) image_iff)
  next
    case inserted
    have "?P row" by (simp add: inserted(2) is_file_def)
    then show ?thesis by (auto simp: inserted(3))
  qed
  then show "row \<in> set (package_files t)" "?P row"
    and "\<not> ?P f \<Longrightarrow> f \<in> set (package_files t) \<longleftrightarrow> f \<in> set (package_files s)" by blast+
  show "f \<in> set (package_files t) \<Longrightarrow> ?P f \<Longrightarrow> f = row"
    using distinct_key_unique [of file_key "package_files t" f row] upsert_wf [OF out wf] all
    by (auto simp: is_file_def wf_catalog_def)
qed

lemma delete_by_path_effect:
  assumes "delete_by_path r p s = (Inr n, t)"
  shows "package_files t = filter (\<lambda>f. \<not> is_file r p f) (package_files s)"
    and "n = length (filter (is_file r p) (package_files s))"
    and "package_file_seq t = package_file_seq s" and "cat_now t = cat_now s"
  using exec_sql_Inr [OF assms [unfolded delete_by_path_def]] by auto

lemma wf_catalog_filter:
  "wf_catalog s \<Longrightarrow> package_files t = filter P (package_files s) \<Longrightarrow> package_file_seq t = package_file_seq s \<Longrightarrow>
     wf_catalog t"
  by (auto simp: wf_catalog_def distinct_map_filter)

lemma delete_batch_effect:
  "delete_by_paths_batch r ps d s = (Inr n, t) \<Longrightarrow>
     package_files t = filter (\<lambda>f. \<not> (\<exists>p \<in> set ps. is_file r p f)) (package_files s) \<and>
     package_file_seq t = package_file_seq s \<and>
     n = d + length (filter (\<lambda>f. \<exists>p \<in> set ps. is_file r p f) (package_files s))"
proof (induction ps arbitrary: d s)
  case Nil
  then show ?case by (simp add: ret_def)
next
  case (Cons p ps)
  from Cons.prems obtain m u where a: "delete_by_path r p s = (Inr m, u)"
    and b: "delete_by_paths_batch r ps (d + m) u = (Inr n, t)" by (auto simp: bind_ok_Inr_iff)
  note e = delete_by_path_effect [OF a] and i = Cons.IH [OF b]
  have split: "length (filter (is_file r p) fs) +
      length (filter (\<lambda>f. \<exists>q \<in> set ps. is_file r q f) (filter (\<lambda>f. \<not> is_file r p f) fs)) =
      length (filter (\<lambda>f. \<exists>q \<in> set (p # ps). is_file r q f) fs)" for fs
    by (induction fs) auto
  show ?case using i e split [of "package_files s"]
    by (auto simp: conj_commute intro!: filter_cong)
qed

lemma delete_batch_no_faults:
  "faults s = [] \<Longrightarrow> \<exists>n t. delete_by_paths_batch r ps d s = (Inr n, t) \<and> faults t = []"
proof (induction ps arbitrary: d s)
  case (Cons p ps)
  have "delete_by_path r p s = (Inr (length (filter (is_file r p) (package_files s))),
      s\<lparr>package_files := filter (\<lambda>f. \<not> is_file r p f) (package_files s)\<rparr>)"
    using Cons.prems by (simp add: delete_by_path_def exec_sql_no_faults)
  moreover have "faults (s\<lparr>package_files := filter (\<lambda>f. \<not> is_file r p f) (package_files s)\<rparr>) = []"
    using Cons.prems by simp
  ultimately show ?case using Cons.IH by (simp del: delete_by_paths_batch.simps(1))
qed (simp add: ret_def)

section \<open>What retention deletes\<close>

lemma newer_trans: "newer g f \<Longrightarrow> newer h g \<Longrightarrow> newer h f"
  by (auto simp: newer_def)

lemma newer_irrefl: "\<not> newer f f"
  by (simp add: newer_def)

lemma newer_total: "pf_id f \<noteq> pf_id g \<Longrightarrow> newer f g \<or> newer g f"
  by (auto simp: newer_def)

lemma rank_mono:
  assumes "newer g f" "pf_package g = pf_package f" and "g \<in> set rows"
  shows "package_rank rows g < package_rank rows f"
proof -
  let ?A = "\<lambda>x. filter (\<lambda>h. pf_package h = pf_package x \<and> newer h x) rows"
  have sub: "?A g = filter (\<lambda>h. newer h g) (?A f)"
    using assms(1,2) newer_trans [of g f] by (auto intro!: filter_cong)
  have "g \<in> set (?A f)" "\<not> newer g g" using assms newer_irrefl by auto
  then have "length (filter (\<lambda>h. newer h g) (?A f)) < length (?A f)" by (rule length_filter_less)
  with sub show ?thesis by (simp add: package_rank_def)
qed

lemma retention_candidates_out:
  assumes "retention_candidates r cutoff keep s = (Inr fs, t)"
  shows "t = s\<lparr>faults := tl (faults s)\<rparr>"
    and "f \<in> set fs \<longleftrightarrow> f \<in> set (live_files r (package_files s)) \<and> pf_modified_at f < cutoff \<and>
      max 0 keep < int (package_rank (live_files r (package_files s)) f)"
    and "mset fs = mset (filter (\<lambda>f. pf_modified_at f < cutoff \<and>
        max 0 keep < int (package_rank (live_files r (package_files s)) f)) (live_files r (package_files s)))"
  using select_sql_Inr [OF assms [unfolded retention_candidates_def]] by (auto simp: Let_def)

text \<open>
  C18. The catalogue keeps one row per repository and path, whatever the case of its letters. A
  successful upsert leaves the table well formed, makes the given data the only row of that path,
  live again if it had been deleted, keeps the identifier and the creation time of a row that was
  there, and touches no other row; a refused one changes nothing.
\<close>

theorem upsert_exact:
  assumes "upsert_file_row input s = (out, t)" and "wf_catalog s"
  shows "wf_catalog t \<and>
     (case out of
        Inl _ \<Rightarrow> package_files t = package_files s
      | Inr row \<Rightarrow>
          (\<forall>f. f \<in> set (package_files t) \<longleftrightarrow>
             f = row \<or> f \<in> set (package_files s) \<and> \<not> is_file (ui_repository_id input) (ui_path input) f) \<and>
          pf_path row = ui_path input \<and> pf_deleted_at row = None \<and> pf_modified_at row = ui_modified_at input \<and>
          (\<forall>old \<in> set (package_files s). is_file (ui_repository_id input) (ui_path input) old \<longrightarrow>
             pf_id row = pf_id old \<and> pf_created_at row = pf_created_at old))"
proof (cases out)
  case (Inl e)
  with assms upsert_failed [of input s e t] show ?thesis by (simp add: wf_catalog_def)
next
  case (Inr row)
  let ?P = "is_file (ui_repository_id input) (ui_path input)"
  have out: "upsert_file_row input s = (Inr row, t)" using assms(1) Inr by simp
  note wf = upsert_wf [OF out assms(2)] and finds = upsert_finds [OF out assms(2)]
  have rows: "f \<in> set (package_files t) \<longleftrightarrow> f = row \<or> f \<in> set (package_files s) \<and> \<not> ?P f" for f
    using finds by blast
  have "pf_path row = ui_path input \<and> pf_deleted_at row = None \<and> pf_modified_at row = ui_modified_at input \<and>
     (\<forall>old \<in> set (package_files s). ?P old \<longrightarrow> pf_id row = pf_id old \<and> pf_created_at row = pf_created_at old)"
    using out
  proof (cases rule: upsert_cases)
    case (updated old)
    have "x = old" if "x \<in> set (package_files s)" "?P x" for x
      using distinct_key_unique [of file_key "package_files s" x old] assms(2) that find_is_file [OF updated(1)]
      by (auto simp: is_file_def wf_catalog_def)
    then show ?thesis by (auto simp: updated(2) new_file_row_def)
  next
    case inserted
    then show ?thesis by (auto simp: new_file_row_def find_None_iff)
  qed
  with rows wf Inr show ?thesis by simp
qed

text \<open>
  C19. Retention never deletes the newest files of a package. Deleting the paths that the selection
  returned removes exactly the selected rows: live files of this repository that were modified
  before the cutoff. Every file that a package keeps is newer than every file it loses, and a
  package that loses a file keeps at least the configured number of live files.
\<close>

theorem retention_keeps_latest:
  assumes cand: "retention_candidates r cutoff keep s = (Inr fs, t)"
    and del: "delete_by_paths_batch r (map pf_path fs) 0 t = (Inr n, u)" and wf: "wf_catalog s"
  shows "wf_catalog u \<and> n = length fs \<and>
     (\<forall>f. f \<in> set (package_files u) \<longleftrightarrow> f \<in> set (package_files s) \<and> f \<notin> set fs) \<and>
     (\<forall>f \<in> set fs. f \<in> set (live_files r (package_files s)) \<and> pf_modified_at f < cutoff \<and>
        (\<forall>g \<in> set (live_files r (package_files u)). pf_package g = pf_package f \<longrightarrow> newer g f) \<and>
        keep \<le> int (card {g \<in> set (live_files r (package_files u)). pf_package g = pf_package f}))"
proof -
  let ?rows = "live_files r (package_files s)" and ?kept = "live_files r (package_files u)"
  let ?gone = "\<lambda>f. \<exists>p \<in> set (map pf_path fs). is_file r p f"
  note c = retention_candidates_out [OF cand]
  have wf_t: "wf_catalog t" and files_t: "package_files t = package_files s" using wf by (simp_all add: c(1))
  have d: "package_files u = filter (\<lambda>f. \<not> ?gone f) (package_files s)"
    "package_file_seq u = package_file_seq t" "n = length (filter ?gone (package_files s))"
    using delete_batch_effect [OF del] files_t by simp_all
  have live: "f \<in> set (package_files s)" "pf_repository_id f = r" if "f \<in> set fs" for f
    using that c(2) by (auto simp: live_files_def)
  have gone: "?gone f \<longleftrightarrow> f \<in> set fs" if f: "f \<in> set (package_files s)" for f
  proof
    assume "?gone f"
    then obtain g where g: "g \<in> set fs" "is_file r (pf_path g) f" by auto
    then have "file_key f = file_key g" using live(2) [OF g(1)] by (simp add: is_file_def file_key_def)
    with distinct_key_unique [of file_key "package_files s" f g] wf f live(1) [OF g(1)] g(1) show "f \<in> set fs"
      by (auto simp: wf_catalog_def)
  next
    assume "f \<in> set fs"
    with live show "?gone f" by (auto simp: is_file_def file_key_def)
  qed
  have rows: "f \<in> set (package_files u) \<longleftrightarrow> f \<in> set (package_files s) \<and> f \<notin> set fs" for f
    using gone by (auto simp: d(1))
  have "mset (filter ?gone (package_files s)) = mset fs"
  proof -
    have "filter ?gone (package_files s) = filter (\<lambda>f. f \<in> set fs) (package_files s)"
      using gone by (auto intro!: filter_cong)
    also have "\<dots> = filter (\<lambda>f. pf_modified_at f < cutoff \<and> max 0 keep < int (package_rank ?rows f)) ?rows"
      by (auto simp: c(2) live_files_def intro!: filter_cong)
    finally show ?thesis using c(3) by simp
  qed
  then have n: "n = length fs" unfolding d(3) by (metis size_mset)
  have kept: "g \<in> set ?kept \<longleftrightarrow> g \<in> set ?rows \<and> g \<notin> set fs" for g
    using rows by (auto simp: live_files_def)
  have ids: "distinct (map pf_id ?rows)" using wf by (simp add: wf_catalog_def live_files_def distinct_map_filter)
  have newer: "newer g f" if f: "f \<in> set fs" and g: "g \<in> set ?kept" "pf_package g = pf_package f" for f g
  proof (rule ccontr)
    assume not: "\<not> newer g f"
    have ne: "pf_id g \<noteq> pf_id f"
      using distinct_key_unique [OF ids, of g f] f g(1) c(2) [of f] kept by blast
    then have fg: "newer f g" using newer_total [of g f] not by blast
    then have "pf_modified_at g < cutoff" using c(2) [of f] f by (auto simp: newer_def)
    moreover have "package_rank ?rows f < package_rank ?rows g"
      using rank_mono [OF fg] g(2) c(2) [of f] f by simp
    ultimately have "g \<in> set fs" using c(2) [of f] c(2) [of g] f g(1) kept by auto
    with g(1) kept show False by blast
  qed
  have many: "keep \<le> int (card {g \<in> set ?kept. pf_package g = pf_package f})" if f: "f \<in> set fs" for f
  proof -
    define A where "A = {g \<in> set fs. pf_package g = pf_package f}"
    have "finite A" "A \<noteq> {}" using f by (auto simp: A_def)
    then obtain g where g: "g \<in> A" and least: "\<And>h. h \<in> A \<Longrightarrow> package_rank ?rows g \<le> package_rank ?rows h"
      using ex_min_if_finite [of "package_rank ?rows ` A"] by (auto simp: not_less)
    let ?S = "{h \<in> set ?rows. pf_package h = pf_package g \<and> newer h g}"
    have "distinct ?rows" using ids by (simp add: distinct_map)
    then have "card ?S = package_rank ?rows g - 1"
      by (simp add: package_rank_def distinct_card [symmetric])
    then have "max 0 keep \<le> int (card ?S)" using g c(2) [of g] by (auto simp: A_def)
    moreover have "?S \<subseteq> {h \<in> set ?kept. pf_package h = pf_package f}"
    proof
      fix h
      assume h: "h \<in> ?S"
      then have "package_rank ?rows h < package_rank ?rows g" using rank_mono [of h g ?rows] by auto
      then have "h \<notin> A" using least by fastforce
      with h g kept show "h \<in> {h \<in> set ?kept. pf_package h = pf_package f}" by (auto simp: A_def)
    qed
    then have "card ?S \<le> card {h \<in> set ?kept. pf_package h = pf_package f}" by (simp add: card_mono)
    ultimately show ?thesis by simp
  qed
  have "wf_catalog u" by (rule wf_catalog_filter [OF wf_t]) (simp_all add: d files_t)
  with n rows newer many c(2) show ?thesis by blast
qed

definition sample_input :: "string \<Rightarrow> instant \<Rightarrow> upsert_input" where
  "sample_input path modified =
     \<lparr>ui_repository_id = 7, ui_project_id = None, ui_project_version_id = None, ui_package = ''app'',
      ui_name = path, ui_path = path, ui_size_bytes = 10, ui_referenced_size_bytes = None,
      ui_content_digest = None, ui_upstream_digest = None, ui_modified_at = modified\<rparr>"

definition sample_catalog :: catalog_db where
  "sample_catalog =
     \<lparr>faults = [], cat_now = 100, cat_repositories = [7], cat_projects = [], cat_versions = [],
      package_files = [new_file_row 1 5 (sample_input ''app/1.tgz'' 10), new_file_row 2 6 (sample_input ''app/2.tgz'' 20)],
      package_file_seq = 3\<rparr>"

theorem upsert_exact_witness:
  "\<exists>row t. upsert_file_row (sample_input ''APP/1.tgz'' 30) sample_catalog = (Inr row, t) \<and> pf_id row = 1 \<and>
     pf_created_at row = 5 \<and> wf_catalog t"
proof -
  let ?in = "sample_input ''APP/1.tgz'' 30" and ?old = "new_file_row 1 5 (sample_input ''app/1.tgz'' 10)"
  let ?out = "upsert_file_row ?in sample_catalog"
  have wf: "wf_catalog sample_catalog" by code_simp
  have "fst ?out = Inr (new_file_row 1 100 ?in\<lparr>pf_created_at := 5\<rparr>)" by code_simp
  then obtain row where row: "fst ?out = Inr row" by blast
  then have o: "?out = (Inr row, snd ?out)" by (metis prod.collapse)
  have old: "?old \<in> set (package_files sample_catalog)" by (simp add: sample_catalog_def)
  have "is_file (ui_repository_id ?in) (ui_path ?in) ?old" "pf_id ?old = 1" "pf_created_at ?old = 5" by code_simp+
  with upsert_exact [OF o wf] old have "wf_catalog (snd ?out)" "pf_id row = 1" "pf_created_at row = 5" by auto
  with o show ?thesis by blast
qed

theorem retention_keeps_latest_witness:
  "\<exists>fs t n u. retention_candidates 7 50 1 sample_catalog = (Inr fs, t) \<and>
     delete_by_paths_batch 7 (map pf_path fs) 0 t = (Inr n, u) \<and> n = 1 \<and> length (package_files u) = 1 \<and> wf_catalog u"
proof -
  let ?fs = "[new_file_row 1 5 (sample_input ''app/1.tgz'' 10)]"
  have wf: "wf_catalog sample_catalog" by code_simp
  have "fst (retention_candidates 7 50 1 sample_catalog) = Inr ?fs" by code_simp
  then have c: "retention_candidates 7 50 1 sample_catalog = (Inr ?fs, snd (retention_candidates 7 50 1 sample_catalog))"
    by (metis prod.collapse)
  let ?t = "snd (retention_candidates 7 50 1 sample_catalog)"
  let ?out = "delete_by_paths_batch 7 (map pf_path ?fs) 0 ?t"
  have "fst ?out = Inr 1" "length (package_files (snd ?out)) = 1" by code_simp+
  then have d: "?out = (Inr 1, snd ?out)" "length (package_files (snd ?out)) = 1" by (metis prod.collapse)+
  have "wf_catalog (snd ?out) \<and> (1 :: nat) = length ?fs" using retention_keeps_latest [OF c d(1) wf] by blast
  with c d show ?thesis by blast
qed

section \<open>Pages\<close>

lemma sint_small:
  assumes "n < 2 ^ 63"
  shows "sint (of_nat n :: 64 word) = int n"
proof -
  have "sint (of_nat n :: 64 word) = signed_take_bit 63 (int n)" by (simp add: signed_of_nat)
  also have "\<dots> = int n" by (rule signed_take_bit_int_eq_self) (use assms in auto)
  finally show ?thesis .
qed

lemma concat_pages: "concat (map (\<lambda>k. take m (drop (k * m) xs)) [0..<n]) = take (n * m) xs"
  by (induction n) (simp_all add: take_add [symmetric] add.commute)

lemma ordered_files_sorted:
  "mset (ordered_files ref_size params rows) = mset (matching_files params rows)"
  "lp_sort_dir params = Ascending \<Longrightarrow>
     sorted (map (\<lambda>f. (sort_expression ref_size (lp_sort_by params) f, pf_id f)) (ordered_files ref_size params rows))"
  "lp_sort_dir params = Descending \<Longrightarrow>
     sorted (map (\<lambda>f. (sort_expression ref_size (lp_sort_by params) f, pf_id f)) (rev (ordered_files ref_size params rows)))"
  by (simp_all add: ordered_files_def Let_def split: sort_direction.split)

lemma page_rows:
  assumes "faults s = []" and "lp_per_page params \<noteq> 0" and "k < n" and "n * unat (lp_per_page params) < 2 ^ 63"
  shows "list_repository_page ref_size (params\<lparr>lp_page := of_nat (Suc k)\<rparr>) s =
     (Inr (length (matching_files params (package_files s)),
       map (listed_row ref_size)
         (take (unat (lp_per_page params))
           (drop (k * unat (lp_per_page params)) (ordered_files ref_size params (package_files s))))), s)"
proof -
  let ?per = "lp_per_page params"
  have per: "0 < unat ?per" using assms(2) by (simp add: unat_gt_0)
  have "n \<le> n * unat ?per" using per by simp
  then have k: "Suc k < 2 ^ 63" using assms(3,4) by linarith
  have "k * unat ?per \<le> n * unat ?per" using assms(3) by simp
  then have off: "k * unat ?per < 2 ^ 63" using assms(4) by linarith
  have "1 * unat ?per \<le> n * unat ?per" using assms(3) by (intro mult_le_mono1) simp
  then have small: "unat ?per < 2 ^ 63" using assms(4) by linarith
  have nz: "(of_nat (Suc k) :: u64) \<noteq> 0"
  proof
    assume "(of_nat (Suc k) :: u64) = 0"
    then have "sint (of_nat (Suc k) :: u64) = 0" by simp
    with sint_small [OF k] show False by simp
  qed
  have "max 1 (of_nat (Suc k) :: u64) = of_nat (Suc k)" "max 1 ?per = ?per"
    using nz assms(2) by (simp_all add: max_def word_le_nat_alt unat_eq_0 Suc_le_eq del: of_nat_Suc)
  moreover have "(of_nat (Suc k) - 1) * ?per = of_nat (k * unat ?per)" by simp
  moreover have "sint ?per = int (unat ?per)" using sint_small [OF small] by simp
  moreover have "matching_files (params\<lparr>lp_page := x\<rparr>) fs = matching_files params fs"
    "ordered_files ref_size (params\<lparr>lp_page := x\<rparr>) fs = ordered_files ref_size params fs" for x fs
    by (simp_all add: matching_files_def ordered_files_def)
  ultimately show ?thesis
    using assms(1) sint_small [OF off]
    by (simp add: list_repository_page_def Let_def query_page_def bind_ok_def try_sql_no_faults ret_def
        del: of_nat_Suc of_nat_mult)
qed

section \<open>What a page list promises\<close>

text \<open>The texts of a row that a search looks at, and a search term without the wildcards of \<open>LIKE\<close>.\<close>

definition searched_texts :: "package_file \<Rightarrow> string list" where
  "searched_texts f =
     [pf_package f, pf_name f, pf_path f,
      case pf_content_digest f of
        Some d \<Rightarrow> d | None \<Rightarrow> (case pf_upstream_digest f of Some d \<Rightarrow> d | None \<Rightarrow> [])]"

definition plain_search :: "string option \<Rightarrow> bool" where
  "plain_search search =
     (case search of None \<Rightarrow> True | Some v \<Rightarrow> CHR ''%'' \<notin> set v \<and> CHR ''_'' \<notin> set v \<and> CHR 0x5C \<notin> set v)"

text \<open>\<open>f\<close> comes before \<open>g\<close> by the chosen column.\<close>

definition row_before :: "(uuid \<Rightarrow> string \<Rightarrow> int option) \<Rightarrow> sort_by \<Rightarrow> package_file \<Rightarrow> package_file \<Rightarrow> bool" where
  "row_before ref_size order f g =
     (let size_of = (\<lambda>h. case ref_size (pf_repository_id h) (pf_path h) of Some sz \<Rightarrow> sz | None \<Rightarrow> pf_size_bytes h)
      in case order of
           SortModified \<Rightarrow> pf_modified_at f < pf_modified_at g
         | SortPackage \<Rightarrow> to_lower (pf_package f) < to_lower (pf_package g)
         | SortName \<Rightarrow> to_lower (pf_name f) < to_lower (pf_name g)
         | SortSize \<Rightarrow> size_of f < size_of g
         | SortPath \<Rightarrow> to_lower (pf_path f) < to_lower (pf_path g)
         | SortDigest \<Rightarrow> to_lower (searched_texts f ! 3) < to_lower (searched_texts g ! 3))"

definition row_order ::
  "(uuid \<Rightarrow> string \<Rightarrow> int option) \<Rightarrow> sort_by \<Rightarrow> sort_direction \<Rightarrow> package_file \<Rightarrow> package_file \<Rightarrow> bool" where
  "row_order ref_size order dir f g =
     (case dir of
        Ascending \<Rightarrow> row_before ref_size order f g \<or> \<not> row_before ref_size order g f \<and> pf_id f \<le> pf_id g
      | Descending \<Rightarrow> row_before ref_size order g f \<or> \<not> row_before ref_size order f g \<and> pf_id g \<le> pf_id f)"

lemma key_row_order:
  "(sort_expression ref_size order f, pf_id f) \<le> (sort_expression ref_size order g, pf_id g) \<Longrightarrow>
     row_before ref_size order f g \<or> \<not> row_before ref_size order g f \<and> pf_id f \<le> pf_id g"
  by (cases order)
    (auto simp: row_before_def sort_expression_def searched_texts_def digest_text_def Let_def split: option.splits)

lemma ordered_files_row_order:
  "sorted_wrt (row_order ref_size (lp_sort_by params) (lp_sort_dir params)) (ordered_files ref_size params rows)"
proof -
  let ?k = "\<lambda>f. (sort_expression ref_size (lp_sort_by params) f, pf_id f)"
  show ?thesis
  proof (cases "lp_sort_dir params")
    case Ascending
    then have "sorted_wrt (\<lambda>f g. ?k f \<le> ?k g) (ordered_files ref_size params rows)"
      using ordered_files_sorted(2) [of params ref_size rows] by (simp only: sorted_map)
    then show ?thesis unfolding row_order_def Ascending sort_direction.case
      by (rule sorted_wrt_mono_rel [rotated]) (rule key_row_order)
  next
    case Descending
    then have "sorted_wrt (\<lambda>f g. ?k f \<le> ?k g) (rev (ordered_files ref_size params rows))"
      using ordered_files_sorted(3) [of params ref_size rows] by (simp only: sorted_map)
    then have "sorted_wrt (\<lambda>f g. ?k g \<le> ?k f) (ordered_files ref_size params rows)" by (simp only: sorted_wrt_rev)
    then show ?thesis unfolding row_order_def Descending sort_direction.case
      by (rule sorted_wrt_mono_rel [rotated]) (rule key_row_order)
  qed
qed

text \<open>A pattern without wildcards between two percent signs is found anywhere in the text.\<close>

lemma like_prefix:
  "CHR ''%'' \<notin> set p \<Longrightarrow> CHR ''_'' \<notin> set p \<Longrightarrow> CHR 0x5C \<notin> set p \<Longrightarrow> sql_like (p @ ''%'') s \<longleftrightarrow> starts_with p s"
proof (induction p arbitrary: s)
  case Nil
  have "sql_like ''%'' s" by (induction s) auto
  then show ?case by (simp add: starts_with_def)
next
  case (Cons c p)
  then show ?case by (cases s) (auto simp: starts_with_def)
qed

lemma like_contains:
  assumes "CHR ''%'' \<notin> set p" "CHR ''_'' \<notin> set p" "CHR 0x5C \<notin> set p"
  shows "sql_like (''%'' @ p @ ''%'') s \<longleftrightarrow> contains_str p s"
proof (induction s)
  case Nil
  show ?case using like_prefix [OF assms, of "[]"] by (simp add: starts_with_iff)
next
  case (Cons c s)
  show ?case using like_prefix [OF assms, of "c # s"] Cons by simp
qed

lemma to_lower_plain: "x \<in> set (to_lower s) \<Longrightarrow> \<not> is_ascii_lower x \<Longrightarrow> x \<in> set s"
  by (auto simp: to_lower_def ascii_lower_def is_ascii_upper_def is_ascii_lower_def split: if_splits)

lemma trim_subset: "x \<in> set (trim s) \<Longrightarrow> x \<in> set s"
proof -
  assume "x \<in> set (trim s)"
  then have "x \<in> set (dropWhile is_space (rev (dropWhile is_space s)))"
    by (simp add: trim_def trim_end_def trim_start_def trim_end_while_def trim_start_while_def)
  from set_dropWhileD [OF this] have "x \<in> set (dropWhile is_space s)" by simp
  from set_dropWhileD [OF this] show "x \<in> set s" .
qed

lemma matches_plain:
  assumes "plain_search search"
  shows "matches_search (normalize_search_term search) f \<longleftrightarrow>
    (case search of
       None \<Rightarrow> True
     | Some v \<Rightarrow> trim v = [] \<or> (\<exists>w \<in> set (searched_texts f). contains_str (to_lower (trim v)) (to_lower w)))"
proof (cases search)
  case (Some v)
  let ?t = "to_lower (trim v)"
  have no: "x \<notin> set ?t" if "x \<notin> set v" "\<not> is_ascii_lower x" for x
    using that to_lower_plain trim_subset by blast
  have plain: "CHR ''%'' \<notin> set ?t" "CHR ''_'' \<notin> set ?t" "CHR 0x5C \<notin> set ?t"
    using assms Some no by (simp_all add: plain_search_def is_ascii_lower_def)
  show ?thesis
    using like_contains [OF plain]
    by (simp add: Some normalize_search_term_def matches_search_def Let_def searched_texts_def digest_text_def)
qed (simp add: normalize_search_term_def matches_search_def)

lemma large_page_refused:
  assumes "faults s = []" and "2 ^ 63 \<le> unat (lp_per_page params)"
  shows "fst (list_repository_page ref_size params s) = Inl NegativeLimit"
proof -
  have "sint (lp_per_page params) < 0"
  proof (rule ccontr)
    assume "\<not> sint (lp_per_page params) < 0"
    then have "0 \<le> sint (lp_per_page params)" by simp
    moreover have "sint (lp_per_page params) < 2 ^ 63" using sint_lt [of "lp_per_page params"] by simp
    moreover have "uint (lp_per_page params) = sint (lp_per_page params) mod 2 ^ 64"
      using uint_sint [of "lp_per_page params"] by (simp add: take_bit_eq_mod)
    ultimately have "uint (lp_per_page params) < 2 ^ 63" by simp
    moreover have "int (2 ^ 63) \<le> int (unat (lp_per_page params))" using assms(2) by (rule zle_int [THEN iffD2])
    ultimately show False by simp
  qed
  then show ?thesis using assms(1)
    by (simp add: list_repository_page_def query_page_def Let_def bind_ok_def try_sql_no_faults)
qed

text \<open>
  C20. Paging through the catalogue shows every matching file once. As long as the offsets fit into
  an \<open>i64\<close>, the pages one to \<open>n\<close> put together are the first rows of one fixed list: the live files of the
  repository that match the search, each exactly once, in the chosen direction by the chosen column and
  then by the identifier; and the total is their number. A search term without wildcards matches
  the files one of whose texts (package, name, path, digest) contains it in any case. Every page size
  of 2^63 or more is refused, whatever the page.
\<close>

theorem catalog_pages:
  assumes nf: "faults s = []"
  shows "\<exists>all. mset all = mset (filter (\<lambda>f. pf_repository_id f = lp_repository_id params \<and> pf_deleted_at f = None \<and>
         matches_search (normalize_search_term (lp_search params)) f) (package_files s)) \<and>
     sorted_wrt (row_order ref_size (lp_sort_by params) (lp_sort_dir params)) all \<and>
     (\<forall>f. plain_search (lp_search params) \<longrightarrow>
        matches_search (normalize_search_term (lp_search params)) f =
          (case lp_search params of
             None \<Rightarrow> True
           | Some v \<Rightarrow> trim v = [] \<or> (\<exists>w \<in> set (searched_texts f). contains_str (to_lower (trim v)) (to_lower w)))) \<and>
     (\<forall>n. lp_per_page params \<noteq> 0 \<and> n * unat (lp_per_page params) < 2 ^ 63 \<longrightarrow>
        concat (map (\<lambda>k. case fst (list_repository_page ref_size (params\<lparr>lp_page := of_nat (Suc k)\<rparr>) s) of
              Inl _ \<Rightarrow> [] | Inr (_, rows) \<Rightarrow> rows) [0..<n]) =
          map (listed_row ref_size) (take (n * unat (lp_per_page params)) all) \<and>
        (\<forall>k < n. \<exists>rows. list_repository_page ref_size (params\<lparr>lp_page := of_nat (Suc k)\<rparr>) s =
           (Inr (length all, rows), s))) \<and>
     (\<forall>page per. 2 ^ 63 \<le> unat per \<longrightarrow>
        fst (list_repository_page ref_size (params\<lparr>lp_page := page, lp_per_page := per\<rparr>) s) = Inl NegativeLimit)"
proof -
  let ?all = "ordered_files ref_size params (package_files s)" and ?per = "unat (lp_per_page params)"
  have all: "mset ?all = mset (matching_files params (package_files s))" by (rule ordered_files_sorted(1))
  then have len: "length ?all = length (matching_files params (package_files s))" by (metis size_mset)
  have pages: "concat (map (\<lambda>k. case fst (list_repository_page ref_size (params\<lparr>lp_page := of_nat (Suc k)\<rparr>) s) of
              Inl _ \<Rightarrow> [] | Inr (_, rows) \<Rightarrow> rows) [0..<n]) = map (listed_row ref_size) (take (n * ?per) ?all)"
    and totals: "\<forall>k < n. \<exists>rows. list_repository_page ref_size (params\<lparr>lp_page := of_nat (Suc k)\<rparr>) s =
           (Inr (length ?all, rows), s)"
    if h: "lp_per_page params \<noteq> 0 \<and> n * ?per < 2 ^ 63" for n
  proof -
    note page = page_rows [OF nf conjunct1 [OF h] _ conjunct2 [OF h], of _ ref_size]
    have "concat (map (\<lambda>k. case fst (list_repository_page ref_size (params\<lparr>lp_page := of_nat (Suc k)\<rparr>) s) of
              Inl _ \<Rightarrow> [] | Inr (_, rows) \<Rightarrow> rows) [0..<n]) =
        concat (map (\<lambda>k. map (listed_row ref_size) (take ?per (drop (k * ?per) ?all))) [0..<n])"
      by (intro arg_cong [where f = concat] map_cong) (simp_all add: page del: of_nat_Suc)
    also have "\<dots> = map (listed_row ref_size) (concat (map (\<lambda>k. take ?per (drop (k * ?per) ?all)) [0..<n]))"
      by (simp add: map_concat comp_def)
    finally show "concat (map (\<lambda>k. case fst (list_repository_page ref_size (params\<lparr>lp_page := of_nat (Suc k)\<rparr>) s) of
              Inl _ \<Rightarrow> [] | Inr (_, rows) \<Rightarrow> rows) [0..<n]) = map (listed_row ref_size) (take (n * ?per) ?all)"
      by (simp only: concat_pages)
    show "\<forall>k < n. \<exists>rows. list_repository_page ref_size (params\<lparr>lp_page := of_nat (Suc k)\<rparr>) s =
           (Inr (length ?all, rows), s)"
      unfolding len using page by blast
  qed
  have large: "fst (list_repository_page ref_size (params\<lparr>lp_page := page, lp_per_page := per\<rparr>) s) = Inl NegativeLimit"
    if "2 ^ 63 \<le> unat per" for page per
    by (rule large_page_refused [OF nf]) (use that in simp)
  have wanted: "mset ?all = mset (filter (\<lambda>f. pf_repository_id f = lp_repository_id params \<and> pf_deleted_at f = None \<and>
         matches_search (normalize_search_term (lp_search params)) f) (package_files s))"
    unfolding all matching_files_def live_files_def filter_filter by (simp add: conj_ac)
  show ?thesis
  proof (rule exI [of _ ?all], intro conjI allI)
    fix n
    show "lp_per_page params \<noteq> 0 \<and> n * ?per < 2 ^ 63 \<longrightarrow>
        concat (map (\<lambda>k. case fst (list_repository_page ref_size (params\<lparr>lp_page := of_nat (Suc k)\<rparr>) s) of
              Inl _ \<Rightarrow> [] | Inr (_, rows) \<Rightarrow> rows) [0..<n]) = map (listed_row ref_size) (take (n * ?per) ?all) \<and>
        (\<forall>k < n. \<exists>rows. list_repository_page ref_size (params\<lparr>lp_page := of_nat (Suc k)\<rparr>) s =
           (Inr (length ?all, rows), s))"
      using pages totals by blast
  qed (use wanted ordered_files_row_order matches_plain large in blast)+
qed

theorem catalog_pages_witness:
  "\<exists>all. mset (map pf_path all) = {#''app/1.tgz'', ''app/2.tgz''#} \<and>
     sorted_wrt (row_order (\<lambda>_ _. None) SortModified Descending) all \<and>
     map pf_path (concat (map (\<lambda>k. case fst (list_repository_page (\<lambda>_ _. None)
       \<lparr>lp_repository_id = 7, lp_page = of_nat (Suc k), lp_per_page = 1, lp_search = Some '' APP '',
        lp_sort_by = SortModified, lp_sort_dir = Descending\<rparr> sample_catalog) of
      Inl _ \<Rightarrow> [] | Inr (_, rows) \<Rightarrow> rows) [0..<2])) = map pf_path all"
proof -
  let ?p = "\<lparr>lp_repository_id = 7, lp_page = 0, lp_per_page = 1, lp_search = Some '' APP '',
      lp_sort_by = SortModified, lp_sort_dir = Descending\<rparr>"
  let ?shown = "filter (\<lambda>f. pf_repository_id f = lp_repository_id ?p \<and> pf_deleted_at f = None \<and>
         matches_search (normalize_search_term (lp_search ?p)) f) (package_files sample_catalog)"
  have nf: "faults sample_catalog = []" by (simp add: sample_catalog_def)
  have paths: "map pf_path ?shown = [''app/1.tgz'', ''app/2.tgz'']" by code_simp
  from catalog_pages [OF nf, of ?p "\<lambda>_ _. None"] show ?thesis
  proof (elim exE conjE)
    fix all
    assume all: "mset all = mset ?shown"
      and sorted: "sorted_wrt (row_order (\<lambda>_ _. None) (lp_sort_by ?p) (lp_sort_dir ?p)) all"
      and pages: "\<forall>n. lp_per_page ?p \<noteq> 0 \<and> n * unat (lp_per_page ?p) < 2 ^ 63 \<longrightarrow>
        concat (map (\<lambda>k. case fst (list_repository_page (\<lambda>_ _. None) (?p\<lparr>lp_page := of_nat (Suc k)\<rparr>) sample_catalog) of
              Inl _ \<Rightarrow> [] | Inr (_, rows) \<Rightarrow> rows) [0..<n]) =
          map (listed_row (\<lambda>_ _. None)) (take (n * unat (lp_per_page ?p)) all) \<and>
        (\<forall>k < n. \<exists>rows. list_repository_page (\<lambda>_ _. None) (?p\<lparr>lp_page := of_nat (Suc k)\<rparr>) sample_catalog =
           (Inr (length all, rows), sample_catalog))"
    have m: "mset (map pf_path all) = mset (map pf_path ?shown)" using all by (simp only: mset_map)
    have "length (map pf_path all) = length (map pf_path ?shown)" using m by (rule mset_eq_length)
    then have two: "length all = 2" unfolding paths length_map [of pf_path all] by simp
    have h: "lp_per_page ?p \<noteq> 0 \<and> 2 * unat (lp_per_page ?p) < 2 ^ 63" by simp
    have t: "take (2 * unat (lp_per_page ?p)) all = all" using two by simp
    have paged: "concat (map (\<lambda>k. case fst (list_repository_page (\<lambda>_ _. None) (?p\<lparr>lp_page := of_nat (Suc k)\<rparr>) sample_catalog) of
              Inl _ \<Rightarrow> [] | Inr (_, rows) \<Rightarrow> rows) [0..<2]) = map (listed_row (\<lambda>_ _. None)) all"
      using conjunct1 [OF pages [rule_format, OF h]] unfolding t .
    have "map pf_path (map (listed_row (\<lambda>_ _. None)) all) = map pf_path all" by (simp add: listed_row_def)
    then show ?thesis using m sorted paths arg_cong [OF paged, of "map pf_path"]
      by (intro exI [of _ all]) (simp only: list_params.update_convs list_params.select_convs mset.simps)
  qed
qed

end
