(* ===== verification/Webhooks.thy ===== *)
theory Webhooks
  imports AuthTokens Egress PackageFiles
begin

text \<open>
  Webhook definitions and the events they receive (pkgly/src/app/webhooks/mod.rs): the validation of
  a definition, the merge of its headers with the stored ones, the table \<open>webhooks\<close> with its JSON
  columns, the snapshot of a package event and the deliveries it enqueues. What happens to a
  delivery afterwards is in \<open>WebhookDelivery\<close>.

  Parameters stand for code outside the repository: \<open>parse_url\<close> for \<open>Url::parse\<close>, \<open>header_name_ok\<close>
  for \<open>HeaderName::from_bytes\<close>, \<open>show_uuid\<close> and \<open>show_time\<close> for the text forms of identifiers and
  times, \<open>version\<close> for the version of the build. \<open>LOWER\<close> acts on ASCII letters.
\<close>

section \<open>JSON values and ordered maps\<close>

datatype json =
    JNull
  | JBool bool
  | JNumber int
  | JString string
  | JArray "json list"
  | JObject "(string \<times> json) list"

text \<open>A \<open>BTreeMap\<close> is its list of entries in the order of the keys.\<close>

type_synonym 'v btree_map = "(string \<times> 'v) list"

fun btree_insert :: "string \<Rightarrow> 'v \<Rightarrow> 'v btree_map \<Rightarrow> 'v btree_map" where
  "btree_insert k v [] = [(k, v)]"
| "btree_insert k v ((j, w) # m) =
     (if k < j then (k, v) # (j, w) # m
      else if k = j then (k, v) # m
      else (j, w) # btree_insert k v m)"

definition btree_from :: "(string \<times> 'v) list \<Rightarrow> 'v btree_map" where
  "btree_from kvs = foldl (\<lambda>m (k, v). btree_insert k v m) [] kvs"

definition wf_btree :: "'v btree_map \<Rightarrow> bool" where
  "wf_btree m = sorted_wrt (<) (map fst m)"

text \<open>\<open>iter.collect::<Result<_, _>>()\<close>: the first error, or all the values.\<close>

fun collect_results :: "('a \<Rightarrow> 'e + 'b) \<Rightarrow> 'a list \<Rightarrow> 'e + 'b list" where
  "collect_results f [] = Inr []"
| "collect_results f (x # xs) =
     (case f x of
        Inl e \<Rightarrow> Inl e
      | Inr y \<Rightarrow> (case collect_results f xs of Inl e \<Rightarrow> Inl e | Inr ys \<Rightarrow> Inr (y # ys)))"

section \<open>Events and definitions\<close>

datatype webhook_event = PackagePublished | PackageDeleted | PackagePromoted

fun event_as_str :: "webhook_event \<Rightarrow> string" where
  "event_as_str PackagePublished = ''package.published''"
| "event_as_str PackageDeleted = ''package.deleted''"
| "event_as_str PackagePromoted = ''package.promoted''"

datatype delivery_status = Pending | Processing | Delivered | Failed

fun status_as_str :: "delivery_status \<Rightarrow> string" where
  "status_as_str Pending = ''pending''"
| "status_as_str Processing = ''processing''"
| "status_as_str Delivered = ''delivered''"
| "status_as_str Failed = ''failed''"

datatype webhook_error =
    WebhookNameRequired
  | TargetUrlInvalid
  | TargetUrlScheme
  | TargetUrlBlocked egress_error
  | NoEventSelected
  | HeaderNameRequired
  | InvalidHeaderName string
  | ReservedHeader string
  | DuplicateHeader string
  | EmptyHeaderValue string
  | NoStoredHeaderValue string
  | HeaderValueMissing string
  | UnsupportedEvent string
  | UnsupportedStatus string
  | EventsNotArray
  | EventNotString
  | HeadersNotObject
  | HeaderNotString string
  | NotReloaded uuid
  | WebhookQueryFailed

definition event_from_str :: "string \<Rightarrow> webhook_error + webhook_event" where
  "event_from_str value =
     (if value = ''package.published'' then Inr PackagePublished
      else if value = ''package.deleted'' then Inr PackageDeleted
      else if value = ''package.promoted'' then Inr PackagePromoted
      else Inl (UnsupportedEvent value))"

definition status_from_str :: "string \<Rightarrow> webhook_error + delivery_status" where
  "status_from_str value =
     (if value = ''pending'' then Inr Pending
      else if value = ''processing'' then Inr Processing
      else if value = ''delivered'' then Inr Delivered
      else if value = ''failed'' then Inr Failed
      else Inl (UnsupportedStatus value))"

record header_input =
  hi_name :: string
  hi_value :: "string option"
  hi_configured :: bool

record webhook_input =
  wi_name :: string
  wi_enabled :: bool
  wi_target_url :: string
  wi_events :: "webhook_event list"
  wi_headers :: "header_input list"

record stored_webhook =
  sw_id :: uuid
  sw_name :: string
  sw_enabled :: bool
  sw_target_url :: string
  sw_events :: "webhook_event list"
  sw_headers :: "string btree_map"

section \<open>Validation\<close>

definition is_forbidden_webhook_header :: "string \<Rightarrow> bool" where
  "is_forbidden_webhook_header name =
     (to_lower name \<in> {''host'', ''content-length'', ''transfer-encoding'', ''connection'',
        ''proxy-authorization'', ''proxy-connection'', ''forwarded'', ''via'', ''x-forwarded-for'',
        ''x-forwarded-host'', ''x-forwarded-proto''})"

text \<open>The stored headers by their name in lower case; a later entry replaces an earlier one.\<close>

definition existing_lookup :: "string btree_map option \<Rightarrow> string \<Rightarrow> (string \<times> string) option" where
  "existing_lookup current =
     (case current of
        None \<Rightarrow> Map.empty
      | Some m \<Rightarrow> foldl (\<lambda>found (name, value). found(to_lower name \<mapsto> (name, value))) Map.empty m)"

fun merge_header_loop ::
  "(string \<Rightarrow> bool) \<Rightarrow> (string \<Rightarrow> (string \<times> string) option) \<Rightarrow> string list \<Rightarrow> string btree_map \<Rightarrow>
     header_input list \<Rightarrow> webhook_error + string btree_map" where
  "merge_header_loop header_name_ok stored seen merged [] = Inr merged"
| "merge_header_loop header_name_ok stored seen merged (header # rest) =
     (let trimmed_name = trim (hi_name header); normalized = to_lower trimmed_name
      in if trimmed_name = [] then Inl HeaderNameRequired
         else if \<not> header_name_ok trimmed_name then Inl (InvalidHeaderName trimmed_name)
         else if is_forbidden_webhook_header trimmed_name then Inl (ReservedHeader trimmed_name)
         else if normalized \<in> set seen then Inl (DuplicateHeader trimmed_name)
         else
           (case hi_value header of
              Some value \<Rightarrow>
                if trim value = [] then Inl (EmptyHeaderValue trimmed_name)
                else merge_header_loop header_name_ok stored (normalized # seen)
                       (btree_insert trimmed_name (trim value) merged) rest
            | None \<Rightarrow>
                if hi_configured header
                then (case stored normalized of
                        None \<Rightarrow> Inl (NoStoredHeaderValue trimmed_name)
                      | Some (stored_name, stored_value) \<Rightarrow>
                          merge_header_loop header_name_ok stored (normalized # seen)
                            (btree_insert stored_name stored_value merged) rest)
                else Inl (HeaderValueMissing trimmed_name)))"

definition merge_headers ::
  "(string \<Rightarrow> bool) \<Rightarrow> string btree_map option \<Rightarrow> header_input list \<Rightarrow> webhook_error + string btree_map" where
  "merge_headers header_name_ok current headers =
     merge_header_loop header_name_ok (existing_lookup current) [] [] headers"

text \<open>The selected events without repetition, in their order.\<close>

fun distinct_events :: "string list \<Rightarrow> webhook_event list \<Rightarrow> webhook_event list" where
  "distinct_events seen [] = []"
| "distinct_events seen (event # rest) =
     (if event_as_str event \<in> set seen then distinct_events seen rest
      else event # distinct_events (event_as_str event # seen) rest)"

definition validate_webhook_input ::
  "('net \<Rightarrow> ip_addr \<Rightarrow> bool) \<Rightarrow> (string \<Rightarrow> parsed_url option) \<Rightarrow> (string \<Rightarrow> bool) \<Rightarrow> 'net egress_policy \<Rightarrow> uuid \<Rightarrow>
     stored_webhook option \<Rightarrow> webhook_input \<Rightarrow> webhook_error + stored_webhook" where
  "validate_webhook_input net_contains parse_url header_name_ok policy new_id current input =
     (let name = trim (wi_name input); target_url = trim (wi_target_url input);
          events = distinct_events [] (wi_events input)
      in if name = [] then Inl WebhookNameRequired
         else
           (case parse_url target_url of
              None \<Rightarrow> Inl TargetUrlInvalid
            | Some url \<Rightarrow>
                if url_scheme url \<noteq> ''http'' \<and> url_scheme url \<noteq> ''https'' then Inl TargetUrlScheme
                else
                  (case validate_url net_contains policy url of
                     Inl e \<Rightarrow> Inl (TargetUrlBlocked e)
                   | Inr _ \<Rightarrow>
                       if events = [] then Inl NoEventSelected
                       else
                         (case merge_headers header_name_ok (map_option sw_headers current) (wi_headers input) of
                            Inl e \<Rightarrow> Inl e
                          | Inr headers \<Rightarrow>
                              Inr \<lparr>sw_id = (case current of Some c \<Rightarrow> sw_id c | None \<Rightarrow> new_id),
                                   sw_name = name, sw_enabled = wi_enabled input, sw_target_url = target_url,
                                   sw_events = events, sw_headers = headers\<rparr>))))"

section \<open>The JSON columns\<close>

definition to_json_events :: "webhook_event list \<Rightarrow> json" where
  "to_json_events events = JArray (map (\<lambda>event. JString (event_as_str event)) events)"

definition to_json_headers :: "string btree_map \<Rightarrow> json" where
  "to_json_headers headers = JObject (btree_from (map (\<lambda>(name, value). (name, JString value)) headers))"

definition parse_events :: "json \<Rightarrow> webhook_error + webhook_event list" where
  "parse_events value =
     (case value of
        JArray items \<Rightarrow>
          collect_results (\<lambda>item. case item of JString v \<Rightarrow> event_from_str v | _ \<Rightarrow> Inl EventNotString) items
      | _ \<Rightarrow> Inl EventsNotArray)"

definition parse_headers :: "json \<Rightarrow> webhook_error + string btree_map" where
  "parse_headers value =
     (case value of
        JObject entries \<Rightarrow>
          (case collect_results (\<lambda>(name, v). case v of JString secret \<Rightarrow> Inr (name, secret)
                                             | _ \<Rightarrow> Inl (HeaderNotString name)) entries of
             Inl e \<Rightarrow> Inl e
           | Inr kvs \<Rightarrow> Inr (btree_from kvs))
      | _ \<Rightarrow> Inl HeadersNotObject)"

section \<open>State\<close>

record webhook_row =
  w_id :: uuid
  w_name :: string
  w_enabled :: bool
  w_target_url :: string
  w_events :: json
  w_headers :: json
  w_updated_at :: instant
  w_created_at :: instant

record delivery =
  d_id :: int
  d_webhook_id :: "uuid option"
  d_webhook_name :: string
  d_event_type :: string
  d_subscription_key :: string
  d_target_url :: string
  d_headers :: json
  d_payload :: json
  d_status :: string
  d_attempts :: i32
  d_max_attempts :: i32
  d_next_attempt_at :: instant
  d_claimed_at :: "instant option"
  d_claim_token :: "uuid option"
  d_claim_expires_at :: "instant option"
  d_last_attempt_at :: "instant option"
  d_delivered_at :: "instant option"
  d_last_http_status :: "i32 option"
  d_last_error :: "string option"
  d_updated_at :: instant
  d_created_at :: instant

text \<open>The columns of repositories and storages that an event is described with, and the tables of projects
  and their versions (crates/core/src/database/entities/project).\<close>

record repository_row =
  rr_id :: uuid
  rr_name :: string
  rr_storage_name :: string
  rr_repository_type :: string

record project_row =
  pr_id :: uuid
  pr_repository_id :: uuid
  pr_scope :: "string option"
  pr_key :: string
  pr_name :: "string option"
  pr_path :: string
  pr_description :: "string option"
  pr_npm_dist_tags :: "(string \<rightharpoonup> string) option"
  pr_updated_at :: instant
  pr_created_at :: instant

record version_row =
  pv_id :: uuid
  pv_project_id :: uuid
  pv_repository_id :: uuid
  pv_version :: string
  pv_release_type :: string
  pv_path :: string
  pv_publisher :: "rowid option"
  pv_version_page :: "string option"
  pv_extra :: json
  pv_updated_at :: instant
  pv_created_at :: instant

record webhook_db = token_db +
  webhooks :: "webhook_row list"
  deliveries :: "delivery list"
  delivery_seq :: int
  repository_rows :: "repository_row list"
  project_rows :: "project_row list"
  version_rows :: "version_row list"

type_synonym ('z, 'a) webhook_query = "('z webhook_db_scheme, webhook_error, 'a) stm"

section \<open>Stored definitions\<close>

record webhook_summary =
  ws_id :: uuid
  ws_name :: string
  ws_enabled :: bool
  ws_target_url :: string
  ws_events :: "webhook_event list"
  ws_headers :: "(string \<times> bool) list"
  ws_last_delivery_status :: "delivery_status option"
  ws_last_delivery_at :: "instant option"
  ws_last_http_status :: "i32 option"
  ws_last_error :: "string option"

text \<open>The names of the headers in order, each marked as configured; their values stay in the table.\<close>

definition parse_header_summaries :: "json \<Rightarrow> webhook_error + (string \<times> bool) list" where
  "parse_header_summaries value =
     (case parse_headers value of
        Inl e \<Rightarrow> Inl e
      | Inr headers \<Rightarrow> Inr (sort_key fst (map (\<lambda>(name, _). (name, True)) headers)))"

definition stored_webhook_from_row :: "webhook_row \<Rightarrow> webhook_error + stored_webhook" where
  "stored_webhook_from_row row =
     (case parse_events (w_events row) of
        Inl e \<Rightarrow> Inl e
      | Inr events \<Rightarrow>
          (case parse_headers (w_headers row) of
             Inl e \<Rightarrow> Inl e
           | Inr headers \<Rightarrow>
               Inr \<lparr>sw_id = w_id row, sw_name = w_name row, sw_enabled = w_enabled row,
                    sw_target_url = w_target_url row, sw_events = events, sw_headers = headers\<rparr>))"

text \<open>The latest delivery of a webhook: \<open>ORDER BY created_at DESC, id DESC LIMIT 1\<close>.\<close>

definition latest_delivery :: "uuid \<Rightarrow> delivery list \<Rightarrow> delivery option" where
  "latest_delivery wid rows =
     (case rev (sort_key (\<lambda>d. (d_created_at d, d_id d)) (filter (\<lambda>d. d_webhook_id d = Some wid) rows)) of
        [] \<Rightarrow> None
      | d # _ \<Rightarrow> Some d)"

definition delivery_time :: "delivery \<Rightarrow> instant" where
  "delivery_time d =
     (case d_delivered_at d of
        Some at \<Rightarrow> at
      | None \<Rightarrow> (case d_last_attempt_at d of Some at \<Rightarrow> at | None \<Rightarrow> d_created_at d))"

definition webhook_summary_from_row :: "webhook_row \<times> delivery option \<Rightarrow> webhook_error + webhook_summary" where
  "webhook_summary_from_row = (\<lambda>(row, d).
     (case parse_header_summaries (w_headers row) of
        Inl e \<Rightarrow> Inl e
      | Inr headers \<Rightarrow>
          (case parse_events (w_events row) of
             Inl e \<Rightarrow> Inl e
           | Inr events \<Rightarrow>
               (case (case d of None \<Rightarrow> Inr None
                              | Some x \<Rightarrow> map_sum (\<lambda>e. e) Some (status_from_str (d_status x))) of
                  Inl e \<Rightarrow> Inl e
                | Inr status \<Rightarrow>
                    Inr \<lparr>ws_id = w_id row, ws_name = w_name row, ws_enabled = w_enabled row,
                         ws_target_url = w_target_url row, ws_events = events, ws_headers = headers,
                         ws_last_delivery_status = status,
                         ws_last_delivery_at = map_option delivery_time d,
                         ws_last_http_status = Option.bind d d_last_http_status,
                         ws_last_error = Option.bind d d_last_error\<rparr>))))"

text \<open>\<open>collate\<close> gives the order of names in the collation of the database.\<close>

definition list_webhooks :: "(string \<Rightarrow> string) \<Rightarrow> ('z, webhook_summary list) webhook_query" where
  "list_webhooks collate =
     bind_ok (select_sql WebhookQueryFailed
       (\<lambda>s. map (\<lambda>w. (w, latest_delivery (w_id w) (deliveries s)))
              (sort_key (\<lambda>w. (w_created_at w, collate (w_name w))) (webhooks s))))
       (\<lambda>rows. from_result (collect_results webhook_summary_from_row rows))"

definition find_webhook :: "uuid \<Rightarrow> webhook_row list \<Rightarrow> webhook_row option" where
  "find_webhook wid rows = find (\<lambda>w. w_id w = wid) rows"

definition get_webhook :: "uuid \<Rightarrow> ('z, webhook_summary option) webhook_query" where
  "get_webhook wid =
     bind_ok (select_sql WebhookQueryFailed
       (\<lambda>s. map_option (\<lambda>w. (w, latest_delivery (w_id w) (deliveries s))) (find_webhook wid (webhooks s))))
       (\<lambda>row. case row of
                None \<Rightarrow> ret None
              | Some r \<Rightarrow> from_result (map_sum (\<lambda>e. e) Some (webhook_summary_from_row r)))"

definition load_stored_webhook :: "uuid \<Rightarrow> ('z, stored_webhook option) webhook_query" where
  "load_stored_webhook wid =
     bind_ok (select_sql WebhookQueryFailed (\<lambda>s. find_webhook wid (webhooks s)))
       (\<lambda>row. case row of
                None \<Rightarrow> ret None
              | Some r \<Rightarrow> from_result (map_sum (\<lambda>e. e) Some (stored_webhook_from_row r)))"

definition new_webhook_row :: "uuid \<Rightarrow> instant \<Rightarrow> stored_webhook \<Rightarrow> webhook_row" where
  "new_webhook_row wid at v =
     \<lparr>w_id = wid, w_name = sw_name v, w_enabled = sw_enabled v, w_target_url = sw_target_url v,
      w_events = to_json_events (sw_events v), w_headers = to_json_headers (sw_headers v),
      w_updated_at = at, w_created_at = at\<rparr>"

text \<open>\<open>new_id\<close> is the identifier drawn by \<open>create_webhook\<close>; the one drawn by the validation is not
  used. An identifier that exists violates the primary key.\<close>

definition create_webhook ::
  "('net \<Rightarrow> ip_addr \<Rightarrow> bool) \<Rightarrow> (string \<Rightarrow> parsed_url option) \<Rightarrow> (string \<Rightarrow> bool) \<Rightarrow> 'net egress_policy \<Rightarrow> uuid \<Rightarrow>
     webhook_input \<Rightarrow> ('z, webhook_summary) webhook_query" where
  "create_webhook net_contains parse_url header_name_ok policy new_id input =
     bind_ok (from_result (validate_webhook_input net_contains parse_url header_name_ok policy new_id None input))
       (\<lambda>validated.
          bind_ok (try_sql WebhookQueryFailed
            (\<lambda>s. if find_webhook new_id (webhooks s) \<noteq> None then Inl WebhookQueryFailed
                 else Inr ((), s\<lparr>webhooks := webhooks s @ [new_webhook_row new_id (now s) validated]\<rparr>)))
            (\<lambda>_. bind_ok (get_webhook new_id)
                   (\<lambda>found. case found of None \<Rightarrow> fail (NotReloaded new_id) | Some w \<Rightarrow> ret w)))"

definition update_webhook ::
  "('net \<Rightarrow> ip_addr \<Rightarrow> bool) \<Rightarrow> (string \<Rightarrow> parsed_url option) \<Rightarrow> (string \<Rightarrow> bool) \<Rightarrow> 'net egress_policy \<Rightarrow> uuid \<Rightarrow>
     uuid \<Rightarrow> webhook_input \<Rightarrow> ('z, webhook_summary option) webhook_query" where
  "update_webhook net_contains parse_url header_name_ok policy new_id wid input =
     bind_ok (load_stored_webhook wid) (\<lambda>found.
       case found of
         None \<Rightarrow> ret None
       | Some current \<Rightarrow>
           bind_ok (from_result
             (validate_webhook_input net_contains parse_url header_name_ok policy new_id (Some current) input))
             (\<lambda>validated.
                bind_ok (exec_sql WebhookQueryFailed
                  (\<lambda>s. (length (filter (\<lambda>w. w_id w = wid) (webhooks s)),
                        s\<lparr>webhooks := map (\<lambda>w. if w_id w = wid
                            then (new_webhook_row wid (now s) validated)\<lparr>w_created_at := w_created_at w\<rparr>
                            else w) (webhooks s)\<rparr>)))
                  (\<lambda>updated. if updated = 0 then ret None else get_webhook wid)))"

definition delete_webhook :: "uuid \<Rightarrow> ('z, bool) webhook_query" where
  "delete_webhook wid =
     bind_ok (exec_sql WebhookQueryFailed
       (\<lambda>s. (length (filter (\<lambda>w. w_id w = wid) (webhooks s)),
             s\<lparr>webhooks := filter (\<lambda>w. w_id w \<noteq> wid) (webhooks s)\<rparr>)))
       (\<lambda>n. ret (n > 0))"

section \<open>Package events\<close>

record webhook_actor =
  wa_user_id :: "rowid option"
  wa_username :: "string option"

definition actor_from_user :: "user_safe \<Rightarrow> webhook_actor" where
  "actor_from_user u = \<lparr>wa_user_id = Some (us_id u), wa_username = Some (us_username u)\<rparr>"

definition resolve_actor :: "webhook_actor \<Rightarrow> ('z, webhook_actor) webhook_query" where
  "resolve_actor actor =
     (if wa_username actor \<noteq> None \<or> wa_user_id actor = None then ret actor
      else
        (case wa_user_id actor of
           None \<Rightarrow> ret actor
         | Some user_id \<Rightarrow>
             bind_ok (map_err (\<lambda>_. WebhookQueryFailed) (get_safe_by_id user_id)) (\<lambda>resolved.
               ret \<lparr>wa_user_id = Some user_id, wa_username = map_option us_username resolved\<rparr>)))"

record package_snapshot =
  ps_scope :: "string option"
  ps_package_key :: "string option"
  ps_package_name :: "string option"
  ps_project_path :: "string option"
  ps_version :: "string option"
  ps_version_path :: "string option"

record event_snapshot =
  es_event_type :: webhook_event
  es_occurred_at :: instant
  es_canonical_path :: string
  es_actor :: webhook_actor
  es_repository :: repository_row
  es_package :: package_snapshot

definition package_of :: "project_row \<Rightarrow> version_row option \<Rightarrow> package_snapshot" where
  "package_of p v =
     \<lparr>ps_scope = pr_scope p, ps_package_key = Some (pr_key p), ps_package_name = pr_name p,
      ps_project_path = Some (pr_path p), ps_version = map_option pv_version v,
      ps_version_path = map_option pv_path v\<rparr>"

text \<open>The rows of \<open>projects p LEFT JOIN project_versions v ON v.project_id = p.id\<close>.\<close>

definition left_join_versions :: "version_row list \<Rightarrow> project_row \<Rightarrow> (project_row \<times> version_row option) list" where
  "left_join_versions vs p =
     (case filter (\<lambda>v. pv_project_id v = pr_id p) vs of
        [] \<Rightarrow> [(p, None)]
      | ws \<Rightarrow> map (\<lambda>v. (p, Some v)) ws)"

definition version_path_text :: "version_row option \<Rightarrow> string" where
  "version_path_text v = (case v of None \<Rightarrow> [] | Some x \<Rightarrow> pv_path x)"

text \<open>How a row matches the path, best first; \<open>None\<close> does not match. The paths of the rows are
  patterns of \<open>LIKE\<close>.\<close>

definition path_match :: "string \<Rightarrow> project_row \<times> version_row option \<Rightarrow> nat option" where
  "path_match path = (\<lambda>(p, v).
     let wanted = to_lower path; version_path = to_lower (version_path_text v); project_path = to_lower (pr_path p)
     in if version_path = wanted then Some 0
        else if project_path = wanted then Some 1
        else if sql_like (version_path @ ''/%'') wanted then Some 2
        else if sql_like (project_path @ ''/%'') wanted then Some 3
        else None)"

text \<open>\<open>LENGTH\<close> counts characters.\<close>

definition sql_length :: "string \<Rightarrow> nat" where
  "sql_length t = length (filter (\<lambda>c. \<not> is_utf8_cont c) t)"

definition best_path_match ::
  "string \<Rightarrow> (project_row \<times> version_row option) list \<Rightarrow> (project_row \<times> version_row option) option" where
  "best_path_match path rows =
     (case sort_key (\<lambda>(p, v). (the (path_match path (p, v)), - int (sql_length (version_path_text v)),
                                 - int (sql_length (pr_path p))))
             (filter (\<lambda>r. path_match path r \<noteq> None) rows) of
        [] \<Rightarrow> None
      | r # _ \<Rightarrow> Some r)"

text \<open>The position of the first segment \<open>manifests\<close> is the length of the segments before it.\<close>

definition parse_manifest_reference_path :: "string \<Rightarrow> (string \<times> string) option" where
  "parse_manifest_reference_path path =
     (let trimmed = trim_start_while (\<lambda>c. c = CHR ''/'') path
      in if \<not> starts_with ''v2/'' trimmed then None
         else
           (let segments = split_on (CHR ''/'') trimmed;
                manifest_idx = length (takeWhile (\<lambda>segment. segment \<noteq> ''manifests'') segments)
            in if ''manifests'' \<notin> set segments then None
               else if manifest_idx < 2 \<or> manifest_idx + 1 \<ge> length segments then None
               else
                 (let repository = join_with ''/'' (tl (take manifest_idx segments));
                      reference = segments ! (manifest_idx + 1)
                  in if repository = [] \<or> reference = [] then None else Some (repository, reference))))"

definition manifest_matches ::
  "uuid \<Rightarrow> string \<Rightarrow> string \<Rightarrow> project_row list \<Rightarrow> version_row list \<Rightarrow> (project_row \<times> version_row option) list" where
  "manifest_matches repository_id repository_name reference ps vs =
     [(p, Some v). p \<leftarrow> ps, v \<leftarrow> vs,
        pv_project_id v = pr_id p \<and> pr_repository_id p = repository_id \<and>
        to_lower (pv_version v) = to_lower reference \<and>
        (to_lower (pr_key p) = to_lower repository_name \<or>
         (case pr_name p of None \<Rightarrow> False | Some n \<Rightarrow> to_lower n = to_lower repository_name))]"

definition best_manifest_match ::
  "(project_row \<times> version_row option) list \<Rightarrow> (project_row \<times> version_row option) option" where
  "best_manifest_match rows =
     (case sort_key (\<lambda>(p, v). - int (sql_length (version_path_text v))) rows of [] \<Rightarrow> None | r # _ \<Rightarrow> Some r)"

definition resolve_package_snapshot :: "uuid \<Rightarrow> string \<Rightarrow> ('z, package_snapshot option) webhook_query" where
  "resolve_package_snapshot repository_id canonical_path =
     bind_ok (select_sql WebhookQueryFailed
       (\<lambda>s. best_path_match canonical_path
              (concat (map (left_join_versions (version_rows s))
                 (filter (\<lambda>p. pr_repository_id p = repository_id) (project_rows s))))))
       (\<lambda>row.
          bind_ok
            (if row \<noteq> None then ret row
             else
               (case parse_manifest_reference_path canonical_path of
                  None \<Rightarrow> ret None
                | Some (repository_name, reference) \<Rightarrow>
                    select_sql WebhookQueryFailed
                      (\<lambda>s. best_manifest_match
                             (manifest_matches repository_id repository_name reference (project_rows s) (version_rows s)))))
            (\<lambda>found. ret (map_option (\<lambda>(p, v). package_of p v) found)))"

definition unknown_package :: "string \<Rightarrow> package_snapshot" where
  "unknown_package canonical_path =
     \<lparr>ps_scope = None, ps_package_key = None,
      ps_package_name =
        (case filter (\<lambda>segment. segment \<noteq> []) (split_on (CHR ''/'') canonical_path) of
           [] \<Rightarrow> None
         | segments \<Rightarrow> Some (last segments)),
      ps_project_path = None, ps_version = None, ps_version_path = None\<rparr>"

definition build_package_event_snapshot ::
  "uuid \<Rightarrow> webhook_event \<Rightarrow> string \<Rightarrow> webhook_actor \<Rightarrow> bool \<Rightarrow> ('z, event_snapshot option) webhook_query" where
  "build_package_event_snapshot repository_id event_type canonical_path actor require_catalog_match =
     bind_ok (select_sql WebhookQueryFailed (\<lambda>s. find (\<lambda>r. rr_id r = repository_id) (repository_rows s)))
       (\<lambda>found.
          case found of
            None \<Rightarrow> ret None
          | Some repository \<Rightarrow>
              bind_ok (resolve_actor actor) (\<lambda>resolved.
              bind_ok (resolve_package_snapshot repository_id canonical_path) (\<lambda>package.
                if require_catalog_match \<and> package = None then ret None
                else
                  (\<lambda>s. ret (Some
                    \<lparr>es_event_type = event_type, es_occurred_at = now s, es_canonical_path = canonical_path,
                     es_actor = resolved, es_repository = repository,
                     es_package = (case package of Some p \<Rightarrow> p | None \<Rightarrow> unknown_package canonical_path)\<rparr>) s))))"

section \<open>Deliveries of an event\<close>

definition json_object :: "(string \<times> json) list \<Rightarrow> json" where
  "json_object entries = JObject (btree_from entries)"

definition json_text :: "string option \<Rightarrow> json" where
  "json_text t = (case t of None \<Rightarrow> JNull | Some v \<Rightarrow> JString v)"

definition build_delivery_payload ::
  "(uuid \<Rightarrow> string) \<Rightarrow> (instant \<Rightarrow> string) \<Rightarrow> string \<Rightarrow> uuid \<Rightarrow> event_snapshot \<Rightarrow> string \<Rightarrow> json" where
  "build_delivery_payload show_uuid show_time version event_id snapshot subscription_key =
     (let actor = es_actor snapshot; repository = es_repository snapshot; package = es_package snapshot
      in json_object
        [(''domain'', JString ''package''),
         (''event_type'', JString (event_as_str (es_event_type snapshot))),
         (''event_id'', JString (show_uuid event_id)),
         (''occurred_at'', JString (show_time (es_occurred_at snapshot))),
         (''subscription_key'', JString subscription_key),
         (''source'', json_object [(''application'', JString ''pkgly''), (''version'', JString version)]),
         (''data'', json_object
            [(''actor'', json_object
                [(''id'', case wa_user_id actor of None \<Rightarrow> JNull | Some i \<Rightarrow> JNumber i),
                 (''username'', json_text (wa_username actor))]),
             (''repository'', json_object
                [(''id'', JString (show_uuid (rr_id repository))),
                 (''name'', JString (rr_name repository)),
                 (''storage_name'', JString (rr_storage_name repository)),
                 (''format'', JString (rr_repository_type repository))]),
             (''storage'', json_object [(''name'', JString (rr_storage_name repository))]),
             (''package'', json_object
                [(''scope'', json_text (ps_scope package)),
                 (''key'', json_text (ps_package_key package)),
                 (''name'', json_text (ps_package_name package)),
                 (''version'', json_text (ps_version package)),
                 (''project_path'', json_text (ps_project_path package)),
                 (''version_path'', json_text (ps_version_path package)),
                 (''canonical_path'', JString (es_canonical_path snapshot)),
                 (''reference'', JString (case ps_version package of
                                            Some v \<Rightarrow> v | None \<Rightarrow> es_canonical_path snapshot))])])])"

text \<open>\<open>events @> '["<event>"]'\<close> on a JSON column.\<close>

definition subscribed :: "string \<Rightarrow> json \<Rightarrow> bool" where
  "subscribed event events = (case events of JArray items \<Rightarrow> JString event \<in> set items | _ \<Rightarrow> False)"

definition max_delivery_attempts :: i32 where
  "max_delivery_attempts = 5"

definition new_delivery_row ::
  "(uuid \<Rightarrow> string) \<Rightarrow> (instant \<Rightarrow> string) \<Rightarrow> string \<Rightarrow> uuid \<Rightarrow> event_snapshot \<Rightarrow> int \<Rightarrow> instant \<Rightarrow>
     stored_webhook \<Rightarrow> delivery" where
  "new_delivery_row show_uuid show_time version event_id snapshot i at webhook =
     \<lparr>d_id = i, d_webhook_id = Some (sw_id webhook), d_webhook_name = sw_name webhook,
      d_event_type = event_as_str (es_event_type snapshot), d_subscription_key = show_uuid (sw_id webhook),
      d_target_url = sw_target_url webhook, d_headers = to_json_headers (sw_headers webhook),
      d_payload = build_delivery_payload show_uuid show_time version event_id snapshot (show_uuid (sw_id webhook)),
      d_status = status_as_str Pending, d_attempts = 0, d_max_attempts = max_delivery_attempts,
      d_next_attempt_at = at, d_claimed_at = None, d_claim_token = None, d_claim_expires_at = None,
      d_last_attempt_at = None, d_delivered_at = None, d_last_http_status = None, d_last_error = None,
      d_updated_at = at, d_created_at = at\<rparr>"

text \<open>One row per matching webhook; \<open>event_ids\<close> gives the identifiers drawn for the payloads.\<close>

fun enqueue_rows ::
  "(uuid \<Rightarrow> string) \<Rightarrow> (instant \<Rightarrow> string) \<Rightarrow> string \<Rightarrow> (nat \<Rightarrow> uuid) \<Rightarrow> event_snapshot \<Rightarrow>
     webhook_row list \<Rightarrow> nat \<Rightarrow> ('z, nat) webhook_query" where
  "enqueue_rows show_uuid show_time version event_ids snapshot [] enqueued = ret enqueued"
| "enqueue_rows show_uuid show_time version event_ids snapshot (row # rest) enqueued =
     bind_ok (from_result (stored_webhook_from_row row)) (\<lambda>webhook.
     bind_ok (try_sql WebhookQueryFailed
       (\<lambda>s. if bigserial_max < delivery_seq s then Inl WebhookQueryFailed
            else Inr ((), s\<lparr>deliveries := deliveries s @
                       [new_delivery_row show_uuid show_time version (event_ids enqueued) snapshot
                          (delivery_seq s) (now s) webhook],
                     delivery_seq := delivery_seq s + 1\<rparr>)))
       (\<lambda>_. enqueue_rows show_uuid show_time version event_ids snapshot rest (enqueued + 1)))"

definition matching_webhooks :: "webhook_event \<Rightarrow> webhook_row list \<Rightarrow> webhook_row list" where
  "matching_webhooks event rows =
     sort_key w_created_at (filter (\<lambda>w. w_enabled w \<and> subscribed (event_as_str event) (w_events w)) rows)"

definition enqueue_snapshot ::
  "(uuid \<Rightarrow> string) \<Rightarrow> (instant \<Rightarrow> string) \<Rightarrow> string \<Rightarrow> (nat \<Rightarrow> uuid) \<Rightarrow> event_snapshot \<Rightarrow> ('z, nat) webhook_query" where
  "enqueue_snapshot show_uuid show_time version event_ids snapshot =
     bind_ok (select_sql WebhookQueryFailed (\<lambda>s. matching_webhooks (es_event_type snapshot) (webhooks s)))
       (\<lambda>rows. if rows = [] then ret 0
               else enqueue_rows show_uuid show_time version event_ids snapshot rows 0)"

definition enqueue_package_path_event ::
  "(uuid \<Rightarrow> string) \<Rightarrow> (instant \<Rightarrow> string) \<Rightarrow> string \<Rightarrow> (nat \<Rightarrow> uuid) \<Rightarrow> uuid \<Rightarrow> webhook_event \<Rightarrow> string \<Rightarrow>
     webhook_actor \<Rightarrow> bool \<Rightarrow> ('z, nat) webhook_query" where
  "enqueue_package_path_event show_uuid show_time version event_ids repository_id event_type canonical_path
       actor require_catalog_match =
     bind_ok (build_package_event_snapshot repository_id event_type canonical_path actor require_catalog_match)
       (\<lambda>snapshot.
          case snapshot of
            None \<Rightarrow> ret 0
          | Some x \<Rightarrow> enqueue_snapshot show_uuid show_time version event_ids x)"

section \<open>Facts on ordered maps and columns\<close>

lemma btree_keys_insert: "set (map fst (btree_insert k v m)) = insert k (set (map fst m))"
  by (induction k v m rule: btree_insert.induct) auto

lemma wf_btree_Nil [simp]: "wf_btree []"
  by (simp add: wf_btree_def)

lemma wf_btree_Cons: "wf_btree ((k, v) # m) \<longleftrightarrow> (\<forall>j \<in> fst ` set m. k < j) \<and> wf_btree m"
  by (simp add: wf_btree_def)

lemma wf_btree_insert: "wf_btree m \<Longrightarrow> wf_btree (btree_insert k v m)"
proof (induction k v m rule: btree_insert.induct)
  case (2 k v j w m)
  have keys: "fst ` set (btree_insert k v m) = insert k (fst ` set m)"
    using btree_keys_insert [of k v m] by simp
  show ?case
    using 2 by (auto simp: wf_btree_Cons keys intro: less_trans)
qed (simp add: wf_btree_Cons)

lemma set_btree_insert:
  "wf_btree m \<Longrightarrow> set (btree_insert k v m) = insert (k, v) {e \<in> set m. fst e \<noteq> k}"
proof (induction k v m rule: btree_insert.induct)
  case (2 k v j w m)
  have tail: "set (btree_insert k v m) = insert (k, v) {e \<in> set m. fst e \<noteq> k}" if "\<not> k < j" "k \<noteq> j"
    using 2 that by (simp add: wf_btree_Cons)
  have above: "j < fst e" if "e \<in> set m" for e using 2(2) that by (auto simp: wf_btree_Cons)
  have keep: "fst e \<noteq> k" if "e \<in> set m" "k < j \<or> k = j" for e
    using above [OF that(1)] that(2) by (auto dest: less_trans)
  consider "k < j" | "k = j" | "\<not> k < j" "k \<noteq> j" by blast
  then show ?case
  proof cases
    case 1
    then have "k \<noteq> j" by simp
    moreover have "\<forall>e \<in> set m. fst e \<noteq> k" using keep 1 by blast
    ultimately have "\<forall>e \<in> set ((j, w) # m). fst e \<noteq> k" by simp
    then have "{e \<in> set ((j, w) # m). fst e \<noteq> k} = set ((j, w) # m)" by blast
    with 1 show ?thesis by simp
  next
    case 2
    have "\<forall>e \<in> set m. fst e \<noteq> k" using keep 2 by blast
    then have "{e \<in> set m. fst e \<noteq> k} = set m" by blast
    moreover have "{e \<in> set ((j, w) # m). fst e \<noteq> k} = {e \<in> set m. fst e \<noteq> k}" using 2 by auto
    ultimately have "{e \<in> set ((j, w) # m). fst e \<noteq> k} = set m" by (rule trans [rotated])
    with 2 show ?thesis by simp
  next
    case 3
    then have "{e \<in> set ((j, w) # m). fst e \<noteq> k} = insert (j, w) {e \<in> set m. fst e \<noteq> k}" by auto
    with 3 tail [OF 3] show ?thesis by (simp add: insert_commute)
  qed
qed simp

lemma btree_insert_last:
  "wf_btree (m @ [(k, v)]) \<Longrightarrow> btree_insert k v m = m @ [(k, v)]"
proof (induction m)
  case (Cons e m)
  obtain j w where e: "e = (j, w)" by (rule prod.exhaust)
  have "j < k" using Cons.prems by (simp add: e wf_btree_Cons)
  then have "k \<noteq> j" "\<not> k < j" by auto
  then show ?case using Cons by (simp add: e wf_btree_Cons)
qed simp

lemma btree_from_sorted: "wf_btree m \<Longrightarrow> btree_from m = m"
proof (induction m rule: rev_induct)
  case (snoc e m)
  obtain k v where e: "e = (k, v)" by (rule prod.exhaust)
  have "wf_btree m" using snoc.prems by (simp add: wf_btree_def sorted_wrt_append)
  then show ?case using snoc btree_insert_last [of m k v] by (simp add: btree_from_def e)
qed (simp add: btree_from_def)

lemma wf_btree_from: "wf_btree (btree_from kvs)"
  by (induction kvs rule: rev_induct) (auto simp: btree_from_def wf_btree_insert)

lemma wf_btree_map [simp]: "wf_btree (map (\<lambda>(k, v). (k, f v)) m) = wf_btree m"
proof -
  have "map fst (map (\<lambda>(k, v). (k, f v)) m) = map fst m" by (induction m) auto
  then show ?thesis by (simp only: wf_btree_def)
qed

lemma collect_results_map:
  assumes "\<And>x. x \<in> set xs \<Longrightarrow> f (g x) = Inr (h x)"
  shows "collect_results f (map g xs) = Inr (map h xs)"
  using assms by (induction xs) auto

lemma event_roundtrip [simp]: "event_from_str (event_as_str e) = Inr e"
  by (cases e) (simp_all add: event_from_str_def)

lemma status_roundtrip [simp]: "status_from_str (status_as_str st) = Inr st"
  by (cases st) (simp_all add: status_from_str_def)

lemma events_roundtrip [simp]: "parse_events (to_json_events events) = Inr events"
  using collect_results_map [of events "\<lambda>item. case item of JString v \<Rightarrow> event_from_str v | _ \<Rightarrow> Inl EventNotString"
      "\<lambda>e. JString (event_as_str e)" "\<lambda>e. e"]
  by (simp add: parse_events_def to_json_events_def)

lemma headers_roundtrip:
  assumes "wf_btree headers"
  shows "parse_headers (to_json_headers headers) = Inr headers"
proof -
  let ?f = "\<lambda>(name, v). case v of JString secret \<Rightarrow> Inr (name, secret) | _ \<Rightarrow> Inl (HeaderNotString name)"
  have "collect_results ?f (map (\<lambda>(name, value). (name, JString value)) headers) = Inr (map (\<lambda>e. e) headers)"
    by (rule collect_results_map) auto
  then show ?thesis
    by (simp add: parse_headers_def to_json_headers_def btree_from_sorted assms)
qed

lemma stored_webhook_of_new:
  "wf_btree (sw_headers v) \<Longrightarrow> stored_webhook_from_row (new_webhook_row i at v) = Inr (v\<lparr>sw_id := i\<rparr>)"
  by (simp add: stored_webhook_from_row_def new_webhook_row_def headers_roundtrip)

lemma parse_headers_wf: "parse_headers value = Inr m \<Longrightarrow> wf_btree m"
  by (auto simp: parse_headers_def wf_btree_from split: json.splits sum.splits)

lemma stored_webhook_wf: "stored_webhook_from_row row = Inr w \<Longrightarrow> wf_btree (sw_headers w)"
  by (auto simp: stored_webhook_from_row_def parse_headers_wf split: sum.splits)

section \<open>The merge of headers\<close>

text \<open>What one header of the form contributes, given the stored headers.\<close>

definition merged_entry :: "string btree_map option \<Rightarrow> header_input \<Rightarrow> string \<times> string" where
  "merged_entry current header =
     (case hi_value header of
        Some value \<Rightarrow> (trim (hi_name header), trim value)
      | None \<Rightarrow> the (existing_lookup current (to_lower (trim (hi_name header)))))"

lemma lookup_fold:
  assumes "foldl (\<lambda>found (name, value). found(to_lower name \<mapsto> (name, value))) f m k = Some (n, v)"
    and "\<And>k n v. f k = Some (n, v) \<Longrightarrow> to_lower n = k \<and> P (n, v)" and "\<forall>e \<in> set m. P e"
  shows "to_lower n = k \<and> P (n, v)"
  using assms
proof (induction m arbitrary: f)
  case (Cons e m)
  obtain a b where e: "e = (a, b)" by (rule prod.exhaust)
  have step: "to_lower n' = k' \<and> P (n', v')" if "(f(to_lower a \<mapsto> (a, b))) k' = Some (n', v')" for k' n' v'
    using that Cons.prems(2,3) by (auto simp: e split: if_splits)
  show ?case using Cons.IH [OF _ step] Cons.prems(1,3) by (simp add: e)
qed simp

lemma existing_lookup_Some:
  assumes "existing_lookup current k = Some (n, v)"
  shows "to_lower n = k" "\<exists>m. current = Some m \<and> (n, v) \<in> set m"
proof -
  from assms obtain m where m: "current = Some m"
    and l: "foldl (\<lambda>found (name, value). found(to_lower name \<mapsto> (name, value))) Map.empty m k = Some (n, v)"
    by (auto simp: existing_lookup_def split: option.splits)
  have "to_lower n = k \<and> (n, v) \<in> set m"
    by (rule lookup_fold [OF l]) auto
  with m show "to_lower n = k" "\<exists>m. current = Some m \<and> (n, v) \<in> set m" by auto
qed

text \<open>What holds of the headers merged so far.\<close>

definition merged_ok :: "string list \<Rightarrow> string btree_map \<Rightarrow> bool" where
  "merged_ok seen m \<longleftrightarrow>
     wf_btree m \<and> inj_on (to_lower \<circ> fst) (set m) \<and> (to_lower \<circ> fst) ` set m = set seen \<and>
     (\<forall>e \<in> set m. \<not> is_forbidden_webhook_header (fst e))"

lemma forbidden_lower:
  "to_lower n = to_lower k \<Longrightarrow> is_forbidden_webhook_header n = is_forbidden_webhook_header k"
  by (simp add: is_forbidden_webhook_header_def)

lemma merged_ok_insert:
  assumes ok: "merged_ok seen m" and new: "to_lower n \<notin> set seen" and allowed: "\<not> is_forbidden_webhook_header n"
  shows "merged_ok (to_lower n # seen) (btree_insert n v m)" "set (btree_insert n v m) = insert (n, v) (set m)"
proof -
  have wf: "wf_btree m" and keys: "(to_lower \<circ> fst) ` set m = set seen" and inj: "inj_on (to_lower \<circ> fst) (set m)"
    using ok by (auto simp: merged_ok_def)
  have fresh: "fst e \<noteq> n" if "e \<in> set m" for e
    using that new keys by (metis comp_apply image_eqI)
  show eq: "set (btree_insert n v m) = insert (n, v) (set m)"
    using fresh by (auto simp: set_btree_insert [OF wf])
  have "inj_on (to_lower \<circ> fst) (insert (n, v) (set m))"
    using inj new keys by (simp add: inj_on_insert) fastforce
  then show "merged_ok (to_lower n # seen) (btree_insert n v m)"
    using ok allowed keys by (simp add: merged_ok_def eq wf_btree_insert)
qed

lemma merge_loop_exact:
  assumes "merge_header_loop header_name_ok (existing_lookup current) seen merged headers = Inr m"
    and "merged_ok seen merged"
  shows "\<exists>seen'. merged_ok seen' m \<and> set m = set merged \<union> merged_entry current ` set headers \<and>
    (\<forall>h \<in> set headers. hi_value h = None \<longrightarrow>
       (\<exists>n v. existing_lookup current (to_lower (trim (hi_name h))) = Some (n, v))) \<and>
    set seen' = set seen \<union> (\<lambda>h. to_lower (trim (hi_name h))) ` set headers"
  using assms
proof (induction headers arbitrary: seen merged)
  case Nil
  then show ?case by auto
next
  case (Cons h rest)
  let ?n = "trim (hi_name h)"
  have pass: "\<not> is_forbidden_webhook_header ?n" "to_lower ?n \<notin> set seen"
    using Cons.prems(1) by (auto simp: Let_def split: if_splits)
  obtain n v where e: "merged_entry current h = (n, v)" and low: "to_lower n = to_lower ?n"
    and some: "hi_value h = None \<longrightarrow> existing_lookup current (to_lower ?n) = Some (n, v)"
    and next_loop: "merge_header_loop header_name_ok (existing_lookup current) (to_lower ?n # seen)
        (btree_insert n v merged) rest = Inr m"
  proof (cases "hi_value h")
    case (Some w)
    with Cons.prems(1) that show ?thesis by (auto simp: Let_def merged_entry_def split: if_splits)
  next
    case None
    with Cons.prems(1) obtain n v where l: "existing_lookup current (to_lower ?n) = Some (n, v)"
      and m: "merge_header_loop header_name_ok (existing_lookup current) (to_lower ?n # seen)
        (btree_insert n v merged) rest = Inr m"
      by (auto simp: Let_def split: if_splits option.splits)
    show ?thesis using that [of n v] l m None existing_lookup_Some(1) [OF l] by (simp add: merged_entry_def)
  qed
  have ok: "merged_ok (to_lower ?n # seen) (btree_insert n v merged)"
    and set: "set (btree_insert n v merged) = insert (n, v) (set merged)"
    using merged_ok_insert [OF Cons.prems(2), of n v] pass low forbidden_lower [OF low] by simp_all
  from Cons.IH [OF next_loop ok] show ?case
    using some by (auto simp: set e)
qed

lemma enqueue_rows_exact:
  assumes "enqueue_rows show_uuid show_time version event_ids snapshot rows k s = (r, t)"
  shows "\<exists>ws. list_all2 (\<lambda>row w. stored_webhook_from_row row = Inr w) (take (length ws) rows) ws \<and>
    deliveries t = deliveries s @
      map (\<lambda>j. new_delivery_row show_uuid show_time version (event_ids (k + j)) snapshot
                 (delivery_seq s + int j) (now s) (ws ! j)) [0..<length ws] \<and>
    delivery_seq t = delivery_seq s + int (length ws) \<and> now t = now s \<and> webhooks t = webhooks s \<and>
    (\<forall>n. r = Inr n \<longrightarrow> n = k + length rows \<and> length ws = length rows)"
  using assms
proof (induction rows arbitrary: k s)
  case Nil
  then show ?case by (intro exI [of _ "[]"]) (auto simp: ret_def)
next
  case (Cons row rest)
  let ?row = "\<lambda>i at w. new_delivery_row show_uuid show_time version (event_ids k) snapshot i at w"
  show ?case
  proof (cases "stored_webhook_from_row row")
    case (Inl e)
    with Cons.prems show ?thesis by (intro exI [of _ "[]"]) (auto simp: from_result_def bind_ok_def)
  next
    case (Inr w)
    define ins where "ins = (try_sql WebhookQueryFailed
       (\<lambda>s :: 'a webhook_db_scheme. if bigserial_max < delivery_seq s then Inl WebhookQueryFailed
            else Inr ((), s\<lparr>deliveries := deliveries s @ [?row (delivery_seq s) (now s) w],
                     delivery_seq := delivery_seq s + 1\<rparr>)))"
    obtain r1 s1 where i: "ins s = (r1, s1)" by fastforce
    have run: "bind_ok ins (\<lambda>_. enqueue_rows show_uuid show_time version event_ids snapshot rest (k + 1)) s = (r, t)"
      using Cons.prems by (simp add: Inr from_result_def bind_ok_def ins_def)
    show ?thesis
    proof (cases r1)
      case (Inl e)
      then have "deliveries s1 = deliveries s \<and> delivery_seq s1 = delivery_seq s \<and> now s1 = now s \<and> webhooks s1 = webhooks s"
        using i by (auto simp: ins_def try_sql_def Let_def split: list.splits if_splits)
      moreover have "t = s1" "r = Inl e" using run i Inl by simp_all
      ultimately show ?thesis by (intro exI [of _ "[]"]) auto
    next
      case (Inr x)
      have s1: "deliveries s1 = deliveries s @ [?row (delivery_seq s) (now s) w]"
          "delivery_seq s1 = delivery_seq s + 1" "now s1 = now s" "webhooks s1 = webhooks s"
        using try_sql_Inr [OF i [unfolded Inr ins_def]] by (auto split: if_splits)
      from run i Inr have rest: "enqueue_rows show_uuid show_time version event_ids snapshot rest (k + 1) s1 = (r, t)"
        by simp
      obtain ws where ws: "list_all2 (\<lambda>row w. stored_webhook_from_row row = Inr w) (take (length ws) rest) ws"
        "deliveries t = deliveries s1 @
           map (\<lambda>j. new_delivery_row show_uuid show_time version (event_ids (k + 1 + j)) snapshot
                 (delivery_seq s1 + int j) (now s1) (ws ! j)) [0..<length ws]"
        "delivery_seq t = delivery_seq s1 + int (length ws)" "now t = now s1" "webhooks t = webhooks s1"
        "\<forall>n. r = Inr n \<longrightarrow> n = k + 1 + length rest \<and> length ws = length rest"
        using Cons.IH [OF rest] by blast
      have "map f [0..<Suc n] = f 0 # map (\<lambda>j. f (Suc j)) [0..<n]" for f :: "nat \<Rightarrow> delivery" and n
        by (simp add: map_Suc_upt [symmetric] upt_conv_Cons del: upt_Suc)
      then show ?thesis
        using ws s1 \<open>stored_webhook_from_row row = Inr w\<close>
        by (intro exI [of _ "w # ws"]) (simp add: algebra_simps del: upt_Suc)
    qed
  qed
qed

lemma collect_results_Inr:
  "collect_results f xs = Inr ys \<Longrightarrow> list_all2 (\<lambda>x y. f x = Inr y) xs ys"
  by (induction xs arbitrary: ys) (auto split: sum.splits)

lemma list_all2_mem:
  assumes "list_all2 P xs ys"
  shows "x \<in> set xs \<Longrightarrow> \<exists>y \<in> set ys. P x y" "y \<in> set ys \<Longrightarrow> \<exists>x \<in> set xs. P x y"
  using assms by (induction xs ys rule: list_all2_induct) auto

lemma event_from_str_Inr: "event_from_str v = Inr e \<longleftrightarrow> v = event_as_str e"
proof
  assume "event_from_str v = Inr e"
  then show "v = event_as_str e" by (auto simp: event_from_str_def split: if_splits)
qed simp

lemma subscribed_parsed:
  assumes "parse_events j = Inr events"
  shows "subscribed (event_as_str e) j \<longleftrightarrow> e \<in> set events"
proof -
  let ?f = "\<lambda>item. case item of JString v \<Rightarrow> event_from_str v | _ \<Rightarrow> Inl EventNotString"
  obtain items where j: "j = JArray items" and c: "collect_results ?f items = Inr events"
    using assms by (auto simp: parse_events_def split: json.splits)
  note rel = collect_results_Inr [OF c]
  have item: "?f x = Inr e' \<longleftrightarrow> x = JString (event_as_str e')" for x e'
    by (cases x) (simp_all add: event_from_str_Inr)
  have "JString (event_as_str e) \<in> set items \<longleftrightarrow> e \<in> set events"
  proof
    assume "JString (event_as_str e) \<in> set items"
    from list_all2_mem(1) [OF rel this] show "e \<in> set events" by auto
  next
    assume "e \<in> set events"
    from list_all2_mem(2) [OF rel this] show "JString (event_as_str e) \<in> set items" by (auto simp: item)
  qed
  then show ?thesis by (simp add: j subscribed_def)
qed

lemma stored_subscription:
  assumes "stored_webhook_from_row row = Inr w"
  shows "w_enabled row \<and> subscribed (event_as_str e) (w_events row) \<longleftrightarrow> sw_enabled w \<and> e \<in> set (sw_events w)"
proof -
  have p: "parse_events (w_events row) = Inr (sw_events w)" "sw_enabled w = w_enabled row"
    using assms by (auto simp: stored_webhook_from_row_def split: sum.splits)
  show ?thesis using subscribed_parsed [OF p(1), of e] p(2) by simp
qed

section \<open>Properties\<close>

text \<open>
  The headers stored for a webhook are exactly those of the form: one entry per header, the
  given value trimmed or, for a header marked as configured, the entry stored under that name; no
  two names differ in letter case only and none is a reserved header.
\<close>

theorem merge_headers_exact:
  assumes "merge_headers header_name_ok current headers = Inr m"
  shows "wf_btree m \<and> inj_on (to_lower \<circ> fst) (set m) \<and> set m = merged_entry current ` set headers \<and>
     (\<forall>e \<in> set m. \<not> is_forbidden_webhook_header (fst e)) \<and>
     (\<forall>h \<in> set headers. hi_value h = None \<longrightarrow>
        to_lower (fst (merged_entry current h)) = to_lower (trim (hi_name h)) \<and>
        (\<exists>stored. current = Some stored \<and> merged_entry current h \<in> set stored))"
proof -
  have start: "merged_ok [] []" by (simp add: merged_ok_def)
  obtain seen' where ok: "merged_ok seen' m" and eq: "set m = merged_entry current ` set headers"
    and some: "\<forall>h \<in> set headers. hi_value h = None \<longrightarrow>
       (\<exists>n v. existing_lookup current (to_lower (trim (hi_name h))) = Some (n, v))"
    using merge_loop_exact [OF assms [unfolded merge_headers_def] start] by auto
  have stored: "to_lower (fst (merged_entry current h)) = to_lower (trim (hi_name h)) \<and>
      (\<exists>stored. current = Some stored \<and> merged_entry current h \<in> set stored)"
    if h: "h \<in> set headers" "hi_value h = None" for h
  proof -
    obtain n v where l: "existing_lookup current (to_lower (trim (hi_name h))) = Some (n, v)"
      using some h by blast
    from existing_lookup_Some [OF l] show ?thesis using h(2) by (auto simp: merged_entry_def l)
  qed
  show ?thesis using ok eq stored by (auto simp: merged_ok_def)
qed

text \<open>The text that names an event in a subscription and in a delivery.\<close>

definition event_name :: "webhook_event \<Rightarrow> string" where
  "event_name e =
     (case e of
        PackagePublished \<Rightarrow> ''package.published''
      | PackageDeleted \<Rightarrow> ''package.deleted''
      | PackagePromoted \<Rightarrow> ''package.promoted'')"

lemma event_as_str_name: "event_as_str e = event_name e"
  by (cases e) (simp_all add: event_name_def)

text \<open>The row that a webhook gets for an event: pending, not attempted, due at once.\<close>

definition fresh_delivery ::
  "string \<Rightarrow> string \<Rightarrow> int \<Rightarrow> instant \<Rightarrow> webhook_row \<Rightarrow> delivery \<Rightarrow> bool" where
  "fresh_delivery event event_id i time row d =
     (d_id d = i \<and> d_webhook_id d = Some (w_id row) \<and> d_webhook_name d = w_name row \<and>
      d_target_url d = w_target_url row \<and> parse_headers (d_headers d) = parse_headers (w_headers row) \<and>
      d_event_type d = event \<and>
      (case d_payload d of
         JObject kvs \<Rightarrow> map_of kvs ''event_id'' = Some (JString event_id) \<and> map_of kvs ''event_type'' = Some (JString event)
       | _ \<Rightarrow> False) \<and>
      d_status d = ''pending'' \<and> d_attempts d = 0 \<and> d_max_attempts d = 5 \<and>
      d_next_attempt_at d = time \<and> d_created_at d = time \<and> d_updated_at d = time \<and>
      d_claimed_at d = None \<and> d_claim_token d = None \<and> d_claim_expires_at d = None \<and>
      d_last_attempt_at d = None \<and> d_delivered_at d = None \<and> d_last_http_status d = None \<and> d_last_error d = None)"

lemma new_delivery_fresh:
  assumes "stored_webhook_from_row row = Inr w"
  shows "fresh_delivery (event_name (es_event_type snapshot)) (show_uuid event_id) i at row
    (new_delivery_row show_uuid show_time version event_id snapshot i at w)"
proof -
  have w: "sw_id w = w_id row" "sw_name w = w_name row" "sw_target_url w = w_target_url row"
    "parse_headers (w_headers row) = Inr (sw_headers w)"
    using assms by (auto simp: stored_webhook_from_row_def split: sum.splits)
  have h: "parse_headers (to_json_headers (sw_headers w)) = Inr (sw_headers w)"
    by (rule headers_roundtrip [OF stored_webhook_wf [OF assms]])
  show ?thesis
    by (simp add: fresh_delivery_def new_delivery_row_def w h event_as_str_name max_delivery_attempts_def
        build_delivery_payload_def json_object_def btree_from_def Let_def)
qed

lemma enqueue_snapshot_rows:
  assumes "enqueue_snapshot show_uuid show_time version event_ids snapshot s = (Inr n, t)"
  shows "\<exists>ws. list_all2 (\<lambda>row w. stored_webhook_from_row row = Inr w) (matching_webhooks (es_event_type snapshot) (webhooks s)) ws \<and>
    n = length ws \<and> webhooks t = webhooks s \<and>
    deliveries t = deliveries s @
       map (\<lambda>j. new_delivery_row show_uuid show_time version (event_ids j) snapshot
                  (delivery_seq s + int j) (now s) (ws ! j)) [0..<n]"
proof -
  let ?rows = "matching_webhooks (es_event_type snapshot) (webhooks s)"
  obtain rows s1 where sel: "select_sql WebhookQueryFailed (\<lambda>s. matching_webhooks (es_event_type snapshot) (webhooks s)) s
      = (Inr rows, s1)"
    and run0: "(if rows = [] then ret 0 else enqueue_rows show_uuid show_time version event_ids snapshot rows 0) s1 = (Inr n, t)"
    using assms unfolding enqueue_snapshot_def bind_ok_Inr_iff by blast
  have s1: "s1 = s\<lparr>faults := tl (faults s)\<rparr>" and rows: "rows = ?rows"
    using select_sql_Inr [OF sel] by simp_all
  note run = run0 [unfolded rows]
  have "enqueue_rows show_uuid show_time version event_ids snapshot ?rows 0 s1 = (Inr n, t)"
    using run by (cases "?rows = []") simp_all
  from enqueue_rows_exact [OF this] show ?thesis by (auto simp: s1)
qed

text \<open>
  C21. An event enqueues exactly one delivery for each enabled webhook whose subscriptions name it, in the
  order of the webhooks' creation: to the address and with the headers stored for the webhook, with a
  payload that names the event and the identifier drawn for it, pending, not yet attempted, with five
  attempts and due at once. Nothing else is written; the result is their number.
\<close>

theorem event_deliveries_exact:
  assumes out: "enqueue_snapshot show_uuid show_time version event_ids snapshot s = (Inr n, t)"
  shows "\<exists>rows ds. mset rows = mset (filter (\<lambda>w. w_enabled w \<and>
         (case w_events w of JArray items \<Rightarrow> JString (event_name (es_event_type snapshot)) \<in> set items | _ \<Rightarrow> False))
         (webhooks s)) \<and>
     sorted (map w_created_at rows) \<and> n = length rows \<and> length ds = n \<and>
     deliveries t = deliveries s @ ds \<and> webhooks t = webhooks s \<and>
     (\<forall>j < n. fresh_delivery (event_name (es_event_type snapshot)) (show_uuid (event_ids j))
        (delivery_seq s + int j) (now s) (rows ! j) (ds ! j))"
proof -
  let ?rows = "matching_webhooks (es_event_type snapshot) (webhooks s)"
  let ?ds = "\<lambda>ws. map (\<lambda>j. new_delivery_row show_uuid show_time version (event_ids j) snapshot
                  (delivery_seq s + int j) (now s) (ws ! j)) [0..<n]"
  obtain ws where ws: "list_all2 (\<lambda>row w. stored_webhook_from_row row = Inr w) ?rows ws" "n = length ws" "webhooks t = webhooks s"
    and del: "deliveries t = deliveries s @
       map (\<lambda>j. new_delivery_row show_uuid show_time version (event_ids j) snapshot
                  (delivery_seq s + int j) (now s) (ws ! j)) [0..<n]"
    using enqueue_snapshot_rows [OF out] by blast
  have n: "n = length ?rows" using ws list_all2_lengthD by fastforce
  have "stored_webhook_from_row (?rows ! j) = Inr (ws ! j)" if "j < n" for j
    using list_all2_nthD [OF ws(1)] that n by simp
  then have fresh: "\<forall>j < n. fresh_delivery (event_name (es_event_type snapshot)) (show_uuid (event_ids j))
      (delivery_seq s + int j) (now s) (?rows ! j)
      (map (\<lambda>j. new_delivery_row show_uuid show_time version (event_ids j) snapshot
                  (delivery_seq s + int j) (now s) (ws ! j)) [0..<n] ! j)"
    by (simp add: new_delivery_fresh)
  have rows: "mset ?rows = mset (filter (\<lambda>w. w_enabled w \<and>
         (case w_events w of JArray items \<Rightarrow> JString (event_name (es_event_type snapshot)) \<in> set items | _ \<Rightarrow> False))
         (webhooks s))"
    by (simp add: matching_webhooks_def subscribed_def event_as_str_name)
  have sorted: "sorted (map w_created_at ?rows)" by (simp add: matching_webhooks_def)
  show ?thesis
    by (rule exI [of _ ?rows], rule exI [of _ "?ds ws"], intro conjI) (use rows sorted n del ws(3) fresh in simp_all)
qed

section \<open>Witnesses\<close>

definition sample_form :: "header_input list" where
  "sample_form =
     [\<lparr>hi_name = '' X-Token '', hi_value = Some ''new '', hi_configured = False\<rparr>,
      \<lparr>hi_name = ''authorization'', hi_value = None, hi_configured = True\<rparr>]"

definition sample_stored :: "string btree_map" where
  "sample_stored = [(''Authorization'', ''Bearer s''), (''X-Old'', ''1'')]"

lemma sample_merge:
  "merge_headers (\<lambda>n. n \<noteq> []) (Some sample_stored) sample_form =
     Inr [(''Authorization'', ''Bearer s''), (''X-Token'', ''new'')]"
  by code_simp

theorem merge_headers_exact_witness:
  "set [(''Authorization'', ''Bearer s''), (''X-Token'', ''new'')] =
     merged_entry (Some sample_stored) ` set sample_form"
  using merge_headers_exact [OF sample_merge] by blast

definition sample_hook :: "uuid \<Rightarrow> bool \<Rightarrow> webhook_event list \<Rightarrow> webhook_row" where
  "sample_hook i on events =
     \<lparr>w_id = i, w_name = ''hook'', w_enabled = on, w_target_url = ''https://example.org/h'',
      w_events = to_json_events events, w_headers = JObject [], w_updated_at = 1, w_created_at = 1\<rparr>"

definition sample_webhook_db :: webhook_db where
  "sample_webhook_db =
     \<lparr>faults = [], now = 10, users = [], user_seq = 1, repo_permissions = [], permission_seq = 1,
      repositories = [], tokens = [], token_seq = 1, token_scopes = [], token_scope_seq = 1,
      token_repository_scopes = [], token_repository_scope_seq = 1, webhooks = [sample_hook 1 True [PackagePublished], sample_hook 2 False [PackagePublished],
        sample_hook 3 True [PackageDeleted, PackagePublished]],
      deliveries = [], delivery_seq = 1, repository_rows = [], project_rows = [], version_rows = []\<rparr>"

definition sample_snapshot :: event_snapshot where
  "sample_snapshot =
     \<lparr>es_event_type = PackagePublished, es_occurred_at = 10, es_canonical_path = ''a/1'',
      es_actor = \<lparr>wa_user_id = None, wa_username = None\<rparr>,
      es_repository = \<lparr>rr_id = 7, rr_name = ''r'', rr_storage_name = ''s'', rr_repository_type = ''npm''\<rparr>,
      es_package = unknown_package ''a/1''\<rparr>"

lemma sample_enqueue:
  "fst (enqueue_snapshot (\<lambda>_. ''u'') (\<lambda>_. ''t'') ''1'' of_nat sample_snapshot sample_webhook_db) = Inr 2"
  by code_simp

theorem event_deliveries_exact_witness:
  "\<exists>t ds. enqueue_snapshot (\<lambda>_. ''u'') (\<lambda>_. ''t'') ''1'' of_nat sample_snapshot sample_webhook_db = (Inr 2, t) \<and>
     deliveries t = ds \<and> length ds = 2 \<and> d_status (ds ! 0) = ''pending'' \<and> d_next_attempt_at (ds ! 1) = 10"
proof -
  obtain t where t: "enqueue_snapshot (\<lambda>_. ''u'') (\<lambda>_. ''t'') ''1'' of_nat sample_snapshot sample_webhook_db = (Inr 2, t)"
    using sample_enqueue by (metis prod.collapse)
  have e: "deliveries sample_webhook_db = []" "now sample_webhook_db = 10" by (simp_all add: sample_webhook_db_def)
  from event_deliveries_exact [OF t] show ?thesis
  proof (elim exE conjE)
    fix rows ds
    assume "length ds = (2 :: nat)" and "deliveries t = deliveries sample_webhook_db @ ds"
      and fresh: "\<forall>j < (2 :: nat). fresh_delivery (event_name (es_event_type sample_snapshot)) ''u''
        (delivery_seq sample_webhook_db + int j) (now sample_webhook_db) (rows ! j) (ds ! j)"
    moreover have "d_status (ds ! 0) = ''pending''" using fresh [rule_format, of 0] by (simp add: fresh_delivery_def)
    moreover have "d_next_attempt_at (ds ! 1) = 10" using fresh [rule_format, of 1] e by (simp add: fresh_delivery_def)
    ultimately show ?thesis using t e by auto
  qed
qed

end
