(* ===== verification/WebhookDelivery.thy ===== *)
theory WebhookDelivery
  imports Webhooks
begin

text \<open>
  The delivery queue of pkgly/src/app/webhooks/mod.rs: claiming the next delivery that is due, the
  attempt over HTTP behind the egress policy, the classification of its result with the retry
  schedule, and the update that ends the attempt. \<open>process_due_deliveries\<close> is the worker's loop, with
  fuel; \<open>delivery_step\<close> interleaves the statements of any number of workers, crashes included.

  \<open>now\<close> is the clock of the database and of the workers. A request takes time: the clock is part of
  the world an HTTP request acts on. The client (reqwest) is a record of parameters: \<open>hc_build\<close> builds
  a request from the target, the headers and the payload, \<open>hc_execute\<close> sends it. The log lines of an
  attempt are left out.
\<close>

section \<open>Claims\<close>

record claimed_delivery =
  cd_id :: int
  cd_claim_token :: uuid
  cd_webhook_id :: "uuid option"
  cd_webhook_name :: string
  cd_event_type :: string
  cd_subscription_key :: string
  cd_target_url :: string
  cd_headers :: "string btree_map"
  cd_payload :: json
  cd_attempts :: i32

definition seconds :: "int \<Rightarrow> instant" where
  "seconds n = n * 1000000000"

definition delivery_claim_ttl :: instant where
  "delivery_claim_ttl = seconds 300"

definition claimable :: "instant \<Rightarrow> delivery \<Rightarrow> bool" where
  "claimable at d =
     (d_next_attempt_at d \<le> at \<and>
      (d_status d = ''pending'' \<or>
       (d_status d = ''processing'' \<and>
        (case d_claim_expires_at d of None \<Rightarrow> True | Some expires \<Rightarrow> expires \<le> at))))"

text \<open>The candidate of the claim; \<open>locked\<close> are the rows that \<open>FOR UPDATE SKIP LOCKED\<close> passes over.\<close>

definition next_due :: "int list \<Rightarrow> instant \<Rightarrow> delivery list \<Rightarrow> delivery option" where
  "next_due locked at rows =
     (case sort_key (\<lambda>d. (d_next_attempt_at d, d_id d))
             (filter (\<lambda>d. claimable at d \<and> d_id d \<notin> set locked) rows) of
        [] \<Rightarrow> None
      | d # _ \<Rightarrow> Some d)"

definition claim_row :: "uuid \<Rightarrow> instant \<Rightarrow> delivery \<Rightarrow> delivery" where
  "claim_row token at d =
     d\<lparr>d_status := ''processing'', d_claim_token := Some token, d_claimed_at := Some at,
       d_claim_expires_at := Some (at + delivery_claim_ttl), d_updated_at := at\<rparr>"

definition claimed_from_row :: "uuid \<Rightarrow> delivery \<Rightarrow> webhook_error + claimed_delivery" where
  "claimed_from_row token d =
     (case parse_headers (d_headers d) of
        Inl e \<Rightarrow> Inl e
      | Inr headers \<Rightarrow>
          Inr \<lparr>cd_id = d_id d, cd_claim_token = token, cd_webhook_id = d_webhook_id d,
               cd_webhook_name = d_webhook_name d, cd_event_type = d_event_type d,
               cd_subscription_key = d_subscription_key d, cd_target_url = d_target_url d,
               cd_headers = headers, cd_payload = d_payload d, cd_attempts = d_attempts d\<rparr>)"

definition claim_next_delivery :: "uuid \<Rightarrow> int list \<Rightarrow> ('z, claimed_delivery option) webhook_query" where
  "claim_next_delivery token locked =
     bind_ok (exec_sql WebhookQueryFailed
       (\<lambda>s. case next_due locked (now s) (deliveries s) of
               None \<Rightarrow> (None, s)
             | Some d \<Rightarrow>
                 (Some (claim_row token (now s) d),
                  s\<lparr>deliveries := map (\<lambda>x. if d_id x = d_id d then claim_row token (now s) x else x)
                      (deliveries s)\<rparr>)))
       (\<lambda>row. case row of
                None \<Rightarrow> ret None
              | Some d \<Rightarrow> from_result (map_sum (\<lambda>e. e) Some (claimed_from_row token d)))"

section \<open>One attempt\<close>

datatype delivery_outcome =
    Succeeded "i32 option"
  | Retryable "i32 option" string instant
  | FailedForGood "i32 option" string

text \<open>\<open>1_i64 << n\<close> masks the shift distance.\<close>

definition next_retry_at :: "instant \<Rightarrow> i32 \<Rightarrow> instant option" where
  "next_retry_at utc_now attempt_number =
     (if sint max_delivery_attempts \<le> sint attempt_number then None
      else
        (let backoff_minutes = push_bit (nat (max 0 (sint (attempt_number - 1))) mod 64) (1 :: i64)
         in Some (utc_now + seconds (60 * sint backoff_minutes))))"

definition http_error_text :: "16 word \<Rightarrow> string" where
  "http_error_text status = ''Remote endpoint returned HTTP '' @ show_nat (unat status)"

definition classify_http_response :: "instant \<Rightarrow> i32 \<Rightarrow> 16 word \<Rightarrow> delivery_outcome" where
  "classify_http_response utc_now attempt_number status =
     (let http_status = Some (ucast status)
      in if 200 \<le> status \<and> status < 300 then Succeeded http_status
         else
           (case (if 500 \<le> status \<and> status < 600 then next_retry_at utc_now attempt_number else None) of
              Some next_attempt_at \<Rightarrow> Retryable http_status (http_error_text status) next_attempt_at
            | None \<Rightarrow> FailedForGood http_status (http_error_text status)))"

text \<open>What the sources ask of an error of the client; \<open>re_blocked\<close>: an \<open>EgressBlockedError\<close> is in its
  chain of sources.\<close>

record request_error =
  re_status :: "16 word option"
  re_timeout :: bool
  re_connect :: bool
  re_blocked :: bool
  re_text :: string

fun upstream_status :: "request_error upstream_error \<Rightarrow> 16 word option" where
  "upstream_status (Request e) = re_status e"
| "upstream_status UpstreamBlocked = None"

fun upstream_is_timeout :: "request_error upstream_error \<Rightarrow> bool" where
  "upstream_is_timeout (Request e) = re_timeout e"
| "upstream_is_timeout UpstreamBlocked = False"

fun upstream_is_connect :: "request_error upstream_error \<Rightarrow> bool" where
  "upstream_is_connect (Request e) = re_connect e"
| "upstream_is_connect UpstreamBlocked = False"

fun upstream_text :: "request_error upstream_error \<Rightarrow> string" where
  "upstream_text (Request e) = re_text e"
| "upstream_text UpstreamBlocked = ''outbound destination is blocked by egress policy''"

fun is_egress_blocked :: "request_error upstream_error \<Rightarrow> bool" where
  "is_egress_blocked (Request e) = re_blocked e"
| "is_egress_blocked UpstreamBlocked = True"

definition classify_transport_error ::
  "instant \<Rightarrow> i32 \<Rightarrow> request_error upstream_error \<Rightarrow> delivery_outcome" where
  "classify_transport_error utc_now attempt_number error =
     (let http_status = map_option ucast (upstream_status error)
      in if is_egress_blocked error
         then FailedForGood http_status ''Webhook target is blocked by egress policy''
         else
           (case (if upstream_is_timeout error \<or> upstream_is_connect error \<or> upstream_status error = None
                  then next_retry_at utc_now attempt_number else None) of
              Some next_attempt_at \<Rightarrow> Retryable http_status (upstream_text error) next_attempt_at
            | None \<Rightarrow> FailedForGood http_status (upstream_text error)))"

definition classify_result ::
  "instant \<Rightarrow> i32 \<Rightarrow> request_error upstream_error + 16 word \<Rightarrow> delivery_outcome" where
  "classify_result utc_now attempt_number result =
     (case result of
        Inr status \<Rightarrow> classify_http_response utc_now attempt_number status
      | Inl error \<Rightarrow> classify_transport_error utc_now attempt_number error)"

record ('net, 'q, 'w) http_client =
  hc_net_contains :: "'net \<Rightarrow> ip_addr \<Rightarrow> bool"
  hc_policy :: "'net egress_policy"
  hc_build :: "string \<Rightarrow> string btree_map \<Rightarrow> json \<Rightarrow> request_error + 'q"
  hc_url :: "'q \<Rightarrow> parsed_url"
  hc_execute :: "'q \<Rightarrow> instant \<times> 'w \<Rightarrow> (request_error + 16 word) \<times> instant \<times> 'w"

definition upstream_send ::
  "('net, 'q, 'w) http_client \<Rightarrow> request_error + 'q \<Rightarrow> instant \<times> 'w \<Rightarrow>
     (request_error upstream_error + 16 word) \<times> instant \<times> 'w" where
  "upstream_send client built world =
     (case built of
        Inl e \<Rightarrow> (Inl (Request e), world)
      | Inr request \<Rightarrow>
          execute (hc_net_contains client) (hc_policy client) (\<lambda>_. hc_execute client request)
            (hc_url client request) world)"

definition deliver_once ::
  "('net, 'q, 'w) http_client \<Rightarrow> claimed_delivery \<Rightarrow> instant \<times> 'w \<Rightarrow> delivery_outcome \<times> instant \<times> 'w" where
  "deliver_once client d world =
     (case upstream_send client (hc_build client (cd_target_url d) (cd_headers d) (cd_payload d)) world of
        (result, clock, w) \<Rightarrow> (classify_result clock (cd_attempts d + 1) result, clock, w))"

section \<open>The end of an attempt\<close>

definition end_attempt :: "instant \<Rightarrow> delivery \<Rightarrow> delivery" where
  "end_attempt at d =
     d\<lparr>d_attempts := d_attempts d + 1, d_last_attempt_at := Some at, d_claim_token := None,
       d_claimed_at := None, d_claim_expires_at := None, d_updated_at := at\<rparr>"

definition finalize_row :: "delivery_outcome \<Rightarrow> instant \<Rightarrow> delivery \<Rightarrow> delivery" where
  "finalize_row outcome at d =
     (case outcome of
        Succeeded http_status \<Rightarrow>
          (end_attempt at d)\<lparr>d_status := ''delivered'', d_delivered_at := Some at,
             d_last_http_status := http_status, d_last_error := None\<rparr>
      | Retryable http_status error next_attempt_at \<Rightarrow>
          (end_attempt at d)\<lparr>d_status := ''pending'', d_next_attempt_at := next_attempt_at,
             d_last_http_status := http_status, d_last_error := Some error\<rparr>
      | FailedForGood http_status error \<Rightarrow>
          (end_attempt at d)\<lparr>d_status := ''failed'', d_last_http_status := http_status,
             d_last_error := Some error\<rparr>)"

definition holds_claim :: "claimed_delivery \<Rightarrow> delivery \<Rightarrow> bool" where
  "holds_claim c d = (d_id d = cd_id c \<and> d_claim_token d = Some (cd_claim_token c))"

text \<open>\<open>attempts + 1\<close> is an error in SQL when it leaves the range of \<open>INTEGER\<close>.\<close>

definition finalize_delivery_attempt :: "claimed_delivery \<Rightarrow> delivery_outcome \<Rightarrow> ('z, unit) webhook_query" where
  "finalize_delivery_attempt c outcome =
     try_sql WebhookQueryFailed
       (\<lambda>s. if list_ex (\<lambda>d. holds_claim c d \<and> sint (d_attempts d) = 2147483647) (deliveries s)
            then Inl WebhookQueryFailed
            else Inr ((), s\<lparr>deliveries :=
                   map (\<lambda>d. if holds_claim c d then finalize_row outcome (now s) d else d) (deliveries s)\<rparr>))"

text \<open>The worker's loop: \<open>claim_ids\<close> are the claim claim_ids drawn and \<open>locked\<close> the rows locked by others, by
  the number of the iteration. \<open>None\<close>: the fuel did not suffice.\<close>

fun process_due_deliveries ::
  "nat \<Rightarrow> ('net, 'q, 'w) http_client \<Rightarrow> (nat \<Rightarrow> uuid) \<Rightarrow> (nat \<Rightarrow> int list) \<Rightarrow> nat \<Rightarrow> 'w \<Rightarrow> 'z webhook_db_scheme \<Rightarrow>
     ((webhook_error + unit) \<times> 'z webhook_db_scheme \<times> 'w) option" where
  "process_due_deliveries 0 client claim_ids locked k w s = None"
| "process_due_deliveries (Suc fuel) client claim_ids locked k w s =
     (case claim_next_delivery (claim_ids k) (locked k) s of
        (Inl e, t) \<Rightarrow> Some (Inl e, t, w)
      | (Inr None, t) \<Rightarrow> Some (Inr (), t, w)
      | (Inr (Some c), t) \<Rightarrow>
          (case deliver_once client c (now t, w) of
             (outcome, clock, w') \<Rightarrow>
               (case finalize_delivery_attempt c outcome (t\<lparr>now := clock\<rparr>) of
                  (Inl e, u) \<Rightarrow> Some (Inl e, u, w')
                | (Inr _, u) \<Rightarrow> process_due_deliveries fuel client claim_ids locked (Suc k) w' u)))"

text \<open>The service: each event of the \<open>select!\<close> with the time it occurs; errors of a pass are logged.
  \<open>claim_ids\<close> and \<open>locked\<close> are those of the passes, by the number of events that follow.\<close>

datatype worker_event = ShutdownNotified | NewWorkNotified instant | IntervalTick instant

fun run_delivery_loop ::
  "nat \<Rightarrow> ('net, 'q, 'w) http_client \<Rightarrow> (nat \<Rightarrow> nat \<Rightarrow> uuid) \<Rightarrow> (nat \<Rightarrow> nat \<Rightarrow> int list) \<Rightarrow> worker_event list \<Rightarrow> 'w \<Rightarrow>
     'z webhook_db_scheme \<Rightarrow> ('z webhook_db_scheme \<times> 'w) option" where
  "run_delivery_loop fuel client claim_ids locked [] w s = Some (s, w)"
| "run_delivery_loop fuel client claim_ids locked (ShutdownNotified # rest) w s = Some (s, w)"
| "run_delivery_loop fuel client claim_ids locked (NewWorkNotified at # rest) w s =
     (case process_due_deliveries fuel client (claim_ids (length rest)) (locked (length rest)) 0 w (s\<lparr>now := at\<rparr>) of
        None \<Rightarrow> None
      | Some (_, t, w') \<Rightarrow> run_delivery_loop fuel client claim_ids locked rest w' t)"
| "run_delivery_loop fuel client claim_ids locked (IntervalTick at # rest) w s =
     (case process_due_deliveries fuel client (claim_ids (length rest)) (locked (length rest)) 0 w (s\<lparr>now := at\<rparr>) of
        None \<Rightarrow> None
      | Some (_, t, w') \<Rightarrow> run_delivery_loop fuel client claim_ids locked rest w' t)"

section \<open>Workers and their interleaving\<close>

text \<open>The database, the claims held by workers, and the claim claim_ids drawn so far.\<close>

record delivery_system =
  ds_db :: webhook_db
  ds_claims :: "claimed_delivery list"
  ds_tokens :: "uuid list"

text \<open>The steps: the clock advances, the outcome of coming statements changes, a package event or the
  definition of webhooks runs, a worker claims with a fresh token (\<open>Uuid::new_v4\<close>), ends an attempt
  it holds a claim for, or crashes and forgets the claim.\<close>

inductive delivery_step ::
  "('net, 'q, 'w) http_client \<Rightarrow> (uuid \<Rightarrow> string) \<Rightarrow> (instant \<Rightarrow> string) \<Rightarrow> string \<Rightarrow>
     delivery_system \<Rightarrow> delivery_system \<Rightarrow> bool"
  for client show_uuid show_time version
where
  clock: "now (ds_db x) \<le> at \<Longrightarrow>
     delivery_step client show_uuid show_time version x (x\<lparr>ds_db := (ds_db x)\<lparr>now := at\<rparr>\<rparr>)"
| connection: "delivery_step client show_uuid show_time version x (x\<lparr>ds_db := (ds_db x)\<lparr>faults := bs\<rparr>\<rparr>)"
| event: "enqueue_package_path_event show_uuid show_time version event_ids repository_id event path actor required
       (ds_db x) = (r, db) \<Longrightarrow>
     delivery_step client show_uuid show_time version x (x\<lparr>ds_db := db\<rparr>)"
| create: "create_webhook (hc_net_contains client) parse_url header_name_ok (hc_policy client) new_id input
       (ds_db x) = (r, db) \<Longrightarrow>
     delivery_step client show_uuid show_time version x (x\<lparr>ds_db := db\<rparr>)"
| update: "update_webhook (hc_net_contains client) parse_url header_name_ok (hc_policy client) new_id wid input
       (ds_db x) = (r', db) \<Longrightarrow>
     delivery_step client show_uuid show_time version x (x\<lparr>ds_db := db\<rparr>)"
| delete: "delete_webhook wid (ds_db x) = (r'', db) \<Longrightarrow>
     delivery_step client show_uuid show_time version x (x\<lparr>ds_db := db\<rparr>)"
| claim: "claim_next_delivery token locked (ds_db x) = (claimed, db) \<Longrightarrow> token \<notin> set (ds_tokens x) \<Longrightarrow>
     delivery_step client show_uuid show_time version x
       (x\<lparr>ds_db := db,
         ds_claims := (case claimed of Inr (Some c) \<Rightarrow> c # ds_claims x | _ \<Rightarrow> ds_claims x),
         ds_tokens := token # ds_tokens x\<rparr>)"
| finish: "c \<in> set (ds_claims x) \<Longrightarrow> deliver_once client c (at, w) = (outcome, clock', w') \<Longrightarrow>
     finalize_delivery_attempt c outcome (ds_db x) = (res, db) \<Longrightarrow>
     delivery_step client show_uuid show_time version x
       (x\<lparr>ds_db := db, ds_claims := remove1 c (ds_claims x)\<rparr>)"
| crash: "c \<in> set (ds_claims x) \<Longrightarrow>
     delivery_step client show_uuid show_time version x (x\<lparr>ds_claims := remove1 c (ds_claims x)\<rparr>)"

inductive delivery_reachable ::
  "('net, 'q, 'w) http_client \<Rightarrow> (uuid \<Rightarrow> string) \<Rightarrow> (instant \<Rightarrow> string) \<Rightarrow> string \<Rightarrow> delivery_system \<Rightarrow> bool"
  for client show_uuid show_time version
where
  start: "deliveries db = [] \<Longrightarrow>
     delivery_reachable client show_uuid show_time version \<lparr>ds_db = db, ds_claims = [], ds_tokens = []\<rparr>"
| step: "delivery_reachable client show_uuid show_time version x \<Longrightarrow>
     delivery_step client show_uuid show_time version x y \<Longrightarrow>
     delivery_reachable client show_uuid show_time version y"

section \<open>Facts on the statements\<close>

lemma small_succ:
  assumes "0 \<le> sint (a :: i32)" "sint a \<le> 5"
  shows "sint (a + 1) = sint a + 1"
proof -
  have "a + 1 = word_of_int (sint a + 1)" by simp
  also have "sint \<dots> = sint a + 1"
    by (rule signed_take_bit_int_eq_self [THEN trans [OF sint_sbintrunc']]) (use assms in simp_all)
  finally show ?thesis .
qed

lemma next_due_Some:
  assumes "next_due locked at rows = Some d"
  shows "d \<in> set rows" "claimable at d" "d_id d \<notin> set locked"
proof -
  let ?rows = "sort_key (\<lambda>d. (d_next_attempt_at d, d_id d))
      (filter (\<lambda>d. claimable at d \<and> d_id d \<notin> set locked) rows)"
  have "d \<in> set ?rows" using assms by (cases ?rows) (auto simp: next_due_def)
  then show "d \<in> set rows" "claimable at d" "d_id d \<notin> set locked" by auto
qed

lemma next_due_None:
  "next_due locked at rows = None \<longleftrightarrow> (\<forall>d \<in> set rows. claimable at d \<longrightarrow> d_id d \<in> set locked)"
proof -
  let ?rows = "filter (\<lambda>d. claimable at d \<and> d_id d \<notin> set locked) rows"
  let ?sorted = "sort_key (\<lambda>d. (d_next_attempt_at d, d_id d)) ?rows"
  have "next_due locked at rows = None \<longleftrightarrow> ?sorted = []"
    by (cases ?sorted) (simp_all add: next_due_def)
  also have "\<dots> \<longleftrightarrow> set ?sorted = {}" by (simp only: set_empty)
  also have "set ?sorted = set ?rows" by (simp only: set_sort)
  finally show ?thesis by auto
qed

text \<open>The outcomes of a claim: no row is touched, or one claimable row is.\<close>

lemma claim_next_cases:
  assumes "claim_next_delivery token locked s = (r, t)"
  obtains (untouched) bs where "t = s\<lparr>faults := bs\<rparr>" "\<And>c. r \<noteq> Inr (Some c)"
      "r = Inr None \<Longrightarrow> next_due locked (now s) (deliveries s) = None"
  | (claimed) d bs where "next_due locked (now s) (deliveries s) = Some d"
      "t = s\<lparr>faults := bs, deliveries :=
         map (\<lambda>x. if d_id x = d_id d then claim_row token (now s) x else x) (deliveries s)\<rparr>"
      "\<And>c. r = Inr (Some c) \<Longrightarrow> cd_id c = d_id d \<and> cd_claim_token c = token \<and> cd_attempts c = d_attempts d"
      "r \<noteq> Inr None"
proof -
  let ?f = "\<lambda>s :: 'a webhook_db_scheme. case next_due locked (now s) (deliveries s) of
               None \<Rightarrow> (None, s)
             | Some d \<Rightarrow>
                 (Some (claim_row token (now s) d),
                  s\<lparr>deliveries := map (\<lambda>x. if d_id x = d_id d then claim_row token (now s) x else x)
                      (deliveries s)\<rparr>)"
  obtain r1 s1 where e: "exec_sql WebhookQueryFailed ?f s = (r1, s1)" by fastforce
  show thesis
  proof (cases r1)
    case (Inl e1)
    then have "\<exists>bs. s1 = s\<lparr>faults := bs\<rparr>"
      using e by (auto simp: exec_sql_def split: list.splits if_splits prod.splits)
    moreover have "t = s1" "r = Inl e1" using assms e Inl by (simp_all add: claim_next_delivery_def)
    ultimately show thesis using untouched by auto
  next
    case (Inr row)
    note f = exec_sql_Inr [OF e [unfolded Inr]]
    show thesis
    proof (cases "next_due locked (now s) (deliveries s)")
      case None
      with f have "row = None" "s1 = s\<lparr>faults := tl (faults s)\<rparr>" by simp_all
      then have "r = Inr None" "t = s\<lparr>faults := tl (faults s)\<rparr>"
        using assms e Inr by (simp_all add: claim_next_delivery_def ret_def)
      then show thesis using None untouched [of "tl (faults s)"] by simp
    next
      case (Some d)
      with f have row: "row = Some (claim_row token (now s) d)"
        and s1: "s1 = s\<lparr>faults := tl (faults s), deliveries :=
          map (\<lambda>x. if d_id x = d_id d then claim_row token (now s) x else x) (deliveries s)\<rparr>"
        by (simp_all cong: if_cong)
      have rt: "r = map_sum (\<lambda>e. e) Some (claimed_from_row token (claim_row token (now s) d))" "t = s1"
        using assms e Inr row by (simp_all add: claim_next_delivery_def from_result_def)
      show thesis
        by (rule claimed [OF Some, of "tl (faults s)"])
          (use rt s1 in \<open>auto simp: claimed_from_row_def claim_row_def split: sum.splits\<close>)
    qed
  qed
qed

lemma finalize_cases:
  assumes "finalize_delivery_attempt c outcome s = (r, t)"
  obtains (failed) bs e where "t = s\<lparr>faults := bs\<rparr>" "r = Inl e"
  | (written) bs where "t = s\<lparr>faults := bs, deliveries :=
         map (\<lambda>d. if holds_claim c d then finalize_row outcome (now s) d else d) (deliveries s)\<rparr>" "r = Inr ()"
proof (cases r)
  case (Inl e)
  then have "\<exists>bs. t = s\<lparr>faults := bs\<rparr>"
    using assms by (auto simp: finalize_delivery_attempt_def try_sql_def Let_def split: list.splits if_splits)
  with Inl failed show thesis by blast
next
  case (Inr u)
  have "t = s\<lparr>faults := tl (faults s), deliveries :=
         map (\<lambda>d. if holds_claim c d then finalize_row outcome (now s) d else d) (deliveries s)\<rparr>"
    using try_sql_Inr [OF assms [unfolded Inr finalize_delivery_attempt_def]] by (auto split: if_splits)
  then show thesis using Inr written by simp
qed

section \<open>Statements that leave the queue alone\<close>

definition same_queue :: "'z webhook_db_scheme \<Rightarrow> 'z webhook_db_scheme \<Rightarrow> bool" where
  "same_queue s t \<longleftrightarrow> deliveries t = deliveries s \<and> delivery_seq t = delivery_seq s \<and> now t = now s"

interpretation queue: frame same_queue
  by unfold_locales (simp_all add: same_queue_def)

lemma queue_get_webhook [frame_intros]:
  "preserves same_queue (get_webhook wid)" "preserves same_queue (load_stored_webhook wid)"
  unfolding get_webhook_def load_stored_webhook_def by (intro frame_intros)+

lemma queue_snapshot: "preserves same_queue (build_package_event_snapshot repository_id event path actor required)"
  unfolding build_package_event_snapshot_def resolve_actor_def resolve_package_snapshot_def get_safe_by_id_def
  by (intro frame_intros queue.frame_read)

lemma queue_definitions:
  "preserves same_queue (create_webhook net_contains parse_url header_name_ok policy new_id input)"
  "preserves same_queue (update_webhook net_contains parse_url header_name_ok policy new_id wid input)"
  "preserves same_queue (delete_webhook wid)"
  unfolding create_webhook_def update_webhook_def delete_webhook_def
  by (intro frame_intros queue.frame_try queue.frame_exec; auto simp: same_queue_def split: if_splits)+

text \<open>An event only appends rows that wait for their first attempt.\<close>

definition waiting_row :: "delivery \<Rightarrow> bool" where
  "waiting_row d \<longleftrightarrow> d_status d = ''pending'' \<and> d_attempts d = 0 \<and> d_claim_token d = None"

lemma enqueue_appends:
  assumes "enqueue_package_path_event show_uuid show_time version event_ids repository_id event path actor required s = (r, t)"
  obtains new where "deliveries t = deliveries s @ new" "\<forall>d \<in> set new. waiting_row d"
    "map d_id new = map (\<lambda>j. delivery_seq s + int j) [0..<length new]"
    "delivery_seq t = delivery_seq s + int (length new)" "now t = now s"
proof -
  obtain r1 s1 where b: "build_package_event_snapshot repository_id event path actor required s = (r1, s1)" by fastforce
  have k: "same_queue s s1" by (rule preservesD [OF queue_snapshot b])
  note outcome = that
  have none: thesis if "same_queue s t"
    by (rule outcome [of "[]"]) (use that in \<open>auto simp: same_queue_def\<close>)
  show thesis
  proof (cases "\<exists>x. r1 = Inr (Some x)")
    case False
    then have "t = s1" using assms b
      by (auto simp: enqueue_package_path_event_def bind_ok_def ret_def split: sum.splits option.splits)
    with k none show thesis by simp
  next
    case True
    then obtain x where x: "r1 = Inr (Some x)" ..
    have e: "enqueue_snapshot show_uuid show_time version event_ids x s1 = (r, t)"
      using assms b x by (simp add: enqueue_package_path_event_def)
    obtain r2 s2 where sel: "select_sql WebhookQueryFailed (\<lambda>s. matching_webhooks (es_event_type x) (webhooks s)) s1 = (r2, s2)"
      by fastforce
    have k2: "same_queue s s2"
      by (rule queue.same_trans [OF k preservesD [OF queue.frame_select sel]])
    show thesis
    proof (cases "\<exists>rows. r2 = Inr rows \<and> rows \<noteq> []")
      case False
      then have "t = s2" using e sel by (auto simp: enqueue_snapshot_def bind_ok_def ret_def split: sum.splits)
      with k2 none show thesis by simp
    next
      case True
      then obtain rows where run: "enqueue_rows show_uuid show_time version event_ids x rows 0 s2 = (r, t)"
        using e sel by (auto simp: enqueue_snapshot_def)
      from enqueue_rows_exact [OF run] obtain ws where
        d: "deliveries t = deliveries s2 @
          map (\<lambda>j. new_delivery_row show_uuid show_time version (event_ids j) x (delivery_seq s2 + int j) (now s2) (ws ! j))
            [0..<length ws]"
        and q: "delivery_seq t = delivery_seq s2 + int (length ws)" "now t = now s2" by auto
      show thesis
        by (rule outcome [of "map (\<lambda>j. new_delivery_row show_uuid show_time version (event_ids j) x
              (delivery_seq s2 + int j) (now s2) (ws ! j)) [0..<length ws]"])
          (use d q k2 in \<open>auto simp: same_queue_def waiting_row_def new_delivery_row_def\<close>)
    qed
  qed
qed

section \<open>The invariant of the queue\<close>

definition terminal :: "delivery \<Rightarrow> bool" where
  "terminal d \<longleftrightarrow> d_status d = ''delivered'' \<or> d_status d = ''failed''"

definition delivery_ok :: "delivery \<Rightarrow> bool" where
  "delivery_ok d \<longleftrightarrow>
     0 \<le> sint (d_attempts d) \<and> sint (d_attempts d) \<le> 5 \<and>
     (d_status d = ''pending'' \<or> d_status d = ''processing'' \<or> terminal d) \<and>
     (\<not> terminal d \<longrightarrow> sint (d_attempts d) < 5) \<and>
     (d_status d = ''processing'' \<longleftrightarrow> d_claim_token d \<noteq> None) \<and>
     (d_status d = ''processing'' \<longrightarrow> d_claim_expires_at d \<noteq> None)"

definition rows_ok :: "int \<Rightarrow> uuid list \<Rightarrow> delivery list \<Rightarrow> bool" where
  "rows_ok limit claim_ids rows \<longleftrightarrow>
     distinct (map d_id rows) \<and>
     (\<forall>d \<in> set rows. d_id d < limit \<and> delivery_ok d \<and>
        (\<forall>token. d_claim_token d = Some token \<longrightarrow> token \<in> set claim_ids))"

text \<open>A claim held by a worker describes the row that carries its token.\<close>

definition claim_ok :: "delivery list \<Rightarrow> claimed_delivery \<Rightarrow> bool" where
  "claim_ok rows c \<longleftrightarrow>
     (\<forall>d \<in> set rows. d_claim_token d = Some (cd_claim_token c) \<longrightarrow>
        d_id d = cd_id c \<and> d_attempts d = cd_attempts c)"

definition queue_inv :: "delivery_system \<Rightarrow> bool" where
  "queue_inv x \<longleftrightarrow>
     rows_ok (delivery_seq (ds_db x)) (ds_tokens x) (deliveries (ds_db x)) \<and>
     distinct (map cd_claim_token (ds_claims x)) \<and>
     (\<forall>c \<in> set (ds_claims x). cd_claim_token c \<in> set (ds_tokens x) \<and> claim_ok (deliveries (ds_db x)) c)"

lemma max_attempts [simp]: "sint max_delivery_attempts = 5"
  by (simp add: max_delivery_attempts_def)

lemma next_retry_Some: "next_retry_at at a = Some n \<Longrightarrow> sint a < 5"
  by (auto simp: next_retry_at_def split: if_splits)

lemma retryable_attempts: "classify_result at a res = Retryable h e n \<Longrightarrow> sint a < 5"
  by (auto simp: classify_result_def classify_http_response_def classify_transport_error_def Let_def
      dest: next_retry_Some split: sum.splits if_splits option.splits)

lemma deliver_once_retryable:
  assumes "deliver_once client c world = (Retryable h e n, w)"
  shows "sint (cd_attempts c + 1) < 5"
  using assms by (auto simp: deliver_once_def split: prod.splits dest: retryable_attempts)

lemma claim_row_simps [simp]:
  "d_id (claim_row token at d) = d_id d" "d_attempts (claim_row token at d) = d_attempts d"
  "d_claim_token (claim_row token at d) = Some token" "d_status (claim_row token at d) = ''processing''"
  "d_claim_expires_at (claim_row token at d) = Some (at + delivery_claim_ttl)"
  "d_next_attempt_at (claim_row token at d) = d_next_attempt_at d" "d_headers (claim_row token at d) = d_headers d"
  by (simp_all add: claim_row_def)

lemma finalize_row_simps [simp]:
  "d_id (finalize_row outcome at d) = d_id d" "d_attempts (finalize_row outcome at d) = d_attempts d + 1"
  "d_claim_token (finalize_row outcome at d) = None"
  by (cases outcome; simp add: finalize_row_def end_attempt_def)+

lemma claimable_open: "claimable at d \<Longrightarrow> \<not> terminal d"
  by (auto simp: claimable_def terminal_def)

lemma delivery_ok_claim: "delivery_ok d \<Longrightarrow> claimable at d \<Longrightarrow> delivery_ok (claim_row token at d)"
  using claimable_open [of at d] by (auto simp: delivery_ok_def terminal_def)

lemma delivery_ok_waiting: "waiting_row d \<Longrightarrow> delivery_ok d"
  by (simp add: waiting_row_def delivery_ok_def terminal_def)

lemma holds_claim_open: "delivery_ok d \<Longrightarrow> holds_claim c d \<Longrightarrow> d_status d = ''processing'' \<and> sint (d_attempts d) < 5"
  by (auto simp: delivery_ok_def holds_claim_def terminal_def)

lemma delivery_ok_finalize:
  assumes "delivery_ok d" "holds_claim c d" "\<And>h e n. outcome = Retryable h e n \<Longrightarrow> sint (d_attempts d + 1) < 5"
  shows "delivery_ok (finalize_row outcome at d)"
proof -
  have a: "0 \<le> sint (d_attempts d)" "sint (d_attempts d) < 5"
    using holds_claim_open [OF assms(1,2)] assms(1) by (auto simp: delivery_ok_def)
  have "sint (d_attempts d + 1) = sint (d_attempts d) + 1" using small_succ a by simp
  then show ?thesis
    using a assms(3) by (cases outcome) (auto simp: delivery_ok_def finalize_row_def end_attempt_def terminal_def)
qed

lemma rows_ok_unique: "rows_ok limit claim_ids rows \<Longrightarrow> d \<in> set rows \<Longrightarrow> e \<in> set rows \<Longrightarrow> d_id d = d_id e \<Longrightarrow> d = e"
  unfolding rows_ok_def by (metis distinct_key_unique)

lemma rows_ok_map:
  assumes "rows_ok limit claim_ids rows" "\<And>d. d_id (f d) = d_id d"
    and "\<And>d. d \<in> set rows \<Longrightarrow> delivery_ok (f d) \<and> (\<forall>token. d_claim_token (f d) = Some token \<longrightarrow> token \<in> set claim_ids')"
  shows "rows_ok limit claim_ids' (map f rows)"
proof -
  have "map d_id (map f rows) = map d_id rows" using assms(2) by simp
  then have "distinct (map d_id (map f rows))" using assms(1) by (simp only: rows_ok_def)
  then show ?thesis using assms unfolding rows_ok_def by (simp del: map_map)
qed

lemma distinct_map_remove1: "distinct (map f xs) \<Longrightarrow> distinct (map f (remove1 x xs))"
  by (metis distinct_map distinct_remove1 inj_on_subset set_remove1_subset)

lemma rows_ok_append:
  assumes "rows_ok limit claim_ids rows" "\<forall>d \<in> set new. waiting_row d"
    "map d_id new = map (\<lambda>j. limit + int j) [0..<length new]"
  shows "rows_ok (limit + int (length new)) claim_ids (rows @ new)"
proof -
  have ids: "d_id d \<in> (\<lambda>j. limit + int j) ` {0..<length new}" if "d \<in> set new" for d
    using that assms(3) by (metis (mono_tags, lifting) image_eqI image_set set_upt)
  have "distinct (map d_id new)" unfolding assms(3) by (simp add: distinct_map inj_on_def)
  moreover have "limit \<le> d_id d \<and> d_id d < limit + int (length new)" if "d \<in> set new" for d
    using ids [OF that] by auto
  moreover have "d_claim_token d = None \<and> delivery_ok d" if "d \<in> set new" for d
    using assms(2) that delivery_ok_waiting by (auto simp: waiting_row_def)
  ultimately show ?thesis using assms(1) by (fastforce simp: rows_ok_def)
qed

lemma queue_inv_rows: "queue_inv x \<Longrightarrow> rows_ok (delivery_seq (ds_db x)) (ds_tokens x) (deliveries (ds_db x))"
  by (simp add: queue_inv_def)

lemma queue_inv_same:
  "queue_inv x \<Longrightarrow> same_queue (ds_db x) db \<Longrightarrow> queue_inv (x\<lparr>ds_db := db\<rparr>)"
  by (simp add: queue_inv_def same_queue_def)

lemma queue_inv_claim:
  assumes inv: "queue_inv x" and run: "claim_next_delivery token locked (ds_db x) = (r, db)"
    and fresh: "token \<notin> set (ds_tokens x)"
  shows "queue_inv (x\<lparr>ds_db := db,
      ds_claims := (case r of Inr (Some c) \<Rightarrow> c # ds_claims x | _ \<Rightarrow> ds_claims x),
      ds_tokens := token # ds_tokens x\<rparr>)"
  using run
proof (cases rule: claim_next_cases)
  case (untouched bs)
  then have "(case r of Inr (Some c) \<Rightarrow> c # ds_claims x | _ \<Rightarrow> ds_claims x) = ds_claims x"
    by (auto split: sum.splits option.splits)
  with inv untouched(1) show ?thesis by (auto simp: queue_inv_def rows_ok_def)
next
  case (claimed d bs)
  let ?rows = "deliveries (ds_db x)"
  let ?f = "\<lambda>e. if d_id e = d_id d then claim_row token (now (ds_db x)) e else e"
  note d = next_due_Some [OF claimed(1)]
  note rows = queue_inv_rows [OF inv]
  have only: "e = d" if "e \<in> set ?rows" "d_id e = d_id d" for e
    using rows_ok_unique [OF rows that(1) d(1) that(2)] .
  have ok: "rows_ok (delivery_seq (ds_db x)) (token # ds_tokens x) (map ?f ?rows)"
  proof (rule rows_ok_map [OF rows])
    show "d_id (?f e) = d_id e" for e by simp
    show "delivery_ok (?f e) \<and> (\<forall>tok. d_claim_token (?f e) = Some tok \<longrightarrow> tok \<in> set (token # ds_tokens x))"
      if "e \<in> set ?rows" for e
      using that rows only [OF that] d(2) delivery_ok_claim by (auto simp: rows_ok_def)
  qed
  have old: "claim_ok (map ?f ?rows) c" if "c \<in> set (ds_claims x)" for c
  proof -
    have "cd_claim_token c \<noteq> token" "claim_ok ?rows c" using inv fresh that by (auto simp: queue_inv_def)
    then show ?thesis by (auto simp: claim_ok_def)
  qed
  have new: "claim_ok (map ?f ?rows) c" if "r = Inr (Some c)" for c
  proof -
    have fresh_row: "d_claim_token e \<noteq> Some token" if "e \<in> set ?rows" for e
      using rows that fresh by (auto simp: rows_ok_def)
    have row: "d_id e' = d_id d \<and> d_attempts e' = d_attempts d"
      if e': "e' \<in> set (map ?f ?rows)" "d_claim_token e' = Some token" for e'
    proof -
      obtain e where e: "e \<in> set ?rows" "e' = ?f e" using e'(1) unfolding set_map by blast
      show ?thesis
      proof (cases "d_id e = d_id d")
        case True
        then have "e = d" by (rule only [OF e(1)])
        then show ?thesis by (simp add: e(2))
      next
        case False
        then show ?thesis using e'(2) fresh_row [OF e(1)] by (simp add: e(2))
      qed
    qed
    have c: "cd_id c = d_id d" "cd_claim_token c = token" "cd_attempts c = d_attempts d"
      using claimed(3) [OF that] by simp_all
    show ?thesis unfolding claim_ok_def c by (intro ballI impI row)
  qed
  have claim_ids: "cd_claim_token c \<in> set (ds_tokens x)" if "c \<in> set (ds_claims x)" for c
    using inv that by (simp add: queue_inv_def)
  show ?thesis
    using ok old new claim_ids claimed(3) fresh inv
    by (auto simp: queue_inv_def claimed(2) split: sum.splits option.splits)
qed

lemma queue_inv_finish:
  assumes inv: "queue_inv x" and c: "c \<in> set (ds_claims x)"
    and out: "deliver_once client c (at, w) = (outcome, clock', w')"
    and run: "finalize_delivery_attempt c outcome (ds_db x) = (r, db)"
  shows "queue_inv (x\<lparr>ds_db := db, ds_claims := remove1 c (ds_claims x)\<rparr>)"
proof -
  let ?rows = "deliveries (ds_db x)"
  let ?f = "\<lambda>d. if holds_claim c d then finalize_row outcome (now (ds_db x)) d else d"
  note rows = queue_inv_rows [OF inv]
  have ok: "rows_ok (delivery_seq (ds_db x)) (ds_tokens x) (map ?f ?rows)"
  proof (rule rows_ok_map [OF rows])
    show "d_id (?f d) = d_id d" for d by simp
    show "delivery_ok (?f d) \<and> (\<forall>token. d_claim_token (?f d) = Some token \<longrightarrow> token \<in> set (ds_tokens x))"
      if d: "d \<in> set ?rows" for d
    proof (cases "holds_claim c d")
      case True
      have "claim_ok ?rows c" using inv c by (simp add: queue_inv_def)
      then have "d_attempts d = cd_attempts c" using True d by (auto simp: claim_ok_def holds_claim_def)
      then have "sint (d_attempts d + 1) < 5" if "outcome = Retryable h e n" for h e n
        using deliver_once_retryable [OF out [unfolded that]] by simp
      then show ?thesis using True d rows delivery_ok_finalize by (auto simp: rows_ok_def)
    next
      case False
      then show ?thesis using d rows by (auto simp: rows_ok_def)
    qed
  qed
  have claims: "claim_ok (map ?f ?rows) e" if "claim_ok ?rows e" for e
    using that by (auto simp: claim_ok_def)
  have sub: "set (remove1 c (ds_claims x)) \<subseteq> set (ds_claims x)" by (rule set_remove1_subset)
  have dist: "distinct (map cd_claim_token (remove1 c (ds_claims x)))"
    using inv by (simp add: queue_inv_def distinct_map_remove1)
  show ?thesis
    using run
  proof (cases rule: finalize_cases)
    case (failed bs e)
    with inv sub dist show ?thesis by (auto simp: queue_inv_def)
  next
    case (written bs)
    with inv sub dist ok claims show ?thesis by (auto simp: queue_inv_def cong: if_cong)
  qed
qed

lemma queue_inv_step:
  assumes "delivery_step client show_uuid show_time version x y" and inv: "queue_inv x"
  shows "queue_inv y"
  using assms(1)
proof (cases rule: delivery_step.cases)
  case (event event_ids repository_id event path actor required r db)
  obtain new where new: "deliveries db = deliveries (ds_db x) @ new" "\<forall>d \<in> set new. waiting_row d"
    "map d_id new = map (\<lambda>j. delivery_seq (ds_db x) + int j) [0..<length new]"
    "delivery_seq db = delivery_seq (ds_db x) + int (length new)"
    by (rule enqueue_appends [OF event(2)])
  have "claim_ok (deliveries db) c" if "claim_ok (deliveries (ds_db x)) c" for c
    using that new(1,2) by (auto simp: claim_ok_def waiting_row_def)
  with inv rows_ok_append [OF queue_inv_rows [OF inv] new(2,3)] show ?thesis
    by (auto simp: event(1) queue_inv_def new(1,4))
next
  case (crash c)
  have "distinct (map cd_claim_token (remove1 c (ds_claims x)))"
    using inv by (simp add: queue_inv_def distinct_map_remove1)
  then show ?thesis
    using inv set_remove1_subset [of c "ds_claims x"] by (auto simp: crash(1) queue_inv_def)
next
  case (create parse_url header_name_ok new_id input r db)
  then show ?thesis using queue_inv_same [OF inv preservesD [OF queue_definitions(1)]] by simp
next
  case (update parse_url header_name_ok new_id wid input r' db)
  then show ?thesis using queue_inv_same [OF inv preservesD [OF queue_definitions(2)]] by simp
next
  case (delete wid r'' db)
  then show ?thesis using queue_inv_same [OF inv preservesD [OF queue_definitions(3)]] by simp
next
  case (claim token locked claimed db)
  then show ?thesis using queue_inv_claim [OF inv] by simp
next
  case (finish c at w outcome clock' w' res db)
  then show ?thesis using queue_inv_finish [OF inv] by simp
qed (use inv in \<open>auto simp: queue_inv_def\<close>)

lemma queue_inv_reachable: "delivery_reachable client show_uuid show_time version x \<Longrightarrow> queue_inv x"
proof (induction rule: delivery_reachable.induct)
  case (start db)
  then show ?case by (simp add: queue_inv_def rows_ok_def)
next
  case (step x y)
  from queue_inv_step [OF step.hyps(2) step.IH] show ?case .
qed

section \<open>The loop's measure\<close>

definition attempts_left :: "delivery \<Rightarrow> nat" where
  "attempts_left d = (if terminal d then 0 else nat (5 - sint (d_attempts d)))"

definition total_left :: "delivery list \<Rightarrow> nat" where
  "total_left rows = sum_list (map attempts_left rows)"

lemma sum_list_map_less:
  assumes "\<And>x. x \<in> set xs \<Longrightarrow> m (h x) \<le> m x" "d \<in> set xs" "m (h d) < (m d :: nat)"
  shows "sum_list (map m (map h xs)) < sum_list (map m xs)"
  using assms
proof (induction xs)
  case (Cons x xs)
  have le: "sum_list (map m (map h xs)) \<le> sum_list (map m xs)"
    using Cons.prems(1) by (simp add: comp_def sum_list_mono)
  show ?case
  proof (cases "d \<in> set xs")
    case True
    with Cons show ?thesis by (simp add: add_le_less_mono)
  next
    case False
    with Cons.prems le show ?thesis by (simp add: add_less_le_mono)
  qed
qed simp

text \<open>One round of the loop on the rows: the row claimed and finalized, all others untouched.\<close>

definition round_row :: "delivery \<Rightarrow> uuid \<Rightarrow> instant \<Rightarrow> delivery_outcome \<Rightarrow> instant \<Rightarrow> delivery \<Rightarrow> delivery" where
  "round_row d token at outcome ended e =
     (if d_id e = d_id d then finalize_row outcome ended (claim_row token at e) else e)"

lemma round_rows:
  assumes "cd_id c = d_id d" "cd_claim_token c = token"
  shows "map (\<lambda>e. if holds_claim c e then finalize_row outcome ended e else e)
      (map (\<lambda>e. if d_id e = d_id d then claim_row token at e else e) rows) =
    map (round_row d token at outcome ended) rows"
  by (rule nth_equalityI) (simp_all add: round_row_def holds_claim_def assms)

lemma round_ok:
  assumes rows: "rows_ok limit claim_ids rows" and d: "d \<in> set rows" "claimable at d"
    and few: "\<forall>h e n. outcome = Retryable h e n \<longrightarrow> sint (d_attempts d + 1) < 5"
  shows "rows_ok limit (token # claim_ids) (map (round_row d token at outcome ended) rows)"
    and "total_left (map (round_row d token at outcome ended) rows) < total_left rows"
proof -
  have only: "e = d" if "e \<in> set rows" "d_id e = d_id d" for e
    by (rule rows_ok_unique [OF rows that(1) d(1) that(2)])
  have dok: "delivery_ok d" using rows d(1) by (simp add: rows_ok_def)
  let ?c = "\<lparr>cd_id = d_id d, cd_claim_token = token, cd_webhook_id = None, cd_webhook_name = [],
    cd_event_type = [], cd_subscription_key = [], cd_target_url = [], cd_headers = [], cd_payload = JNull,
    cd_attempts = 0\<rparr>"
  have "holds_claim ?c (claim_row token at d)" by (simp add: holds_claim_def)
  then have fin: "delivery_ok (finalize_row outcome ended (claim_row token at d))"
    using delivery_ok_finalize [OF delivery_ok_claim [OF dok d(2)]] few by simp
  show "rows_ok limit (token # claim_ids) (map (round_row d token at outcome ended) rows)"
  proof (rule rows_ok_map [OF rows])
    show "d_id (round_row d token at outcome ended e) = d_id e" for e by (simp add: round_row_def)
    show "delivery_ok (round_row d token at outcome ended e) \<and>
        (\<forall>tok. d_claim_token (round_row d token at outcome ended e) = Some tok \<longrightarrow> tok \<in> set (token # claim_ids))"
      if "e \<in> set rows" for e
    proof (cases "d_id e = d_id d")
      case True
      with only [OF that] fin show ?thesis by (simp add: round_row_def)
    next
      case False
      with rows that show ?thesis by (simp add: round_row_def rows_ok_def)
    qed
  qed
  have a: "0 \<le> sint (d_attempts d)" "sint (d_attempts d) < 5" "\<not> terminal d"
    using dok claimable_open [OF d(2)] by (auto simp: delivery_ok_def)
  have succ: "sint (d_attempts d + 1) = sint (d_attempts d) + 1" using small_succ a by simp
  have less: "attempts_left (round_row d token at outcome ended d) < attempts_left d"
    using a by (simp add: attempts_left_def round_row_def succ)
  have le: "attempts_left (round_row d token at outcome ended e) \<le> attempts_left e" if "e \<in> set rows" for e
  proof (cases "d_id e = d_id d")
    case True
    with only [OF that] less show ?thesis by simp
  next
    case False
    then show ?thesis by (simp add: round_row_def)
  qed
  show "total_left (map (round_row d token at outcome ended) rows) < total_left rows"
    unfolding total_left_def by (rule sum_list_map_less [OF le d(1) less])
qed

section \<open>What a step does to a row\<close>

lemma queue_update_in:
  "d \<in> set rows \<Longrightarrow> f d \<in> set (map f rows)"
  by simp

lemma step_row:
  assumes inv: "queue_inv x" and step: "delivery_step client show_uuid show_time version x y"
    and d: "d \<in> set (deliveries (ds_db x))"
  obtains (kept) "d \<in> set (deliveries (ds_db y))"
  | (claimed) token where "claimable (now (ds_db x)) d"
      "claim_row token (now (ds_db x)) d \<in> set (deliveries (ds_db y))"
  | (finished) c outcome where "c \<in> set (ds_claims x)" "holds_claim c d"
      "finalize_row outcome (now (ds_db x)) d \<in> set (deliveries (ds_db y))"
      "ds_claims y = remove1 c (ds_claims x)"
  using step
proof (cases rule: delivery_step.cases)
  case (event event_ids repository_id event path actor required r db)
  obtain new where "deliveries db = deliveries (ds_db x) @ new" by (rule enqueue_appends [OF event(2)])
  then show thesis using kept d event(1) by simp
next
  case (create parse_url header_name_ok new_id input r db)
  from preservesD [OF queue_definitions(1) create(2)] show thesis
    using kept d create(1) by (simp add: same_queue_def)
next
  case (update parse_url header_name_ok new_id wid input r' db)
  from preservesD [OF queue_definitions(2) update(2)] show thesis
    using kept d update(1) by (simp add: same_queue_def)
next
  case (delete wid r'' db)
  from preservesD [OF queue_definitions(3) delete(2)] show thesis
    using kept d delete(1) by (simp add: same_queue_def)
next
  case (claim token locked r db)
  from claim(2) show thesis
  proof (cases rule: claim_next_cases)
    case (untouched bs)
    then show thesis using kept d claim(1) by simp
  next
    case (claimed e bs)
    note e = next_due_Some [OF claimed(1)]
    let ?f = "\<lambda>x'. if d_id x' = d_id e then claim_row token (now (ds_db x)) x' else x'"
    have in_y: "?f d \<in> set (deliveries (ds_db y))"
      using queue_update_in [OF d, of ?f] by (simp add: claim(1) claimed(2) del: set_map)
    show thesis
    proof (cases "d_id d = d_id e")
      case True
      then have "claimable (now (ds_db x)) d"
        using e(2) rows_ok_unique [OF queue_inv_rows [OF inv] d e(1)] by simp
      then show thesis using that(2) in_y True by simp
    next
      case False
      then show thesis using kept in_y by simp
    qed
  qed
next
  case (finish c at w outcome clock' w' res db)
  from finish(4) show thesis
  proof (cases rule: finalize_cases)
    case (failed bs e)
    then show thesis using kept d finish(1) by simp
  next
    case (written bs)
    let ?f = "\<lambda>x'. if holds_claim c x' then finalize_row outcome (now (ds_db x)) x' else x'"
    have in_y: "?f d \<in> set (deliveries (ds_db y))"
      using queue_update_in [OF d, of ?f] by (simp add: finish(1) written(1) del: set_map)
    show thesis
    proof (cases "holds_claim c d")
      case True
      then show thesis using finished [OF finish(2) True] in_y finish(1) by simp
    next
      case False
      then show thesis using kept in_y by simp
    qed
  qed
qed (use kept d in simp_all)

section \<open>Properties\<close>


text \<open>
  C23. While a claim has not expired, its row is exclusively the claiming worker's: a step of any
  worker leaves the row as it is, unless it is the end of the attempt of the one claim that carries
  the row's token. In particular a worker whose claim was taken over cannot write the row.
\<close>

theorem lease_exclusive:
  assumes reach: "delivery_reachable client show_uuid show_time version x"
    and step: "delivery_step client show_uuid show_time version x y"
    and d: "d \<in> set (deliveries (ds_db x))" and busy: "d_status d = ''processing''"
    and lease: "d_claim_expires_at d = Some expires" "now (ds_db x) < expires"
  shows "d \<in> set (deliveries (ds_db y)) \<or>
     (\<exists>c outcome. {c' \<in> set (ds_claims x). holds_claim c' d} = {c} \<and>
        finalize_row outcome (now (ds_db x)) d \<in> set (deliveries (ds_db y)) \<and>
        ds_claims y = remove1 c (ds_claims x))"
proof -
  have inv: "queue_inv x" by (rule queue_inv_reachable [OF reach])
  from inv step d show ?thesis
  proof (cases rule: step_row)
    case kept
    then show ?thesis by blast
  next
    case (claimed token)
    then show ?thesis using busy lease by (simp add: claimable_def)
  next
    case (finished c outcome)
    have dist: "distinct (map cd_claim_token (ds_claims x))" using inv by (simp add: queue_inv_def)
    have "c' = c" if "c' \<in> set (ds_claims x)" "holds_claim c' d" for c'
    proof (rule distinct_key_unique [OF dist that(1) finished(1)])
      show "cd_claim_token c' = cd_claim_token c" using that(2) finished(2) by (simp add: holds_claim_def)
    qed
    then have "{c' \<in> set (ds_claims x). holds_claim c' d} = {c}" using finished(1,2) by blast
    then show ?thesis using finished(3,4) by (intro disjI2 exI conjI)
  qed
qed

text \<open>
  C24. A pass of the delivery worker ends, however long the requests take and whatever they return:
  fuel above the number of attempts left suffices, and a pass that ends without an error leaves no
  delivery due that another transaction does not hold.
\<close>

theorem delivery_pass_terminates:
  assumes "rows_ok limit used (deliveries s)" and "total_left (deliveries s) < fuel"
  shows "\<exists>r t w'. process_due_deliveries fuel client claim_ids locked k w s = Some (r, t, w') \<and>
     (r = Inr () \<longrightarrow> (\<exists>j \<ge> k. \<forall>d \<in> set (deliveries t). claimable (now t) d \<longrightarrow> d_id d \<in> set (locked j)))"
  using assms
proof (induction fuel arbitrary: k w s used)
  case (Suc fuel)
  obtain r t where c: "claim_next_delivery (claim_ids k) (locked k) s = (r, t)" by fastforce
  from c show ?case
  proof (cases rule: claim_next_cases)
    case (untouched bs)
    show ?thesis
    proof (cases r)
      case (Inl e)
      then show ?thesis by (simp add: c)
    next
      case (Inr row)
      with untouched(2) have "row = None" by (cases row) auto
      with untouched Inr next_due_None show ?thesis by (auto simp: c)
    qed
  next
    case (claimed d bs)
    note d = next_due_Some [OF claimed(1)]
    show ?thesis
    proof (cases r)
      case (Inl e)
      then show ?thesis by (simp add: c)
    next
      case (Inr row)
      with claimed(4) obtain cd where r: "r = Inr (Some cd)" by (cases row) auto
      note cd = claimed(3) [OF r]
      obtain outcome clock w' where o: "deliver_once client cd (now t, w) = (outcome, clock, w')"
        by (metis prod.exhaust)
      obtain r2 u where f: "finalize_delivery_attempt cd outcome (t\<lparr>now := clock\<rparr>) = (r2, u)" by fastforce
      have run: "process_due_deliveries (Suc fuel) client claim_ids locked k w s =
          (case (r2, u) of (Inl e, u) \<Rightarrow> Some (Inl e, u, w')
             | (Inr _, u) \<Rightarrow> process_due_deliveries fuel client claim_ids locked (Suc k) w' u)"
        by (simp add: c r o f)
      from f show ?thesis
      proof (cases rule: finalize_cases)
        case (failed bs' e)
        with run show ?thesis by simp
      next
        case (written bs')
        have rows: "deliveries u = map (round_row d (claim_ids k) (now s) outcome clock) (deliveries s)"
          using round_rows [of cd d "claim_ids k" outcome clock "now s" "deliveries s"] cd
          by (simp add: written(1) claimed(2) del: map_map cong: if_cong)
        have "sint (d_attempts d + 1) < 5" if "outcome = Retryable h e n" for h e n
          using deliver_once_retryable [OF o [unfolded that]] cd by simp
        then have few: "\<forall>h e n. outcome = Retryable h e n \<longrightarrow> sint (d_attempts d + 1) < 5" by blast
        note ok = round_ok [where outcome = outcome and token = "claim_ids k" and at = "now s" and ended = clock,
            OF Suc.prems(1) d(1,2) few]
        have "total_left (deliveries u) < fuel" using ok(2) Suc.prems(2) rows by simp
        from Suc.IH [OF _ this, of "claim_ids k # used" "Suc k" w'] ok(1) rows obtain r3 v w3 j
          where "process_due_deliveries fuel client claim_ids locked (Suc k) w' u = Some (r3, v, w3)"
            and "r3 = Inr () \<longrightarrow> (\<exists>j \<ge> Suc k. \<forall>d \<in> set (deliveries v). claimable (now v) d \<longrightarrow> d_id d \<in> set (locked j))"
          by auto
        then show ?thesis using run written(2) by (auto intro: Suc_leD)
      qed
    qed
  qed
qed simp

section \<open>Witnesses\<close>

definition sample_client :: "(unit, unit, unit) http_client" where
  "sample_client =
     \<lparr>hc_net_contains = (\<lambda>_ _. False), hc_policy = \<lparr>allowed_hosts = [], allowed_cidrs = []\<rparr>,
      hc_build = (\<lambda>_ _ _. Inr ()), hc_url = (\<lambda>_. sample_url (Domain ''example.org'') ''example.org''),
      hc_execute = (\<lambda>_ (at, w). (Inr 503, at + seconds 2, w))\<rparr>"

definition sample_queue_db :: webhook_db where
  "sample_queue_db = sample_webhook_db\<lparr>repository_rows :=
     [\<lparr>rr_id = 7, rr_name = ''r'', rr_storage_name = ''s'', rr_repository_type = ''npm''\<rparr>]\<rparr>"

definition sample_event :: "(unit, nat) webhook_query" where
  "sample_event = enqueue_package_path_event (\<lambda>_. ''u'') (\<lambda>_. ''t'') ''1'' of_nat 7 PackagePublished ''a/1''
     \<lparr>wa_user_id = None, wa_username = None\<rparr> False"

definition queue_start :: delivery_system where
  "queue_start = \<lparr>ds_db = sample_queue_db, ds_claims = [], ds_tokens = []\<rparr>"

definition queue_event :: delivery_system where
  "queue_event = queue_start\<lparr>ds_db := snd (sample_event sample_queue_db)\<rparr>"

definition sample_claim :: "(webhook_error + claimed_delivery option) \<times> webhook_db" where
  "sample_claim = claim_next_delivery 9 [] (ds_db queue_event)"

definition queue_claimed :: delivery_system where
  "queue_claimed = queue_event\<lparr>ds_db := snd sample_claim,
     ds_claims := (case fst sample_claim of Inr (Some c) \<Rightarrow> c # ds_claims queue_event | _ \<Rightarrow> ds_claims queue_event),
     ds_tokens := 9 # ds_tokens queue_event\<rparr>"

definition queue_crashed :: delivery_system where
  "queue_crashed = queue_claimed\<lparr>ds_claims := remove1 (hd (ds_claims queue_claimed)) (ds_claims queue_claimed)\<rparr>"

abbreviation sample_step :: "delivery_system \<Rightarrow> delivery_system \<Rightarrow> bool" where
  "sample_step \<equiv> delivery_step sample_client (\<lambda>_. ''u'') (\<lambda>_. ''t'') ''1''"

abbreviation sample_reachable :: "delivery_system \<Rightarrow> bool" where
  "sample_reachable \<equiv> delivery_reachable sample_client (\<lambda>_. ''u'') (\<lambda>_. ''t'') ''1''"

lemma sample_reachable_event: "sample_reachable queue_event"
proof -
  have start: "sample_reachable queue_start"
    unfolding queue_start_def
    by (rule delivery_reachable.start) (simp add: sample_queue_db_def sample_webhook_db_def)
  have "sample_step queue_start queue_event"
    unfolding queue_event_def
    by (rule delivery_step.event [where event_ids = of_nat and repository_id = 7 and event = PackagePublished
          and path = "''a/1''" and actor = "\<lparr>wa_user_id = None, wa_username = None\<rparr>" and required = False
          and r = "fst (sample_event sample_queue_db)"])
      (simp add: queue_start_def sample_event_def)
  with start show ?thesis by (rule delivery_reachable.step)
qed

lemma sample_step_claimed: "sample_step queue_event queue_claimed"
  unfolding queue_claimed_def
  by (rule delivery_step.claim [where locked = "[]"])
    (simp_all add: sample_claim_def queue_event_def queue_start_def)

lemma sample_claims: "length (ds_claims queue_claimed) = 1"
  by code_simp

lemma sample_step_crashed: "sample_step queue_claimed queue_crashed"
  unfolding queue_crashed_def
  by (rule delivery_step.crash) (use sample_claims in \<open>cases "ds_claims queue_claimed"; simp\<close>)

lemma sample_rows:
  "map d_id (deliveries (ds_db queue_event)) = [1, 2]"
  "map d_status (deliveries (ds_db queue_claimed)) = [''processing'', ''pending'']"
  "map d_claim_expires_at (deliveries (ds_db queue_claimed)) = [Some 300000000010, None]"
  "now (ds_db queue_claimed) = 10"
  by code_simp+


theorem lease_exclusive_witness:
  "\<exists>d. d \<in> set (deliveries (ds_db queue_claimed)) \<and> d_status d = ''processing'' \<and>
     (d \<in> set (deliveries (ds_db queue_crashed)) \<or>
      (\<exists>c outcome. {c' \<in> set (ds_claims queue_claimed). holds_claim c' d} = {c} \<and>
        finalize_row outcome (now (ds_db queue_claimed)) d \<in> set (deliveries (ds_db queue_crashed)) \<and>
        ds_claims queue_crashed = remove1 c (ds_claims queue_claimed)))"
proof -
  have reach: "sample_reachable queue_claimed"
    by (rule delivery_reachable.step [OF sample_reachable_event sample_step_claimed])
  obtain d rest where rows: "deliveries (ds_db queue_claimed) = d # rest"
    using sample_rows(2) by (cases "deliveries (ds_db queue_claimed)") auto
  have d: "d \<in> set (deliveries (ds_db queue_claimed))" "d_status d = ''processing''"
    "d_claim_expires_at d = Some 300000000010"
    using sample_rows(2,3) by (simp_all add: rows)
  have "now (ds_db queue_claimed) < 300000000010" by (simp add: sample_rows(4))
  from lease_exclusive [OF reach sample_step_crashed d this] d(1,2) show ?thesis by blast
qed

theorem delivery_pass_terminates_witness:
  "\<exists>r t w'. process_due_deliveries 11 sample_client of_nat (\<lambda>_. []) 0 () (ds_db queue_event) = Some (r, t, w')"
proof -
  have ok: "rows_ok 3 [] (deliveries (ds_db queue_event))"
  proof -
    have "delivery_seq (ds_db queue_event) = 3" "ds_tokens queue_event = []" by code_simp+
    with queue_inv_rows [OF queue_inv_reachable [OF sample_reachable_event]] show ?thesis by simp
  qed
  have less: "total_left (deliveries (ds_db queue_event)) < 11" by code_simp
  from delivery_pass_terminates [OF ok less, of sample_client of_nat "\<lambda>_. []" 0 "()"] show ?thesis by blast
qed

end
