(* ===== verification/AdvisoryJobs.thy ===== *)
theory AdvisoryJobs
  imports PackageFiles Egress
begin

text \<open>
  Maintenance jobs guarded by advisory locks of the database: package retention
  (pkgly/src/repository/retention) and the refresh of Debian mirrors
  (pkgly/src/repository/deb/refresh_status.rs, scheduler.rs, configs.rs and the manual refresh of
  pkgly/src/app/api/repository/management.rs), with the scheduler that starts them.

  A lock belongs to a database session. \<open>locks\<close> lists the locks with the connection that holds them
  (a session may take its own lock again), \<open>in_use\<close> the connections taken from the pool; \<open>pick\<close> is the
  pool's choice of a connection. An error of type \<open>JobPanic\<close> is a panic of the code.

  Parameters: \<open>parse_retention\<close> and \<open>parse_deb\<close> are serde's reading of the JSON configurations,
  \<open>sub_days\<close> and \<open>add_seconds\<close> chrono's arithmetic (\<open>None\<close>: it panics), \<open>cron_parse\<close> and \<open>cron_after\<close>
  the cron crate, \<open>delete_paths\<close> the deletion of cached packages (packages.rs, not modelled) and
  \<open>refresh_mirror\<close> the download of a mirror (proxy_refresh.rs, not modelled).
\<close>

section \<open>State\<close>

datatype job_error = JobDatabase | JobFailed string | JobPanic

record 'c status_row =
  sr_in_progress :: bool
  sr_last_started_at :: "instant option"
  sr_last_finished_at :: "instant option"
  sr_last_success_at :: "instant option"
  sr_last_error :: "string option"
  sr_counts :: "'c option"
  sr_created_at :: instant
  sr_updated_at :: instant

datatype loaded_repository = VirtualKind | DebProxyKind | OtherKind

record job_repository =
  jr_id :: uuid
  jr_type :: string
  jr_active :: bool

record job_db = catalog_db +
  locks :: "(i64 \<times> nat) list"
  in_use :: "nat list"
  retention_status :: "uuid \<rightharpoonup> i32 status_row"
  refresh_status :: "uuid \<rightharpoonup> (i32 \<times> i32) status_row"
  job_repositories :: "job_repository list"
  repository_configs :: "uuid \<times> string \<rightharpoonup> string"
  loaded_repositories :: "uuid \<rightharpoonup> loaded_repository"

type_synonym ('z, 'a) job = "('z job_db_scheme, job_error, 'a) stm"

section \<open>Advisory locks\<close>

definition package_retention_advisory_key :: "uuid \<Rightarrow> i64" where
  "package_retention_advisory_key repository_id =
     (let folded = (ucast repository_id :: u64) XOR ucast (drop_bit 64 repository_id)
      in folded XOR 0x706b677265746e31)"

definition deb_proxy_refresh_advisory_key :: "uuid \<Rightarrow> i64" where
  "deb_proxy_refresh_advisory_key repository_id =
     (ucast repository_id :: u64) XOR ucast (drop_bit 64 repository_id)"

definition acquire_connection :: "(nat list \<Rightarrow> nat) \<Rightarrow> ('z, nat) job" where
  "acquire_connection pick =
     exec_sql JobDatabase (\<lambda>s. let c = pick (in_use s) in (c, s\<lparr>in_use := c # in_use s\<rparr>))"

definition return_connection :: "nat \<Rightarrow> 'z job_db_scheme \<Rightarrow> 'z job_db_scheme" where
  "return_connection c s = s\<lparr>in_use := remove1 c (in_use s)\<rparr>"

text \<open>Closing a connection ends its session, and with it the locks it holds.\<close>

definition close_connection :: "nat \<Rightarrow> 'z job_db_scheme \<Rightarrow> 'z job_db_scheme" where
  "close_connection c s =
     s\<lparr>in_use := remove1 c (in_use s), locks := filter (\<lambda>(k, d). d \<noteq> c) (locks s)\<rparr>"

definition pg_try_advisory_lock :: "i64 \<Rightarrow> nat \<Rightarrow> ('z, bool) job" where
  "pg_try_advisory_lock key c =
     exec_sql JobDatabase
       (\<lambda>s. if list_ex (\<lambda>(k, d). k = key \<and> d \<noteq> c) (locks s) then (False, s)
            else (True, s\<lparr>locks := (key, c) # locks s\<rparr>))"

definition pg_advisory_unlock :: "i64 \<Rightarrow> nat \<Rightarrow> ('z, bool) job" where
  "pg_advisory_unlock key c =
     exec_sql JobDatabase
       (\<lambda>s. if (key, c) \<in> set (locks s) then (True, s\<lparr>locks := remove1 (key, c) (locks s)\<rparr>)
            else (False, s))"

text \<open>The lock guard: its key and its connection. Dropping it returns the connection to the pool.\<close>

type_synonym advisory_lock = "i64 \<times> nat"

definition release :: "advisory_lock \<Rightarrow> ('z, unit) job" where
  "release lock s =
     (case pg_advisory_unlock (fst lock) (snd lock) s of
        (Inr _, t) \<Rightarrow> (Inr (), return_connection (snd lock) t)
      | (Inl e, t) \<Rightarrow> (Inl e, close_connection (snd lock) t))"

text \<open>The common shape of \<open>try_mark_package_retention_started\<close> and
  \<open>try_mark_deb_proxy_refresh_started\<close>: \<open>None\<close> is \<open>AlreadyRunning\<close>.\<close>

definition try_mark_started ::
  "(nat list \<Rightarrow> nat) \<Rightarrow> i64 \<Rightarrow> ('z, unit) job \<Rightarrow> ('z, unit) job \<Rightarrow> ('z, advisory_lock option) job" where
  "try_mark_started pick key ensure_row mark =
     bind_ok (acquire_connection pick) (\<lambda>c s.
       case pg_try_advisory_lock key c s of
         (Inl e, t) \<Rightarrow> (Inl e, return_connection c t)
       | (Inr acquired, t) \<Rightarrow>
           if \<not> acquired then (Inr None, return_connection c t)
           else
             (case ensure_row t of
                (Inl e, u) \<Rightarrow> (Inl e, close_connection c u)
              | (Inr _, u) \<Rightarrow>
                  (case mark u of
                     (Inl e, v) \<Rightarrow> (Inl e, close_connection c v)
                   | (Inr _, v) \<Rightarrow> (Inr (Some (key, c)), v))))"

section \<open>Status rows\<close>

definition new_status_row :: "instant \<Rightarrow> 'c status_row" where
  "new_status_row at =
     \<lparr>sr_in_progress = False, sr_last_started_at = None, sr_last_finished_at = None,
      sr_last_success_at = None, sr_last_error = None, sr_counts = None, sr_created_at = at,
      sr_updated_at = at\<rparr>"

definition started_row :: "instant \<Rightarrow> 'c status_row \<Rightarrow> 'c status_row" where
  "started_row at r =
     r\<lparr>sr_in_progress := True, sr_last_started_at := Some at, sr_last_error := None, sr_updated_at := at\<rparr>"

definition succeeded_row :: "instant \<Rightarrow> 'c \<Rightarrow> 'c status_row \<Rightarrow> 'c status_row" where
  "succeeded_row at counts r =
     r\<lparr>sr_in_progress := False, sr_last_finished_at := Some at, sr_last_success_at := Some at,
       sr_last_error := None, sr_counts := Some counts, sr_updated_at := at\<rparr>"

definition failed_row :: "instant \<Rightarrow> string \<Rightarrow> 'c status_row \<Rightarrow> 'c status_row" where
  "failed_row at error r =
     r\<lparr>sr_in_progress := False, sr_last_finished_at := Some at, sr_last_error := Some error,
       sr_updated_at := at\<rparr>"

text \<open>The table references \<open>repositories\<close>.\<close>

definition ensure_package_retention_status_row :: "uuid \<Rightarrow> ('z, unit) job" where
  "ensure_package_retention_status_row repository_id =
     try_sql JobDatabase
       (\<lambda>s. case retention_status s repository_id of
               Some _ \<Rightarrow> Inr ((), s)
             | None \<Rightarrow>
                 if repository_id \<notin> set (cat_repositories s) then Inl JobDatabase
                 else Inr ((), s\<lparr>retention_status :=
                        (retention_status s)(repository_id \<mapsto> new_status_row (cat_now s))\<rparr>))"

definition update_retention_row ::
  "uuid \<Rightarrow> (instant \<Rightarrow> i32 status_row \<Rightarrow> i32 status_row) \<Rightarrow> ('z, unit) job" where
  "update_retention_row repository_id f =
     update_sql JobDatabase
       (\<lambda>s. case retention_status s repository_id of
               None \<Rightarrow> s
             | Some r \<Rightarrow> s\<lparr>retention_status := (retention_status s)(repository_id \<mapsto> f (cat_now s) r)\<rparr>)"

definition try_mark_package_retention_started :: "(nat list \<Rightarrow> nat) \<Rightarrow> uuid \<Rightarrow> ('z, advisory_lock option) job" where
  "try_mark_package_retention_started pick repository_id =
     try_mark_started pick (package_retention_advisory_key repository_id)
       (ensure_package_retention_status_row repository_id) (update_retention_row repository_id started_row)"

definition mark_package_retention_succeeded :: "uuid \<Rightarrow> nat \<Rightarrow> ('z, unit) job" where
  "mark_package_retention_succeeded repository_id deleted_count =
     bind_ok (ensure_package_retention_status_row repository_id)
       (\<lambda>_. update_retention_row repository_id (\<lambda>at. succeeded_row at (of_nat deleted_count)))"

definition mark_package_retention_failed :: "uuid \<Rightarrow> string \<Rightarrow> ('z, unit) job" where
  "mark_package_retention_failed repository_id error =
     bind_ok (ensure_package_retention_status_row repository_id)
       (\<lambda>_. update_retention_row repository_id (\<lambda>at. failed_row at error))"

definition ensure_deb_proxy_refresh_status_row :: "uuid \<Rightarrow> ('z, unit) job" where
  "ensure_deb_proxy_refresh_status_row repository_id =
     try_sql JobDatabase
       (\<lambda>s. case refresh_status s repository_id of
               Some _ \<Rightarrow> Inr ((), s)
             | None \<Rightarrow>
                 if repository_id \<notin> set (cat_repositories s) then Inl JobDatabase
                 else Inr ((), s\<lparr>refresh_status :=
                        (refresh_status s)(repository_id \<mapsto> new_status_row (cat_now s))\<rparr>))"

definition update_refresh_row ::
  "uuid \<Rightarrow> (instant \<Rightarrow> (i32 \<times> i32) status_row \<Rightarrow> (i32 \<times> i32) status_row) \<Rightarrow> ('z, unit) job" where
  "update_refresh_row repository_id f =
     update_sql JobDatabase
       (\<lambda>s. case refresh_status s repository_id of
               None \<Rightarrow> s
             | Some r \<Rightarrow> s\<lparr>refresh_status := (refresh_status s)(repository_id \<mapsto> f (cat_now s) r)\<rparr>)"

definition try_mark_deb_proxy_refresh_started :: "(nat list \<Rightarrow> nat) \<Rightarrow> uuid \<Rightarrow> ('z, advisory_lock option) job" where
  "try_mark_deb_proxy_refresh_started pick repository_id =
     try_mark_started pick (deb_proxy_refresh_advisory_key repository_id)
       (ensure_deb_proxy_refresh_status_row repository_id) (update_refresh_row repository_id started_row)"

record refresh_summary =
  rs_downloaded_packages :: nat
  rs_downloaded_files :: nat

definition mark_deb_proxy_refresh_succeeded :: "uuid \<Rightarrow> refresh_summary \<Rightarrow> ('z, unit) job" where
  "mark_deb_proxy_refresh_succeeded repository_id summary =
     bind_ok (ensure_deb_proxy_refresh_status_row repository_id)
       (\<lambda>_. update_refresh_row repository_id
              (\<lambda>at. succeeded_row at (of_nat (rs_downloaded_packages summary), of_nat (rs_downloaded_files summary))))"

definition mark_deb_proxy_refresh_failed :: "uuid \<Rightarrow> string \<Rightarrow> ('z, unit) job" where
  "mark_deb_proxy_refresh_failed repository_id error =
     bind_ok (ensure_deb_proxy_refresh_status_row repository_id)
       (\<lambda>_. update_refresh_row repository_id (\<lambda>at. failed_row at error))"

section \<open>Package retention\<close>

record retention_config =
  rc_enabled :: bool
  rc_max_age_days :: u64
  rc_keep_latest_per_package :: u32

definition default_retention_config :: retention_config where
  "default_retention_config = \<lparr>rc_enabled = False, rc_max_age_days = 30, rc_keep_latest_per_package = 1\<rparr>"

definition validate_retention_config :: "(string \<Rightarrow> retention_config option) \<Rightarrow> string \<Rightarrow> string + unit" where
  "validate_retention_config parse_retention config =
     (case parse_retention config of
        None \<Rightarrow> Inl ''invalid json''
      | Some c \<Rightarrow>
          if rc_max_age_days c = 0 then Inl ''max_age_days must be greater than or equal to 1'' else Inr ())"

definition get_package_retention_config ::
  "(string \<Rightarrow> retention_config option) \<Rightarrow> uuid \<Rightarrow> ('z, retention_config) job" where
  "get_package_retention_config parse_retention repository_id =
     bind_ok (select_sql JobDatabase (\<lambda>s. repository_configs s (repository_id, ''package_retention'')))
       (\<lambda>row. case row of
                None \<Rightarrow> ret default_retention_config
              | Some value \<Rightarrow> (case parse_retention value of None \<Rightarrow> fail JobDatabase | Some c \<Rightarrow> ret c))"

record retention_run =
  run_candidates :: nat
  run_deleted :: nat

definition run_locked_package_retention ::
  "(instant \<Rightarrow> i64 \<Rightarrow> instant option) \<Rightarrow> (uuid \<Rightarrow> string list \<Rightarrow> ('z, nat) job) \<Rightarrow> uuid \<Rightarrow> retention_config \<Rightarrow>
     instant \<Rightarrow> ('z, retention_run) job" where
  "run_locked_package_retention sub_days delete_paths repository_id config at =
     (case sub_days at (rc_max_age_days config) of
        None \<Rightarrow> fail JobPanic
      | Some cutoff \<Rightarrow>
          bind_ok (map_err (\<lambda>_. JobDatabase)
            (retention_candidates repository_id cutoff (int (unat (rc_keep_latest_per_package config)))))
            (\<lambda>candidates.
               if candidates = [] then ret \<lparr>run_candidates = 0, run_deleted = 0\<rparr>
               else
                 bind_ok (delete_paths repository_id (map pf_path candidates)) (\<lambda>deleted.
                   ret \<lparr>run_candidates = length candidates, run_deleted = deleted\<rparr>)))"

definition error_text :: "job_error \<Rightarrow> string" where
  "error_text e = (case e of JobFailed t \<Rightarrow> t | _ \<Rightarrow> ''database error'')"

text \<open>The run under its lock and what follows it; a panic drops the guard and nothing else.\<close>

definition guarded_retention ::
  "(uuid \<Rightarrow> ('z, retention_run) job) \<Rightarrow> uuid \<Rightarrow> advisory_lock \<Rightarrow> ('z, retention_run option) job" where
  "guarded_retention work repository_id lock s =
     (case work repository_id s of
        (Inl JobPanic, t) \<Rightarrow> (Inl JobPanic, return_connection (snd lock) t)
      | (run_result, t) \<Rightarrow>
          (case (case run_result of
                   Inr summary \<Rightarrow> mark_package_retention_succeeded repository_id (run_deleted summary)
                 | Inl e \<Rightarrow> mark_package_retention_failed repository_id (error_text e)) t of
             (status_result, u) \<Rightarrow>
               (case release lock u of
                  (release_result, v) \<Rightarrow>
                    (case status_result of
                       Inl e \<Rightarrow> (Inl e, v)
                     | Inr _ \<Rightarrow>
                         (case release_result of
                            Inl e \<Rightarrow> (Inl e, v)
                          | Inr _ \<Rightarrow> (map_sum (\<lambda>e. e) Some run_result, v))))))"

definition run_package_retention_for_repository ::
  "(nat list \<Rightarrow> nat) \<Rightarrow> (string \<Rightarrow> retention_config option) \<Rightarrow> (instant \<Rightarrow> i64 \<Rightarrow> instant option) \<Rightarrow>
     (uuid \<Rightarrow> string list \<Rightarrow> ('z, nat) job) \<Rightarrow> uuid \<Rightarrow> instant \<Rightarrow> ('z, retention_run option) job" where
  "run_package_retention_for_repository pick parse_retention sub_days delete_paths repository_id at s =
     (case loaded_repositories s repository_id of
        None \<Rightarrow> (Inr None, s)
      | Some kind \<Rightarrow>
          if kind = VirtualKind then (Inr None, s)
          else
            bind_ok (get_package_retention_config parse_retention repository_id) (\<lambda>config.
              if \<not> rc_enabled config then ret (Some \<lparr>run_candidates = 0, run_deleted = 0\<rparr>)
              else
                bind_ok (try_mark_package_retention_started pick repository_id) (\<lambda>lock.
                  case lock of
                    None \<Rightarrow> ret None
                  | Some l \<Rightarrow>
                      guarded_retention
                        (\<lambda>i. run_locked_package_retention sub_days delete_paths i config at)
                        repository_id l)) s)"

text \<open>\<open>num_hours\<close> and \<open>num_seconds\<close> round towards zero.\<close>

definition trunc_div :: "int \<Rightarrow> int \<Rightarrow> int" where
  "trunc_div a b = (if 0 \<le> a then a div b else - (- a div b))"

definition num_seconds :: "int \<Rightarrow> int" where
  "num_seconds d = trunc_div d 1000000000"

definition num_hours :: "int \<Rightarrow> int" where
  "num_hours d = trunc_div (num_seconds d) 3600"

definition package_retention_interval_hours :: int where
  "package_retention_interval_hours = 24"

definition retention_is_due :: "instant \<Rightarrow> instant option \<Rightarrow> bool" where
  "retention_is_due at last_started_at =
     (case last_started_at of
        None \<Rightarrow> True
      | Some started \<Rightarrow> package_retention_interval_hours \<le> num_hours (at - started))"

definition list_scheduled_package_retention_repositories ::
  "(string \<Rightarrow> retention_config option) \<Rightarrow> ('z, (uuid \<times> instant option) list) job" where
  "list_scheduled_package_retention_repositories parse_retention =
     select_sql JobDatabase
       (\<lambda>s. concat (map (\<lambda>r.
              case repository_configs s (jr_id r, ''package_retention'') of
                None \<Rightarrow> []
              | Some value \<Rightarrow>
                  (case parse_retention value of
                     None \<Rightarrow> []
                   | Some config \<Rightarrow>
                       if rc_enabled config
                       then [(jr_id r, Option.bind (retention_status s (jr_id r)) sr_last_started_at)] else []))
              (filter jr_active (job_repositories s))))"

record tick_summary =
  ts_due_repositories :: nat
  ts_started :: nat
  ts_skipped_running :: nat
  ts_succeeded :: nat
  ts_failed :: nat
  ts_deleted :: nat

definition empty_tick :: tick_summary where
  "empty_tick = \<lparr>ts_due_repositories = 0, ts_started = 0, ts_skipped_running = 0, ts_succeeded = 0,
     ts_failed = 0, ts_deleted = 0\<rparr>"

text \<open>\<open>run\<close> is \<open>run_package_retention_for_repository\<close>; its errors are counted, a panic ends the task.\<close>

fun retention_tick_loop ::
  "(uuid \<Rightarrow> ('z, retention_run option) job) \<Rightarrow> instant \<Rightarrow> tick_summary \<Rightarrow> (uuid \<times> instant option) list \<Rightarrow>
     ('z, tick_summary) job" where
  "retention_tick_loop run at summary [] s = (Inr summary, s)"
| "retention_tick_loop run at summary ((repository_id, started) # rest) s =
     (if \<not> retention_is_due at started then retention_tick_loop run at summary rest s
      else
        (let begun = summary\<lparr>ts_due_repositories := ts_due_repositories summary + 1,
                             ts_started := ts_started summary + 1\<rparr>
         in case run repository_id s of
              (Inr (Some r), t) \<Rightarrow>
                retention_tick_loop run at
                  (begun\<lparr>ts_succeeded := ts_succeeded begun + 1, ts_deleted := ts_deleted begun + run_deleted r\<rparr>) rest t
            | (Inr None, t) \<Rightarrow>
                retention_tick_loop run at (begun\<lparr>ts_skipped_running := ts_skipped_running begun + 1\<rparr>) rest t
            | (Inl JobPanic, t) \<Rightarrow> (Inl JobPanic, t)
            | (Inl e, t) \<Rightarrow> retention_tick_loop run at (begun\<lparr>ts_failed := ts_failed begun + 1\<rparr>) rest t))"

definition package_retention_scheduler_tick ::
  "(nat list \<Rightarrow> nat) \<Rightarrow> (string \<Rightarrow> retention_config option) \<Rightarrow> (instant \<Rightarrow> i64 \<Rightarrow> instant option) \<Rightarrow>
     (uuid \<Rightarrow> string list \<Rightarrow> ('z, nat) job) \<Rightarrow> instant \<Rightarrow> ('z, tick_summary) job" where
  "package_retention_scheduler_tick pick parse_retention sub_days delete_paths at =
     bind_ok (list_scheduled_package_retention_repositories parse_retention) (\<lambda>scheduled.
       retention_tick_loop
         (\<lambda>i. run_package_retention_for_repository pick parse_retention sub_days delete_paths i at)
         at empty_tick scheduled)"

section \<open>Configuration of Debian repositories\<close>

datatype refresh_schedule = IntervalSeconds u64 | Cron string

record refresh_config =
  rf_enabled :: bool
  rf_schedule :: refresh_schedule

datatype proxy_layout =
    Dists "string list" "string list" "string list"
  | Flat string "string list"

record deb_proxy_config =
  dp_upstream_url :: string
  dp_layout :: proxy_layout
  dp_refresh :: "refresh_config option"

text \<open>\<open>HostedDeb\<close> has the distributions, components and architectures.\<close>

datatype deb_config = HostedDeb "string list" "string list" "string list" | ProxyDeb deb_proxy_config

definition default_deb_config :: deb_config where
  "default_deb_config = HostedDeb [''stable''] [''main''] [''amd64'', ''all'']"

definition is_same_type :: "deb_config \<Rightarrow> deb_config \<Rightarrow> bool" where
  "is_same_type a b =
     (case (a, b) of
        (HostedDeb _ _ _, HostedDeb _ _ _) \<Rightarrow> True
      | (ProxyDeb _, ProxyDeb _) \<Rightarrow> True
      | _ \<Rightarrow> False)"

datatype config_error = InvalidConfig string | InvalidChange string | InvalidJson

definition normalize_cron_expression :: "string \<Rightarrow> string + string" where
  "normalize_cron_expression expression =
     (let parts = split_ws expression
      in if length parts = 5 then Inr (''0 '' @ join_with '' '' parts @ [CHR '' '', CHR ''*''])
         else if length parts = 6 then Inr (join_with '' '' parts @ [CHR '' '', CHR ''*''])
         else if length parts = 7 then Inr (join_with '' '' parts)
         else Inl ''Cron expression must have 5, 6, or 7 fields'')"

definition validate_refresh_config :: "(string \<Rightarrow> 'c option) \<Rightarrow> refresh_config \<Rightarrow> config_error + unit" where
  "validate_refresh_config cron_parse refresh =
     (if \<not> rf_enabled refresh then Inr ()
      else
        (case rf_schedule refresh of
           IntervalSeconds interval \<Rightarrow>
             if interval = 0 then Inl (InvalidConfig ''Interval seconds must be greater than 0'') else Inr ()
         | Cron expression \<Rightarrow>
             (case normalize_cron_expression expression of
                Inl e \<Rightarrow> Inl (InvalidConfig e)
              | Inr normalized \<Rightarrow>
                  (case cron_parse normalized of
                     None \<Rightarrow> Inl (InvalidConfig ''Invalid cron expression'')
                   | Some _ \<Rightarrow> Inr ()))))"

definition identifier_char :: "char \<Rightarrow> bool" where
  "identifier_char c = (is_ascii_alnum c \<or> c = CHR ''-'' \<or> c = CHR ''_'' \<or> c = CHR ''.'')"

definition is_valid_identifier :: "string \<Rightarrow> bool" where
  "is_valid_identifier value = (value \<noteq> [] \<and> length value \<le> 64 \<and> list_all identifier_char value)"

definition validate_optional_identifier_list :: "string list \<Rightarrow> config_error + unit" where
  "validate_optional_identifier_list values =
     (if list_all is_valid_identifier values then Inr ()
      else Inl (InvalidConfig (''Values may only contain alphanumeric characters, '-', '_' or '.'' @ [CHR 0x27])))"

definition validate_identifier_list :: "string list \<Rightarrow> string \<Rightarrow> config_error + unit" where
  "validate_identifier_list values empty_error =
     (if values = [] then Inl (InvalidConfig empty_error) else validate_optional_identifier_list values)"

text \<open>\<open>a?; b\<close> on results without a value.\<close>

definition and_then :: "'e + unit \<Rightarrow> 'e + unit \<Rightarrow> 'e + unit" where
  "and_then a b = (case a of Inl e \<Rightarrow> Inl e | Inr _ \<Rightarrow> b)"

definition validate_repository_lists :: "string list \<Rightarrow> string list \<Rightarrow> string list \<Rightarrow> config_error + unit" where
  "validate_repository_lists distributions components architectures =
     and_then (validate_identifier_list distributions ''At least one distribution is required'')
       (and_then (validate_identifier_list components ''At least one component is required'')
          (validate_identifier_list architectures ''At least one architecture is required''))"

definition validate_layout :: "proxy_layout \<Rightarrow> config_error + unit" where
  "validate_layout layout =
     (case layout of
        Dists distributions components architectures \<Rightarrow>
          validate_repository_lists distributions components architectures
      | Flat distribution architectures \<Rightarrow>
          if trim distribution = [] then Inl (InvalidConfig ''Flat distribution is required'')
          else validate_optional_identifier_list architectures)"

definition validate_deb_config ::
  "(string \<Rightarrow> deb_config option) \<Rightarrow> (string \<Rightarrow> 'c option) \<Rightarrow> (string \<Rightarrow> egress_error + unit) \<Rightarrow> string \<Rightarrow>
     config_error + unit" where
  "validate_deb_config parse_deb cron_parse proxy_url_ok config =
     (case parse_deb config of
        None \<Rightarrow> Inl InvalidJson
      | Some (HostedDeb distributions components architectures) \<Rightarrow>
          validate_repository_lists distributions components architectures
      | Some (ProxyDeb proxy) \<Rightarrow>
          and_then (validate_layout (dp_layout proxy))
            (and_then
               (case dp_refresh proxy of None \<Rightarrow> Inr () | Some refresh \<Rightarrow> validate_refresh_config cron_parse refresh)
               (case proxy_url_ok (dp_upstream_url proxy) of
                  Inl _ \<Rightarrow> Inl (InvalidConfig ''Proxy route URL is blocked by egress policy'')
                | Inr _ \<Rightarrow> Inr ())))"

definition validate_deb_change ::
  "(string \<Rightarrow> deb_config option) \<Rightarrow> (string \<Rightarrow> 'c option) \<Rightarrow> (string \<Rightarrow> egress_error + unit) \<Rightarrow> string \<Rightarrow> string \<Rightarrow>
     config_error + unit" where
  "validate_deb_change parse_deb cron_parse proxy_url_ok old new =
     (case parse_deb new of
        None \<Rightarrow> Inl InvalidJson
      | Some new_decoded \<Rightarrow>
          (case parse_deb old of
             None \<Rightarrow> Inl InvalidJson
           | Some old_decoded \<Rightarrow>
               if \<not> is_same_type old_decoded new_decoded
               then Inl (InvalidChange ''Cannot change the type of Debian Repository'')
               else validate_deb_config parse_deb cron_parse proxy_url_ok new))"

section \<open>The schedule of mirrors\<close>

definition refresh_is_due ::
  "(string \<Rightarrow> 'c option) \<Rightarrow> ('c \<Rightarrow> instant \<Rightarrow> instant option) \<Rightarrow> instant \<Rightarrow> refresh_schedule \<Rightarrow> instant option \<Rightarrow> bool"
where
  "refresh_is_due cron_parse cron_after at schedule last_started_at =
     (case schedule of
        IntervalSeconds interval \<Rightarrow>
          (case last_started_at of
             None \<Rightarrow> True
           | Some started \<Rightarrow> sint (interval :: i64) \<le> num_seconds (at - started))
      | Cron expression \<Rightarrow>
          (case normalize_cron_expression expression of
             Inl _ \<Rightarrow> False
           | Inr normalized \<Rightarrow>
               (case cron_parse normalized of
                  None \<Rightarrow> False
                | Some cron \<Rightarrow>
                    (case cron_after cron
                            (case last_started_at of Some started \<Rightarrow> started | None \<Rightarrow> at - 60 * 1000000000) of
                       None \<Rightarrow> False
                     | Some next_run \<Rightarrow> next_run \<le> at))))"

text \<open>The outer option is \<open>None\<close> when chrono panics.\<close>

definition next_run_at ::
  "(instant \<Rightarrow> i64 \<Rightarrow> instant option) \<Rightarrow> (string \<Rightarrow> 'c option) \<Rightarrow> ('c \<Rightarrow> instant \<Rightarrow> instant option) \<Rightarrow>
     instant \<Rightarrow> refresh_schedule \<Rightarrow> instant option \<Rightarrow> instant option option" where
  "next_run_at add_seconds cron_parse cron_after at schedule last_started_at =
     (case schedule of
        IntervalSeconds interval \<Rightarrow>
          (case last_started_at of
             Some started \<Rightarrow> map_option Some (add_seconds started interval)
           | None \<Rightarrow> Some (Some at))
      | Cron expression \<Rightarrow>
          (case normalize_cron_expression expression of
             Inl _ \<Rightarrow> Some None
           | Inr normalized \<Rightarrow>
               (case cron_parse normalized of None \<Rightarrow> Some None | Some cron \<Rightarrow> Some (cron_after cron at))))"

definition list_scheduled_deb_proxy_repositories ::
  "(string \<Rightarrow> deb_config option) \<Rightarrow> ('z, (uuid \<times> refresh_schedule \<times> instant option) list) job" where
  "list_scheduled_deb_proxy_repositories parse_deb =
     select_sql JobDatabase
       (\<lambda>s. concat (map (\<lambda>r.
              case Option.bind (repository_configs s (jr_id r, ''deb'')) parse_deb of
                Some (ProxyDeb proxy) \<Rightarrow>
                  (case dp_refresh proxy of
                     None \<Rightarrow> []
                   | Some refresh \<Rightarrow>
                       if rf_enabled refresh
                       then [(jr_id r, rf_schedule refresh,
                              Option.bind (refresh_status s (jr_id r)) sr_last_started_at)] else [])
              | _ \<Rightarrow> [])
              (filter (\<lambda>r. jr_type r = ''deb'' \<and> jr_active r) (job_repositories s))))"

text \<open>\<open>refresh_mirror\<close> returns the summary or the text of an error.\<close>

definition run_deb_proxy_scheduled_refresh ::
  "(nat list \<Rightarrow> nat) \<Rightarrow> (uuid \<Rightarrow> 'z job_db_scheme \<Rightarrow> (string + refresh_summary) \<times> 'z job_db_scheme) \<Rightarrow> uuid \<Rightarrow>
     ('z, bool) job" where
  "run_deb_proxy_scheduled_refresh pick refresh_mirror repository_id =
     bind_ok (try_mark_deb_proxy_refresh_started pick repository_id) (\<lambda>lock.
       case lock of
         None \<Rightarrow> ret False
       | Some l \<Rightarrow>
           (\<lambda>s. case refresh_mirror repository_id s of
              (result, t) \<Rightarrow>
                (case (case result of
                         Inr summary \<Rightarrow> mark_deb_proxy_refresh_succeeded repository_id summary
                       | Inl e \<Rightarrow> mark_deb_proxy_refresh_failed repository_id e) t of
                   (Inl e, u) \<Rightarrow> (Inl e, snd (release l u))
                 | (Inr _, u) \<Rightarrow>
                     (case release l u of (Inl e, v) \<Rightarrow> (Inl e, v) | (Inr _, v) \<Rightarrow> (Inr True, v)))))"

fun deb_tick_loop ::
  "(uuid \<Rightarrow> ('z, bool) job) \<Rightarrow> (refresh_schedule \<Rightarrow> instant option \<Rightarrow> bool) \<Rightarrow> tick_summary \<Rightarrow>
     (uuid \<times> refresh_schedule \<times> instant option) list \<Rightarrow> ('z, tick_summary) job" where
  "deb_tick_loop run is_due summary [] s = (Inr summary, s)"
| "deb_tick_loop run is_due summary ((repository_id, schedule, started) # rest) s =
     (if \<not> is_due schedule started then deb_tick_loop run is_due summary rest s
      else
        (let due = summary\<lparr>ts_due_repositories := ts_due_repositories summary + 1\<rparr>
         in if loaded_repositories s repository_id \<noteq> Some DebProxyKind
            then deb_tick_loop run is_due due rest s
            else
              (let begun = due\<lparr>ts_started := ts_started due + 1\<rparr>
               in case run repository_id s of
                    (Inr True, t) \<Rightarrow>
                      deb_tick_loop run is_due (begun\<lparr>ts_succeeded := ts_succeeded begun + 1\<rparr>) rest t
                  | (Inr False, t) \<Rightarrow>
                      deb_tick_loop run is_due (begun\<lparr>ts_skipped_running := ts_skipped_running begun + 1\<rparr>) rest t
                  | (Inl e, t) \<Rightarrow>
                      deb_tick_loop run is_due (begun\<lparr>ts_failed := ts_failed begun + 1\<rparr>) rest t)))"

definition deb_proxy_scheduler_tick ::
  "(nat list \<Rightarrow> nat) \<Rightarrow> (string \<Rightarrow> deb_config option) \<Rightarrow> (string \<Rightarrow> 'c option) \<Rightarrow> ('c \<Rightarrow> instant \<Rightarrow> instant option) \<Rightarrow>
     (uuid \<Rightarrow> 'z job_db_scheme \<Rightarrow> (string + refresh_summary) \<times> 'z job_db_scheme) \<Rightarrow> instant \<Rightarrow> ('z, tick_summary) job"
where
  "deb_proxy_scheduler_tick pick parse_deb cron_parse cron_after refresh_mirror at =
     bind_ok (list_scheduled_deb_proxy_repositories parse_deb) (\<lambda>scheduled.
       deb_tick_loop (run_deb_proxy_scheduled_refresh pick refresh_mirror)
         (refresh_is_due cron_parse cron_after at) empty_tick scheduled)"

text \<open>The manual refresh of the API, after its permission check.\<close>

datatype refresh_response = RepositoryNotFound | NotADebProxy | RefreshRunning | RefreshDone refresh_summary | RefreshFailed string

definition deb_refresh ::
  "(nat list \<Rightarrow> nat) \<Rightarrow> (uuid \<Rightarrow> 'z job_db_scheme \<Rightarrow> (string + refresh_summary) \<times> 'z job_db_scheme) \<Rightarrow> uuid \<Rightarrow>
     ('z, refresh_response) job" where
  "deb_refresh pick refresh_mirror repository_id s =
     (case loaded_repositories s repository_id of
        None \<Rightarrow> (Inr RepositoryNotFound, s)
      | Some kind \<Rightarrow>
          if kind \<noteq> DebProxyKind then (Inr NotADebProxy, s)
          else
            bind_ok (try_mark_deb_proxy_refresh_started pick repository_id) (\<lambda>lock.
              case lock of
                None \<Rightarrow> ret RefreshRunning
              | Some l \<Rightarrow>
                  (\<lambda>s. case refresh_mirror repository_id s of
                     (result, t) \<Rightarrow>
                       (case (case result of
                                Inr summary \<Rightarrow> mark_deb_proxy_refresh_succeeded repository_id summary
                              | Inl e \<Rightarrow> mark_deb_proxy_refresh_failed repository_id e) t of
                          (status_update, u) \<Rightarrow>
                            (case release l u of
                               (release_result, v) \<Rightarrow>
                                 (case status_update of
                                    Inl e \<Rightarrow> (Inl e, v)
                                  | Inr _ \<Rightarrow>
                                      (case release_result of
                                         Inl e \<Rightarrow> (Inl e, v)
                                       | Inr _ \<Rightarrow>
                                           (Inr (case result of Inr summary \<Rightarrow> RefreshDone summary
                                                              | Inl e \<Rightarrow> RefreshFailed e), v))))))) s)"

section \<open>Statements that leave the locks alone\<close>

definition same_locks :: "'z job_db_scheme \<Rightarrow> 'z job_db_scheme \<Rightarrow> bool" where
  "same_locks s t \<longleftrightarrow> locks t = locks s \<and> in_use t = in_use s"

interpretation lock_frame: frame same_locks
  by unfold_locales (simp_all add: same_locks_def)

lemma same_locks_status [simp]:
  "same_locks s (s\<lparr>retention_status := m\<rparr>)" "same_locks s (s\<lparr>refresh_status := n\<rparr>)"
  by (simp_all add: same_locks_def)

lemma status_rows_frame [frame_intros]:
  "preserves same_locks (ensure_package_retention_status_row i)"
  "preserves same_locks (ensure_deb_proxy_refresh_status_row i)"
  "preserves same_locks (update_retention_row i f)" "preserves same_locks (update_refresh_row i g)"
  unfolding ensure_package_retention_status_row_def ensure_deb_proxy_refresh_status_row_def
    update_retention_row_def update_refresh_row_def
  by (rule lock_frame.frame_try lock_frame.frame_update; auto split: option.splits if_splits)+

lemma marks_frame [frame_intros]:
  "preserves same_locks (mark_package_retention_succeeded i n)"
  "preserves same_locks (mark_package_retention_failed i e)"
  "preserves same_locks (mark_deb_proxy_refresh_succeeded i summary)"
  "preserves same_locks (mark_deb_proxy_refresh_failed i e)"
  unfolding mark_package_retention_succeeded_def mark_package_retention_failed_def
    mark_deb_proxy_refresh_succeeded_def mark_deb_proxy_refresh_failed_def
  by (intro frame_intros)+

lemma retention_config_frame [frame_intros]: "preserves same_locks (get_package_retention_config parse i)"
  unfolding get_package_retention_config_def by (intro frame_intros)

lemma locked_run_frame:
  assumes "\<And>i paths. preserves same_locks (delete_paths i paths)"
  shows "preserves same_locks (run_locked_package_retention sub_days delete_paths i config at)"
  unfolding run_locked_package_retention_def retention_candidates_def
  by (intro frame_intros assms)

section \<open>What taking and releasing a lock does\<close>

definition lock_free :: "i64 \<Rightarrow> nat \<Rightarrow> (i64 \<times> nat) list \<Rightarrow> bool" where
  "lock_free key c ls \<longleftrightarrow> (\<forall>d. (key, d) \<in> set ls \<longrightarrow> d = c)"

lemma try_lock_cases:
  assumes "pg_try_advisory_lock key c s = (r, t)"
  obtains (refused) bs where "t = s\<lparr>faults := bs\<rparr>" "r \<noteq> Inr True"
  | (locked) bs where "t = s\<lparr>faults := bs, locks := (key, c) # locks s\<rparr>" "r = Inr True"
      "lock_free key c (locks s)"
proof (cases r)
  case (Inl e)
  then have "\<exists>bs. t = s\<lparr>faults := bs\<rparr>"
    using assms by (auto simp: pg_try_advisory_lock_def exec_sql_def split: list.splits if_splits)
  with Inl refused show thesis by blast
next
  case (Inr b)
  note f = exec_sql_Inr [OF assms [unfolded Inr pg_try_advisory_lock_def]]
  show thesis
  proof (cases "list_ex (\<lambda>(k, d). k = key \<and> d \<noteq> c) (locks s)")
    case True
    with f show thesis using refused [of "tl (faults s)"] Inr by simp
  next
    case False
    then have "lock_free key c (locks s)" by (auto simp: lock_free_def list_ex_iff)
    with f False show thesis using locked [of "tl (faults s)"] Inr by simp
  qed
qed

lemma acquire_cases:
  assumes "acquire_connection pick s = (r, t)"
  obtains (failed) e bs where "r = Inl e" "t = s\<lparr>faults := bs\<rparr>"
  | (acquired) bs where "r = Inr (pick (in_use s))" "t = s\<lparr>faults := bs, in_use := pick (in_use s) # in_use s\<rparr>"
proof (cases r)
  case (Inl e)
  then have "\<exists>bs. t = s\<lparr>faults := bs\<rparr>"
    using assms by (auto simp: acquire_connection_def exec_sql_def Let_def split: list.splits if_splits)
  with Inl failed show thesis by blast
next
  case (Inr c)
  from exec_sql_Inr [OF assms [unfolded Inr acquire_connection_def]]
  have "c = pick (in_use s)" "t = s\<lparr>faults := tl (faults s), in_use := pick (in_use s) # in_use s\<rparr>"
    by (auto simp: Let_def)
  with Inr show thesis using acquired by blast
qed

text \<open>A start that does not take the lock leaves the locks as they were, except that after a failed
  status update the connection is closed with what it held.\<close>

lemma try_mark_cases:
  assumes run: "try_mark_started pick key ensure_row mark s = (r, t)"
    and fr: "preserves same_locks ensure_row" "preserves same_locks mark"
  obtains (refused) "\<And>l. r \<noteq> Inr (Some l)" "same_locks s t"
  | (closed) e where "r = Inl e" "in_use t = in_use s"
      "locks t = filter (\<lambda>(k, d). d \<noteq> pick (in_use s)) (locks s)"
  | (acquired) c where "r = Inr (Some (key, c))" "c = pick (in_use s)" "locks t = (key, c) # locks s"
      "in_use t = c # in_use s" "lock_free key c (locks s)"
proof -
  obtain r1 s1 where a: "acquire_connection pick s = (r1, s1)" by fastforce
  from a show thesis
  proof (cases rule: acquire_cases)
    case (failed e bs)
    then have "r = Inl e" "t = s\<lparr>faults := bs\<rparr>" using run a by (simp_all add: try_mark_started_def)
    then show thesis using refused lock_frame.same_faults by auto
  next
    case (acquired bs)
    let ?c = "pick (in_use s)"
    obtain r2 s2 where l: "pg_try_advisory_lock key ?c s1 = (r2, s2)" by fastforce
    note run' = run [unfolded try_mark_started_def bind_ok_def a acquired(1), simplified, unfolded l, simplified]
    from l show thesis
    proof (cases rule: try_lock_cases)
      case (refused bs')
      then have "(\<forall>l. r \<noteq> Inr (Some l)) \<and> t = return_connection ?c s2"
        using run' by (auto split: sum.splits)
      moreover have "same_locks s (return_connection ?c s2)"
        using refused(1) acquired(2) by (simp add: return_connection_def same_locks_def)
      ultimately have "\<And>l. r \<noteq> Inr (Some l)" "same_locks s t" by blast+
      then show thesis by (rule that(1))
    next
      case (locked bs')
      have s2: "locks s2 = (key, ?c) # locks s" "in_use s2 = ?c # in_use s" "lock_free key ?c (locks s)"
        using locked(1,3) acquired(2) by simp_all
      obtain r3 s3 where e: "ensure_row s2 = (r3, s3)" by fastforce
      have s3: "same_locks s2 s3" by (rule preservesD [OF fr(1) e])
      have shut: "in_use (close_connection ?c u) = in_use s \<and>
          locks (close_connection ?c u) = filter (\<lambda>(k, d). d \<noteq> ?c) (locks s)" if "same_locks s2 u" for u
        using that s2 by (simp add: close_connection_def same_locks_def)
      show thesis
      proof (cases r3)
        case (Inl x)
        then have "r = Inl x" "t = close_connection ?c s3" using run' locked(2) e by simp_all
        then show thesis using that(2) shut [OF s3] by simp
      next
        case (Inr x)
        obtain r4 s4 where m: "mark s3 = (r4, s4)" by fastforce
        have s4: "same_locks s2 s4" by (rule lock_frame.same_trans [OF s3 preservesD [OF fr(2) m]])
        show thesis
        proof (cases r4)
          case (Inl y)
          then have "r = Inl y" "t = close_connection ?c s4" using run' locked(2) e Inr m by simp_all
          then show thesis using that(2) shut [OF s4] by simp
        next
          case (Inr y)
          then have "r = Inr (Some (key, ?c))" "t = s4" using run' locked(2) e \<open>r3 = Inr x\<close> m by simp_all
          then show thesis using that(3) s2 s4 by (simp add: same_locks_def)
        qed
      qed
    qed
  qed
qed

lemma release_cases:
  assumes "release lock s = (r, t)"
  obtains (released) "in_use t = remove1 (snd lock) (in_use s)" "locks t = remove1 lock (locks s)" "r = Inr ()"
  | (closed) e where "in_use t = remove1 (snd lock) (in_use s)" "r = Inl e"
      "locks t = filter (\<lambda>(k, d). d \<noteq> snd lock) (locks s)"
proof -
  obtain r1 s1 where u: "pg_advisory_unlock (fst lock) (snd lock) s = (r1, s1)" by fastforce
  show thesis
  proof (cases r1)
    case (Inl e)
    then have "\<exists>bs. s1 = s\<lparr>faults := bs\<rparr>"
      using u by (auto simp: pg_advisory_unlock_def exec_sql_def split: list.splits if_splits)
    moreover have "t = close_connection (snd lock) s1" "r = Inl e" using assms u Inl by (simp_all add: release_def)
    ultimately show thesis using closed by (auto simp: close_connection_def)
  next
    case (Inr b)
    have "in_use s1 = in_use s \<and> locks s1 = remove1 lock (locks s)"
      using exec_sql_Inr [OF u [unfolded Inr pg_advisory_unlock_def]]
      by (auto simp: remove1_idem split: if_splits)
    moreover have "t = return_connection (snd lock) s1" "r = Inr ()" using assms u Inr by (simp_all add: release_def)
    ultimately show thesis using released by (simp add: return_connection_def)
  qed
qed

section \<open>Jobs of several processes\<close>

datatype job_kind = Retention | Refresh

definition job_key :: "job_kind \<Rightarrow> uuid \<Rightarrow> i64" where
  "job_key kind repository_id =
     (case kind of
        Retention \<Rightarrow> package_retention_advisory_key repository_id
      | Refresh \<Rightarrow> deb_proxy_refresh_advisory_key repository_id)"

definition start_job :: "(nat list \<Rightarrow> nat) \<Rightarrow> job_kind \<Rightarrow> uuid \<Rightarrow> ('z, advisory_lock option) job" where
  "start_job pick kind repository_id =
     (case kind of
        Retention \<Rightarrow> try_mark_package_retention_started pick repository_id
      | Refresh \<Rightarrow> try_mark_deb_proxy_refresh_started pick repository_id)"

text \<open>The database and the jobs between their start and the end of their guard.\<close>

record job_system =
  js_db :: job_db
  js_running :: "(job_kind \<times> uuid \<times> advisory_lock) list"

text \<open>Any process may start a job, do work that leaves the locks alone, use connections of the pool,
  end a job (releasing the lock), panic in it (dropping the guard) or die (losing the session).\<close>

inductive job_step :: "(nat list \<Rightarrow> nat) \<Rightarrow> job_system \<Rightarrow> job_system \<Rightarrow> bool" for pick where
  start: "start_job pick kind i (js_db x) = (r, db) \<Longrightarrow>
     job_step pick x (x\<lparr>js_db := db,
       js_running := (case r of Inr (Some l) \<Rightarrow> (kind, i, l) # js_running x | _ \<Rightarrow> js_running x)\<rparr>)"
| work: "same_locks (js_db x) db \<Longrightarrow> job_step pick x (x\<lparr>js_db := db\<rparr>)"
| take: "acquire_connection pick (js_db x) = (r', db) \<Longrightarrow> job_step pick x (x\<lparr>js_db := db\<rparr>)"
| give: "c \<notin> (snd \<circ> snd \<circ> snd) ` set (js_running x) \<Longrightarrow>
     job_step pick x (x\<lparr>js_db := return_connection c (js_db x)\<rparr>)"
| finish: "(kind, i, l) \<in> set (js_running x) \<Longrightarrow> release l (js_db x) = (r'', db) \<Longrightarrow>
     job_step pick x (x\<lparr>js_db := db, js_running := remove1 (kind, i, l) (js_running x)\<rparr>)"
| panic: "(kind, i, l) \<in> set (js_running x) \<Longrightarrow>
     job_step pick x (x\<lparr>js_db := return_connection (snd l) (js_db x),
       js_running := remove1 (kind, i, l) (js_running x)\<rparr>)"
| die: "(kind, i, l) \<in> set (js_running x) \<Longrightarrow>
     job_step pick x (x\<lparr>js_db := close_connection (snd l) (js_db x),
       js_running := remove1 (kind, i, l) (js_running x)\<rparr>)"

inductive job_reachable :: "(nat list \<Rightarrow> nat) \<Rightarrow> job_system \<Rightarrow> bool" for pick where
  init: "locks db = [] \<Longrightarrow> in_use db = [] \<Longrightarrow> job_reachable pick \<lparr>js_db = db, js_running = []\<rparr>"
| step: "job_reachable pick x \<Longrightarrow> job_step pick x y \<Longrightarrow> job_reachable pick y"

definition held_conns :: "(job_kind \<times> uuid \<times> advisory_lock) list \<Rightarrow> nat list" where
  "held_conns js = map (\<lambda>j. snd (snd (snd j))) js"

definition single_owner :: "(i64 \<times> nat) list \<Rightarrow> bool" where
  "single_owner ls \<longleftrightarrow> (\<forall>k c d. (k, c) \<in> set ls \<and> (k, d) \<in> set ls \<longrightarrow> c = d)"

definition jobs_hold :: "job_db \<Rightarrow> (job_kind \<times> uuid \<times> advisory_lock) list \<Rightarrow> bool" where
  "jobs_hold db js \<longleftrightarrow>
     (\<forall>(kind, i, l) \<in> set js. fst l = job_key kind i \<and> l \<in> set (locks db) \<and> snd l \<in> set (in_use db))"

definition job_inv :: "job_system \<Rightarrow> bool" where
  "job_inv x \<longleftrightarrow>
     distinct (in_use (js_db x)) \<and> distinct (held_conns (js_running x)) \<and>
     single_owner (locks (js_db x)) \<and> jobs_hold (js_db x) (js_running x)"

lemma start_job_cases:
  fixes s :: "'z job_db_scheme"
  assumes "start_job pick kind i s = (r, t)"
  obtains (refused) "\<And>l. r \<noteq> Inr (Some l)" "same_locks s t"
  | (closed) e where "r = Inl e" "in_use t = in_use s"
      "locks t = filter (\<lambda>(k, d). d \<noteq> pick (in_use s)) (locks s)"
  | (acquired) c where "r = Inr (Some (job_key kind i, c))" "c = pick (in_use s)"
      "locks t = (job_key kind i, c) # locks s" "in_use t = c # in_use s" "lock_free (job_key kind i) c (locks s)"
proof -
  obtain m n :: "('z, unit) job"
    where mark: "start_job pick kind i = try_mark_started pick (job_key kind i) m n"
    and fr: "preserves same_locks m" "preserves same_locks n"
    by (cases kind) (auto simp: start_job_def job_key_def try_mark_package_retention_started_def
        try_mark_deb_proxy_refresh_started_def intro: status_rows_frame that)
  show thesis
    by (rule try_mark_cases [OF assms [unfolded mark] fr]) (use that in blast)+
qed

lemma jobs_hold_sub:
  "jobs_hold db js \<Longrightarrow> set js' \<subseteq> set js \<Longrightarrow> jobs_hold db js'"
  unfolding jobs_hold_def by blast

text \<open>Ending a job: what belongs to its connection goes, the other jobs keep theirs.\<close>

lemma job_inv_end:
  assumes inv: "job_inv x" and j: "(kind, i, l) \<in> set (js_running x)"
    and use: "in_use db = remove1 (snd l) (in_use (js_db x))"
    and lk: "set (locks db) \<subseteq> set (locks (js_db x))"
      "\<And>k d. (k, d) \<in> set (locks (js_db x)) \<Longrightarrow> d \<noteq> snd l \<Longrightarrow> (k, d) \<in> set (locks db)"
  shows "job_inv (x\<lparr>js_db := db, js_running := remove1 (kind, i, l) (js_running x)\<rparr>)"
proof -
  let ?rest = "remove1 (kind, i, l) (js_running x)"
  have dist: "distinct (held_conns (js_running x))" using inv by (simp add: job_inv_def)
  have set_rest: "set ?rest = set (js_running x) - {(kind, i, l)}"
    using dist by (simp add: held_conns_def distinct_map)
  have other: "snd (snd (snd j')) \<noteq> snd l" if "j' \<in> set ?rest" for j'
  proof
    assume same: "snd (snd (snd j')) = snd l"
    have "j' \<in> set (js_running x)" using that set_rest by simp
    moreover have "inj_on (\<lambda>j. snd (snd (snd j))) (set (js_running x))"
      using dist by (simp add: held_conns_def distinct_map)
    ultimately have "j' = (kind, i, l)" using j same by (auto simp: inj_on_def)
    with that set_rest show False by simp
  qed
  have hold: "jobs_hold db ?rest"
    unfolding jobs_hold_def
  proof (clarify, intro conjI)
    fix k' i' a b
    assume m: "(k', i', a, b) \<in> set ?rest"
    have b: "b \<noteq> snd l" using other [OF m] by simp
    have "(k', i', a, b) \<in> set (js_running x)" using m set_rest by simp
    with inv have h: "a = job_key k' i'" "(a, b) \<in> set (locks (js_db x))" "b \<in> set (in_use (js_db x))"
      unfolding job_inv_def jobs_hold_def by fastforce+
    show "fst (a, b) = job_key k' i'" using h(1) by simp
    show "(a, b) \<in> set (locks db)" using lk(2) [OF h(2) b] .
    show "snd (a, b) \<in> set (in_use db)" using h(3) b use by simp
  qed
  have d1: "distinct (in_use db)" using inv use by (simp add: job_inv_def)
  have d2: "distinct (held_conns ?rest)"
    using dist unfolding held_conns_def
    by (metis distinct_map distinct_remove1 inj_on_subset set_remove1_subset)
  have d3: "single_owner (locks db)"
    using inv lk(1) unfolding job_inv_def single_owner_def by blast
  show ?thesis using d1 d2 d3 hold by (simp add: job_inv_def)
qed

lemma job_inv_start:
  assumes pick: "\<And>cs. pick cs \<notin> set cs" and inv: "job_inv x"
    and run: "start_job pick kind i (js_db x) = (r, db)"
  shows "job_inv (x\<lparr>js_db := db,
       js_running := (case r of Inr (Some l) \<Rightarrow> (kind, i, l) # js_running x | _ \<Rightarrow> js_running x)\<rparr>)"
proof -
  let ?c = "pick (in_use (js_db x))"
  have idle: "?c \<notin> set (held_conns (js_running x))"
    using inv pick [of "in_use (js_db x)"] unfolding job_inv_def jobs_hold_def held_conns_def by fastforce
  from run show ?thesis
  proof (cases rule: start_job_cases)
    case refused
    then have "(case r of Inr (Some l) \<Rightarrow> (kind, i, l) # js_running x | _ \<Rightarrow> js_running x) = js_running x"
      by (auto split: sum.splits option.splits)
    with inv refused(2) show ?thesis by (simp add: job_inv_def same_locks_def jobs_hold_def)
  next
    case (closed e)
    have "(a, b) \<in> set (locks db)" if "(k, j, a, b) \<in> set (js_running x)" for k j a b
    proof -
      have "b \<noteq> ?c" using that idle by (force simp: held_conns_def)
      moreover have "(a, b) \<in> set (locks (js_db x))" using inv that by (fastforce simp: job_inv_def jobs_hold_def)
      ultimately show ?thesis by (simp add: closed(3))
    qed
    moreover have "single_owner (locks db)" using inv by (auto simp: job_inv_def single_owner_def closed(3))
    ultimately show ?thesis
      using inv closed(2) unfolding job_inv_def jobs_hold_def by (fastforce simp: closed(1))
  next
    case (acquired c)
    have free: "c \<notin> set (in_use (js_db x))" using pick acquired(2) by simp
    have so: "single_owner (locks db)"
      using inv acquired(5) unfolding job_inv_def single_owner_def lock_free_def acquired(3) by auto
    have hold: "jobs_hold db ((kind, i, job_key kind i, c) # js_running x)"
      using inv unfolding job_inv_def jobs_hold_def acquired(3,4) by fastforce
    have dist: "distinct (held_conns ((kind, i, job_key kind i, c) # js_running x))"
      using inv idle acquired(2) by (simp add: job_inv_def held_conns_def)
    show ?thesis using inv free so hold dist by (simp add: job_inv_def acquired(1,4))
  qed
qed

lemma job_inv_step:
  assumes pick: "\<And>cs. pick cs \<notin> set cs" and step: "job_step pick x y" and inv: "job_inv x"
  shows "job_inv y"
  using step
proof (cases rule: job_step.cases)
  case (start kind i r db)
  with job_inv_start [OF pick inv] show ?thesis by simp
next
  case (work db)
  with inv show ?thesis by (simp add: job_inv_def same_locks_def jobs_hold_def)
next
  case (take r' db)
  from take(2) show ?thesis
  proof (cases rule: acquire_cases)
    case (failed e bs)
    with take inv show ?thesis by (simp add: job_inv_def jobs_hold_def)
  next
    case (acquired bs)
    with take inv pick show ?thesis unfolding job_inv_def jobs_hold_def by fastforce
  qed
next
  case (give c)
  have "snd l \<noteq> c" if "(k, i, l) \<in> set (js_running x)" for k i l
    using that give(2) by force
  with inv give(1) show ?thesis
    unfolding job_inv_def jobs_hold_def by (fastforce simp: return_connection_def)
next
  case (finish kind i l r'' db)
  from finish(3) show ?thesis
  proof (cases rule: release_cases)
    case released
    have keep: "(k, d) \<in> set (remove1 l ls)" if "(k, d) \<in> set ls" "d \<noteq> snd l" for k d ls
      using that by (cases l) (auto simp: in_set_remove1)
    show ?thesis unfolding finish(1)
      by (rule job_inv_end [OF inv finish(2) released(1)])
        (auto simp: released(2) keep dest: set_remove1_subset [THEN subsetD])
  next
    case (closed e)
    show ?thesis unfolding finish(1)
      by (rule job_inv_end [OF inv finish(2) closed(1)]) (auto simp: closed(3))
  qed
next
  case (panic kind i l)
  show ?thesis unfolding panic(1)
    by (rule job_inv_end [OF inv panic(2)]) (simp_all add: return_connection_def)
next
  case (die kind i l)
  show ?thesis unfolding die(1)
    by (rule job_inv_end [OF inv die(2)]) (auto simp: close_connection_def)
qed

lemma job_inv_reachable:
  assumes pick: "\<And>cs. pick cs \<notin> set cs" and reach: "job_reachable pick x"
  shows "job_inv x"
  using reach
proof (induction rule: job_reachable.induct)
  case (init db)
  then show ?case by (simp add: job_inv_def held_conns_def single_owner_def jobs_hold_def)
next
  case (step x y)
  from job_inv_step [OF pick step.hyps(2) step.IH] show ?case .
qed

section \<open>Facts on a retention run\<close>

lemma acquired_fresh:
  assumes "\<forall>(k, c) \<in> set ls. c \<in> set cs" "pick cs \<notin> set cs"
  shows "filter (\<lambda>(k, d). d \<noteq> pick cs) ls = ls"
  using assms by (auto simp: filter_id_conv)

lemma release_after_acquire:
  assumes "release (key, c) u = (rel, v)" and "locks u = (key, c) # ls" "in_use u = c # cs"
    and "\<forall>(k, d) \<in> set ls. d \<in> set cs" "c \<notin> set cs"
  shows "locks v = ls \<and> in_use v = cs"
  using assms(1)
proof (cases rule: release_cases)
  case released
  then show ?thesis by (simp add: assms(2,3))
next
  case (closed e)
  have "filter (\<lambda>(k, d). d \<noteq> c) ls = ls" using assms(4,5) by (auto simp: filter_id_conv)
  with closed show ?thesis by (simp add: assms(2,3))
qed

lemma release_keeps_status: "release lock s = (r, t) \<Longrightarrow> retention_status t = retention_status s"
  by (auto simp: release_def pg_advisory_unlock_def exec_sql_def return_connection_def close_connection_def
      split: prod.splits sum.splits list.splits if_splits)

lemma succeeded_not_in_progress:
  assumes "mark_package_retention_succeeded i n s = (Inr x, t)"
  shows "\<exists>row. retention_status t i = Some row \<and> \<not> sr_in_progress row"
proof -
  obtain s1 where e: "ensure_package_retention_status_row i s = (Inr (), s1)"
    and u: "update_retention_row i (\<lambda>at. succeeded_row at (of_nat n)) s1 = (Inr x, t)"
    using assms by (auto simp: mark_package_retention_succeeded_def bind_ok_Inr_iff)
  have "\<exists>row. retention_status s1 i = Some row"
    using try_sql_Inr [OF e [unfolded ensure_package_retention_status_row_def]]
    by (auto split: option.splits if_splits)
  with update_sql_Inr [OF u [unfolded update_retention_row_def]] show ?thesis
    by (auto simp: succeeded_row_def)
qed

lemma guarded_released:
  fixes u :: "'a job_db_scheme"
  assumes run: "guarded_retention work i (key, c) u = (r, t)" and np: "r \<noteq> Inl JobPanic"
    and fr: "\<And>i. preserves same_locks (work i)"
    and u: "locks u = (key, c) # ls" "in_use u = c # cs" "\<forall>(k, d) \<in> set ls. d \<in> set cs" "c \<notin> set cs"
  shows "locks t = ls \<and> in_use t = cs \<and>
    (\<forall>summary. r = Inr (Some summary) \<longrightarrow> (\<exists>row. retention_status t i = Some row \<and> \<not> sr_in_progress row))"
proof -
  obtain res u1 where w: "work i u = (res, u1)" by fastforce
  have s1: "same_locks u u1" by (rule preservesD [OF fr w])
  have ok: "res \<noteq> Inl JobPanic" using run w np by (auto simp: guarded_retention_def)
  define mark :: "('a, unit) job" where "mark = (case res of Inr summary \<Rightarrow> mark_package_retention_succeeded i (run_deleted summary)
                 | Inl e \<Rightarrow> mark_package_retention_failed i (error_text e))"
  obtain st u2 where m: "mark u1 = (st, u2)" by fastforce
  have fm: "preserves same_locks mark" unfolding mark_def by (cases res) (simp_all add: marks_frame)
  have s2: "same_locks u u2" by (rule lock_frame.same_trans [OF s1 preservesD [OF fm m]])
  obtain rel v where rl: "release (key, c) u2 = (rel, v)" by fastforce
  have out: "(r, t) = (case st of Inl e \<Rightarrow> (Inl e, v)
       | Inr _ \<Rightarrow> (case rel of Inl e \<Rightarrow> (Inl e, v) | Inr _ \<Rightarrow> (map_sum (\<lambda>e. e) Some res, v)))"
  proof -
    have "guarded_retention work i (key, c) u = (case (mark u1) of (status_result, u) \<Rightarrow>
        (case release (key, c) u of (release_result, v) \<Rightarrow>
          (case status_result of Inl e \<Rightarrow> (Inl e, v)
           | Inr _ \<Rightarrow> (case release_result of Inl e \<Rightarrow> (Inl e, v)
                      | Inr _ \<Rightarrow> (map_sum (\<lambda>e. e) Some res, v)))))"
      using ok by (auto simp: guarded_retention_def w mark_def split: sum.splits job_error.splits)
    then show ?thesis using run by (simp add: m rl)
  qed
  then have t: "t = v" by (auto split: sum.splits)
  have lk: "locks v = ls \<and> in_use v = cs"
    by (rule release_after_acquire [OF rl _ _ u(3,4)]) (use s2 u(1,2) in \<open>simp_all add: same_locks_def\<close>)
  have "\<exists>row. retention_status t i = Some row \<and> \<not> sr_in_progress row"
    if done_r: "r = Inr (Some summary)" for summary
  proof -
    obtain x sm where st: "st = Inr x" and res: "res = Inr sm"
      using out done_r by (cases res) (auto split: sum.splits)
    from m have "mark_package_retention_succeeded i (run_deleted sm) u1 = (Inr x, u2)"
      by (simp add: mark_def res st)
    from succeeded_not_in_progress [OF this] release_keeps_status [OF rl] show ?thesis by (simp add: t)
  qed
  with lk t show ?thesis by blast
qed

lemma trunc_div_le:
  assumes "0 < b" "0 < k"
  shows "k \<le> trunc_div a b \<longleftrightarrow> k * b \<le> a"
proof (cases "0 \<le> a")
  case True
  have "k \<le> a div b \<longleftrightarrow> k * b \<le> a"
  proof
    assume "k \<le> a div b"
    then have "k * b \<le> (a div b) * b" using assms(1) by (simp add: mult_right_mono)
    also have "\<dots> \<le> a" using assms(1) pos_mod_sign [of b a] by (simp add: minus_mod_eq_div_mult [symmetric])
    finally show "k * b \<le> a" .
  next
    assume "k * b \<le> a"
    then have "k * b div b \<le> a div b" by (rule zdiv_mono1 [OF _ assms(1)])
    then show "k \<le> a div b" using assms(1) by simp
  qed
  with True show ?thesis by (simp add: trunc_div_def)
next
  case False
  then have "0 \<le> - a div b" using assms(1) by (simp add: pos_imp_zdiv_nonneg_iff)
  moreover have "0 < k * b" using assms by simp
  ultimately show ?thesis using False assms(2) by (simp add: trunc_div_def)
qed

lemma seconds_passed: "0 < k \<Longrightarrow> k \<le> num_seconds d \<longleftrightarrow> k * 1000000000 \<le> d"
  by (simp add: num_seconds_def trunc_div_le)

lemma hours_passed: "0 < k \<Longrightarrow> k \<le> num_hours d \<longleftrightarrow> k * 3600000000000 \<le> d"
  using seconds_passed [of "k * 3600" d] by (simp add: num_hours_def trunc_div_le mult.commute)

section \<open>Properties\<close>

text \<open>
  C25. At most one job of a kind runs for a repository at a time, over all processes: in every
  reachable state the running jobs have different kinds or repositories, each holds its own advisory
  lock, and a further start for the same kind and repository does not begin a second run.
\<close>

theorem one_run_per_repository:
  assumes pick: "\<And>cs. pick cs \<notin> set cs" and reach: "job_reachable pick x"
    and j: "(kind, i, l) \<in> set (js_running x)"
  shows "distinct (map (\<lambda>(kind, i, l). job_key kind i) (js_running x)) \<and> l \<in> set (locks (js_db x)) \<and>
     fst l = job_key kind i \<and> (\<forall>r db l'. start_job pick kind i (js_db x) = (r, db) \<longrightarrow> r \<noteq> Inr (Some l'))"
proof -
  have inv: "job_inv x" by (rule job_inv_reachable [OF pick reach])
  have hold: "fst l = job_key k n \<and> l \<in> set (locks (js_db x)) \<and> snd l \<in> set (in_use (js_db x))"
    if "(k, n, l) \<in> set (js_running x)" for k n l
    using inv that unfolding job_inv_def jobs_hold_def by fast
  have owner: "single_owner (locks (js_db x))" and conns: "distinct (held_conns (js_running x))"
    using inv by (simp_all add: job_inv_def)
  have "inj_on (\<lambda>(k, n, l). job_key k n) (set (js_running x))"
  proof (rule inj_onI)
    fix p q
    assume mem: "p \<in> set (js_running x)" "q \<in> set (js_running x)"
      and eq: "(case p of (k, n, l) \<Rightarrow> job_key k n) = (case q of (k, n, l) \<Rightarrow> job_key k n)"
    obtain k n a b where p: "p = (k, n, a, b)" by (rule prod_cases4)
    obtain k' n' a' b' where q: "q = (k', n', a', b')" by (rule prod_cases4)
    have "b = b'"
      using hold [OF mem(1) [unfolded p]] hold [OF mem(2) [unfolded q]] eq owner
      by (simp add: single_owner_def p q) blast
    then have same: "snd (snd (snd p)) = snd (snd (snd q))" by (simp add: p q)
    have "inj_on (\<lambda>j. snd (snd (snd j))) (set (js_running x))"
      using conns by (simp add: held_conns_def distinct_map)
    from inj_onD [OF this same mem] show "p = q" .
  qed
  then have dist: "distinct (map (\<lambda>(k, n, l). job_key k n) (js_running x))"
    using conns by (simp add: distinct_map held_conns_def)
  have "r \<noteq> Inr (Some l')" if "start_job pick kind i (js_db x) = (r, db)" for r db l'
    using that
  proof (cases rule: start_job_cases)
    case (acquired c)
    have "(job_key kind i, snd l) \<in> set (locks (js_db x))" using hold [OF j] by (metis prod.collapse)
    then have "snd l = c" using acquired(5) by (auto simp: lock_free_def)
    then show ?thesis using hold [OF j] acquired(2) pick by metis
  qed simp_all
  with dist hold [OF j] show ?thesis by blast
qed


text \<open>
  The limit of the guard: when the configured age is so large that the subtraction of days panics,
  the run ends after the lock is taken; the lock stays with a connection that is back in the pool, the
  repository stays marked as in progress, and every later run on another connection is refused as
  already running.
\<close>

theorem retention_panic_keeps_lock:
  assumes kind: "loaded_repositories s i = Some kind" "kind \<noteq> VirtualKind" "i \<in> set (cat_repositories s)"
    and config: "repository_configs s (i, ''package_retention'') = Some value"
      "parse_retention value = Some config" "rc_enabled config" "sub_days at (rc_max_age_days config) = None"
    and free: "faults s = []" "\<forall>c. (package_retention_advisory_key i, c) \<notin> set (locks s)"
    and other: "pick' (in_use s) \<noteq> pick (in_use s)"
  shows "\<exists>t row. run_package_retention_for_repository pick parse_retention sub_days delete_paths i at s = (Inl JobPanic, t) \<and>
     (package_retention_advisory_key i, pick (in_use s)) \<in> set (locks t) \<and> in_use t = in_use s \<and>
     retention_status t i = Some row \<and> sr_in_progress row \<and>
     fst (run_package_retention_for_repository pick' parse_retention sub_days delete_paths i at' t) = Inr None"
proof -
  let ?key = "package_retention_advisory_key i"
  let ?c = "pick (in_use s)"
  define row where "row = started_row (cat_now s) (case retention_status s i of Some r \<Rightarrow> r | None \<Rightarrow> new_status_row (cat_now s))"
  define u where "u = s\<lparr>in_use := ?c # in_use s, locks := (?key, ?c) # locks s,
      retention_status := (retention_status s)(i \<mapsto> row)\<rparr>"
  have free': "\<not> list_ex (\<lambda>(k, d). k = ?key \<and> d \<noteq> ?c) (locks s)"
    using free(2) by (auto simp: list_ex_iff)
  have cfg: "get_package_retention_config parse_retention i x = (Inr config, x)"
    if "faults x = []" "repository_configs x = repository_configs s" for x
    using that config(1,2) by (simp add: get_package_retention_config_def ret_def bind_ok_def)
  have mark: "try_mark_package_retention_started pick i s = (Inr (Some (?key, ?c)), u)"
    using free(1) free' kind(3)
    by (cases "retention_status s i")
      (simp_all add: try_mark_package_retention_started_def try_mark_started_def acquire_connection_def
        exec_sql_no_faults pg_try_advisory_lock_def ensure_package_retention_status_row_def
        try_sql_no_faults update_retention_row_def bind_ok_def Let_def u_def row_def)
  let ?t = "return_connection ?c u"
  have first: "run_package_retention_for_repository pick parse_retention sub_days delete_paths i at s = (Inl JobPanic, ?t)"
    using kind(1,2) config(3,4) free(1)
    by (simp add: run_package_retention_for_repository_def cfg mark bind_ok_def guarded_retention_def
        run_locked_package_retention_def fail_def)
  have t: "faults ?t = []" "locks ?t = (?key, ?c) # locks s" "in_use ?t = in_use s"
      "retention_status ?t i = Some row" "repository_configs ?t = repository_configs s"
      "loaded_repositories ?t i = Some kind"
    using free(1) kind(1) by (simp_all add: return_connection_def u_def)
  have "try_mark_package_retention_started pick' i ?t = (Inr None, ?t)"
  proof -
    have "list_ex (\<lambda>(k, d). k = ?key \<and> d \<noteq> pick' (in_use s)) (locks ?t)" using t(2) other by simp
    then show ?thesis
      using t(1,3)
      by (simp add: try_mark_package_retention_started_def try_mark_started_def acquire_connection_def
          exec_sql_no_faults pg_try_advisory_lock_def bind_ok_def Let_def return_connection_def)
  qed
  then have second: "fst (run_package_retention_for_repository pick' parse_retention sub_days delete_paths i at' ?t) = Inr None"
    using kind(2) config(3) t(1,5,6)
    by (simp add: run_package_retention_for_repository_def cfg bind_ok_def ret_def)
  show ?thesis
    using first second t(2,3,4) by (intro exI [of _ ?t] exI [of _ row]) (simp add: row_def started_row_def)
qed

text \<open>
  When a job is due: a retention run exactly when twenty-four hours have passed since the last
  start, a mirror with an accepted interval exactly when its next run, as the API reports it, is
  reached; an interval of 2^63 seconds and more, which the check accepts, is due at any time after
  the last start.
\<close>

theorem schedules_due:
  assumes ok: "validate_refresh_config cron_parse \<lparr>rf_enabled = True, rf_schedule = IntervalSeconds n\<rparr> = Inr ()"
    and add: "0 \<le> sint (n :: i64) \<Longrightarrow> add_seconds started n = Some (started + sint n * 1000000000)"
  shows "(retention_is_due at (Some started) \<longleftrightarrow> started + 24 * 3600 * 1000000000 \<le> at) \<and>
     (0 \<le> sint n \<longrightarrow> (refresh_is_due cron_parse cron_after at (IntervalSeconds n) (Some started) \<longleftrightarrow>
        (\<exists>nxt. next_run_at add_seconds cron_parse cron_after at (IntervalSeconds n) (Some started) = Some (Some nxt) \<and>
           nxt \<le> at))) \<and>
     (sint n < 0 \<and> started \<le> at \<longrightarrow> refresh_is_due cron_parse cron_after at (IntervalSeconds n) (Some started))"
proof -
  have "n \<noteq> 0" using ok by (auto simp: validate_refresh_config_def)
  then have "0 < sint n" if "0 \<le> sint n" using that by (metis order_le_less signed_0 signed_word_eqI)
  moreover have "0 \<le> num_seconds (at - started)" if "started \<le> at"
    using that by (simp add: num_seconds_def trunc_div_def pos_imp_zdiv_nonneg_iff)
  ultimately show ?thesis
    using add hours_passed [of 24 "at - started"] seconds_passed [of "sint n" "at - started"]
    by (auto simp: retention_is_due_def package_retention_interval_hours_def refresh_is_due_def next_run_at_def
        algebra_simps)
qed

section \<open>Witnesses\<close>

text \<open>chrono's subtraction of days: it panics when the duration leaves the range of milliseconds.\<close>

definition chrono_sub_days :: "instant \<Rightarrow> i64 \<Rightarrow> instant option" where
  "chrono_sub_days at days =
     (if \<bar>sint days * 86400\<bar> \<le> 9223372036854775 then Some (at - sint days * 86400 * 1000000000) else None)"

definition chrono_add_seconds :: "instant \<Rightarrow> i64 \<Rightarrow> instant option" where
  "chrono_add_seconds at secs =
     (if \<bar>sint secs\<bar> \<le> 9223372036854775 then Some (at + sint secs * 1000000000) else None)"

definition pool_pick :: "nat list \<Rightarrow> nat" where
  "pool_pick cs = Suc (sum_list cs)"

lemma pool_pick_idle: "pool_pick cs \<notin> set cs"
  using member_le_sum_list [of _ cs] by (fastforce simp: pool_pick_def)

definition sample_parse :: "string \<Rightarrow> retention_config option" where
  "sample_parse t =
     (if t = ''on'' then Some \<lparr>rc_enabled = True, rc_max_age_days = 30, rc_keep_latest_per_package = 1\<rparr>
      else if t = ''huge'' then Some \<lparr>rc_enabled = True, rc_max_age_days = 2000000000000, rc_keep_latest_per_package = 1\<rparr>
      else None)"

definition sample_jobs :: "string \<Rightarrow> job_db" where
  "sample_jobs config =
     \<lparr>faults = [], cat_now = 100, cat_repositories = [7], cat_projects = [], cat_versions = [],
      package_files = [], package_file_seq = 1, locks = [], in_use = [], retention_status = Map.empty,
      refresh_status = Map.empty, job_repositories = [\<lparr>jr_id = 7, jr_type = ''npm'', jr_active = True\<rparr>],
      repository_configs = [(7, ''package_retention'') \<mapsto> config], loaded_repositories = [7 \<mapsto> OtherKind]\<rparr>"

definition no_delete :: "uuid \<Rightarrow> string list \<Rightarrow> (unit, nat) job" where
  "no_delete i paths = ret 0"

definition sample_start :: "(job_error + advisory_lock option) \<times> job_db" where
  "sample_start = start_job pool_pick Retention 7 (sample_jobs ''on'')"

lemma sample_started: "fst sample_start = Inr (Some (package_retention_advisory_key 7, 1))"
  by code_simp

theorem one_run_per_repository_witness:
  "\<exists>x. job_reachable pool_pick x \<and> length (js_running x) = 1 \<and>
     (\<forall>r db l'. start_job pool_pick Retention 7 (js_db x) = (r, db) \<longrightarrow> r \<noteq> Inr (Some l'))"
proof -
  let ?l = "(package_retention_advisory_key 7, 1 :: nat)"
  let ?before = "\<lparr>js_db = sample_jobs ''on'', js_running = []\<rparr>"
  let ?x = "\<lparr>js_db = snd sample_start, js_running = [(Retention, 7, ?l)]\<rparr>"
  have start: "job_reachable pool_pick ?before" by (rule job_reachable.init) (simp_all add: sample_jobs_def)
  have run: "start_job pool_pick Retention 7 (js_db ?before) = (Inr (Some ?l), snd sample_start)"
    using sample_started by (simp add: sample_start_def prod_eq_iff)
  have next_state: "job_step pool_pick ?before ?x" using job_step.start [OF run] by simp
  have reach: "job_reachable pool_pick ?x" by (rule job_reachable.step [OF start next_state])
  have "(Retention, 7, ?l) \<in> set (js_running ?x)" by simp
  from one_run_per_repository [OF pool_pick_idle reach this] reach show ?thesis
    by (intro exI [of _ ?x]) simp
qed


theorem retention_panic_keeps_lock_witness:
  "\<exists>t. run_package_retention_for_repository pool_pick sample_parse chrono_sub_days no_delete 7 100 (sample_jobs ''huge'') =
     (Inl JobPanic, t) \<and> (package_retention_advisory_key 7, 1) \<in> set (locks t) \<and>
     fst (run_package_retention_for_repository (\<lambda>_. 9) sample_parse chrono_sub_days no_delete 7 200 t) = Inr None"
proof -
  let ?config = "\<lparr>rc_enabled = True, rc_max_age_days = 2000000000000, rc_keep_latest_per_package = 1\<rparr>"
  have a: "loaded_repositories (sample_jobs ''huge'') 7 = Some OtherKind" "OtherKind \<noteq> VirtualKind"
    "(7 :: uuid) \<in> set (cat_repositories (sample_jobs ''huge''))"
    by (simp_all add: sample_jobs_def)
  have c: "repository_configs (sample_jobs ''huge'') (7, ''package_retention'') = Some ''huge''"
    "sample_parse ''huge'' = Some ?config" "rc_enabled ?config"
    "chrono_sub_days 100 (rc_max_age_days ?config) = None"
    by (simp_all add: sample_jobs_def sample_parse_def chrono_sub_days_def)
  have f: "faults (sample_jobs ''huge'') = []"
    "\<forall>c. (package_retention_advisory_key 7, c) \<notin> set (locks (sample_jobs ''huge''))"
    by (simp_all add: sample_jobs_def)
  have p: "(\<lambda>_ :: nat list. 9 :: nat) (in_use (sample_jobs ''huge'')) \<noteq> pool_pick (in_use (sample_jobs ''huge''))"
    by (simp add: sample_jobs_def pool_pick_def)
  from retention_panic_keeps_lock [where pick = pool_pick and pick' = "\<lambda>_. 9" and parse_retention = sample_parse
      and sub_days = chrono_sub_days and at = 100 and delete_paths = no_delete and at' = 200, OF a c f p]
  show ?thesis
    by (auto simp: sample_jobs_def pool_pick_def)
qed

theorem schedules_due_witness:
  "refresh_is_due (\<lambda>_. None :: nat option) (\<lambda>_ _. None) 7200000000000 (IntervalSeconds 3600) (Some 0) \<and>
   \<not> retention_is_due 7200000000000 (Some 0)"
proof -
  have ok: "validate_refresh_config (\<lambda>_. None :: nat option)
      \<lparr>rf_enabled = True, rf_schedule = IntervalSeconds 3600\<rparr> = Inr ()"
    by (simp add: validate_refresh_config_def)
  have add: "0 \<le> sint (3600 :: i64) \<Longrightarrow> chrono_add_seconds 0 3600 = Some (0 + sint (3600 :: i64) * 1000000000)"
    by (simp add: chrono_add_seconds_def)
  from schedules_due [where add_seconds = chrono_add_seconds and started = 0 and at = 7200000000000
      and cron_after = "\<lambda>_ _. None", OF ok add] show ?thesis
    by (simp add: next_run_at_def chrono_add_seconds_def)
qed

end
