(* ===== verification/FileSystem.thy ===== *)
theory FileSystem
  imports Prelude "HOL-Library.AList"
begin

text \<open>
  The file system under the local storage, as far as \<open>std::fs\<close> shows it to the sources of
  crates/storage: a tree of files, directories and symbolic links, the resolution of a path, and one
  definition per call of \<open>std::fs\<close>. A path is the list of its components below the file-system root.
  A tree is the list of its entries; the root directory is not an entry. Resolution follows links and
  gives up after forty of them, as Linux does. A call that fails for a reason outside the tree
  (permissions, a full disk) is an entry of the script \<open>faults\<close>; the tests \<open>exists\<close>, \<open>is_dir\<close>,
  \<open>metadata\<close> and \<open>canonicalize\<close> fail only for reasons the tree shows. Locks of files are not modelled:
  an operation runs alone.
\<close>

type_synonym fspath = "string list"
type_synonym bytes = "u8 list"

datatype node = FileNode bytes | DirNode | LinkNode bool fspath

type_synonym tree = "(fspath \<times> node) list"

datatype io_error =
  NotFound | NotADirectory | IsADirectory | AlreadyExists | FilesystemLoop | DirectoryNotEmpty
  | InvalidInput | InvalidData | OtherIo

definition node_at :: "tree \<Rightarrow> fspath \<Rightarrow> node option" where
  "node_at t p = (if p = [] then Some DirNode else map_of t p)"

definition set_node :: "fspath \<Rightarrow> node \<Rightarrow> tree \<Rightarrow> tree" where
  "set_node p n t = AList.update p n t"

definition remove_below :: "fspath \<Rightarrow> tree \<Rightarrow> tree" where
  "remove_below p t = filter (\<lambda>e. \<not> prefix p (fst e)) t"

definition entry_names :: "tree \<Rightarrow> fspath \<Rightarrow> string list" where
  "entry_names t d = map (last \<circ> fst) (filter (\<lambda>e. fst e \<noteq> [] \<and> butlast (fst e) = d) t)"

section \<open>Resolution of paths\<close>

text \<open>The place a path denotes: every component is looked up in the directory reached so far; the
  last one may be missing. \<open>n\<close> is the number of links that may still be followed; a link has an
  absolute or a relative target.\<close>

fun locate :: "nat \<Rightarrow> tree \<Rightarrow> fspath \<Rightarrow> string list \<Rightarrow> io_error + fspath" where
  "locate n t d [] = Inr d"
| "locate n t d (c # cs) =
     (if c = ''.'' then locate n t d cs
      else if c = ''..'' then locate n t (butlast d) cs
      else case node_at t (d @ [c]) of
          None \<Rightarrow> if cs = [] then Inr (d @ [c]) else Inl NotFound
        | Some DirNode \<Rightarrow> locate n t (d @ [c]) cs
        | Some (FileNode _) \<Rightarrow> if cs = [] then Inr (d @ [c]) else Inl NotADirectory
        | Some (LinkNode absolute target) \<Rightarrow>
            (case n of
               0 \<Rightarrow> Inl FilesystemLoop
             | Suc m \<Rightarrow> locate m t (if absolute then [] else d) (target @ cs)))"

definition max_links :: nat where
  "max_links = 40"

definition place :: "tree \<Rightarrow> fspath \<Rightarrow> io_error + fspath" where
  "place t p = locate max_links t [] p"

definition canonicalize :: "tree \<Rightarrow> fspath \<Rightarrow> io_error + fspath" where
  "canonicalize t p =
     (case place t p of
        Inl e \<Rightarrow> Inl e
      | Inr q \<Rightarrow> if node_at t q = None then Inl NotFound else Inr q)"

definition metadata :: "tree \<Rightarrow> fspath \<Rightarrow> io_error + node" where
  "metadata t p =
     (case place t p of
        Inl e \<Rightarrow> Inl e
      | Inr q \<Rightarrow> (case node_at t q of None \<Rightarrow> Inl NotFound | Some n \<Rightarrow> Inr n))"

definition path_exists :: "tree \<Rightarrow> fspath \<Rightarrow> bool" where
  "path_exists t p = (case metadata t p of Inl _ \<Rightarrow> False | Inr _ \<Rightarrow> True)"

definition path_is_dir :: "tree \<Rightarrow> fspath \<Rightarrow> bool" where
  "path_is_dir t p = (metadata t p = Inr DirNode)"

text \<open>The entry a path names, without following a link in its last component; \<open>.\<close> and \<open>..\<close> name no
  entry that could be made or removed.\<close>

definition normal_name :: "string \<Rightarrow> bool" where
  "normal_name c = (c \<noteq> ''.'' \<and> c \<noteq> ''..'')"

definition entry_place :: "tree \<Rightarrow> fspath \<Rightarrow> io_error + fspath" where
  "entry_place t p =
     (if p = [] \<or> \<not> normal_name (last p) then Inl InvalidInput
      else case canonicalize t (butlast p) of
          Inl e \<Rightarrow> Inl e
        | Inr d \<Rightarrow> if node_at t d = Some DirNode then Inr (d @ [last p]) else Inl NotADirectory)"

section \<open>System calls\<close>

record fs_state = conn +
  disk :: tree

type_synonym ('z, 'a) fs_op = "('z fs_state_scheme, io_error, 'a) stm"

text \<open>One call: it fails as the script says, or has the effect \<open>f\<close> on the tree.\<close>

definition sys :: "(tree \<Rightarrow> (io_error + 'a) \<times> tree) \<Rightarrow> ('z, 'a) fs_op" where
  "sys f s =
     (let s' = s\<lparr>faults := tl (faults s)\<rparr>
      in if faults s \<noteq> [] \<and> hd (faults s) then (Inl OtherIo, s')
         else case f (disk s) of (r, t) \<Rightarrow> (r, s'\<lparr>disk := t\<rparr>))"

definition mkdir :: "tree \<Rightarrow> fspath \<Rightarrow> io_error + tree" where
  "mkdir t p =
     (case entry_place t p of
        Inl e \<Rightarrow> Inl e
      | Inr q \<Rightarrow> if node_at t q = None then Inr (set_node q DirNode t) else Inl AlreadyExists)"

text \<open>\<open>DirBuilder::create_dir_all\<close>; the path is given from its end.\<close>

fun make_dirs :: "tree \<Rightarrow> string list \<Rightarrow> (io_error + unit) \<times> tree" where
  "make_dirs t [] = (Inr (), t)"
| "make_dirs t (c # r) =
     (case mkdir t (rev (c # r)) of
        Inr t' \<Rightarrow> (Inr (), t')
      | Inl NotFound \<Rightarrow>
          (case make_dirs t r of
             (Inl e, t') \<Rightarrow> (Inl e, t')
           | (Inr _, t') \<Rightarrow>
               (case mkdir t' (rev (c # r)) of
                  Inr t'' \<Rightarrow> (Inr (), t'')
                | Inl e \<Rightarrow> if path_is_dir t' (rev (c # r)) then (Inr (), t') else (Inl e, t')))
      | Inl e \<Rightarrow> if path_is_dir t (rev (c # r)) then (Inr (), t) else (Inl e, t))"

definition create_dir_all :: "fspath \<Rightarrow> ('z, unit) fs_op" where
  "create_dir_all p = sys (\<lambda>t. make_dirs t (rev p))"

text \<open>\<open>OpenOptions::create(true)\<close> with writing: the handle is the place of the file, which is created
  empty when it is missing; a dangling link is followed.\<close>

definition open_create :: "fspath \<Rightarrow> ('z, fspath) fs_op" where
  "open_create p =
     sys (\<lambda>t. case place t p of
            Inl e \<Rightarrow> (Inl e, t)
          | Inr q \<Rightarrow>
              (case node_at t q of
                 None \<Rightarrow> (Inr q, set_node q (FileNode []) t)
               | Some (FileNode _) \<Rightarrow> (Inr q, t)
               | Some _ \<Rightarrow> (Inl IsADirectory, t)))"

text \<open>\<open>create_new(true)\<close>: an entry of that name, a link included, is an error.\<close>

definition open_new :: "fspath \<Rightarrow> ('z, fspath) fs_op" where
  "open_new p =
     sys (\<lambda>t. case entry_place t p of
            Inl e \<Rightarrow> (Inl e, t)
          | Inr q \<Rightarrow>
              if node_at t q = None then (Inr q, set_node q (FileNode []) t) else (Inl AlreadyExists, t))"

text \<open>\<open>File::open\<close>: a directory can be opened too.\<close>

definition open_read :: "fspath \<Rightarrow> ('z, fspath) fs_op" where
  "open_read p = sys (\<lambda>t. (canonicalize t p, t))"

definition read_to_end :: "fspath \<Rightarrow> ('z, bytes) fs_op" where
  "read_to_end q =
     sys (\<lambda>t. case node_at t q of
            Some (FileNode bs) \<Rightarrow> (Inr bs, t)
          | _ \<Rightarrow> (Inl IsADirectory, t))"

text \<open>Calls on a handle without an effect on the tree: locking, unlocking, seeking, syncing.\<close>

definition handle_call :: "('z, unit) fs_op" where
  "handle_call = sys (\<lambda>t. (Inr (), t))"

text \<open>Changes through a handle; they miss the tree when the file has been removed meanwhile.\<close>

definition update_file :: "fspath \<Rightarrow> (bytes \<Rightarrow> bytes) \<Rightarrow> tree \<Rightarrow> tree" where
  "update_file q f t =
     (case node_at t q of Some (FileNode bs) \<Rightarrow> set_node q (FileNode (f bs)) t | _ \<Rightarrow> t)"

definition set_len_zero :: "fspath \<Rightarrow> ('z, unit) fs_op" where
  "set_len_zero q = sys (\<lambda>t. (Inr (), update_file q (\<lambda>_. []) t))"

text \<open>\<open>write_all\<close> at the end of the file; a failing write has written the first \<open>k\<close> bytes.\<close>

definition write_all :: "nat \<Rightarrow> fspath \<Rightarrow> bytes \<Rightarrow> ('z, unit) fs_op" where
  "write_all k q bs s =
     (let s' = s\<lparr>faults := tl (faults s)\<rparr>
      in if faults s \<noteq> [] \<and> hd (faults s)
         then (Inl OtherIo, s'\<lparr>disk := update_file q (\<lambda>old. old @ take k bs) (disk s)\<rparr>)
         else (Inr (), s'\<lparr>disk := update_file q (\<lambda>old. old @ bs) (disk s)\<rparr>))"

definition remove_file :: "fspath \<Rightarrow> ('z, unit) fs_op" where
  "remove_file p =
     sys (\<lambda>t. case entry_place t p of
            Inl e \<Rightarrow> (Inl e, t)
          | Inr q \<Rightarrow>
              (case node_at t q of
                 None \<Rightarrow> (Inl NotFound, t)
               | Some DirNode \<Rightarrow> (Inl IsADirectory, t)
               | Some _ \<Rightarrow> (Inr (), remove_below q t)))"

text \<open>\<open>remove_dir_all\<close> removes a link itself and never what it points to.\<close>

definition remove_dir_all :: "fspath \<Rightarrow> ('z, unit) fs_op" where
  "remove_dir_all p =
     sys (\<lambda>t. case entry_place t p of
            Inl e \<Rightarrow> (Inl e, t)
          | Inr q \<Rightarrow>
              (case node_at t q of
                 None \<Rightarrow> (Inl NotFound, t)
               | Some (FileNode _) \<Rightarrow> (Inl NotADirectory, t)
               | Some _ \<Rightarrow> (Inr (), remove_below q t)))"

text \<open>\<open>rename\<close>: the entries below \<open>a\<close> get the same names below \<open>b\<close>.\<close>

definition move_entry :: "fspath \<Rightarrow> fspath \<Rightarrow> fspath \<Rightarrow> fspath" where
  "move_entry a b p = (if prefix a p then b @ drop (length a) p else p)"

definition move_below :: "fspath \<Rightarrow> fspath \<Rightarrow> tree \<Rightarrow> tree" where
  "move_below a b t =
     (if a = b then t else map (\<lambda>(p, n). (move_entry a b p, n)) (remove_below b t))"

definition rename_error :: "tree \<Rightarrow> fspath \<Rightarrow> fspath \<Rightarrow> io_error option" where
  "rename_error t a b =
     (case node_at t a of
        None \<Rightarrow> Some NotFound
      | Some n \<Rightarrow>
          if strict_prefix a b then Some InvalidInput
          else case node_at t b of
              None \<Rightarrow> None
            | Some DirNode \<Rightarrow>
                if n \<noteq> DirNode then Some IsADirectory
                else if a \<noteq> b \<and> entry_names t b \<noteq> [] then Some DirectoryNotEmpty else None
            | Some _ \<Rightarrow> if n = DirNode then Some NotADirectory else None)"

definition rename :: "fspath \<Rightarrow> fspath \<Rightarrow> ('z, unit) fs_op" where
  "rename from to =
     sys (\<lambda>t. case entry_place t from of
            Inl e \<Rightarrow> (Inl e, t)
          | Inr a \<Rightarrow>
              (case entry_place t to of
                 Inl e \<Rightarrow> (Inl e, t)
               | Inr b \<Rightarrow>
                   (case rename_error t a b of
                      Some e \<Rightarrow> (Inl e, t)
                    | None \<Rightarrow> (Inr (), move_below a b t))))"

text \<open>\<open>read_dir\<close>: the names in a directory, in the order of the tree.\<close>

definition read_dir :: "fspath \<Rightarrow> ('z, string list) fs_op" where
  "read_dir p =
     sys (\<lambda>t. case canonicalize t p of
            Inl e \<Rightarrow> (Inl e, t)
          | Inr q \<Rightarrow> if node_at t q = Some DirNode then (Inr (entry_names t q), t) else (Inl NotADirectory, t))"

section \<open>Facts on trees\<close>

lemma node_at_Nil [simp]: "node_at t [] = Some DirNode"
  by (simp add: node_at_def)

lemma node_at_set_node [simp]:
  "node_at (set_node p n t) q = (if q = p \<and> p \<noteq> [] then Some n else node_at t q)"
  by (simp add: node_at_def set_node_def update_conv')

lemma map_of_filter_path: "map_of (filter (\<lambda>e. P (fst e)) t) q = (if P q then map_of t q else None)"
  by (induction t) auto

lemma node_at_remove_below [simp]:
  "node_at (remove_below p t) q = (if q \<noteq> [] \<and> prefix p q then None else node_at t q)"
  by (simp add: node_at_def remove_below_def map_of_filter_path [of "\<lambda>q. \<not> prefix p q"])

text \<open>What a rename leaves at a path: below the new name what was below the old one, nothing below the
  old name, and everything else as it was.\<close>

lemma map_of_move:
  assumes "\<not> prefix a b" and "\<not> prefix b a"
  shows "map_of (map (\<lambda>(p, n). (move_entry a b p, n)) (remove_below b t)) q =
    (if prefix b q then map_of t (a @ drop (length b) q)
     else if prefix a q then None else map_of t q)"
proof (induction t)
  case Nil
  then show ?case by (simp add: remove_below_def)
next
  case (Cons e t)
  obtain p n where e: "e = (p, n)" by fastforce
  have disj: "\<not> (prefix a x \<and> prefix b x)" for x using assms prefix_same_cases by blast
  consider (gone) "prefix b p" | (moved) r where "p = a @ r" "\<not> prefix b p"
    | (kept) "\<not> prefix b p" "\<not> prefix a p" by (auto simp: prefix_def)
  then show ?case
  proof cases
    case gone
    have "p \<noteq> a @ drop (length b) q" using disj gone by auto
    then show ?thesis using Cons.IH gone by (auto simp: e remove_below_def)
  next
    case moved
    have "move_entry a b p = b @ r" by (simp add: moved(1) move_entry_def)
    moreover have "prefix b q \<Longrightarrow> q = b @ drop (length b) q" by (auto simp: prefix_def)
    moreover have "\<not> prefix b q \<Longrightarrow> q \<noteq> b @ r" by auto
    moreover have "\<not> prefix a q \<Longrightarrow> q \<noteq> a @ r" by auto
    ultimately show ?thesis using Cons.IH moved
      by (auto simp: e remove_below_def)
  next
    case kept
    then have "move_entry a b p = p" by (simp add: move_entry_def)
    then show ?thesis using Cons.IH kept by (auto simp: e remove_below_def)
  qed
qed

lemma node_at_move_below:
  assumes "\<not> prefix a b" and "\<not> prefix b a" and "q \<noteq> []"
  shows "node_at (move_below a b t) q =
    (if prefix b q then map_of t (a @ drop (length b) q)
     else if prefix a q then None else node_at t q)"
proof -
  have "a \<noteq> b" using assms(1) by auto
  then show ?thesis
    using assms(3) map_of_move [OF assms(1,2)] by (simp add: node_at_def move_below_def)
qed

text \<open>A tree as the operating system keeps it: every entry lies in a directory and has a proper name.\<close>

definition wf_tree :: "tree \<Rightarrow> bool" where
  "wf_tree t =
     (distinct (map fst t) \<and>
      (\<forall>(p, n) \<in> set t. p \<noteq> [] \<and> node_at t (butlast p) = Some DirNode \<and> normal_name (last p)))"

lemma wf_treeD:
  assumes "wf_tree t" and "node_at t p = Some n" and "p \<noteq> []"
  shows "node_at t (butlast p) = Some DirNode" and "normal_name (last p)"
proof -
  have "(p, n) \<in> set t" using assms(2,3) by (simp add: node_at_def map_of_SomeD)
  with assms(1) have "node_at t (butlast p) = Some DirNode \<and> normal_name (last p)"
    unfolding wf_tree_def by blast
  then show "node_at t (butlast p) = Some DirNode" and "normal_name (last p)" by simp_all
qed

lemma wf_tree_above:
  assumes "wf_tree t" and "node_at t (p @ r) = Some n" and "r \<noteq> []"
  shows "node_at t p = Some DirNode"
  using assms(2,3)
proof (induction r arbitrary: n rule: rev_induct)
  case (snoc c r)
  have "node_at t (p @ r) = Some DirNode" using wf_treeD(1) [OF assms(1) snoc.prems(1)] by (simp add: butlast_append)
  with snoc.IH show ?case by (cases "r = []") auto
qed simp

lemma wf_tree_butlast: "wf_tree t \<Longrightarrow> node_at t d = Some DirNode \<Longrightarrow> node_at t (butlast d) = Some DirNode"
  using wf_treeD(1) by (cases "d = []") auto

section \<open>Facts on resolution\<close>

definition is_link :: "node option \<Rightarrow> bool" where
  "is_link x = (case x of Some (LinkNode _ _) \<Rightarrow> True | _ \<Rightarrow> False)"

lemma is_link_simps [simp]:
  "\<not> is_link None" "\<not> is_link (Some DirNode)" "\<not> is_link (Some (FileNode bs))"
  "is_link (Some (LinkNode a l))"
  by (simp_all add: is_link_def)

text \<open>One equation per way a component is treated, and the induction along them.\<close>

lemma locate_steps:
  "locate n t d (''.'' # cs) = locate n t d cs"
  "locate n t d (''..'' # cs) = locate n t (butlast d) cs"
  "normal_name c \<Longrightarrow> node_at t (d @ [c]) = None \<Longrightarrow>
     locate n t d (c # cs) = (if cs = [] then Inr (d @ [c]) else Inl NotFound)"
  "normal_name c \<Longrightarrow> node_at t (d @ [c]) = Some (FileNode bs) \<Longrightarrow>
     locate n t d (c # cs) = (if cs = [] then Inr (d @ [c]) else Inl NotADirectory)"
  "normal_name c \<Longrightarrow> node_at t (d @ [c]) = Some DirNode \<Longrightarrow>
     locate n t d (c # cs) = locate n t (d @ [c]) cs"
  "normal_name c \<Longrightarrow> node_at t (d @ [c]) = Some (LinkNode a l) \<Longrightarrow>
     locate 0 t d (c # cs) = Inl FilesystemLoop"
  "normal_name c \<Longrightarrow> node_at t (d @ [c]) = Some (LinkNode a l) \<Longrightarrow>
     locate (Suc m) t d (c # cs) = locate m t (if a then [] else d) (l @ cs)"
  by (auto simp: normal_name_def)

declare locate.simps(2) [simp del]

lemma locate_induct [case_names Done Here Up Missing File Enter Stuck Follow]:
  assumes "\<And>n d. P n d []"
    and "\<And>n d cs. P n d cs \<Longrightarrow> P n d (''.'' # cs)"
    and "\<And>n d cs. P n (butlast d) cs \<Longrightarrow> P n d (''..'' # cs)"
    and "\<And>n d c cs. normal_name c \<Longrightarrow> node_at t (d @ [c]) = None \<Longrightarrow> P n d (c # cs)"
    and "\<And>n d c cs bs. normal_name c \<Longrightarrow> node_at t (d @ [c]) = Some (FileNode bs) \<Longrightarrow> P n d (c # cs)"
    and "\<And>n d c cs. normal_name c \<Longrightarrow> node_at t (d @ [c]) = Some DirNode \<Longrightarrow> P n (d @ [c]) cs \<Longrightarrow>
      P n d (c # cs)"
    and "\<And>d c cs a l. normal_name c \<Longrightarrow> node_at t (d @ [c]) = Some (LinkNode a l) \<Longrightarrow> P 0 d (c # cs)"
    and "\<And>m d c cs a l. normal_name c \<Longrightarrow> node_at t (d @ [c]) = Some (LinkNode a l) \<Longrightarrow>
      P m (if a then [] else d) (l @ cs) \<Longrightarrow> P (Suc m) d (c # cs)"
  shows "P n d (cs :: string list)"
proof -
  have "t' = t \<Longrightarrow> P n d cs" for t'
  proof (induction n t' d cs rule: locate.induct)
    case (1 n t' d)
    show ?case by (rule assms(1))
  next
    case (2 n t' d c cs)
    have t': "t' = t" by (rule 2(5))
    consider "c = ''.''" | "c = ''..''" | "normal_name c" by (auto simp: normal_name_def)
    then show ?case
    proof cases
      assume "c = ''.''"
      then show ?thesis using 2(1,5) assms(2) by blast
    next
      assume "c = ''..''"
      then show ?thesis using 2(2,5) assms(3) by auto
    next
      assume nc: "normal_name c"
      then have c: "c \<noteq> ''.''" "c \<noteq> ''..''" by (auto simp: normal_name_def)
      show ?thesis
      proof (cases "node_at t (d @ [c])")
        case None
        with nc show ?thesis by (rule assms(4))
      next
        case (Some k)
        show ?thesis
        proof (cases k)
          case (FileNode bs)
          with nc Some show ?thesis by (intro assms(5)) auto
        next
          case DirNode
          have "P n (d @ [c]) cs" by (rule 2(3) [unfolded t', OF c Some DirNode refl])
          with nc Some DirNode show ?thesis by (intro assms(6)) auto
        next
          case (LinkNode a l)
          note node = Some [unfolded LinkNode]
          show ?thesis
          proof (cases n)
            case 0
            show ?thesis unfolding 0 by (rule assms(7) [OF nc node])
          next
            case (Suc m)
            have "P m (if a then [] else d) (l @ cs)"
              by (rule 2(4) [unfolded t', OF c Some LinkNode Suc refl])
            with nc node show ?thesis unfolding Suc by (rule assms(8))
          qed
        qed
      qed
    qed
  qed
  then show ?thesis by blast
qed

text \<open>A place is never a link, and it lies in a directory.\<close>

lemma locate_place:
  assumes wf: "wf_tree t"
  shows "locate n t d cs = Inr q \<Longrightarrow> node_at t d = Some DirNode \<Longrightarrow>
    \<not> is_link (node_at t q) \<and> node_at t (butlast q) = Some DirNode \<and> (q \<noteq> [] \<longrightarrow> normal_name (last q))"
proof (induction n d cs rule: locate_induct [where t = t])
  case (Done n d)
  then show ?case using wf_treeD(2) [OF wf, of d DirNode] wf_tree_butlast [OF wf] by auto
qed (use wf_tree_butlast [OF wf] in \<open>auto simp: locate_steps split: if_splits\<close>)

text \<open>Resolution of a path whose first part leads to a directory goes on from that directory, with
  fewer links left.\<close>

lemma locate_append:
  "locate n t d xs = Inr e \<Longrightarrow> node_at t e = Some DirNode \<Longrightarrow>
    \<exists>m \<le> n. \<forall>ys. locate n t d (xs @ ys) = locate m t e ys"
proof (induction n d xs rule: locate_induct [where t = t])
  case (Follow m d c cs a l)
  then have "\<exists>k \<le> m. \<forall>ys. locate m t (if a then [] else d) ((l @ cs) @ ys) = locate k t e ys"
    by (simp add: locate_steps)
  with Follow(1,2) show ?case by (auto simp: locate_steps intro: le_SucI)
qed (auto simp: locate_steps split: if_splits)

lemma locate_split:
  assumes wf: "wf_tree t"
  shows "locate n t d (xs @ ys) = Inr q \<Longrightarrow> node_at t d = Some DirNode \<Longrightarrow> ys \<noteq> [] \<Longrightarrow>
    \<exists>e. locate n t d xs = Inr e \<and> node_at t e = Some DirNode"
proof (induction n d xs rule: locate_induct [where t = t])
  case (Follow m d c cs a l)
  then show ?case by (cases a) (auto simp: locate_steps)
qed (use wf_tree_butlast [OF wf] in \<open>auto simp: locate_steps split: if_splits\<close>)

text \<open>With fewer links to follow the place is the same or there were too many of them.\<close>

lemma locate_budget:
  "locate n t d cs = Inr q \<Longrightarrow> m \<le> n \<Longrightarrow> locate m t d cs = Inr q \<or> locate m t d cs = Inl FilesystemLoop"
proof (induction n d cs arbitrary: m rule: locate_induct [where t = t])
  case (Follow k d c cs a l)
  then show ?case by (cases m) (auto simp: locate_steps)
qed (auto simp: locate_steps split: if_splits)

text \<open>A tree with more entries: what led somewhere leads there still.\<close>

definition same_kind :: "node \<Rightarrow> node \<Rightarrow> bool" where
  "same_kind m n = (m = n \<or> (\<exists>a b. m = FileNode a \<and> n = FileNode b))"

definition grows :: "tree \<Rightarrow> tree \<Rightarrow> bool" where
  "grows t t' = (\<forall>p m. node_at t p = Some m \<longrightarrow> (\<exists>n. node_at t' p = Some n \<and> same_kind m n))"

lemma growsD:
  assumes "grows t t'"
  shows "node_at t p = Some DirNode \<Longrightarrow> node_at t' p = Some DirNode"
    and "node_at t p = Some (LinkNode a l) \<Longrightarrow> node_at t' p = Some (LinkNode a l)"
    and "node_at t p = Some (FileNode bs) \<Longrightarrow> \<exists>bs'. node_at t' p = Some (FileNode bs')"
  using assms unfolding grows_def same_kind_def by blast+

lemma locate_grows:
  assumes g: "grows t t'"
  shows "locate n t d cs = Inr q \<Longrightarrow> \<not> is_link (node_at t' q) \<Longrightarrow> locate n t' d cs = Inr q"
proof (induction n d cs rule: locate_induct [where t = t])
  case (Missing n d c cs)
  then have q: "cs = []" "q = d @ [c]" by (auto simp: locate_steps split: if_splits)
  show ?case
  proof (cases "node_at t' (d @ [c])")
    case None
    with Missing q show ?thesis by (simp add: locate_steps)
  next
    case (Some k)
    with Missing q show ?thesis by (cases k) (auto simp: locate_steps)
  qed
next
  case (File n d c cs bs)
  with growsD(3) [OF g File(2)] show ?case by (auto simp: locate_steps split: if_splits)
next
  case (Enter n d c cs)
  with growsD(1) [OF g Enter(2)] show ?case by (auto simp: locate_steps)
next
  case (Follow m d c cs a l)
  with growsD(2) [OF g Follow(2)] show ?case by (auto simp: locate_steps)
qed (auto simp: locate_steps)

lemma locate_error: "locate n t d xs = Inl e \<Longrightarrow> locate n t d (xs @ ys) = Inl e"
  by (induction n d xs rule: locate_induct [where t = t]) (auto simp: locate_steps split: if_splits)

lemma locate_file:
  assumes wf: "wf_tree t"
  shows "locate n t d xs = Inr e \<Longrightarrow> node_at t d = Some DirNode \<Longrightarrow> node_at t e = Some (FileNode bs) \<Longrightarrow>
    ys \<noteq> [] \<Longrightarrow> locate n t d (xs @ ys) = Inl NotADirectory"
  by (induction n d xs rule: locate_induct [where t = t])
    (use wf_tree_butlast [OF wf] in \<open>auto simp: locate_steps split: if_splits\<close>)

text \<open>Through directories that exist a path leads straight on.\<close>

lemma locate_through:
  "(\<And>k. 0 < k \<Longrightarrow> k \<le> length r \<Longrightarrow> node_at t (d @ take k r) = Some DirNode) \<Longrightarrow>
   list_all normal_name r \<Longrightarrow> locate n t d (r @ ys) = locate n t (d @ r) ys"
proof (induction r arbitrary: d)
  case (Cons c r)
  have dc: "node_at t (d @ [c]) = Some DirNode" using Cons.prems(1) [of 1] by simp
  have "locate n t (d @ [c]) (r @ ys) = locate n t ((d @ [c]) @ r) ys"
  proof (rule Cons.IH)
    fix k assume "0 < k" "k \<le> length r"
    with Cons.prems(1) [of "Suc k"] show "node_at t ((d @ [c]) @ take k r) = Some DirNode" by simp
  qed (use Cons.prems(2) in simp)
  with Cons.prems(2) dc show ?case by (simp add: locate_steps)
qed simp

lemma wf_path_names:
  assumes wf: "wf_tree t"
  shows "node_at t p = Some n \<Longrightarrow> list_all normal_name p"
proof (induction p arbitrary: n rule: rev_induct)
  case (snoc c p)
  have "node_at t p = Some DirNode" by (rule wf_tree_above [OF wf snoc.prems]) simp
  moreover have "normal_name c" using wf_treeD(2) [OF wf snoc.prems] by simp
  ultimately show ?case using snoc.IH by simp
qed simp

lemma locate_dir:
  assumes wf: "wf_tree t" and q: "node_at t q = Some DirNode"
  shows "locate n t [] (q @ ys) = locate n t q ys"
proof -
  have "locate n t [] (q @ ys) = locate n t ([] @ q) ys"
  proof (rule locate_through)
    fix k assume "k \<le> length q"
    show "node_at t ([] @ take k q) = Some DirNode"
    proof (cases "k = length q")
      case False
      with \<open>k \<le> length q\<close> have "drop k q \<noteq> []" by simp
      moreover have "node_at t (take k q @ drop k q) = Some DirNode" using q by simp
      ultimately show ?thesis using wf_tree_above [OF wf] by (metis append_Nil)
    qed (use q in simp)
  qed (rule wf_path_names [OF wf q])
  then show ?thesis by simp
qed

text \<open>No link of the tree is dangling.\<close>

definition links_ok :: "tree \<Rightarrow> bool" where
  "links_ok t = (\<forall>p. is_link (node_at t p) \<longrightarrow> path_exists t p)"

lemma path_exists_iff: "path_exists t p \<longleftrightarrow> (\<exists>q. place t p = Inr q \<and> node_at t q \<noteq> None)"
  by (auto simp: path_exists_def metadata_def split: sum.splits option.splits)

lemma link_leads_on:
  assumes wf: "wf_tree t" and ok: "links_ok t" and d: "node_at t d = Some DirNode"
    and l: "is_link (node_at t (d @ [c]))" and m: "m \<le> max_links"
  shows "(\<exists>q. locate m t d [c] = Inr q \<and> node_at t q \<noteq> None) \<or> locate m t d [c] = Inl FilesystemLoop"
proof -
  obtain q where q: "place t (d @ [c]) = Inr q" "node_at t q \<noteq> None"
    using ok l unfolding links_ok_def path_exists_iff by blast
  have "locate max_links t d [c] = Inr q" using q(1) locate_dir [OF wf d] by (simp add: place_def)
  from locate_budget [OF this m] q(2) show ?thesis by blast
qed

definition unresolved :: "tree \<Rightarrow> io_error + fspath \<Rightarrow> bool" where
  "unresolved t r = (r = Inl NotFound \<or> (\<exists>q. r = Inr q \<and> node_at t q = None))"

lemma unresolved_iff: "unresolved t (place t p) \<longleftrightarrow> canonicalize t p = Inl NotFound"
  by (auto simp: unresolved_def canonicalize_def split: sum.splits)

text \<open>Where a path without dangling links stops: in a directory that has no entry of the next name.\<close>

lemma stops_at:
  assumes wf: "wf_tree t" and ok: "links_ok t"
  shows "unresolved t (locate m t d rest) \<Longrightarrow> m \<le> max_links \<Longrightarrow> node_at t d = Some DirNode \<Longrightarrow>
    list_all normal_name rest \<Longrightarrow>
    \<exists>cs x ds a. rest = cs @ x # ds \<and> locate m t d cs = Inr a \<and> node_at t a = Some DirNode \<and>
      node_at t (a @ [x]) = None"
proof (induction rest arbitrary: m d)
  case Nil
  then show ?case by (auto simp: unresolved_def)
next
  case (Cons x rest)
  then have x: "normal_name x" by simp
  show ?case
  proof (cases "node_at t (d @ [x])")
    case None
    have "x # rest = [] @ x # rest \<and> locate m t d [] = Inr d" by simp
    with Cons.prems(3) None show ?thesis by blast
  next
    case (Some k)
    have known: "unresolved t (locate m t d (x # rest))" by (rule Cons.prems(1))
    show ?thesis
    proof (cases k)
      case (FileNode bs)
      with known Some x show ?thesis by (auto simp: unresolved_def locate_steps split: if_splits)
    next
      case DirNode
      have "unresolved t (locate m t (d @ [x]) rest)"
        using known Some DirNode x by (simp add: locate_steps)
      from Cons.IH [OF this Cons.prems(2)] Cons.prems(4) Some DirNode
      obtain cs y ds a where "rest = cs @ y # ds" "locate m t (d @ [x]) cs = Inr a"
        "node_at t a = Some DirNode" "node_at t (a @ [y]) = None" by auto
      moreover from this have "locate m t d (x # cs) = Inr a"
        using Some DirNode x by (simp add: locate_steps)
      ultimately show ?thesis by (metis append_Cons)
    next
      case (LinkNode b l)
      have "is_link (node_at t (d @ [x]))" using Some LinkNode by simp
      from link_leads_on [OF wf ok Cons.prems(3) this Cons.prems(2)]
      consider (loop) "locate m t d [x] = Inl FilesystemLoop"
        | (dir) q where "locate m t d [x] = Inr q" "node_at t q = Some DirNode"
        | (data) q bs where "locate m t d [x] = Inr q" "node_at t q = Some (FileNode bs)"
        | (linked) q where "locate m t d [x] = Inr q" "is_link (node_at t q)"
        by (metis is_link_simps(4) node.exhaust not_None_eq)
      then show ?thesis
      proof cases
        case loop
        from locate_error [OF this, of rest] known show ?thesis by (auto simp: unresolved_def)
      next
        case dir
        obtain m' where m': "m' \<le> m" "\<And>ys. locate m t d ([x] @ ys) = locate m' t q ys"
          using locate_append [OF dir] by blast
        have "unresolved t (locate m' t q rest)" using known m'(2) by simp
        moreover have "m' \<le> max_links" using m'(1) Cons.prems(2) by simp
        ultimately obtain cs y ds a where r: "rest = cs @ y # ds" "locate m' t q cs = Inr a"
          "node_at t a = Some DirNode" "node_at t (a @ [y]) = None"
          using Cons.IH [of m' q] dir(2) Cons.prems(4) by auto
        have "locate m t d (x # cs) = Inr a" using m'(2) [of cs] r(2) by simp
        with r show ?thesis by (metis append_Cons)
      next
        case data
        show ?thesis
        proof (cases "rest = []")
          case True
          with data known show ?thesis by (auto simp: unresolved_def)
        next
          case False
          from locate_file [OF wf data(1) Cons.prems(3) data(2) False] known show ?thesis
            by (auto simp: unresolved_def)
        qed
      next
        case linked
        with locate_place [OF wf linked(1) Cons.prems(3)] show ?thesis by simp
      qed
    qed
  qed
qed

section \<open>New directories\<close>

text \<open>The tree \<open>t'\<close> has, beyond \<open>t\<close>, the directories on the way from \<open>a\<close> down \<open>xs\<close>.\<close>

definition dirs_added :: "fspath \<Rightarrow> string list \<Rightarrow> tree \<Rightarrow> tree \<Rightarrow> bool" where
  "dirs_added a xs t t' =
     (\<forall>p. node_at t' p = (if strict_prefix a p \<and> prefix p (a @ xs) then Some DirNode else node_at t p))"

lemma missing_below:
  assumes "wf_tree t" and "node_at t p = None" and "prefix p q"
  shows "node_at t q = None"
proof (rule ccontr)
  assume "node_at t q \<noteq> None"
  moreover obtain r where "q = p @ r" using assms(3) by (auto simp: prefix_def)
  ultimately show False using wf_tree_above [OF assms(1)] assms(2) by (cases "r = []") auto
qed

lemma missing_on_the_way:
  assumes "wf_tree t" and "node_at t (a @ [x]) = None" and "strict_prefix a p" and "prefix p (a @ x # ys)"
  shows "node_at t p = None"
proof -
  obtain r where r: "p = a @ r" "r \<noteq> []" using assms(3) by (auto simp: strict_prefix_def prefix_def)
  with assms(4) have "prefix (a @ [x]) p" by (cases r) auto
  with missing_below [OF assms(1,2)] show ?thesis .
qed

lemma dirs_added_grows:
  assumes "wf_tree t" and "node_at t (a @ [x]) = None" and "dirs_added a (x # ys) t t'"
  shows "grows t t'"
  unfolding grows_def
proof (intro allI impI)
  fix p m assume m: "node_at t p = Some m"
  have "node_at t' p = Some m"
    using assms(3) m missing_on_the_way [OF assms(1,2), of p ys] unfolding dirs_added_def by auto
  then show "\<exists>n. node_at t' p = Some n \<and> same_kind m n" by (simp add: same_kind_def)
qed

lemma canonicalize_grows:
  assumes "grows t t'" and "canonicalize t p = Inr q" and "node_at t q = Some DirNode"
  shows "canonicalize t' p = Inr q"
proof -
  have "place t p = Inr q" using assms(2) by (auto simp: canonicalize_def split: sum.splits if_splits)
  moreover have "node_at t' q = Some DirNode" using growsD(1) [OF assms(1,3)] .
  ultimately have "place t' p = Inr q"
    using locate_grows [OF assms(1)] unfolding place_def by simp
  with \<open>node_at t' q = Some DirNode\<close> show ?thesis by (simp add: canonicalize_def)
qed

lemma canonicalize_Inr: "canonicalize t p = Inr q \<longleftrightarrow> place t p = Inr q \<and> node_at t q \<noteq> None"
  by (auto simp: canonicalize_def split: sum.splits)

text \<open>The place of a path below a directory in which the next name is missing, before and after the
  directories are made.\<close>

lemma place_below_missing:
  assumes "canonicalize t a = Inr q" and "node_at t q = Some DirNode"
    and "node_at t (q @ [x]) = None" and "normal_name x"
  shows "place t (a @ x # ys) = (if ys = [] then Inr (q @ [x]) else Inl NotFound)"
proof -
  have "locate max_links t [] a = Inr q" using assms(1) by (simp add: canonicalize_Inr place_def)
  from locate_append [OF this assms(2)] obtain m where
    "\<And>zs. locate max_links t [] (a @ zs) = locate m t q zs" by blast
  with assms(3,4) show ?thesis by (simp add: place_def locate_steps)
qed

lemma place_below_added:
  assumes wf: "wf_tree t" and q: "canonicalize t a = Inr q" "node_at t q = Some DirNode"
    and x: "node_at t (q @ [x]) = None" and names: "list_all normal_name (x # ys)"
    and added: "dirs_added q (x # ys) t t'"
  shows "normal_name f \<Longrightarrow> place t' (a @ (x # ys) @ [f]) = Inr (q @ (x # ys) @ [f])"
    and "canonicalize t' (a @ x # ys) = Inr (q @ x # ys)"
    and "node_at t' (q @ x # ys) = Some DirNode"
proof -
  have g: "grows t t'" by (rule dirs_added_grows [OF wf x added])
  have q': "canonicalize t' a = Inr q" by (rule canonicalize_grows [OF g q])
  have qd: "node_at t' q = Some DirNode" by (rule growsD(1) [OF g q(2)])
  have pl: "locate max_links t' [] a = Inr q" using q' by (simp add: canonicalize_Inr place_def)
  obtain m where m: "\<And>zs. locate max_links t' [] (a @ zs) = locate m t' q zs"
    using locate_append [OF pl qd] by blast
  have through: "locate k t' q ((x # ys) @ zs) = locate k t' (q @ x # ys) zs" for k zs
  proof (rule locate_through)
    fix k assume k: "0 < k" "k \<le> length (x # ys)"
    have "strict_prefix q (q @ take k (x # ys))" using k(1) by (cases k) (auto simp: strict_prefix_def)
    moreover have "prefix (q @ take k (x # ys)) (q @ x # ys)"
      by (metis same_prefix_prefix take_is_prefix)
    ultimately show "node_at t' (q @ take k (x # ys)) = Some DirNode"
      using added unfolding dirs_added_def by simp
  qed (rule names)
  show last: "node_at t' (q @ x # ys) = Some DirNode"
    using added unfolding dirs_added_def by (simp add: strict_prefix_def)
  show "canonicalize t' (a @ x # ys) = Inr (q @ x # ys)"
    using m [of "x # ys"] through [of _ "[]"] last by (simp add: canonicalize_Inr place_def)
  have "\<not> prefix (q @ (x # ys) @ [f]) (q @ x # ys)" by (auto dest: prefix_length_le)
  moreover have "node_at t (q @ (x # ys) @ [f]) = None" by (rule missing_below [OF wf x]) simp
  ultimately have "node_at t' (q @ (x # ys) @ [f]) = None" using added unfolding dirs_added_def by simp
  then show "normal_name f \<Longrightarrow> place t' (a @ (x # ys) @ [f]) = Inr (q @ (x # ys) @ [f])"
    using m [of "(x # ys) @ [f]"] through [of _ "[f]"] by (simp add: place_def locate_steps)
qed

lemma make_dirs_new:
  assumes wf: "wf_tree t" and q: "canonicalize t a = Inr q" "node_at t q = Some DirNode"
    and x: "node_at t (q @ [x]) = None"
  shows "list_all normal_name (x # ys) \<Longrightarrow>
    \<exists>t'. make_dirs t (rev (a @ x # ys)) = (Inr (), t') \<and> dirs_added q (x # ys) t t'"
proof (induction ys rule: rev_induct)
  case Nil
  have "entry_place t (a @ [x]) = Inr (q @ [x])" using q Nil by (simp add: entry_place_def)
  then have "make_dirs t (rev (a @ [x])) = (Inr (), set_node (q @ [x]) DirNode t)"
    using x by (simp add: mkdir_def)
  moreover have "dirs_added q [x] t (set_node (q @ [x]) DirNode t)"
    unfolding dirs_added_def by (auto simp: strict_prefix_def)
  ultimately show ?case by blast
next
  case (snoc y ys)
  then have names: "list_all normal_name (x # ys)" "normal_name y" by simp_all
  from snoc.IH [OF names(1)] obtain t' where
    t': "make_dirs t (rev (a @ x # ys)) = (Inr (), t')" "dirs_added q (x # ys) t t'" by blast
  have p: "place t (a @ x # ys) = (if ys = [] then Inr (q @ [x]) else Inl NotFound)"
    by (rule place_below_missing [OF q x]) (use names in simp)
  have "canonicalize t (a @ x # ys) = Inl NotFound" using x p by (cases "ys = []") (auto simp: canonicalize_def)
  then have first: "mkdir t (a @ x # ys @ [y]) = Inl NotFound"
    using names(2) by (simp add: mkdir_def entry_place_def butlast_append)
  note there = place_below_added [OF wf q x names(1) t'(2)]
  have "\<not> prefix (q @ x # ys @ [y]) (q @ x # ys)" by (auto dest: prefix_length_le)
  moreover have "node_at t (q @ x # ys @ [y]) = None" by (rule missing_below [OF wf x]) simp
  ultimately have none: "node_at t' (q @ x # ys @ [y]) = None" using t'(2) unfolding dirs_added_def by simp
  have "entry_place t' (a @ x # ys @ [y]) = Inr (q @ x # ys @ [y])"
    using there(2,3) names(2) by (simp add: entry_place_def butlast_append)
  then have second: "mkdir t' (a @ x # ys @ [y]) = Inr (set_node (q @ x # ys @ [y]) DirNode t')"
    using none by (simp add: mkdir_def)
  have "make_dirs t (rev (a @ x # ys @ [y])) = (Inr (), set_node (q @ x # ys @ [y]) DirNode t')"
    using first second t'(1) by simp
  moreover have "dirs_added q (x # ys @ [y]) t (set_node (q @ x # ys @ [y]) DirNode t')"
    unfolding dirs_added_def
  proof
    fix p
    have "prefix p (q @ x # ys @ [y]) \<longleftrightarrow> p = q @ x # ys @ [y] \<or> prefix p (q @ x # ys)"
      using prefix_snoc [of p "q @ x # ys" y] by simp
    then show "node_at (set_node (q @ x # ys @ [y]) DirNode t') p =
        (if strict_prefix q p \<and> prefix p (q @ x # ys @ [y]) then Some DirNode else node_at t p)"
      using t'(2) unfolding dirs_added_def by (auto simp: strict_prefix_def)
  qed
  ultimately show ?case by auto
qed

text \<open>A directory that exists is left as it is.\<close>

lemma make_dirs_exists:
  assumes "canonicalize t a = Inr q" and "node_at t q = Some DirNode" and "wf_tree t"
  shows "make_dirs t (rev a) = (Inr (), t)"
proof (cases a rule: rev_cases)
  case (snoc b c)
  have pl: "locate max_links t [] (b @ [c]) = Inr q" using assms(1) snoc by (simp add: canonicalize_Inr place_def)
  have dir: "path_is_dir t a" using assms(1,2) by (auto simp: path_is_dir_def metadata_def canonicalize_Inr)
  obtain e where e: "locate max_links t [] b = Inr e" "node_at t e = Some DirNode"
    using locate_split [OF assms(3) pl] by auto
  then have b: "canonicalize t b = Inr e" by (simp add: canonicalize_Inr place_def)
  obtain m where m: "\<And>ys. locate max_links t [] (b @ ys) = locate m t e ys"
    using locate_append [OF e] by blast
  have "\<exists>err. mkdir t a = Inl err \<and> err \<noteq> NotFound"
  proof (cases "normal_name c")
    case False
    then show ?thesis using snoc by (simp add: mkdir_def entry_place_def)
  next
    case True
    then have ep: "entry_place t a = Inr (e @ [c])" using b e(2) snoc by (simp add: entry_place_def)
    have "node_at t (e @ [c]) \<noteq> None"
    proof
      assume "node_at t (e @ [c]) = None"
      with pl m [of "[c]"] True assms(2) show False by (auto simp: locate_steps)
    qed
    with ep show ?thesis by (auto simp: mkdir_def)
  qed
  then obtain err where "mkdir t a = Inl err" "err \<noteq> NotFound" by blast
  with dir snoc show ?thesis by (auto split: io_error.splits)
qed simp

section \<open>Every call keeps the tree well-formed\<close>

lemma set_node_mem: "(p, m) \<in> set (set_node q n t) \<Longrightarrow> (p, m) = (q, n) \<or> (p, m) \<in> set t"
  unfolding set_node_def by (induction t) (auto split: if_splits)

lemma wf_set_node:
  assumes wf: "wf_tree t" and q: "q \<noteq> []" "node_at t (butlast q) = Some DirNode" "normal_name (last q)"
    and new: "node_at t q \<noteq> Some DirNode"
  shows "wf_tree (set_node q n t)"
  unfolding wf_tree_def
proof (intro conjI ballI)
  show "distinct (map fst (set_node q n t))"
    using wf unfolding wf_tree_def set_node_def by (simp add: distinct_update)
  fix e assume e: "e \<in> set (set_node q n t)"
  obtain p m where pm: "e = (p, m)" by fastforce
  have "p \<noteq> [] \<and> node_at t (butlast p) = Some DirNode \<and> normal_name (last p)"
  proof (cases "p = q")
    case False
    with e pm have "(p, m) \<in> set t" using set_node_mem by blast
    then show ?thesis using wf unfolding wf_tree_def by blast
  qed (use q in simp)
  moreover from this new have "butlast p \<noteq> q" by auto
  ultimately show "case e of (p, n') \<Rightarrow> p \<noteq> [] \<and> node_at (set_node q n t) (butlast p) = Some DirNode \<and> normal_name (last p)"
    using pm by simp
qed

lemma wf_update_file:
  assumes "wf_tree t"
  shows "wf_tree (update_file q f t)"
proof (cases "node_at t q")
  case (Some n)
  show ?thesis
  proof (cases n)
    case (FileNode bs)
    have "q \<noteq> []" using Some FileNode by auto
    with wf_treeD [OF assms Some] Some FileNode show ?thesis
      by (simp add: update_file_def wf_set_node [OF assms])
  qed (use Some assms in \<open>simp_all add: update_file_def\<close>)
qed (simp add: update_file_def assms)

lemma wf_remove_below:
  assumes "wf_tree t"
  shows "wf_tree (remove_below q t)"
  unfolding wf_tree_def
proof (intro conjI ballI)
  show "distinct (map fst (remove_below q t))"
    using assms unfolding wf_tree_def remove_below_def by (simp add: distinct_map_filter)
  fix e assume e: "e \<in> set (remove_below q t)"
  obtain p m where pm: "e = (p, m)" by fastforce
  with e have "(p, m) \<in> set t" "\<not> prefix q p" by (auto simp: remove_below_def)
  moreover from this have "\<not> prefix q (butlast p)"
    using prefix_order.order_trans [OF _ prefixeq_butlast] by blast
  moreover have "p \<noteq> [] \<and> node_at t (butlast p) = Some DirNode \<and> normal_name (last p)"
    using assms calculation(1) unfolding wf_tree_def by blast
  ultimately show "case e of (p, n) \<Rightarrow> p \<noteq> [] \<and> node_at (remove_below q t) (butlast p) = Some DirNode \<and> normal_name (last p)"
    using pm by simp
qed

lemma entry_placeD:
  assumes "entry_place t p = Inr q"
  shows "q \<noteq> []" and "node_at t (butlast q) = Some DirNode" and "normal_name (last q)"
    and "q = butlast q @ [last p]" and "canonicalize t (butlast p) = Inr (butlast q)" and "p \<noteq> []"
  using assms by (auto simp: entry_place_def split: if_splits sum.splits)

lemma wf_mkdir: "wf_tree t \<Longrightarrow> mkdir t p = Inr t' \<Longrightarrow> wf_tree t'"
  by (auto simp: mkdir_def dest: entry_placeD intro: wf_set_node split: sum.splits if_splits)

lemma wf_make_dirs: "wf_tree t \<Longrightarrow> wf_tree (snd (make_dirs t r))"
proof (induction t r rule: make_dirs.induct)
  case (2 t c r)
  show ?case
  proof (cases "mkdir t (rev (c # r))")
    case (Inr t')
    with wf_mkdir [OF 2(2) Inr] show ?thesis by simp
  next
    case (Inl e)
    show ?thesis
    proof (cases "e = NotFound")
      case True
      have IH: "wf_tree (snd (make_dirs t r))" by (rule 2(1) [OF Inl True 2(2)])
      then show ?thesis using Inl True wf_mkdir [OF IH]
        by (auto split: sum.splits prod.splits)
    next
      case False
      with Inl 2(2) show ?thesis by (cases e) auto
    qed
  qed
qed simp

lemma entry_names_mem:
  assumes wf: "wf_tree t" and n: "node_at t (d @ [c]) = Some n"
  shows "c \<in> set (entry_names t d)"
proof -
  have "(d @ [c], n) \<in> set t" using n by (simp add: node_at_def map_of_SomeD)
  then have "(d @ [c], n) \<in> set (filter (\<lambda>e. fst e \<noteq> [] \<and> butlast (fst e) = d) t)" by simp
  then have "(last \<circ> fst) (d @ [c], n) \<in> set (entry_names t d)"
    unfolding entry_names_def set_map by (rule imageI)
  then show ?thesis by simp
qed

lemma rename_disjoint:
  assumes wf: "wf_tree t" and ok: "rename_error t a b = None" and ne: "a \<noteq> b" "b \<noteq> []"
  shows "\<not> prefix a b" and "\<not> prefix b a" and "node_at t a \<noteq> None"
proof -
  show a: "node_at t a \<noteq> None" using ok by (cases "node_at t a") (auto simp: rename_error_def)
  show "\<not> prefix a b" using ok ne by (auto simp: rename_error_def strict_prefix_def split: option.splits if_splits)
  show "\<not> prefix b a"
  proof
    assume "prefix b a"
    then obtain r where r: "a = b @ r" by (auto simp: prefix_def)
    with ne obtain c rs where c: "r = c # rs" by (cases r) auto
    have "node_at t b = Some DirNode" using wf_tree_above [OF wf] a r c by blast
    moreover have "\<exists>n. node_at t (b @ [c]) = Some n"
      using wf_tree_above [OF wf, of "b @ [c]" rs] a r c by (cases rs) auto
    ultimately have "entry_names t b \<noteq> []" using entry_names_mem [OF wf] by force
    with ok ne \<open>node_at t b = Some DirNode\<close> show False
      by (auto simp: rename_error_def split: option.splits if_splits)
  qed
qed

lemma wf_move_below:
  assumes wf: "wf_tree t" and ok: "rename_error t a b = None"
    and b: "b \<noteq> []" "node_at t (butlast b) = Some DirNode" "normal_name (last b)"
  shows "wf_tree (move_below a b t)"
proof (cases "a = b")
  case True
  then show ?thesis using wf by (simp add: move_below_def)
next
  case False
  note dis = rename_disjoint [OF wf ok False b(1)]
  note at = node_at_move_below [OF dis(1,2)]
  show ?thesis
    unfolding wf_tree_def
  proof (intro conjI ballI)
    have "inj_on (move_entry a b) (set (map fst (remove_below b t)))"
    proof (rule inj_onI)
      fix p q assume "p \<in> set (map fst (remove_below b t))" "q \<in> set (map fst (remove_below b t))"
      then have np: "\<not> prefix b p" "\<not> prefix b q" by (auto simp: remove_below_def)
      assume "move_entry a b p = move_entry a b q"
      with np show "p = q"
        by (auto simp: move_entry_def prefix_def split: if_splits)
    qed
    moreover have "distinct (map fst (remove_below b t))"
      using wf_remove_below [OF wf] unfolding wf_tree_def by blast
    ultimately have "distinct (map (move_entry a b) (map fst (remove_below b t)))"
      using distinct_map by blast
    moreover have "map fst (move_below a b t) = map (move_entry a b) (map fst (remove_below b t))"
      using False by (auto simp: move_below_def)
    ultimately show "distinct (map fst (move_below a b t))" by simp
  next
    fix e assume e: "e \<in> set (move_below a b t)"
    obtain p' n where pn: "e = (p', n)" by fastforce
    from e pn False obtain p where p: "(p, n) \<in> set t" "\<not> prefix b p" "p' = move_entry a b p"
      by (auto simp: move_below_def remove_below_def)
    have wfp: "p \<noteq> []" "node_at t (butlast p) = Some DirNode" "normal_name (last p)"
      using wf p(1) unfolding wf_tree_def by blast+
    have up: "prefix x (butlast p) \<Longrightarrow> prefix x p" for x
      using prefix_order.order_trans [OF _ prefixeq_butlast] by blast
    have upb: "prefix x (butlast b) \<Longrightarrow> prefix x b" for x
      using prefix_order.order_trans [OF _ prefixeq_butlast] by blast
    have "p' \<noteq> [] \<and> node_at (move_below a b t) (butlast p') = Some DirNode \<and> normal_name (last p')"
    proof (cases "prefix a p")
      case True
      then obtain r where r: "p = a @ r" by (auto simp: prefix_def)
      then have p': "p' = b @ r" using p(3) by (simp add: move_entry_def)
      show ?thesis
      proof (cases "r = []")
        case True
        have "length (butlast b) < length b" using b(1) by simp
        then have "\<not> prefix b (butlast b)" using prefix_length_le by fastforce
        moreover have "\<not> prefix a (butlast b)" using upb dis(1) by blast
        ultimately have "node_at (move_below a b t) (butlast b) = Some DirNode"
          using b(2) at by (cases "butlast b = []") auto
        with True p' b show ?thesis by simp
      next
        case False
        have "a @ butlast r \<noteq> []" using dis(1) by auto
        then have "map_of t (a @ butlast r) = Some DirNode"
          using wfp(2) r False by (simp add: butlast_append node_at_def split: if_splits)
        then have "node_at (move_below a b t) (b @ butlast r) = Some DirNode"
          using b(1) at by simp
        with False p' b(1) wfp(3) r show ?thesis by (simp add: butlast_append)
      qed
    next
      case na: False
      then have "p' = p" using p(3) by (simp add: move_entry_def)
      moreover have "node_at (move_below a b t) (butlast p) = Some DirNode"
        using wfp(2) at up p(2) na by (cases "butlast p = []") auto
      ultimately show ?thesis using wfp by simp
    qed
    then show "case e of (p, n) \<Rightarrow> p \<noteq> [] \<and> node_at (move_below a b t) (butlast p) = Some DirNode \<and> normal_name (last p)"
      using pn by simp
  qed
qed

definition tree_kept :: "'z fs_state_scheme \<Rightarrow> 'z fs_state_scheme \<Rightarrow> bool" where
  "tree_kept s t = (wf_tree (disk s) \<longrightarrow> wf_tree (disk t))"

interpretation tree_frame: frame tree_kept
  by unfold_locales (auto simp: tree_kept_def)

lemma kept_sys:
  assumes "\<And>t. wf_tree t \<Longrightarrow> wf_tree (snd (f t))"
  shows "preserves tree_kept (sys f)"
proof (rule preservesI)
  fix s r t
  assume "sys f s = (r, t)"
  then show "tree_kept s t"
    using assms [of "disk s"]
    by (auto simp: tree_kept_def sys_def Let_def split: prod.splits if_splits)
qed

lemma kept_calls [frame_intros]:
  "preserves tree_kept (create_dir_all p)" "preserves tree_kept (open_create p)"
  "preserves tree_kept (open_new p)" "preserves tree_kept (open_read p)"
  "preserves tree_kept (read_to_end q)" "preserves tree_kept handle_call"
  "preserves tree_kept (set_len_zero q)" "preserves tree_kept (write_all k q bs)"
  "preserves tree_kept (remove_file p)" "preserves tree_kept (remove_dir_all p)"
  "preserves tree_kept (rename p p')" "preserves tree_kept (read_dir p)"
proof -
  show "preserves tree_kept (create_dir_all p)"
    unfolding create_dir_all_def by (rule kept_sys) (rule wf_make_dirs)
  show "preserves tree_kept (open_create p)"
    unfolding open_create_def
  proof (rule kept_sys)
    fix t assume wf: "wf_tree t"
    have "wf_tree (set_node q (FileNode []) t)" if h: "place t p = Inr q" "node_at t q = None" for q
    proof (rule wf_set_node [OF wf])
      show "q \<noteq> []" using h(2) by auto
      with locate_place [OF wf h(1) [unfolded place_def]]
      show "node_at t (butlast q) = Some DirNode" "normal_name (last q)" by simp_all
    qed (use h(2) in simp)
    with wf show "wf_tree (snd (case place t p of Inl e \<Rightarrow> (Inl e, t)
        | Inr q \<Rightarrow> (case node_at t q of None \<Rightarrow> (Inr q, set_node q (FileNode []) t)
            | Some (FileNode _) \<Rightarrow> (Inr q, t) | Some _ \<Rightarrow> (Inl IsADirectory, t))))"
      by (auto split: sum.splits option.splits node.splits)
  qed
  show "preserves tree_kept (open_new p)"
    unfolding open_new_def
    by (rule kept_sys) (auto dest: entry_placeD intro: wf_set_node split: sum.splits)
  show "preserves tree_kept (open_read p)" unfolding open_read_def by (rule kept_sys) simp
  show "preserves tree_kept (read_to_end q)"
    unfolding read_to_end_def by (rule kept_sys) (simp split: option.splits node.splits)
  show "preserves tree_kept handle_call" unfolding handle_call_def by (rule kept_sys) simp
  show "preserves tree_kept (set_len_zero q)"
    unfolding set_len_zero_def by (rule kept_sys) (simp add: wf_update_file)
  show "preserves tree_kept (write_all k q bs)"
    by (auto simp: preserves_def tree_kept_def write_all_def Let_def wf_update_file split: if_splits)
  show "preserves tree_kept (remove_file p)"
    unfolding remove_file_def
    by (rule kept_sys) (auto simp: wf_remove_below split: sum.splits option.splits node.splits)
  show "preserves tree_kept (remove_dir_all p)"
    unfolding remove_dir_all_def
    by (rule kept_sys) (auto simp: wf_remove_below split: sum.splits option.splits node.splits)
  show "preserves tree_kept (rename p p')"
    unfolding rename_def
    by (rule kept_sys) (auto dest: entry_placeD intro: wf_move_below split: sum.splits option.splits)
  show "preserves tree_kept (read_dir p)"
    unfolding read_dir_def by (rule kept_sys) (simp split: sum.splits)
qed

end
