(* ===== verification/LocalStorage.thy ===== *)
theory LocalStorage
  imports StoragePath FileSystem
begin

text \<open>
  The storage on the local file system (crates/storage/src/local/mod.rs, local/stream.rs) and the
  metadata it keeps in sidecar files (crates/storage/src/fs/file_meta.rs, fs/file.rs, fs/content.rs,
  fs/path.rs, crates/storage/src/meta/mod.rs).

  A path is the list of its components; joining a component to a path appends it, which is what
  \<open>PathBuf::join\<close> does with a component of a storage path (it is not empty and has no separator).
  The state adds to the tree of \<open>FileSystem\<close> the clock, the times the operating system reports, the
  map of precomputed hashes, and the queue of the task that brings sidecars up to date; one step of
  that task is \<open>meta_update_step\<close>. Operations run one after the other. Third-party code is the record
  \<open>local_env\<close>: the digests in base64, the binary form of the metadata (postcard), the guess of a MIME
  type and the text of an identifier.
\<close>

section \<open>Data\<close>

record file_hashes =
  fh_md5 :: "string option"
  fh_sha1 :: "string option"
  fh_sha2_256 :: "string option"
  fh_sha3_256 :: "string option"

record repository_meta =
  rm_project_id :: "uuid option"
  rm_project_version_id :: "uuid option"
  rm_extra_meta :: "string \<rightharpoonup> string"

definition meta_insert :: "string \<Rightarrow> string \<Rightarrow> repository_meta \<Rightarrow> repository_meta" where
  "meta_insert k v m = m\<lparr>rm_extra_meta := (rm_extra_meta m)(k \<mapsto> v)\<rparr>"

definition meta_has_key :: "string \<Rightarrow> repository_meta \<Rightarrow> bool" where
  "meta_has_key k m = (rm_extra_meta m k \<noteq> None)"

definition meta_get :: "string \<Rightarrow> repository_meta \<Rightarrow> string option" where
  "meta_get k m = rm_extra_meta m k"

definition set_project_id :: "uuid \<Rightarrow> repository_meta \<Rightarrow> repository_meta" where
  "set_project_id k m = m\<lparr>rm_project_id := Some k\<rparr>"

definition set_version_id :: "uuid \<Rightarrow> repository_meta \<Rightarrow> repository_meta" where
  "set_version_id k m = m\<lparr>rm_project_version_id := Some k\<rparr>"

definition default_repository_meta :: repository_meta where
  "default_repository_meta =
     \<lparr>rm_project_id = None, rm_project_version_id = None, rm_extra_meta = Map.empty\<rparr>"

datatype location_typed_meta = DirectoryMeta nat | FileMeta file_hashes

record location_meta =
  lm_created :: instant
  lm_modified :: instant
  lm_typed :: location_typed_meta
  lm_repository :: repository_meta

datatype wrong_file_type = ExpectedFile | ExpectedDirectory

datatype local_error =
  IOError io_error
  | PathCollision storage_path storage_path
  | Postcard
  | WrongFileType wrong_file_type
  | PathCannotBeChanged
  | InvalidConfigType
  | MetaUpdateChannelClosed
  | InvalidStoragePath storage_path_error
  | OtherError

datatype file_content = ContentPath fspath | Content bytes | Bytes bytes

record local_env =
  le_md5 :: "bytes \<Rightarrow> string"
  le_sha1 :: "bytes \<Rightarrow> string"
  le_sha2_256 :: "bytes \<Rightarrow> string"
  le_sha3_256 :: "bytes \<Rightarrow> string"
  le_to_postcard :: "location_meta \<Rightarrow> bytes"
  le_from_postcard :: "bytes \<Rightarrow> location_meta option"
  le_uuid_text :: "uuid \<Rightarrow> string"
  le_mime_guess :: "string \<Rightarrow> string"

definition generate_from_bytes :: "local_env \<Rightarrow> bytes \<Rightarrow> file_hashes" where
  "generate_from_bytes e buffer =
     \<lparr>fh_md5 = Some (le_md5 e buffer), fh_sha1 = Some (le_sha1 e buffer),
      fh_sha2_256 = Some (le_sha2_256 e buffer), fh_sha3_256 = Some (le_sha3_256 e buffer)\<rparr>"

record local_state = fs_state +
  clock :: instant
  os_created :: "fspath \<Rightarrow> instant option"
  os_modified :: "fspath \<Rightarrow> instant option"
  new_ids :: "uuid list"
  partial_write :: nat
  precomputed :: "fspath \<rightharpoonup> file_hashes"
  meta_queue :: "fspath list"
  unloaded :: bool

type_synonym ('z, 'a) local_op = "('z local_state_scheme, local_error, 'a) stm"

definition io :: "('s, io_error, 'a) stm \<Rightarrow> ('s, local_error, 'a) stm" where
  "io m = map_err IOError m"

definition look :: "('s \<Rightarrow> 'a) \<Rightarrow> ('s, 'e, 'a) stm" where
  "look g s = ret (g s) s"

definition set_state :: "('s \<Rightarrow> 's) \<Rightarrow> ('s, 'e, unit) stm" where
  "set_state u s = (Inr (), u s)"

section \<open>Names\<close>

text \<open>\<open>Path::file_name\<close>, \<open>Path::extension\<close>, \<open>Path::file_stem\<close>, \<open>PathBuf::set_extension\<close>.\<close>

definition file_name :: "fspath \<Rightarrow> string option" where
  "file_name p = (if p = [] \<or> last p = ''..'' then None else Some (last p))"

definition name_extension :: "string \<Rightarrow> string option" where
  "name_extension n =
     (case rsplit_once ''.'' n of
        None \<Rightarrow> None
      | Some (before, after) \<Rightarrow> if before = [] then None else Some after)"

definition name_stem :: "string \<Rightarrow> string" where
  "name_stem n =
     (case rsplit_once ''.'' n of
        None \<Rightarrow> n
      | Some (before, after) \<Rightarrow> if before = [] then n else before)"

definition extension :: "fspath \<Rightarrow> string option" where
  "extension p = (case file_name p of None \<Rightarrow> None | Some n \<Rightarrow> name_extension n)"

definition set_extension :: "string \<Rightarrow> fspath \<Rightarrow> fspath" where
  "set_extension ext p =
     (case file_name p of
        None \<Rightarrow> p
      | Some n \<Rightarrow> butlast p @ [if ext = [] then name_stem n else name_stem n @ ''.'' @ ext])"

definition add_extension :: "string \<Rightarrow> fspath \<Rightarrow> fspath" where
  "add_extension ext p =
     (case extension p of
        Some old_extension \<Rightarrow> set_extension (old_extension @ ''.'' @ ext) p
      | None \<Rightarrow> set_extension ext p)"

definition is_hidden_file :: "fspath \<Rightarrow> bool" where
  "is_hidden_file p =
     ((case file_name p of
         Some n \<Rightarrow> n = ''.nr-meta'' \<or> contains_str ''.nr-meta.tmp-'' n
       | None \<Rightarrow> False) \<or>
      extension p = Some ''nr-meta'')"

definition meta_path :: "tree \<Rightarrow> fspath \<Rightarrow> fspath" where
  "meta_path t p = (if path_is_dir t p then p @ [''.nr-meta''] else add_extension ''nr-meta'' p)"

section \<open>Metadata in sidecar files\<close>

text \<open>\<open>DirectoryMeta::recount_files\<close>.\<close>

definition count_files :: "fspath \<Rightarrow> ('z, nat) local_op" where
  "count_files p =
     bind_ok (io (read_dir p)) (\<lambda>names.
       ret (length (filter (\<lambda>n. \<not> is_hidden_file (p @ [n])) names)))"

definition generate_hashes_from_path :: "local_env \<Rightarrow> fspath \<Rightarrow> ('z, file_hashes) local_op" where
  "generate_hashes_from_path e p =
     bind_ok (io (open_read p)) (\<lambda>file.
     bind_ok (io (read_to_end file)) (\<lambda>bs. ret (generate_from_bytes e bs)))"

text \<open>\<open>LocationTypedMeta::update\<close>.\<close>

definition typed_update ::
  "local_env \<Rightarrow> fspath \<Rightarrow> file_hashes option \<Rightarrow> location_typed_meta \<Rightarrow> ('z, location_typed_meta) local_op" where
  "typed_update e p hashes m =
     (case m of
        DirectoryMeta _ \<Rightarrow> bind_ok (count_files p) (\<lambda>n. ret (DirectoryMeta n))
      | FileMeta _ \<Rightarrow>
          (case hashes of
             Some h \<Rightarrow> ret (FileMeta h)
           | None \<Rightarrow> bind_ok (generate_hashes_from_path e p) (\<lambda>h. ret (FileMeta h))))"

definition take_id :: "('z, uuid) local_op" where
  "take_id s = (case new_ids s of [] \<Rightarrow> (Inr 0, s) | i # is \<Rightarrow> (Inr i, s\<lparr>new_ids := is\<rparr>))"

definition with_file_name :: "string \<Rightarrow> fspath \<Rightarrow> fspath" where
  "with_file_name n p = butlast p @ [n]"

text \<open>The sidecar is written under a temporary name and renamed; a failing write leaves the temporary
  file behind, a failing rename removes it.\<close>

definition put_in_place :: "fspath \<Rightarrow> fspath \<Rightarrow> ('z, unit) local_op" where
  "put_in_place tmp_path mp =
     bind_res (io (rename tmp_path mp)) (\<lambda>renamed.
       case renamed of
         Inl err \<Rightarrow> bind_res (io (remove_file tmp_path)) (\<lambda>_. fail err)
       | Inr _ \<Rightarrow> ret ())"

definition replace_file :: "fspath \<Rightarrow> fspath \<Rightarrow> bytes \<Rightarrow> ('z, unit) local_op" where
  "replace_file tmp_path mp bs =
     bind_ok (io (open_new tmp_path)) (\<lambda>tmp_file.
     bind_ok (look partial_write) (\<lambda>k.
     bind_ok (io (write_all k tmp_file bs)) (\<lambda>_.
     bind_ok (io handle_call) (\<lambda>_. put_in_place tmp_path mp))))"

definition save_meta :: "local_env \<Rightarrow> location_meta \<Rightarrow> fspath \<Rightarrow> ('z, unit) local_op" where
  "save_meta e meta p =
     bind_ok (look (\<lambda>s. meta_path (disk s) p)) (\<lambda>mp.
     case file_name mp of
       None \<Rightarrow> fail (IOError InvalidData)
     | Some name \<Rightarrow>
         bind_ok take_id (\<lambda>i.
           replace_file (with_file_name (name @ ''.tmp-'' @ le_uuid_text e i @ ''.nr-meta'') mp) mp
             (le_to_postcard e meta)))"

definition read_meta_file :: "local_env \<Rightarrow> fspath \<Rightarrow> ('z, location_meta) local_op" where
  "read_meta_file e mp =
     bind_ok (io (open_read mp)) (\<lambda>file.
     bind_ok (io (read_to_end file)) (\<lambda>bs.
       case le_from_postcard e bs of None \<Rightarrow> fail Postcard | Some meta \<Rightarrow> ret meta))"

text \<open>The second half of \<open>get_or_default_local\<close>: a new sidecar from what the file system shows.\<close>

definition generate_meta ::
  "local_env \<Rightarrow> fspath \<Rightarrow> file_hashes option \<Rightarrow> ('z, location_meta \<times> bool) local_op" where
  "generate_meta e p hashes =
     bind_ok (io (open_read p)) (\<lambda>file.
     bind_ok (look (\<lambda>s. (case os_created s file of Some c \<Rightarrow> c | None \<Rightarrow> clock s,
                         case os_modified s file of Some m \<Rightarrow> m | None \<Rightarrow> clock s))) (\<lambda>(created, modified).
     bind_ok (look (\<lambda>s. path_is_dir (disk s) p)) (\<lambda>dir.
     bind_ok
       (if dir then bind_ok (count_files p) (\<lambda>n. ret (DirectoryMeta n))
        else case hashes of
            Some h \<Rightarrow> ret (FileMeta h)
          | None \<Rightarrow> bind_ok (generate_hashes_from_path e p) (\<lambda>h. ret (FileMeta h)))
       (\<lambda>typed.
          let meta = \<lparr>lm_created = created, lm_modified = modified, lm_typed = typed,
                      lm_repository = default_repository_meta\<rparr>
          in bind_ok (save_meta e meta p) (\<lambda>_. ret (meta, True))))))"

definition get_or_default_local ::
  "local_env \<Rightarrow> fspath \<Rightarrow> file_hashes option \<Rightarrow> ('z, location_meta \<times> bool) local_op" where
  "get_or_default_local e p hashes =
     bind_ok (look (\<lambda>s. meta_path (disk s) p)) (\<lambda>mp.
     bind_ok (look (\<lambda>s. path_exists (disk s) mp)) (\<lambda>there.
       if there then
         bind_res (read_meta_file e mp) (\<lambda>read.
           case read of
             Inr meta \<Rightarrow> ret (meta, False)
           | Inl Postcard \<Rightarrow> generate_meta e p hashes
           | Inl err \<Rightarrow> fail err)
       else generate_meta e p hashes))"

definition create_meta_or_update :: "local_env \<Rightarrow> fspath \<Rightarrow> file_hashes option \<Rightarrow> ('z, unit) local_op" where
  "create_meta_or_update e p hashes =
     bind_ok (get_or_default_local e p hashes) (\<lambda>(meta, was_created).
       if was_created then ret ()
       else bind_ok (typed_update e p hashes (lm_typed meta)) (\<lambda>typed.
            bind_ok (look clock) (\<lambda>now.
              save_meta e (meta\<lparr>lm_typed := typed, lm_modified := now\<rparr>) p)))"

definition delete_local :: "fspath \<Rightarrow> ('z, unit) local_op" where
  "delete_local p =
     bind_ok (look (\<lambda>s. meta_path (disk s) p)) (\<lambda>mp.
     bind_ok (look (\<lambda>s. path_exists (disk s) mp)) (\<lambda>there.
       if there then io (remove_file mp) else ret ()))"

definition set_repository_meta :: "local_env \<Rightarrow> fspath \<Rightarrow> repository_meta \<Rightarrow> ('z, unit) local_op" where
  "set_repository_meta e p repository_meta =
     bind_ok (get_or_default_local e p None) (\<lambda>(meta, _).
       save_meta e (meta\<lparr>lm_repository := repository_meta\<rparr>) p)"

definition dir_meta_or_err :: "location_meta \<Rightarrow> local_error + nat" where
  "dir_meta_or_err m =
     (case lm_typed m of DirectoryMeta n \<Rightarrow> Inr n | FileMeta _ \<Rightarrow> Inl (WrongFileType ExpectedDirectory))"

definition file_meta_or_err :: "location_meta \<Rightarrow> local_error + file_hashes" where
  "file_meta_or_err m =
     (case lm_typed m of FileMeta h \<Rightarrow> Inr h | DirectoryMeta _ \<Rightarrow> Inl (WrongFileType ExpectedFile))"

section \<open>What a reader of the storage gets\<close>

record file_file_type =
  ff_size :: nat
  ff_mime_type :: "string option"
  ff_hash :: file_hashes

datatype file_type = TypeFile file_file_type | TypeDirectory nat

record 'ft storage_file_meta =
  sf_name :: string
  sf_file_type :: 'ft
  sf_modified :: instant
  sf_created :: instant

datatype storage_file =
  SDirectory "nat storage_file_meta" "file_type storage_file_meta list"
  | SFile "file_file_type storage_file_meta" bytes

definition map_type :: "('a \<Rightarrow> 'b) \<Rightarrow> 'a storage_file_meta \<Rightarrow> 'b storage_file_meta" where
  "map_type f m =
     \<lparr>sf_name = sf_name m, sf_file_type = f (sf_file_type m), sf_modified = sf_modified m,
      sf_created = sf_created m\<rparr>"

definition get_file_name :: "fspath \<Rightarrow> local_error + string" where
  "get_file_name p = (case file_name p of Some n \<Rightarrow> Inr n | None \<Rightarrow> Inl (IOError InvalidData))"

definition mime_type_for_file :: "local_env \<Rightarrow> fspath \<Rightarrow> string option" where
  "mime_type_for_file e p =
     (if extension p = Some ''nr-meta'' then Some ''application/json''
      else Some (le_mime_guess e (case file_name p of Some n \<Rightarrow> n | None \<Rightarrow> [])))"

definition file_bytes :: "tree \<Rightarrow> fspath \<Rightarrow> bytes" where
  "file_bytes t q = (case node_at t q of Some (FileNode bs) \<Rightarrow> bs | _ \<Rightarrow> [])"

definition path_is_file :: "tree \<Rightarrow> fspath \<Rightarrow> bool" where
  "path_is_file t p = (case metadata t p of Inr (FileNode _) \<Rightarrow> True | _ \<Rightarrow> False)"

definition read_from_directory :: "local_env \<Rightarrow> fspath \<Rightarrow> ('z, nat storage_file_meta) local_op" where
  "read_from_directory e p =
     bind_ok (look (\<lambda>s. path_is_file (disk s) p)) (\<lambda>is_file.
       if is_file then fail (WrongFileType ExpectedDirectory)
       else bind_ok (get_or_default_local e p None) (\<lambda>(meta, _).
            bind_ok (from_result (dir_meta_or_err meta)) (\<lambda>n.
            bind_ok (from_result (get_file_name p)) (\<lambda>name.
              ret \<lparr>sf_name = name, sf_file_type = n, sf_modified = lm_modified meta,
                   sf_created = lm_created meta\<rparr>))))"

definition read_from_file :: "local_env \<Rightarrow> fspath \<Rightarrow> ('z, file_file_type storage_file_meta) local_op" where
  "read_from_file e p =
     bind_ok (look (\<lambda>s. path_is_dir (disk s) p)) (\<lambda>dir.
       if dir then fail (WrongFileType ExpectedFile)
       else bind_ok (io (open_read p)) (\<lambda>file.
            bind_ok (get_or_default_local e p None) (\<lambda>(meta, _).
            bind_ok (look (\<lambda>s. length (file_bytes (disk s) file))) (\<lambda>size.
            bind_ok (from_result (file_meta_or_err meta)) (\<lambda>hashes.
            bind_ok (from_result (get_file_name p)) (\<lambda>name.
              ret \<lparr>sf_name = name,
                   sf_file_type = \<lparr>ff_size = size, ff_mime_type = mime_type_for_file e p, ff_hash = hashes\<rparr>,
                   sf_modified = lm_modified meta, sf_created = lm_created meta\<rparr>))))))"

definition read_from_path :: "local_env \<Rightarrow> fspath \<Rightarrow> ('z, file_type storage_file_meta) local_op" where
  "read_from_path e p =
     bind_ok (look (\<lambda>s. path_is_dir (disk s) p)) (\<lambda>dir.
       if dir then bind_ok (read_from_directory e p) (\<lambda>m. ret (map_type TypeDirectory m))
       else bind_ok (read_from_file e p) (\<lambda>m. ret (map_type TypeFile m)))"

section \<open>From storage paths to files\<close>

definition repository_root :: "local_env \<Rightarrow> fspath \<Rightarrow> uuid \<Rightarrow> fspath" where
  "repository_root e base repository = base @ [le_uuid_text e repository]"

definition get_path :: "local_env \<Rightarrow> fspath \<Rightarrow> uuid \<Rightarrow> storage_path \<Rightarrow> fspath" where
  "get_path e base repository location = repository_root e base repository @ components location"

text \<open>The nearest ancestor that exists, in its canonical form; the path is given from its end.\<close>

fun canonicalize_existing :: "tree \<Rightarrow> string list \<Rightarrow> local_error + fspath" where
  "canonicalize_existing t [] = (case canonicalize t [] of Inr q \<Rightarrow> Inr q | Inl e \<Rightarrow> Inl (IOError e))"
| "canonicalize_existing t (c # r) =
     (case canonicalize t (rev (c # r)) of
        Inr q \<Rightarrow> Inr q
      | Inl NotFound \<Rightarrow> canonicalize_existing t r
      | Inl e \<Rightarrow> Inl (IOError e))"

definition ensure_path_within_repository ::
  "local_env \<Rightarrow> fspath \<Rightarrow> tree \<Rightarrow> fspath \<Rightarrow> uuid \<Rightarrow> local_error + unit" where
  "ensure_path_within_repository e base t p repository =
     (case canonicalize_existing t (rev (repository_root e base repository)) of
        Inl err \<Rightarrow> Inl err
      | Inr canonical_root \<Rightarrow>
          (case canonicalize_existing t (rev p) of
             Inl err \<Rightarrow> Inl err
           | Inr canonical_path \<Rightarrow>
               if prefix canonical_root canonical_path then Inr () else Inl (InvalidStoragePath InvalidPath)))"

definition checked_path ::
  "local_env \<Rightarrow> fspath \<Rightarrow> tree \<Rightarrow> uuid \<Rightarrow> storage_path \<Rightarrow> local_error + fspath" where
  "checked_path e base t repository location =
     (case validate location of
        Inl err \<Rightarrow> Inl (InvalidStoragePath err)
      | Inr _ \<Rightarrow>
          let root = repository_root e base repository; p = get_path e base repository location
          in if \<not> prefix root p then Inl (InvalidStoragePath InvalidPath)
             else case ensure_path_within_repository e base t p repository of
                 Inl err \<Rightarrow> Inl err
               | Inr _ \<Rightarrow> Inr p)"

record create_path =
  cp_path :: fspath
  cp_parent_directory :: fspath
  cp_new_directory_start :: "fspath option"

text \<open>One turn of the loop of \<open>get_path_for_creation\<close>: the part is appended; until the first part that is
  missing the path is looked up. \<open>final\<close> says that no part follows.\<close>

definition enter_part :: "bool \<Rightarrow> string \<Rightarrow> create_path \<Rightarrow> create_path" where
  "enter_part final part cp =
     (if final then cp\<lparr>cp_parent_directory := cp_path cp\<rparr> else cp)\<lparr>cp_path := cp_path cp @ [part]\<rparr>"

definition check_part ::
  "tree \<Rightarrow> storage_path \<Rightarrow> storage_path \<Rightarrow> bool \<Rightarrow> create_path \<Rightarrow> local_error + create_path" where
  "check_part t location conflicting final cp =
     (if cp_new_directory_start cp \<noteq> None then Inr cp
      else case metadata t (cp_path cp) of
          Inr DirNode \<Rightarrow> Inr cp
        | Inr (FileNode _) \<Rightarrow> if \<not> final then Inl (PathCollision location conflicting) else Inr cp
        | Inr (LinkNode _ _) \<Rightarrow> Inr cp
        | Inl NotFound \<Rightarrow> Inr (cp\<lparr>cp_new_directory_start := Some (cp_path cp)\<rparr>)
        | Inl err \<Rightarrow> Inl (IOError err))"

fun creation_walk ::
  "tree \<Rightarrow> storage_path \<Rightarrow> create_path \<Rightarrow> storage_path \<Rightarrow> string list \<Rightarrow> local_error + create_path" where
  "creation_walk t location cp conflicting [] = Inr cp"
| "creation_walk t location cp conflicting (part # rest) =
     (case check_part t location (push conflicting part) (rest = []) (enter_part (rest = []) part cp) of
        Inl err \<Rightarrow> Inl err
      | Inr cp' \<Rightarrow> creation_walk t location cp' (push conflicting part) rest)"

definition get_path_for_creation ::
  "local_env \<Rightarrow> fspath \<Rightarrow> tree \<Rightarrow> uuid \<Rightarrow> storage_path \<Rightarrow> local_error + create_path" where
  "get_path_for_creation e base t repository location =
     (case validate location of
        Inl err \<Rightarrow> Inl (InvalidStoragePath err)
      | Inr _ \<Rightarrow>
          let root = repository_root e base repository
          in case creation_walk t location
                 \<lparr>cp_path = root, cp_parent_directory = root, cp_new_directory_start = None\<rparr>
                 (from_components []) (components location) of
               Inl err \<Rightarrow> Inl err
             | Inr cp \<Rightarrow>
                 (case ensure_path_within_repository e base t (cp_path cp) repository of
                    Inl err \<Rightarrow> Inl err
                  | Inr _ \<Rightarrow> Inr cp))"

text \<open>Which sidecars are to be brought up to date after a file was saved, in the order in which they
  are queued.\<close>

fun ancestors_along :: "fspath \<Rightarrow> string list \<Rightarrow> fspath list" where
  "ancestors_along next_path [] = []"
| "ancestors_along next_path (part # rest) = next_path # ancestors_along (next_path @ [part]) rest"

definition meta_updates :: "fspath \<Rightarrow> fspath \<Rightarrow> fspath option \<Rightarrow> fspath list" where
  "meta_updates base p greatest_parent =
     (case greatest_parent of
        Some start \<Rightarrow>
          (if p = [] \<or> butlast p = base then [] else [butlast p]) @
          ancestors_along start (case strip_prefix start p of Some r \<Rightarrow> r | None \<Rightarrow> [])
      | None \<Rightarrow> p # (if p = [] then [] else [butlast p]))"

text \<open>\<open>run_post_save_file\<close>; after \<open>unload\<close> the queue is closed and the error is only logged.\<close>

definition run_post_save_file :: "fspath \<Rightarrow> fspath \<Rightarrow> fspath option \<Rightarrow> ('z, unit) local_op" where
  "run_post_save_file base p new_directory_start =
     set_state (\<lambda>s. if unloaded s then s
                    else s\<lparr>meta_queue := meta_queue s @ meta_updates base p new_directory_start\<rparr>)"

section \<open>Operations\<close>

definition write_to :: "file_content \<Rightarrow> fspath \<Rightarrow> ('z, nat) local_op" where
  "write_to content q =
     (let write = (\<lambda>bs. bind_ok (look partial_write) (\<lambda>k.
                        bind_ok (io (write_all k q bs)) (\<lambda>_. ret (length bs))))
      in case content of
           ContentPath p \<Rightarrow> bind_ok (io (open_read p)) (\<lambda>file. bind_ok (io (read_to_end file)) write)
         | Content bs \<Rightarrow> write bs
         | Bytes bs \<Rightarrow> write bs)"

definition make_parent :: "create_path \<Rightarrow> ('z, unit) local_op" where
  "make_parent cp =
     (if cp_new_directory_start cp \<noteq> None then io (create_dir_all (cp_parent_directory cp)) else ret ())"

text \<open>\<open>file.unlock()\<close> runs whatever the write returned; the error of the write comes first.\<close>

definition write_and_unlock :: "file_content \<Rightarrow> fspath \<Rightarrow> ('z, nat) local_op" where
  "write_and_unlock content q =
     bind_res (write_to content q) (\<lambda>write_result.
     bind_res (io handle_call) (\<lambda>unlock_result.
       case write_result of
         Inl err \<Rightarrow> fail err
       | Inr n \<Rightarrow> (case unlock_result of Inl err \<Rightarrow> fail err | Inr _ \<Rightarrow> ret n)))"

definition save_file ::
  "local_env \<Rightarrow> fspath \<Rightarrow> uuid \<Rightarrow> file_content \<Rightarrow> storage_path \<Rightarrow> ('z, nat \<times> bool) local_op" where
  "save_file e base repository content location =
     bind_ok (look disk) (\<lambda>t.
     bind_ok (from_result (get_path_for_creation e base t repository location)) (\<lambda>cp.
     bind_ok (make_parent cp) (\<lambda>_.
     bind_ok (look (\<lambda>s. \<not> path_exists (disk s) (cp_path cp))) (\<lambda>new_file.
     bind_ok (io (open_create (cp_path cp))) (\<lambda>file.
     bind_ok (io handle_call) (\<lambda>_.
     bind_ok (io (set_len_zero file)) (\<lambda>_.
     bind_ok (io handle_call) (\<lambda>_.
     bind_ok (write_and_unlock content file) (\<lambda>bytes_written.
     bind_ok (if \<not> is_hidden_file (cp_path cp)
              then run_post_save_file base (cp_path cp) (cp_new_directory_start cp) else ret ()) (\<lambda>_.
       ret (bytes_written, new_file)))))))))))"

definition append_file ::
  "local_env \<Rightarrow> fspath \<Rightarrow> uuid \<Rightarrow> file_content \<Rightarrow> storage_path \<Rightarrow> ('z, nat) local_op" where
  "append_file e base repository content location =
     bind_ok (look disk) (\<lambda>t.
     bind_ok (from_result (get_path_for_creation e base t repository location)) (\<lambda>cp.
     bind_ok (make_parent cp) (\<lambda>_.
     bind_ok (io (open_create (cp_path cp))) (\<lambda>file.
     bind_ok (io handle_call) (\<lambda>_.
       write_and_unlock content file)))))"

definition open_append_handle ::
  "local_env \<Rightarrow> fspath \<Rightarrow> uuid \<Rightarrow> storage_path \<Rightarrow> ('z, fspath \<times> fspath) local_op" where
  "open_append_handle e base repository location =
     bind_ok (look disk) (\<lambda>t.
     bind_ok (from_result (get_path_for_creation e base t repository location)) (\<lambda>cp.
     bind_ok (make_parent cp) (\<lambda>_.
     bind_ok (io (open_create (cp_path cp))) (\<lambda>file.
     bind_ok (io handle_call) (\<lambda>_.
       ret (file, cp_path cp))))))"

definition delete_file ::
  "local_env \<Rightarrow> fspath \<Rightarrow> uuid \<Rightarrow> storage_path \<Rightarrow> ('z, bool) local_op" where
  "delete_file e base repository location =
     bind_ok (look disk) (\<lambda>t.
     bind_ok (from_result (checked_path e base t repository location)) (\<lambda>p.
       if \<not> path_exists t p then ret False
       else bind_ok
              (if path_is_dir t p then io (remove_dir_all p)
               else bind_ok (io (remove_file p)) (\<lambda>_. delete_local p))
              (\<lambda>_. ret True)))"

definition move_file ::
  "local_env \<Rightarrow> fspath \<Rightarrow> uuid \<Rightarrow> storage_path \<Rightarrow> storage_path \<Rightarrow> ('z, bool) local_op" where
  "move_file e base repository from to =
     bind_ok (look disk) (\<lambda>t.
     bind_ok (from_result (checked_path e base t repository from)) (\<lambda>from_path.
       if \<not> path_exists t from_path then ret False
       else bind_ok (from_result (get_path_for_creation e base t repository to)) (\<lambda>cp.
            bind_ok (make_parent cp) (\<lambda>_.
            bind_ok (io (rename from_path (cp_path cp))) (\<lambda>_.
            bind_ok (delete_local from_path) (\<lambda>_.
            bind_ok (if \<not> is_hidden_file (cp_path cp)
                     then run_post_save_file base (cp_path cp) (cp_new_directory_start cp) else ret ()) (\<lambda>_.
              ret True)))))))"

definition get_file_information ::
  "local_env \<Rightarrow> fspath \<Rightarrow> uuid \<Rightarrow> storage_path \<Rightarrow> ('z, file_type storage_file_meta option) local_op" where
  "get_file_information e base repository location =
     bind_ok (look disk) (\<lambda>t.
     bind_ok (from_result (checked_path e base t repository location)) (\<lambda>p.
       if \<not> path_exists t p then ret None
       else bind_ok (read_from_path e p) (\<lambda>meta. ret (Some meta))))"

fun read_metas :: "local_env \<Rightarrow> fspath list \<Rightarrow> ('z, file_type storage_file_meta list) local_op" where
  "read_metas e [] = ret []"
| "read_metas e (p # ps) =
     bind_ok (read_from_path e p) (\<lambda>m. bind_ok (read_metas e ps) (\<lambda>ms. ret (m # ms)))"

text \<open>The tasks of \<open>open_folder\<close> are run in the order of the listing.\<close>

definition open_folder :: "local_env \<Rightarrow> fspath \<Rightarrow> ('z, storage_file) local_op" where
  "open_folder e p =
     bind_ok (io (read_dir p)) (\<lambda>names.
     bind_ok (read_from_directory e p) (\<lambda>meta.
     bind_ok (read_metas e (filter (\<lambda>q. \<not> is_hidden_file q) (map (\<lambda>n. p @ [n]) names))) (\<lambda>files.
       ret (SDirectory meta files))))"

definition inner_open_file :: "local_env \<Rightarrow> fspath \<Rightarrow> ('z, storage_file) local_op" where
  "inner_open_file e p =
     bind_ok (read_from_file e p) (\<lambda>meta.
     bind_ok (io (open_read p)) (\<lambda>file.
     bind_ok (look (\<lambda>s. file_bytes (disk s) file)) (\<lambda>content. ret (SFile meta content))))"

definition open_file ::
  "local_env \<Rightarrow> fspath \<Rightarrow> uuid \<Rightarrow> storage_path \<Rightarrow> ('z, storage_file option) local_op" where
  "open_file e base repository location =
     bind_ok (look disk) (\<lambda>t.
     bind_ok (from_result (checked_path e base t repository location)) (\<lambda>p.
       if \<not> path_exists t p then ret None
       else bind_ok (if path_is_dir t p then open_folder e p else inner_open_file e p)
              (\<lambda>file. ret (Some file))))"

definition file_exists :: "local_env \<Rightarrow> fspath \<Rightarrow> uuid \<Rightarrow> storage_path \<Rightarrow> ('z, bool) local_op" where
  "file_exists e base repository location =
     bind_ok (look disk) (\<lambda>t.
     bind_ok (from_result (checked_path e base t repository location)) (\<lambda>p. ret (path_exists t p)))"

definition get_repository_meta ::
  "local_env \<Rightarrow> fspath \<Rightarrow> uuid \<Rightarrow> storage_path \<Rightarrow> ('z, repository_meta option) local_op" where
  "get_repository_meta e base repository location =
     bind_ok (look disk) (\<lambda>t.
     bind_ok (from_result (checked_path e base t repository location)) (\<lambda>p.
       if \<not> path_exists t p then ret None
       else bind_ok (get_or_default_local e p None) (\<lambda>(meta, _). ret (Some (lm_repository meta)))))"

definition put_repository_meta ::
  "local_env \<Rightarrow> fspath \<Rightarrow> uuid \<Rightarrow> storage_path \<Rightarrow> repository_meta \<Rightarrow> ('z, unit) local_op" where
  "put_repository_meta e base repository location value =
     bind_ok (look disk) (\<lambda>t.
     bind_ok (from_result (checked_path e base t repository location)) (\<lambda>p.
       if \<not> path_exists t p then fail (IOError NotFound)
       else set_repository_meta e p value))"

text \<open>The loop of \<open>delete_repository\<close>: \<open>rm\<close> is the removal, tried again while files appear in the
  directory, three times at most.\<close>

fun delete_attempts :: "('s, io_error, unit) stm \<Rightarrow> bool \<Rightarrow> nat \<Rightarrow> ('s, local_error, unit) stm" where
  "delete_attempts rm is_dir 0 = ret ()"
| "delete_attempts rm is_dir (Suc left) =
     bind_res rm (\<lambda>result.
       case result of
         Inr _ \<Rightarrow> ret ()
       | Inl err \<Rightarrow>
           if is_dir \<and> err = DirectoryNotEmpty \<and> left > 0 then delete_attempts rm is_dir left
           else fail (IOError err))"

definition delete_repository :: "local_env \<Rightarrow> fspath \<Rightarrow> uuid \<Rightarrow> ('z, unit) local_op" where
  "delete_repository e base repository =
     bind_ok (look disk) (\<lambda>t.
       let root = repository_root e base repository
       in if \<not> path_exists t root then ret ()
          else let is_dir = path_is_dir t root
               in delete_attempts (if is_dir then remove_dir_all root else remove_file root) is_dir 3)"

datatype directory_stream =
  StreamDirectory "file_type storage_file_meta" "fspath list"
  | StreamFile "file_type storage_file_meta" "fspath option"

definition stream_directory ::
  "local_env \<Rightarrow> fspath \<Rightarrow> uuid \<Rightarrow> storage_path \<Rightarrow> ('z, directory_stream option) local_op" where
  "stream_directory e base repository location =
     bind_ok (look disk) (\<lambda>t.
     bind_ok (from_result (checked_path e base t repository location)) (\<lambda>p.
       case metadata t p of
         Inr DirNode \<Rightarrow>
           bind_ok (read_from_directory e p) (\<lambda>meta.
           bind_ok (io (read_dir p)) (\<lambda>names.
             ret (Some (StreamDirectory (map_type TypeDirectory meta) (map (\<lambda>n. p @ [n]) names)))))
       | Inr _ \<Rightarrow>
           if is_hidden_file p then ret None
           else bind_ok (read_from_file e p) (\<lambda>meta. ret (Some (StreamFile (map_type TypeFile meta) (Some p))))
       | Inl NotFound \<Rightarrow> ret None
       | Inl err \<Rightarrow> fail (IOError err)))"

definition number_of_files :: "directory_stream \<Rightarrow> nat" where
  "number_of_files st =
     (case (case st of StreamDirectory m _ \<Rightarrow> m | StreamFile m _ \<Rightarrow> m) of
        m \<Rightarrow> (case sf_file_type m of TypeDirectory n \<Rightarrow> n | TypeFile _ \<Rightarrow> 1))"

text \<open>One item of the stream and the rest: no item at the end, an item without content for a hidden
  file.\<close>

definition poll_next ::
  "local_env \<Rightarrow> directory_stream \<Rightarrow> ('z, file_type storage_file_meta option option \<times> directory_stream) local_op" where
  "poll_next e st =
     (case (case st of
              StreamDirectory m ps \<Rightarrow>
                (case ps of [] \<Rightarrow> (None, st) | p # ps \<Rightarrow> (Some p, StreamDirectory m ps))
            | StreamFile m p \<Rightarrow> (p, StreamFile m None)) of
        (None, st') \<Rightarrow> ret (None, st')
      | (Some p, st') \<Rightarrow>
          if is_hidden_file p then ret (Some None, st')
          else bind_ok (read_from_path e p) (\<lambda>m. ret (Some (Some m), st')))"

definition repository_size_bytes :: "local_env \<Rightarrow> fspath \<Rightarrow> uuid \<Rightarrow> ('z, nat) local_op" where
  "repository_size_bytes e base repository =
     bind_ok (look disk) (\<lambda>t.
       let root_path = get_path e base repository (path_from ''/'')
       in if \<not> path_exists t root_path then ret 0
          else io (sys (\<lambda>t. (case canonicalize t root_path of
                     Inl err \<Rightarrow> Inl err
                   | Inr q \<Rightarrow>
                       Inr (sum_list (map (\<lambda>(p, n). case n of FileNode bs \<Rightarrow> length bs | _ \<Rightarrow> 0)
                              (filter (\<lambda>(p, n). prefix q p \<and> \<not> is_hidden_file p) t))), t))))"

definition register_precomputed_hash ::
  "local_env \<Rightarrow> fspath \<Rightarrow> uuid \<Rightarrow> storage_path \<Rightarrow> file_hashes \<Rightarrow> ('z, unit) local_op" where
  "register_precomputed_hash e base repository location hashes =
     set_state (\<lambda>s. case checked_path e base (disk s) repository location of
        Inl _ \<Rightarrow> s
      | Inr p \<Rightarrow> s\<lparr>precomputed := (precomputed s)(p \<mapsto> hashes)\<rparr>)"

text \<open>One turn of \<open>meta_update_task\<close>: a path that has gone is skipped, an error is only logged.\<close>

definition meta_update_step :: "local_env \<Rightarrow> ('z, unit) local_op" where
  "meta_update_step e =
     bind_ok (look meta_queue) (\<lambda>queue.
       case queue of
         [] \<Rightarrow> ret ()
       | p # rest \<Rightarrow>
           bind_ok (set_state (\<lambda>s. s\<lparr>meta_queue := rest\<rparr>)) (\<lambda>_.
           bind_ok (look (\<lambda>s. path_exists (disk s) p)) (\<lambda>there.
             if \<not> there then ret ()
             else bind_ok (look (\<lambda>s. precomputed s p)) (\<lambda>hashes.
                  bind_ok (set_state (\<lambda>s. s\<lparr>precomputed := (precomputed s)(p := None)\<rparr>)) (\<lambda>_.
                  bind_res (create_meta_or_update e p hashes) (\<lambda>_. ret ()))))))"

definition unload :: "('z, unit) local_op" where
  "unload = set_state (\<lambda>s. s\<lparr>unloaded := True\<rparr>)"

datatype storage_type_config = ConfigLocal fspath | ConfigS3

definition validate_config_change :: "fspath \<Rightarrow> storage_type_config \<Rightarrow> local_error + unit" where
  "validate_config_change base config =
     (case config of
        ConfigS3 \<Rightarrow> Inl InvalidConfigType
      | ConfigLocal p \<Rightarrow> if base \<noteq> p then Inl PathCannotBeChanged else Inr ())"

text \<open>\<open>LocalStorageFactory::create_storage\<close>: the storage directory is made.\<close>

definition create_storage :: "fspath \<Rightarrow> ('z, unit) local_op" where
  "create_storage base =
     bind_ok (look (\<lambda>s. path_exists (disk s) base)) (\<lambda>there.
       if \<not> there then io (create_dir_all base) else ret ())"

section \<open>Names of sidecars\<close>

lemma last_file_name: "p \<noteq> [] \<Longrightarrow> normal_name (last p) \<Longrightarrow> file_name p = Some (last p)"
  by (simp add: file_name_def normal_name_def)

lemma stem_extension:
  assumes "name_extension n = Some x"
  shows "name_stem n @ ''.'' @ x = n"
proof (cases "rsplit_once ''.'' n")
  case None
  with assms show ?thesis by (simp add: name_extension_def)
next
  case (Some ba)
  obtain b a where ba: "ba = (b, a)" by fastforce
  with Some assms have "b \<noteq> []" "x = a" by (auto simp: name_extension_def split: if_splits)
  moreover have "n = b @ CHR ''.'' # a" using Some ba rsplit_once_char [of "CHR ''.''" n b a] by simp
  ultimately show ?thesis using Some ba by (simp add: name_stem_def)
qed

lemma stem_no_extension: "name_extension n = None \<Longrightarrow> name_stem n = n"
  by (auto simp: name_extension_def name_stem_def split: option.splits prod.splits if_splits)

text \<open>Appending the extension appends to the name, whatever dots the name has.\<close>

lemma add_extension_name:
  assumes "p \<noteq> []" and "normal_name (last p)" and "ext \<noteq> []"
  shows "add_extension ext p = butlast p @ [last p @ ''.'' @ ext]"
proof (cases "name_extension (last p)")
  case None
  with stem_no_extension [OF None] assms show ?thesis
    by (simp add: add_extension_def extension_def set_extension_def last_file_name)
next
  case (Some x)
  with stem_extension [OF Some] assms show ?thesis
    by (simp add: add_extension_def extension_def set_extension_def last_file_name)
qed

lemma sidecar_extension: "n \<noteq> [] \<Longrightarrow> name_extension (n @ ''.nr-meta'') = Some ''nr-meta''"
proof -
  assume "n \<noteq> []"
  have "rsplit_once ''.'' (n @ ''.nr-meta'') = Some (n, ''nr-meta'')"
    by (simp add: rsplit_once_char)
  with \<open>n \<noteq> []\<close> show ?thesis by (simp add: name_extension_def)
qed

lemma sidecar_normal: "normal_name (n @ ''.nr-meta'')"
proof -
  have "length (n @ ''.nr-meta'') \<noteq> length ''.''" "length (n @ ''.nr-meta'') \<noteq> length ''..''" by simp_all
  then show ?thesis unfolding normal_name_def by metis
qed

lemma hidden_name: "is_hidden_file (d @ [n @ ''.nr-meta''])"
proof (cases "n = []")
  case True
  then show ?thesis by (simp add: is_hidden_file_def file_name_def)
next
  case False
  have "file_name (d @ [n @ ''.nr-meta'']) = Some (n @ ''.nr-meta'')"
    using last_file_name [of "d @ [n @ ''.nr-meta'']"] sidecar_normal [of n] by simp
  with sidecar_extension [OF False] show ?thesis by (simp add: is_hidden_file_def extension_def)
qed

lemma hidden_last: "p \<noteq> [] \<Longrightarrow> is_hidden_file (d @ [last p]) = is_hidden_file p"
  by (simp add: is_hidden_file_def extension_def file_name_def)

text \<open>The sidecar of a path lies beside it, or in it when it is a directory, and is hidden.\<close>

lemma meta_path_eq:
  assumes "p \<noteq> []" and "normal_name (last p)"
  shows "meta_path t p =
    (if path_is_dir t p then p @ [''.nr-meta''] else butlast p @ [last p @ ''.nr-meta''])"
  using add_extension_name [OF assms, of "''nr-meta''"] by (simp add: meta_path_def)

lemma meta_path_hidden:
  assumes "p \<noteq> []" and "normal_name (last p)"
  shows "is_hidden_file (meta_path t p)" and "meta_path t p \<noteq> []" and "normal_name (last (meta_path t p))"
  using hidden_name [of p "[]"] hidden_name [of "butlast p" "last p"] sidecar_normal [of "[]"]
    sidecar_normal [of "last p"]
  by (simp_all add: meta_path_eq [OF assms])

text \<open>Two files have different sidecars, and no file has the sidecar of a directory.\<close>

lemma sidecars_differ:
  assumes "p \<noteq> []" "normal_name (last p)" and "q \<noteq> []" "normal_name (last q)" "last p \<noteq> []"
    and "\<not> path_is_dir t p" and "meta_path t p = meta_path t q"
  shows "p = q"
proof -
  have p: "meta_path t p = butlast p @ [last p @ ''.nr-meta'']" using assms by (simp add: meta_path_eq)
  show ?thesis
  proof (cases "path_is_dir t q")
    case True
    with assms p have "last p @ ''.nr-meta'' = ''.nr-meta''" by (simp add: meta_path_eq)
    with assms(5) show ?thesis by simp
  next
    case False
    with assms p have "butlast p = butlast q" "last p @ ''.nr-meta'' = last q @ ''.nr-meta''"
      by (simp_all add: meta_path_eq)
    with assms(1,3) show ?thesis by (metis append_butlast_last_id append_same_eq)
  qed
qed

section \<open>What the operations do to the tree and to the rest of the state\<close>

context frame
begin

lemma frame_look [frame_intros]: "preserves same (look g)"
  unfolding look_def by (rule frame_read)

end

lemma sys_run:
  "sys f s = (r, t) \<Longrightarrow> disk t = disk s \<or> (r = fst (f (disk s)) \<and> disk t = snd (f (disk s)))"
  by (auto simp: sys_def Let_def split: if_splits prod.splits)

lemma sys_more: "sys f s = (r, t) \<Longrightarrow> local_state.more t = local_state.more (s :: 'z local_state_scheme)"
  by (auto simp: sys_def Let_def split: if_splits prod.splits)

text \<open>A relation that the calls of the file system keep, and that depends on nothing but the tree and
  the fields that other components add to the state, is kept by every operation of the storage.\<close>

locale storage_frame = frame same
  for same :: "'z local_state_scheme \<Rightarrow> 'z local_state_scheme \<Rightarrow> bool" +
  assumes calls: "preserves same (create_dir_all p)" "preserves same (open_create p)"
    "preserves same (open_new p)" "preserves same (set_len_zero q)" "preserves same (write_all k q bs)"
    "preserves same (remove_file p)" "preserves same (remove_dir_all p)" "preserves same (rename p p')"
    and same_fields: "disk t = disk s \<Longrightarrow> local_state.more t = local_state.more s \<Longrightarrow> same s t"
begin

lemma set_state_kept:
  "(\<And>s. disk (u s) = disk s \<and> local_state.more (u s) = local_state.more s) \<Longrightarrow> preserves same (set_state u)"
  by (auto simp: preserves_def set_state_def intro: same_fields)

lemma take_id_kept: "preserves same take_id"
  by (auto simp: preserves_def take_id_def split: list.splits intro: same_fields)

lemma io_kept: "preserves same m \<Longrightarrow> preserves same (io m)"
  unfolding io_def by (rule frame_map_err)

lemma pure_sys_kept: "(\<And>t. snd (f t) = t) \<Longrightarrow> preserves same (sys f)"
  by (rule preservesI, rule same_fields) (use sys_run sys_more in \<open>fastforce+\<close>)

lemma reading_calls:
  "preserves same (open_read p)" "preserves same (read_to_end q)" "preserves same handle_call"
  "preserves same (read_dir p)"
  unfolding open_read_def read_to_end_def handle_call_def read_dir_def
  by (rule pure_sys_kept; simp split: option.splits node.splits sum.splits)+

lemmas kept_intros = frame_pure frame_bind frame_res frame_look frame_if frame_option frame_pair frame_sum
  calls reading_calls io_kept take_id_kept

lemma save_meta_kept: "preserves same (save_meta e m p)"
  unfolding save_meta_def replace_file_def put_in_place_def by (intro kept_intros)

lemma read_meta_file_kept: "preserves same (read_meta_file e p)"
  unfolding read_meta_file_def by (intro kept_intros)

lemma generate_meta_kept: "preserves same (generate_meta e p h)"
  unfolding generate_meta_def generate_hashes_from_path_def count_files_def Let_def
  by (intro kept_intros save_meta_kept)

lemma get_or_default_kept: "preserves same (get_or_default_local e p h)"
  unfolding get_or_default_local_def
  by (intro kept_intros read_meta_file_kept generate_meta_kept)
    (auto split: sum.splits local_error.splits intro: kept_intros generate_meta_kept)

lemma create_meta_or_update_kept: "preserves same (create_meta_or_update e p h)"
  unfolding create_meta_or_update_def typed_update_def count_files_def generate_hashes_from_path_def
  by (intro kept_intros get_or_default_kept save_meta_kept)
    (auto split: location_typed_meta.splits option.splits intro!: kept_intros)

lemma delete_local_kept: "preserves same (delete_local p)"
  unfolding delete_local_def by (intro kept_intros)

lemma set_repository_meta_kept: "preserves same (set_repository_meta e p m)"
  unfolding set_repository_meta_def by (intro kept_intros get_or_default_kept save_meta_kept)

lemma read_from_directory_kept: "preserves same (read_from_directory e p)"
  unfolding read_from_directory_def by (intro kept_intros get_or_default_kept)

lemma read_from_file_kept: "preserves same (read_from_file e p)"
  unfolding read_from_file_def by (intro kept_intros get_or_default_kept)

lemma read_from_path_kept: "preserves same (read_from_path e p)"
  unfolding read_from_path_def by (intro kept_intros read_from_file_kept read_from_directory_kept)

lemma read_metas_kept: "preserves same (read_metas e ps)"
  by (induction ps) (auto intro: kept_intros read_from_path_kept)

lemma write_and_unlock_kept: "preserves same (write_and_unlock c q)"
proof -
  have "preserves same (write_to c q)"
    by (cases c) (auto simp: write_to_def Let_def intro!: kept_intros)
  then show ?thesis unfolding write_and_unlock_def by (intro kept_intros)
qed

lemma make_parent_kept: "preserves same (make_parent cp)"
  unfolding make_parent_def by (intro kept_intros)

lemma run_post_save_kept: "preserves same (run_post_save_file base p n)"
  unfolding run_post_save_file_def by (rule set_state_kept) simp

lemma delete_attempts_kept: "preserves same rm \<Longrightarrow> preserves same (delete_attempts rm d n)"
  by (induction n) (auto intro!: kept_intros)

lemma kept_operations:
  "preserves same (save_file e base repository content location)"
  "preserves same (append_file e base repository content location)"
  "preserves same (open_append_handle e base repository location)"
  "preserves same (delete_file e base repository location)"
  "preserves same (move_file e base repository location to)"
  "preserves same (get_file_information e base repository location)"
  "preserves same (open_file e base repository location)"
  "preserves same (file_exists e base repository location)"
  "preserves same (get_repository_meta e base repository location)"
  "preserves same (put_repository_meta e base repository location value)"
  "preserves same (delete_repository e base repository)"
  "preserves same (stream_directory e base repository location)"
  "preserves same (poll_next e st)"
  "preserves same (repository_size_bytes e base repository)"
  "preserves same (register_precomputed_hash e base repository location hashes)"
  "preserves same (meta_update_step e)"
  "preserves same unload"
  "preserves same (create_storage base)"
proof -
  show "preserves same (save_file e base repository content location)"
    unfolding save_file_def
    by (intro kept_intros make_parent_kept write_and_unlock_kept run_post_save_kept)
  show "preserves same (append_file e base repository content location)"
    unfolding append_file_def by (intro kept_intros make_parent_kept write_and_unlock_kept)
  show "preserves same (open_append_handle e base repository location)"
    unfolding open_append_handle_def by (intro kept_intros make_parent_kept)
  show "preserves same (delete_file e base repository location)"
    unfolding delete_file_def by (intro kept_intros delete_local_kept)
  show "preserves same (move_file e base repository location to)"
    unfolding move_file_def by (intro kept_intros make_parent_kept delete_local_kept run_post_save_kept)
  show "preserves same (get_file_information e base repository location)"
    unfolding get_file_information_def by (intro kept_intros read_from_path_kept)
  show "preserves same (open_file e base repository location)"
    unfolding open_file_def open_folder_def inner_open_file_def
    by (intro kept_intros read_from_directory_kept read_metas_kept read_from_file_kept)
  show "preserves same (file_exists e base repository location)"
    unfolding file_exists_def by (intro kept_intros)
  show "preserves same (get_repository_meta e base repository location)"
    unfolding get_repository_meta_def by (intro kept_intros get_or_default_kept)
  show "preserves same (put_repository_meta e base repository location value)"
    unfolding put_repository_meta_def by (intro kept_intros set_repository_meta_kept)
  show "preserves same (delete_repository e base repository)"
    unfolding delete_repository_def Let_def by (intro kept_intros delete_attempts_kept)
  show "preserves same (stream_directory e base repository location)"
    unfolding stream_directory_def
    by (intro kept_intros) (auto split: sum.splits node.splits io_error.splits
        intro!: kept_intros read_from_directory_kept read_from_file_kept)
  show "preserves same (poll_next e st)"
    unfolding poll_next_def
    by (auto split: directory_stream.splits list.splits option.splits prod.splits
        intro!: kept_intros read_from_path_kept)
  show "preserves same (repository_size_bytes e base repository)"
    unfolding repository_size_bytes_def Let_def
    by (intro kept_intros pure_sys_kept) (simp split: sum.splits)
  show "preserves same (register_precomputed_hash e base repository location hashes)"
    unfolding register_precomputed_hash_def by (rule set_state_kept) (simp split: sum.splits)
  show "preserves same (meta_update_step e)"
    unfolding meta_update_step_def
    by (intro kept_intros)
      (auto split: list.splits intro!: kept_intros create_meta_or_update_kept set_state_kept)
  show "preserves same unload"
    unfolding unload_def by (rule set_state_kept) simp
  show "preserves same (create_storage base)"
    unfolding create_storage_def by (intro kept_intros)
qed

end

text \<open>The tree stays well-formed.\<close>

interpretation stored_tree_frame: storage_frame "tree_kept :: 'z local_state_scheme \<Rightarrow> _"
  by unfold_locales (auto simp: kept_calls tree_kept_def)

lemmas kept_operations = stored_tree_frame.kept_operations

text \<open>What other components keep in the state is left alone.\<close>

definition rest_kept :: "'z local_state_scheme \<Rightarrow> 'z local_state_scheme \<Rightarrow> bool" where
  "rest_kept s t = (local_state.more t = local_state.more s)"

lemma rest_kept_sys: "preserves rest_kept (sys f)"
  using sys_more by (fastforce simp: preserves_def rest_kept_def)

interpretation rest_frame: storage_frame rest_kept
proof unfold_locales
  show "preserves rest_kept (write_all k q bs)" for k q bs
    by (auto simp: preserves_def rest_kept_def write_all_def Let_def split: if_splits)
qed (auto simp: rest_kept_def rest_kept_sys create_dir_all_def open_create_def open_new_def set_len_zero_def
    remove_file_def remove_dir_all_def rename_def)

section \<open>Where an operation writes\<close>

definition confined :: "fspath \<Rightarrow> 'z fs_state_scheme \<Rightarrow> 'z fs_state_scheme \<Rightarrow> bool" where
  "confined q s t = (\<forall>p. \<not> prefix q p \<longrightarrow> node_at (disk t) p = node_at (disk s) p)"

interpretation below: frame "confined q" for q
  by unfold_locales (auto simp: confined_def)

lemma sys_Inr: "sys f s = (Inr a, t) \<Longrightarrow> f (disk s) = (Inr a, disk t)"
  by (auto simp: sys_def Let_def split: if_splits prod.splits)

lemma io_Inr: "io m s = (Inr a, t) \<longleftrightarrow> m s = (Inr a, t)"
  unfolding io_def by (rule map_err_Inr)

lemma io_run: "io m s = (r, t) \<Longrightarrow> \<exists>r'. m s = (r', t)"
  by (auto simp: io_def map_err_def split: prod.splits sum.splits)

lemma io_sys_cases:
  assumes "io (sys f) s = (r, t)"
  obtains (fault) bs where "faults s = True # bs" and "r = Inl (IOError OtherIo)" and "t = s\<lparr>faults := bs\<rparr>"
  | (ran) x d where "f (disk s) = (x, d)" and "t = s\<lparr>faults := tl (faults s), disk := d\<rparr>"
      and "r = (case x of Inl e \<Rightarrow> Inl (IOError e) | Inr a \<Rightarrow> Inr a)"
proof (cases "faults s \<noteq> [] \<and> hd (faults s)")
  case True
  then have "faults s = True # tl (faults s)" by (cases "faults s") auto
  with True assms show ?thesis
    by (intro fault [of "tl (faults s)"]) (auto simp: io_def map_err_def sys_def)
next
  case False
  obtain x d where "f (disk s) = (x, d)" by fastforce
  with False assms show ?thesis
    by (intro ran [of x d]) (auto simp: io_def map_err_def sys_def Let_def split: sum.splits)
qed

lemma confined_sys:
  assumes "io (sys f) s = (r, t)"
    and "\<And>p. \<not> prefix q p \<Longrightarrow> node_at (snd (f (disk s))) p = node_at (disk s) p"
  shows "confined q s t"
proof -
  obtain r' where "sys f s = (r', t)" using io_run [OF assms(1)] by blast
  from sys_run [OF this] assms(2) show ?thesis by (auto simp: confined_def)
qed

lemma node_at_update_file:
  "node_at (update_file q f t) p =
     (if p = q then (case node_at t q of Some (FileNode bs) \<Rightarrow> Some (FileNode (f bs)) | x \<Rightarrow> x) else node_at t p)"
proof (cases "node_at t q")
  case (Some n)
  then have "n = FileNode bs \<Longrightarrow> q \<noteq> []" for bs by auto
  with Some show ?thesis by (cases n) (auto simp: update_file_def)
qed (simp add: update_file_def)

text \<open>Through a handle below \<open>q\<close> only the tree below \<open>q\<close> changes.\<close>

lemma confined_io_pure:
  assumes "\<And>t. snd (f t) = t"
  shows "preserves (confined q) (io (sys f))"
  by (rule preservesI, erule confined_sys) (simp add: assms)

lemma confined_reads:
  "preserves (confined q) (io handle_call)" "preserves (confined q) (io (open_read p))"
  "preserves (confined q) (io (read_to_end f))"
  unfolding handle_call_def open_read_def read_to_end_def
  by (rule confined_io_pure; simp split: option.splits node.splits)+

lemma confined_writes:
  assumes "prefix q f"
  shows "preserves (confined q) (io (set_len_zero f))" and "preserves (confined q) (io (write_all k f bs))"
proof -
  show "preserves (confined q) (io (set_len_zero f))"
    unfolding set_len_zero_def
    by (rule preservesI, erule confined_sys) (use assms in \<open>auto simp: node_at_update_file\<close>)
  show "preserves (confined q) (io (write_all k f bs))"
    by (rule preservesI, drule io_run)
      (use assms in \<open>auto simp: write_all_def Let_def confined_def node_at_update_file split: if_splits\<close>)
qed

lemmas below_intros = below.frame_pure below.frame_bind below.frame_res below.frame_look
  below.frame_if below.frame_option below.frame_pair below.frame_sum confined_reads

lemma confined_write_and_unlock:
  assumes "prefix q f"
  shows "preserves (confined q) (write_and_unlock c f)"
proof -
  have "preserves (confined q) (write_to c f)"
    by (cases c) (auto simp: write_to_def Let_def intro!: below_intros confined_writes assms)
  then show ?thesis unfolding write_and_unlock_def by (intro below_intros)
qed

lemma confined_post_save: "preserves (confined q) (run_post_save_file base p n)"
  by (auto simp: run_post_save_file_def preserves_def set_state_def confined_def)

section \<open>The path for a new file\<close>

lemma validate_names:
  assumes "validate location = Inr u"
  shows "list_all normal_name (components location)"
  using assms by (auto simp: validate_Inr list_ex_iff list_all_iff bad_component_def normal_name_def)

lemma enter_part_fields [simp]:
  "cp_path (enter_part final part cp) = cp_path cp @ [part]"
  "cp_parent_directory (enter_part final part cp) = (if final then cp_path cp else cp_parent_directory cp)"
  "cp_new_directory_start (enter_part final part cp) = cp_new_directory_start cp"
  by (simp_all add: enter_part_def)

lemma check_part_Inr:
  assumes "check_part t location conflicting final cp = Inr cp'"
  shows "cp_path cp' = cp_path cp" and "cp_parent_directory cp' = cp_parent_directory cp"
    and "cp_new_directory_start cp' =
      (if cp_new_directory_start cp = None \<and> metadata t (cp_path cp) = Inl NotFound then Some (cp_path cp)
       else cp_new_directory_start cp)"
    and "cp_new_directory_start cp' = None \<Longrightarrow> path_exists t (cp_path cp)"
  using assms
  by (auto simp: check_part_def path_exists_def split: if_splits sum.splits node.splits io_error.splits)

lemma creation_walk_path:
  "creation_walk t location cp conflicting parts = Inr cp' \<Longrightarrow>
     cp_path cp' = cp_path cp @ parts \<and>
     cp_parent_directory cp' = (if parts = [] then cp_parent_directory cp else butlast (cp_path cp @ parts))"
proof (induction parts arbitrary: cp conflicting)
  case (Cons part rest)
  then obtain c1 where c1: "check_part t location (push conflicting part) (rest = [])
      (enter_part (rest = []) part cp) = Inr c1" "creation_walk t location c1 (push conflicting part) rest = Inr cp'"
    by (auto split: sum.splits)
  from Cons.IH [OF c1(2)] check_part_Inr(1,2) [OF c1(1)] show ?case by (simp add: butlast_append)
qed simp

lemma creation_walk_started:
  "creation_walk t location cp conflicting parts = Inr cp' \<Longrightarrow> cp_new_directory_start cp \<noteq> None \<Longrightarrow>
     cp_new_directory_start cp' = cp_new_directory_start cp"
proof (induction parts arbitrary: cp conflicting)
  case (Cons part rest)
  then obtain c1 where c1: "check_part t location (push conflicting part) (rest = [])
      (enter_part (rest = []) part cp) = Inr c1" "creation_walk t location c1 (push conflicting part) rest = Inr cp'"
    by (auto split: sum.splits)
  from Cons.IH [OF c1(2)] check_part_Inr(3) [OF c1(1)] Cons.prems(2) show ?case by simp
qed simp

text \<open>\<open>new_directory_start\<close> is the first part of the path that is missing, if any.\<close>

lemma creation_walk_start:
  "creation_walk t location cp conflicting parts = Inr cp' \<Longrightarrow> cp_new_directory_start cp = None \<Longrightarrow>
     (cp_new_directory_start cp' = None \<and>
        (\<forall>k. 0 < k \<longrightarrow> k \<le> length parts \<longrightarrow> path_exists t (cp_path cp @ take k parts))) \<or>
     (\<exists>k. 0 < k \<and> k \<le> length parts \<and> metadata t (cp_path cp @ take k parts) = Inl NotFound \<and>
        cp_new_directory_start cp' = Some (cp_path cp @ take k parts))"
proof (induction parts arbitrary: cp conflicting)
  case (Cons part rest)
  then obtain c1 where c1: "check_part t location (push conflicting part) (rest = [])
      (enter_part (rest = []) part cp) = Inr c1" "creation_walk t location c1 (push conflicting part) rest = Inr cp'"
    by (auto split: sum.splits)
  note step = check_part_Inr [OF c1(1), simplified]
  show ?case
  proof (cases "cp_new_directory_start c1 = None")
    case True
    have here: "path_exists t (cp_path cp @ [part])" using step(4) True by simp
    from Cons.IH [OF c1(2) True] show ?thesis
    proof
      assume h: "cp_new_directory_start cp' = None \<and>
        (\<forall>k. 0 < k \<longrightarrow> k \<le> length rest \<longrightarrow> path_exists t (cp_path c1 @ take k rest))"
      have "path_exists t (cp_path cp @ take k (part # rest))" if "0 < k" "k \<le> length (part # rest)" for k
        using h here step(1) that by (cases k; cases "k = 1") auto
      with h show ?thesis by blast
    next
      assume "\<exists>k. 0 < k \<and> k \<le> length rest \<and> metadata t (cp_path c1 @ take k rest) = Inl NotFound \<and>
        cp_new_directory_start cp' = Some (cp_path c1 @ take k rest)"
      then obtain k where "k \<le> length rest" "metadata t (cp_path c1 @ take k rest) = Inl NotFound"
        "cp_new_directory_start cp' = Some (cp_path c1 @ take k rest)" by blast
      with step(1) show ?thesis by (intro disjI2 exI [of _ "Suc k"]) simp
    qed
  next
    case False
    with step(3) Cons.prems(2) have "metadata t (cp_path cp @ [part]) = Inl NotFound"
      "cp_new_directory_start c1 = Some (cp_path cp @ [part])" by (auto split: if_splits)
    moreover have "cp_new_directory_start cp' = cp_new_directory_start c1"
      by (rule creation_walk_started [OF c1(2) False])
    ultimately show ?thesis by (intro disjI2 exI [of _ 1]) simp
  qed
qed simp

section \<open>The file stays inside the repository\<close>

text \<open>What the operations find: the directory of the storage exists (\<open>create_storage\<close> made it), no link
  is dangling, and the text of the identifier is a proper name.\<close>

definition storage_ready :: "local_env \<Rightarrow> fspath \<Rightarrow> tree \<Rightarrow> uuid \<Rightarrow> bool" where
  "storage_ready e base t repository =
     (wf_tree t \<and> links_ok t \<and> path_is_dir t base \<and> normal_name (le_uuid_text e repository))"

text \<open>The directory of the repository, with the links of its path followed.\<close>

definition repository_place :: "local_env \<Rightarrow> fspath \<Rightarrow> tree \<Rightarrow> uuid \<Rightarrow> fspath" where
  "repository_place e base t repository =
     (case place t (repository_root e base repository) of Inr q \<Rightarrow> q | Inl _ \<Rightarrow> [])"

lemma existing_Inr: "canonicalize t a = Inr q \<Longrightarrow> canonicalize_existing t (rev a) = Inr q"
  by (cases "rev a") (auto simp: rev_swap)

lemma existing_ancestor:
  assumes "canonicalize t a = Inr q" and "node_at t q = Some DirNode"
    and "node_at t (q @ [x]) = None" and "normal_name x"
  shows "canonicalize_existing t (rev (a @ x # ys)) = Inr q"
proof (induction ys rule: rev_induct)
  case Nil
  have "canonicalize t (a @ [x]) = Inl NotFound"
    using place_below_missing [OF assms, of "[]"] assms(3) by (simp add: canonicalize_def)
  with existing_Inr [OF assms(1)] show ?case by simp
next
  case (snoc y ys)
  have "canonicalize t (a @ x # ys @ [y]) = Inl NotFound"
    using place_below_missing [OF assms, of "ys @ [y]"] by (simp add: canonicalize_def)
  with snoc.IH show ?case by simp
qed

lemma existing_error:
  assumes "canonicalize_existing t (rev p) = Inr q"
  shows "(\<exists>r. canonicalize t p = Inr r) \<or> canonicalize t p = Inl NotFound"
proof (cases "rev p")
  case Nil
  then have "p = []" by simp
  then show ?thesis by (simp add: canonicalize_def place_def)
next
  case (Cons c r)
  then have "rev (c # r) = p" by (metis rev_rev_ident)
  with assms Cons show ?thesis
    by (auto split: sum.splits io_error.splits)
qed

lemma path_is_dir_iff: "path_is_dir t p \<longleftrightarrow> (\<exists>q. canonicalize t p = Inr q \<and> node_at t q = Some DirNode)"
  by (auto simp: path_is_dir_def metadata_def canonicalize_Inr split: sum.splits option.splits)

lemma path_exists_canonical: "path_exists t p \<longleftrightarrow> (\<exists>q. canonicalize t p = Inr q)"
  by (auto simp: path_exists_iff canonicalize_Inr)

text \<open>A path below the storage that does not lead anywhere stops in some directory, for lack of an
  entry.\<close>

lemma stops_below:
  assumes ready: "storage_ready e base t repository" and names: "list_all normal_name rest"
    and nf: "canonicalize t (base @ rest) = Inl NotFound"
  obtains a x ys q where "base @ rest = a @ x # ys" and "canonicalize t a = Inr q"
    and "node_at t q = Some DirNode" and "node_at t (q @ [x]) = None" and "list_all normal_name (x # ys)"
    and "prefix base a"
proof -
  have wf: "wf_tree t" and ok: "links_ok t" using ready by (simp_all add: storage_ready_def)
  obtain c where c: "canonicalize t base = Inr c" "node_at t c = Some DirNode"
    using ready by (auto simp: storage_ready_def path_is_dir_iff)
  then have "locate max_links t [] base = Inr c" by (simp add: canonicalize_Inr place_def)
  from locate_append [OF this c(2)] obtain m where
    m: "m \<le> max_links" "\<And>zs. locate max_links t [] (base @ zs) = locate m t c zs" by blast
  have "unresolved t (locate m t c rest)"
    using nf m(2) [of rest] unresolved_iff [of t "base @ rest"] by (simp add: place_def)
  from stops_at [OF wf ok this m(1) c(2) names] obtain cs x ds a where
    s: "rest = cs @ x # ds" "locate m t c cs = Inr a" "node_at t a = Some DirNode" "node_at t (a @ [x]) = None"
    by blast
  have "canonicalize t (base @ cs) = Inr a" using m(2) [of cs] s(2,3) by (simp add: canonicalize_Inr place_def)
  with s names show ?thesis by (intro that [of "base @ cs" x ds a]) auto
qed

lemma creation_cases:
  assumes ready: "storage_ready e base t repository"
    and got: "get_path_for_creation e base t repository location = Inr cp"
  obtains (found) q where "canonicalize t (cp_path cp) = Inr q"
      and "prefix (repository_place e base t repository) q" and "cp_new_directory_start cp = None"
  | (fresh) a x ys q where "cp_path cp = a @ x # ys" and "canonicalize t a = Inr q"
      and "node_at t q = Some DirNode" and "node_at t (q @ [x]) = None"
      and "prefix (repository_place e base t repository) (q @ [x])" and "list_all normal_name (x # ys)"
      and "cp_new_directory_start cp = None \<Longrightarrow> ys = []"
      and "cp_new_directory_start cp \<noteq> None \<Longrightarrow> cp_parent_directory cp = butlast (cp_path cp)"
proof -
  let ?root = "repository_root e base repository" and ?u = "le_uuid_text e repository"
  let ?comps = "components location"
  have wf: "wf_tree t" and ok: "links_ok t" and nu: "normal_name ?u"
    using ready by (simp_all add: storage_ready_def)
  obtain u where val: "validate location = Inr u" using got by (auto simp: get_path_for_creation_def split: sum.splits)
  note nc = validate_names [OF val]
  let ?cp0 = "\<lparr>cp_path = ?root, cp_parent_directory = ?root, cp_new_directory_start = None\<rparr>"
  have walk: "creation_walk t location ?cp0 (from_components []) ?comps = Inr cp"
    and ens: "ensure_path_within_repository e base t (cp_path cp) repository = Inr ()"
    using got by (auto simp: get_path_for_creation_def Let_def split: sum.splits)
  have path: "cp_path cp = ?root @ ?comps"
    and par: "cp_parent_directory cp = (if ?comps = [] then ?root else butlast (?root @ ?comps))"
    using creation_walk_path [OF walk] by simp_all
  have full: "cp_path cp = base @ ?u # ?comps" using path by (simp add: repository_root_def)
  have names: "list_all normal_name (?u # ?comps)" using nu nc by simp
  obtain croot cpath where cr: "canonicalize_existing t (rev ?root) = Inr croot"
    and cpa: "canonicalize_existing t (rev (cp_path cp)) = Inr cpath" and pre: "prefix croot cpath"
    using ens by (auto simp: ensure_path_within_repository_def split: sum.splits if_splits)
  consider (root_there) q where "canonicalize t ?root = Inr q" | (root_missing) "canonicalize t ?root = Inl NotFound"
    using existing_error [OF cr] by blast
  then show ?thesis
  proof cases
    case root_there
    have q0: "repository_place e base t repository = q"
      using root_there by (simp add: repository_place_def canonicalize_Inr)
    have "croot = q" using existing_Inr [OF root_there] cr by simp
    with pre q0 have pre': "prefix (repository_place e base t repository) cpath" by simp
    from existing_error [OF cpa] show ?thesis
    proof
      assume "\<exists>r. canonicalize t (cp_path cp) = Inr r"
      then obtain r where r: "canonicalize t (cp_path cp) = Inr r" by blast
      have "cpath = r" using existing_Inr [OF r] cpa by simp
      have "cp_new_directory_start cp = None"
      proof (rule ccontr)
        assume "cp_new_directory_start cp \<noteq> None"
        with creation_walk_start [OF walk] obtain k where
          k: "k \<le> length ?comps" "metadata t (?root @ take k ?comps) = Inl NotFound" by auto
        show False
        proof (cases "k = length ?comps")
          case True
          with k(2) r path show False by (auto simp: metadata_def canonicalize_Inr)
        next
          case False
          with k(1) have "drop k ?comps \<noteq> []" by simp
          moreover have "locate max_links t [] ((?root @ take k ?comps) @ drop k ?comps) = Inr r"
            using r path by (simp add: canonicalize_Inr place_def)
          ultimately show False using locate_split [OF wf] k(2)
            by (fastforce simp: metadata_def place_def)
        qed
      qed
      with r \<open>cpath = r\<close> pre' show ?thesis by (intro found) auto
    next
      assume nf: "canonicalize t (cp_path cp) = Inl NotFound"
      from stops_below [OF ready names nf [unfolded full]] obtain a x ys b where
        s: "base @ ?u # ?comps = a @ x # ys" "canonicalize t a = Inr b" "node_at t b = Some DirNode"
          "node_at t (b @ [x]) = None" "list_all normal_name (x # ys)" by metis
      have "canonicalize_existing t (rev (cp_path cp)) = Inr b"
        using existing_ancestor [OF s(2-4)] s(1,5) full by simp
      then have "cpath = b" using cpa by simp
      have ne: "?comps \<noteq> []" using nf root_there path by auto
      have "cp_new_directory_start cp \<noteq> None"
      proof
        assume "cp_new_directory_start cp = None"
        with creation_walk_start [OF walk] ne have "path_exists t (?root @ take (length ?comps) ?comps)" by auto
        with nf path show False by (simp add: path_exists_canonical)
      qed
      with s full par ne path pre' \<open>cpath = b\<close> show ?thesis
        by (intro fresh [of a x ys b]) auto
    qed
  next
    case root_missing
    have "list_all normal_name [?u]" using nu by simp
    from stops_below [OF ready this root_missing [unfolded repository_root_def]] obtain a x ys b where
      s: "base @ [?u] = a @ x # ys" "canonicalize t a = Inr b" "node_at t b = Some DirNode"
        "node_at t (b @ [x]) = None" "prefix base a" by metis
    have "a = base \<and> x = ?u \<and> ys = []"
    proof -
      obtain zs where "a = base @ zs" using s(5) by (auto simp: prefix_def)
      with s(1) show ?thesis by (cases zs) auto
    qed
    then have a: "a = base" "x = ?u" by simp_all
    have place: "place t ?root = Inr (b @ [?u])"
      using place_below_missing [OF s(2-4), of "[]"] nu a by (simp add: repository_root_def)
    have "cp_new_directory_start cp = None \<Longrightarrow> ?comps = []"
    proof (rule ccontr)
      assume "cp_new_directory_start cp = None" "?comps \<noteq> []"
      with creation_walk_start [OF walk] have "path_exists t (?root @ take (length ?comps) ?comps)" by auto
      then obtain r where "canonicalize t (cp_path cp) = Inr r" using path by (auto simp: path_exists_canonical)
      moreover have "place t (cp_path cp) = (if ?comps = [] then Inr (b @ [?u]) else Inl NotFound)"
        using place_below_missing [OF s(2-4), of ?comps] nu a full by simp
      ultimately show False using \<open>?comps \<noteq> []\<close> by (simp add: canonicalize_Inr)
    qed
    moreover have "cp_new_directory_start cp \<noteq> None \<Longrightarrow> ?comps \<noteq> []"
      using creation_walk_start [OF walk] by auto
    ultimately show ?thesis using s a full par path names place
      by (intro fresh [of base ?u ?comps b]) (auto simp: repository_place_def)
  qed
qed

text \<open>Beyond \<open>t\<close> the tree \<open>t'\<close> has only directories on the way to \<open>f\<close>.\<close>

definition dirs_for :: "fspath \<Rightarrow> tree \<Rightarrow> tree \<Rightarrow> bool" where
  "dirs_for f t t' =
     (\<forall>p. node_at t' p = node_at t p \<or>
          node_at t p = None \<and> node_at t' p = Some DirNode \<and> strict_prefix p f)"

lemma dirs_added_for:
  assumes wf: "wf_tree t" and x: "node_at t (q @ [x]) = None" and added: "dirs_added q (x # ys) t t'"
  shows "dirs_for (q @ (x # ys) @ [z]) t t'"
  unfolding dirs_for_def
proof (intro allI)
  fix p
  show "node_at t' p = node_at t p \<or>
      node_at t p = None \<and> node_at t' p = Some DirNode \<and> strict_prefix p (q @ (x # ys) @ [z])"
  proof (cases "strict_prefix q p \<and> prefix p (q @ x # ys)")
    case True
    have "node_at t p = None" using missing_on_the_way [OF wf x] True by blast
    moreover have "prefix p ((q @ x # ys) @ [z])" using True prefix_prefix by blast
    moreover have "length p \<le> length (q @ x # ys)" using True prefix_length_le by blast
    then have "p \<noteq> (q @ x # ys) @ [z]" by auto
    ultimately have "strict_prefix p (q @ (x # ys) @ [z])" by (simp add: strict_prefix_def)
    moreover have "node_at t p = None" by fact
    moreover have "node_at t' p = Some DirNode" using added True by (simp add: dirs_added_def)
    ultimately show ?thesis by simp
  next
    case False
    then have "node_at t' p = node_at t p" using added unfolding dirs_added_def by presburger
    then show ?thesis by simp
  qed
qed

lemma dirs_for_same [simp]: "dirs_for f t t"
  by (simp add: dirs_for_def)

lemma dirs_confined:
  assumes "wf_tree t" and "node_at t (q @ [x]) = None" and "dirs_added q (x # ys) t t'"
    and "prefix r (q @ [x])" and "\<not> prefix r p"
  shows "node_at t' p = node_at t p"
proof -
  have "\<not> prefix (q @ [x]) p" using assms(4,5) prefix_order.order_trans by blast
  then have "\<not> (strict_prefix q p \<and> prefix p (q @ x # ys))"
    by (auto simp: strict_prefix_def prefix_def Cons_eq_append_conv append_eq_append_conv2)
  with assms(3) show ?thesis unfolding dirs_added_def by auto
qed

lemma creation_prepared:
  assumes ready: "storage_ready e base (disk s) repository"
    and got: "get_path_for_creation e base (disk s) repository location = Inr cp"
    and run: "make_parent cp s = (r, s1)"
  shows "confined (repository_place e base (disk s) repository) s s1"
    and "faults s = [] \<Longrightarrow> r = Inr () \<and> faults s1 = []"
    and "r = Inr () \<Longrightarrow> \<exists>f. place (disk s1) (cp_path cp) = Inr f \<and> dirs_for f (disk s) (disk s1) \<and>
      prefix (repository_place e base (disk s) repository) f \<and>
      (canonicalize (disk s) (cp_path cp) = Inr f \<or>
       \<not> path_exists (disk s) (cp_path cp) \<and> node_at (disk s) f = None \<and> node_at (disk s1) f = None)"
proof -
  let ?q0 = "repository_place e base (disk s) repository"
  have wf: "wf_tree (disk s)" using ready by (simp add: storage_ready_def)
  have "confined ?q0 s s1 \<and> (faults s = [] \<longrightarrow> r = Inr () \<and> faults s1 = []) \<and>
      (r = Inr () \<longrightarrow> (\<exists>f. place (disk s1) (cp_path cp) = Inr f \<and> dirs_for f (disk s) (disk s1) \<and> prefix ?q0 f \<and>
        (canonicalize (disk s) (cp_path cp) = Inr f \<or>
         \<not> path_exists (disk s) (cp_path cp) \<and> node_at (disk s) f = None \<and> node_at (disk s1) f = None)))"
  proof -
    have still: ?thesis if h: "r = Inr ()" "s1 = s" "place (disk s) (cp_path cp) = Inr f" "prefix ?q0 f"
        "canonicalize (disk s) (cp_path cp) = Inr f \<or> node_at (disk s) f = None" for f
    proof -
      have "canonicalize (disk s) (cp_path cp) = Inr f \<or> \<not> path_exists (disk s) (cp_path cp) \<and> node_at (disk s) f = None"
        using h(3,5) by (auto simp: path_exists_iff)
      with h show ?thesis by auto
    qed
    from ready got show ?thesis
    proof (cases rule: creation_cases)
      case (found q)
      then show ?thesis using run by (intro still [of q]) (auto simp: make_parent_def ret_app canonicalize_Inr)
    next
      case (fresh a x ys q)
      have nx: "normal_name x" using fresh(6) by simp
      show ?thesis
      proof (cases "cp_new_directory_start cp = None")
        case True
        have "place (disk s) (cp_path cp) = Inr (q @ [x])"
          using place_below_missing [OF fresh(2-4) nx, of ys] fresh(1,7) True by simp
        with True run fresh show ?thesis
          by (intro still [of "q @ [x]"]) (auto simp: make_parent_def ret_app)
      next
        case False
        let ?p = "cp_parent_directory cp"
        have mk: "io (sys (\<lambda>t. make_dirs t (rev ?p))) s = (r, s1)"
          using run False by (simp add: make_parent_def create_dir_all_def)
        have par: "?p = a @ butlast (x # ys)" using fresh(1) fresh(8) [OF False] by (simp add: butlast_append)
        show ?thesis
        proof (cases ys rule: rev_cases)
          case Nil
          have same: "make_dirs (disk s) (rev ?p) = (Inr (), disk s)"
            using make_dirs_exists [OF fresh(2,3) wf] par Nil by simp
          have "place (disk s) (cp_path cp) = Inr (q @ [x])"
            using place_below_missing [OF fresh(2-4) nx, of ys] fresh(1) Nil by simp
          with mk same show ?thesis
          proof (cases rule: io_sys_cases)
            case (ran y d)
            then have "y = Inr ()" "d = disk s" using same by simp_all
            then have "r = Inr ()" using ran(3) by simp
            from \<open>d = disk s\<close> have "disk s1 = disk s" "faults s1 = tl (faults s)" using ran(2) by simp_all
            moreover have "\<not> path_exists (disk s) (cp_path cp)"
              using \<open>place (disk s) (cp_path cp) = Inr (q @ [x])\<close> fresh(4) by (simp add: path_exists_iff)
            ultimately show ?thesis
              using \<open>place (disk s) (cp_path cp) = Inr (q @ [x])\<close> fresh(4,5) \<open>r = Inr ()\<close>
              by (auto simp: confined_def)
          qed (auto simp: confined_def)
        next
          case (snoc zs z)
          have names: "list_all normal_name (x # zs)" "normal_name z" using fresh(6) snoc by simp_all
          obtain t' where t': "make_dirs (disk s) (rev (a @ x # zs)) = (Inr (), t')"
            "dirs_added q (x # zs) (disk s) t'"
            using make_dirs_new [OF wf fresh(2-4) names(1)] by blast
          have p: "?p = a @ x # zs" using par snoc by (simp add: butlast_append)
          have pl: "place t' (cp_path cp) = Inr (q @ (x # zs) @ [z])"
            using place_below_added(1) [OF wf fresh(2-4) names(1) t'(2) names(2)] fresh(1) snoc by simp
          have none: "node_at (disk s) (q @ (x # zs) @ [z]) = None" by (rule missing_below [OF wf fresh(4)]) simp
          have "\<not> prefix (q @ (x # zs) @ [z]) (q @ x # zs)" by (auto dest: prefix_length_le)
          then have none': "node_at t' (q @ (x # zs) @ [z]) = None"
            using none t'(2) unfolding dirs_added_def by simp
          have gone: "\<not> path_exists (disk s) (cp_path cp)"
            using place_below_missing [OF fresh(2-4) nx, of ys] fresh(1,4) by (auto simp: path_exists_iff)
          have pre: "prefix ?q0 (q @ (x # zs) @ [z])"
            using fresh(5) by (metis append.assoc append_Cons append_Nil prefix_prefix)
          from mk show ?thesis
          proof (cases rule: io_sys_cases)
            case (ran y d)
            then have s1: "disk s1 = t'" "r = Inr ()" "faults s1 = tl (faults s)" using t'(1) p by simp_all
            have "confined ?q0 s s1"
              unfolding confined_def s1(1) using dirs_confined [OF wf fresh(4) t'(2) fresh(5)] by blast
            moreover have "dirs_for (q @ (x # zs) @ [z]) (disk s) t'"
              by (rule dirs_added_for [OF wf fresh(4) t'(2)])
            ultimately show ?thesis using s1 pl none none' gone pre by auto
          qed (auto simp: confined_def)
        qed
      qed
    qed
  qed
  then show "confined (repository_place e base (disk s) repository) s s1"
    and "faults s = [] \<Longrightarrow> r = Inr () \<and> faults s1 = []"
    and "r = Inr () \<Longrightarrow> \<exists>f. place (disk s1) (cp_path cp) = Inr f \<and> dirs_for f (disk s) (disk s1) \<and>
      prefix (repository_place e base (disk s) repository) f \<and>
      (canonicalize (disk s) (cp_path cp) = Inr f \<or>
       \<not> path_exists (disk s) (cp_path cp) \<and> node_at (disk s) f = None \<and> node_at (disk s1) f = None)"
    by blast+
qed

lemma open_create_cases:
  assumes run: "io (open_create p) s = (r, s1)" and pl: "place (disk s) p = Inr f"
  obtains (fault) err where "faults s \<noteq> []" and "r = Inl err" and "disk s1 = disk s"
  | (old) bs where "node_at (disk s) f = Some (FileNode bs)" and "r = Inr f" and "disk s1 = disk s"
      and "faults s1 = tl (faults s)"
  | (new) "node_at (disk s) f = None" and "r = Inr f" and "disk s1 = set_node f (FileNode []) (disk s)"
      and "faults s1 = tl (faults s)"
  | (refused) "node_at (disk s) f = Some DirNode \<or> is_link (node_at (disk s) f)"
      and "r = Inl (IOError IsADirectory)" and "disk s1 = disk s"
  using run unfolding open_create_def
proof (cases rule: io_sys_cases)
  case fault
  then show ?thesis by (intro that(1)) auto
next
  case (ran x d)
  show ?thesis
  proof (cases "node_at (disk s) f")
    case None
    with ran pl have "x = Inr f" "d = set_node f (FileNode []) (disk s)" by auto
    with ran None show ?thesis by (intro that(3)) auto
  next
    case (Some n)
    show ?thesis
    proof (cases n)
      case (FileNode bs)
      with ran pl Some have "x = Inr f" "d = disk s" by auto
      with ran Some FileNode show ?thesis by (intro that(2)) auto
    next
      case DirNode
      with ran pl Some have "x = Inl IsADirectory" "d = disk s" by auto
      with ran Some DirNode show ?thesis by (intro that(4)) auto
    next
      case (LinkNode a l)
      with ran pl Some have "x = Inl IsADirectory" "d = disk s" by auto
      with ran Some LinkNode show ?thesis by (intro that(4)) auto
    qed
  qed
qed

lemma confined_open_create:
  assumes "io (open_create p) s = (r, s1)" and "place (disk s) p = Inr f" and "prefix q f"
  shows "confined q s s1"
  using assms(1,2)
  by (cases rule: open_create_cases) (use assms(3) in \<open>auto simp: confined_def\<close>)

text \<open>The common part of the writing operations, up to the handle.\<close>

lemma opened_confined:
  assumes ready: "storage_ready e base (disk s) repository"
    and got: "get_path_for_creation e base (disk s) repository location = Inr cp"
    and k: "\<And>x f. prefix (repository_place e base (disk s) repository) f \<Longrightarrow>
      preserves (confined (repository_place e base (disk s) repository)) (k x f)"
    and run: "bind_ok (make_parent cp) (\<lambda>_. bind_ok (look g) (\<lambda>x. bind_ok (io (open_create (cp_path cp))) (k x))) s = (r, u)"
  shows "confined (repository_place e base (disk s) repository) s u"
proof (rule below.frame_run [OF run])
  fix r1 s1 assume "make_parent cp s = (r1, s1)"
  then show "confined (repository_place e base (disk s) repository) s s1"
    by (rule creation_prepared(1) [OF ready got])
next
  fix a s1
  assume mk: "make_parent cp s = (Inr a, s1)"
    and run1: "bind_ok (look g) (\<lambda>x. bind_ok (io (open_create (cp_path cp))) (k x)) s1 = (r, u)"
  then have mk': "make_parent cp s = (Inr (), s1)" by simp
  obtain f where f: "place (disk s1) (cp_path cp) = Inr f" "prefix (repository_place e base (disk s) repository) f"
    using creation_prepared(3) [OF ready got mk'] by blast
  from run1 have "bind_ok (io (open_create (cp_path cp))) (k (g s1)) s1 = (r, u)"
    by (simp add: look_def db_simps)
  then show "confined (repository_place e base (disk s) repository) s1 u"
  proof (rule below.frame_run)
    fix x t assume op: "io (open_create (cp_path cp)) s1 = (x, t)"
    show "confined (repository_place e base (disk s) repository) s1 t"
      by (rule confined_open_create [OF op f])
  next
    fix h t assume op: "io (open_create (cp_path cp)) s1 = (Inr h, t)" and "k (g s1) h t = (r, u)"
    moreover have "h = f" using op f(1) by (cases rule: open_create_cases) auto
    ultimately show "confined (repository_place e base (disk s) repository) t u"
      using preservesD [OF k [OF f(2)]] by blast
  qed
qed

lemma bind_look: "bind_ok (look g) k s = k (g s) s"
  by (simp add: look_def bind_ok_def ret_def)

lemma bind_look_const: "bind_ok (look g) (\<lambda>_. m) = m"
  by (rule ext) (simp add: bind_look)

lemma bind_from_result:
  "bind_ok (from_result x) k s = (case x of Inl e \<Rightarrow> (Inl e, s) | Inr a \<Rightarrow> k a s)"
  by (cases x) (simp_all add: bind_ok_def from_result_def)

lemma save_file_confined:
  assumes ready: "storage_ready e base (disk s) repository"
    and run: "save_file e base repository content location s = (r, s')"
  shows "confined (repository_place e base (disk s) repository) s s'"
proof (cases "get_path_for_creation e base (disk s) repository location")
  case (Inl err)
  with run show ?thesis by (simp add: save_file_def bind_look bind_from_result)
next
  case got: (Inr cp)
  let ?k = "\<lambda>new_file file. bind_ok (io handle_call) (\<lambda>_. bind_ok (io (set_len_zero file)) (\<lambda>_.
     bind_ok (io handle_call) (\<lambda>_. bind_ok (write_and_unlock content file) (\<lambda>bytes_written.
     bind_ok (if \<not> is_hidden_file (cp_path cp)
              then run_post_save_file base (cp_path cp) (cp_new_directory_start cp) else ret ()) (\<lambda>_.
       ret (bytes_written, new_file))))))"
  have "bind_ok (make_parent cp) (\<lambda>_. bind_ok (look (\<lambda>s. \<not> path_exists (disk s) (cp_path cp)))
      (\<lambda>x. bind_ok (io (open_create (cp_path cp))) (?k x))) s = (r, s')"
    using run got by (simp add: save_file_def bind_look bind_from_result)
  then show ?thesis
  proof (rule opened_confined [OF ready got, rotated])
    fix x f assume f: "prefix (repository_place e base (disk s) repository) f"
    show "preserves (confined (repository_place e base (disk s) repository)) (?k x f)"
      by (intro below_intros confined_writes [OF f] confined_write_and_unlock [OF f] confined_post_save)
  qed
qed

lemma append_file_confined:
  assumes ready: "storage_ready e base (disk s) repository"
    and run: "append_file e base repository content location s = (r, s')"
  shows "confined (repository_place e base (disk s) repository) s s'"
proof (cases "get_path_for_creation e base (disk s) repository location")
  case (Inl err)
  with run show ?thesis by (simp add: append_file_def bind_look bind_from_result)
next
  case got: (Inr cp)
  let ?k = "\<lambda>(_::unit) file. bind_ok (io handle_call) (\<lambda>_. write_and_unlock content file)"
  have "bind_ok (make_parent cp) (\<lambda>_. bind_ok (look (\<lambda>_. ()))
      (\<lambda>x. bind_ok (io (open_create (cp_path cp))) (?k x))) s = (r, s')"
    unfolding bind_look_const using run got by (simp add: append_file_def bind_look bind_from_result)
  then show ?thesis
  proof (rule opened_confined [OF ready got, rotated])
    fix x f assume f: "prefix (repository_place e base (disk s) repository) f"
    show "preserves (confined (repository_place e base (disk s) repository)) (?k x f)"
      by (intro below_intros confined_write_and_unlock [OF f])
  qed
qed

lemma open_append_confined:
  assumes ready: "storage_ready e base (disk s) repository"
    and run: "open_append_handle e base repository location s = (r, s')"
  shows "confined (repository_place e base (disk s) repository) s s'"
    and "r = Inr (file, p) \<Longrightarrow> prefix (repository_place e base (disk s) repository) file"
proof -
  show "confined (repository_place e base (disk s) repository) s s'"
  proof (cases "get_path_for_creation e base (disk s) repository location")
    case (Inl err)
    with run show ?thesis by (simp add: open_append_handle_def bind_look bind_from_result)
  next
    case got: (Inr cp)
    let ?k = "\<lambda>(_::unit) file. bind_ok (io handle_call) (\<lambda>_. ret (file, cp_path cp))"
    have "bind_ok (make_parent cp) (\<lambda>_. bind_ok (look (\<lambda>_. ()))
        (\<lambda>x. bind_ok (io (open_create (cp_path cp))) (?k x))) s = (r, s')"
      unfolding bind_look_const using run got by (simp add: open_append_handle_def bind_look bind_from_result)
    then show ?thesis
      by (rule opened_confined [OF ready got, rotated]) (intro below_intros)
  qed
next
  assume ok: "r = Inr (file, p)"
  obtain cp s1 where got: "get_path_for_creation e base (disk s) repository location = Inr cp"
    and mk: "make_parent cp s = (Inr (), s1)"
    and op: "\<exists>s2. io (open_create (cp_path cp)) s1 = (Inr file, s2)"
    using run ok
    by (auto simp: open_append_handle_def bind_look bind_from_result bind_ok_Inr_iff ret_app split: sum.splits)
  obtain f where f: "place (disk s1) (cp_path cp) = Inr f" "prefix (repository_place e base (disk s) repository) f"
    using creation_prepared(3) [OF ready got mk] by blast
  obtain s2 where op': "io (open_create (cp_path cp)) s1 = (Inr file, s2)" using op by blast
  have "file = f" using op' f(1) by (cases rule: open_create_cases) auto
  with f(2) show "prefix (repository_place e base (disk s) repository) file" by simp
qed

section \<open>Runs without failures\<close>

lemma io_sys_no_faults:
  "faults s = [] \<Longrightarrow> io (sys f) s =
     (case f (disk s) of (Inl err, d) \<Rightarrow> (Inl (IOError err), s\<lparr>disk := d\<rparr>) | (Inr a, d) \<Rightarrow> (Inr a, s\<lparr>disk := d\<rparr>))"
  by (auto simp: io_def map_err_def sys_def Let_def set_faults_same split: prod.splits sum.splits)

lemma io_handle_call_no_faults: "faults s = [] \<Longrightarrow> io handle_call s = (Inr (), s)"
  unfolding handle_call_def by (simp add: io_sys_no_faults)

lemma io_set_len_no_faults:
  "faults s = [] \<Longrightarrow> io (set_len_zero q) s = (Inr (), s\<lparr>disk := update_file q (\<lambda>_. []) (disk s)\<rparr>)"
  unfolding set_len_zero_def by (simp add: io_sys_no_faults)

lemma io_write_all_no_faults:
  "faults s = [] \<Longrightarrow> io (write_all k q bs) s = (Inr (), s\<lparr>disk := update_file q (\<lambda>old. old @ bs) (disk s)\<rparr>)"
  by (simp add: io_def map_err_def write_all_def Let_def set_faults_same)

definition content_bytes :: "file_content \<Rightarrow> bytes option" where
  "content_bytes c = (case c of ContentPath _ \<Rightarrow> None | Content bs \<Rightarrow> Some bs | Bytes bs \<Rightarrow> Some bs)"

lemma write_and_unlock_no_faults:
  assumes "faults s = []" and "content_bytes c = Some bs"
  shows "write_and_unlock c q s = (Inr (length bs), s\<lparr>disk := update_file q (\<lambda>old. old @ bs) (disk s)\<rparr>)"
  using assms
  by (cases c) (auto simp: write_and_unlock_def write_to_def Let_def bind_look content_bytes_def
      bind_ok_def bind_res_def io_write_all_no_faults io_handle_call_no_faults ret_app look_def)

definition after_save :: "fspath \<Rightarrow> create_path \<Rightarrow> 'z local_state_scheme \<Rightarrow> 'z local_state_scheme" where
  "after_save base cp s =
     (if is_hidden_file (cp_path cp) \<or> unloaded s then s
      else s\<lparr>meta_queue := meta_queue s @ meta_updates base (cp_path cp) (cp_new_directory_start cp)\<rparr>)"

lemma disk_after_save [simp]: "disk (after_save base cp s) = disk s" "faults (after_save base cp s) = faults s"
  "precomputed (after_save base cp s) = precomputed s"
  by (simp_all add: after_save_def)

lemma save_tail:
  assumes "faults s = []" and "content_bytes content = Some bs" and "node_at (disk s) f = Some (FileNode old)"
  shows "bind_ok (io handle_call) (\<lambda>_. bind_ok (io (set_len_zero f)) (\<lambda>_.
     bind_ok (io handle_call) (\<lambda>_. bind_ok (write_and_unlock content f) (\<lambda>bytes_written.
     bind_ok (if \<not> is_hidden_file (cp_path cp)
              then run_post_save_file base (cp_path cp) (cp_new_directory_start cp) else ret ()) (\<lambda>_.
       ret (bytes_written, new_file)))))) s =
     (Inr (length bs, new_file), after_save base cp (s\<lparr>disk := set_node f (FileNode bs) (disk s)\<rparr>))"
    (is "?run = _")
proof -
  have ne: "f \<noteq> []" using assms(3) by auto
  have twice: "update_file f (\<lambda>old. old @ bs) (update_file f (\<lambda>_. []) (disk s)) = set_node f (FileNode bs) (disk s)"
  proof -
    have "set_node f (FileNode bs) (set_node f (FileNode []) (disk s)) = set_node f (FileNode bs) (disk s)"
      unfolding set_node_def by (induction "disk s") auto
    then show ?thesis using assms(3) ne by (simp add: update_file_def)
  qed
  define s1 where "s1 = s\<lparr>disk := update_file f (\<lambda>_. []) (disk s)\<rparr>"
  define s2 where "s2 = s\<lparr>disk := set_node f (FileNode bs) (disk s)\<rparr>"
  have f1: "faults s1 = []" using assms(1) by (simp add: s1_def)
  have len: "io (set_len_zero f) s = (Inr (), s1)" using io_set_len_no_faults [OF assms(1)] by (simp add: s1_def)
  have wr: "write_and_unlock content f s1 = (Inr (length bs), s2)"
    using write_and_unlock_no_faults [OF f1 assms(2), of f] twice by (simp add: s1_def s2_def)
  have post: "(if \<not> is_hidden_file (cp_path cp)
      then run_post_save_file base (cp_path cp) (cp_new_directory_start cp) else ret ()) s2 =
      (Inr (), after_save base cp s2)"
    by (simp add: after_save_def run_post_save_file_def set_state_def ret_def)
  show ?thesis
    unfolding s2_def [symmetric]
    by (simp add: io_handle_call_no_faults [OF assms(1)] io_handle_call_no_faults [OF f1] len wr post ret_app
        del: if_not_P if_P split del: if_split)
qed

lemma canonical_not_link:
  assumes "wf_tree t" and "canonicalize t p = Inr q"
  shows "\<not> is_link (node_at t q)"
  using locate_place [OF assms(1), of max_links "[]" p q] assms(2) by (simp add: canonicalize_Inr place_def)

lemma dirs_for_grows: "dirs_for f t t' \<Longrightarrow> grows t t'"
  unfolding grows_def dirs_for_def same_kind_def by (metis option.distinct(1))

lemma grows_set_file:
  assumes "node_at t f = None \<or> (\<exists>old. node_at t f = Some (FileNode old))"
  shows "grows t (set_node f (FileNode bs) t)"
  using assms unfolding grows_def same_kind_def by auto

text \<open>Saving without failures: the file holds the content, and beyond it only missing directories on
  its way were made.\<close>

lemma save_file_stores:
  assumes ready: "storage_ready e base (disk s) repository" and nf: "faults s = []"
    and got: "get_path_for_creation e base (disk s) repository location = Inr cp"
    and nodir: "\<not> path_is_dir (disk s) (cp_path cp)" and content: "content_bytes content = Some bs"
  obtains f s1 where "save_file e base repository content location s =
      (Inr (length bs, \<not> path_exists (disk s) (cp_path cp)), after_save base cp (s1\<lparr>disk := set_node f (FileNode bs) (disk s1)\<rparr>))"
    and "canonicalize (set_node f (FileNode bs) (disk s1)) (cp_path cp) = Inr f" and "f \<noteq> []"
    and "dirs_for f (disk s) (disk s1)" and "faults s1 = []"
    and "canonicalize (disk s) (cp_path cp) = Inr f \<or> node_at (disk s) f = None"
    and "prefix (repository_place e base (disk s) repository) f"
    and "s1 = s\<lparr>disk := disk s1\<rparr>"
proof -
  have wf: "wf_tree (disk s)" using ready by (simp add: storage_ready_def)
  obtain r s1 where mk0: "make_parent cp s = (r, s1)" by fastforce
  have mk: "make_parent cp s = (Inr (), s1)" and nf1: "faults s1 = []"
    using creation_prepared(2) [OF ready got mk0 nf] mk0 by simp_all
  have s1: "s1 = s\<lparr>disk := disk s1\<rparr>"
    using mk by (auto simp: make_parent_def ret_app create_dir_all_def io_sys_no_faults [OF nf]
        split: if_splits prod.splits sum.splits)
  obtain f where f: "place (disk s1) (cp_path cp) = Inr f" "dirs_for f (disk s) (disk s1)"
    "prefix (repository_place e base (disk s) repository) f"
    "canonicalize (disk s) (cp_path cp) = Inr f \<or>
       \<not> path_exists (disk s) (cp_path cp) \<and> node_at (disk s) f = None \<and> node_at (disk s1) f = None"
    using creation_prepared(3) [OF ready got mk] by blast
  have grow: "grows (disk s) (disk s1)" by (rule dirs_for_grows [OF f(2)])
  have kinds: "node_at (disk s1) f = None \<or> (\<exists>old. node_at (disk s1) f = Some (FileNode old))"
    and exists: "path_exists (disk s1) (cp_path cp) = path_exists (disk s) (cp_path cp)"
  proof -
    show "node_at (disk s1) f = None \<or> (\<exists>old. node_at (disk s1) f = Some (FileNode old))"
    proof (cases "canonicalize (disk s) (cp_path cp) = Inr f")
      case True
      then have "node_at (disk s) f \<noteq> Some DirNode" "node_at (disk s) f \<noteq> None"
        "\<not> is_link (node_at (disk s) f)"
        using nodir canonical_not_link [OF wf True] by (auto simp: path_is_dir_iff canonicalize_Inr)
      then obtain old where "node_at (disk s) f = Some (FileNode old)"
        by (metis is_link_simps(4) node.exhaust not_None_eq)
      with growsD(3) [OF grow] show ?thesis by blast
    next
      case False
      with f(4) show ?thesis by simp
    qed
    show "path_exists (disk s1) (cp_path cp) = path_exists (disk s) (cp_path cp)"
    proof (cases "canonicalize (disk s) (cp_path cp) = Inr f")
      case True
      then have "node_at (disk s) f \<noteq> None" by (simp add: canonicalize_Inr)
      then have "node_at (disk s1) f \<noteq> None" using grow unfolding grows_def by blast
      with True f(1) show ?thesis by (auto simp: path_exists_iff canonicalize_Inr)
    next
      case False
      with f(1,4) show ?thesis by (auto simp: path_exists_iff)
    qed
  qed
  have ne: "f \<noteq> []" using kinds by auto
  obtain s2 where op: "io (open_create (cp_path cp)) s1 = (Inr f, s2)" and s2: "faults s2 = []"
    "disk s2 = disk s1 \<and> (\<exists>old. node_at (disk s1) f = Some (FileNode old)) \<or>
     disk s2 = set_node f (FileNode []) (disk s1)" "s2 = s1\<lparr>disk := disk s2\<rparr>"
    using kinds f(1) by (auto simp: open_create_def io_sys_no_faults [OF nf1] nf1)
  have old: "\<exists>old. node_at (disk s2) f = Some (FileNode old)" using s2(2) ne by auto
  then obtain old where old: "node_at (disk s2) f = Some (FileNode old)" by blast
  have twice: "set_node f (FileNode bs) (disk s2) = set_node f (FileNode bs) (disk s1)"
  proof -
    have "set_node f (FileNode bs) (set_node f (FileNode []) t) = set_node f (FileNode bs) t" for t
      unfolding set_node_def by (induction t) auto
    with s2(2) show ?thesis by auto
  qed
  have same: "s2\<lparr>disk := set_node f (FileNode bs) (disk s2)\<rparr> = s1\<lparr>disk := set_node f (FileNode bs) (disk s1)\<rparr>"
    using s2(3) twice by (metis fs_state.update_convs(1) fs_state.surjective)
  have run: "save_file e base repository content location s =
      (Inr (length bs, \<not> path_exists (disk s) (cp_path cp)),
       after_save base cp (s1\<lparr>disk := set_node f (FileNode bs) (disk s1)\<rparr>))"
    unfolding save_file_def
    by (simp add: bind_look bind_from_result got mk op exists save_tail [OF s2(1) content old] same
        del: if_not_P if_P split del: if_split)
  have "canonicalize (set_node f (FileNode bs) (disk s1)) (cp_path cp) = Inr f"
  proof -
    have "grows (disk s1) (set_node f (FileNode bs) (disk s1))" by (rule grows_set_file [OF kinds])
    from locate_grows [OF this f(1) [unfolded place_def]] ne show ?thesis
      by (simp add: canonicalize_Inr place_def)
  qed
  with run ne f nf1 s1 show ?thesis by (intro that) auto
qed

section \<open>Metadata touches only hidden entries\<close>

text \<open>An entry with a visible name, and every directory, stays as it is.\<close>

definition steady :: "tree \<Rightarrow> fspath \<Rightarrow> bool" where
  "steady t p = (\<not> is_hidden_file p \<or> node_at t p = Some DirNode)"

definition visible :: "'z fs_state_scheme \<Rightarrow> 'z fs_state_scheme \<Rightarrow> bool" where
  "visible s t =
     (wf_tree (disk s) \<longrightarrow>
        wf_tree (disk t) \<and> (\<forall>p. steady (disk s) p \<longrightarrow> node_at (disk t) p = node_at (disk s) p))"

interpretation visible_frame: frame visible
  by unfold_locales (auto simp: visible_def steady_def)

text \<open>A call that keeps the tree well-formed and changes no entry with a visible name.\<close>

lemma visible_io:
  assumes "preserves (tree_kept :: 'z fs_state_scheme \<Rightarrow> 'z fs_state_scheme \<Rightarrow> bool) (sys f)"
    and "\<And>t p. wf_tree t \<Longrightarrow> steady t p \<Longrightarrow> node_at (snd (f t)) p = node_at t p"
  shows "preserves (visible :: 'z fs_state_scheme \<Rightarrow> 'z fs_state_scheme \<Rightarrow> bool) (io (sys f))"
proof (rule preservesI)
  fix s t :: "'z fs_state_scheme" and r
  assume io: "io (sys f) s = (r, t)"
  obtain r' where run: "sys f s = (r', t)" using io_run [OF io] by blast
  have "wf_tree (disk s) \<Longrightarrow> wf_tree (disk t)"
    using preservesD [OF assms(1) run] by (simp add: tree_kept_def)
  with sys_run [OF run] assms(2) show "visible s t" by (auto simp: visible_def)
qed

lemma visible_reads:
  "preserves visible (io handle_call)" "preserves visible (io (open_read p))"
  "preserves visible (io (read_to_end f))" "preserves visible (io (read_dir p))"
  using kept_calls
  by (auto simp: handle_call_def open_read_def read_to_end_def read_dir_def intro!: visible_io
      split: option.splits node.splits sum.splits)

lemma hidden_entry: "entry_place t p = Inr q \<Longrightarrow> is_hidden_file q = is_hidden_file p"
  using hidden_last [of p "butlast q"] entry_placeD(4,6) [of t p q] by metis

text \<open>Below an entry that is not a directory there is nothing.\<close>

lemma nothing_below:
  assumes "wf_tree t" and "node_at t q \<noteq> Some DirNode" and "strict_prefix q p"
  shows "node_at t p = None"
proof (rule ccontr)
  assume "node_at t p \<noteq> None"
  moreover obtain r where "p = q @ r" "r \<noteq> []" using assms(3) by (auto simp: strict_prefix_def prefix_def)
  ultimately show False using wf_tree_above [OF assms(1), of q r] assms(2) by auto
qed

lemma visible_open_new:
  assumes "is_hidden_file p"
  shows "preserves visible (io (open_new p))"
  using kept_calls(3) [of p] assms
  by (auto simp: open_new_def steady_def dest: hidden_entry intro!: visible_io split: sum.splits)

lemma visible_write:
  assumes "is_hidden_file q"
  shows "preserves visible (io (write_all k q bs))"
proof (rule preservesI)
  fix s r t assume io: "io (write_all k q bs) s = (r, t)"
  obtain r' where run: "write_all k q bs s = (r', t)" using io_run [OF io] by blast
  have "wf_tree (disk s) \<Longrightarrow> wf_tree (disk t)"
    using preservesD [OF kept_calls(8) run] by (simp add: tree_kept_def)
  moreover have "steady (disk s) p \<Longrightarrow> node_at (disk t) p = node_at (disk s) p" for p
    using run assms by (auto simp: write_all_def Let_def node_at_update_file steady_def split: if_splits)
  ultimately show "visible s t" by (simp add: visible_def)
qed

lemma visible_remove:
  assumes hid: "file_name p \<noteq> None \<Longrightarrow> is_hidden_file p"
  shows "preserves visible (io (remove_file p))"
  unfolding remove_file_def
proof (rule visible_io)
  show "preserves tree_kept (sys (\<lambda>t. case entry_place t p of Inl e \<Rightarrow> (Inl e, t)
      | Inr q \<Rightarrow> (case node_at t q of None \<Rightarrow> (Inl NotFound, t) | Some DirNode \<Rightarrow> (Inl IsADirectory, t)
          | Some _ \<Rightarrow> (Inr (), remove_below q t))))"
    using kept_calls(9) [of p] unfolding remove_file_def .
next
  fix t x assume wf: "wf_tree t" and vis: "steady t x"
  have "node_at (remove_below q t) x = node_at t x"
    if q: "entry_place t p = Inr q" "node_at t q \<noteq> Some DirNode" for q
  proof -
    have "file_name p \<noteq> None" using q(1)
      by (auto simp: entry_place_def file_name_def normal_name_def split: if_splits)
    then have "is_hidden_file q" using hid hidden_entry [OF q(1)] by simp
    then have "x \<noteq> q" using vis q(2) by (auto simp: steady_def)
    show ?thesis
    proof (cases "prefix q x")
      case True
      with \<open>x \<noteq> q\<close> have "strict_prefix q x" by (simp add: strict_prefix_def)
      from nothing_below [OF wf q(2) this] show ?thesis by simp
    qed simp
  qed
  then show "node_at (snd (case entry_place t p of Inl e \<Rightarrow> (Inl e, t)
      | Inr q \<Rightarrow> (case node_at t q of None \<Rightarrow> (Inl NotFound, t) | Some DirNode \<Rightarrow> (Inl IsADirectory, t)
          | Some _ \<Rightarrow> (Inr (), remove_below q t)))) x = node_at t x"
    by (auto split: sum.splits option.splits node.splits)
qed

lemma move_visible:
  assumes wf: "wf_tree t" and ok: "rename_error t a b = None" and b: "b \<noteq> []"
    and hid: "is_hidden_file a" "is_hidden_file b" and plain: "node_at t a \<noteq> Some DirNode"
    and vis: "steady t p" "p \<noteq> []"
  shows "node_at (move_below a b t) p = node_at t p"
proof (cases "a = b")
  case True
  then show ?thesis by (simp add: move_below_def)
next
  case False
  note dis = rename_disjoint [OF wf ok False b]
  have nb: "node_at t b \<noteq> Some DirNode"
    using ok plain dis(3) by (auto simp: rename_error_def split: option.splits if_splits)
  have ne: "p \<noteq> a" "p \<noteq> b" using vis hid plain nb by (auto simp: steady_def)
  show ?thesis
  proof (cases "prefix b p")
    case True
    then obtain r where r: "p = b @ r" by (auto simp: prefix_def)
    with ne have "r \<noteq> []" by auto
    then have "strict_prefix b p" "strict_prefix a (a @ r)" using r by (auto simp: strict_prefix_def)
    then have "node_at t p = None" "node_at t (a @ r) = None"
      using nothing_below [OF wf] nb plain by blast+
    then show ?thesis using node_at_move_below [OF dis(1,2) vis(2)] r \<open>r \<noteq> []\<close> by (simp add: node_at_def)
  next
    case nb: False
    show ?thesis
    proof (cases "prefix a p")
      case True
      with ne have "strict_prefix a p" by (simp add: strict_prefix_def)
      with nothing_below [OF wf plain] have "node_at t p = None" by blast
      with node_at_move_below [OF dis(1,2) vis(2)] nb True show ?thesis by simp
    next
      case False
      with node_at_move_below [OF dis(1,2) vis(2)] nb show ?thesis by simp
    qed
  qed
qed

lemma visible_rename:
  assumes run: "io (rename from to) s = (r, t)"
    and hid: "is_hidden_file from" "is_hidden_file to"
    and plain: "\<And>a. entry_place (disk s) from = Inr a \<Longrightarrow> node_at (disk s) a \<noteq> Some DirNode"
  shows "visible s t"
  unfolding visible_def
proof (intro impI conjI allI)
  assume wf: "wf_tree (disk s)"
  obtain r' where run': "rename from to s = (r', t)" using io_run [OF run] by blast
  show "wf_tree (disk t)" using preservesD [OF kept_calls(11) run'] wf by (simp add: tree_kept_def)
  fix p assume vis: "steady (disk s) p"
  show "node_at (disk t) p = node_at (disk s) p"
  proof (cases "p = []")
    case False
    from sys_run [OF run' [unfolded rename_def]] show ?thesis
    proof
      assume "r' = fst (case entry_place (disk s) from of Inl e \<Rightarrow> (Inl e, disk s)
        | Inr a \<Rightarrow> (case entry_place (disk s) to of Inl e \<Rightarrow> (Inl e, disk s)
            | Inr b \<Rightarrow> (case rename_error (disk s) a b of Some e \<Rightarrow> (Inl e, disk s)
                | None \<Rightarrow> (Inr (), move_below a b (disk s))))) \<and>
        disk t = snd (case entry_place (disk s) from of Inl e \<Rightarrow> (Inl e, disk s)
        | Inr a \<Rightarrow> (case entry_place (disk s) to of Inl e \<Rightarrow> (Inl e, disk s)
            | Inr b \<Rightarrow> (case rename_error (disk s) a b of Some e \<Rightarrow> (Inl e, disk s)
                | None \<Rightarrow> (Inr (), move_below a b (disk s)))))"
      then have "disk t = disk s \<or> (\<exists>a b. entry_place (disk s) from = Inr a \<and> entry_place (disk s) to = Inr b \<and>
          rename_error (disk s) a b = None \<and> disk t = move_below a b (disk s))"
        by (auto split: sum.splits option.splits)
      then show ?thesis
        using move_visible [OF wf _ _ _ _ plain vis False] hid hidden_entry entry_placeD(1) by metis
    qed simp
  qed simp
qed

lemma meta_path_hidden': "file_name (meta_path t p) = Some n \<Longrightarrow> is_hidden_file (meta_path t p)"
proof -
  assume n: "file_name (meta_path t p) = Some n"
  show ?thesis
  proof (cases "path_is_dir t p")
    case True
    then show ?thesis using hidden_name [of p "[]"] by (simp add: meta_path_def)
  next
    case False
    show ?thesis
    proof (cases "file_name p")
      case None
      with n False show ?thesis by (simp add: meta_path_def add_extension_def extension_def set_extension_def)
    next
      case (Some m)
      then have "add_extension ''nr-meta'' p = butlast p @ [m @ ''.nr-meta'']"
      proof (cases "name_extension m")
        case None
        with stem_no_extension [OF None] Some show ?thesis
          by (simp add: add_extension_def extension_def set_extension_def)
      next
        case ext: (Some x)
        with stem_extension [OF ext] Some show ?thesis
          by (simp add: add_extension_def extension_def set_extension_def)
      qed
      with False hidden_name show ?thesis by (simp add: meta_path_def)
    qed
  qed
qed

lemma entry_place_grows:
  assumes "grows t t'" and "entry_place t p = Inr q"
  shows "entry_place t' p = Inr q"
proof -
  note d = entry_placeD [OF assms(2)]
  have "canonicalize t' (butlast p) = Inr (butlast q)" by (rule canonicalize_grows [OF assms(1) d(5,2)])
  moreover have "node_at t' (butlast q) = Some DirNode" by (rule growsD(1) [OF assms(1) d(2)])
  moreover have "normal_name (last p)" using assms(2) by (auto simp: entry_place_def split: if_splits)
  moreover have "last p = last q" using d(1,4) by (metis last_snoc)
  ultimately show ?thesis using d(1,6) by (simp add: entry_place_def)
qed

lemma grows_refl: "grows t t"
  unfolding grows_def same_kind_def by blast

text \<open>The temporary file: made, written, and renamed to the sidecar.\<close>

lemma open_new_file:
  assumes run: "io (open_new p) s = (Inr q, t)"
  shows "entry_place (disk t) p = Inr q" and "node_at (disk t) q = Some (FileNode [])" and "last q = last p"
proof -
  have "sys (\<lambda>t. case entry_place t p of Inl e \<Rightarrow> (Inl e, t)
      | Inr q \<Rightarrow> if node_at t q = None then (Inr q, set_node q (FileNode []) t) else (Inl AlreadyExists, t)) s = (Inr q, t)"
    using run by (simp add: io_Inr open_new_def)
  from sys_Inr [OF this] have e: "entry_place (disk s) p = Inr q" "node_at (disk s) q = None"
    "disk t = set_node q (FileNode []) (disk s)"
    by (auto split: sum.splits if_splits)
  have "grows (disk s) (disk t)" unfolding e(3) by (rule grows_set_file) (simp add: e(2))
  from entry_place_grows [OF this e(1)] show "entry_place (disk t) p = Inr q" .
  show "node_at (disk t) q = Some (FileNode [])" using e entry_placeD(1) [OF e(1)] by simp
  show "last q = last p" using entry_placeD(1,4) [OF e(1)] by (metis last_snoc)
qed

lemma handle_keeps:
  assumes "io (write_all k q bs) s = (r, t) \<or> io handle_call s = (r, t)"
  shows "grows (disk s) (disk t)"
  using assms
proof
  assume io: "io (write_all k q bs) s = (r, t)"
  have upd: "grows (disk s) (update_file q f (disk s))" for f
    unfolding grows_def
    by (auto simp: node_at_update_file same_kind_def split: option.splits node.splits)
  obtain r' where "write_all k q bs s = (r', t)" using io_run [OF io] by blast
  then show ?thesis using upd by (auto simp: write_all_def Let_def split: if_splits)
next
  assume "io handle_call s = (r, t)"
  then show ?thesis unfolding handle_call_def
    by (cases rule: io_sys_cases) (auto simp: grows_refl)
qed

lemma visible_put_in_place:
  assumes htmp: "is_hidden_file tmp" and hmp: "is_hidden_file mp"
    and tmp: "entry_place (disk s) tmp = Inr q" "node_at (disk s) q \<noteq> Some DirNode"
    and run: "put_in_place tmp mp s = (r, u)"
  shows "visible s u"
proof -
  obtain x t where mv: "io (rename tmp mp) s = (x, t)" by fastforce
  have first: "visible s t" by (rule visible_rename [OF mv htmp hmp]) (use tmp in auto)
  have "preserves visible (case x of
      Inl err \<Rightarrow> bind_res (io (remove_file tmp)) (\<lambda>_. fail err) | Inr _ \<Rightarrow> ret ())"
    by (intro visible_frame.frame_sum visible_frame.frame_pure visible_frame.frame_res visible_remove htmp)
  moreover have "(case x of Inl err \<Rightarrow> bind_res (io (remove_file tmp)) (\<lambda>_. fail err) | Inr _ \<Rightarrow> ret ()) t = (r, u)"
    using run unfolding put_in_place_def bind_res_def mv prod.case .
  ultimately have "visible t u" by (rule preservesD)
  with first show ?thesis by (rule visible_frame.same_trans)
qed

lemma visible_replace_file:
  assumes htmp: "is_hidden_file tmp" and hmp: "is_hidden_file mp"
  shows "preserves visible (replace_file tmp mp bs)"
proof (rule preservesI)
  fix s r u
  assume "replace_file tmp mp bs s = (r, u)"
  then show "visible s u" unfolding replace_file_def
  proof (rule visible_frame.frame_run)
    fix x t assume "io (open_new tmp) s = (x, t)"
    then show "visible s t" by (rule preservesD [OF visible_open_new [OF htmp]])
  next
    fix q s2
    assume op: "io (open_new tmp) s = (Inr q, s2)"
    note q = open_new_file [OF op]
    have hq: "is_hidden_file q" using htmp hidden_entry [OF q(1)] by simp
    assume "bind_ok (look partial_write) (\<lambda>k. bind_ok (io (write_all k q bs)) (\<lambda>_.
        bind_ok (io handle_call) (\<lambda>_. put_in_place tmp mp))) s2 = (r, u)"
    then have "bind_ok (io (write_all (partial_write s2) q bs)) (\<lambda>_.
        bind_ok (io handle_call) (\<lambda>_. put_in_place tmp mp)) s2 = (r, u)"
      unfolding bind_look .
    then show "visible s2 u"
    proof (rule visible_frame.frame_run)
      fix x t assume "io (write_all (partial_write s2) q bs) s2 = (x, t)"
      then show "visible s2 t" by (rule preservesD [OF visible_write [OF hq]])
    next
      fix a s3
      assume w: "io (write_all (partial_write s2) q bs) s2 = (Inr a, s3)"
      assume "bind_ok (io handle_call) (\<lambda>_. put_in_place tmp mp) s3 = (r, u)"
      then show "visible s3 u"
      proof (rule visible_frame.frame_run)
        fix x t assume "io handle_call s3 = (x, t)"
        then show "visible s3 t" by (rule preservesD [OF visible_reads(1)])
      next
        fix b s4
        assume h: "io handle_call s3 = (Inr b, s4)" and fin: "put_in_place tmp mp s4 = (r, u)"
        have g3: "grows (disk s2) (disk s3)" and g4: "grows (disk s3) (disk s4)"
          using handle_keeps w h by blast+
        have "entry_place (disk s4) tmp = Inr q"
          by (intro entry_place_grows [OF g4] entry_place_grows [OF g3] q(1))
        moreover have "node_at (disk s4) q \<noteq> Some DirNode"
          using growsD(3) [OF g3 q(2)] growsD(3) [OF g4] by fastforce
        ultimately show "visible s4 u" using visible_put_in_place [OF htmp hmp] fin by blast
      qed
    qed
  qed
qed

lemma visible_save_meta: "preserves visible (save_meta e meta p)"
proof (rule preservesI)
  fix s r u
  assume run: "save_meta e meta p s = (r, u)"
  show "visible s u"
  proof (cases "file_name (meta_path (disk s) p)")
    case None
    with run show ?thesis by (simp add: save_meta_def bind_look db_simps)
  next
    case (Some name)
    have "preserves visible take_id"
      by (auto simp: preserves_def take_id_def visible_def split: list.splits)
    then have "preserves visible (bind_ok take_id (\<lambda>i.
        replace_file (with_file_name (name @ ''.tmp-'' @ le_uuid_text e i @ ''.nr-meta'') (meta_path (disk s) p))
          (meta_path (disk s) p) (le_to_postcard e meta)))"
    proof (rule visible_frame.frame_bind)
      fix i
      have "is_hidden_file (butlast (meta_path (disk s) p) @ [(name @ ''.tmp-'' @ le_uuid_text e i) @ ''.nr-meta''])"
        by (rule hidden_name)
      then show "preserves visible (replace_file
          (with_file_name (name @ ''.tmp-'' @ le_uuid_text e i @ ''.nr-meta'') (meta_path (disk s) p))
          (meta_path (disk s) p) (le_to_postcard e meta))"
        using meta_path_hidden' [OF Some] by (intro visible_replace_file) (simp_all add: with_file_name_def)
    qed
    moreover have "bind_ok take_id (\<lambda>i.
        replace_file (with_file_name (name @ ''.tmp-'' @ le_uuid_text e i @ ''.nr-meta'') (meta_path (disk s) p))
          (meta_path (disk s) p) (le_to_postcard e meta)) s = (r, u)"
      using run unfolding save_meta_def bind_look Some option.case .
    ultimately show ?thesis by (rule preservesD)
  qed
qed

lemmas visible_intros = visible_frame.frame_pure visible_frame.frame_bind visible_frame.frame_res
  visible_frame.frame_look visible_frame.frame_if visible_frame.frame_option visible_frame.frame_pair
  visible_frame.frame_sum visible_reads visible_save_meta

lemma visible_set_state: "(\<And>s. disk (u s) = disk s) \<Longrightarrow> preserves visible (set_state u)"
  by (simp add: preserves_def set_state_def visible_def)

lemma visible_read_meta_file: "preserves visible (read_meta_file e p)"
  unfolding read_meta_file_def by (intro visible_intros)

lemma visible_generate_meta: "preserves visible (generate_meta e p h)"
  unfolding generate_meta_def generate_hashes_from_path_def count_files_def Let_def
  by (intro visible_intros)

lemma visible_get_or_default: "preserves visible (get_or_default_local e p h)"
  unfolding get_or_default_local_def
  by (intro visible_intros visible_read_meta_file visible_generate_meta)
    (auto split: sum.splits local_error.splits intro: visible_intros visible_generate_meta)

lemma visible_create_meta_or_update: "preserves visible (create_meta_or_update e p h)"
  unfolding create_meta_or_update_def typed_update_def count_files_def generate_hashes_from_path_def
  by (intro visible_intros visible_get_or_default)
    (auto split: location_typed_meta.splits option.splits intro!: visible_intros)

lemma visible_delete_local: "preserves visible (delete_local p)"
proof (rule preservesI)
  fix s r u
  assume run: "delete_local p s = (r, u)"
  have "preserves visible (if path_exists (disk s) (meta_path (disk s) p)
      then io (remove_file (meta_path (disk s) p)) else ret ())"
    by (intro visible_intros visible_remove) (auto intro: meta_path_hidden')
  moreover have "(if path_exists (disk s) (meta_path (disk s) p)
      then io (remove_file (meta_path (disk s) p)) else ret ()) s = (r, u)"
    using run unfolding delete_local_def bind_look .
  ultimately show "visible s u" by (rule preservesD)
qed

lemma visible_set_repository_meta: "preserves visible (set_repository_meta e p m)"
  unfolding set_repository_meta_def by (intro visible_intros visible_get_or_default)

lemma visible_read_from_directory: "preserves visible (read_from_directory e p)"
  unfolding read_from_directory_def by (intro visible_intros visible_get_or_default)

lemma visible_read_from_file: "preserves visible (read_from_file e p)"
  unfolding read_from_file_def by (intro visible_intros visible_get_or_default)

lemma visible_read_from_path: "preserves visible (read_from_path e p)"
  unfolding read_from_path_def
  by (intro visible_intros visible_read_from_file visible_read_from_directory)

lemma visible_read_metas: "preserves visible (read_metas e ps)"
  by (induction ps) (auto intro: visible_intros visible_read_from_path)

lemma visible_operations:
  "preserves visible (get_file_information e base repository location)"
  "preserves visible (open_file e base repository location)"
  "preserves visible (file_exists e base repository location)"
  "preserves visible (get_repository_meta e base repository location)"
  "preserves visible (put_repository_meta e base repository location value)"
  "preserves visible (stream_directory e base repository location)"
  "preserves visible (poll_next e st)"
  "preserves visible (repository_size_bytes e base repository)"
  "preserves visible (meta_update_step e)"
proof -
  show "preserves visible (get_file_information e base repository location)"
    unfolding get_file_information_def by (intro visible_intros visible_read_from_path)
  show "preserves visible (open_file e base repository location)"
    unfolding open_file_def open_folder_def inner_open_file_def
    by (intro visible_intros visible_read_from_directory visible_read_metas visible_read_from_file)
  show "preserves visible (file_exists e base repository location)"
    unfolding file_exists_def by (intro visible_intros)
  show "preserves visible (get_repository_meta e base repository location)"
    unfolding get_repository_meta_def by (intro visible_intros visible_get_or_default)
  show "preserves visible (put_repository_meta e base repository location value)"
    unfolding put_repository_meta_def by (intro visible_intros visible_set_repository_meta)
  show "preserves visible (stream_directory e base repository location)"
    unfolding stream_directory_def
    by (intro visible_intros) (auto split: sum.splits node.splits io_error.splits
        intro!: visible_intros visible_read_from_directory visible_read_from_file)
  show "preserves visible (poll_next e st)"
    unfolding poll_next_def
    by (auto split: directory_stream.splits list.splits option.splits prod.splits
        intro!: visible_intros visible_read_from_path)
  show "preserves visible (repository_size_bytes e base repository)"
    unfolding repository_size_bytes_def Let_def
    by (intro visible_intros visible_io kept_sys) simp_all
  show "preserves visible (meta_update_step e)"
    unfolding meta_update_step_def
    by (intro visible_intros)
      (auto split: list.splits intro!: visible_intros visible_create_meta_or_update visible_set_state)
qed

section \<open>Reading back\<close>

definition link_free :: "tree \<Rightarrow> bool" where
  "link_free t = (\<forall>p. \<not> is_link (node_at t p))"

lemma link_free_ok: "link_free t \<Longrightarrow> links_ok t"
  by (simp add: link_free_def links_ok_def)

lemma locate_plain:
  "locate n t d cs = Inr q \<Longrightarrow> link_free t \<Longrightarrow> list_all normal_name cs \<Longrightarrow> q = d @ cs"
proof (induction n d cs rule: locate_induct [where t = t])
  case (Follow m d c cs a l)
  then have "is_link (node_at t (d @ [c]))" by simp
  with Follow(5) show ?case unfolding link_free_def by blast
qed (auto simp: locate_steps normal_name_def split: if_splits)

lemma canonicalize_plain: "canonicalize t p = Inr q \<Longrightarrow> link_free t \<Longrightarrow> list_all normal_name p \<Longrightarrow> q = p"
  using locate_plain [of max_links t "[]" p q] by (simp add: canonicalize_Inr place_def)

lemma canonicalize_self:
  assumes wf: "wf_tree t" and n: "node_at t p = Some n" and nl: "\<not> is_link (Some n)"
  shows "canonicalize t p = Inr p"
proof (cases p rule: rev_cases)
  case Nil
  then show ?thesis by (simp add: canonicalize_def place_def)
next
  case (snoc d c)
  have d: "node_at t d = Some DirNode" using wf_tree_above [OF wf, of d "[c]"] n snoc by simp
  have c: "normal_name c" using wf_treeD(2) [OF wf n] snoc by simp
  have "locate max_links t [] (d @ [c]) = locate max_links t d [c]" by (rule locate_dir [OF wf d])
  also have "\<dots> = Inr (d @ [c])" using n nl c snoc by (cases n) (auto simp: locate_steps)
  finally show ?thesis using n snoc by (simp add: canonicalize_def place_def)
qed

text \<open>A regular file at its own path passes the check, whatever else the tree holds.\<close>

lemma checked_there:
  assumes wf: "wf_tree t" and val: "validate location = Inr u"
    and n: "node_at t (get_path e base repository location) = Some n" and nl: "\<not> is_link (Some n)"
  shows "checked_path e base t repository location = Inr (get_path e base repository location)"
proof -
  let ?root = "repository_root e base repository" and ?p = "get_path e base repository location"
  have p: "?p = ?root @ components location" by (simp add: get_path_def)
  have "canonicalize t ?root = Inr ?root"
  proof (cases "components location = []")
    case True
    with p canonicalize_self [OF wf n nl] show ?thesis by simp
  next
    case False
    have "node_at t ?root = Some DirNode" using wf_tree_above [OF wf _ False] n p by simp
    from canonicalize_self [OF wf this] show ?thesis by simp
  qed
  then have "canonicalize_existing t (rev ?root) = Inr ?root" by (rule existing_Inr)
  moreover have "canonicalize_existing t (rev ?p) = Inr ?p"
    by (rule existing_Inr) (rule canonicalize_self [OF wf n nl])
  ultimately show ?thesis
    using val p by (simp add: checked_path_def ensure_path_within_repository_def Let_def)
qed

lemma visibleD:
  assumes "visible s t" and "wf_tree (disk s)" and "\<not> is_hidden_file p"
  shows "wf_tree (disk t)" and "node_at (disk t) p = node_at (disk s) p"
  using assms by (auto simp: visible_def steady_def)

lemma open_read_self:
  assumes "io (open_read p) s = (Inr f, t)" and "canonicalize (disk s) p = Inr q"
  shows "f = q" and "disk t = disk s"
  using assms by (auto simp: io_Inr open_read_def dest!: sys_Inr)

lemma inner_open_exact:
  assumes wf: "wf_tree (disk s)" and n: "node_at (disk s) p = Some (FileNode bs)"
    and vis: "\<not> is_hidden_file p" and run: "inner_open_file e p s = (Inr y, u)"
  shows "\<exists>m. y = SFile m bs \<and> ff_size (sf_file_type m) = length bs"
proof -
  have can: "canonicalize (disk s) p = Inr p" using canonicalize_self [OF wf n] by simp
  have nodir: "\<not> path_is_dir (disk s) p" using can n by (auto simp: path_is_dir_iff)
  obtain m s1 where m: "read_from_file e p s = (Inr m, s1)"
    and run1: "bind_ok (io (open_read p)) (\<lambda>file. bind_ok (look (\<lambda>s. file_bytes (disk s) file)) (\<lambda>content. ret (SFile m content))) s1 = (Inr y, u)"
    using run by (auto simp: inner_open_file_def bind_ok_Inr_iff)
  have v1: "visible s s1" by (rule preservesD [OF visible_read_from_file m])
  note w1 = visibleD [OF v1 wf vis]
  obtain f s2 where f: "io (open_read p) s1 = (Inr f, s2)" and y: "y = SFile m (file_bytes (disk s2) f)"
    using run1 by (auto simp: bind_ok_Inr_iff look_def ret_app)
  have "canonicalize (disk s1) p = Inr p" using canonicalize_self [OF w1(1)] w1(2) n by simp
  note open_read_self [OF f this]
  then have content: "y = SFile m bs" using y w1(2) n by (simp add: file_bytes_def)
  have "ff_size (sf_file_type m) = length bs"
  proof -
    obtain g s3 where g: "io (open_read p) s = (Inr g, s3)"
      and rest: "bind_ok (get_or_default_local e p None) (\<lambda>(meta, _).
            bind_ok (look (\<lambda>s. length (file_bytes (disk s) g))) (\<lambda>size.
            bind_ok (from_result (file_meta_or_err meta)) (\<lambda>hashes.
            bind_ok (from_result (get_file_name p)) (\<lambda>name.
              ret \<lparr>sf_name = name,
                   sf_file_type = \<lparr>ff_size = size, ff_mime_type = mime_type_for_file e p, ff_hash = hashes\<rparr>,
                   sf_modified = lm_modified meta, sf_created = lm_created meta\<rparr>)))) s3 = (Inr m, s1)"
      using m nodir by (auto simp: read_from_file_def bind_look bind_ok_Inr_iff)
    note gs = open_read_self [OF g can]
    from bind_ok_InrD [OF rest] obtain mc s4 where s4: "get_or_default_local e p None s3 = (Inr mc, s4)"
      and rest1: "(case mc of (meta, _) \<Rightarrow> bind_ok (look (\<lambda>s. length (file_bytes (disk s) g))) (\<lambda>size.
            bind_ok (from_result (file_meta_or_err meta)) (\<lambda>hashes.
            bind_ok (from_result (get_file_name p)) (\<lambda>name.
              ret \<lparr>sf_name = name,
                   sf_file_type = \<lparr>ff_size = size, ff_mime_type = mime_type_for_file e p, ff_hash = hashes\<rparr>,
                   sf_modified = lm_modified meta, sf_created = lm_created meta\<rparr>)))) s4 = (Inr m, s1)" by blast
    have size: "ff_size (sf_file_type m) = length (file_bytes (disk s4) g)"
      using rest1 by (auto simp: bind_look bind_from_result ret_app split: prod.splits sum.splits)
    have "visible s3 s4" by (rule preservesD [OF visible_get_or_default s4])
    then have "node_at (disk s4) p = Some (FileNode bs)" using visibleD(2) [OF _ _ vis] wf gs(2) n by metis
    with size gs(1) show ?thesis by (simp add: file_bytes_def)
  qed
  with content show ?thesis by blast
qed

lemma entry_place_self:
  assumes "wf_tree t" and "node_at t d = Some DirNode" and "normal_name c"
  shows "entry_place t (d @ [c]) = Inr (d @ [c])"
  using canonicalize_self [OF assms(1,2)] assms(2,3) by (simp add: entry_place_def)

lemma missing_not_there:
  assumes "wf_tree t" and "node_at t d = Some DirNode" and "normal_name c" and "node_at t (d @ [c]) = None"
  shows "\<not> path_exists t (d @ [c])"
proof -
  have "canonicalize t d = Inr d" using canonicalize_self [OF assms(1,2)] by simp
  from place_below_missing [OF this assms(2,4,3), of "[]"] assms(4) show ?thesis
    by (simp add: path_exists_iff)
qed

lemma replace_file_runs:
  assumes nf: "faults s = []" and wf: "wf_tree (disk s)"
    and d: "node_at (disk s) d = Some DirNode" and names: "normal_name x" "normal_name y" "x \<noteq> y"
    and free: "node_at (disk s) (d @ [x]) = None" "node_at (disk s) (d @ [y]) = None"
  shows "\<exists>t. replace_file (d @ [x]) (d @ [y]) bs s = (Inr (), s\<lparr>disk := t\<rparr>)"
proof -
  let ?a = "d @ [x]" and ?b = "d @ [y]"
  have ea: "entry_place (disk s) ?a = Inr ?a" by (rule entry_place_self [OF wf d names(1)])
  define s1 where "s1 = s\<lparr>disk := set_node ?a (FileNode []) (disk s)\<rparr>"
  have open1: "io (open_new ?a) s = (Inr ?a, s1)"
    unfolding open_new_def by (simp add: io_sys_no_faults nf ea free s1_def)
  have wf1: "wf_tree (disk s1)" unfolding s1_def
    using wf_set_node [OF wf, of ?a "FileNode []"] d names free by simp
  define s2 where "s2 = s1\<lparr>disk := update_file ?a (\<lambda>old. old @ bs) (disk s1)\<rparr>"
  have nf1: "faults s1 = []" and nf2: "faults s2 = []" using nf by (simp_all add: s1_def s2_def)
  have write1: "io (write_all k ?a bs) s1 = (Inr (), s2)" for k
    using io_write_all_no_faults [OF nf1] by (simp add: s2_def)
  have wf2: "wf_tree (disk s2)" using wf_update_file [OF wf1] by (simp add: s2_def)
  have at2: "node_at (disk s2) ?a = Some (FileNode bs)" "node_at (disk s2) ?b = None"
    "node_at (disk s2) d = Some DirNode"
    using names free d by (auto simp: s2_def s1_def node_at_update_file)
  have e2: "entry_place (disk s2) ?a = Inr ?a" "entry_place (disk s2) ?b = Inr ?b"
    by (intro entry_place_self [OF wf2 at2(3)] names)+
  have "\<not> strict_prefix ?a ?b" using names by (simp add: strict_prefix_def)
  then have ok: "rename_error (disk s2) ?a ?b = None" using at2 by (simp add: rename_error_def)
  have "io (rename ?a ?b) s2 = (Inr (), s2\<lparr>disk := move_below ?a ?b (disk s2)\<rparr>)"
    unfolding rename_def by (simp add: io_sys_no_faults nf2 e2 ok)
  then have "put_in_place ?a ?b s2 = (Inr (), s2\<lparr>disk := move_below ?a ?b (disk s2)\<rparr>)"
    by (simp add: put_in_place_def bind_res_def ret_app)
  then have "replace_file ?a ?b bs s = (Inr (), s2\<lparr>disk := move_below ?a ?b (disk s2)\<rparr>)"
    by (simp add: replace_file_def open1 bind_look write1 io_handle_call_no_faults [OF nf2])
  then show ?thesis by (auto simp: s2_def s1_def)
qed

definition sidecar_name :: "string \<Rightarrow> string" where
  "sidecar_name n = n @ ''.nr-meta''"

definition temporary_name :: "local_env \<Rightarrow> uuid \<Rightarrow> string \<Rightarrow> string" where
  "temporary_name e i n = sidecar_name n @ ''.tmp-'' @ le_uuid_text e i @ ''.nr-meta''"

lemma io_open_read_runs: "faults s = [] \<Longrightarrow> canonicalize (disk s) p = Inr q \<Longrightarrow> io (open_read p) s = (Inr q, s)"
  unfolding open_read_def by (simp add: io_sys_no_faults)

lemma io_read_to_end_runs:
  "faults s = [] \<Longrightarrow> node_at (disk s) q = Some (FileNode bs) \<Longrightarrow> io (read_to_end q) s = (Inr bs, s)"
  unfolding read_to_end_def by (simp add: io_sys_no_faults)

text \<open>Without a sidecar and without failures the metadata of a file is made from its bytes.\<close>

lemma get_or_default_generates:
  assumes nf: "faults s = []" and wf: "wf_tree (disk s)"
    and p: "p = d @ [n]" "node_at (disk s) p = Some (FileNode bs)"
    and ids: "new_ids s = i # is"
    and free: "node_at (disk s) (d @ [sidecar_name n]) = None" "node_at (disk s) (d @ [temporary_name e i n]) = None"
  shows "\<exists>meta t. get_or_default_local e p None s = (Inr (meta, True), s\<lparr>new_ids := is, disk := t\<rparr>) \<and>
    lm_typed meta = FileMeta (generate_from_bytes e bs)"
proof -
  have d: "node_at (disk s) d = Some DirNode" using wf_tree_above [OF wf, of d "[n]"] p by simp
  have nn: "normal_name n" using wf_treeD(2) [OF wf p(2)] p(1) by simp
  have can: "canonicalize (disk s) p = Inr p" using canonicalize_self [OF wf p(2)] by simp
  have nodir: "\<not> path_is_dir (disk s) p" using can p(2) by (auto simp: path_is_dir_iff)
  have mp: "meta_path (disk s) p = d @ [sidecar_name n]"
    using meta_path_eq [of p "disk s"] nodir nn p(1) by (simp add: sidecar_name_def)
  have sn: "normal_name (sidecar_name n)" and tn: "normal_name (temporary_name e i n)"
    using sidecar_normal [of n] sidecar_normal [of "sidecar_name n @ ''.tmp-'' @ le_uuid_text e i"]
    by (simp_all add: sidecar_name_def temporary_name_def)
  have gone: "\<not> path_exists (disk s) (d @ [sidecar_name n])" by (rule missing_not_there [OF wf d sn free(1)])
  define s1 where "s1 = s\<lparr>new_ids := is\<rparr>"
  have s1: "faults s1 = []" "disk s1 = disk s" using nf by (simp_all add: s1_def)
  have tk: "take_id s = (Inr i, s1)" using ids by (simp add: take_id_def s1_def)
  have differ: "temporary_name e i n \<noteq> sidecar_name n" by (simp add: temporary_name_def)
  have "\<exists>t. replace_file (d @ [temporary_name e i n]) (d @ [sidecar_name n]) bytes s1 = (Inr (), s1\<lparr>disk := t\<rparr>)" for bytes
    using replace_file_runs [OF s1(1), of d "temporary_name e i n" "sidecar_name n"] s1(2) wf d sn tn differ free by simp
  then have saved: "\<exists>t. save_meta e meta p s = (Inr (), s1\<lparr>disk := t\<rparr>)" for meta
    using last_file_name [of "d @ [sidecar_name n]"] sn tk
    by (simp add: save_meta_def bind_look mp with_file_name_def temporary_name_def)
  have hashes: "generate_hashes_from_path e p s = (Inr (generate_from_bytes e bs), s)"
    by (simp add: generate_hashes_from_path_def bind_ok_def io_open_read_runs [OF nf can]
        io_read_to_end_runs [OF nf p(2)] ret_app)
  define meta where "meta = \<lparr>lm_created = (case os_created s p of Some c \<Rightarrow> c | None \<Rightarrow> clock s),
      lm_modified = (case os_modified s p of Some m \<Rightarrow> m | None \<Rightarrow> clock s),
      lm_typed = FileMeta (generate_from_bytes e bs), lm_repository = default_repository_meta\<rparr>"
  obtain t where t: "save_meta e meta p s = (Inr (), s1\<lparr>disk := t\<rparr>)" using saved by blast
  have "generate_meta e p None s = (Inr (meta, True), s1\<lparr>disk := t\<rparr>)"
    by (simp add: generate_meta_def bind_ok_def look_def ret_app io_open_read_runs [OF nf can] nodir hashes
        Let_def t meta_def [symmetric])
  then have "get_or_default_local e p None s = (Inr (meta, True), s1\<lparr>disk := t\<rparr>)"
    by (simp add: get_or_default_local_def bind_look mp gone)
  then show ?thesis by (auto simp: meta_def s1_def)
qed

text \<open>Reading a file without failures and without a sidecar: its content and the hashes of its bytes.\<close>

lemma inner_open_runs:
  assumes nf: "faults s = []" and wf: "wf_tree (disk s)"
    and p: "p = d @ [n]" "node_at (disk s) p = Some (FileNode bs)" and vis: "\<not> is_hidden_file p"
    and ids: "new_ids s = i # is"
    and free: "node_at (disk s) (d @ [sidecar_name n]) = None" "node_at (disk s) (d @ [temporary_name e i n]) = None"
  shows "\<exists>m u. inner_open_file e p s = (Inr (SFile m bs), u) \<and> ff_hash (sf_file_type m) = generate_from_bytes e bs"
proof -
  have can: "canonicalize (disk s) p = Inr p" using canonicalize_self [OF wf p(2)] by simp
  have nodir: "\<not> path_is_dir (disk s) p" using can p(2) by (auto simp: path_is_dir_iff)
  have nn: "file_name p = Some n"
    using wf_treeD(2) [OF wf p(2)] p(1) by (simp add: file_name_def normal_name_def)
  obtain meta t where g: "get_or_default_local e p None s = (Inr (meta, True), s\<lparr>new_ids := is, disk := t\<rparr>)"
    "lm_typed meta = FileMeta (generate_from_bytes e bs)"
    using get_or_default_generates [OF nf wf p ids free] by blast
  define u where "u = s\<lparr>new_ids := is, disk := t\<rparr>"
  have gu: "get_or_default_local e p None s = (Inr (meta, True), u)" using g(1) by (simp add: u_def)
  have vu: "visible s u" by (rule preservesD [OF visible_get_or_default gu])
  note wu = visibleD [OF vu wf vis]
  have nu: "node_at (disk u) p = Some (FileNode bs)" using wu(2) p(2) by simp
  have canu: "canonicalize (disk u) p = Inr p" using canonicalize_self [OF wu(1) nu] by simp
  have nfu: "faults u = []" using nf by (simp add: u_def)
  define m where "m = \<lparr>sf_name = n,
     sf_file_type = \<lparr>ff_size = length bs, ff_mime_type = mime_type_for_file e p, ff_hash = generate_from_bytes e bs\<rparr>,
     sf_modified = lm_modified meta, sf_created = lm_created meta\<rparr>"
  have op: "io (open_read p) s = (Inr p, s)" by (rule io_open_read_runs [OF nf can])
  have "read_from_file e p s = (Inr m, u)"
    by (simp add: read_from_file_def bind_look nodir op gu file_bytes_def nu file_meta_or_err_def g(2) bind_from_result
        get_file_name_def nn ret_app m_def)
  then have "inner_open_file e p s = (Inr (SFile m bs), u)"
    by (simp add: inner_open_file_def bind_ok_def io_open_read_runs [OF nfu canu] look_def ret_app
        file_bytes_def nu)
  then show ?thesis by (auto simp: m_def)
qed

section \<open>What runs beside the uploads\<close>

text \<open>The operations that read, change metadata, or bring sidecars up to date, in any order; at any time the
  script of the coming failures may become another one.\<close>

inductive background :: "local_env \<Rightarrow> fspath \<Rightarrow> 'z local_state_scheme \<Rightarrow> 'z local_state_scheme \<Rightarrow> bool"
  for e base where
  start: "background e base s s"
| informed: "background e base s t \<Longrightarrow> get_file_information e base r l t = (x, u) \<Longrightarrow> background e base s u"
| opened: "background e base s t \<Longrightarrow> open_file e base r l t = (y, u) \<Longrightarrow> background e base s u"
| asked: "background e base s t \<Longrightarrow> file_exists e base r l t = (b, u) \<Longrightarrow> background e base s u"
| meta_read: "background e base s t \<Longrightarrow> get_repository_meta e base r l t = (m, u) \<Longrightarrow> background e base s u"
| meta_put: "background e base s t \<Longrightarrow> put_repository_meta e base r l v t = (z, u) \<Longrightarrow> background e base s u"
| streamed: "background e base s t \<Longrightarrow> stream_directory e base r l t = (d, u) \<Longrightarrow> background e base s u"
| polled: "background e base s t \<Longrightarrow> poll_next e st t = (i, u) \<Longrightarrow> background e base s u"
| measured: "background e base s t \<Longrightarrow> repository_size_bytes e base r t = (n, u) \<Longrightarrow> background e base s u"
| updated: "background e base s t \<Longrightarrow> meta_update_step e t = (w, u) \<Longrightarrow> background e base s u"
| failing: "background e base s t \<Longrightarrow> background e base s (t\<lparr>faults := script\<rparr>)"

lemma background_visible: "background e base s t \<Longrightarrow> visible s t"
proof (induction rule: background.induct)
  case (start s)
  show ?case by (rule visible_frame.same_refl)
next
  case (failing s t script)
  then show ?case using visible_frame.same_trans visible_frame.same_faults by blast
qed (blast intro: visible_frame.same_trans dest: preservesD [OF visible_operations(1)]
    preservesD [OF visible_operations(2)] preservesD [OF visible_operations(3)]
    preservesD [OF visible_operations(4)] preservesD [OF visible_operations(5)]
    preservesD [OF visible_operations(6)] preservesD [OF visible_operations(7)]
    preservesD [OF visible_operations(8)] preservesD [OF visible_operations(9)])+

section \<open>Properties\<close>

text \<open>
  C27. Writing stays inside the repository. Whatever calls fail, whatever the content and wherever the
  links of the tree lead, as long as none of them is dangling: every entry that saving a file,
  appending to it or opening it for an upload changes lies below the directory of the repository.
\<close>

theorem writes_confined:
  assumes "storage_ready e base (disk s) repository"
    and "snd (save_file e base repository content location s) = s' \<or>
      snd (append_file e base repository content location s) = s' \<or>
      snd (open_append_handle e base repository location s) = s'"
    and "node_at (disk s') p \<noteq> node_at (disk s) p"
  shows "prefix (repository_place e base (disk s) repository) p"
proof -
  have "confined (repository_place e base (disk s) repository) s s'"
    using assms(2) save_file_confined [OF assms(1) prod.collapse [symmetric]]
      append_file_confined [OF assms(1) prod.collapse [symmetric]]
      open_append_confined(1) [OF assms(1) prod.collapse [symmetric]] by blast
  with assms(3) show ?thesis unfolding confined_def by blast
qed

definition sample_env :: local_env where
  "sample_env = \<lparr>le_md5 = (\<lambda>_. ''m''), le_sha1 = (\<lambda>_. ''s''), le_sha2_256 = (\<lambda>_. ''t''),
     le_sha3_256 = (\<lambda>_. ''u''), le_to_postcard = (\<lambda>_. [9]), le_from_postcard = (\<lambda>_. None),
     le_uuid_text = (\<lambda>i. if i = 1 then ''r1'' else ''id''), le_mime_guess = (\<lambda>_. ''text/plain'')\<rparr>"

definition sample_local :: "tree \<Rightarrow> local_state" where
  "sample_local t = \<lparr>faults = [], disk = t, clock = 5, os_created = (\<lambda>_. None), os_modified = (\<lambda>_. None),
     new_ids = [7], partial_write = 0, precomputed = Map.empty, meta_queue = [], unloaded = False\<rparr>"

lemma sample_ready: "storage_ready sample_env [''srv''] (disk (sample_local [([''srv''], DirNode)])) 1"
proof -
  have d: "disk (sample_local [([''srv''], DirNode)]) = [([''srv''], DirNode)]" by (simp add: sample_local_def)
  have "wf_tree [([''srv''], DirNode)]" by (simp add: wf_tree_def normal_name_def)
  moreover have "links_ok [([''srv''], DirNode)]"
    by (simp add: links_ok_def node_at_def)
  moreover have "path_is_dir [([''srv''], DirNode)] [''srv'']" by code_simp
  moreover have "normal_name (le_uuid_text sample_env 1)" by code_simp
  ultimately show ?thesis unfolding storage_ready_def d by blast
qed

theorem writes_confined_witness:
  "node_at (disk (snd (save_file sample_env [''srv''] 1 (Content [1, 2]) (path_from ''a/b.jar'')
      (sample_local [([''srv''], DirNode)])))) [''srv'', ''r1'', ''a'', ''b.jar''] = Some (FileNode [1, 2]) \<and>
   prefix (repository_place sample_env [''srv''] (disk (sample_local [([''srv''], DirNode)])) 1)
     [''srv'', ''r1'', ''a'', ''b.jar'']"
proof -
  let ?s = "sample_local [([''srv''], DirNode)]"
  let ?out = "save_file sample_env [''srv''] 1 (Content [1, 2]) (path_from ''a/b.jar'') ?s"
  have new: "node_at (disk (snd ?out)) [''srv'', ''r1'', ''a'', ''b.jar''] = Some (FileNode [1, 2])" by code_simp
  have old: "node_at (disk ?s) [''srv'', ''r1'', ''a'', ''b.jar''] = None" by code_simp
  from writes_confined [OF sample_ready, of "Content [1, 2]" "path_from ''a/b.jar''" "snd ?out"] new old
  show ?thesis by simp
qed

text \<open>
  C28. The hypothesis on links is needed: the check canonicalises the nearest ancestor that exists and so
  does not see a dangling link. If the name to be saved is such a link in the directory of the
  repository, the upload succeeds and creates the file the link points to, wherever that is.
\<close>

theorem dangling_link_escapes:
  assumes wf: "wf_tree (disk s)" and nf: "faults s = []"
    and root: "node_at (disk s) (repository_root e base r) = Some DirNode"
    and loc: "validate location = Inr ()" "components location = [c]"
    and l: "node_at (disk s) (repository_root e base r @ [c]) = Some (LinkNode True f)"
    and f: "f \<noteq> []" "node_at (disk s) (butlast f) = Some DirNode" "normal_name (last f)" "node_at (disk s) f = None"
  shows "\<exists>s'. save_file e base r (Content bs) location s = (Inr (length bs, True), s') \<and>
    node_at (disk s') f = Some (FileNode bs)"
proof -
  let ?t = "disk s" and ?root = "repository_root e base r"
  let ?p = "?root @ [c]"
  have nc: "normal_name c" using validate_names [OF loc(1)] loc(2) by simp
  have canroot: "canonicalize ?t ?root = Inr ?root" using canonicalize_self [OF wf root] by simp
  have "locate 39 ?t [] f = Inr f"
  proof -
    have "locate 39 ?t [] (butlast f @ [last f]) = locate 39 ?t (butlast f) [last f]"
      by (rule locate_dir [OF wf f(2)])
    also have "\<dots> = Inr (butlast f @ [last f])" using f by (simp add: locate_steps)
    finally show ?thesis using f(1) by simp
  qed
  then have pl: "place ?t ?p = Inr f"
    using locate_dir [OF wf root, of max_links "[c]"] locate_steps(7) [OF nc l, of 39 "[]"]
    by (simp add: place_def max_links_def)
  have gone: "metadata ?t ?p = Inl NotFound" "canonicalize ?t ?p = Inl NotFound" "\<not> path_exists ?t ?p"
    using pl f(4) by (simp_all add: metadata_def canonicalize_def path_exists_def)
  have exroot: "canonicalize_existing ?t (rev ?root) = Inr ?root" by (rule existing_Inr [OF canroot])
  moreover have "canonicalize_existing ?t (rev ?p) = Inr ?root" using gone(2) exroot by simp
  ultimately have ens: "ensure_path_within_repository e base ?t ?p r = Inr ()"
    by (simp add: ensure_path_within_repository_def)
  define cp where "cp = \<lparr>cp_path = ?p, cp_parent_directory = ?root, cp_new_directory_start = Some ?p\<rparr>"
  have got: "get_path_for_creation e base ?t r location = Inr cp"
    using ens gone(1) loc by (simp add: get_path_for_creation_def Let_def check_part_def enter_part_def cp_def)
  have mk: "make_parent cp s = (Inr (), s)"
    using make_dirs_exists [OF canroot root wf] nf
    by (simp add: make_parent_def cp_def create_dir_all_def io_sys_no_faults)
  define s2 where "s2 = s\<lparr>disk := set_node f (FileNode []) ?t\<rparr>"
  have op: "io (open_create ?p) s = (Inr f, s2)"
    unfolding open_create_def by (simp add: io_sys_no_faults nf pl f(4) s2_def)
  have s2: "faults s2 = []" "node_at (disk s2) f = Some (FileNode [])"
    using nf f(1) by (simp_all add: s2_def)
  have cb: "content_bytes (Content bs) = Some bs" by (simp add: content_bytes_def)
  have cpp: "cp_path cp = ?p" by (simp add: cp_def)
  have "save_file e base r (Content bs) location s =
      (Inr (length bs, True), after_save base cp (s2\<lparr>disk := set_node f (FileNode bs) (disk s2)\<rparr>))"
    unfolding save_file_def
    by (simp add: bind_look bind_from_result got mk op [folded cpp] gone(3) [folded cpp]
        save_tail [OF s2(1) cb s2(2)] del: if_not_P if_P split del: if_split)
  then show ?thesis using f(1) by auto
qed

definition escape_tree :: tree where
  "escape_tree =
     [([''etc''], DirNode), ([''srv''], DirNode), ([''srv'', ''r1''], DirNode),
      ([''srv'', ''r1'', ''a''], LinkNode True [''etc'', ''x''])]"

theorem dangling_link_escapes_witness:
  "\<not> prefix (repository_place sample_env [''srv''] escape_tree 1) [''etc'', ''x''] \<and>
   (\<exists>s'. save_file sample_env [''srv''] 1 (Content [1, 2]) (path_from ''a'') (sample_local escape_tree) =
        (Inr (length [1, 2 :: u8], True), s') \<and>
      node_at (disk s') [''etc'', ''x''] = Some (FileNode [1, 2]))"
proof -
  let ?s = "sample_local escape_tree"
  have d: "disk ?s = escape_tree" "faults ?s = []" by (simp_all add: sample_local_def)
  have wf: "wf_tree (disk ?s)" unfolding d
    by (simp add: wf_tree_def escape_tree_def node_at_def normal_name_def)
  have out: "\<not> prefix (repository_place sample_env [''srv''] escape_tree 1) [''etc'', ''x'']" by code_simp
  have root: "node_at (disk ?s) (repository_root sample_env [''srv''] 1) = Some DirNode" by code_simp
  have loc: "validate (path_from ''a'') = Inr ()" "components (path_from ''a'') = [''a'']" by code_simp+
  have l: "node_at (disk ?s) (repository_root sample_env [''srv''] 1 @ [''a'']) = Some (LinkNode True [''etc'', ''x''])"
    by code_simp
  have f: "[''etc'', ''x''] \<noteq> []" "node_at (disk ?s) (butlast [''etc'', ''x'']) = Some DirNode"
    "normal_name (last [''etc'', ''x''])" "node_at (disk ?s) [''etc'', ''x''] = None" by code_simp+
  from out dangling_link_escapes [OF wf d(2) root loc l f, of "[1, 2]"] show ?thesis by blast
qed

text \<open>A file that is there stays there and readable, whatever runs in the background.\<close>

lemma background_reads:
  assumes wf: "wf_tree (disk s')" and val: "validate location = Inr w"
    and np: "node_at (disk s') (get_path e base r location) = Some (FileNode bs)"
    and vis: "\<not> is_hidden_file (get_path e base r location)" and bg: "background e base s' u"
  shows "file_exists e base r location u = (Inr True, u)"
    and "open_file e base r location u = (Inr x, v) \<Longrightarrow>
      \<exists>m. x = Some (SFile m bs) \<and> ff_size (sf_file_type m) = length bs"
proof -
  let ?p = "get_path e base r location"
  note vu = visibleD [OF background_visible [OF bg] wf vis]
  have nu: "node_at (disk u) ?p = Some (FileNode bs)" using vu(2) np by simp
  have chk: "checked_path e base (disk u) r location = Inr ?p" using checked_there [OF vu(1) val nu] by simp
  have canu: "canonicalize (disk u) ?p = Inr ?p" using canonicalize_self [OF vu(1) nu] by simp
  have there: "path_exists (disk u) ?p" "\<not> path_is_dir (disk u) ?p"
    using canu nu by (auto simp: path_exists_canonical path_is_dir_iff)
  show "file_exists e base r location u = (Inr True, u)"
    by (simp add: file_exists_def bind_look bind_from_result chk there(1) ret_app)
  assume "open_file e base r location u = (Inr x, v)"
  then obtain y w' where y: "inner_open_file e ?p u = (Inr y, w')" "x = Some y"
    using there by (auto simp: open_file_def bind_look bind_from_result chk bind_ok_Inr_iff ret_app)
  from inner_open_exact [OF vu(1) nu vis y(1)] y(2)
  show "\<exists>m. x = Some (SFile m bs) \<and> ff_size (sf_file_type m) = length bs" by blast
qed

lemma next_read_hashes:
  assumes nf: "faults s' = []" and wf: "wf_tree (disk s')" and val: "validate location = Inr w"
    and p: "get_path e base r location = d @ [n]"
    and np: "node_at (disk s') (get_path e base r location) = Some (FileNode bs)"
    and vis: "\<not> is_hidden_file (get_path e base r location)" and ids: "new_ids s' = i # is"
    and free: "node_at (disk s') (d @ [sidecar_name n]) = None" "node_at (disk s') (d @ [temporary_name e i n]) = None"
  shows "\<exists>m v. open_file e base r location s' = (Inr (Some (SFile m bs)), v) \<and>
    ff_hash (sf_file_type m) = generate_from_bytes e bs"
proof -
  let ?p = "get_path e base r location"
  obtain m v where m: "inner_open_file e ?p s' = (Inr (SFile m bs), v)" "ff_hash (sf_file_type m) = generate_from_bytes e bs"
    using inner_open_runs [OF nf wf p np vis ids free] by blast
  have chk: "checked_path e base (disk s') r location = Inr ?p" using checked_there [OF wf val np] by simp
  have cans: "canonicalize (disk s') ?p = Inr ?p" using canonicalize_self [OF wf np] by simp
  have there: "path_exists (disk s') ?p" "\<not> path_is_dir (disk s') ?p"
    using cans np by (auto simp: path_exists_canonical path_is_dir_iff)
  have "open_file e base r location s' = (Inr (Some (SFile m bs)), v)"
    by (simp add: open_file_def bind_look bind_from_result chk there m(1) ret_app)
  with m(2) show ?thesis by blast
qed

text \<open>What saving without failures leaves in a tree without links.\<close>

lemma save_file_plain:
  assumes ready: "storage_ready e base (disk s) r" and lf: "link_free (disk s)"
    and names: "list_all normal_name base" and nf: "faults s = []"
    and got: "get_path_for_creation e base (disk s) r location = Inr cp"
    and nodir: "\<not> path_is_dir (disk s) (get_path e base r location)"
  obtains s' where "save_file e base r (Content bs) location s =
      (Inr (length bs, \<not> path_exists (disk s) (get_path e base r location)), s')"
    and "wf_tree (disk s')" and "faults s' = []" and "new_ids s' = new_ids s"
    and "node_at (disk s') (get_path e base r location) = Some (FileNode bs)"
    and "\<And>q. node_at (disk s) q = None \<Longrightarrow> \<not> prefix q (get_path e base r location) \<Longrightarrow> node_at (disk s') q = None"
proof -
  let ?p = "get_path e base r location"
  have wf: "wf_tree (disk s)" using ready by (simp add: storage_ready_def)
  obtain w where val: "validate location = Inr w" using got by (auto simp: get_path_for_creation_def split: sum.splits)
  have cpp: "cp_path cp = ?p"
    using got creation_walk_path by (fastforce simp: get_path_for_creation_def get_path_def Let_def split: sum.splits)
  have pn: "list_all normal_name ?p"
    using names validate_names [OF val] ready by (simp add: get_path_def repository_root_def storage_ready_def)
  have cb: "content_bytes (Content bs) = Some bs" by (simp add: content_bytes_def)
  obtain f s1 where save: "save_file e base r (Content bs) location s =
      (Inr (length bs, \<not> path_exists (disk s) ?p), after_save base cp (s1\<lparr>disk := set_node f (FileNode bs) (disk s1)\<rparr>))"
    and can: "canonicalize (set_node f (FileNode bs) (disk s1)) ?p = Inr f" and ne: "f \<noteq> []"
    and dirs: "dirs_for f (disk s) (disk s1)" and nf1: "faults s1 = []" and s1: "s1 = s\<lparr>disk := disk s1\<rparr>"
    using save_file_stores [OF ready nf got nodir [folded cpp] cb] unfolding cpp by metis
  define s' where "s' = after_save base cp (s1\<lparr>disk := set_node f (FileNode bs) (disk s1)\<rparr>)"
  have saved: "save_file e base r (Content bs) location s = (Inr (length bs, \<not> path_exists (disk s) ?p), s')"
    using save by (simp add: s'_def)
  have d': "disk s' = set_node f (FileNode bs) (disk s1)" "faults s' = []" using nf1 by (simp_all add: s'_def)
  have wf': "wf_tree (disk s')"
    using preservesD [OF kept_operations(1) saved] wf by (simp add: tree_kept_def)
  have "is_link (node_at (disk s1) q) = is_link (node_at (disk s) q)" for q
    using dirs unfolding dirs_for_def by (metis is_link_simps(1,2))
  then have "link_free (disk s')" using lf unfolding link_free_def d'(1) by simp
  then have fp: "f = ?p" using canonicalize_plain [of "disk s'" ?p f] can pn d'(1) by simp
  have other: "node_at (disk s') q = None" if "node_at (disk s) q = None" "\<not> prefix q ?p" for q
  proof -
    have "node_at (disk s1) q = None" using dirs that fp unfolding dirs_for_def strict_prefix_def by metis
    then show ?thesis using d'(1) fp that(2) by auto
  qed
  have "new_ids s1 = new_ids s"
    using s1 by (metis (no_types) local_state.select_convs(4) fs_state.update_convs(1) local_state.surjective)
  then have ids: "new_ids s' = new_ids s" by (simp add: s'_def after_save_def)
  have np: "node_at (disk s') ?p = Some (FileNode bs)" using d'(1) fp ne by simp
  show ?thesis by (rule that [of s', OF saved wf' d'(2) ids np other])
qed

text \<open>
  C29. What was uploaded is read back. In a tree without links, and without failures, saving a file under
  a visible name that is no directory always succeeds, reports the number of bytes and whether the file
  is new. Afterwards, whatever reading operations and metadata updates follow, and whichever of their calls
  and of the calls of later reads fail, the file is there, and every successful read of it returns exactly
  these bytes and their number. When there was no sidecar of this name (and the name of its temporary file
  is free), the read that comes next without failures succeeds and also reports the hashes of these bytes;
  for a file that had a sidecar nothing is said of the hashes.
\<close>

theorem saved_file_read_back:
  assumes ready: "storage_ready e base (disk s) r" and lf: "link_free (disk s)"
    and names: "list_all normal_name base" and nf: "faults s = []"
    and got: "get_path_for_creation e base (disk s) r location = Inr cp"
    and nodir: "\<not> path_is_dir (disk s) (get_path e base r location)"
    and vis: "\<not> is_hidden_file (get_path e base r location)"
  shows "\<exists>s'. save_file e base r (Content bs) location s =
      (Inr (length bs, \<not> path_exists (disk s) (get_path e base r location)), s') \<and>
    (\<forall>u. background e base s' u \<longrightarrow>
       file_exists e base r location u = (Inr True, u) \<and>
       (\<forall>x v. open_file e base r location u = (Inr x, v) \<longrightarrow>
          (\<exists>m. x = Some (SFile m bs) \<and> ff_size (sf_file_type m) = length bs))) \<and>
    (\<forall>d n i is. get_path e base r location = d @ [n] \<longrightarrow> new_ids s = i # is \<longrightarrow>
       node_at (disk s) (d @ [sidecar_name n]) = None \<longrightarrow> node_at (disk s) (d @ [temporary_name e i n]) = None \<longrightarrow>
       (\<exists>m v. open_file e base r location s' = (Inr (Some (SFile m bs)), v) \<and>
          ff_hash (sf_file_type m) = generate_from_bytes e bs))"
proof -
  obtain w where val: "validate location = Inr w" using got by (auto simp: get_path_for_creation_def split: sum.splits)
  obtain s' where saved: "save_file e base r (Content bs) location s =
      (Inr (length bs, \<not> path_exists (disk s) (get_path e base r location)), s')"
    and wf': "wf_tree (disk s')" and nf': "faults s' = []" and ids': "new_ids s' = new_ids s"
    and np: "node_at (disk s') (get_path e base r location) = Some (FileNode bs)"
    and other: "\<And>q. node_at (disk s) q = None \<Longrightarrow> \<not> prefix q (get_path e base r location) \<Longrightarrow> node_at (disk s') q = None"
    using save_file_plain [OF ready lf names nf got nodir] by blast
  have next_read: "\<exists>m v. open_file e base r location s' = (Inr (Some (SFile m bs)), v) \<and>
          ff_hash (sf_file_type m) = generate_from_bytes e bs"
    if h: "get_path e base r location = d @ [n]" "new_ids s = i # is" "node_at (disk s) (d @ [sidecar_name n]) = None"
      "node_at (disk s) (d @ [temporary_name e i n]) = None" for d n i "is"
  proof -
    have "\<not> prefix (d @ [sidecar_name n]) (d @ [n])" "\<not> prefix (d @ [temporary_name e i n]) (d @ [n])"
      by (simp_all add: sidecar_name_def temporary_name_def)
    then have "node_at (disk s') (d @ [sidecar_name n]) = None" "node_at (disk s') (d @ [temporary_name e i n]) = None"
      using other h by simp_all
    moreover have "new_ids s' = i # is" using ids' h(2) by simp
    ultimately show ?thesis by (intro next_read_hashes [OF nf' wf' val h(1) np vis])
  qed
  show ?thesis using saved background_reads [OF wf' val np vis] next_read by blast
qed

lemma sample_link_free: "link_free (disk (sample_local [([''srv''], DirNode)]))"
proof -
  have d: "disk (sample_local [([''srv''], DirNode)]) = [([''srv''], DirNode)]" by (simp add: sample_local_def)
  show ?thesis unfolding d link_free_def by (simp add: node_at_def)
qed

theorem saved_file_read_back_witness:
  "\<exists>s' m v. save_file sample_env [''srv''] 1 (Content [1, 2]) (path_from ''a/b.jar'')
      (sample_local [([''srv''], DirNode)]) = (Inr (2, True), s') \<and>
    file_exists sample_env [''srv''] 1 (path_from ''a/b.jar'') s' = (Inr True, s') \<and>
    open_file sample_env [''srv''] 1 (path_from ''a/b.jar'') s' = (Inr (Some (SFile m [1, 2])), v) \<and>
    fh_sha1 (ff_hash (sf_file_type m)) = Some ''s''"
proof -
  let ?s = "sample_local [([''srv''], DirNode)]" and ?l = "path_from ''a/b.jar''"
  let ?p = "get_path sample_env [''srv''] 1 ?l"
  obtain cp where got: "get_path_for_creation sample_env [''srv''] (disk ?s) 1 ?l = Inr cp"
  proof -
    have "get_path_for_creation sample_env [''srv''] (disk ?s) 1 ?l =
        Inr \<lparr>cp_path = [''srv'', ''r1'', ''a'', ''b.jar''], cp_parent_directory = [''srv'', ''r1'', ''a''],
             cp_new_directory_start = Some [''srv'', ''r1'', ''a'']\<rparr>" by code_simp
    then show ?thesis using that by blast
  qed
  have names: "list_all normal_name [''srv'']" and nf: "faults ?s = []" by code_simp+
  have nodir: "\<not> path_is_dir (disk ?s) ?p" and vis: "\<not> is_hidden_file ?p" and new: "\<not> path_exists (disk ?s) ?p"
    by code_simp+
  have p: "?p = [''srv'', ''r1'', ''a''] @ [''b.jar'']" "new_ids ?s = 7 # []"
    "node_at (disk ?s) ([''srv'', ''r1'', ''a''] @ [sidecar_name ''b.jar'']) = None"
    "node_at (disk ?s) ([''srv'', ''r1'', ''a''] @ [temporary_name sample_env 7 ''b.jar'']) = None"
    by code_simp+
  from saved_file_read_back [OF sample_ready sample_link_free names nf got nodir vis, of "[1, 2]"] obtain s' where
    s': "save_file sample_env [''srv''] 1 (Content [1, 2]) ?l ?s = (Inr (length [1, 2 :: u8], \<not> path_exists (disk ?s) ?p), s')"
    and bg: "\<forall>u. background sample_env [''srv''] s' u \<longrightarrow> file_exists sample_env [''srv''] 1 ?l u = (Inr True, u)"
    and rd: "\<exists>m v. open_file sample_env [''srv''] 1 ?l s' = (Inr (Some (SFile m [1, 2])), v) \<and>
          ff_hash (sf_file_type m) = generate_from_bytes sample_env [1, 2]"
    using p by blast
  have "generate_from_bytes sample_env [1, 2] =
      \<lparr>fh_md5 = Some ''m'', fh_sha1 = Some ''s'', fh_sha2_256 = Some ''t'', fh_sha3_256 = Some ''u''\<rparr>" by code_simp
  then have "fh_sha1 (generate_from_bytes sample_env [1, 2]) = Some ''s''" by simp
  with s' new bg background.start rd show ?thesis by auto
qed

lemma plain_place:
  assumes wf: "wf_tree t" and lf: "link_free t" and names: "list_all normal_name p" and there: "path_exists t p"
  shows "canonicalize t p = Inr p" and "node_at t p \<noteq> None"
proof -
  obtain q where q: "canonicalize t p = Inr q" using there by (auto simp: path_exists_canonical)
  with canonicalize_plain [OF q lf names] show "canonicalize t p = Inr p" by simp
  then show "node_at t p \<noteq> None" by (simp add: canonicalize_Inr)
qed

lemma remove_runs:
  assumes run: "io (remove_file p) s = (Inr x, t)" and e: "entry_place (disk s) p = Inr q"
  shows "disk t = remove_below q (disk s)"
  using run e by (auto simp: io_Inr remove_file_def split: option.splits node.splits dest!: sys_Inr)

lemma link_free_remove: "link_free t \<Longrightarrow> link_free (remove_below q t)"
  by (simp add: link_free_def)

text \<open>
  C30. Deleting. In a tree without links a deletion that returns tells whether there was something to
  delete, and afterwards nothing is there. A directory goes with all it holds, a file together with its
  sidecar; every other entry stays as it was, and when nothing was there the tree is not touched.
\<close>

theorem deleted_is_gone:
  assumes wf: "wf_tree (disk s)" and lf: "link_free (disk s)"
    and names: "list_all normal_name (repository_root e base r)"
    and run: "delete_file e base r location s = (Inr b, s')"
  shows "b = path_exists (disk s) (get_path e base r location) \<and>
    \<not> path_exists (disk s') (get_path e base r location) \<and>
    (\<not> b \<longrightarrow> disk s' = disk s) \<and>
    (b \<and> \<not> path_is_dir (disk s) (get_path e base r location) \<longrightarrow>
       \<not> path_exists (disk s') (meta_path (disk s) (get_path e base r location))) \<and>
    (\<forall>q. \<not> prefix (get_path e base r location) q \<and>
         (path_is_dir (disk s) (get_path e base r location) \<or>
          \<not> prefix (meta_path (disk s) (get_path e base r location)) q) \<longrightarrow>
       node_at (disk s') q = node_at (disk s) q)"
proof -
  let ?p = "get_path e base r location"
  have chk: "checked_path e base (disk s) r location = Inr ?p"
    using run by (auto simp: delete_file_def bind_look bind_from_result checked_path_def Let_def split: sum.splits if_splits)
  then obtain w where val: "validate location = Inr w" by (auto simp: checked_path_def split: sum.splits)
  have pn: "list_all normal_name ?p" using names validate_names [OF val] by (simp add: get_path_def)
  have ne: "?p \<noteq> []" by (simp add: get_path_def repository_root_def)
  have wf': "wf_tree (disk s')" using preservesD [OF kept_operations(4) run] wf by (simp add: tree_kept_def)
  show ?thesis
  proof (cases "path_exists (disk s) ?p")
    case False
    with run chk have "b = False" "s' = s" by (auto simp: delete_file_def bind_look bind_from_result ret_app)
    with False show ?thesis by simp
  next
    case True
    note pl = plain_place [OF wf lf pn True]
    define d n where "d = butlast ?p" and "n = last ?p"
    have pdn: "?p = d @ [n]" using ne by (simp add: d_def n_def)
    have d: "node_at (disk s) d = Some DirNode" and nn: "normal_name n"
      using wf_treeD [OF wf _ ne] pl(2) by (auto simp: d_def n_def)
    have ep: "entry_place (disk s) ?p = Inr ?p" unfolding pdn by (rule entry_place_self [OF wf d nn])
    have gone: "\<not> path_exists t ?p"
      if "wf_tree t" "node_at t d = Some DirNode" "node_at t ?p = None" for t
      using missing_not_there [OF that(1,2) nn] that(3) pdn by simp
    have nd: "\<not> prefix ?p d" using pdn by (auto dest: prefix_length_le)
    show ?thesis
    proof (cases "path_is_dir (disk s) ?p")
      case dir: True
      with run True chk obtain x t where rm: "io (remove_dir_all ?p) s = (Inr x, t)" and out: "b = True" "s' = t"
        by (auto simp: delete_file_def bind_look bind_from_result bind_ok_Inr_iff ret_app)
      have "disk s' = remove_below ?p (disk s)"
        using rm ep out(2) by (auto simp: io_Inr remove_dir_all_def split: option.splits node.splits dest!: sys_Inr)
      with gone [OF wf'] True dir out d nd ne show ?thesis by auto
    next
      case nodir: False
      with run True chk obtain x t y u where rm: "io (remove_file ?p) s = (Inr x, t)"
        and del: "delete_local ?p t = (Inr y, u)" and out: "b = True" "s' = u"
        by (auto simp: delete_file_def bind_look bind_from_result bind_ok_Inr_iff ret_app)
      have t: "disk t = remove_below ?p (disk s)" by (rule remove_runs [OF rm ep])
      have wft: "wf_tree (disk t)" and lft: "link_free (disk t)"
        using wf_remove_below [OF wf] link_free_remove [OF lf] t by simp_all
      have dt: "node_at (disk t) d = Some DirNode" using t d nd by simp
      have pt: "node_at (disk t) ?p = None" using t ne by simp
      have "\<not> path_is_dir (disk t) ?p"
        using gone [OF wft dt pt] by (auto simp: path_is_dir_iff path_exists_canonical)
      then have mp: "meta_path (disk t) ?p = d @ [sidecar_name n]" "meta_path (disk s) ?p = d @ [sidecar_name n]"
        using nodir meta_path_eq [of ?p] pdn nn by (simp_all add: sidecar_name_def)
      have sn: "normal_name (sidecar_name n)" using sidecar_normal by (simp add: sidecar_name_def)
      let ?m = "d @ [sidecar_name n]"
      have em: "entry_place (disk t) ?m = Inr ?m" by (rule entry_place_self [OF wft dt sn])
      have mn: "\<not> prefix ?m d" "\<not> prefix ?m ?p" by (auto simp: pdn sidecar_name_def dest: prefix_length_le)
      have u: "(if path_exists (disk t) ?m then io (remove_file ?m) else ret ()) t = (Inr y, u)"
        using del unfolding delete_local_def bind_look mp(1) .
      have "disk u = (if path_exists (disk t) ?m then remove_below ?m (disk t) else disk t)"
        using u remove_runs [OF _ em] by (auto simp: ret_app split: if_splits)
      moreover have "\<not> path_exists (disk u) ?m"
      proof (cases "path_exists (disk t) ?m")
        case True
        with calculation have du: "disk u = remove_below ?m (disk t)" by simp
        have "node_at (disk u) d = Some DirNode" "node_at (disk u) ?m = None" using du dt mn(1) by simp_all
        from missing_not_there [OF _ this(1) sn this(2)] wf' out show ?thesis by simp
      qed (use calculation in simp)
      moreover have "\<not> path_exists (disk u) ?p"
      proof (rule gone)
        show "wf_tree (disk u)" using wf' out by simp
        show "node_at (disk u) d = Some DirNode" "node_at (disk u) ?p = None"
          using calculation(1) dt pt mn by (auto split: if_splits)
      qed
      ultimately show ?thesis using True nodir out mp(2) t by auto
    qed
  qed
qed

definition stored_tree :: tree where
  "stored_tree =
     [([''srv''], DirNode), ([''srv'', ''r1''], DirNode), ([''srv'', ''r1'', ''a''], FileNode [1]),
      ([''srv'', ''r1'', ''b''], FileNode [2]), ([''srv'', ''r1'', ''a.nr-meta''], FileNode [9])]"

theorem deleted_is_gone_witness:
  "fst (delete_file sample_env [''srv''] 1 (path_from ''a'') (sample_local stored_tree)) = Inr True \<and>
   node_at (disk (snd (delete_file sample_env [''srv''] 1 (path_from ''a'') (sample_local stored_tree))))
     [''srv'', ''r1'', ''b''] = Some (FileNode [2])"
proof -
  let ?s = "sample_local stored_tree" and ?l = "path_from ''a''"
  let ?out = "delete_file sample_env [''srv''] 1 ?l ?s"
  have d: "disk ?s = stored_tree" by (simp add: sample_local_def)
  have wf: "wf_tree (disk ?s)" unfolding d
    by (simp add: wf_tree_def stored_tree_def node_at_def normal_name_def)
  have lf: "link_free (disk ?s)" unfolding d
    by (simp add: link_free_def stored_tree_def node_at_def)
  have names: "list_all normal_name (repository_root sample_env [''srv''] 1)" by code_simp
  have out: "fst ?out = Inr True" by code_simp
  have run: "?out = (Inr True, snd ?out)" using out by (simp add: prod_eq_iff)
  have p: "\<not> prefix (get_path sample_env [''srv''] 1 ?l) [''srv'', ''r1'', ''b'']"
    "\<not> prefix (meta_path (disk ?s) (get_path sample_env [''srv''] 1 ?l)) [''srv'', ''r1'', ''b'']"
    "node_at (disk ?s) [''srv'', ''r1'', ''b''] = Some (FileNode [2])" by code_simp+
  from deleted_is_gone [OF wf lf names run] p out show ?thesis by simp
qed

end
