(* ===== verification/DockerObjects.thy ===== *)
theory DockerObjects
  imports LocalStorage
begin

text \<open>
  The accounting of Docker objects (crates/core/src/database/entities/docker_object.rs and the
  migrations 20260906120000 and 20260906130000): one row for each stored manifest or blob, with its size
  and the paths of the objects it refers to, and a revision that counts the changes of the row, so that
  a reconciliation does not overwrite what was written after its scan. The table lies beside the files
  of the local storage. The recursive queries are \<open>recursive_paths\<close>, the iteration by which PostgreSQL
  computes a recursive union.
\<close>

section \<open>The table\<close>

record docker_object =
  do_repository :: uuid
  do_path :: string
  do_size :: int
  do_references :: "string list"
  do_revision :: int

record object_db = local_state +
  object_repositories :: "uuid list"
  docker_objects :: "docker_object list"

datatype object_error = ObjectDatabase | ObjectEncode | ObjectForeignKey | ObjectOutOfRange

type_synonym ('z, 'a) object_query = "('z object_db_scheme, object_error, 'a) stm"

definition bigint_max :: int where
  "bigint_max = 2 ^ 63 - 1"

definition is_object :: "uuid \<Rightarrow> string \<Rightarrow> docker_object \<Rightarrow> bool" where
  "is_object repository path r = (do_repository r = repository \<and> do_path r = path)"

definition find_object :: "uuid \<Rightarrow> string \<Rightarrow> docker_object list \<Rightarrow> docker_object option" where
  "find_object repository path rows = find (is_object repository path) rows"

text \<open>\<open>i64::try_from(sz)\<close>.\<close>

definition encode_size :: "nat \<Rightarrow> object_error + int" where
  "encode_size sz = (if int sz \<le> bigint_max then Inr (int sz) else Inl ObjectEncode)"

definition new_object :: "uuid \<Rightarrow> string \<Rightarrow> int \<Rightarrow> string list \<Rightarrow> docker_object" where
  "new_object repository path sz references =
     \<lparr>do_repository = repository, do_path = path, do_size = sz, do_references = references, do_revision = 0\<rparr>"

text \<open>The rows that satisfy \<open>P\<close> changed by \<open>u\<close>, each with the next revision, which is an error beyond
  the range of the column; the result is the number of rows.\<close>

definition revise_rows ::
  "(docker_object \<Rightarrow> bool) \<Rightarrow> (docker_object \<Rightarrow> docker_object) \<Rightarrow> docker_object list \<Rightarrow>
     object_error + nat \<times> docker_object list" where
  "revise_rows P u rows =
     (if list_ex (\<lambda>r. P r \<and> do_revision r = bigint_max) rows then Inl ObjectOutOfRange
      else Inr (length (filter P rows),
                map (\<lambda>r. if P r then (u r)\<lparr>do_revision := do_revision r + 1\<rparr> else r) rows))"

section \<open>Writing\<close>

definition insert_missing :: "uuid \<Rightarrow> string \<Rightarrow> nat \<Rightarrow> string list \<Rightarrow> ('z, unit) object_query" where
  "insert_missing repository path sz references =
     bind_ok (from_result (encode_size sz)) (\<lambda>sz.
       try_sql ObjectDatabase
         (\<lambda>s. if find_object repository path (docker_objects s) \<noteq> None then Inr ((), s)
              else if repository \<notin> set (object_repositories s) then Inl ObjectForeignKey
              else Inr ((), s\<lparr>docker_objects :=
                     docker_objects s @ [new_object repository path sz references]\<rparr>)))"

definition upsert :: "uuid \<Rightarrow> string \<Rightarrow> nat \<Rightarrow> string list \<Rightarrow> ('z, unit) object_query" where
  "upsert repository path sz references =
     bind_ok (from_result (encode_size sz)) (\<lambda>sz.
       try_sql ObjectDatabase
         (\<lambda>s. case find_object repository path (docker_objects s) of
                None \<Rightarrow>
                  if repository \<notin> set (object_repositories s) then Inl ObjectForeignKey
                  else Inr ((), s\<lparr>docker_objects :=
                         docker_objects s @ [new_object repository path sz references]\<rparr>)
              | Some _ \<Rightarrow>
                  (case revise_rows
                          (\<lambda>r. is_object repository path r \<and> (do_size r, do_references r) \<noteq> (sz, references))
                          (\<lambda>r. r\<lparr>do_size := sz, do_references := references\<rparr>) (docker_objects s) of
                     Inl e \<Rightarrow> Inl e
                   | Inr (_, rows) \<Rightarrow> Inr ((), s\<lparr>docker_objects := rows\<rparr>))))"

definition update_size_if_revision :: "uuid \<Rightarrow> string \<Rightarrow> nat \<Rightarrow> int \<Rightarrow> ('z, bool) object_query" where
  "update_size_if_revision repository path sz expected_revision =
     bind_ok (from_result (encode_size sz)) (\<lambda>sz.
       try_sql ObjectDatabase
         (\<lambda>s. case revise_rows (\<lambda>r. is_object repository path r \<and> do_revision r = expected_revision)
                     (\<lambda>r. r\<lparr>do_size := sz\<rparr>) (docker_objects s) of
                Inl e \<Rightarrow> Inl e
              | Inr (n, rows) \<Rightarrow> Inr (n = 1, s\<lparr>docker_objects := rows\<rparr>)))"

definition upsert_if_revision ::
  "uuid \<Rightarrow> string \<Rightarrow> nat \<Rightarrow> string list \<Rightarrow> int \<Rightarrow> ('z, bool) object_query" where
  "upsert_if_revision repository path sz references expected_revision =
     bind_ok (from_result (encode_size sz)) (\<lambda>sz.
       try_sql ObjectDatabase
         (\<lambda>s. case revise_rows (\<lambda>r. is_object repository path r \<and> do_revision r = expected_revision)
                     (\<lambda>r. r\<lparr>do_size := sz, do_references := references\<rparr>) (docker_objects s) of
                Inl e \<Rightarrow> Inl e
              | Inr (n, rows) \<Rightarrow> Inr (n = 1, s\<lparr>docker_objects := rows\<rparr>)))"

definition delete_paths_if_revisions :: "uuid \<Rightarrow> (string \<times> int) list \<Rightarrow> ('z, nat) object_query" where
  "delete_paths_if_revisions repository candidates =
     (if candidates = [] then ret 0
      else exec_sql ObjectDatabase
             (\<lambda>s. let hit = \<lambda>r. do_repository r = repository \<and> (do_path r, do_revision r) \<in> set candidates
                  in (length (filter hit (docker_objects s)),
                      s\<lparr>docker_objects := filter (\<lambda>r. \<not> hit r) (docker_objects s)\<rparr>)))"

definition delete_paths :: "uuid \<Rightarrow> string list \<Rightarrow> ('z, unit) object_query" where
  "delete_paths repository paths =
     update_sql ObjectDatabase
       (\<lambda>s. s\<lparr>docker_objects :=
              filter (\<lambda>r. \<not> (do_repository r = repository \<and> do_path r \<in> set paths)) (docker_objects s)\<rparr>)"

section \<open>Reading\<close>

text \<open>\<open>WITH RECURSIVE \<dots> UNION\<close>: \<open>seen\<close> is the result so far, \<open>working\<close> the paths found by the last
  round; a round joins them with the rows and keeps what is new.\<close>

definition next_paths :: "docker_object list \<Rightarrow> string list \<Rightarrow> string list \<Rightarrow> string list" where
  "next_paths rows seen working =
     remdups (filter (\<lambda>p. p \<notin> set seen)
       (concat (map do_references (filter (\<lambda>r. do_path r \<in> set working) rows))))"

definition all_references :: "docker_object list \<Rightarrow> string set" where
  "all_references rows = set (concat (map do_references rows))"

lemma next_paths_new: "p \<in> set (next_paths rows seen working) \<Longrightarrow> p \<in> all_references rows - set seen"
  by (auto simp: next_paths_def all_references_def)

function recursive_paths :: "docker_object list \<Rightarrow> string list \<Rightarrow> string list \<Rightarrow> string list" where
  "recursive_paths rows seen working =
     (case next_paths rows seen working of
        [] \<Rightarrow> seen
      | new \<Rightarrow> recursive_paths rows (seen @ new) new)"
  by auto
termination
proof (relation "measure (\<lambda>(rows, seen, working). card (all_references rows - set seen))")
  fix rows seen working and p :: string and ps
  assume "next_paths rows seen working = p # ps"
  then have "p \<in> all_references rows - set seen" using next_paths_new [of p rows seen working] by simp
  then have "all_references rows - set (seen @ p # ps) \<subset> all_references rows - set seen" by auto
  moreover have "finite (all_references rows - set seen)" by (simp add: all_references_def)
  ultimately show "((rows, seen @ p # ps, p # ps), (rows, seen, working)) \<in>
      measure (\<lambda>(rows, seen, working). card (all_references rows - set seen))"
    by (simp add: psubset_card_mono)
qed simp

declare recursive_paths.simps [simp del]

definition objects_of :: "uuid \<Rightarrow> docker_object list \<Rightarrow> docker_object list" where
  "objects_of repository rows = filter (\<lambda>r. do_repository r = repository) rows"

definition referenced_size :: "uuid \<Rightarrow> string \<Rightarrow> ('z, int option) object_query" where
  "referenced_size repository path =
     try_sql ObjectDatabase
       (\<lambda>s. let rows = objects_of repository (docker_objects s);
                reached = (if find_object repository path rows = None then []
                           else recursive_paths rows [path] [path]);
                sizes = concat (map (\<lambda>p. map do_size (filter (\<lambda>r. do_path r = p) rows)) reached)
            in if sizes = [] then Inr (None, s)
               else if sum_list sizes > bigint_max then Inl ObjectOutOfRange
               else Inr (Some (sum_list sizes), s))"

definition needs_backfill :: "uuid \<Rightarrow> string \<Rightarrow> ('z, bool) object_query" where
  "needs_backfill repository root =
     select_sql ObjectDatabase
       (\<lambda>s. let rows = objects_of repository (docker_objects s)
            in find_object repository root rows = None \<or>
               list_ex (\<lambda>p. find_object repository p rows = None) (recursive_paths rows [root] [root]))"

definition revision_of :: "uuid \<Rightarrow> string \<Rightarrow> ('z, int option) object_query" where
  "revision_of repository path =
     select_sql ObjectDatabase (\<lambda>s. map_option do_revision (find_object repository path (docker_objects s)))"

definition list_rows :: "uuid \<Rightarrow> ('z, (string \<times> int \<times> int) list) object_query" where
  "list_rows repository =
     select_sql ObjectDatabase
       (\<lambda>s. map (\<lambda>r. (do_path r, do_size r, do_revision r)) (objects_of repository (docker_objects s)))"

section \<open>The invariant of the table\<close>

text \<open>The primary key, the check on the size, and the ranges of the columns.\<close>

definition object_row_ok :: "docker_object \<Rightarrow> bool" where
  "object_row_ok r = (0 \<le> do_size r \<and> do_size r \<le> bigint_max \<and> 0 \<le> do_revision r \<and> do_revision r \<le> bigint_max)"

definition object_key :: "docker_object \<Rightarrow> uuid \<times> string" where
  "object_key r = (do_repository r, do_path r)"

definition wf_objects :: "docker_object list \<Rightarrow> bool" where
  "wf_objects rows = (distinct (map object_key rows) \<and> list_all object_row_ok rows)"

definition objects_kept :: "'z object_db_scheme \<Rightarrow> 'z object_db_scheme \<Rightarrow> bool" where
  "objects_kept s t = (wf_objects (docker_objects s) \<longrightarrow> wf_objects (docker_objects t))"

interpretation objects_frame: frame objects_kept
  by unfold_locales (auto simp: objects_kept_def)

lemma is_object_key: "is_object repository path r \<longleftrightarrow> object_key r = (repository, path)"
  by (auto simp: is_object_def object_key_def)

lemma find_object_None: "find_object repository path rows = None \<longleftrightarrow> (repository, path) \<notin> object_key ` set rows"
  by (force simp: find_object_def find_None_iff is_object_key image_iff)

lemma find_object_Some:
  "wf_objects rows \<Longrightarrow> find_object repository path rows = Some r \<longleftrightarrow> r \<in> set rows \<and> object_key r = (repository, path)"
proof (induction rows)
  case (Cons a rows)
  have wf: "wf_objects rows" and new: "object_key a \<notin> object_key ` set rows"
    using Cons.prems by (auto simp: wf_objects_def)
  show ?case
  proof (cases "object_key a = (repository, path)")
    case True
    then show ?thesis using new by (auto simp: find_object_def is_object_key image_iff)
  next
    case False
    then show ?thesis using Cons.IH [OF wf] by (auto simp: find_object_def is_object_key)
  qed
qed (simp add: find_object_def)

lemma wf_objects_filter: "wf_objects rows \<Longrightarrow> wf_objects (filter P rows)"
  by (auto simp: wf_objects_def list_all_iff distinct_map inj_on_def)

lemma wf_objects_snoc:
  "wf_objects rows \<Longrightarrow> find_object repository path rows = None \<Longrightarrow> 0 \<le> sz \<Longrightarrow> sz \<le> bigint_max \<Longrightarrow>
    wf_objects (rows @ [new_object repository path sz references])"
  unfolding find_object_None
  by (auto simp: wf_objects_def new_object_def object_key_def object_row_ok_def bigint_max_def)

lemma encode_size_Inr: "encode_size n = Inr sz \<Longrightarrow> sz = int n \<and> 0 \<le> sz \<and> sz \<le> bigint_max"
  by (auto simp: encode_size_def split: if_splits)

lemma revise_rows_Inr:
  assumes "revise_rows P u rows = Inr (n, rows')"
  shows "n = length (filter P rows)"
    and "rows' = map (\<lambda>r. if P r then (u r)\<lparr>do_revision := do_revision r + 1\<rparr> else r) rows"
    and "r \<in> set rows \<Longrightarrow> P r \<Longrightarrow> do_revision r \<noteq> bigint_max"
  using assms by (auto simp: revise_rows_def list_ex_iff split: if_splits)

text \<open>An update of rows that keeps their keys and writes sizes in range.\<close>

definition row_update :: "(docker_object \<Rightarrow> docker_object) \<Rightarrow> bool" where
  "row_update u \<longleftrightarrow> (\<forall>r. object_key (u r) = object_key r \<and>
     (object_row_ok r \<longrightarrow> 0 \<le> do_size (u r) \<and> do_size (u r) \<le> bigint_max))"

lemma row_updates:
  assumes "0 \<le> sz" and "sz \<le> bigint_max"
  shows "row_update (\<lambda>r. r\<lparr>do_size := sz\<rparr>)" and "row_update (\<lambda>r. r\<lparr>do_size := sz, do_references := references\<rparr>)"
  using assms by (simp_all add: row_update_def object_key_def)

lemma wf_objects_revise:
  assumes wf: "wf_objects rows" and run: "revise_rows P u rows = Inr (n, rows')" and u: "row_update u"
  shows "wf_objects rows'"
proof -
  let ?f = "\<lambda>r. if P r then (u r)\<lparr>do_revision := do_revision r + 1\<rparr> else r"
  have key: "object_key (?f r) = object_key r" for r
    using u by (simp add: row_update_def object_key_def)
  have ok: "object_row_ok (?f r)" if "r \<in> set rows" for r
  proof -
    have r: "object_row_ok r" using wf that by (auto simp: wf_objects_def list_all_iff)
    have top: "P r \<Longrightarrow> do_revision r \<noteq> bigint_max" using revise_rows_Inr(3) [OF run that] .
    have sz: "0 \<le> do_size (u r) \<and> do_size (u r) \<le> bigint_max" using u r by (simp add: row_update_def)
    show ?thesis using r top sz by (auto simp: object_row_ok_def)
  qed
  have "map object_key rows' = map object_key rows"
    unfolding revise_rows_Inr(2) [OF run] by (simp only: map_map o_def key)
  moreover have "list_all object_row_ok rows'"
    unfolding revise_rows_Inr(2) [OF run] list_all_iff set_map using ok by blast
  ultimately show ?thesis using wf by (simp add: wf_objects_def)
qed

lemma keep_objects:
  assumes "\<And>(s :: 'z object_db_scheme) a t. f s = Inr (a, t) \<Longrightarrow> wf_objects (docker_objects s) \<Longrightarrow> wf_objects (docker_objects t)"
  shows "preserves (objects_kept :: 'z object_db_scheme \<Rightarrow> _) (try_sql e f)"
  by (rule objects_frame.frame_try) (use assms in \<open>auto simp: objects_kept_def\<close>)

lemma from_encoded_kept:
  assumes "\<And>sz. 0 \<le> sz \<Longrightarrow> sz \<le> bigint_max \<Longrightarrow> preserves (objects_kept :: 'z object_db_scheme \<Rightarrow> _) (m sz)"
  shows "preserves (objects_kept :: 'z object_db_scheme \<Rightarrow> _) (bind_ok (from_result (encode_size n)) m)"
proof (rule preservesI)
  fix s t :: "'z object_db_scheme" and r
  assume run: "bind_ok (from_result (encode_size n)) m s = (r, t)"
  show "objects_kept s t"
  proof (cases "encode_size n")
    case (Inl x)
    with run have "t = s" by (simp add: bind_ok_def from_result_def)
    then show ?thesis by simp
  next
    case (Inr sz)
    with run have "m sz s = (r, t)" by (simp add: bind_ok_def from_result_def)
    then show ?thesis using preservesD [OF assms] encode_size_Inr [OF Inr] by blast
  qed
qed

lemma insert_missing_kept: "preserves objects_kept (insert_missing repository path n references)"
  unfolding insert_missing_def
  by (intro from_encoded_kept keep_objects) (auto simp: wf_objects_snoc split: if_splits)

lemma upsert_kept: "preserves objects_kept (upsert repository path n references)"
  unfolding upsert_def
  by (intro from_encoded_kept keep_objects)
    (auto simp: wf_objects_snoc split: if_splits option.splits sum.splits; erule (1) wf_objects_revise; simp add: row_updates)

lemma update_size_kept: "preserves objects_kept (update_size_if_revision repository path n known)"
  unfolding update_size_if_revision_def
  by (intro from_encoded_kept keep_objects)
    (auto simp: row_updates elim!: wf_objects_revise split: sum.splits)

lemma upsert_if_kept: "preserves objects_kept (upsert_if_revision repository path n references known)"
  unfolding upsert_if_revision_def
  by (intro from_encoded_kept keep_objects)
    (auto simp: row_updates elim!: wf_objects_revise split: sum.splits)

lemma delete_if_kept: "preserves objects_kept (delete_paths_if_revisions repository candidates)"
  unfolding delete_paths_if_revisions_def
  by (cases "candidates = []")
    (simp_all add: objects_frame.frame_pure objects_frame.frame_exec objects_kept_def wf_objects_filter Let_def)

lemma delete_paths_kept: "preserves objects_kept (delete_paths repository paths)"
  unfolding delete_paths_def
  by (rule objects_frame.frame_update) (simp add: objects_kept_def wf_objects_filter)

lemma reads_objects_kept:
  "preserves objects_kept (revision_of repository path)" "preserves objects_kept (list_rows repository)"
  "preserves objects_kept (needs_backfill repository path)"
  unfolding revision_of_def list_rows_def needs_backfill_def by (rule objects_frame.frame_select)+

lemma referenced_size_kept: "preserves objects_kept (referenced_size repository path)"
  unfolding referenced_size_def by (rule keep_objects) (auto simp: Let_def split: if_splits)

lemmas object_queries_kept = insert_missing_kept upsert_kept update_size_kept upsert_if_kept
  delete_if_kept delete_paths_kept reads_objects_kept referenced_size_kept

section \<open>What the recursive queries compute\<close>

inductive reached :: "docker_object list \<Rightarrow> string \<Rightarrow> string \<Rightarrow> bool" for rows root where
  root: "reached rows root root"
| reference: "reached rows root p \<Longrightarrow> r \<in> set rows \<Longrightarrow> do_path r = p \<Longrightarrow> q \<in> set (do_references r) \<Longrightarrow> reached rows root q"

lemma set_next_paths:
  "set (next_paths rows seen working) =
     {q. q \<notin> set seen \<and> (\<exists>r\<in>set rows. do_path r \<in> set working \<and> q \<in> set (do_references r))}"
  by (auto simp: next_paths_def)

text \<open>The invariant of the iteration: what was seen is reached, and the references of everything seen
  that is not in the working table are seen.\<close>

lemma recursive_paths_sound:
  assumes "set working \<subseteq> set seen" and "\<And>p. p \<in> set seen \<Longrightarrow> reached rows root p"
  shows "\<forall>p\<in>set (recursive_paths rows seen working). reached rows root p"
  using assms
proof (induction rows seen working rule: recursive_paths.induct)
  case (1 rows seen working)
  have new: "reached rows root q" if "q \<in> set (next_paths rows seen working)" for q
    using that 1(2,3) by (auto simp: set_next_paths intro: reached.reference)
  show ?case
  proof (cases "next_paths rows seen working")
    case Nil
    then show ?thesis using 1(3) by (simp add: recursive_paths.simps)
  next
    case (Cons p ps)
    have "\<forall>q\<in>set (recursive_paths rows (seen @ p # ps) (p # ps)). reached rows root q"
      by (rule 1(1) [OF Cons]) (use 1(3) new Cons in auto)
    then show ?thesis using Cons by (simp add: recursive_paths.simps)
  qed
qed

lemma recursive_paths_closed:
  assumes "\<And>r q. r \<in> set rows \<Longrightarrow> do_path r \<in> set seen \<Longrightarrow> do_path r \<notin> set working \<Longrightarrow>
      q \<in> set (do_references r) \<Longrightarrow> q \<in> set seen"
  shows "set seen \<subseteq> set (recursive_paths rows seen working) \<and>
    (\<forall>r\<in>set rows. do_path r \<in> set (recursive_paths rows seen working) \<longrightarrow>
       set (do_references r) \<subseteq> set (recursive_paths rows seen working))"
  using assms
proof (induction rows seen working rule: recursive_paths.induct)
  case (1 rows seen working)
  have closed: "q \<in> set seen \<or> q \<in> set (next_paths rows seen working)"
    if "r \<in> set rows" "do_path r \<in> set seen" "q \<in> set (do_references r)" for r q
    using that 1(2) by (auto simp: set_next_paths)
  show ?case
  proof (cases "next_paths rows seen working")
    case Nil
    then have "recursive_paths rows seen working = seen" by (simp add: recursive_paths.simps)
    then show ?thesis using closed Nil by auto
  next
    case (Cons p ps)
    then have step: "recursive_paths rows seen working = recursive_paths rows (seen @ p # ps) (p # ps)"
      by (simp add: recursive_paths.simps)
    have "set (seen @ p # ps) \<subseteq> set (recursive_paths rows (seen @ p # ps) (p # ps)) \<and>
      (\<forall>r\<in>set rows. do_path r \<in> set (recursive_paths rows (seen @ p # ps) (p # ps)) \<longrightarrow>
         set (do_references r) \<subseteq> set (recursive_paths rows (seen @ p # ps) (p # ps)))"
      by (rule 1(1) [OF Cons]) (use closed Cons in auto)
    then show ?thesis unfolding step by simp
  qed
qed

lemma recursive_paths_distinct: "distinct seen \<Longrightarrow> distinct (recursive_paths rows seen working)"
proof (induction rows seen working rule: recursive_paths.induct)
  case (1 rows seen working)
  have "distinct (seen @ next_paths rows seen working)"
    using 1(2) by (auto simp: next_paths_def)
  then show ?case using 1 by (subst recursive_paths.simps) (auto split: list.splits)
qed

lemma recursive_paths_reached:
  "set (recursive_paths rows [root] [root]) = {p. reached rows root p}"
proof -
  let ?R = "set (recursive_paths rows [root] [root])"
  have sound: "?R \<subseteq> {p. reached rows root p}"
    using recursive_paths_sound [of "[root]" "[root]" rows root] by (auto intro: reached.root)
  have closed: "root \<in> ?R \<and> (\<forall>r\<in>set rows. do_path r \<in> ?R \<longrightarrow> set (do_references r) \<subseteq> ?R)"
    using recursive_paths_closed [of rows "[root]" "[root]"] by auto
  have "p \<in> ?R" if "reached rows root p" for p
    using that by induction (use closed in auto)
  with sound show ?thesis by auto
qed

lemma concat_sizes:
  assumes d: "distinct (map do_path rows)" and ps: "distinct ps"
  shows "sum_list (concat (map (\<lambda>p. map do_size (filter (\<lambda>r. do_path r = p) rows)) ps)) =
    (\<Sum>r\<in>{r\<in>set rows. do_path r \<in> set ps}. do_size r)"
  using ps
proof (induction ps)
  case (Cons p ps)
  have split: "{r\<in>set rows. do_path r \<in> set (p # ps)} =
      {r\<in>set rows. do_path r = p} \<union> {r\<in>set rows. do_path r \<in> set ps}" by auto
  have inj: "inj_on do_path (set rows)" and dr: "distinct rows" using d by (simp_all add: distinct_map)
  have "(\<Sum>r\<in>{r\<in>set rows. do_path r = p}. do_size r) = sum_list (map do_size (filter (\<lambda>r. do_path r = p) rows))"
    using dr by (simp add: sum_list_distinct_conv_sum_set distinct_filter)
  moreover have "(\<Sum>r\<in>{r\<in>set rows. do_path r \<in> set (p # ps)}. do_size r) =
      (\<Sum>r\<in>{r\<in>set rows. do_path r = p}. do_size r) + (\<Sum>r\<in>{r\<in>set rows. do_path r \<in> set ps}. do_size r)"
    unfolding split by (rule sum.union_disjoint) (use Cons.prems in auto)
  ultimately show ?case using Cons by simp
qed simp

lemma distinct_object_paths: "wf_objects rows \<Longrightarrow> distinct (map do_path (objects_of repository rows))"
  by (auto simp: wf_objects_def objects_of_def distinct_map inj_on_def object_key_def)

lemma find_objects_of: "find_object repository path (objects_of repository rows) = find_object repository path rows"
  by (induction rows) (auto simp: find_object_def objects_of_def is_object_def)

text \<open>
  C36. The size of a package is the sum of the sizes of the objects that can be reached from its manifest
  over the recorded references, each counted once however often it is referred to and also when the
  references form a cycle. There is none when the manifest has no row, and it is an error when it does
  not fit the column.
\<close>

theorem referenced_size_exact:
  assumes wf: "wf_objects (docker_objects s)" and nf: "faults s = []"
  shows "referenced_size repository path s =
    (let total = (\<Sum>r\<in>{r\<in>set (docker_objects s). do_repository r = repository \<and>
                       reached (objects_of repository (docker_objects s)) path (do_path r)}. do_size r)
     in (if find_object repository path (docker_objects s) = None then Inr None
         else if total > bigint_max then Inl ObjectOutOfRange else Inr (Some total), s))"
proof -
  let ?rows = "objects_of repository (docker_objects s)"
  let ?reached = "recursive_paths ?rows [path] [path]"
  let ?sizes = "concat (map (\<lambda>p. map do_size (filter (\<lambda>r. do_path r = p) ?rows)) ?reached)"
  let ?total = "\<Sum>r\<in>{r\<in>set (docker_objects s). do_repository r = repository \<and>
      reached ?rows path (do_path r)}. do_size r"
  show ?thesis
  proof (cases "find_object repository path (docker_objects s)")
    case None
    then show ?thesis by (simp add: referenced_size_def try_sql_no_faults [OF nf] find_objects_of)
  next
    case (Some root)
    have "sum_list ?sizes = (\<Sum>r\<in>{r\<in>set ?rows. do_path r \<in> set ?reached}. do_size r)"
      by (rule concat_sizes [OF distinct_object_paths [OF wf] recursive_paths_distinct]) simp
    also have "{r\<in>set ?rows. do_path r \<in> set ?reached} = {r\<in>set (docker_objects s). do_repository r = repository \<and>
      reached ?rows path (do_path r)}"
      unfolding recursive_paths_reached by (auto simp: objects_of_def)
    finally have total: "sum_list ?sizes = ?total" .
    have "root \<in> set ?rows" "do_path root = path"
      using Some by (auto simp: find_object_Some [OF wf] objects_of_def object_key_def)
    moreover have "path \<in> set ?reached" unfolding recursive_paths_reached by (simp add: reached.root)
    ultimately have "do_size root \<in> set ?sizes" by auto
    then have "?sizes \<noteq> []" by (intro notI) (simp only: list.set(1) empty_iff)
    then show ?thesis using Some total
      by (auto simp: referenced_size_def try_sql_no_faults [OF nf] find_objects_of Let_def)
  qed
qed

lemma needs_backfill_exact:
  assumes "faults s = []"
  shows "needs_backfill repository root s =
    (Inr (find_object repository root (docker_objects s) = None \<or>
       (\<exists>p. reached (objects_of repository (docker_objects s)) root p \<and>
            find_object repository p (docker_objects s) = None)), s)"
proof -
  have "list_ex Q (recursive_paths rows [root] [root]) \<longleftrightarrow> (\<exists>p. reached rows root p \<and> Q p)" for Q rows
    using recursive_paths_reached [of rows root] by (auto simp: list_ex_iff)
  then show ?thesis using assms by (simp add: needs_backfill_def find_objects_of Let_def)
qed

section \<open>Recording a write\<close>

lemma find_after_snoc:
  "find_object repository path rows = None \<Longrightarrow>
     find_object repository path (rows @ [new_object repository path sz references]) =
       Some (new_object repository path sz references)"
  by (induction rows) (auto simp: find_object_def is_object_def new_object_def split: if_splits)

lemma find_object_map:
  "(\<And>r. object_key (f r) = object_key r) \<Longrightarrow>
     find_object repository path (map f rows) = map_option f (find_object repository path rows)"
  by (induction rows) (auto simp: find_object_def is_object_key)

lemma revised_row:
  assumes "row_update u" and "revise_rows P u rows = Inr (n, rows')"
  shows "find_object repository path rows' =
    map_option (\<lambda>r. if P r then (u r)\<lparr>do_revision := do_revision r + 1\<rparr> else r) (find_object repository path rows)"
  unfolding revise_rows_Inr(2) [OF assms(2)]
  by (rule find_object_map) (use assms(1) in \<open>simp add: row_update_def object_key_def\<close>)

lemma find_other_snoc:
  "(repository, path) \<noteq> (repository', path') \<Longrightarrow>
     find_object repository' path' (rows @ [new_object repository path sz references]) =
       find_object repository' path' rows"
  by (induction rows) (auto simp: find_object_def is_object_def new_object_def)

text \<open>A recorded write: the row holds the size and the references, its revision is the next one when
  they differ from the ones before, and no other row changes.\<close>

lemma upsert_row:
  assumes run: "upsert repository path n references s = (Inr x, t)"
  obtains r where "find_object repository path (docker_objects t) = Some r"
    and "do_size r = int n" and "do_references r = references"
    and "\<And>old. find_object repository path (docker_objects s) = Some old \<Longrightarrow>
      do_revision r = (if do_size old = int n \<and> do_references old = references then do_revision old
                       else do_revision old + 1)"
    and "\<And>repository' path'. (repository', path') \<noteq> (repository, path) \<Longrightarrow>
      find_object repository' path' (docker_objects t) = find_object repository' path' (docker_objects s)"
proof -
  obtain sz where sz: "encode_size n = Inr sz"
    using run by (cases "encode_size n") (auto simp: upsert_def bind_ok_def from_result_def)
  note bounds = encode_size_Inr [OF sz]
  let ?s = "s\<lparr>faults := tl (faults s)\<rparr>"
  let ?P = "\<lambda>r. is_object repository path r \<and> (do_size r, do_references r) \<noteq> (sz, references)"
  let ?u = "\<lambda>r. r\<lparr>do_size := sz, do_references := references\<rparr>"
  have run': "try_sql ObjectDatabase
         (\<lambda>s. case find_object repository path (docker_objects s) of
                None \<Rightarrow>
                  if repository \<notin> set (object_repositories s) then Inl ObjectForeignKey
                  else Inr ((), s\<lparr>docker_objects := docker_objects s @ [new_object repository path sz references]\<rparr>)
              | Some _ \<Rightarrow>
                  (case revise_rows ?P ?u (docker_objects s) of
                     Inl e \<Rightarrow> Inl e
                   | Inr (_, rows) \<Rightarrow> Inr ((), s\<lparr>docker_objects := rows\<rparr>))) s = (Inr x, t)"
    using run by (simp add: upsert_def sz bind_ok_def from_result_def)
  note step = try_sql_Inr [OF run']
  show ?thesis
  proof (cases "find_object repository path (docker_objects s)")
    case None
    with step have t: "docker_objects t = docker_objects s @ [new_object repository path sz references]"
      by (auto split: if_splits)
    show ?thesis
      by (rule that [of "new_object repository path sz references"])
        (use None bounds in \<open>auto simp: t find_after_snoc find_other_snoc new_object_def [symmetric], simp_all add: new_object_def\<close>)
  next
    case (Some old)
    with step obtain m rows where rv: "revise_rows ?P ?u (docker_objects s) = Inr (m, rows)" and t: "docker_objects t = rows"
      by (auto split: sum.splits)
    have u: "row_update ?u" using bounds by (simp add: row_updates)
    have row: "find_object repository' path' rows =
        map_option (\<lambda>r. if ?P r then (?u r)\<lparr>do_revision := do_revision r + 1\<rparr> else r)
          (find_object repository' path' (docker_objects s))" for repository' path'
      by (rule revised_row [OF u rv])
    have old: "is_object repository path old" using Some by (auto simp: find_object_def find_Some_iff)
    show ?thesis
    proof (rule that [of "if ?P old then (?u old)\<lparr>do_revision := do_revision old + 1\<rparr> else old"])
      fix repository' path'
      assume other: "(repository', path') \<noteq> (repository, path)"
      have "\<not> is_object repository path r" if "find_object repository' path' (docker_objects s) = Some r" for r
        using that other by (auto simp: find_object_def find_Some_iff is_object_def)
      then show "find_object repository' path' (docker_objects t) = find_object repository' path' (docker_objects s)"
        unfolding t row by (cases "find_object repository' path' (docker_objects s)") auto
    qed (use Some old bounds row [of repository path] in \<open>auto simp: t\<close>)
  qed
qed

section \<open>Revisions\<close>

text \<open>Rows only grow older: every row is still there, with a later revision or unchanged.\<close>

definition revised :: "'z object_db_scheme \<Rightarrow> 'z object_db_scheme \<Rightarrow> bool" where
  "revised s t = (\<forall>repository path r. find_object repository path (docker_objects s) = Some r \<longrightarrow>
     (\<exists>r'. find_object repository path (docker_objects t) = Some r' \<and> do_revision r \<le> do_revision r' \<and>
           (do_revision r' = do_revision r \<longrightarrow> r' = r)))"

interpretation revision_frame: frame revised
proof
  fix s t u :: "'z object_db_scheme"
  assume st: "revised s t" and tu: "revised t u"
  show "revised s u"
    unfolding revised_def
  proof (intro allI impI)
    fix repository path r
    assume "find_object repository path (docker_objects s) = Some r"
    with st obtain r' where r': "find_object repository path (docker_objects t) = Some r'"
      "do_revision r \<le> do_revision r'" "do_revision r' = do_revision r \<longrightarrow> r' = r"
      unfolding revised_def by blast
    with tu obtain r'' where "find_object repository path (docker_objects u) = Some r''"
      "do_revision r' \<le> do_revision r''" "do_revision r'' = do_revision r' \<longrightarrow> r'' = r'"
      unfolding revised_def by blast
    with r' show "\<exists>r'. find_object repository path (docker_objects u) = Some r' \<and> do_revision r \<le> do_revision r' \<and>
           (do_revision r' = do_revision r \<longrightarrow> r' = r)" by auto
  qed
qed (simp_all add: revised_def)

lemma find_object_append:
  "find_object repository path rows = Some r \<Longrightarrow> find_object repository path (rows @ added) = Some r"
  by (induction rows) (auto simp: find_object_def split: if_splits)

lemma revised_append: "docker_objects t = docker_objects s @ added \<Longrightarrow> revised s t"
  by (auto simp: revised_def find_object_append)

lemma revised_revise:
  assumes "row_update u" and "revise_rows P u (docker_objects s) = Inr (n, rows)" and "docker_objects t = rows"
  shows "revised s t"
  unfolding revised_def assms(3) revised_row [OF assms(1,2)] by auto

lemma encoded_revised:
  assumes "\<And>sz (s :: 'z object_db_scheme) a t. 0 \<le> sz \<Longrightarrow> sz \<le> bigint_max \<Longrightarrow> f sz s = Inr (a, t) \<Longrightarrow> revised s t"
  shows "preserves (revised :: 'z object_db_scheme \<Rightarrow> _)
    (bind_ok (from_result (encode_size n)) (\<lambda>sz. try_sql e (f sz)))"
proof (rule preservesI)
  fix s t :: "'z object_db_scheme" and r
  assume run: "bind_ok (from_result (encode_size n)) (\<lambda>sz. try_sql e (f sz)) s = (r, t)"
  show "revised s t"
  proof (cases "encode_size n")
    case (Inl x)
    with run have "t = s" by (simp add: bind_ok_def from_result_def)
    then show ?thesis by simp
  next
    case (Inr sz)
    with run have step: "try_sql e (f sz) s = (r, t)" by (simp add: bind_ok_def from_result_def)
    have "preserves revised (try_sql e (f sz))"
      by (rule revision_frame.frame_try) (use assms encode_size_Inr [OF Inr] in blast)
    from preservesD [OF this step] show ?thesis .
  qed
qed

lemma insert_missing_revised: "preserves revised (insert_missing repository path n references)"
  unfolding insert_missing_def
  by (rule encoded_revised) (auto simp: revised_append split: if_splits)

lemma upsert_revised: "preserves revised (upsert repository path n references)"
  unfolding upsert_def
  by (rule encoded_revised)
    (auto simp: revised_append split: if_splits option.splits sum.splits;
     rule revised_revise; (assumption | simp add: row_updates))

lemma update_size_revised: "preserves revised (update_size_if_revision repository path n known)"
  unfolding update_size_if_revision_def
  by (rule encoded_revised)
    (auto split: sum.splits; rule revised_revise; (assumption | simp add: row_updates))

lemma upsert_if_revised: "preserves revised (upsert_if_revision repository path n references known)"
  unfolding upsert_if_revision_def
  by (rule encoded_revised)
    (auto split: sum.splits; rule revised_revise; (assumption | simp add: row_updates))

text \<open>Statements of any processes that record objects, in any order and with any outcome.\<close>

inductive recording :: "'z object_db_scheme \<Rightarrow> 'z object_db_scheme \<Rightarrow> bool" for s where
  start: "recording s s"
| recorded: "recording s t \<Longrightarrow> upsert repository path n references t = (x, u) \<Longrightarrow> recording s u"
| backfilled: "recording s t \<Longrightarrow> insert_missing repository path n references t = (x, u) \<Longrightarrow> recording s u"
| corrected: "recording s t \<Longrightarrow> update_size_if_revision repository path n known t = (y, u) \<Longrightarrow> recording s u"
| rewritten: "recording s t \<Longrightarrow> upsert_if_revision repository path n references known t = (y, u) \<Longrightarrow> recording s u"

lemma recording_step:
  assumes "revised s t \<and> objects_kept s t" and "preserves revised m" and "preserves objects_kept m" and "m t = (x, u)"
  shows "revised s u \<and> objects_kept s u"
  using assms(1) preservesD [OF assms(2,4)] preservesD [OF assms(3,4)]
    revision_frame.same_trans objects_frame.same_trans by blast

lemma recording_keeps: "recording s t \<Longrightarrow> revised s t \<and> objects_kept s t"
proof (induction rule: recording.induct)
  case (recorded t repository path n references x u)
  then show ?case using recording_step [OF _ upsert_revised upsert_kept] by blast
next
  case (backfilled t repository path n references x u)
  then show ?case using recording_step [OF _ insert_missing_revised insert_missing_kept] by blast
next
  case (corrected t repository path n known y u)
  then show ?case using recording_step [OF _ update_size_revised update_size_kept] by blast
next
  case (rewritten t repository path n references known y u)
  then show ?case using recording_step [OF _ upsert_if_revised upsert_if_kept] by blast
qed simp

text \<open>What may happen between the scan of an object and the guarded write of its row: objects are recorded, and
  other objects are removed, with a guard or without one.\<close>

inductive changing :: "uuid \<Rightarrow> string \<Rightarrow> 'z object_db_scheme \<Rightarrow> 'z object_db_scheme \<Rightarrow> bool"
  for repository path s where
  untouched: "changing repository path s s"
| written: "changing repository path s t \<Longrightarrow> recording t u \<Longrightarrow> changing repository path s u"
| removed: "changing repository path s t \<Longrightarrow> repository' = repository \<longrightarrow> path \<notin> set paths \<Longrightarrow>
    delete_paths repository' paths t = (x, u) \<Longrightarrow> changing repository path s u"
| purged: "changing repository path s t \<Longrightarrow> repository' = repository \<longrightarrow> path \<notin> fst ` set candidates \<Longrightarrow>
    delete_paths_if_revisions repository' candidates t = (y, u) \<Longrightarrow> changing repository path s u"

lemma find_object_filter:
  "(\<And>r. is_object repository path r \<Longrightarrow> P r) \<Longrightarrow>
     find_object repository path (filter P rows) = find_object repository path rows"
  by (induction rows) (auto simp: find_object_def)

text \<open>A row only grows in revision, and is the same as long as the revision is.\<close>

definition grown :: "uuid \<Rightarrow> string \<Rightarrow> docker_object \<Rightarrow> 'z object_db_scheme \<Rightarrow> bool" where
  "grown repository path r t \<longleftrightarrow> wf_objects (docker_objects t) \<and>
     (\<exists>r'. find_object repository path (docker_objects t) = Some r' \<and> do_revision r \<le> do_revision r' \<and>
           (do_revision r' = do_revision r \<longrightarrow> r' = r))"

lemma grown_filter:
  assumes "grown repository path r t" and "docker_objects u = filter P (docker_objects t)"
    and "\<And>r. is_object repository path r \<Longrightarrow> P r"
  shows "grown repository path r u"
proof -
  have "find_object repository path (docker_objects u) = find_object repository path (docker_objects t)"
    unfolding assms(2) by (rule find_object_filter) (rule assms(3))
  then show ?thesis using assms(1,2) by (auto simp: grown_def wf_objects_filter)
qed

lemma delete_paths_filter:
  assumes "delete_paths repository paths s = (x, t)"
  shows "docker_objects t = docker_objects s \<or>
    docker_objects t = filter (\<lambda>r. \<not> (do_repository r = repository \<and> do_path r \<in> set paths)) (docker_objects s)"
  using assms by (auto simp: delete_paths_def update_sql_def exec_sql_def split: list.splits if_splits)

lemma delete_if_revisions_filter:
  assumes "delete_paths_if_revisions repository candidates s = (x, t)"
  shows "docker_objects t = docker_objects s \<or>
    docker_objects t = filter (\<lambda>r. \<not> (do_repository r = repository \<and> (do_path r, do_revision r) \<in> set candidates))
      (docker_objects s)"
  using assms
  by (auto simp: delete_paths_if_revisions_def exec_sql_def ret_app Let_def split: list.splits if_splits)

lemma changing_grown:
  assumes "changing repository path s t" and "wf_objects (docker_objects s)"
    and "find_object repository path (docker_objects s) = Some r"
  shows "grown repository path r t"
  using assms(1)
proof (induction rule: changing.induct)
  case untouched
  then show ?case using assms(2,3) by (simp add: grown_def)
next
  case (written t u)
  from recording_keeps [OF written.hyps(2)] have "revised t u" "objects_kept t u" by simp_all
  moreover obtain r1 where r1: "find_object repository path (docker_objects t) = Some r1"
      "do_revision r \<le> do_revision r1" "do_revision r1 = do_revision r \<longrightarrow> r1 = r" and wf: "wf_objects (docker_objects t)"
    using written.IH by (auto simp: grown_def)
  ultimately obtain r2 where "find_object repository path (docker_objects u) = Some r2"
      "do_revision r1 \<le> do_revision r2" "do_revision r2 = do_revision r1 \<longrightarrow> r2 = r1" and "wf_objects (docker_objects u)"
    unfolding revised_def objects_kept_def by blast
  with r1 show ?case by (auto simp: grown_def)
next
  case (removed t repository' paths x u)
  from delete_paths_filter [OF removed.hyps(3)] show ?case
  proof (elim disjE)
    assume "docker_objects u = docker_objects t"
    then show ?case using removed.IH by (simp add: grown_def)
  next
    assume "docker_objects u = filter (\<lambda>r. \<not> (do_repository r = repository' \<and> do_path r \<in> set paths)) (docker_objects t)"
    from grown_filter [OF removed.IH this] removed.hyps(2) show ?case by (auto simp: is_object_def)
  qed
next
  case (purged t repository' candidates y u)
  from delete_if_revisions_filter [OF purged.hyps(3)] show ?case
  proof (elim disjE)
    assume "docker_objects u = docker_objects t"
    then show ?case using purged.IH by (simp add: grown_def)
  next
    assume "docker_objects u =
      filter (\<lambda>r. \<not> (do_repository r = repository' \<and> (do_path r, do_revision r) \<in> set candidates)) (docker_objects t)"
    from grown_filter [OF purged.IH this] purged.hyps(2) show ?case by (force simp: is_object_def image_iff)
  qed
qed

lemma filter_object:
  assumes "wf_objects rows"
  shows "length (filter (\<lambda>r. is_object repository path r \<and> Q r) rows) =
    (case find_object repository path rows of Some r \<Rightarrow> if Q r then 1 else 0 | None \<Rightarrow> 0)"
  using assms
proof (induction rows)
  case (Cons a rows)
  have wf: "wf_objects rows" and new: "object_key a \<notin> object_key ` set rows"
    using Cons.prems by (auto simp: wf_objects_def)
  show ?case
  proof (cases "is_object repository path a")
    case True
    then have "find_object repository path rows = None" using new by (simp add: find_object_None is_object_key)
    with Cons.IH [OF wf] True show ?thesis by (simp add: find_object_def)
  next
    case False
    with Cons.IH [OF wf] show ?thesis by (simp add: find_object_def)
  qed
qed (simp add: find_object_def)

lemma revised_unchanged:
  assumes "revised s t" and "find_object repository path (docker_objects s) = Some r"
  shows "(\<exists>r'. find_object repository path (docker_objects t) = Some r' \<and> do_revision r' = do_revision r) \<longleftrightarrow>
    find_object repository path (docker_objects t) = Some r"
  using assms unfolding revised_def by force

lemma guarded_upsert_row:
  assumes wf: "wf_objects (docker_objects t)"
    and run: "upsert_if_revision repository path n references known t = (Inr hit, u)"
  shows "hit \<longleftrightarrow> (\<exists>r. find_object repository path (docker_objects t) = Some r \<and> do_revision r = known)"
    and "\<not> hit \<Longrightarrow> docker_objects u = docker_objects t"
    and "hit \<Longrightarrow> find_object repository path (docker_objects t) = Some r \<Longrightarrow>
      find_object repository path (docker_objects u) =
        Some (r\<lparr>do_size := int n, do_references := references, do_revision := do_revision r + 1\<rparr>)"
proof -
  obtain sz where sz: "encode_size n = Inr sz"
    using run by (cases "encode_size n") (auto simp: upsert_if_revision_def bind_ok_def from_result_def)
  let ?P = "\<lambda>r. is_object repository path r \<and> do_revision r = known"
  let ?u = "\<lambda>r. r\<lparr>do_size := sz, do_references := references\<rparr>"
  have "try_sql ObjectDatabase
         (\<lambda>s. case revise_rows ?P ?u (docker_objects s) of
                Inl e \<Rightarrow> Inl e
              | Inr (n, rows) \<Rightarrow> Inr (n = 1, s\<lparr>docker_objects := rows\<rparr>)) t = (Inr hit, u)"
    using run by (simp add: upsert_if_revision_def sz bind_ok_def from_result_def)
  from try_sql_Inr [OF this] obtain m rows where rv: "revise_rows ?P ?u (docker_objects t) = Inr (m, rows)"
    and hit: "hit = (m = 1)" and u: "docker_objects u = rows"
    by (auto split: sum.splits)
  have m: "m = (case find_object repository path (docker_objects t) of
      Some r \<Rightarrow> if do_revision r = known then 1 else 0 | None \<Rightarrow> 0)"
    using revise_rows_Inr(1) [OF rv] filter_object [OF wf] by simp
  show exact: "hit \<longleftrightarrow> (\<exists>r. find_object repository path (docker_objects t) = Some r \<and> do_revision r = known)"
    using m hit by (auto split: option.splits if_splits)
  show "docker_objects u = docker_objects t" if "\<not> hit"
  proof -
    have "m = 0" using m hit that by (auto split: option.splits if_splits)
    then have "filter ?P (docker_objects t) = []" using revise_rows_Inr(1) [OF rv] by simp
    then show ?thesis unfolding u revise_rows_Inr(2) [OF rv]
      by (intro map_idI) (auto simp: filter_empty_conv)
  qed
  assume "hit" "find_object repository path (docker_objects t) = Some r"
  then have r: "find_object repository path (docker_objects t) = Some r" "?P r"
    using exact find_object_Some [OF wf, of repository path r] by (auto simp: is_object_key)
  have "row_update ?u" using encode_size_Inr [OF sz] by (simp add: row_updates)
  from revised_row [OF this rv, of repository path] r encode_size_Inr [OF sz]
  show "find_object repository path (docker_objects u) =
        Some (r\<lparr>do_size := int n, do_references := references, do_revision := do_revision r + 1\<rparr>)"
    by (simp add: u)
qed

lemma delete_if_row:
  assumes wf: "wf_objects (docker_objects t)"
    and run: "delete_paths_if_revisions repository [(path, known)] t = (Inr m, u)"
  shows "m = (case find_object repository path (docker_objects t) of
      Some r \<Rightarrow> if do_revision r = known then 1 else 0 | None \<Rightarrow> 0)"
    and "docker_objects u =
      filter (\<lambda>r. \<not> (is_object repository path r \<and> do_revision r = known)) (docker_objects t)"
proof -
  have hit: "(\<lambda>r. do_repository r = repository \<and> (do_path r, do_revision r) \<in> set [(path, known)]) =
      (\<lambda>r. is_object repository path r \<and> do_revision r = known)"
    by (auto simp: is_object_def)
  have "m = length (filter (\<lambda>r. is_object repository path r \<and> do_revision r = known) (docker_objects t)) \<and>
    docker_objects u = filter (\<lambda>r. \<not> (is_object repository path r \<and> do_revision r = known)) (docker_objects t)"
    using exec_sql_Inr [OF run [unfolded delete_paths_if_revisions_def, simplified]]
    by (auto simp: Let_def is_object_def conj_assoc)
  then show "m = (case find_object repository path (docker_objects t) of
      Some r \<Rightarrow> if do_revision r = known then 1 else 0 | None \<Rightarrow> 0)"
    and "docker_objects u =
      filter (\<lambda>r. \<not> (is_object repository path r \<and> do_revision r = known)) (docker_objects t)"
    using filter_object [OF wf] by simp_all
qed


text \<open>
  The guard is not enough when rows are removed: an object that is deleted and uploaded again after
  the scan gets the first revision again, and the removal of the old row takes the new one away.
\<close>

theorem reused_revision_removes_new_row:
  assumes wf: "wf_objects (docker_objects s)" and nf: "faults s = []"
    and seen: "find_object repository path (docker_objects s) = Some r" "do_revision r = 0"
    and repo: "repository \<in> set (object_repositories s)" and n: "int n \<le> bigint_max"
  shows "\<exists>t u v. delete_paths repository [path] s = (Inr (), t) \<and>
    upsert repository path n references t = (Inr (), u) \<and>
    find_object repository path (docker_objects u) = Some (new_object repository path (int n) references) \<and>
    delete_paths_if_revisions repository [(path, do_revision r)] u = (Inr 1, v) \<and>
    find_object repository path (docker_objects v) = None"
proof -
  define t where "t = s\<lparr>docker_objects :=
      filter (\<lambda>r. \<not> (do_repository r = repository \<and> do_path r \<in> set [path])) (docker_objects s)\<rparr>"
  define u where "u = t\<lparr>docker_objects := docker_objects t @ [new_object repository path (int n) references]\<rparr>"
  let ?gone = "\<lambda>r. \<not> (is_object repository path r \<and> do_revision r = 0)"
  define v where "v = u\<lparr>docker_objects := filter ?gone (docker_objects u)\<rparr>"
  have nfs: "faults t = []" "faults u = []" using nf by (simp_all add: t_def u_def)
  have del: "delete_paths repository [path] s = (Inr (), t)"
    unfolding delete_paths_def t_def by (rule update_sql_no_faults [OF nf])
  have none: "find_object repository path (docker_objects t) = None"
    by (auto simp: t_def find_object_None object_key_def)
  have ups: "upsert repository path n references t = (Inr (), u)"
    using n repo none
    by (simp add: upsert_def encode_size_def bind_ok_def from_result_def try_sql_no_faults [OF nfs(1)] u_def, simp add: t_def)
  have new: "find_object repository path (docker_objects u) = Some (new_object repository path (int n) references)"
    by (simp add: u_def find_after_snoc [OF none])
  have wfu: "wf_objects (docker_objects u)"
    using wf n none wf_objects_snoc [OF _ none] by (simp add: u_def t_def wf_objects_filter)
  have removal: "delete_paths_if_revisions repository [(path, do_revision r)] u =
      (Inr (length (filter (\<lambda>r. is_object repository path r \<and> do_revision r = 0) (docker_objects u))), v)"
    using seen(2) by (simp add: delete_paths_if_revisions_def exec_sql_no_faults [OF nfs(2)] Let_def is_object_def
        conj_assoc v_def)
  have one: "length (filter (\<lambda>r. is_object repository path r \<and> do_revision r = 0) (docker_objects u)) = 1"
    unfolding filter_object [OF wfu] new by (simp add: new_object_def)
  have "find_object repository path (docker_objects v) = None"
    unfolding find_object_None v_def
  proof (clarsimp simp: image_iff)
    fix x
    assume x: "x \<in> set (docker_objects u)" "(repository, path) = object_key x"
      "is_object repository path x \<longrightarrow> do_revision x \<noteq> 0"
    then have "find_object repository path (docker_objects u) = Some x" by (simp add: find_object_Some [OF wfu])
    with new x(2,3) show False by (simp add: new_object_def is_object_key)
  qed
  with del ups new removal [unfolded one] show ?thesis by blast
qed

section \<open>Concrete inputs\<close>

lemma run_succeeds: "\<not> isl (fst x) \<Longrightarrow> \<exists>a t. x = (Inr a, t)"
  by (cases x; cases "fst x") auto

definition sample_objects :: "docker_object list \<Rightarrow> object_db" where
  "sample_objects rows = local_state.extend (sample_local [])
     \<lparr>object_repositories = [1], docker_objects = rows\<rparr>"

text \<open>An index that refers to itself and to an image, both of which name the same layer.\<close>

definition sample_rows :: "docker_object list" where
  "sample_rows =
     [new_object 1 ''index'' 10 [''image'', ''index''], new_object 1 ''image'' 20 [''layer'', ''layer''],
      new_object 1 ''layer'' 300 [], new_object 1 ''other'' 4000 []]"

theorem referenced_size_exact_witness:
  "referenced_size 1 ''index'' (sample_objects sample_rows) = (Inr (Some 330), sample_objects sample_rows)"
proof -
  let ?s = "sample_objects sample_rows"
  have h: "wf_objects (docker_objects ?s)" "faults ?s = []" by code_simp+
  have rows: "docker_objects ?s = sample_rows" by (simp add: sample_objects_def local_state.defs)
  have "{p. reached (objects_of 1 sample_rows) ''index'' p} = set [''index'', ''image'', ''layer'']"
    unfolding recursive_paths_reached [symmetric] by code_simp
  then have r: "reached (objects_of 1 sample_rows) ''index'' p \<longleftrightarrow> p \<in> set [''index'', ''image'', ''layer'']" for p
    by blast
  have d: "distinct (filter P sample_rows)" for P
    by (rule distinct_filter) (simp add: sample_rows_def new_object_def)
  have "(\<Sum>r\<in>{r\<in>set sample_rows. do_repository r = 1 \<and> do_path r \<in> set [''index'', ''image'', ''layer'']}. do_size r) =
      sum_list (map do_size (filter (\<lambda>r. do_repository r = 1 \<and> do_path r \<in> set [''index'', ''image'', ''layer'']) sample_rows))"
    by (simp only: sum_list_distinct_conv_sum_set [OF d] set_filter)
  also have "\<dots> = 330" by code_simp
  finally have total: "(\<Sum>r\<in>{r\<in>set sample_rows. do_repository r = 1 \<and>
      reached (objects_of 1 sample_rows) ''index'' (do_path r)}. do_size r) = 330"
    unfolding r .
  have "find_object 1 ''index'' sample_rows \<noteq> None" by code_simp
  with referenced_size_exact [OF h, of 1 "''index''"] show ?thesis
    unfolding rows total by (simp add: bigint_max_def Let_def)
qed


theorem reused_revision_removes_new_row_witness:
  "\<exists>t u v. delete_paths 1 [''layer''] (sample_objects sample_rows) = (Inr (), t) \<and>
     upsert 1 ''layer'' 5 [] t = (Inr (), u) \<and> delete_paths_if_revisions 1 [(''layer'', 0)] u = (Inr 1, v) \<and>
     find_object 1 ''layer'' (docker_objects v) = None"
proof -
  let ?s = "sample_objects sample_rows" and ?r = "new_object 1 ''layer'' 300 []"
  have h: "wf_objects (docker_objects ?s)" "faults ?s = []" "find_object 1 ''layer'' (docker_objects ?s) = Some ?r"
    "do_revision ?r = 0" "1 \<in> set (object_repositories ?s)" "int 5 \<le> bigint_max"
    by code_simp+
  from reused_revision_removes_new_row [OF h, of "[]"] h(4) show ?thesis by auto
qed

end
