(* ===== verification/DockerManifest.thy ===== *)
theory DockerManifest
  imports StoragePath FileSystem "HOL-Library.Char_ord" "HOL-Library.List_Lexorder"
begin

text \<open>
  Docker and OCI manifests (pkgly/src/repository/docker/types.rs), the paths under which they are
  stored, and the objects they refer to (pkgly/src/repository/docker/metadata.rs and the path checks of
  pkgly/src/app/api/repository/packages.rs). The JSON parser (third-party code) is the record
  \<open>manifest_json\<close>: what it makes of a document for each of the three structures, and the member
  \<open>mediaType\<close> of the untyped document. \<open>from_bytes\<close> calls itself with the media type it finds in the
  document, so it is a partial function: the result \<open>None\<close> is a call that never returns.
\<close>

section \<open>Data\<close>

record descriptor =
  ds_media_type :: string
  ds_digest :: string
  ds_size :: i64
  ds_urls :: "string list option"
  ds_annotations :: "(string \<rightharpoonup> string) option"

record platform =
  pl_architecture :: string
  pl_os :: string
  pl_os_version :: "string option"
  pl_os_features :: "string list option"
  pl_variant :: "string option"

record manifest_descriptor =
  md_media_type :: string
  md_digest :: string
  md_size :: i64
  md_platform :: "platform option"
  md_annotations :: "(string \<rightharpoonup> string) option"

record image_manifest_v2 =
  im_schema_version :: u32
  im_media_type :: string
  im_config :: descriptor
  im_layers :: "descriptor list"

record oci_image_manifest =
  oi_schema_version :: u32
  oi_media_type :: "string option"
  oi_config :: "descriptor option"
  oi_layers :: "descriptor list"
  oi_annotations :: "(string \<rightharpoonup> string) option"

record oci_image_index =
  ox_schema_version :: u32
  ox_media_type :: "string option"
  ox_manifests :: "manifest_descriptor list"
  ox_annotations :: "(string \<rightharpoonup> string) option"

datatype manifest =
    DockerV2 image_manifest_v2
  | OciImage oci_image_manifest
  | OciIndex oci_image_index

definition docker_manifest_v2 :: string where
  "docker_manifest_v2 = ''application/vnd.docker.distribution.manifest.v2+json''"

definition docker_manifest_v2_alt :: string where
  "docker_manifest_v2_alt = ''application/vnd.docker.distribution.manifest.v2+prettyjws''"

definition docker_manifest_list :: string where
  "docker_manifest_list = ''application/vnd.docker.distribution.manifest.list.v2+json''"

definition oci_image_manifest_type :: string where
  "oci_image_manifest_type = ''application/vnd.oci.image.manifest.v1+json''"

definition oci_image_index_type :: string where
  "oci_image_index_type = ''application/vnd.oci.image.index.v1+json''"

lemmas media_types = docker_manifest_v2_def docker_manifest_v2_alt_def docker_manifest_list_def
  oci_image_manifest_type_def oci_image_index_type_def

section \<open>Parsing\<close>

datatype serde_error = SerdeError

text \<open>\<open>mj_value\<close>: \<open>None\<close> when the bytes are no JSON document, otherwise its member \<open>mediaType\<close> when
  that is a string.\<close>

record manifest_json =
  mj_docker_v2 :: "bytes \<Rightarrow> serde_error + image_manifest_v2"
  mj_oci_image :: "bytes \<Rightarrow> serde_error + oci_image_manifest"
  mj_oci_index :: "bytes \<Rightarrow> serde_error + oci_image_index"
  mj_value :: "bytes \<Rightarrow> string option option"

partial_function (option) from_bytes ::
  "manifest_json \<Rightarrow> bytes \<Rightarrow> string \<Rightarrow> (serde_error + manifest) option" where
  "from_bytes j bytes content_type =
     (if content_type = docker_manifest_v2 \<or> content_type = docker_manifest_v2_alt
      then Some (map_sum id DockerV2 (mj_docker_v2 j bytes))
      else if content_type = oci_image_manifest_type
      then Some (map_sum id OciImage (mj_oci_image j bytes))
      else if content_type = oci_image_index_type \<or> content_type = docker_manifest_list
      then Some (map_sum id OciIndex (mj_oci_index j bytes))
      else case mj_value j bytes of
             Some (Some media_type) \<Rightarrow> from_bytes j bytes media_type
           | _ \<Rightarrow> Some (map_sum id OciImage (mj_oci_image j bytes)))"

definition media_type :: "manifest \<Rightarrow> string" where
  "media_type m =
     (case m of
        DockerV2 _ \<Rightarrow> docker_manifest_v2
      | OciImage _ \<Rightarrow> oci_image_manifest_type
      | OciIndex _ \<Rightarrow> oci_image_index_type)"

definition parse_manifest :: "manifest_json \<Rightarrow> bytes \<Rightarrow> manifest option option" where
  "parse_manifest j bytes =
     (if bytes = [] then Some None
      else case mj_value j bytes of
             None \<Rightarrow> Some None
           | Some member \<Rightarrow>
               (case from_bytes j bytes (case member of Some m \<Rightarrow> m | None \<Rightarrow> oci_image_manifest_type) of
                  None \<Rightarrow> None
                | Some (Inl _) \<Rightarrow> Some None
                | Some (Inr m) \<Rightarrow> Some (Some m)))"

section \<open>References\<close>

text \<open>The digests a manifest names, and the directory its objects are stored in.\<close>

definition referenced_digests :: "manifest \<Rightarrow> string \<times> string list" where
  "referenced_digests m =
     (case m of
        DockerV2 i \<Rightarrow> (''blobs'', map ds_digest (im_config i # im_layers i))
      | OciImage i \<Rightarrow> (''blobs'', map ds_digest ((case oi_config i of None \<Rightarrow> [] | Some c \<Rightarrow> [c]) @ oi_layers i))
      | OciIndex i \<Rightarrow> (''manifests'', map md_digest (ox_manifests i)))"

definition object_path :: "string \<Rightarrow> string \<Rightarrow> string \<Rightarrow> string" where
  "object_path repository_name kind reference =
     ''v2/'' @ repository_name @ ''/'' @ kind @ ''/'' @ reference"

definition manifest_references :: "manifest_json \<Rightarrow> string \<Rightarrow> bytes \<Rightarrow> string list option" where
  "manifest_references j repository_name bytes =
     (case parse_manifest j bytes of
        None \<Rightarrow> None
      | Some None \<Rightarrow> Some []
      | Some (Some m) \<Rightarrow>
          (case referenced_digests m of
             (kind, digests) \<Rightarrow> Some (remdups_adj (sort (map (object_path repository_name kind) digests)))))"

text \<open>\<open>path.find(marker)\<close> is the first occurrence, hence \<open>split_once\<close>.\<close>

definition split_manifest_cache_path :: "string \<Rightarrow> (string \<times> string) option" where
  "split_manifest_cache_path path =
     (case strip_prefix ''v2/'' path of
        None \<Rightarrow> None
      | Some without_prefix \<Rightarrow>
          (case split_once ''/manifests/'' without_prefix of
             None \<Rightarrow> None
           | Some (repository, reference) \<Rightarrow>
               if repository = [] \<or> reference = [] then None else Some (repository, reference)))"

definition trim_matches :: "char \<Rightarrow> string \<Rightarrow> string" where
  "trim_matches c s = trim_end_while (\<lambda>x. x = c) (trim_start_while (\<lambda>x. x = c) s)"

definition docker_package_key :: "string \<Rightarrow> string" where
  "docker_package_key repository_name = to_lower (trim_matches (CHR ''/'') repository_name)"

definition is_valid_repository_path :: "string \<Rightarrow> bool" where
  "is_valid_repository_path path =
     (path \<noteq> [] \<and> \<not> starts_with ''/'' path \<and> \<not> contains_str ''..'' path)"

definition is_valid_docker_manifest_path :: "string \<Rightarrow> bool" where
  "is_valid_docker_manifest_path path =
     (path \<noteq> [] \<and> \<not> starts_with ''/'' path \<and> \<not> contains_str ''..'' path \<and>
      starts_with ''v2/'' path \<and> contains_str ''/manifests/'' path)"

section \<open>The parser\<close>

definition known_type :: "string \<Rightarrow> bool" where
  "known_type t = (t \<in> {docker_manifest_v2, docker_manifest_v2_alt, docker_manifest_list,
     oci_image_manifest_type, oci_image_index_type})"

lemma from_bytes_known: "known_type t \<Longrightarrow> from_bytes j b t \<noteq> None"
  by (subst from_bytes.simps) (auto simp: known_type_def)

lemma from_bytes_unknown:
  "\<not> known_type t \<Longrightarrow> from_bytes j b t =
     (case mj_value j b of
        Some (Some m) \<Rightarrow> from_bytes j b m
      | _ \<Rightarrow> Some (map_sum id OciImage (mj_oci_image j b)))"
  by (subst from_bytes.simps) (simp add: known_type_def)

text \<open>A document whose own media type is unknown sends the call back to itself.\<close>

lemma from_bytes_returns:
  assumes "from_bytes j b t = Some r"
  shows "known_type t \<or> (\<forall>m. mj_value j b = Some (Some m) \<longrightarrow> known_type m)"
proof (rule from_bytes.raw_induct [OF _ assms])
  fix f j b t r
  assume IH: "\<And>j b t r. f j b t = Some r \<Longrightarrow> known_type t \<or> (\<forall>m. mj_value j b = Some (Some m) \<longrightarrow> known_type m)"
    and run: "(if t = docker_manifest_v2 \<or> t = docker_manifest_v2_alt
      then Some (map_sum id DockerV2 (mj_docker_v2 j b))
      else if t = oci_image_manifest_type then Some (map_sum id OciImage (mj_oci_image j b))
      else if t = oci_image_index_type \<or> t = docker_manifest_list
      then Some (map_sum id OciIndex (mj_oci_index j b))
      else case mj_value j b of
             None \<Rightarrow> Some (map_sum id OciImage (mj_oci_image j b))
           | Some None \<Rightarrow> Some (map_sum id OciImage (mj_oci_image j b))
           | Some (Some m) \<Rightarrow> f j b m) = Some r"
  show "known_type t \<or> (\<forall>m. mj_value j b = Some (Some m) \<longrightarrow> known_type m)"
  proof (cases "known_type t")
    case False
    then have "(case mj_value j b of
             None \<Rightarrow> Some (map_sum id OciImage (mj_oci_image j b))
           | Some None \<Rightarrow> Some (map_sum id OciImage (mj_oci_image j b))
           | Some (Some m) \<Rightarrow> f j b m) = Some r"
      using run by (simp add: known_type_def)
    then show ?thesis using IH [of j b] by (auto split: option.splits)
  qed simp
qed

lemma from_bytes_diverges:
  "from_bytes j b t = None \<longleftrightarrow>
     \<not> known_type t \<and> (\<exists>m. mj_value j b = Some (Some m) \<and> \<not> known_type m)"
proof
  assume none: "from_bytes j b t = None"
  then have t: "\<not> known_type t" using from_bytes_known by blast
  with none have "\<exists>m. mj_value j b = Some (Some m) \<and> from_bytes j b m = None"
    by (auto simp: from_bytes_unknown split: option.splits)
  then show "\<not> known_type t \<and> (\<exists>m. mj_value j b = Some (Some m) \<and> \<not> known_type m)"
    using t from_bytes_known by blast
next
  assume "\<not> known_type t \<and> (\<exists>m. mj_value j b = Some (Some m) \<and> \<not> known_type m)"
  then show "from_bytes j b t = None" using from_bytes_returns [of j b t] by fastforce
qed

text \<open>
  C38. Parsing a manifest never returns exactly when neither the declared media type nor the one inside
  the document is known: the parser then calls itself with the same arguments for ever.
\<close>

theorem manifest_parser_diverges:
  "from_bytes j b t = None \<longleftrightarrow>
     \<not> known_type t \<and> (\<exists>m. mj_value j b = Some (Some m) \<and> \<not> known_type m)"
  by (rule from_bytes_diverges)

text \<open>Declared as an image manifest, every document is read as one, an index included.\<close>

lemma from_bytes_oci_image:
  "from_bytes j b oci_image_manifest_type = Some (map_sum id OciImage (mj_oci_image j b))"
  by (subst from_bytes.simps) (simp add: media_types)

lemma parse_manifest_diverges:
  "parse_manifest j b = None \<longleftrightarrow> b \<noteq> [] \<and> (\<exists>m. mj_value j b = Some (Some m) \<and> \<not> known_type m)"
proof (cases "mj_value j b")
  case (Some member)
  show ?thesis
  proof (cases member)
    case None
    then show ?thesis using Some
      by (auto simp: parse_manifest_def from_bytes_oci_image split: sum.splits)
  next
    case (Some m)
    then show ?thesis using \<open>mj_value j b = Some member\<close> from_bytes_diverges [of j b m]
      by (auto simp: parse_manifest_def split: option.splits sum.splits)
  qed
qed (simp add: parse_manifest_def)

section \<open>Paths of manifests\<close>

lemma split_once_append_first:
  assumes "p \<noteq> []" and "\<not> contains_str p (a @ butlast p)"
  shows "split_once p (a @ p @ b) = Some (a, b)"
  using assms(2)
proof (induction a)
  case Nil
  then show ?case using assms(1) by (cases p) (auto simp: strip_prefix_append)
next
  case (Cons c a)
  have "strip_prefix p (c # a @ p @ b) = None"
  proof (rule ccontr)
    assume "strip_prefix p (c # a @ p @ b) \<noteq> None"
    then have "prefix p (c # a @ p @ b)" by (auto simp: prefix_def strip_prefix_Some)
    moreover have "prefix (c # a @ butlast p) (c # a @ p @ b)"
      using assms(1) by (metis append_Cons append_assoc append_butlast_last_id prefixI)
    ultimately have "prefix p (c # a @ butlast p)"
      by (rule prefix_length_prefix) (use assms(1) in \<open>cases p; simp\<close>)
    then show False using Cons.prems by (auto simp: starts_with_iff prefix_def)
  qed
  with Cons show ?case by simp
qed

lemma split_once_least:
  "split_once p s = Some (a, b) \<Longrightarrow> s = x @ p @ y \<Longrightarrow> length a \<le> length x"
proof (induction s arbitrary: a x)
  case (Cons c s)
  show ?case
  proof (cases "strip_prefix p (c # s)")
    case None
    with Cons.prems(1) obtain a' where a: "a = c # a'" "split_once p s = Some (a', b)"
      by (auto split: option.splits)
    from None Cons.prems(2) obtain x' where x: "x = c # x'" "s = x' @ p @ y"
      by (cases x) (auto simp: strip_prefix_None)
    show ?thesis using Cons.IH [OF a(2) x(2)] a(1) x(1) by simp
  qed (use Cons.prems(1) in auto)
qed (auto split: if_splits)

text \<open>
  The path of a stored manifest is taken apart into the repository and the reference it was built
  from, for repository names without a path component \<open>manifests\<close>; a name that has one is split at the
  wrong place.
\<close>

theorem manifest_path_roundtrip:
  assumes "name \<noteq> []" and "reference \<noteq> []"
  shows "split_manifest_cache_path (object_path name ''manifests'' reference) = Some (name, reference) \<longleftrightarrow>
    \<not> contains_str ''/manifests/'' (name @ ''/manifests'')"
proof
  have path: "strip_prefix ''v2/'' (object_path name ''manifests'' reference) =
      Some (name @ ''/manifests/'' @ reference)" by (simp add: object_path_def)
  assume "\<not> contains_str ''/manifests/'' (name @ ''/manifests'')"
  then have "split_once ''/manifests/'' (name @ ''/manifests/'' @ reference) = Some (name, reference)"
    by (intro split_once_append_first) simp_all
  with path assms show "split_manifest_cache_path (object_path name ''manifests'' reference) = Some (name, reference)"
    by (simp add: split_manifest_cache_path_def)
next
  have path: "strip_prefix ''v2/'' (object_path name ''manifests'' reference) =
      Some (name @ ''/manifests/'' @ reference)" by (simp add: object_path_def)
  assume "split_manifest_cache_path (object_path name ''manifests'' reference) = Some (name, reference)"
  then have first: "split_once ''/manifests/'' (name @ ''/manifests/'' @ reference) = Some (name, reference)"
    unfolding split_manifest_cache_path_def path by (auto split: option.splits prod.splits if_splits)
  show "\<not> contains_str ''/manifests/'' (name @ ''/manifests'')"
  proof
    assume "contains_str ''/manifests/'' (name @ ''/manifests'')"
    then obtain a b where ab: "name @ ''/manifests'' = a @ ''/manifests/'' @ b" by (auto simp: contains_str_iff)
    have "name @ ''/manifests/'' @ reference = (name @ ''/manifests'') @ ''/'' @ reference" by simp
    also have "\<dots> = a @ ''/manifests/'' @ b @ ''/'' @ reference" by (simp only: ab append_assoc)
    finally have "length name \<le> length a" using first by (rule split_once_least [rotated])
    moreover have "length a < length name" using arg_cong [OF ab, of length] by simp
    ultimately show False by simp
  qed
qed

end
