(* ===== verification/StorageContents.thy ===== *)
theory StorageContents
  imports LocalStorage
begin

text \<open>
  What appending, moving and deleting leave in the tree, exactly, when the tree has no symbolic links.
  Every lemma holds for any run that returns successfully, whatever failures the operating system
  reported on the way.
\<close>

section \<open>Trees without links\<close>

definition plain_storage :: "local_env \<Rightarrow> fspath \<Rightarrow> tree \<Rightarrow> uuid \<Rightarrow> bool" where
  "plain_storage e base t repository =
     (wf_tree t \<and> link_free t \<and> node_at t base = Some DirNode \<and> list_all normal_name base \<and>
      normal_name (le_uuid_text e repository))"

lemma link_freeD: "link_free t \<Longrightarrow> \<not> is_link (node_at t p)"
  by (simp add: link_free_def)

lemma place_plain: "place t p = Inr q \<Longrightarrow> link_free t \<Longrightarrow> list_all normal_name p \<Longrightarrow> q = p"
  unfolding place_def using locate_plain by fastforce

lemma canonicalize_iff:
  assumes "wf_tree t" and "link_free t" and "list_all normal_name p"
  shows "canonicalize t p = Inr q \<longleftrightarrow> q = p \<and> node_at t p \<noteq> None"
proof
  assume "canonicalize t p = Inr q"
  then show "q = p \<and> node_at t p \<noteq> None"
    using canonicalize_plain [OF _ assms(2,3)] by (auto simp: canonicalize_Inr)
next
  assume "q = p \<and> node_at t p \<noteq> None"
  then show "canonicalize t p = Inr q"
    using canonicalize_self [OF assms(1)] link_freeD [OF assms(2), of p] by force
qed

lemma path_exists_plain:
  "wf_tree t \<Longrightarrow> link_free t \<Longrightarrow> list_all normal_name p \<Longrightarrow> path_exists t p \<longleftrightarrow> node_at t p \<noteq> None"
  by (simp add: path_exists_canonical canonicalize_iff)

lemma path_is_dir_plain:
  "wf_tree t \<Longrightarrow> link_free t \<Longrightarrow> list_all normal_name p \<Longrightarrow> path_is_dir t p \<longleftrightarrow> node_at t p = Some DirNode"
  by (auto simp: path_is_dir_iff canonicalize_iff)

lemma entry_place_plain:
  assumes "entry_place t p = Inr q" and "link_free t" and "list_all normal_name p"
  shows "q = p"
proof -
  note e = entry_placeD [OF assms(1)]
  have "list_all normal_name (butlast p)" using assms(3) e(6) by (auto simp: list_all_iff dest: in_set_butlastD)
  with canonicalize_plain [OF e(5) assms(2)] have "butlast q = butlast p" by simp
  with e(4,6) show ?thesis by (metis append_butlast_last_id)
qed

lemma plain_ready: "plain_storage e base t repository \<Longrightarrow> storage_ready e base t repository"
  by (simp add: plain_storage_def storage_ready_def link_free_ok path_is_dir_plain)

lemma plain_names:
  "plain_storage e base t repository \<Longrightarrow> validate location = Inr w \<Longrightarrow>
    list_all normal_name (get_path e base repository location)"
  by (simp add: plain_storage_def get_path_def repository_root_def validate_names)

lemma created_path:
  assumes "get_path_for_creation e base t repository location = Inr cp"
  shows "cp_path cp = get_path e base repository location" and "\<exists>w. validate location = Inr w"
  using assms creation_walk_path
  by (fastforce simp: get_path_for_creation_def get_path_def Let_def split: sum.splits)+

section \<open>Appending\<close>

text \<open>Between \<open>t\<close> and \<open>t'\<close> the file \<open>p\<close> is created empty when it is missing, with the directories on its
  way, and nothing else happens.\<close>

definition opened :: "fspath \<Rightarrow> tree \<Rightarrow> tree \<Rightarrow> bool" where
  "opened p t t' =
     (node_at t p \<noteq> Some DirNode \<and> node_at t' p = Some (FileNode (file_bytes t p)) \<and>
      (\<forall>q. q \<noteq> p \<longrightarrow> node_at t' q = node_at t q \<or>
           node_at t q = None \<and> node_at t' q = Some DirNode \<and> strict_prefix q p))"

text \<open>The reg \<open>p\<close> gets longer by \<open>bs\<close>.\<close>

definition file_grown :: "fspath \<Rightarrow> bytes \<Rightarrow> tree \<Rightarrow> tree \<Rightarrow> bool" where
  "file_grown p bs t t' =
     (\<forall>q. node_at t' q = (if q = p then (case node_at t p of Some (FileNode old) \<Rightarrow> Some (FileNode (old @ bs)) | n \<Rightarrow> n)
                           else node_at t q))"

lemma file_grown_Nil [simp]: "file_grown p [] t t"
  by (simp add: file_grown_def split: option.splits node.splits)

lemma file_grown_trans: "file_grown p a t u \<Longrightarrow> file_grown p b u v \<Longrightarrow> file_grown p (a @ b) t v"
  by (auto simp: file_grown_def split: option.splits node.splits)

lemma write_all_grows: "write_all k f bs s = (Inr x, t) \<Longrightarrow> file_grown f bs (disk s) (disk t)"
  by (auto simp: write_all_def Let_def file_grown_def node_at_update_file split: if_splits)

lemma plain_same_links:
  assumes "plain_storage e base t repository" and "wf_tree t'"
    and "\<And>q. is_link (node_at t' q) \<Longrightarrow> is_link (node_at t q)" and "node_at t' base = Some DirNode"
  shows "plain_storage e base t' repository"
  using assms by (auto simp: plain_storage_def link_free_def)

lemma openedD:
  assumes "opened p t t'"
  shows "node_at t p \<noteq> Some DirNode" and "node_at t' p = Some (FileNode (file_bytes t p))"
    and "q \<noteq> p \<Longrightarrow> node_at t' q = node_at t q \<or>
      node_at t q = None \<and> node_at t' q = Some DirNode \<and> strict_prefix q p"
  using assms unfolding opened_def by simp_all

lemma plain_opened:
  assumes "plain_storage e base t repository" and "wf_tree t'" and "opened p t t'"
  shows "plain_storage e base t' repository"
proof (rule plain_same_links [OF assms(1,2)])
  show "is_link (node_at t q)" if "is_link (node_at t' q)" for q
    using openedD(2) [OF assms(3)] openedD(3) [OF assms(3), of q] that by (cases "q = p") auto
  show "node_at t' base = Some DirNode"
  proof -
    have "node_at t base = Some DirNode" using assms(1) by (simp add: plain_storage_def)
    then show ?thesis using openedD(1) [OF assms(3)] openedD(3) [OF assms(3), of base] by auto
  qed
qed

lemma plain_grown:
  assumes "plain_storage e base t repository" and "wf_tree t'" and "file_grown p bs t t'"
  shows "plain_storage e base t' repository"
proof (rule plain_same_links [OF assms(1,2)])
  show "is_link (node_at t q)" if "is_link (node_at t' q)" for q
    using assms(3) that unfolding file_grown_def
    by (cases "q = p") (auto split: option.splits node.splits)
  show "node_at t' base = Some DirNode"
    using assms(1,3) unfolding file_grown_def plain_storage_def by auto
qed

lemma open_append_opens:
  assumes plain: "plain_storage e base (disk s) repository"
    and run: "open_append_handle e base repository location s = (Inr (f, p), t)"
  shows "f = get_path e base repository location" and "opened f (disk s) (disk t)"
    and "plain_storage e base (disk t) repository"
proof -
  obtain cp s1 s2 s3 where got: "get_path_for_creation e base (disk s) repository location = Inr cp"
    and mk: "make_parent cp s = (Inr (), s1)" and op: "io (open_create (cp_path cp)) s1 = (Inr f, s2)"
    and lk: "io handle_call s2 = (Inr (), s3)" and t: "t = s3"
    using run by (auto simp: open_append_handle_def bind_look bind_from_result bind_ok_Inr_iff ret_app split: sum.splits)
  obtain w where val: "validate location = Inr w" using created_path(2) [OF got] by blast
  have p: "cp_path cp = get_path e base repository location" by (rule created_path(1) [OF got])
  have names: "list_all normal_name (cp_path cp)" using plain_names [OF plain val] p by simp
  have lf: "link_free (disk s)" using plain by (simp add: plain_storage_def)
  from creation_prepared(3) [OF plain_ready [OF plain] got mk] obtain g where
    g: "place (disk s1) (cp_path cp) = Inr g" "dirs_for g (disk s) (disk s1)" by blast
  have "is_link (node_at (disk s1) q) = is_link (node_at (disk s) q)" for q
    using g(2) unfolding dirs_for_def by (metis is_link_simps(1,2))
  then have lf1: "link_free (disk s1)" using lf by (simp add: link_free_def)
  have gp: "g = cp_path cp" using place_plain [OF g(1) lf1 names] .
  have same: "disk t = disk s2"
    using lk t by (auto simp: io_Inr handle_call_def dest!: sys_Inr)
  have dirs: "node_at (disk s1) q = node_at (disk s) q \<or>
      node_at (disk s) q = None \<and> node_at (disk s1) q = Some DirNode \<and> strict_prefix q g" for q
    using g(2) unfolding dirs_for_def by blast
  have at: "node_at (disk s1) g = node_at (disk s) g" using dirs [of g] by (auto simp: strict_prefix_def)
  from op g(1) have "f = g \<and> opened g (disk s) (disk t)"
  proof (cases rule: open_create_cases)
    case (old bs)
    then show ?thesis using at dirs same by (auto simp: opened_def file_bytes_def)
  next
    case new
    then have "g \<noteq> []" by auto
    with new show ?thesis using at dirs same by (auto simp: opened_def file_bytes_def)
  qed auto
  then show fp: "f = get_path e base repository location" and opn: "opened f (disk s) (disk t)"
    using gp p by simp_all
  have "wf_tree (disk t)"
    using preservesD [OF kept_operations(3) run] plain by (simp add: tree_kept_def plain_storage_def)
  from plain_opened [OF plain this opn] show "plain_storage e base (disk t) repository" .
qed

section \<open>Moving\<close>

text \<open>Between \<open>t\<close> and \<open>t'\<close> the file \<open>a\<close> becomes the file \<open>b\<close>.\<close>

definition file_moved :: "fspath \<Rightarrow> fspath \<Rightarrow> tree \<Rightarrow> tree \<Rightarrow> bool" where
  "file_moved a b t t' =
     (\<forall>q. node_at t' q = (if q = b then node_at t a else if q = a then None else node_at t q))"

lemma rename_moves:
  assumes wf: "wf_tree (disk s)" and lf: "link_free (disk s)"
    and names: "list_all normal_name a" "list_all normal_name b"
    and reg: "node_at (disk s) a = Some (FileNode bs)" and ne: "a \<noteq> b"
    and run: "io (rename a b) s = (Inr (), t)"
  shows "file_moved a b (disk s) (disk t)"
proof -
  obtain x y where pl: "entry_place (disk s) a = Inr x" "entry_place (disk s) b = Inr y"
    and ok: "rename_error (disk s) x y = None" and t: "disk t = move_below x y (disk s)"
    using run by (auto simp: io_Inr rename_def dest!: sys_Inr split: sum.splits option.splits)
  have xy: "x = a" "y = b" using pl entry_place_plain lf names by blast+
  have ane: "a \<noteq> []" "b \<noteq> []" using entry_placeD(6) pl by blast+
  have nb: "node_at (disk s) b \<noteq> Some DirNode" and ab: "\<not> strict_prefix a b"
    using ok reg by (auto simp: rename_error_def xy split: option.splits node.splits if_splits)
  have ba: "\<not> prefix b a"
  proof
    assume "prefix b a"
    then have "strict_prefix b a" using ne by (auto simp: strict_prefix_def)
    from nothing_below [OF wf nb this] reg show False by simp
  qed
  have ab': "\<not> prefix a b" using ab ne by (auto simp: strict_prefix_def)
  have below: "node_at (disk s) q = None" if "strict_prefix a q \<or> strict_prefix b q" for q
    using that nothing_below [OF wf, of a q] nothing_below [OF wf nb, of q] reg by auto
  have "node_at (disk t) q = (if q = b then node_at (disk s) a else if q = a then None else node_at (disk s) q)" for q
  proof (cases "q = []")
    case True
    then show ?thesis using ane by simp
  next
    case False
    note m = node_at_move_below [OF ab' ba False, of "disk s"]
    have drop: "map_of (disk s) (a @ drop (length b) q) = None" if pq: "prefix b q" "q \<noteq> b"
    proof -
      have "drop (length b) q \<noteq> []" using pq by (auto simp: prefix_def)
      then have "node_at (disk s) (a @ drop (length b) q) = None"
        by (intro below) (auto simp: strict_prefix_def)
      then show ?thesis using ane by (simp add: node_at_def)
    qed
    show ?thesis
    proof (cases "prefix b q")
      case True
      then have "q \<noteq> b \<Longrightarrow> node_at (disk s) q = None" by (intro below) (simp add: strict_prefix_def)
      then show ?thesis using True m t xy ab' ba ane drop by (auto simp: node_at_def)
    next
      case False
      have "prefix a q \<Longrightarrow> q \<noteq> a \<Longrightarrow> node_at (disk s) q = None" by (intro below) (simp add: strict_prefix_def)
      then show ?thesis using False m t xy by auto
    qed
  qed
  then show ?thesis by (simp add: file_moved_def)
qed

text \<open>\<open>delete_local\<close> removes the sidecar, if there is one, and nothing else.\<close>

lemma delete_local_removes:
  assumes wf: "wf_tree (disk s)" and lf: "link_free (disk s)" and names: "list_all normal_name p" and ne: "p \<noteq> []"
    and run: "delete_local p s = (Inr (), t)"
  shows "node_at (disk t) q = (if q = meta_path (disk s) p then None else node_at (disk s) q)"
proof -
  let ?m = "meta_path (disk s) p"
  have last: "normal_name (last p)" "list_all normal_name (butlast p)"
    using names ne by (auto simp: list_all_iff dest: in_set_butlastD)
  have mn: "list_all normal_name ?m"
    using last names by (auto simp: meta_path_eq [OF ne last(1)] sidecar_normal normal_name_def)
  have nm: "path_exists (disk s) ?m \<longleftrightarrow> node_at (disk s) ?m \<noteq> None" by (rule path_exists_plain [OF wf lf mn])
  show ?thesis
  proof (cases "path_exists (disk s) ?m")
    case False
    then have "disk t = disk s" using run by (simp add: delete_local_def bind_look ret_app)
    then show ?thesis using False nm by simp
  next
    case True
    then have rm: "io (remove_file ?m) s = (Inr (), t)" using run by (simp add: delete_local_def bind_look)
    obtain x where x: "entry_place (disk s) ?m = Inr x" and reg: "node_at (disk s) x \<noteq> Some DirNode"
      using rm by (auto simp: io_Inr remove_file_def dest!: sys_Inr split: sum.splits option.splits node.splits)
    have xm: "x = ?m" by (rule entry_place_plain [OF x lf mn])
    have "disk t = remove_below ?m (disk s)" using remove_runs [OF rm x] xm by simp
    moreover have "node_at (disk s) q = None" if "strict_prefix ?m q" using nothing_below [OF wf _ that] reg xm by simp
    moreover have "?m \<noteq> []" using entry_placeD(6) [OF x] .
    ultimately show ?thesis by (auto simp: strict_prefix_def)
  qed
qed

lemma move_file_moves:
  assumes plain: "plain_storage e base (disk s) repository"
    and src: "get_path e base repository location = a" and dst: "get_path e base repository location' = b"
    and ne: "a \<noteq> b" and vis: "\<not> is_hidden_file b" and reg: "node_at (disk s) a = Some (FileNode bs)"
    and run: "move_file e base repository location location' s = (Inr True, t)"
  shows "node_at (disk t) b = Some (FileNode bs)" and "node_at (disk t) a = None"
    and "plain_storage e base (disk t) repository"
    and "\<And>q. q \<noteq> a \<Longrightarrow> q \<noteq> b \<Longrightarrow> \<not> is_hidden_file q \<Longrightarrow>
      node_at (disk t) q = node_at (disk s) q \<or> node_at (disk s) q = None \<and> node_at (disk t) q = Some DirNode"
proof -
  have wf: "wf_tree (disk s)" and lf: "link_free (disk s)" using plain by (simp_all add: plain_storage_def)
  have chk: "checked_path e base (disk s) repository location = Inr a"
    using run src by (auto simp: move_file_def bind_look bind_from_result checked_path_def Let_def
        split: sum.splits if_splits)
  then obtain w where val: "validate location = Inr w" by (auto simp: checked_path_def split: sum.splits)
  have ex: "path_exists (disk s) a"
    using run chk by (auto simp: move_file_def bind_look bind_from_result ret_app split: if_splits)
  then obtain cp s1 s2 s3 where got: "get_path_for_creation e base (disk s) repository location' = Inr cp"
    and mk: "make_parent cp s = (Inr (), s1)" and rn: "io (rename a (cp_path cp)) s1 = (Inr (), s2)"
    and dl: "delete_local a s2 = (Inr (), s3)" and same: "disk t = disk s3"
    using run chk
    by (auto simp: move_file_def bind_look bind_from_result bind_ok_Inr_iff ret_app run_post_save_file_def
        set_state_def split: sum.splits if_splits)
  obtain w' where val': "validate location' = Inr w'" using created_path(2) [OF got] by blast
  have cp: "cp_path cp = b" using created_path(1) [OF got] dst by simp
  have names: "list_all normal_name a" "list_all normal_name b"
    using plain_names [OF plain val] plain_names [OF plain val'] src dst by simp_all
  have ane: "a \<noteq> []" using reg by auto
  have "tree_kept s s1" using preservesD [OF stored_tree_frame.make_parent_kept mk] .
  then have wf1: "wf_tree (disk s1)" using wf by (simp add: tree_kept_def)
  from creation_prepared(3) [OF plain_ready [OF plain] got mk] obtain g where
    g: "dirs_for g (disk s) (disk s1)" by blast
  have grow: "node_at (disk s1) q = node_at (disk s) q \<or> node_at (disk s) q = None \<and> node_at (disk s1) q = Some DirNode" for q
    using g unfolding dirs_for_def by blast
  then have lf1: "link_free (disk s1)" using lf unfolding link_free_def by (metis is_link_simps(1,2))
  have reg1: "node_at (disk s1) a = Some (FileNode bs)" using grow [of a] reg by simp
  have moved: "file_moved a b (disk s1) (disk s2)"
    by (rule rename_moves [OF wf1 lf1 names reg1 ne]) (use rn cp in simp)
  have wf2: "wf_tree (disk s2)"
    using preservesD [OF stored_tree_frame.io_kept [OF stored_tree_frame.calls(8)] rn] wf1 by (simp add: tree_kept_def)
  have lf2: "link_free (disk s2)" using moved lf1 by (simp add: file_moved_def link_free_def)
  let ?m = "meta_path (disk s2) a"
  have rm: "node_at (disk t) q = (if q = ?m then None else node_at (disk s2) q)" for q
    using delete_local_removes [OF wf2 lf2 names(1) ane dl] same by simp
  have "normal_name (last a)" using names(1) ane by (simp add: list_all_iff)
  then have mb: "?m \<noteq> b" using meta_path_hidden [OF ane] vis by metis
  show "node_at (disk t) b = Some (FileNode bs)" using rm [of b] mb moved reg1 by (simp add: file_moved_def)
  show "node_at (disk t) a = None" using rm [of a] moved ne by (simp add: file_moved_def)
  have hm: "is_hidden_file ?m" using meta_path_hidden [OF ane \<open>normal_name (last a)\<close>] by metis
  show "node_at (disk t) q = node_at (disk s) q \<or> node_at (disk s) q = None \<and> node_at (disk t) q = Some DirNode"
    if "q \<noteq> a" "q \<noteq> b" "\<not> is_hidden_file q" for q
  proof -
    have "q \<noteq> ?m" using that(3) hm by auto
    then have "node_at (disk t) q = node_at (disk s1) q" using rm [of q] moved that(1,2) by (simp add: file_moved_def)
    then show ?thesis using grow [of q] by simp
  qed
  show "plain_storage e base (disk t) repository"
  proof (rule plain_same_links [OF plain])
    show "wf_tree (disk t)" using preservesD [OF kept_operations(5) run] wf by (simp add: tree_kept_def)
    show "is_link (node_at (disk s) q)" if "is_link (node_at (disk t) q)" for q
      using that rm [of q] lf2 by (auto simp: link_free_def split: if_splits)
    have "node_at (disk s1) base = Some DirNode" using grow [of base] plain by (auto simp: plain_storage_def)
    moreover have "base \<noteq> a" "base \<noteq> b"
      using src dst by (auto simp: get_path_def repository_root_def)
    moreover have "?m \<noteq> base"
    proof -
      have "length base < length ?m"
        using src ane \<open>normal_name (last a)\<close> by (auto simp: meta_path_eq get_path_def repository_root_def)
      then show ?thesis by auto
    qed
    ultimately show "node_at (disk t) base = Some DirNode" using rm [of base] moved by (simp add: file_moved_def)
  qed
qed

end
