(* ===== verification/DockerUploads.thy ===== *)
theory DockerUploads
  imports DockerObjects DockerManifest RepoAuth StorageContents
begin

text \<open>
  Blobs of a hosted Docker repository (pkgly/src/repository/docker/handlers.rs) and the state of an
  upload in progress (\<open>UploadState\<close> of pkgly/src/app/mod.rs, its map in pkgly/src/app/site.rs): a blob is
  uploaded in chunks that are appended to a file and hashed on the way, and the last request moves the
  file to the place its digest names. The storage is the local one. An incremental hash is represented by
  the bytes it was fed; the digests and base64 (third-party code) are the record \<open>registry_env\<close>. The
  body of a request is the list of its chunks, of which one can be an error; the writer is tokio's
  \<open>BufWriter\<close>, whose buffer is lost when it is dropped before it is flushed. A handle of an upload state
  is the key of its map: requests run one after the other.
\<close>

section \<open>Environment and errors\<close>

record registry_env =
  re_local :: local_env
  re_base :: fspath
  re_sha256 :: "bytes \<Rightarrow> bytes"
  re_md5 :: "bytes \<Rightarrow> bytes"
  re_sha1 :: "bytes \<Rightarrow> bytes"
  re_sha3 :: "bytes \<Rightarrow> bytes"
  re_base64 :: "bytes \<Rightarrow> string"
  re_base64_decode :: "string \<Rightarrow> bytes option"
  re_json :: manifest_json
  re_write_size :: nat

record docker_hosted =
  dh_id :: uuid
  dh_allow_tag_overwrite :: bool
  dh_catalog_indexing :: bool

datatype manifest_problem =
    MissingDigest
  | TruncatedEncoding
  | InvalidEncoding
  | NotAManifest
  | ExpectedFile
  | WebhookProblem
  | DeletionProblem

datatype docker_failure =
    FromStorage local_error
  | FromStream string
  | FromIndexing object_error
  | FromCatalog

datatype docker_error =
    ManifestNotFound string
  | BlobNotFound string
  | InvalidManifest manifest_problem
  | InvalidTag string
  | InvalidRepositoryName string
  | UnsupportedManifestType string
  | DigestMismatch string string
  | BlobUploadNotFound string
  | TagOverwriteNotAllowed string
  | DockerOther docker_failure

datatype response_body =
    NoBody
  | TextBody string
  | BytesBody bytes
  | RepositoriesBody "string list"
  | TagsBody string "string list"
  | ErrorBody string

record registry_response =
  rp_status :: nat
  rp_headers :: "(string \<times> string) list"
  rp_body :: response_body

definition custom_response :: "nat \<Rightarrow> (string \<times> string) list \<Rightarrow> response_body \<Rightarrow> registry_response" where
  "custom_response status headers body = \<lparr>rp_status = status, rp_headers = headers, rp_body = body\<rparr>"

definition unauthorized :: registry_response where
  "unauthorized = custom_response 401 [] (TextBody ''Unauthorized'')"

definition not_found_response :: registry_response where
  "not_found_response = custom_response 404 [] (TextBody ''Not Found'')"

fun docker_get_user :: "repository_authentication \<Rightarrow> user_safe option" where
  "docker_get_user (RAuthToken _ user) = Some user"
| "docker_get_user (RSession _ user) = Some user"
| "docker_get_user (RBasic _ user) = Some user"
| "docker_get_user (RVirtualRepository _ inner) = docker_get_user inner"
| "docker_get_user _ = None"

section \<open>Digests as text\<close>

definition hex_digit :: "nat \<Rightarrow> char" where
  "hex_digit n = (if n < 10 then char_of (48 + n) else char_of (87 + n))"

definition hex_byte :: "u8 \<Rightarrow> string" where
  "hex_byte b = [hex_digit (unat b div 16), hex_digit (unat b mod 16)]"

definition hex_text :: "bytes \<Rightarrow> string" where
  "hex_text bs = concat (map hex_byte bs)"

definition sha256_digest :: "registry_env \<Rightarrow> bytes \<Rightarrow> string" where
  "sha256_digest env bs = ''sha256:'' @ hex_text (re_sha256 env bs)"

definition is_hex :: "char \<Rightarrow> bool" where
  "is_hex c = (is_ascii_digit c \<or>
     (let n = (of_char c :: nat) in (97 \<le> n \<and> n \<le> 102) \<or> (65 \<le> n \<and> n \<le> 70)))"

definition normalize_sha256_digest :: "registry_env \<Rightarrow> string \<Rightarrow> string option" where
  "normalize_sha256_digest env raw =
     (let trimmed = trim raw
      in if length trimmed = 64 \<and> list_all is_hex trimmed then Some (to_lower trimmed)
         else case re_base64_decode env trimmed of
                Some bs \<Rightarrow> if length bs = 32 then Some (hex_text bs) else None
              | None \<Rightarrow> None)"

definition is_digest_reference :: "string \<Rightarrow> bool" where
  "is_digest_reference candidate =
     (case split_once '':'' candidate of
        None \<Rightarrow> False
      | Some (algorithm, v) \<Rightarrow> algorithm \<noteq> [] \<and> v \<noteq> [] \<and> list_all is_hex v)"

text \<open>A byte becomes the character of that number, which UTF-8 encodes in two bytes from 128 on.\<close>

definition push_char :: "char \<Rightarrow> string" where
  "push_char c =
     (let n = (of_char c :: nat)
      in if n < 128 then [c] else [char_of (192 + n div 64), char_of (128 + n mod 64)])"

definition hex_value :: "char \<Rightarrow> nat option" where
  "hex_value c =
     (let n = (of_char c :: nat)
      in if 48 \<le> n \<and> n \<le> 57 then Some (n - 48)
         else if 97 \<le> n \<and> n \<le> 102 then Some (n - 87)
         else if 65 \<le> n \<and> n \<le> 70 then Some (n - 55) else None)"

definition hex_pair_to_byte :: "char \<Rightarrow> char \<Rightarrow> char option" where
  "hex_pair_to_byte high low =
     (case hex_value high of
        None \<Rightarrow> None
      | Some h \<Rightarrow> (case hex_value low of None \<Rightarrow> None | Some l \<Rightarrow> Some (char_of (16 * h + l))))"

fun percent_decode :: "string \<Rightarrow> manifest_problem + string" where
  "percent_decode [] = Inr []"
| "percent_decode (c # rest) =
     (if c = CHR ''%'' then
        (case rest of
           hi # lo # rest' \<Rightarrow>
             (case hex_pair_to_byte hi lo of
                None \<Rightarrow> Inl InvalidEncoding
              | Some d \<Rightarrow> map_sum id (\<lambda>output. push_char d @ output) (percent_decode rest'))
         | _ \<Rightarrow> Inl TruncatedEncoding)
      else if c = CHR ''+'' then map_sum id (\<lambda>output. '' '' @ output) (percent_decode rest)
      else map_sum id (\<lambda>output. push_char c @ output) (percent_decode rest))"

section \<open>The state of an upload\<close>

record upload_state =
  us_md5 :: "bytes option"
  us_sha1 :: "bytes option"
  us_sha2 :: bytes
  us_sha3 :: "bytes option"
  us_length :: u64
  us_sha256_only :: bool

definition new_upload_state :: upload_state where
  "new_upload_state =
     \<lparr>us_md5 = Some [], us_sha1 = Some [], us_sha2 = [], us_sha3 = Some [], us_length = 0, us_sha256_only = False\<rparr>"

definition new_sha256_only :: upload_state where
  "new_sha256_only =
     \<lparr>us_md5 = None, us_sha1 = None, us_sha2 = [], us_sha3 = None, us_length = 0, us_sha256_only = True\<rparr>"

definition update_upload :: "bytes \<Rightarrow> upload_state \<Rightarrow> upload_state" where
  "update_upload chunk u =
     (if chunk = [] then u
      else u\<lparr>us_md5 := map_option (\<lambda>fed. fed @ chunk) (us_md5 u),
             us_sha1 := map_option (\<lambda>fed. fed @ chunk) (us_sha1 u),
             us_sha2 := us_sha2 u @ chunk,
             us_sha3 := map_option (\<lambda>fed. fed @ chunk) (us_sha3 u),
             us_length := us_length u + of_nat (length chunk)\<rparr>)"

record finalized_upload =
  fu_digest :: string
  fu_hashes :: file_hashes
  fu_length :: u64

definition finalize_upload :: "registry_env \<Rightarrow> upload_state \<Rightarrow> finalized_upload" where
  "finalize_upload env u =
     \<lparr>fu_digest = sha256_digest env (us_sha2 u),
      fu_hashes =
        \<lparr>fh_md5 = map_option (\<lambda>fed. re_base64 env (re_md5 env fed)) (us_md5 u),
         fh_sha1 = map_option (\<lambda>fed. re_base64 env (re_sha1 env fed)) (us_sha1 u),
         fh_sha2_256 = Some (re_base64 env (re_sha256 env (us_sha2 u))),
         fh_sha3_256 = map_option (\<lambda>fed. re_base64 env (re_sha3 env fed)) (us_sha3 u)\<rparr>,
      fu_length = us_length u\<rparr>"

record registry_db = object_db +
  upload_states :: "uuid \<times> string \<rightharpoonup> upload_state"

type_synonym ('z, 'a) docker_op = "('z registry_db_scheme, docker_error, 'a) stm"

definition storage :: "('s, local_error, 'a) stm \<Rightarrow> ('s, docker_error, 'a) stm" where
  "storage m = map_err (\<lambda>e. DockerOther (FromStorage e)) m"

definition indexing :: "('s, object_error, 'a) stm \<Rightarrow> ('s, docker_error, 'a) stm" where
  "indexing m = map_err (\<lambda>e. DockerOther (FromIndexing e)) m"

definition ensure_upload_state_handle :: "uuid \<Rightarrow> string \<Rightarrow> bool \<Rightarrow> ('z, uuid \<times> string) docker_op" where
  "ensure_upload_state_handle repository upload_id sha256_only =
     bind_ok (set_state (\<lambda>s.
       if upload_states s (repository, upload_id) = None
       then s\<lparr>upload_states := (upload_states s)((repository, upload_id) \<mapsto>
              (if sha256_only then new_sha256_only else new_upload_state))\<rparr>
       else s)) (\<lambda>_. ret (repository, upload_id))"

definition get_upload_state_handle :: "uuid \<Rightarrow> string \<Rightarrow> 'z registry_db_scheme \<Rightarrow> (uuid \<times> string) option" where
  "get_upload_state_handle repository upload_id s =
     (if upload_states s (repository, upload_id) = None then None else Some (repository, upload_id))"

definition update_upload_state_handle :: "uuid \<times> string \<Rightarrow> bytes \<Rightarrow> ('z, unit) docker_op" where
  "update_upload_state_handle handle chunk =
     set_state (\<lambda>s. s\<lparr>upload_states :=
       (upload_states s)(handle := map_option (update_upload chunk) (upload_states s handle))\<rparr>)"

definition blob_upload_state_length :: "uuid \<times> string \<Rightarrow> 'z registry_db_scheme \<Rightarrow> u64" where
  "blob_upload_state_length handle s =
     (case upload_states s handle of None \<Rightarrow> 0 | Some u \<Rightarrow> us_length u)"

definition begin_docker_blob_upload_state :: "uuid \<Rightarrow> string \<Rightarrow> ('z, unit) docker_op" where
  "begin_docker_blob_upload_state repository upload_id =
     bind_ok (ensure_upload_state_handle repository upload_id True) (\<lambda>_. ret ())"

definition abandon_blob_upload_state :: "uuid \<Rightarrow> string \<Rightarrow> ('z, unit) docker_op" where
  "abandon_blob_upload_state repository upload_id =
     set_state (\<lambda>s. s\<lparr>upload_states := (upload_states s)((repository, upload_id) := None)\<rparr>)"

definition finalize_blob_upload_state ::
  "registry_env \<Rightarrow> uuid \<Rightarrow> string \<Rightarrow> ('z, finalized_upload option) docker_op" where
  "finalize_blob_upload_state env repository upload_id =
     bind_ok (look (\<lambda>s. upload_states s (repository, upload_id))) (\<lambda>state.
     bind_ok (abandon_blob_upload_state repository upload_id) (\<lambda>_.
       ret (map_option (finalize_upload env) state)))"

section \<open>Writing a body to a file\<close>

record buf_writer =
  bw_file :: fspath
  bw_buffer :: bytes

definition local_upload_buffer_size :: nat where
  "local_upload_buffer_size = 4194304"

definition write_bytes :: "fspath \<Rightarrow> bytes \<Rightarrow> ('z, unit) docker_op" where
  "write_bytes file bs = storage (io (\<lambda>s. write_all (partial_write s) file bs s))"

definition flush_buffer :: "buf_writer \<Rightarrow> ('z, buf_writer) docker_op" where
  "flush_buffer w =
     (if bw_buffer w = [] then ret w
      else bind_ok (write_bytes (bw_file w) (bw_buffer w)) (\<lambda>_. ret (w\<lparr>bw_buffer := []\<rparr>)))"

text \<open>\<open>AsyncWriteExt::write_all\<close> on a \<open>BufWriter\<close>: the buffer is written first when the chunk does not
  fit; a chunk of the size of the buffer goes to the file directly, which takes up to
  \<open>re_write_size env + 1\<close> bytes at once.\<close>

function writer_write_all :: "registry_env \<Rightarrow> bytes \<Rightarrow> buf_writer \<Rightarrow> ('z, buf_writer) docker_op" where
  "writer_write_all env chunk w =
     (if chunk = [] then ret w
      else bind_ok (if length (bw_buffer w) + length chunk > local_upload_buffer_size
                    then flush_buffer w else ret w) (\<lambda>w.
           if length chunk \<ge> local_upload_buffer_size
           then bind_ok (write_bytes (bw_file w) (take (Suc (re_write_size env)) chunk))
                  (\<lambda>_. writer_write_all env (drop (Suc (re_write_size env)) chunk) w)
           else ret (w\<lparr>bw_buffer := bw_buffer w @ chunk\<rparr>)))"
  by pat_completeness auto
termination
  by (relation "measure (\<lambda>(env, chunk, w). length chunk)") auto

declare writer_write_all.simps [simp del]

text \<open>\<open>stream_to_writer\<close> with the closure of \<open>write_local_stream\<close>.\<close>

fun stream_to_writer ::
  "registry_env \<Rightarrow> uuid \<times> string \<Rightarrow> (string + bytes) list \<Rightarrow> buf_writer \<Rightarrow> ('z, unit) docker_op" where
  "stream_to_writer env handle [] w =
     bind_ok (flush_buffer w) (\<lambda>_. storage (io handle_call))"
| "stream_to_writer env handle (Inl err # rest) w = fail (DockerOther (FromStream err))"
| "stream_to_writer env handle (Inr chunk # rest) w =
     (if chunk = [] then stream_to_writer env handle rest w
      else bind_ok (writer_write_all env chunk w) (\<lambda>w'.
           bind_ok (update_upload_state_handle handle chunk) (\<lambda>_.
             stream_to_writer env handle rest w')))"

definition write_local_stream ::
  "registry_env \<Rightarrow> uuid \<Rightarrow> storage_path \<Rightarrow> (string + bytes) list \<Rightarrow> uuid \<times> string \<Rightarrow> ('z, u64) docker_op" where
  "write_local_stream env repository upload_path stream handle =
     bind_ok (storage (open_append_handle (re_local env) (re_base env) repository upload_path)) (\<lambda>(file, _).
     bind_ok (stream_to_writer env handle stream \<lparr>bw_file = file, bw_buffer = []\<rparr>) (\<lambda>_.
       look (blob_upload_state_length handle)))"

section \<open>Handlers\<close>

definition upload_range_header :: "u64 \<Rightarrow> string" where
  "upload_range_header total_size =
     (if total_size = 0 then ''0-0'' else ''0-'' @ show_nat (unat total_size - 1))"

definition upload_location :: "string \<Rightarrow> string \<Rightarrow> string" where
  "upload_location repository_name upload_id =
     ''/v2/'' @ repository_name @ ''/blobs/uploads/'' @ upload_id"

definition upload_path :: "string \<Rightarrow> string \<Rightarrow> storage_path" where
  "upload_path repository_name upload_id = path_from (object_path repository_name ''uploads'' upload_id)"

definition blob_path :: "string \<Rightarrow> string \<Rightarrow> storage_path" where
  "blob_path repository_name digest = path_from (object_path repository_name ''blobs'' digest)"

definition upload_response :: "nat \<Rightarrow> string \<Rightarrow> string \<Rightarrow> u64 \<Rightarrow> registry_response" where
  "upload_response status repository_name upload_id total_size =
     custom_response status
       [(''Location'', upload_location repository_name upload_id), (''Range'', upload_range_header total_size),
        (''Docker-Upload-UUID'', upload_id), (''Content-Length'', ''0'')] NoBody"

definition initiate_blob_upload ::
  "registry_env \<Rightarrow> docker_hosted \<Rightarrow> string \<Rightarrow> repository_authentication \<Rightarrow> ('z, registry_response) docker_op" where
  "initiate_blob_upload env repo repository_name authentication =
     (if docker_get_user authentication = None then ret unauthorized
      else bind_ok (storage take_id) (\<lambda>uuid.
           let upload_id = le_uuid_text (re_local env) uuid
           in bind_ok (begin_docker_blob_upload_state (dh_id repo) upload_id) (\<lambda>_.
                ret (upload_response 202 repository_name upload_id 0))))"

definition get_blob_upload_status ::
  "docker_hosted \<Rightarrow> string \<Rightarrow> string \<Rightarrow> repository_authentication \<Rightarrow> ('z, registry_response) docker_op" where
  "get_blob_upload_status repo repository_name upload_id authentication =
     (if docker_get_user authentication = None then ret unauthorized
      else bind_ok (look (get_upload_state_handle (dh_id repo) upload_id)) (\<lambda>found.
           case found of
             None \<Rightarrow> fail (BlobUploadNotFound upload_id)
           | Some handle \<Rightarrow>
               bind_ok (look (blob_upload_state_length handle)) (\<lambda>total_size.
                 ret (upload_response 204 repository_name upload_id total_size))))"

definition cancel_blob_upload ::
  "registry_env \<Rightarrow> docker_hosted \<Rightarrow> string \<Rightarrow> string \<Rightarrow> repository_authentication \<Rightarrow>
     ('z, registry_response) docker_op" where
  "cancel_blob_upload env repo repository_name upload_id authentication =
     (if docker_get_user authentication = None then ret unauthorized
      else bind_ok (look (get_upload_state_handle (dh_id repo) upload_id)) (\<lambda>found.
           if found = None then fail (BlobUploadNotFound upload_id)
           else bind_ok (storage (delete_file (re_local env) (re_base env) (dh_id repo)
                    (upload_path repository_name upload_id))) (\<lambda>_.
                bind_ok (abandon_blob_upload_state (dh_id repo) upload_id) (\<lambda>_.
                  ret (custom_response 204
                    [(''Location'', upload_location repository_name upload_id),
                     (''Docker-Upload-UUID'', upload_id), (''Content-Length'', ''0'')] NoBody)))))"

definition upload_blob_chunk ::
  "registry_env \<Rightarrow> docker_hosted \<Rightarrow> string \<Rightarrow> string \<Rightarrow> repository_authentication \<Rightarrow> (string + bytes) list \<Rightarrow>
     ('z, registry_response) docker_op" where
  "upload_blob_chunk env repo repository_name upload_id authentication body =
     (if docker_get_user authentication = None then ret unauthorized
      else bind_ok (look (get_upload_state_handle (dh_id repo) upload_id)) (\<lambda>found.
           case found of
             None \<Rightarrow> fail (BlobUploadNotFound upload_id)
           | Some handle \<Rightarrow>
               bind_ok (write_local_stream env (dh_id repo) (upload_path repository_name upload_id) body handle)
                 (\<lambda>total_size. ret (upload_response 202 repository_name upload_id total_size))))"

definition digest_parameter :: "string option \<Rightarrow> string option" where
  "digest_parameter query =
     (case query of
        None \<Rightarrow> None
      | Some q \<Rightarrow>
          (case find (starts_with ''digest='') (split_on (CHR ''&'') q) of
             None \<Rightarrow> None
           | Some param \<Rightarrow> strip_prefix ''digest='' param))"

definition record_object ::
  "docker_hosted \<Rightarrow> string \<Rightarrow> nat \<Rightarrow> string list \<Rightarrow> ('z, unit) docker_op" where
  "record_object repo path sz references =
     (if dh_catalog_indexing repo then indexing (upsert (dh_id repo) path sz references) else ret ())"

definition recompute_finalized_upload :: "registry_env \<Rightarrow> storage_file \<Rightarrow> docker_error + finalized_upload" where
  "recompute_finalized_upload env f =
     (case f of
        SDirectory _ _ \<Rightarrow> Inl (InvalidManifest ExpectedFile)
      | SFile _ content \<Rightarrow>
          Inr \<lparr>fu_digest = sha256_digest env content,
               fu_hashes = \<lparr>fh_md5 = None, fh_sha1 = None,
                            fh_sha2_256 = Some (re_base64 env (re_sha256 env content)), fh_sha3_256 = None\<rparr>,
               fu_length = of_nat (length content)\<rparr>)"

definition finalized_of_upload ::
  "registry_env \<Rightarrow> docker_hosted \<Rightarrow> string \<Rightarrow> string \<Rightarrow> ('z, finalized_upload) docker_op" where
  "finalized_of_upload env repo repository_name upload_id =
     bind_ok (finalize_blob_upload_state env (dh_id repo) upload_id) (\<lambda>result.
       case result of
         Some finalized \<Rightarrow> ret finalized
       | None \<Rightarrow>
           bind_ok (storage (open_file (re_local env) (re_base env) (dh_id repo)
                      (upload_path repository_name upload_id))) (\<lambda>opened.
             case opened of
               None \<Rightarrow> fail (BlobUploadNotFound upload_id)
             | Some upload_file \<Rightarrow> from_result (recompute_finalized_upload env upload_file)))"

definition complete_blob_upload ::
  "registry_env \<Rightarrow> docker_hosted \<Rightarrow> string \<Rightarrow> string \<Rightarrow> repository_authentication \<Rightarrow> string option \<Rightarrow>
     (string + bytes) list \<Rightarrow> ('z, registry_response) docker_op" where
  "complete_blob_upload env repo repository_name upload_id authentication query body =
     (if docker_get_user authentication = None then ret unauthorized
      else case digest_parameter query of
        None \<Rightarrow> fail (InvalidManifest MissingDigest)
      | Some raw_digest \<Rightarrow>
          (case percent_decode raw_digest of
             Inl problem \<Rightarrow> fail (InvalidManifest problem)
           | Inr digest \<Rightarrow>
               bind_ok (look (get_upload_state_handle (dh_id repo) upload_id)) (\<lambda>found.
               case found of
                 None \<Rightarrow> fail (BlobUploadNotFound upload_id)
               | Some handle \<Rightarrow>
                   bind_ok (write_local_stream env (dh_id repo) (upload_path repository_name upload_id) body handle)
                     (\<lambda>_.
                   bind_ok (finalized_of_upload env repo repository_name upload_id) (\<lambda>finalized.
                     if fu_digest finalized \<noteq> digest
                     then bind_ok (abandon_blob_upload_state (dh_id repo) upload_id) (\<lambda>_.
                          bind_ok (storage (delete_file (re_local env) (re_base env) (dh_id repo)
                                     (upload_path repository_name upload_id))) (\<lambda>_.
                            fail (DigestMismatch digest (fu_digest finalized))))
                     else
                       bind_ok (storage (register_precomputed_hash (re_local env) (re_base env) (dh_id repo)
                                  (blob_path repository_name digest) (fu_hashes finalized))) (\<lambda>_.
                       bind_ok (storage (move_file (re_local env) (re_base env) (dh_id repo)
                                  (upload_path repository_name upload_id) (blob_path repository_name digest)))
                         (\<lambda>moved.
                           if \<not> moved
                           then bind_ok (abandon_blob_upload_state (dh_id repo) upload_id) (\<lambda>_.
                                  fail (BlobUploadNotFound upload_id))
                           else bind_ok (record_object repo (path_to_string (blob_path repository_name digest))
                                           (unat (fu_length finalized)) []) (\<lambda>_.
                                  ret (custom_response 201
                                    [(''Location'', ''/v2/'' @ repository_name @ ''/blobs/'' @ digest),
                                     (''Docker-Content-Digest'', fu_digest finalized),
                                     (''Docker-Upload-UUID'', upload_id), (''Content-Length'', ''0'')] NoBody)))))))))"

text \<open>The file of a blob with its size, recorded when it is found.\<close>

definition find_blob ::
  "registry_env \<Rightarrow> docker_hosted \<Rightarrow> string \<Rightarrow> string \<Rightarrow>
     ('z, file_file_type storage_file_meta \<times> bytes) docker_op" where
  "find_blob env repo repository_name digest =
     bind_ok (storage (open_file (re_local env) (re_base env) (dh_id repo) (blob_path repository_name digest)))
       (\<lambda>opened.
         case opened of
           Some (SFile meta content) \<Rightarrow>
             bind_ok (record_object repo (path_to_string (blob_path repository_name digest))
                        (ff_size (sf_file_type meta)) []) (\<lambda>_. ret (meta, content))
         | _ \<Rightarrow> fail (BlobNotFound digest))"

definition get_blob ::
  "registry_env \<Rightarrow> docker_hosted \<Rightarrow> string \<Rightarrow> string \<Rightarrow> ('z, registry_response) docker_op" where
  "get_blob env repo repository_name digest =
     bind_ok (find_blob env repo repository_name digest) (\<lambda>(meta, content).
       ret (custom_response 200
         [(''Docker-Content-Digest'', digest), (''Content-Length'', show_nat (ff_size (sf_file_type meta))),
          (''Content-Type'', ''application/octet-stream'')] (BytesBody content)))"

definition stored_digest :: "registry_env \<Rightarrow> string \<Rightarrow> file_hashes \<Rightarrow> string" where
  "stored_digest env digest hashes =
     (case fh_sha2_256 hashes of
        None \<Rightarrow> digest
      | Some hash \<Rightarrow>
          (case normalize_sha256_digest env hash of
             None \<Rightarrow> digest
           | Some hex \<Rightarrow> ''sha256:'' @ hex))"

definition head_blob ::
  "registry_env \<Rightarrow> docker_hosted \<Rightarrow> string \<Rightarrow> string \<Rightarrow> ('z, registry_response) docker_op" where
  "head_blob env repo repository_name digest =
     bind_ok (find_blob env repo repository_name digest) (\<lambda>(meta, _).
       ret (custom_response 200
         [(''Docker-Content-Digest'', stored_digest env digest (ff_hash (sf_file_type meta))),
          (''Content-Length'', show_nat (ff_size (sf_file_type meta))),
          (''Content-Type'', ''application/octet-stream'')] NoBody))"

definition delete_blob ::
  "registry_env \<Rightarrow> docker_hosted \<Rightarrow> string \<Rightarrow> string \<Rightarrow> ('z, registry_response) docker_op" where
  "delete_blob env repo repository_name digest =
     bind_ok (storage (delete_file (re_local env) (re_base env) (dh_id repo) (blob_path repository_name digest)))
       (\<lambda>_.
     bind_ok (indexing (delete_paths (dh_id repo) [path_to_string (blob_path repository_name digest)])) (\<lambda>_.
       ret (custom_response 202 [] NoBody)))"

section \<open>The state beside the files\<close>

text \<open>The operations of the storage leave the uploads alone.\<close>

lemma rest_uploads: "rest_kept s t \<Longrightarrow> upload_states t = upload_states (s :: 'z registry_db_scheme)"
  unfolding rest_kept_def by (cases s; cases t) simp

lemma storage_Inr: "storage m s = (Inr a, t) \<longleftrightarrow> m s = (Inr a, t)"
  by (auto simp: storage_def map_err_Inr)

lemma storage_uploads:
  "preserves rest_kept m \<Longrightarrow> storage m s = (Inr a, t) \<Longrightarrow> upload_states t = upload_states (s :: 'z registry_db_scheme)"
  by (auto simp: storage_Inr intro: rest_uploads dest: preservesD)

lemma update_upload_append: "update_upload b (update_upload a u) = update_upload (a @ b) u"
  by (cases u) (auto simp: update_upload_def option.map_comp o_def)

lemma update_upload_Nil [simp]: "update_upload [] u = u"
  by (simp add: update_upload_def)

lemma update_upload_sha2 [simp]: "us_sha2 (update_upload chunk u) = us_sha2 u @ chunk"
  by (simp add: update_upload_def)

section \<open>A body that arrives completely\<close>

lemma write_bytes_grows:
  assumes "write_bytes file bs s = (Inr x, t)"
  shows "file_grown file bs (disk s) (disk t)" and "upload_states t = upload_states (s :: 'z registry_db_scheme)"
proof -
  have run: "write_all (partial_write s) file bs s = (Inr x, t)"
    using assms by (simp add: write_bytes_def storage_Inr io_Inr)
  from write_all_grows [OF this] show "file_grown file bs (disk s) (disk t)" .
  from preservesD [OF rest_frame.calls(5) run] show "upload_states t = upload_states s" by (rule rest_uploads)
qed

lemma flush_buffer_writes:
  assumes "flush_buffer w s = (Inr w', t)"
  shows "w' = w\<lparr>bw_buffer := []\<rparr>" and "file_grown (bw_file w) (bw_buffer w) (disk s) (disk t)"
    and "upload_states t = upload_states (s :: 'z registry_db_scheme)"
  using assms write_bytes_grows
  by (cases "bw_buffer w = []"; cases w; fastforce simp: flush_buffer_def ret_app bind_ok_Inr_iff)+

text \<open>What was written and what is still in the buffer is what was there and the chunk.\<close>

lemma writer_write_all_writes:
  assumes "writer_write_all env chunk w s = (Inr w', t)"
  shows "\<exists>written. file_grown (bw_file w) written (disk s) (disk t) \<and> bw_file w' = bw_file w \<and>
    written @ bw_buffer w' = bw_buffer w @ chunk \<and> upload_states t = upload_states (s :: 'z registry_db_scheme)"
  using assms
proof (induction "length chunk" arbitrary: chunk w s rule: less_induct)
  case less
  note eq = writer_write_all.simps [of env chunk w]
  show ?case
  proof (cases "chunk = []")
    case True
    with less.prems show ?thesis by (auto simp: writer_write_all.simps [of env "[]"] ret_app)
  next
    case False
    with less.prems obtain v s1 where
      fl: "(if length (bw_buffer w) + length chunk > local_upload_buffer_size then flush_buffer w else ret w) s = (Inr v, s1)"
      and run: "(if length chunk \<ge> local_upload_buffer_size
           then bind_ok (write_bytes (bw_file v) (take (Suc (re_write_size env)) chunk))
                  (\<lambda>_. writer_write_all env (drop (Suc (re_write_size env)) chunk) v)
           else ret (v\<lparr>bw_buffer := bw_buffer v @ chunk\<rparr>)) s1 = (Inr w', t)"
      by (auto simp only: eq bind_ok_Inr_iff if_False)
    have first: "\<exists>a. file_grown (bw_file w) a (disk s) (disk s1) \<and> bw_file v = bw_file w \<and>
        a @ bw_buffer v = bw_buffer w \<and> upload_states s1 = upload_states s"
      using fl flush_buffer_writes [of w s v s1] by (auto simp: ret_app split: if_splits intro: exI [of _ "[]"])
    then obtain a where a: "file_grown (bw_file w) a (disk s) (disk s1)" "bw_file v = bw_file w"
      "a @ bw_buffer v = bw_buffer w" "upload_states s1 = upload_states s" by blast
    show ?thesis
    proof (cases "length chunk \<ge> local_upload_buffer_size")
      case small: False
      with run have "w' = v\<lparr>bw_buffer := bw_buffer v @ chunk\<rparr>" "t = s1" by (auto simp: ret_app)
      with a show ?thesis by (intro exI [of _ a]) simp
    next
      case large: True
      let ?k = "Suc (re_write_size env)"
      from run large obtain s2 x where wr: "write_bytes (bw_file v) (take ?k chunk) s1 = (Inr x, s2)"
        and rest: "writer_write_all env (drop ?k chunk) v s2 = (Inr w', t)"
        by (auto simp: bind_ok_Inr_iff)
      have empty: "bw_buffer v = []"
      proof (cases "length (bw_buffer w) + length chunk > local_upload_buffer_size")
        case True
        with fl have "flush_buffer w s = (Inr v, s1)" by simp
        from flush_buffer_writes(1) [OF this] show ?thesis by simp
      next
        case False
        with large have "length (bw_buffer w) = 0" by linarith
        with fl False show ?thesis by (simp add: ret_app)
      qed
      have "length (drop ?k chunk) < length chunk" using False by simp
      from less.hyps [OF this rest] obtain b where
        b: "file_grown (bw_file v) b (disk s2) (disk t)" "bw_file w' = bw_file v"
        "b @ bw_buffer w' = bw_buffer v @ drop ?k chunk" "upload_states t = upload_states s2" by blast
      have "file_grown (bw_file w) (a @ take ?k chunk @ b) (disk s) (disk t)"
        using a(1,2) b(1) write_bytes_grows(1) [OF wr] by (auto intro: file_grown_trans)
      moreover have "(a @ take ?k chunk @ b) @ bw_buffer w' = bw_buffer w @ chunk"
        using a(3) b(3) empty by simp
      ultimately show ?thesis using a(2,4) b(2,4) write_bytes_grows(2) [OF wr] by metis
    qed
  qed
qed

lemma stream_to_writer_writes:
  assumes "stream_to_writer env handle body w s = (Inr x, t)"
  shows "\<exists>chunks. body = map Inr chunks \<and>
    file_grown (bw_file w) (bw_buffer w @ concat chunks) (disk s) (disk t) \<and>
    upload_states t = (upload_states s)(handle :=
      map_option (update_upload (concat chunks)) (upload_states (s :: 'z registry_db_scheme) handle))"
  using assms
proof (induction body arbitrary: w s)
  case Nil
  then obtain v s1 where fl: "flush_buffer w s = (Inr v, s1)" and lk: "storage (io handle_call) s1 = (Inr x, t)"
    by (auto simp: bind_ok_Inr_iff)
  have "io handle_call s1 = (Inr x, t)" using lk by (simp add: storage_Inr)
  then have "disk t = disk s1" by (auto simp: io_Inr handle_call_def dest!: sys_Inr)
  moreover have "upload_states t = upload_states s1"
    by (rule storage_uploads [OF _ lk]) (intro rest_frame.kept_intros)
  ultimately show ?case using flush_buffer_writes [OF fl] by (intro exI [of _ "[]"]) (auto simp: option.map_ident)
next
  case (Cons c body)
  show ?case
  proof (cases c)
    case (Inl e)
    with Cons.prems show ?thesis by (simp add: fail_app)
  next
    case (Inr chunk)
    show ?thesis
    proof (cases "chunk = []")
      case True
      with Inr Cons.prems have "stream_to_writer env handle body w s = (Inr x, t)" by simp
      from Cons.IH [OF this] obtain chunks where ch: "body = map Inr chunks"
        "file_grown (bw_file w) (bw_buffer w @ concat chunks) (disk s) (disk t)"
        "upload_states t = (upload_states s)(handle :=
          map_option (update_upload (concat chunks)) (upload_states s handle))" by blast
      with True Inr show ?thesis by (intro exI [of _ "[] # chunks"]) simp
    next
      case False
      with Inr Cons.prems obtain v s1 s2 where wr: "writer_write_all env chunk w s = (Inr v, s1)"
        and up: "update_upload_state_handle handle chunk s1 = (Inr (), s2)"
        and rest: "stream_to_writer env handle body v s2 = (Inr x, t)"
        by (auto simp: bind_ok_Inr_iff)
      obtain a where a: "file_grown (bw_file w) a (disk s) (disk s1)" "bw_file v = bw_file w"
        "a @ bw_buffer v = bw_buffer w @ chunk" "upload_states s1 = upload_states s"
        using writer_write_all_writes [OF wr] by blast
      have s2: "disk s2 = disk s1" "upload_states s2 =
          (upload_states s1)(handle := map_option (update_upload chunk) (upload_states s1 handle))"
        using up by (auto simp: update_upload_state_handle_def set_state_def)
      from Cons.IH [OF rest] obtain chunks where ch: "body = map Inr chunks"
        "file_grown (bw_file v) (bw_buffer v @ concat chunks) (disk s2) (disk t)"
        "upload_states t = (upload_states s2)(handle :=
          map_option (update_upload (concat chunks)) (upload_states s2 handle))" by blast
      have "file_grown (bw_file w) (a @ bw_buffer v @ concat chunks) (disk s) (disk t)"
        using a(1,2) ch(2) s2(1) by (auto intro: file_grown_trans)
      then have "file_grown (bw_file w) (bw_buffer w @ concat (chunk # chunks)) (disk s) (disk t)"
        using a(3) by (metis append.assoc concat.simps(2))
      moreover have "upload_states t = (upload_states s)(handle :=
          map_option (update_upload (concat (chunk # chunks))) (upload_states s handle))"
        unfolding ch(3) s2(2) a(4)
        by (rule ext) (simp add: option.map_comp o_def update_upload_append)
      ultimately show ?thesis using Inr ch(1) by (intro exI [of _ "chunk # chunks"]) simp
    qed
  qed
qed

end
