(* ===== verification/UploadIntegrity.thy ===== *)
theory UploadIntegrity
  imports DockerUploads
begin

text \<open>
  What a sequence of upload requests to a hosted Docker repository leaves in a storage without symbolic
  links: the file of every upload in progress has the bytes its hash was fed, a completed upload is the
  file its digest names with exactly the bytes of its requests, and the blobs stay addressed by their
  content. Two runs show what the code relies on for that: that no body breaks off, and that an upload is
  completed under the name of the image it was begun for.
\<close>

section \<open>The files of uploads and blobs\<close>

definition upload_file :: "registry_env \<Rightarrow> docker_hosted \<Rightarrow> string \<Rightarrow> string \<Rightarrow> fspath" where
  "upload_file env repo name upload_id = get_path (re_local env) (re_base env) (dh_id repo) (upload_path name upload_id)"

definition blob_file :: "registry_env \<Rightarrow> docker_hosted \<Rightarrow> string \<Rightarrow> string \<Rightarrow> fspath" where
  "blob_file env repo name digest = get_path (re_local env) (re_base env) (dh_id repo) (blob_path name digest)"

text \<open>A text that is one component of a path and not the name of a sidecar.\<close>

definition one_name :: "string \<Rightarrow> bool" where
  "one_name w = (w \<noteq> [] \<and> CHR ''/'' \<notin> set w \<and> \<not> is_hidden_file [w])"

lemma path_pieces_append: "path_pieces (x @ CHR ''/'' # y) = path_pieces x @ path_pieces y"
  by (simp add: path_pieces_def split_on_append)

lemma path_pieces_one: "w \<noteq> [] \<Longrightarrow> CHR ''/'' \<notin> set w \<Longrightarrow> path_pieces w = [w]"
  by (simp add: path_pieces_def split_on_no_sep)

lemma object_path_pieces:
  assumes "one_name r" and "one_name kind"
  shows "path_pieces (object_path name kind r) = ''v2'' # path_pieces name @ [kind, r]"
proof -
  have "object_path name kind r = ''v2'' @ CHR ''/'' # (name @ CHR ''/'' # (kind @ CHR ''/'' # r))"
    by (simp add: object_path_def)
  then have "path_pieces (object_path name kind r) =
      path_pieces ''v2'' @ path_pieces name @ path_pieces kind @ path_pieces r"
    by (simp only: path_pieces_append)
  moreover have "path_pieces ''v2'' = [''v2'']" by code_simp
  ultimately show ?thesis using assms by (simp add: path_pieces_one one_name_def)
qed

lemma kinds [simp]: "one_name ''uploads''" "one_name ''blobs''"
  by code_simp+

lemma upload_file_eq:
  "one_name i \<Longrightarrow> upload_file env repo name i =
     repository_root (re_local env) (re_base env) (dh_id repo) @ ''v2'' # path_pieces name @ [''uploads'', i]"
  by (simp add: upload_file_def upload_path_def get_path_def path_from_components object_path_pieces)

lemma blob_file_eq:
  "one_name d \<Longrightarrow> blob_file env repo name d =
     repository_root (re_local env) (re_base env) (dh_id repo) @ ''v2'' # path_pieces name @ [''blobs'', d]"
  by (simp add: blob_file_def blob_path_def get_path_def path_from_components object_path_pieces)

lemma hidden_snoc: "is_hidden_file (p @ [w]) = is_hidden_file [w]"
  using hidden_last [of "[w]" p] by simp

lemma files_shown:
  "one_name i \<Longrightarrow> \<not> is_hidden_file (upload_file env repo name i)"
  "one_name i \<Longrightarrow> \<not> is_hidden_file (blob_file env repo name i)"
  using hidden_snoc [of "repository_root (re_local env) (re_base env) (dh_id repo) @ ''v2'' # path_pieces name @ [_]" i]
  by (simp_all add: upload_file_eq blob_file_eq one_name_def)

lemma files_differ:
  assumes "one_name i" and "one_name j"
  shows "upload_file env repo name i = upload_file env repo name' j \<Longrightarrow> i = j"
    and "upload_file env repo name i \<noteq> blob_file env repo name' j"
    and "blob_file env repo name i = blob_file env repo name' j \<Longrightarrow> i = j"
proof -
  note eqs = upload_file_eq [OF assms(1)] upload_file_eq [OF assms(2)] blob_file_eq [OF assms(1)] blob_file_eq [OF assms(2)]
  show "upload_file env repo name i = upload_file env repo name' j \<Longrightarrow> i = j"
    and "blob_file env repo name i = blob_file env repo name' j \<Longrightarrow> i = j"
    unfolding eqs by (drule arg_cong [of _ _ last], simp)+
  show "upload_file env repo name i \<noteq> blob_file env repo name' j"
  proof
    assume "upload_file env repo name i = blob_file env repo name' j"
    then have "last (butlast (upload_file env repo name i)) = last (butlast (blob_file env repo name' j))" by simp
    then show False unfolding eqs by (simp add: butlast_append)
  qed
qed

section \<open>Digests are names\<close>

lemma hex_digit_code: "n < 16 \<Longrightarrow> of_char (hex_digit n) \<in> {48 ..< 58} \<union> {97 ..< 103 :: nat}"
  by (auto simp: hex_digit_def)

lemma hex_byte_chars: "c \<in> set (hex_byte b) \<Longrightarrow> of_char c \<in> {48 ..< 58} \<union> {97 ..< 103 :: nat}"
proof -
  have "unat b < 256" using unsigned_less [where ?'a = nat, of b] by simp
  then have "unat b div 16 < 16" "unat b mod 16 < 16" by auto
  note codes = this [THEN hex_digit_code]
  assume "c \<in> set (hex_byte b)"
  then have "c = hex_digit (unat b div 16) \<or> c = hex_digit (unat b mod 16)" by (simp add: hex_byte_def)
  then show "of_char c \<in> {48 ..< 58} \<union> {97 ..< 103 :: nat}" using codes by (elim disjE) simp_all
qed

lemma hex_text_plain: "CHR ''/'' \<notin> set (hex_text bs)" "CHR ''.'' \<notin> set (hex_text bs)"
  using hex_byte_chars by (fastforce simp: hex_text_def)+

lemma digest_plain: "CHR ''/'' \<notin> set (sha256_digest env bs)" "CHR ''.'' \<notin> set (sha256_digest env bs)"
  using hex_text_plain by (auto simp: sha256_digest_def)

lemma digest_name: "one_name (sha256_digest env bs)"
proof -
  let ?d = "sha256_digest env bs"
  have "?d \<noteq> ''.nr-meta''" "?d \<noteq> ''..''" by (simp_all add: sha256_digest_def)
  moreover have "\<not> contains_str ''.nr-meta.tmp-'' ?d"
    using digest_plain(2) [of env bs] by (auto simp: contains_str_iff)
  moreover have "name_extension ?d = None"
    using digest_plain(2) [of env bs] by (auto simp: name_extension_def rsplit_once_char split: option.splits)
  ultimately have "\<not> is_hidden_file [?d]" by (simp add: is_hidden_file_def extension_def file_name_def)
  then show ?thesis using digest_plain(1) by (simp add: one_name_def sha256_digest_def)
qed


section \<open>One body\<close>

text \<open>Between \<open>t\<close> and \<open>t'\<close> the file \<open>p\<close> gets longer by \<open>bs\<close>; it and its directories may be new.\<close>

definition appended :: "fspath \<Rightarrow> bytes \<Rightarrow> tree \<Rightarrow> tree \<Rightarrow> bool" where
  "appended p bs t t' =
     (node_at t' p = Some (FileNode (file_bytes t p @ bs)) \<and>
      (\<forall>q. q \<noteq> p \<longrightarrow> node_at t' q = node_at t q \<or> node_at t q = None \<and> node_at t' q = Some DirNode))"

lemma opened_grown_appended: "opened p t u \<Longrightarrow> file_grown p bs u v \<Longrightarrow> appended p bs t v"
  by (auto simp: opened_def file_grown_def appended_def)

text \<open>Writing keeps the tree well-formed.\<close>

lemma write_bytes_kept: "preserves tree_kept (write_bytes f bs)"
proof -
  have "preserves tree_kept (\<lambda>s. write_all (partial_write s) f bs s)"
    by (rule preservesI) (rule preservesD [OF stored_tree_frame.calls(5)])
  then show ?thesis
    unfolding write_bytes_def storage_def
    by (intro tree_frame.frame_map_err stored_tree_frame.io_kept)
qed

lemma flush_buffer_kept: "preserves tree_kept (flush_buffer w)"
  unfolding flush_buffer_def by (intro stored_tree_frame.kept_intros write_bytes_kept)

lemma writer_write_all_kept: "preserves tree_kept (writer_write_all env chunk w)"
proof (induction env chunk w rule: writer_write_all.induct)
  case (1 env chunk w)
  note eq = writer_write_all.simps [of env chunk w]
  consider (none) "chunk = []" | (small) "chunk \<noteq> []" "\<not> length chunk \<ge> local_upload_buffer_size"
    | (large) "chunk \<noteq> []" "length chunk \<ge> local_upload_buffer_size" by blast
  then show ?case
  proof cases
    case none
    then show ?thesis by (subst eq) (simp add: tree_frame.frame_pure)
  next
    case small
    then show ?thesis
      by (simp only: eq if_False) (intro stored_tree_frame.kept_intros flush_buffer_kept)
  next
    case large
    then show ?thesis
      by (simp only: eq if_False if_True) (intro stored_tree_frame.kept_intros flush_buffer_kept write_bytes_kept 1; simp)
  qed
qed

lemma stream_to_writer_kept: "preserves tree_kept (stream_to_writer env handle body w)"
proof (induction env handle body w rule: stream_to_writer.induct)
  case (1 env handle w)
  show ?case
    unfolding stream_to_writer.simps storage_def
    by (intro stored_tree_frame.kept_intros tree_frame.frame_map_err flush_buffer_kept)
next
  case (3 env handle chunk rest w)
  have "preserves tree_kept (update_upload_state_handle handle chunk)"
    by (auto simp: update_upload_state_handle_def preserves_def set_state_def tree_kept_def)
  with 3 show ?case
    by (cases "chunk = []") (auto intro!: tree_frame.frame_bind writer_write_all_kept)
qed (simp add: stored_tree_frame.kept_intros)

lemma write_local_stream_appends:
  fixes s :: "'z registry_db_scheme"
  assumes plain: "plain_storage (re_local env) (re_base env) (disk s) repository"
    and known: "upload_states s handle = Some u"
    and run: "write_local_stream env repository location body handle s = (Inr n, t)"
  obtains chunks where "body = map Inr chunks"
    and "appended (get_path (re_local env) (re_base env) repository location) (concat chunks) (disk s) (disk t)"
    and "upload_states t = (upload_states s)(handle \<mapsto> update_upload (concat chunks) u)"
    and "n = us_length (update_upload (concat chunks) u)"
    and "plain_storage (re_local env) (re_base env) (disk t) repository"
proof -
  let ?f = "get_path (re_local env) (re_base env) repository location"
  obtain f p s1 x where op: "open_append_handle (re_local env) (re_base env) repository location s = (Inr (f, p), s1)"
    and st: "stream_to_writer env handle body \<lparr>bw_file = f, bw_buffer = []\<rparr> s1 = (Inr x, t)"
    and n: "n = blob_upload_state_length handle t"
    using run by (auto simp: write_local_stream_def bind_ok_Inr_iff storage_Inr look_def ret_app)
  note o = open_append_opens [OF plain op]
  have up: "upload_states s1 = upload_states s"
    by (rule rest_uploads) (rule preservesD [OF rest_frame.kept_operations(3) op])
  from stream_to_writer_writes [OF st] obtain chunks where ch: "body = map Inr chunks"
    "file_grown f (concat chunks) (disk s1) (disk t)"
    "upload_states t = (upload_states s1)(handle := map_option (update_upload (concat chunks)) (upload_states s1 handle))"
    by auto
  have states: "upload_states t = (upload_states s)(handle \<mapsto> update_upload (concat chunks) u)"
    using ch(3) up known by simp
  have "wf_tree (disk t)"
    using preservesD [OF stream_to_writer_kept st] o(3) by (simp add: tree_kept_def plain_storage_def)
  then have "plain_storage (re_local env) (re_base env) (disk t) repository" by (rule plain_grown [OF o(3) _ ch(2)])
  moreover have "appended ?f (concat chunks) (disk s) (disk t)"
    using opened_grown_appended [OF o(2) ch(2)] o(1) by simp
  ultimately show thesis using that ch(1) states n by (simp add: blob_upload_state_length_def)
qed

section \<open>The catalogue beside the files\<close>

definition files_same :: "'z registry_db_scheme \<Rightarrow> 'z registry_db_scheme \<Rightarrow> bool" where
  "files_same s t = (disk t = disk s \<and> upload_states t = upload_states s)"

interpretation files_frame: frame files_same
  by unfold_locales (auto simp: files_same_def)

lemma record_object_same: "preserves files_same (record_object repo path n references)"
proof -
  have "preserves files_same (upsert (dh_id repo) path n references)"
    unfolding upsert_def
    by (intro files_frame.frame_bind files_frame.frame_pure files_frame.frame_try)
      (auto simp: files_same_def split: option.splits if_splits sum.splits)
  then show ?thesis
    unfolding record_object_def indexing_def
    by (intro files_frame.frame_if files_frame.frame_map_err files_frame.frame_pure)
qed

lemma abandon_app:
  "abandon_blob_upload_state repository i s =
     (Inr (), s\<lparr>upload_states := (upload_states s)((repository, i) := None)\<rparr>)"
  by (simp add: abandon_blob_upload_state_def set_state_def)

lemma finalized_of_known:
  assumes "upload_states s (dh_id repo, i) = Some u"
  shows "finalized_of_upload env repo name i s =
    (Inr (finalize_upload env u), s\<lparr>upload_states := (upload_states s)((dh_id repo, i) := None)\<rparr>)"
  using assms by (simp add: finalized_of_upload_def finalize_blob_upload_state_def look_def bind_ok_def abandon_app ret_app)

section \<open>The last request of an upload\<close>

lemma complete_blob_upload_stores:
  fixes s :: "'z registry_db_scheme"
  assumes plain: "plain_storage (re_local env) (re_base env) (disk s) (dh_id repo)"
    and known: "upload_states s (dh_id repo, i) = Some u" and name: "one_name i"
    and old: "file_bytes (disk s) (upload_file env repo name i) = old"
    and user: "docker_get_user authentication \<noteq> None"
    and run: "complete_blob_upload env repo name i authentication query body s = (Inr r, t)"
  obtains chunks raw digest where "body = map Inr chunks"
    and "digest_parameter query = Some raw" and "percent_decode raw = Inr digest"
    and "digest = sha256_digest env (us_sha2 u @ concat chunks)"
    and "node_at (disk t) (blob_file env repo name digest) = Some (FileNode (old @ concat chunks))"
    and "node_at (disk t) (upload_file env repo name i) = None"
    and "\<forall>q. q \<noteq> upload_file env repo name i \<longrightarrow> q \<noteq> blob_file env repo name digest \<longrightarrow> \<not> is_hidden_file q \<longrightarrow>
      node_at (disk t) q = node_at (disk s) q \<or> node_at (disk s) q = None \<and> node_at (disk t) q = Some DirNode"
    and "upload_states t = (upload_states s)((dh_id repo, i) := None)"
    and "plain_storage (re_local env) (re_base env) (disk t) (dh_id repo)"
    and "rp_status r = 201" and "(''Docker-Content-Digest'', digest) \<in> set (rp_headers r)"
proof -
  let ?h = "(dh_id repo, i)" and ?a = "upload_file env repo name i"
  obtain raw digest where dig: "digest_parameter query = Some raw" "percent_decode raw = Inr digest"
    using run user by (auto simp: complete_blob_upload_def fail_def split: option.splits sum.splits)
  have handle: "get_upload_state_handle (dh_id repo) i s = Some ?h" using known by (simp add: get_upload_state_handle_def)
  obtain n s1 where wr: "write_local_stream env (dh_id repo) (upload_path name i) body ?h s = (Inr n, s1)"
    using run user dig handle by (auto simp: complete_blob_upload_def bind_look bind_ok_Inr_iff)
  from write_local_stream_appends [OF plain known wr] obtain chunks where ch: "body = map Inr chunks"
    and grown: "appended ?a (concat chunks) (disk s) (disk s1)"
    and st1: "upload_states s1 = (upload_states s)(?h \<mapsto> update_upload (concat chunks) u)"
    and plain1: "plain_storage (re_local env) (re_base env) (disk s1) (dh_id repo)"
    unfolding upload_file_def by metis
  let ?c = "us_sha2 u @ concat chunks" and ?o = "old @ concat chunks" and ?u = "update_upload (concat chunks) u"
  let ?b = "blob_file env repo name digest"
  define s2 where "s2 = s1\<lparr>upload_states := (upload_states s1)(?h := None)\<rparr>"
  have fin: "finalized_of_upload env repo name i s1 = (Inr (finalize_upload env ?u), s2)"
    unfolding s2_def by (rule finalized_of_known) (simp add: st1)
  have digest: "fu_digest (finalize_upload env ?u) = sha256_digest env ?c" by (simp add: finalize_upload_def)
  have match: "digest = sha256_digest env ?c"
    using run user dig handle wr fin digest
    by (auto simp: complete_blob_upload_def bind_look bind_ok_Inr_iff fail_def split: if_splits)
  obtain s3 x where reg: "register_precomputed_hash (re_local env) (re_base env) (dh_id repo) (blob_path name digest)
        (fu_hashes (finalize_upload env ?u)) s2 = (Inr x, s3)"
    and rest: "bind_ok (storage (move_file (re_local env) (re_base env) (dh_id repo) (upload_path name i) (blob_path name digest)))
       (\<lambda>moved. if \<not> moved
          then bind_ok (abandon_blob_upload_state (dh_id repo) i) (\<lambda>_. fail (BlobUploadNotFound i))
          else bind_ok (record_object repo (path_to_string (blob_path name digest))
                  (unat (fu_length (finalize_upload env ?u))) []) (\<lambda>_.
                 ret (custom_response 201
                   [(''Location'', ''/v2/'' @ name @ ''/blobs/'' @ digest),
                    (''Docker-Content-Digest'', fu_digest (finalize_upload env ?u)),
                    (''Docker-Upload-UUID'', i), (''Content-Length'', ''0'')] NoBody))) s3 = (Inr r, t)"
    using run user dig handle wr fin digest match
    by (auto simp: complete_blob_upload_def bind_look bind_ok_Inr_iff storage_Inr)
  obtain s4 where mv: "move_file (re_local env) (re_base env) (dh_id repo) (upload_path name i) (blob_path name digest) s3 = (Inr True, s4)"
    and cat: "record_object repo (path_to_string (blob_path name digest)) (unat (fu_length (finalize_upload env ?u))) [] s4 = (Inr (), t)"
    and r: "r = custom_response 201
                   [(''Location'', ''/v2/'' @ name @ ''/blobs/'' @ digest),
                    (''Docker-Content-Digest'', fu_digest (finalize_upload env ?u)),
                    (''Docker-Upload-UUID'', i), (''Content-Length'', ''0'')] NoBody"
    using rest by (auto simp: bind_ok_Inr_iff storage_Inr ret_app fail_def split: if_splits)
  have s3: "disk s3 = disk s1" "upload_states s3 = (upload_states s)(?h := None)"
    using reg st1 unfolding s2_def register_precomputed_hash_def set_state_def by (auto split: sum.splits)
  have t: "disk t = disk s4" "upload_states t = upload_states s4"
    using preservesD [OF record_object_same cat] by (simp_all add: files_same_def)
  have up: "upload_states s4 = upload_states s3"
    by (rule rest_uploads) (rule preservesD [OF rest_frame.kept_operations(5) mv])
  have names: "one_name digest" using digest_name match by simp
  have differ: "?a \<noteq> ?b" by (rule files_differ(2) [OF name names])
  have reg1: "node_at (disk s3) ?a = Some (FileNode ?o)" using grown old s3(1) by (simp add: appended_def)
  note moved = move_file_moves [OF _ _ _ differ files_shown(2) [OF names] reg1 mv,
      unfolded s3(1), OF plain1 upload_file_def [symmetric] blob_file_def [symmetric]]
  show thesis
  proof (rule that [OF ch dig match])
    show "node_at (disk t) ?b = Some (FileNode ?o)" "node_at (disk t) ?a = None"
      "plain_storage (re_local env) (re_base env) (disk t) (dh_id repo)"
      using moved(1-3) t(1) by simp_all
    have "node_at (disk t) q = node_at (disk s) q \<or> node_at (disk s) q = None \<and> node_at (disk t) q = Some DirNode"
      if "q \<noteq> ?a" "q \<noteq> ?b" "\<not> is_hidden_file q" for q
      using moved(4) [OF that] grown that(1) t(1) unfolding appended_def by metis
    then show "\<forall>q. q \<noteq> ?a \<longrightarrow> q \<noteq> ?b \<longrightarrow> \<not> is_hidden_file q \<longrightarrow>
      node_at (disk t) q = node_at (disk s) q \<or> node_at (disk s) q = None \<and> node_at (disk t) q = Some DirNode" by blast
    show "upload_states t = (upload_states s)(?h := None)" using t(2) up s3(2) by simp
    show "rp_status r = 201" "(''Docker-Content-Digest'', digest) \<in> set (rp_headers r)"
      using r digest match by (simp_all add: custom_response_def)
  qed
qed

section \<open>Sequences of requests\<close>

definition body_bytes :: "(string + bytes) list \<Rightarrow> bytes" where
  "body_bytes body = concat (map (case_sum (\<lambda>_. []) id) body)"

lemma body_bytes_Inr [simp]: "body_bytes (map Inr chunks) = concat chunks"
  by (simp add: body_bytes_def o_def)

definition fed :: "string \<Rightarrow> (string \<times> bytes) list \<Rightarrow> bytes" where
  "fed i log = concat (map snd (filter (\<lambda>e. fst e = i) log))"

lemma fed_simps [simp]: "fed i [] = []" "fed i (log @ [(j, bs)]) = fed i log @ (if j = i then bs else [])"
  by (simp_all add: fed_def)

lemma fed_new: "i \<notin> fst ` set log \<Longrightarrow> fed i log = []"
  by (force simp: fed_def)

text \<open>Requests that succeed, one after the other; \<open>image_of\<close> names the image every upload is for, and the log
  has the bytes that came for each upload. A new upload has an identifier that was never used.\<close>

inductive served ::
  "registry_env \<Rightarrow> docker_hosted \<Rightarrow> (string \<Rightarrow> string) \<Rightarrow> 'z registry_db_scheme \<Rightarrow>
     (string \<times> bytes) list \<Rightarrow> 'z registry_db_scheme \<Rightarrow> bool" for env repo image_of s where
  served_nothing: "served env repo image_of s [] s"
| served_initiate:
    "served env repo image_of s log t \<Longrightarrow> new_ids t = n # ids \<Longrightarrow> i = le_uuid_text (re_local env) n \<Longrightarrow> one_name i \<Longrightarrow>
     i \<notin> fst ` set log \<Longrightarrow> upload_states t (dh_id repo, i) = None \<Longrightarrow>
     file_bytes (disk t) (upload_file env repo (image_of i) i) = [] \<Longrightarrow>
     initiate_blob_upload env repo name authentication t = (Inr r, t') \<Longrightarrow> served env repo image_of s log t'"
| served_chunk:
    "served env repo image_of s log t \<Longrightarrow> docker_get_user authentication \<noteq> None \<Longrightarrow>
     upload_blob_chunk env repo (image_of i) i authentication body t = (Inr r, t') \<Longrightarrow>
     served env repo image_of s (log @ [(i, body_bytes body)]) t'"
| served_complete:
    "served env repo image_of s log t \<Longrightarrow> docker_get_user authentication \<noteq> None \<Longrightarrow>
     complete_blob_upload env repo (image_of i) i authentication query body t = (Inr r, t') \<Longrightarrow>
     served env repo image_of s (log @ [(i, body_bytes body)]) t'"

definition upload_synced ::
  "registry_env \<Rightarrow> docker_hosted \<Rightarrow> (string \<Rightarrow> string) \<Rightarrow> (string \<times> bytes) list \<Rightarrow> tree \<Rightarrow> string \<Rightarrow> upload_state \<Rightarrow> bool" where
  "upload_synced env repo image_of log t i u =
     (one_name i \<and> us_sha2 u = fed i log \<and> us_length u = of_nat (length (us_sha2 u)) \<and>
      file_bytes t (upload_file env repo (image_of i) i) = us_sha2 u)"

definition content_addressed :: "registry_env \<Rightarrow> docker_hosted \<Rightarrow> tree \<Rightarrow> bool" where
  "content_addressed env repo t =
     (\<forall>name d c. one_name d \<longrightarrow> node_at t (blob_file env repo name d) = Some (FileNode c) \<longrightarrow> d = sha256_digest env c)"

definition uploads_ok ::
  "registry_env \<Rightarrow> docker_hosted \<Rightarrow> (string \<Rightarrow> string) \<Rightarrow> (string \<times> bytes) list \<Rightarrow> 'z registry_db_scheme \<Rightarrow> bool" where
  "uploads_ok env repo image_of log s =
     (plain_storage (re_local env) (re_base env) (disk s) (dh_id repo) \<and> content_addressed env repo (disk s) \<and>
      (\<forall>i u. upload_states s (dh_id repo, i) = Some u \<longrightarrow> upload_synced env repo image_of log (disk s) i u))"

lemma uploads_okD:
  assumes "uploads_ok env repo image_of log s"
  shows "plain_storage (re_local env) (re_base env) (disk s) (dh_id repo)"
    and "content_addressed env repo (disk s)"
    and "upload_states s (dh_id repo, i) = Some u \<Longrightarrow> upload_synced env repo image_of log (disk s) i u"
  using assms by (simp_all add: uploads_ok_def)

lemma content_addressedD:
  "content_addressed env repo t \<Longrightarrow> one_name d \<Longrightarrow> node_at t (blob_file env repo name d) = Some (FileNode c) \<Longrightarrow>
     d = sha256_digest env c"
  by (simp add: content_addressed_def)

lemma update_upload_length:
  "us_length u = of_nat (length (us_sha2 u)) \<Longrightarrow>
     us_length (update_upload bs u) = of_nat (length (us_sha2 (update_upload bs u)))"
  by (simp add: update_upload_def)

lemma grown_or_dir: "node_at t' q = node_at t q \<or> node_at t q = None \<and> node_at t' q = Some DirNode \<Longrightarrow> file_bytes t' q = file_bytes t q"
  by (auto simp: file_bytes_def)

lemma older_file:
  "node_at t' q = node_at t q \<or> node_at t q = None \<and> node_at t' q = Some DirNode \<Longrightarrow>
     node_at t' q = Some (FileNode c) \<Longrightarrow> node_at t q = Some (FileNode c)"
  by auto

text \<open>An upload that the request is not about.\<close>

lemma other_upload_synced:
  assumes "upload_synced env repo image_of log t j u" and "j \<noteq> i"
    and "file_bytes t' (upload_file env repo (image_of j) j) = file_bytes t (upload_file env repo (image_of j) j)"
  shows "upload_synced env repo image_of (log @ [(i, bs)]) t' j u"
  using assms by (simp add: upload_synced_def)

lemma uploads_ok_chunk:
  fixes s t :: "'z registry_db_scheme"
  assumes ok: "uploads_ok env repo image_of log s" and user: "docker_get_user authentication \<noteq> None"
    and run: "upload_blob_chunk env repo (image_of i) i authentication body s = (Inr r, t)"
  shows "uploads_ok env repo image_of (log @ [(i, body_bytes body)]) t"
proof -
  obtain u where known: "upload_states s (dh_id repo, i) = Some u"
    using run user
    by (cases "upload_states s (dh_id repo, i)")
      (auto simp: upload_blob_chunk_def bind_look get_upload_state_handle_def fail_def)
  note u = uploads_okD(3) [OF ok known, unfolded upload_synced_def]
  obtain n where wr: "write_local_stream env (dh_id repo) (upload_path (image_of i) i) body (dh_id repo, i) s = (Inr n, t)"
    using run user known
    by (auto simp: upload_blob_chunk_def bind_look get_upload_state_handle_def bind_ok_Inr_iff ret_app)
  from write_local_stream_appends [OF uploads_okD(1) [OF ok] known wr] obtain chunks where ch: "body = map Inr chunks"
    and grown: "appended (upload_file env repo (image_of i) i) (concat chunks) (disk s) (disk t)"
    and st: "upload_states t = (upload_states s)((dh_id repo, i) \<mapsto> update_upload (concat chunks) u)"
    and plain: "plain_storage (re_local env) (re_base env) (disk t) (dh_id repo)"
    unfolding upload_file_def by metis
  have other: "node_at (disk t) q = node_at (disk s) q \<or> node_at (disk s) q = None \<and> node_at (disk t) q = Some DirNode"
    if "q \<noteq> upload_file env repo (image_of i) i" for q
    using grown that by (simp add: appended_def)
  have "content_addressed env repo (disk t)"
    unfolding content_addressed_def
  proof (intro allI impI)
    fix name d c assume d: "one_name d" and at: "node_at (disk t) (blob_file env repo name d) = Some (FileNode c)"
    have "blob_file env repo name d \<noteq> upload_file env repo (image_of i) i"
      using files_differ(2) [OF conjunct1 [OF u] d] by metis
    from older_file [OF other [OF this] at] show "d = sha256_digest env c"
      by (rule content_addressedD [OF uploads_okD(2) [OF ok] d])
  qed
  moreover have "upload_synced env repo image_of (log @ [(i, body_bytes body)]) (disk t) j v"
    if v: "upload_states t (dh_id repo, j) = Some v" for j v
  proof (cases "j = i")
    case True
    with v st have "v = update_upload (concat chunks) u" by simp
    with True u ch grown update_upload_length [of u "concat chunks"] show ?thesis
      by (simp add: upload_synced_def appended_def file_bytes_def)
  next
    case False
    with v st have w: "upload_states s (dh_id repo, j) = Some v" by simp
    note sync = uploads_okD(3) [OF ok w]
    have "upload_file env repo (image_of j) j \<noteq> upload_file env repo (image_of i) i"
      using files_differ(1) [of j i env repo "image_of j" "image_of i"] False u sync by (auto simp: upload_synced_def)
    from other_upload_synced [OF sync False grown_or_dir [OF other [OF this]]] show ?thesis .
  qed
  ultimately show ?thesis using plain by (simp add: uploads_ok_def)
qed

lemma uploads_ok_complete:
  fixes s t :: "'z registry_db_scheme"
  assumes ok: "uploads_ok env repo image_of log s" and user: "docker_get_user authentication \<noteq> None"
    and run: "complete_blob_upload env repo (image_of i) i authentication query body s = (Inr r, t)"
  shows "uploads_ok env repo image_of (log @ [(i, body_bytes body)]) t"
    and "\<exists>raw. digest_parameter query = Some raw \<and>
      percent_decode raw = Inr (sha256_digest env (fed i log @ body_bytes body))"
    and "node_at (disk t) (blob_file env repo (image_of i) (sha256_digest env (fed i log @ body_bytes body))) =
      Some (FileNode (fed i log @ body_bytes body))"
    and "node_at (disk t) (upload_file env repo (image_of i) i) = None"
    and "upload_states t (dh_id repo, i) = None"
    and "rp_status r = 201"
    and "(''Docker-Content-Digest'', sha256_digest env (fed i log @ body_bytes body)) \<in> set (rp_headers r)"
proof -
  obtain u where known: "upload_states s (dh_id repo, i) = Some u"
    using run user
    by (cases "upload_states s (dh_id repo, i)")
      (auto simp: complete_blob_upload_def bind_look get_upload_state_handle_def fail_def split: option.splits sum.splits)
  note u = uploads_okD(3) [OF ok known, unfolded upload_synced_def]
  from u have synced: "file_bytes (disk s) (upload_file env repo (image_of i) i) = us_sha2 u" by simp
  obtain chunks raw digest where ch: "body = map Inr chunks"
    and dig: "digest_parameter query = Some raw" "percent_decode raw = Inr digest"
    and digest: "digest = sha256_digest env (us_sha2 u @ concat chunks)"
    and blob: "node_at (disk t) (blob_file env repo (image_of i) digest) = Some (FileNode (us_sha2 u @ concat chunks))"
    and gone: "node_at (disk t) (upload_file env repo (image_of i) i) = None"
    and others: "\<forall>q. q \<noteq> upload_file env repo (image_of i) i \<longrightarrow> q \<noteq> blob_file env repo (image_of i) digest \<longrightarrow>
      \<not> is_hidden_file q \<longrightarrow>
      node_at (disk t) q = node_at (disk s) q \<or> node_at (disk s) q = None \<and> node_at (disk t) q = Some DirNode"
    and st: "upload_states t = (upload_states s)((dh_id repo, i) := None)"
    and plain: "plain_storage (re_local env) (re_base env) (disk t) (dh_id repo)"
    and resp: "rp_status r = 201" "(''Docker-Content-Digest'', digest) \<in> set (rp_headers r)"
    by (rule complete_blob_upload_stores [OF uploads_okD(1) [OF ok] known conjunct1 [OF u] synced user run])
  note other = others [rule_format]
  have content: "us_sha2 u @ concat chunks = fed i log @ body_bytes body" using u ch by simp
  note differ = files_differ(2) [OF conjunct1 [OF u]]
  have "content_addressed env repo (disk t)"
    unfolding content_addressed_def
  proof (intro allI impI)
    fix name d c assume d: "one_name d" and at: "node_at (disk t) (blob_file env repo name d) = Some (FileNode c)"
    show "d = sha256_digest env c"
    proof (cases "blob_file env repo name d = blob_file env repo (image_of i) digest")
      case True
      have "d = digest" by (rule files_differ(3) [OF d _ True]) (simp add: digest digest_name)
      with True at blob digest show ?thesis by simp
    next
      case False
      have "blob_file env repo name d \<noteq> upload_file env repo (image_of i) i" using differ [OF d] by metis
      from older_file [OF other [OF this False files_shown(2) [OF d]] at] show ?thesis
        by (rule content_addressedD [OF uploads_okD(2) [OF ok] d])
    qed
  qed
  moreover have "upload_synced env repo image_of (log @ [(i, body_bytes body)]) (disk t) j v"
    if v: "upload_states t (dh_id repo, j) = Some v" for j v
  proof -
    have ji: "j \<noteq> i" and w: "upload_states s (dh_id repo, j) = Some v" using v st by (auto split: if_splits)
    note sync = uploads_okD(3) [OF ok w]
    have j: "one_name j" using sync by (simp add: upload_synced_def)
    have "upload_file env repo (image_of j) j \<noteq> upload_file env repo (image_of i) i"
      using files_differ(1) [OF j conjunct1 [OF u]] ji by metis
    moreover have "upload_file env repo (image_of j) j \<noteq> blob_file env repo (image_of i) digest"
      by (rule files_differ(2) [OF j]) (simp add: digest digest_name)
    ultimately show ?thesis
      using other_upload_synced [OF sync ji grown_or_dir [OF other]] files_shown(1) [OF j] by metis
  qed
  ultimately show "uploads_ok env repo image_of (log @ [(i, body_bytes body)]) t"
    using plain by (simp add: uploads_ok_def)
  show "\<exists>raw. digest_parameter query = Some raw \<and>
      percent_decode raw = Inr (sha256_digest env (fed i log @ body_bytes body))"
    using dig digest content by simp
  show "node_at (disk t) (blob_file env repo (image_of i) (sha256_digest env (fed i log @ body_bytes body))) =
      Some (FileNode (fed i log @ body_bytes body))"
    using blob unfolding digest content .
  show "node_at (disk t) (upload_file env repo (image_of i) i) = None" by (rule gone)
  show "upload_states t (dh_id repo, i) = None" using st by simp
  show "rp_status r = 201" by (rule resp(1))
  show "(''Docker-Content-Digest'', sha256_digest env (fed i log @ body_bytes body)) \<in> set (rp_headers r)"
    using resp(2) unfolding digest content .
qed

lemma uploads_ok_initiate:
  fixes s t :: "'z registry_db_scheme"
  assumes ok: "uploads_ok env repo image_of log s" and ids: "new_ids s = n # ids" and i: "i = le_uuid_text (re_local env) n"
    and fresh: "one_name i" "i \<notin> fst ` set log"
      "file_bytes (disk s) (upload_file env repo (image_of i) i) = []"
    and run: "initiate_blob_upload env repo name authentication s = (Inr r, t)"
  shows "uploads_ok env repo image_of log t"
proof (cases "docker_get_user authentication = None \<or> upload_states s (dh_id repo, i) \<noteq> None")
  case True
  with run ids i have "disk t = disk s" "upload_states t = upload_states s"
    by (auto simp: initiate_blob_upload_def begin_docker_blob_upload_state_def ensure_upload_state_handle_def Let_def
        bind_ok_Inr_iff storage_Inr take_id_def set_state_def ret_app split: if_splits)
  with ok show ?thesis by (simp add: uploads_ok_def)
next
  case False
  with run ids i have same: "disk t = disk s"
    and st: "upload_states t = (upload_states s)((dh_id repo, i) \<mapsto> new_sha256_only)"
    by (auto simp: initiate_blob_upload_def begin_docker_blob_upload_state_def ensure_upload_state_handle_def Let_def
        bind_ok_Inr_iff storage_Inr take_id_def set_state_def ret_app split: if_splits)
  have "upload_synced env repo image_of log (disk s) i new_sha256_only"
    using fresh fed_new [OF fresh(2)] by (simp add: upload_synced_def new_sha256_only_def)
  with ok same st show ?thesis by (auto simp: uploads_ok_def)
qed

theorem served_uploads_ok:
  assumes "served env repo image_of s log t" and "uploads_ok env repo image_of [] s"
  shows "uploads_ok env repo image_of log t"
  using assms
proof (induction rule: served.induct)
  case (served_initiate log t n ids i name authentication r t')
  then show ?case using uploads_ok_initiate by blast
next
  case (served_chunk log t authentication i body r t')
  then show ?case using uploads_ok_chunk by blast
next
  case (served_complete log t authentication i query body r t')
  then show ?case using uploads_ok_complete(1) by blast
qed

lemma uploads_ok_start:
  "plain_storage (re_local env) (re_base env) (disk s) (dh_id repo) \<Longrightarrow> content_addressed env repo (disk s) \<Longrightarrow>
     (\<And>i. upload_states s (dh_id repo, i) = None) \<Longrightarrow> uploads_ok env repo image_of [] s"
  by (simp add: uploads_ok_def)

section \<open>Properties\<close>

text \<open>
  C31. Take any sequence of successful requests that begin, continue and complete uploads of a hosted Docker
  repository (interleaved in any order, with bodies split into any chunks, whatever failures the operating
  system reports on the way), in a storage without symbolic links, in which all requests that continue or
  complete one upload name the same image. When such an upload is then completed under this image,
  the digest of the request is the SHA-256 digest of all bytes that were sent for the upload, in their
  order; the blob of that digest is a file with exactly these bytes, the file and the state of the upload
  are gone, and the response carries that digest. (When the requests of an upload name different images this
  fails, see \<open>other_image_stored_wrong\<close>.)
\<close>

theorem uploaded_blob_exact:
  assumes "served env repo image_of s log t"
    and "plain_storage (re_local env) (re_base env) (disk s) (dh_id repo)" and "content_addressed env repo (disk s)"
    and "\<And>j. upload_states s (dh_id repo, j) = None"
    and "docker_get_user authentication \<noteq> None"
    and "complete_blob_upload env repo (image_of i) i authentication query body t = (Inr r, t')"
  shows "\<exists>raw content. content = fed i log @ body_bytes body \<and>
    digest_parameter query = Some raw \<and> percent_decode raw = Inr (sha256_digest env content) \<and>
    node_at (disk t') (blob_file env repo (image_of i) (sha256_digest env content)) = Some (FileNode content) \<and>
    node_at (disk t') (upload_file env repo (image_of i) i) = None \<and>
    upload_states t' (dh_id repo, i) = None \<and> rp_status r = 201 \<and>
    (''Docker-Content-Digest'', sha256_digest env content) \<in> set (rp_headers r)"
proof -
  have "uploads_ok env repo image_of log t"
    by (rule served_uploads_ok [OF assms(1) uploads_ok_start [OF assms(2-4)]])
  from uploads_ok_complete [OF this assms(5,6)] show ?thesis by blast
qed

text \<open>
  C32. Through any such sequence of requests, in which each upload is continued and completed under one image,
  the blobs stay addressed by their content: every file that lies where a digest names a blob has that digest.
\<close>

theorem blobs_content_addressed:
  assumes "served env repo image_of s log t"
    and "plain_storage (re_local env) (re_base env) (disk s) (dh_id repo)" and "content_addressed env repo (disk s)"
    and "\<And>j. upload_states s (dh_id repo, j) = None"
  shows "content_addressed env repo (disk t)"
  using served_uploads_ok [OF assms(1) uploads_ok_start [OF assms(2-4)]] by (rule uploads_okD(2))

lemma small_chunk:
  "chunk \<noteq> [] \<Longrightarrow> length chunk < local_upload_buffer_size \<Longrightarrow>
     writer_write_all env chunk \<lparr>bw_file = f, bw_buffer = []\<rparr> s = (Inr \<lparr>bw_file = f, bw_buffer = chunk\<rparr>, s)"
  by (simp add: writer_write_all.simps [of env chunk] bind_ok_def ret_app)

lemma broken_body_effect:
  fixes s :: "'z registry_db_scheme"
  assumes plain: "plain_storage (re_local env) (re_base env) (disk s) (dh_id repo)"
    and known: "upload_states s (dh_id repo, i) = Some u"
    and chunk: "chunk \<noteq> []" "length chunk < local_upload_buffer_size"
    and run: "upload_blob_chunk env repo name i authentication [Inr chunk, Inl err] s =
      (Inl (DockerOther (FromStream err)), t)"
  shows "upload_states t = (upload_states s)((dh_id repo, i) \<mapsto> update_upload chunk u)"
    and "file_bytes (disk t) (upload_file env repo name i) = file_bytes (disk s) (upload_file env repo name i)"
    and "plain_storage (re_local env) (re_base env) (disk t) (dh_id repo)"
proof -
  let ?h = "(dh_id repo, i)"
  have user: "docker_get_user authentication \<noteq> None"
    using run by (cases "docker_get_user authentication = None") (simp_all add: upload_blob_chunk_def ret_app)
  have "bind_ok (write_local_stream env (dh_id repo) (upload_path name i) [Inr chunk, Inl err] ?h)
      (\<lambda>n. ret (upload_response 202 name i n)) s = (Inl (DockerOther (FromStream err)), t)"
    using run user known by (auto simp add: upload_blob_chunk_def bind_look get_upload_state_handle_def)
  then have wr: "write_local_stream env (dh_id repo) (upload_path name i) [Inr chunk, Inl err] ?h s =
      (Inl (DockerOther (FromStream err)), t)"
    by (auto simp: bind_ok_def ret_app split: prod.splits sum.splits)
  obtain x s1 where op': "open_append_handle (re_local env) (re_base env) (dh_id repo) (upload_path name i) s = (x, s1)"
    by fastforce
  have "\<not> isl x" using wr op' by (cases x) (auto simp: write_local_stream_def bind_ok_def storage_def map_err_def)
  then obtain f p where op: "open_append_handle (re_local env) (re_base env) (dh_id repo) (upload_path name i) s = (Inr (f, p), s1)"
    using op' by (cases x) auto
  have t: "t = s1\<lparr>upload_states := (upload_states s1)(?h := map_option (update_upload chunk) (upload_states s1 ?h))\<rparr>"
    using wr op
    by (simp add: small_chunk [OF chunk] write_local_stream_def bind_ok_def storage_def map_err_def update_upload_state_handle_def
        set_state_def fail_def bind_look chunk(1))
  note o = open_append_opens [OF plain op]
  have "upload_states s1 = upload_states s"
    by (rule rest_uploads) (rule preservesD [OF rest_frame.kept_operations(3) op])
  then show "upload_states t = (upload_states s)((dh_id repo, i) \<mapsto> update_upload chunk u)" using t known by simp
  show "file_bytes (disk t) (upload_file env repo name i) = file_bytes (disk s) (upload_file env repo name i)"
    using o(1) openedD(2) [OF o(2)] t by (simp add: upload_file_def file_bytes_def)
  show "plain_storage (re_local env) (re_base env) (disk t) (dh_id repo)" using o(3) t by simp
qed

lemma completed_blob:
  fixes s :: "'z registry_db_scheme"
  assumes "plain_storage (re_local env) (re_base env) (disk s) (dh_id repo)"
    and "upload_states s (dh_id repo, i) = Some u" and "one_name i"
    and "file_bytes (disk s) (upload_file env repo name i) = old"
    and "docker_get_user authentication \<noteq> None"
    and "complete_blob_upload env repo name i authentication query body s = (Inr r, t)"
  shows "let digest = sha256_digest env (us_sha2 u @ body_bytes body)
    in rp_status r = 201 \<and> (''Docker-Content-Digest'', digest) \<in> set (rp_headers r) \<and>
       node_at (disk t) (blob_file env repo name digest) = Some (FileNode (old @ body_bytes body))"
proof -
  obtain chunks digest where "body = map Inr chunks" "digest = sha256_digest env (us_sha2 u @ concat chunks)"
    "node_at (disk t) (blob_file env repo name digest) = Some (FileNode (old @ concat chunks))"
    "rp_status r = 201" "(''Docker-Content-Digest'', digest) \<in> set (rp_headers r)"
    by (rule complete_blob_upload_stores [OF assms])
  then show ?thesis by (simp add: Let_def)
qed

text \<open>
  A body that breaks off spoils its upload: the bytes that arrived are counted in the hash at once, but
  they are still in the buffer of the writer and are lost with it. The upload stays open, and a later
  completion with the digest of all the bytes is accepted: the response and the name of the blob carry that
  digest, and the blob lacks the lost bytes.
\<close>

theorem broken_body_stored_wrong:
  fixes s :: "'z registry_db_scheme"
  assumes "plain_storage (re_local env) (re_base env) (disk s) (dh_id repo)"
    and "upload_states s (dh_id repo, i) = Some u" and "one_name i"
    and "file_bytes (disk s) (upload_file env repo name i) = us_sha2 u"
    and "chunk \<noteq> []" and "length chunk < local_upload_buffer_size"
    and "upload_blob_chunk env repo name i authentication [Inr chunk, Inl err] s =
      (Inl (DockerOther (FromStream err)), t)"
    and "docker_get_user authentication' \<noteq> None"
    and "complete_blob_upload env repo name i authentication' query body t = (Inr r, t')"
  shows "let digest = sha256_digest env (us_sha2 u @ chunk @ body_bytes body)
    in rp_status r = 201 \<and> (''Docker-Content-Digest'', digest) \<in> set (rp_headers r) \<and>
       node_at (disk t') (blob_file env repo name digest) = Some (FileNode (us_sha2 u @ body_bytes body))"
proof -
  note broken = broken_body_effect [OF assms(1,2,5,6,7)]
  have "upload_states t (dh_id repo, i) = Some (update_upload chunk u)" by (simp add: broken(1))
  from completed_blob [OF broken(3) this assms(3) broken(2) assms(8,9)] show ?thesis by (simp add: assms(4))
qed

text \<open>
  The state of an upload belongs to the repository and the identifier, its file to the name of the
  image. Completing an upload under another image of the repository is accepted: a file with just the last
  body is stored under the digest of the whole upload.
\<close>

theorem other_image_stored_wrong:
  fixes s :: "'z registry_db_scheme"
  assumes "plain_storage (re_local env) (re_base env) (disk s) (dh_id repo)"
    and "upload_states s (dh_id repo, i) = Some u" and "one_name i"
    and "file_bytes (disk s) (upload_file env repo other i) = []"
    and "docker_get_user authentication \<noteq> None"
    and "complete_blob_upload env repo other i authentication query body s = (Inr r, t)"
  shows "let digest = sha256_digest env (us_sha2 u @ body_bytes body)
    in rp_status r = 201 \<and> (''Docker-Content-Digest'', digest) \<in> set (rp_headers r) \<and>
       node_at (disk t) (blob_file env repo other digest) = Some (FileNode (body_bytes body))"
  using completed_blob [OF assms] by simp

section \<open>Examples\<close>

lemma writer_write_all_code [code]:
  "writer_write_all env chunk w =
     (if chunk = [] then ret w
      else bind_ok (if int (length (bw_buffer w)) + int (length chunk) > 4194304 then flush_buffer w else ret w) (\<lambda>w.
           if int (length chunk) \<ge> 4194304
           then bind_ok (write_bytes (bw_file w) (take (Suc (re_write_size env)) chunk))
                  (\<lambda>_. writer_write_all env (drop (Suc (re_write_size env)) chunk) w)
           else ret (w\<lparr>bw_buffer := bw_buffer w @ chunk\<rparr>)))"
proof -
  have "local_upload_buffer_size < n \<longleftrightarrow> 4194304 < int n" "local_upload_buffer_size \<le> n \<longleftrightarrow> 4194304 \<le> int n" for n
    by (simp_all add: local_upload_buffer_size_def)
  then show ?thesis by (subst writer_write_all.simps) (simp add: of_nat_add [symmetric] del: of_nat_add)
qed

definition sample_registry :: registry_env where
  "sample_registry =
     \<lparr>re_local = sample_env, re_base = [''srv''], re_sha256 = id, re_md5 = id, re_sha1 = id, re_sha3 = id,
      re_base64 = hex_text, re_base64_decode = (\<lambda>_. None),
      re_json = \<lparr>mj_docker_v2 = (\<lambda>_. Inl SerdeError), mj_oci_image = (\<lambda>_. Inl SerdeError),
        mj_oci_index = (\<lambda>_. Inl SerdeError), mj_value = (\<lambda>_. None)\<rparr>,
      re_write_size = 8191\<rparr>"

definition sample_hosted :: docker_hosted where
  "sample_hosted = \<lparr>dh_id = 1, dh_allow_tag_overwrite = True, dh_catalog_indexing = True\<rparr>"

definition sample_registry_db :: "tree \<Rightarrow> registry_db" where
  "sample_registry_db t = object_db.extend (local_state.extend (sample_local t)
     \<lparr>object_repositories = [1], docker_objects = []\<rparr>) \<lparr>upload_states = Map.empty\<rparr>"

definition sample_pusher :: repository_authentication where
  "sample_pusher = RBasic None (user_safe_from (sample_user 2 ''bob'' ''b@x''))"

definition sample_start :: registry_db where
  "sample_start = sample_registry_db [([''srv''], DirNode)]"

definition sample_begun :: registry_db where
  "sample_begun = snd (initiate_blob_upload sample_registry sample_hosted ''img'' sample_pusher sample_start)"

definition sample_uploaded :: registry_db where
  "sample_uploaded =
     snd (upload_blob_chunk sample_registry sample_hosted ''img'' ''id'' sample_pusher [Inr [1, 2], Inr [], Inr [3]] sample_begun)"

lemma sample_runs: "\<not> isl (fst x) \<Longrightarrow> snd x = t \<Longrightarrow> \<exists>r. x = (Inr r, t)"
  by (cases x; cases "fst x") auto

lemma sample_start_ok:
  "plain_storage (re_local sample_registry) (re_base sample_registry) (disk sample_start) (dh_id sample_hosted)"
  "content_addressed sample_registry sample_hosted (disk sample_start)"
  "upload_states sample_start k = None"
proof -
  have d: "disk sample_start = [([''srv''], DirNode)]"
    by (simp add: sample_start_def sample_registry_db_def object_db.defs local_state.defs sample_local_def)
  show "plain_storage (re_local sample_registry) (re_base sample_registry) (disk sample_start) (dh_id sample_hosted)"
    using sample_ready sample_link_free
    by (simp add: d plain_storage_def storage_ready_def sample_registry_def sample_hosted_def sample_local_def node_at_def normal_name_def)
  show "content_addressed sample_registry sample_hosted (disk sample_start)"
    by (simp add: content_addressed_def d node_at_def)
  show "upload_states sample_start k = None"
    by (simp add: sample_start_def sample_registry_db_def object_db.defs)
qed

lemma sample_served: "served sample_registry sample_hosted (\<lambda>_. ''img'') sample_start [(''id'', [1, 2, 3])] sample_uploaded"
proof -
  have ids: "new_ids sample_start = [7]" "''id'' = le_uuid_text (re_local sample_registry) 7" "one_name ''id''"
    "file_bytes (disk sample_start) (upload_file sample_registry sample_hosted ''img'' ''id'') = []"
    by code_simp+
  have "\<not> isl (fst (initiate_blob_upload sample_registry sample_hosted ''img'' sample_pusher sample_start))" by code_simp
  from sample_runs [OF this] obtain r where
    i: "initiate_blob_upload sample_registry sample_hosted ''img'' sample_pusher sample_start = (Inr r, sample_begun)"
    unfolding sample_begun_def by blast
  have begun: "served sample_registry sample_hosted (\<lambda>_. ''img'') sample_start [] sample_begun"
    by (rule served_initiate [OF served_nothing ids(1-3) _ _ _ i]) (simp_all add: ids(4) sample_start_ok(3))
  have "\<not> isl (fst (upload_blob_chunk sample_registry sample_hosted ''img'' ''id'' sample_pusher [Inr [1, 2], Inr [], Inr [3]] sample_begun))"
    by code_simp
  from sample_runs [OF this] obtain r' where
    c: "upload_blob_chunk sample_registry sample_hosted ''img'' ''id'' sample_pusher [Inr [1, 2], Inr [], Inr [3]] sample_begun =
      (Inr r', sample_uploaded)"
    unfolding sample_uploaded_def by blast
  have "docker_get_user sample_pusher \<noteq> None" by code_simp
  from served_chunk [OF begun this c] show ?thesis by (simp add: body_bytes_def)
qed

definition sample_query :: "string \<Rightarrow> string option" where
  "sample_query hex = Some (''x=1&digest=sha256%3A'' @ hex)"

theorem uploaded_blob_exact_witness:
  "\<exists>r t. complete_blob_upload sample_registry sample_hosted ''img'' ''id'' sample_pusher (sample_query ''01020304'')
      [Inr [4]] sample_uploaded = (Inr r, t) \<and>
    node_at (disk t) (blob_file sample_registry sample_hosted ''img'' ''sha256:01020304'') = Some (FileNode [1, 2, 3, 4])"
proof -
  have "\<not> isl (fst (complete_blob_upload sample_registry sample_hosted ''img'' ''id'' sample_pusher
      (sample_query ''01020304'') [Inr [4]] sample_uploaded))" by code_simp
  then obtain r t where run: "complete_blob_upload sample_registry sample_hosted ''img'' ''id'' sample_pusher
      (sample_query ''01020304'') [Inr [4]] sample_uploaded = (Inr r, t)" using run_succeeds by blast
  have user: "docker_get_user sample_pusher \<noteq> None" by code_simp
  have content: "fed ''id'' [(''id'', [1, 2, 3])] @ body_bytes [Inr [4]] = [1, 2, 3, 4 :: u8]"
    by (simp add: fed_def body_bytes_def)
  have digest: "sha256_digest sample_registry [1, 2, 3, 4] = ''sha256:01020304''" by code_simp
  from uploaded_blob_exact [OF sample_served sample_start_ok(1,2) sample_start_ok(3) user run, unfolded content]
  show ?thesis using run digest by auto
qed

theorem blobs_content_addressed_witness:
  "content_addressed sample_registry sample_hosted (disk sample_uploaded) \<and> upload_states sample_uploaded (1, ''id'') \<noteq> None"
proof -
  have "upload_states sample_uploaded (1, ''id'') \<noteq> None" by code_simp
  with blobs_content_addressed [OF sample_served sample_start_ok(1,2) sample_start_ok(3)] show ?thesis by blast
qed

lemma sample_uploaded_ok: "uploads_ok sample_registry sample_hosted (\<lambda>_. ''img'') [(''id'', [1, 2, 3])] sample_uploaded"
  by (rule served_uploads_ok [OF sample_served uploads_ok_start [OF sample_start_ok]])

definition sample_broken :: registry_db where
  "sample_broken =
     snd (upload_blob_chunk sample_registry sample_hosted ''img'' ''id'' sample_pusher [Inr [4], Inl ''reset''] sample_uploaded)"

lemma sample_state: "\<exists>u. upload_states sample_uploaded (dh_id sample_hosted, ''id'') = Some u \<and> us_sha2 u = [1, 2, 3]"
proof -
  have "map_option us_sha2 (upload_states sample_uploaded (dh_id sample_hosted, ''id'')) = Some [1, 2, 3]" by code_simp
  then show ?thesis by auto
qed

theorem broken_body_stored_wrong_witness:
  "\<exists>r t. complete_blob_upload sample_registry sample_hosted ''img'' ''id'' sample_pusher (sample_query ''0102030405'')
      [Inr [5]] sample_broken = (Inr r, t) \<and> (''Docker-Content-Digest'', ''sha256:0102030405'') \<in> set (rp_headers r) \<and>
    node_at (disk t) (blob_file sample_registry sample_hosted ''img'' ''sha256:0102030405'') = Some (FileNode [1, 2, 3, 5])"
proof -
  obtain u where u: "upload_states sample_uploaded (dh_id sample_hosted, ''id'') = Some u" "us_sha2 u = [1, 2, 3]"
    using sample_state by blast
  have "fst (upload_blob_chunk sample_registry sample_hosted ''img'' ''id'' sample_pusher [Inr [4], Inl ''reset''] sample_uploaded)
      = Inl (DockerOther (FromStream ''reset''))" by code_simp
  then have chunk: "upload_blob_chunk sample_registry sample_hosted ''img'' ''id'' sample_pusher [Inr [4], Inl ''reset'']
      sample_uploaded = (Inl (DockerOther (FromStream ''reset'')), sample_broken)"
    unfolding sample_broken_def by (metis prod.collapse)
  have "\<not> isl (fst (complete_blob_upload sample_registry sample_hosted ''img'' ''id'' sample_pusher
      (sample_query ''0102030405'') [Inr [5]] sample_broken))" by code_simp
  then obtain r t where run: "complete_blob_upload sample_registry sample_hosted ''img'' ''id'' sample_pusher
      (sample_query ''0102030405'') [Inr [5]] sample_broken = (Inr r, t)" using run_succeeds by blast
  have h: "one_name ''id''" "docker_get_user sample_pusher \<noteq> None" by code_simp+
  have bytes: "file_bytes (disk sample_uploaded) (upload_file sample_registry sample_hosted ''img'' ''id'') = us_sha2 u"
    using uploads_okD(3) [OF sample_uploaded_ok u(1)] by (simp add: upload_synced_def)
  have digest: "sha256_digest sample_registry [1, 2, 3, 4, 5] = ''sha256:0102030405''" by code_simp
  have "[4 :: u8] \<noteq> []" "length [4 :: u8] < local_upload_buffer_size" by (simp_all add: local_upload_buffer_size_def)
  from broken_body_stored_wrong [OF uploads_okD(1) [OF sample_uploaded_ok] u(1) h(1) bytes this chunk h(2) run]
  show ?thesis using run u(2) digest by (simp add: body_bytes_def Let_def)
qed

theorem other_image_stored_wrong_witness:
  "\<exists>r t. complete_blob_upload sample_registry sample_hosted ''other'' ''id'' sample_pusher (sample_query ''010203'')
      [] sample_uploaded = (Inr r, t) \<and>
    node_at (disk t) (blob_file sample_registry sample_hosted ''other'' ''sha256:010203'') = Some (FileNode [])"
proof -
  obtain u where u: "upload_states sample_uploaded (dh_id sample_hosted, ''id'') = Some u" "us_sha2 u = [1, 2, 3]"
    using sample_state by blast
  have "\<not> isl (fst (complete_blob_upload sample_registry sample_hosted ''other'' ''id'' sample_pusher
      (sample_query ''010203'') [] sample_uploaded))" by code_simp
  then obtain r t where run: "complete_blob_upload sample_registry sample_hosted ''other'' ''id'' sample_pusher
      (sample_query ''010203'') [] sample_uploaded = (Inr r, t)" using run_succeeds by blast
  have h: "one_name ''id''" "docker_get_user sample_pusher \<noteq> None"
    "file_bytes (disk sample_uploaded) (upload_file sample_registry sample_hosted ''other'' ''id'') = []" by code_simp+
  have digest: "sha256_digest sample_registry [1, 2, 3] = ''sha256:010203''" by code_simp
  from other_image_stored_wrong [OF uploads_okD(1) [OF sample_uploaded_ok] u(1) h(1,3,2) run] show ?thesis
    using run u(2) digest by (simp add: body_bytes_def Let_def)
qed

end
