(* ===== verification/DockerRoutes.thy ===== *)
theory DockerRoutes
  imports DockerUploads
begin

text \<open>
  Reading a hosted Docker repository (pkgly/src/repository/docker/handlers.rs): which handler a request
  goes to, the manifests with their content type, the lists of images and tags and the pages they are
  returned in (the images come from \<open>collect_manifest_entries\<close> of pkgly/src/repository/docker/metadata.rs),
  and the status of an error (pkgly/src/repository/docker/mod.rs). The decoding of a query into pairs
  (\<open>form_urlencoded\<close>, third-party code) is done before: the functions take the pairs.
\<close>

section \<open>Pages\<close>

record pagination =
  pg_limit :: "nat option"
  pg_last :: "string option"

record pagination_cursor =
  pc_last :: string
  pc_limit :: nat

record paginated_list =
  pl_values :: "string list"
  pl_next :: "pagination_cursor option"

datatype pagination_error = InvalidLimit

definition max_pagination_page_size :: nat where
  "max_pagination_page_size = 1000"

fun pagination_pair :: "string \<times> string \<Rightarrow> pagination \<Rightarrow> pagination_error + pagination" where
  "pagination_pair (key, v) p =
     (if key = ''n'' then
        (if v = [] then Inl InvalidLimit
         else case parse_u64 v of
                None \<Rightarrow> Inl InvalidLimit
              | Some n \<Rightarrow>
                  if n = 0 then Inl InvalidLimit
                  else Inr (p\<lparr>pg_limit := Some (min (unat n) max_pagination_page_size)\<rparr>))
      else if key = ''last'' then Inr (if v = [] then p else p\<lparr>pg_last := Some v\<rparr>)
      else Inr p)"

fun pagination_pairs :: "(string \<times> string) list \<Rightarrow> pagination \<Rightarrow> pagination_error + pagination" where
  "pagination_pairs [] p = Inr p"
| "pagination_pairs (kv # rest) p =
     (case pagination_pair kv p of Inl e \<Rightarrow> Inl e | Inr p \<Rightarrow> pagination_pairs rest p)"

definition parse_pagination_params :: "(string \<times> string) list option \<Rightarrow> pagination_error + pagination" where
  "parse_pagination_params query =
     pagination_pairs (case query of None \<Rightarrow> [] | Some pairs \<Rightarrow> pairs) \<lparr>pg_limit = None, pg_last = None\<rparr>"

text \<open>\<open>binary_search\<close> on a list in increasing order: the position of the text, or where it would be.\<close>

definition binary_search :: "string list \<Rightarrow> string \<Rightarrow> nat + nat" where
  "binary_search all x =
     (let n = length (takeWhile (\<lambda>y. y < x) all)
      in if n < length all \<and> all ! n = x then Inr n else Inl n)"

definition paginate_lexically :: "string list \<Rightarrow> pagination \<Rightarrow> paginated_list" where
  "paginate_lexically all p =
     (if all = [] then \<lparr>pl_values = [], pl_next = None\<rparr>
      else let start = (case pg_last p of
                          None \<Rightarrow> 0
                        | Some l \<Rightarrow> (case binary_search all l of Inr i \<Rightarrow> i + 1 | Inl i \<Rightarrow> i))
           in if start \<ge> length all then \<lparr>pl_values = [], pl_next = None\<rparr>
              else case pg_limit p of
                     Some limit \<Rightarrow>
                       let stop = min (start + limit) (length all);
                           selected = take (stop - start) (drop start all)
                       in \<lparr>pl_values = selected,
                           pl_next = if stop < length all \<and> selected \<noteq> []
                                     then Some \<lparr>pc_last = last selected, pc_limit = limit\<rparr> else None\<rparr>
                   | None \<Rightarrow> \<lparr>pl_values = drop start all, pl_next = None\<rparr>)"

text \<open>\<open>sort\<close> and \<open>dedup\<close>, or a \<open>BTreeSet\<close>.\<close>

definition sorted_names :: "string list \<Rightarrow> string list" where
  "sorted_names names = remdups_adj (sort names)"

section \<open>Images and tags\<close>

record docker_manifest_entry =
  me_repository :: string
  me_reference :: string
  me_cache_path :: string
  me_size :: nat
  me_modified :: instant

definition manifest_entry ::
  "string list \<Rightarrow> storage_path \<Rightarrow> file_type storage_file_meta \<Rightarrow> docker_manifest_entry option" where
  "manifest_entry segments manifests_path m =
     (if ends_with ''.nr-docker-tagmeta'' (sf_name m) then None
      else case sf_file_type m of
             TypeDirectory _ \<Rightarrow> None
           | TypeFile f \<Rightarrow>
               Some \<lparr>me_repository = join_with ''/'' segments, me_reference = sf_name m,
                     me_cache_path = path_to_string (push manifests_path (sf_name m)),
                     me_size = ff_size f, me_modified = sf_modified m\<rparr>)"

text \<open>The entries of one directory: the manifests found below it and the directories put into the queue.\<close>

fun visit_entries ::
  "registry_env \<Rightarrow> uuid \<Rightarrow> string list \<Rightarrow> storage_path \<Rightarrow> file_type storage_file_meta list \<Rightarrow>
     ('z, docker_manifest_entry list \<times> (string list \<times> storage_path) list) local_op" where
  "visit_entries env repository segments path [] = ret ([], [])"
| "visit_entries env repository segments path (entry # rest) =
     (case sf_file_type entry of
        TypeFile _ \<Rightarrow> visit_entries env repository segments path rest
      | TypeDirectory _ \<Rightarrow>
          if sf_name entry = ''manifests'' then
            let manifests_path = push path ''manifests''
            in bind_ok (open_file (re_local env) (re_base env) repository manifests_path) (\<lambda>opened.
               bind_ok (visit_entries env repository segments path rest) (\<lambda>(found, queue).
                 ret (case opened of
                        Some (SDirectory _ files) \<Rightarrow>
                          (List.map_filter (manifest_entry segments manifests_path) files @ found, queue)
                      | _ \<Rightarrow> (found, queue))))
          else if sf_name entry \<in> {''blobs'', ''uploads'', ''_uploads''} then
            visit_entries env repository segments path rest
          else bind_ok (visit_entries env repository segments path rest) (\<lambda>(found, queue).
                 ret (found, (segments @ [sf_name entry], push path (sf_name entry)) # queue)))"

text \<open>The queue of the search, with the number of directories it may open: \<open>None\<close> when they do not
  suffice (a symbolic link to a directory above itself makes the search very long).\<close>

fun visit_queue ::
  "registry_env \<Rightarrow> uuid \<Rightarrow> nat \<Rightarrow> (string list \<times> storage_path) list \<Rightarrow>
     ('z, docker_manifest_entry list option) local_op" where
  "visit_queue env repository fuel [] = ret (Some [])"
| "visit_queue env repository 0 (_ # _) = ret None"
| "visit_queue env repository (Suc fuel) ((segments, path) # queue) =
     bind_ok (open_file (re_local env) (re_base env) repository path) (\<lambda>opened.
       case opened of
         Some (SDirectory _ files) \<Rightarrow>
           bind_ok (visit_entries env repository segments path files) (\<lambda>(found, more).
           bind_ok (visit_queue env repository fuel (queue @ more)) (\<lambda>rest.
             ret (map_option (\<lambda>r. found @ r) rest)))
       | _ \<Rightarrow> visit_queue env repository fuel queue)"

definition collect_manifest_entries ::
  "registry_env \<Rightarrow> nat \<Rightarrow> uuid \<Rightarrow> ('z, docker_manifest_entry list option) local_op" where
  "collect_manifest_entries env fuel repository =
     visit_queue env repository fuel [([], path_from ''v2'')]"

definition collect_catalog_repositories ::
  "registry_env \<Rightarrow> nat \<Rightarrow> uuid \<Rightarrow> ('z, string list option) docker_op" where
  "collect_catalog_repositories env fuel repository =
     bind_ok (storage (collect_manifest_entries env fuel repository)) (\<lambda>entries.
       ret (map_option (\<lambda>es. sorted_names (filter (\<lambda>r. r \<noteq> []) (map me_repository es))) entries))"

definition tag_names :: "file_type storage_file_meta list \<Rightarrow> string list" where
  "tag_names files =
     map sf_name (filter (\<lambda>m. (case sf_file_type m of TypeFile _ \<Rightarrow> True | TypeDirectory _ \<Rightarrow> False) \<and>
                              \<not> is_digest_reference (sf_name m)) files)"

definition collect_repository_tags ::
  "registry_env \<Rightarrow> uuid \<Rightarrow> string \<Rightarrow> ('z, string list) docker_op" where
  "collect_repository_tags env repository repository_name =
     bind_ok (storage (open_file (re_local env) (re_base env) repository
        (path_from (''v2/'' @ repository_name @ ''/manifests'')))) (\<lambda>opened.
       case opened of
         Some (SDirectory _ files) \<Rightarrow> ret (sorted_names (tag_names files))
       | _ \<Rightarrow> fail (InvalidRepositoryName repository_name))"

definition link_header :: "string \<Rightarrow> pagination_cursor option \<Rightarrow> (string \<Rightarrow> string) \<Rightarrow> (string \<times> string) list" where
  "link_header path cursor url_encode =
     (case cursor of
        None \<Rightarrow> []
      | Some c \<Rightarrow>
          [(''Link'', ''<'' @ path @ ''?last='' @ url_encode (pc_last c) @ ''&n='' @ show_nat (pc_limit c) @
              [CHR ''>'', CHR '';'', CHR '' ''] @ ''rel='' @ [CHR 0x22] @ ''next'' @ [CHR 0x22])])"

definition list_headers :: "(string \<times> string) list" where
  "list_headers = [(''Content-Type'', ''application/json''), (''Docker-Distribution-API-Version'', ''registry/2.0'')]"

definition build_catalog_response :: "(string \<Rightarrow> string) \<Rightarrow> paginated_list \<Rightarrow> registry_response" where
  "build_catalog_response url_encode page =
     custom_response 200 (list_headers @ link_header ''/v2/_catalog'' (pl_next page) url_encode)
       (RepositoriesBody (pl_values page))"

definition build_tags_response :: "(string \<Rightarrow> string) \<Rightarrow> string \<Rightarrow> paginated_list \<Rightarrow> registry_response" where
  "build_tags_response url_encode repository_name page =
     custom_response 200
       (list_headers @ link_header (''/v2/'' @ repository_name @ ''/tags/list'') (pl_next page) url_encode)
       (TagsBody repository_name (pl_values page))"

definition pagination_error_response :: registry_response where
  "pagination_error_response = custom_response 400 list_headers (ErrorBody ''PAGINATION_NUMBER_INVALID'')"

definition list_catalog ::
  "registry_env \<Rightarrow> (string \<Rightarrow> string) \<Rightarrow> nat \<Rightarrow> docker_hosted \<Rightarrow> pagination \<Rightarrow>
     ('z, registry_response option) docker_op" where
  "list_catalog env url_encode fuel repo params =
     bind_ok (collect_catalog_repositories env fuel (dh_id repo)) (\<lambda>repositories.
       ret (map_option (\<lambda>all. build_catalog_response url_encode (paginate_lexically all params)) repositories))"

definition list_tags ::
  "registry_env \<Rightarrow> (string \<Rightarrow> string) \<Rightarrow> docker_hosted \<Rightarrow> string \<Rightarrow> pagination \<Rightarrow> ('z, registry_response) docker_op" where
  "list_tags env url_encode repo repository_name params =
     bind_ok (collect_repository_tags env (dh_id repo) repository_name) (\<lambda>tags.
       ret (build_tags_response url_encode repository_name (paginate_lexically tags params)))"

section \<open>Manifests\<close>

definition manifest_path :: "string \<Rightarrow> string \<Rightarrow> storage_path" where
  "manifest_path repository_name reference = path_from (object_path repository_name ''manifests'' reference)"

definition get_file_bytes :: "storage_file \<Rightarrow> docker_error + bytes" where
  "get_file_bytes f = (case f of SFile _ content \<Rightarrow> Inr content | SDirectory _ _ \<Rightarrow> Inl (InvalidManifest ExpectedFile))"

text \<open>The \<open>mediaType\<close> of the stored document, or the one of an OCI manifest.\<close>

definition stored_content_type :: "registry_env \<Rightarrow> bytes \<Rightarrow> string" where
  "stored_content_type env content =
     (case mj_value (re_json env) content of Some (Some t) \<Rightarrow> t | _ \<Rightarrow> oci_image_manifest_type)"

definition read_manifest :: "registry_env \<Rightarrow> docker_hosted \<Rightarrow> string \<Rightarrow> string \<Rightarrow> ('z, bytes) docker_op" where
  "read_manifest env repo repository_name reference =
     bind_ok (storage (open_file (re_local env) (re_base env) (dh_id repo) (manifest_path repository_name reference)))
       (\<lambda>opened.
         case opened of
           None \<Rightarrow> fail (ManifestNotFound reference)
         | Some f \<Rightarrow> from_result (get_file_bytes f))"

definition get_manifest ::
  "registry_env \<Rightarrow> docker_hosted \<Rightarrow> string \<Rightarrow> string \<Rightarrow> ('z, registry_response) docker_op" where
  "get_manifest env repo repository_name reference =
     bind_ok (read_manifest env repo repository_name reference) (\<lambda>content.
       ret (custom_response 200
         [(''Content-Type'', stored_content_type env content), (''Docker-Content-Digest'', sha256_digest env content),
          (''Content-Length'', show_nat (length content))] (BytesBody content)))"

definition head_manifest ::
  "registry_env \<Rightarrow> docker_hosted \<Rightarrow> string \<Rightarrow> string \<Rightarrow> ('z, registry_response) docker_op" where
  "head_manifest env repo repository_name reference =
     bind_ok (read_manifest env repo repository_name reference) (\<lambda>content.
       ret (custom_response 200
         [(''Docker-Content-Digest'', sha256_digest env content), (''Content-Length'', show_nat (length content)),
          (''Content-Type'', stored_content_type env content)] NoBody))"

definition handle_api_version_check :: registry_response where
  "handle_api_version_check = custom_response 200 [(''Docker-Distribution-API-Version'', ''registry/2.0'')] NoBody"

section \<open>Routes\<close>

datatype docker_route =
    ApiCheck
  | Catalog
  | TagList string
  | ManifestAt string string
  | UploadStart string
  | UploadAt string string
  | BlobAt string string
  | NoRoute

text \<open>The pattern \<open>["v2", name @ .., marks, last]\<close> with a name of at least one part.\<close>

definition named_route :: "string list \<Rightarrow> string list \<Rightarrow> (string \<times> string) option" where
  "named_route marks parts =
     (let n = length parts - length marks - 2
      in if length parts \<ge> length marks + 3 \<and> hd parts = ''v2'' \<and> take (length marks) (drop (n + 1) parts) = marks
         then Some (join_with ''/'' (take n (drop 1 parts)), last parts) else None)"

definition request_parts :: "string \<Rightarrow> string list" where
  "request_parts path = split_on (CHR ''/'') (trim_start_while (\<lambda>c. c = CHR ''/'') path)"

definition orelse_route :: "docker_route \<Rightarrow> docker_route \<Rightarrow> docker_route" where
  "orelse_route a b = (if a = NoRoute then b else a)"

definition manifest_route :: "string list \<Rightarrow> docker_route" where
  "manifest_route parts =
     (case named_route [''manifests''] parts of Some (name, reference) \<Rightarrow> ManifestAt name reference | None \<Rightarrow> NoRoute)"

definition upload_route :: "string list \<Rightarrow> docker_route" where
  "upload_route parts =
     (case named_route [''blobs'', ''uploads''] parts of Some (name, i) \<Rightarrow> UploadAt name i | None \<Rightarrow> NoRoute)"

definition blob_route :: "string list \<Rightarrow> docker_route" where
  "blob_route parts =
     (case named_route [''blobs''] parts of Some (name, digest) \<Rightarrow> BlobAt name digest | None \<Rightarrow> NoRoute)"

definition tags_route :: "string list \<Rightarrow> docker_route" where
  "tags_route parts =
     (case named_route [''tags''] parts of
        Some (name, l) \<Rightarrow> if l = ''list'' then TagList name else NoRoute
      | None \<Rightarrow> NoRoute)"

definition route_get :: "string list \<Rightarrow> docker_route" where
  "route_get parts =
     (if parts = [''v2''] then ApiCheck
      else if parts = [''v2'', ''_catalog''] then Catalog
      else orelse_route (tags_route parts) (orelse_route (manifest_route parts)
             (orelse_route (upload_route parts) (blob_route parts))))"

definition route_head :: "string list \<Rightarrow> docker_route" where
  "route_head parts = orelse_route (manifest_route parts) (blob_route parts)"

definition route_put :: "string list \<Rightarrow> docker_route" where
  "route_put parts = orelse_route (manifest_route parts) (upload_route parts)"

definition route_post :: "string list \<Rightarrow> docker_route" where
  "route_post parts =
     (case named_route [''blobs'', ''uploads''] parts of
        Some (name, l) \<Rightarrow>
          if l = [] then UploadStart name
          else (case named_route [''blobs''] parts of
                  Some (name, l) \<Rightarrow> if l = ''uploads'' then UploadStart name else NoRoute
                | None \<Rightarrow> NoRoute)
      | None \<Rightarrow>
          (case named_route [''blobs''] parts of
             Some (name, l) \<Rightarrow> if l = ''uploads'' then UploadStart name else NoRoute
           | None \<Rightarrow> NoRoute))"

definition route_patch :: "string list \<Rightarrow> docker_route" where
  "route_patch parts = upload_route parts"

definition route_delete :: "string list \<Rightarrow> docker_route" where
  "route_delete parts = orelse_route (manifest_route parts) (orelse_route (upload_route parts) (blob_route parts))"

section \<open>Requests\<close>

text \<open>The result is \<open>None\<close> when the search for the images needs more than \<open>fuel\<close> directories.\<close>

definition handle_get ::
  "registry_env \<Rightarrow> (string \<Rightarrow> string) \<Rightarrow> nat \<Rightarrow> docker_hosted \<Rightarrow> string \<Rightarrow> (string \<times> string) list option \<Rightarrow>
     repository_authentication \<Rightarrow> ('z, registry_response option) docker_op" where
  "handle_get env url_encode fuel repo path query authentication =
     (case route_get (request_parts path) of
        ApiCheck \<Rightarrow> ret (Some handle_api_version_check)
      | Catalog \<Rightarrow>
          (case parse_pagination_params query of
             Inl _ \<Rightarrow> ret (Some pagination_error_response)
           | Inr params \<Rightarrow> list_catalog env url_encode fuel repo params)
      | TagList name \<Rightarrow>
          (case parse_pagination_params query of
             Inl _ \<Rightarrow> ret (Some pagination_error_response)
           | Inr params \<Rightarrow> bind_ok (list_tags env url_encode repo name params) (\<lambda>r. ret (Some r)))
      | ManifestAt name reference \<Rightarrow> bind_ok (get_manifest env repo name reference) (\<lambda>r. ret (Some r))
      | UploadAt name i \<Rightarrow> bind_ok (get_blob_upload_status repo name i authentication) (\<lambda>r. ret (Some r))
      | BlobAt name digest \<Rightarrow> bind_ok (get_blob env repo name digest) (\<lambda>r. ret (Some r))
      | _ \<Rightarrow> ret (Some not_found_response))"

definition handle_head ::
  "registry_env \<Rightarrow> docker_hosted \<Rightarrow> string \<Rightarrow> ('z, registry_response) docker_op" where
  "handle_head env repo path =
     (case route_head (request_parts path) of
        ManifestAt name reference \<Rightarrow> head_manifest env repo name reference
      | BlobAt name digest \<Rightarrow> head_blob env repo name digest
      | _ \<Rightarrow> ret not_found_response)"

definition handle_post ::
  "registry_env \<Rightarrow> docker_hosted \<Rightarrow> string \<Rightarrow> repository_authentication \<Rightarrow> ('z, registry_response) docker_op" where
  "handle_post env repo path authentication =
     (case route_post (request_parts path) of
        UploadStart name \<Rightarrow> initiate_blob_upload env repo name authentication
      | _ \<Rightarrow> ret not_found_response)"

definition handle_patch ::
  "registry_env \<Rightarrow> docker_hosted \<Rightarrow> string \<Rightarrow> repository_authentication \<Rightarrow> (string + bytes) list \<Rightarrow>
     ('z, registry_response) docker_op" where
  "handle_patch env repo path authentication body =
     (case route_patch (request_parts path) of
        UploadAt name i \<Rightarrow> upload_blob_chunk env repo name i authentication body
      | _ \<Rightarrow> ret not_found_response)"

text \<open>The status and the code of an error; other errors answer for themselves.\<close>

fun docker_error_response_status :: "docker_error \<Rightarrow> (nat \<times> string) option" where
  "docker_error_response_status (ManifestNotFound _) = Some (404, ''MANIFEST_UNKNOWN'')"
| "docker_error_response_status (BlobNotFound _) = Some (404, ''BLOB_UNKNOWN'')"
| "docker_error_response_status (InvalidManifest _) = Some (400, ''MANIFEST_INVALID'')"
| "docker_error_response_status (InvalidTag _) = Some (400, ''MANIFEST_INVALID'')"
| "docker_error_response_status (DigestMismatch _ _) = Some (400, ''DIGEST_INVALID'')"
| "docker_error_response_status (TagOverwriteNotAllowed _) = Some (409, ''TAG_INVALID'')"
| "docker_error_response_status (DockerOther _) = None"
| "docker_error_response_status _ = Some (500, ''UNKNOWN'')"

section \<open>Sorted names\<close>

lemma sorted_remdups_adj_less: "sorted xs \<Longrightarrow> sorted_wrt (<) (remdups_adj (xs :: 'a :: linorder list))"
proof (induction xs rule: remdups_adj.induct)
  case (3 x y xs)
  show ?case
  proof (cases "x = y")
    case False
    with 3 have "\<forall>z \<in> set (y # xs). x < z" by (auto simp: order.strict_iff_order)
    with 3 False show ?thesis by simp
  qed (use 3 in simp)
qed simp_all

lemma sorted_names_props: "sorted_wrt (<) (sorted_names names)" "set (sorted_names names) = set names"
  by (simp_all add: sorted_names_def sorted_remdups_adj_less)

section \<open>What a page has\<close>

definition after :: "string option \<Rightarrow> string \<Rightarrow> bool" where
  "after l x = (case l of None \<Rightarrow> True | Some l \<Rightarrow> l < x)"

lemma after_simps [simp]: "after None = (\<lambda>x. True)" "after (Some l) = (\<lambda>x. l < x)"
  by (auto simp: after_def)

lemma binary_search_simps [simp]:
  "binary_search [] l = Inl 0"
  "binary_search (a # all) l =
     (if a < l then map_sum Suc Suc (binary_search all l) else if a = l then Inr 0 else Inl 0)"
  by (auto simp: binary_search_def Let_def)

lemma filter_after:
  "sorted_wrt (<) all \<Longrightarrow>
     drop (case binary_search all l of Inr i \<Rightarrow> i + 1 | Inl i \<Rightarrow> i) all = filter (\<lambda>x. l < (x :: string)) all"
proof (induction all)
  case (Cons a all)
  show ?case
  proof (cases "a < l")
    case True
    then have "\<not> l < a" by simp
    with True Cons show ?thesis by (cases "binary_search all l") simp_all
  next
    case False
    with Cons.prems have "\<forall>x \<in> set all. l < x" by (metis not_less_iff_gr_or_eq order.strict_trans sorted_wrt.simps(2))
    with False show ?thesis by (auto simp: filter_id_conv not_less_iff_gr_or_eq)
  qed
qed simp

lemma paginate_eq:
  assumes "sorted_wrt (<) all" and "pg_limit p \<noteq> Some 0"
  shows "paginate_lexically all p =
    (let rest = filter (after (pg_last p)) all
     in case pg_limit p of
          None \<Rightarrow> \<lparr>pl_values = rest, pl_next = None\<rparr>
        | Some k \<Rightarrow> \<lparr>pl_values = take k rest,
                      pl_next = if k < length rest then Some \<lparr>pc_last = last (take k rest), pc_limit = k\<rparr> else None\<rparr>)"
proof -
  define start where "start = (case pg_last p of None \<Rightarrow> 0
    | Some l \<Rightarrow> (case binary_search all l of Inr i \<Rightarrow> i + 1 | Inl i \<Rightarrow> i))"
  have rest: "drop start all = filter (after (pg_last p)) all"
    using filter_after [OF assms(1)] unfolding start_def by (cases "pg_last p") simp_all
  have len: "length (filter (after (pg_last p)) all) = length all - start" unfolding rest [symmetric] by simp
  note eq = paginate_lexically_def [of all p, folded start_def, unfolded Let_def]
  show ?thesis
  proof (cases "start \<ge> length all")
    case True
    then have "filter (after (pg_last p)) all = []" using len by simp
    with True show ?thesis by (auto simp: eq Let_def split: option.splits)
  next
    case False
    then have ne: "all \<noteq> []" by auto
    show ?thesis
    proof (cases "pg_limit p")
      case None
      with False ne show ?thesis by (simp add: eq Let_def rest)
    next
      case (Some k)
      with assms(2) have k: "k > 0" by simp
      have t: "take (min (start + k) (length all) - start) (drop start all) = take k (drop start all)"
        using False by (auto simp: min_def)
      have sel: "take k (drop start all) \<noteq> []" using False k by simp
      have nxt: "min (start + k) (length all) < length all \<longleftrightarrow> k < length (drop start all)" using False by auto
      show ?thesis using False ne Some sel nxt unfolding eq Let_def t rest [symmetric] by simp
    qed
  qed
qed

section \<open>Following the links\<close>

text \<open>A client that follows the \<open>next\<close> links: the list can be another one at every request. The second
  component says whether a page without a link was reached.\<close>

fun follow_pages :: "string list list \<Rightarrow> pagination \<Rightarrow> string list \<times> bool" where
  "follow_pages [] p = ([], False)"
| "follow_pages (all # later) p =
     (let page = paginate_lexically all p
      in case pl_next page of
           None \<Rightarrow> (pl_values page, True)
         | Some c \<Rightarrow>
             (case follow_pages later \<lparr>pg_limit = Some (pc_limit c), pg_last = Some (pc_last c)\<rparr> of
                (vs, finished) \<Rightarrow> (pl_values page @ vs, finished)))"

lemma sorted_take_drop:
  assumes "sorted_wrt (<) (xs :: string list)" and "0 < k" and "k < length xs"
  shows "\<forall>x \<in> set (take k xs). x \<le> last (take k xs)" and "\<forall>x \<in> set (drop k xs). last (take k xs) < x"
proof -
  let ?a = "take k xs"
  have ne: "?a \<noteq> []" using assms by auto
  have sorted: "sorted_wrt (<) ?a \<and> (\<forall>x \<in> set ?a. \<forall>y \<in> set (drop k xs). x < y)"
    using assms(1) sorted_wrt_append [of "(<)" ?a "drop k xs"] by simp
  show "\<forall>x \<in> set (drop k xs). last ?a < x" using sorted last_in_set [OF ne] by blast
  have "sorted_wrt (<) (butlast ?a @ [last ?a])" using sorted ne by simp
  then have "\<forall>x \<in> set (butlast ?a). x < last ?a" by (simp add: sorted_wrt_append)
  moreover have "set ?a = insert (last ?a) (set (butlast ?a))"
    using ne by (metis append_butlast_last_id list.simps(15) rotate1.simps(2) set_rotate1)
  ultimately show "\<forall>x \<in> set ?a. x \<le> last ?a" by auto
qed

lemma follow_pages_facts:
  assumes "\<forall>all \<in> set versions. sorted_wrt (<) all" and "pg_limit p \<noteq> Some 0"
    and "follow_pages versions p = (vs, finished)"
  shows "sorted_wrt (<) vs \<and> (\<forall>x \<in> set vs. after (pg_last p) x \<and> (\<exists>all \<in> set versions. x \<in> set all)) \<and>
    (finished \<longrightarrow> (\<forall>x. (\<forall>all \<in> set versions. x \<in> set all) \<and> after (pg_last p) x \<longrightarrow> x \<in> set vs)) \<and>
    (\<not> finished \<longrightarrow> length versions \<le> length vs)"
  using assms
proof (induction versions arbitrary: p vs finished)
  case (Cons all later)
  let ?rest = "filter (after (pg_last p)) all"
  have sorted: "sorted_wrt (<) all" and srest: "sorted_wrt (<) ?rest" using Cons.prems(1) by (simp_all add: sorted_wrt_filter)
  note page = paginate_eq [OF sorted Cons.prems(2), unfolded Let_def]
  show ?case
  proof (cases "\<exists>k. pg_limit p = Some k \<and> k < length ?rest")
    case False
    then have "pl_next (paginate_lexically all p) = None" "pl_values (paginate_lexically all p) = ?rest"
      using page by (auto split: option.splits)
    with Cons.prems(3) have "vs = ?rest" "finished" by (auto simp: Let_def)
    then show ?thesis using srest by auto
  next
    case True
    then obtain k where k: "pg_limit p = Some k" "k < length ?rest" by blast
    with Cons.prems(2) have pos: "0 < k" by simp
    let ?a = "take k ?rest" and ?p = "\<lparr>pg_limit = Some k, pg_last = Some (last (take k ?rest))\<rparr>"
    obtain ws fin where ws: "follow_pages later ?p = (ws, fin)" by fastforce
    have vs: "vs = ?a @ ws" "finished = fin" using Cons.prems(3) ws page k by (auto simp: Let_def)
    have "pg_limit ?p \<noteq> Some 0" "\<forall>all \<in> set later. sorted_wrt (<) all" using pos Cons.prems(1) by simp_all
    from Cons.IH [OF this(2,1) ws] have ih: "sorted_wrt (<) ws"
      "\<forall>x \<in> set ws. last ?a < x \<and> (\<exists>all \<in> set later. x \<in> set all)"
      "fin \<Longrightarrow> (\<forall>all \<in> set later. x \<in> set all) \<Longrightarrow> last ?a < x \<Longrightarrow> x \<in> set ws"
      "\<not> fin \<Longrightarrow> length later \<le> length ws" for x by auto
    note parts = sorted_take_drop [OF srest pos k(2)]
    have in_a: "after (pg_last p) x \<and> x \<in> set all" if "x \<in> set ?a" for x using in_set_takeD [OF that] by simp
    have ne: "?a \<noteq> []" using pos k(2) by auto
    have low: "after (pg_last p) x" if "last ?a < x" for x
      using in_a [OF last_in_set [OF ne]] that by (cases "pg_last p") auto
    have "x < y" if "x \<in> set ?a" "y \<in> set ws" for x y
      using parts(1) ih(2) that order.strict_trans1 by blast
    moreover have "sorted_wrt (<) ?a" using srest by (rule sorted_wrt_take)
    ultimately have "sorted_wrt (<) vs" unfolding vs(1) sorted_wrt_append using ih(1) by blast
    moreover have "\<forall>x \<in> set vs. after (pg_last p) x \<and> (\<exists>all \<in> set (all # later). x \<in> set all)"
    proof
      fix x assume "x \<in> set vs"
      then have "x \<in> set ?a \<or> x \<in> set ws" unfolding vs(1) by simp
      then show "after (pg_last p) x \<and> (\<exists>all \<in> set (all # later). x \<in> set all)"
      proof
        assume "x \<in> set ?a"
        from in_a [OF this] show ?thesis by simp
      next
        assume "x \<in> set ws"
        from bspec [OF ih(2) this] have x: "last ?a < x" "\<exists>all \<in> set later. x \<in> set all" by (rule conjunct1, rule conjunct2)
        show ?thesis using low [OF x(1)] x(2) by simp
      qed
    qed
    moreover have "x \<in> set vs" if fin: finished and x: "\<forall>all \<in> set (all # later). x \<in> set all" "after (pg_last p) x" for x
    proof -
      have "x \<in> set ?rest" using x by simp
      then have "x \<in> set ?a \<or> x \<in> set (drop k ?rest)" by (metis Un_iff append_take_drop_id set_append)
      then show ?thesis
      proof
        assume "x \<in> set (drop k ?rest)"
        then have "last ?a < x" by (rule bspec [OF parts(2)])
        moreover have "\<forall>all \<in> set later. x \<in> set all" using x(1) by simp
        ultimately have "x \<in> set ws" using ih(3) fin vs(2) by blast
        then show ?thesis unfolding vs(1) by simp
      qed (simp add: vs(1))
    qed
    moreover have "length (all # later) \<le> length vs" if "\<not> finished"
    proof -
      have "length ?a = k" using k(2) by simp
      then show ?thesis using ih(4) that vs pos by simp
    qed
    ultimately show ?thesis by blast
  qed
qed simp

lemma pagination_pairs_limit:
  "pagination_pairs pairs p = Inr p' \<Longrightarrow> pg_limit p \<noteq> Some 0 \<Longrightarrow> pg_limit p' \<noteq> Some 0"
proof (induction pairs arbitrary: p)
  case (Cons kv pairs)
  obtain q where q: "pagination_pair kv p = Inr q" "pagination_pairs pairs q = Inr p'"
    using Cons.prems(1) by (auto split: sum.splits)
  have "pg_limit q \<noteq> Some 0"
    using q(1) Cons.prems(2)
    by (cases kv) (auto simp: max_pagination_page_size_def min_def unat_eq_0 split: if_splits option.splits)
  with Cons.IH q(2) show ?case by blast
qed simp

section \<open>Where a request goes\<close>

lemma named_route_Some:
  "named_route marks parts = Some (name, l) \<longleftrightarrow>
     (\<exists>ps. ps \<noteq> [] \<and> parts = ''v2'' # ps @ marks @ [l] \<and> name = join_with ''/'' ps)"
proof
  assume run: "named_route marks parts = Some (name, l)"
  let ?n = "length parts - length marks - 2"
  have h: "length parts \<ge> length marks + 3" "hd parts = ''v2''" "take (length marks) (drop (?n + 1) parts) = marks"
    and r: "name = join_with ''/'' (take ?n (drop 1 parts))" "l = last parts"
    using run by (auto simp: named_route_def Let_def split: if_splits)
  obtain rest where parts: "parts = ''v2'' # rest" using h(1,2) by (cases parts) auto
  have n: "length rest = ?n + length marks + 1" using h(1) parts by simp
  have "rest \<noteq> []" using n by auto
  then have "rest = butlast rest @ [l]" using r(2) parts by simp
  moreover have "length (butlast rest) = ?n + length marks" using n by simp
  ultimately have "drop (?n + length marks) rest = [l]" by (metis append_eq_conv_conj)
  moreover have "take (length marks) (drop ?n rest) = marks" using h(3) parts by simp
  ultimately have "drop ?n rest = marks @ [l]"
    by (metis append_take_drop_id drop_drop add.commute)
  then have "rest = take ?n rest @ marks @ [l]" by (metis append_take_drop_id)
  moreover have "take ?n rest \<noteq> []" using n h(1) parts by auto
  ultimately show "\<exists>ps. ps \<noteq> [] \<and> parts = ''v2'' # ps @ marks @ [l] \<and> name = join_with ''/'' ps"
    using r(1) parts by (intro exI [of _ "take ?n rest"]) simp
next
  assume "\<exists>ps. ps \<noteq> [] \<and> parts = ''v2'' # ps @ marks @ [l] \<and> name = join_with ''/'' ps"
  then obtain ps where p: "ps \<noteq> []" "parts = ''v2'' # ps @ marks @ [l]" "name = join_with ''/'' ps" by blast
  then have n: "length parts - length marks - 2 = length ps" by simp
  have "Suc (length ps) \<ge> 2" using p(1) by (cases ps) auto
  then show "named_route marks parts = Some (name, l)"
    unfolding named_route_def n Let_def using p by simp
qed

lemma named_route_hit:
  "ps \<noteq> [] \<Longrightarrow> named_route marks (''v2'' # ps @ marks @ [l]) = Some (join_with ''/'' ps, l)"
  using named_route_Some by blast

text \<open>Another mark before the last part.\<close>

lemma named_route_miss:
  assumes "marks \<noteq> []" and "last marks \<noteq> m"
  shows "named_route marks (ps @ [m, l]) = None"
proof (cases "named_route marks (ps @ [m, l])")
  case (Some r)
  then obtain qs l' where "ps @ [m, l] = ''v2'' # qs @ marks @ [l']" using named_route_Some by (cases r) metis
  then have "ps @ [m] = ''v2'' # qs @ marks" by (metis append.assoc append_Cons append_Nil append_same_eq butlast_snoc)
  then have "m = last (''v2'' # qs @ marks)" by (metis last_snoc)
  with assms show ?thesis by simp
qed

definition registry_url :: "string \<Rightarrow> string list \<Rightarrow> string" where
  "registry_url name tail = ''/v2/'' @ name @ ''/'' @ join_with ''/'' tail"

lemma request_parts_url:
  assumes "tail \<noteq> []" and "\<forall>w \<in> set tail. CHR ''/'' \<notin> set w"
  shows "request_parts (registry_url name tail) = ''v2'' # split_on (CHR ''/'') name @ tail"
proof -
  have "trim_start_while (\<lambda>c. c = CHR ''/'') (registry_url name tail) = ''v2'' @ CHR ''/'' # (name @ CHR ''/'' # join_with ''/'' tail)"
    by (simp add: registry_url_def trim_start_while_def)
  then have "request_parts (registry_url name tail) =
      split_on (CHR ''/'') ''v2'' @ split_on (CHR ''/'') name @ split_on (CHR ''/'') (join_with ''/'' tail)"
    by (simp only: request_parts_def split_on_append)
  moreover have "split_on (CHR ''/'') ''v2'' = [''v2'']" by (rule split_on_no_sep) simp
  ultimately show ?thesis using split_on_join [OF assms] by simp
qed

lemma routes_of_url:
  assumes "CHR ''/'' \<notin> set x"
  shows "CHR ''/'' \<notin> set m \<Longrightarrow> named_route [m] (request_parts (registry_url name [m, x])) = Some (name, x)"
    and "CHR ''/'' \<notin> set m \<Longrightarrow> m' \<noteq> m \<Longrightarrow> named_route [m'] (request_parts (registry_url name [m, x])) = None"
    and "CHR ''/'' \<notin> set m \<Longrightarrow> m \<noteq> ''uploads'' \<Longrightarrow>
      named_route [''blobs'', ''uploads''] (request_parts (registry_url name [m, x])) = None"
    and "named_route [''blobs'', ''uploads''] (request_parts (registry_url name [''blobs'', ''uploads'', x])) = Some (name, x)"
    and "m' \<noteq> ''uploads'' \<Longrightarrow> named_route [m'] (request_parts (registry_url name [''blobs'', ''uploads'', x])) = None"
proof -
  have two: "request_parts (registry_url name [m, x]) = ''v2'' # split_on (CHR ''/'') name @ [m] @ [x]"
    if "CHR ''/'' \<notin> set m"
    using request_parts_url [of "[m, x]" name] assms that by simp
  have three: "request_parts (registry_url name [''blobs'', ''uploads'', x]) =
      ''v2'' # split_on (CHR ''/'') name @ [''blobs'', ''uploads''] @ [x]"
    using request_parts_url [of "[''blobs'', ''uploads'', x]" name] assms by simp
  show "named_route [m] (request_parts (registry_url name [m, x])) = Some (name, x)" if "CHR ''/'' \<notin> set m"
    using two [OF that] named_route_hit [of "split_on (CHR ''/'') name" "[m]" x] by simp
  show "named_route [m'] (request_parts (registry_url name [m, x])) = None" if "CHR ''/'' \<notin> set m" "m' \<noteq> m"
    using two [OF that(1)] named_route_miss [of "[m']" m "''v2'' # split_on (CHR ''/'') name" x] that(2) by simp
  show "named_route [''blobs'', ''uploads''] (request_parts (registry_url name [m, x])) = None"
    if "CHR ''/'' \<notin> set m" "m \<noteq> ''uploads''"
    using two [OF that(1)] named_route_miss [of "[''blobs'', ''uploads'']" m "''v2'' # split_on (CHR ''/'') name" x] that(2) by simp
  show "named_route [''blobs'', ''uploads''] (request_parts (registry_url name [''blobs'', ''uploads'', x])) = Some (name, x)"
    using three named_route_hit [of "split_on (CHR ''/'') name" "[''blobs'', ''uploads'']" x] by simp
  show "named_route [m'] (request_parts (registry_url name [''blobs'', ''uploads'', x])) = None" if "m' \<noteq> ''uploads''"
    using three named_route_miss [of "[m']" "''uploads''" "''v2'' # split_on (CHR ''/'') name @ [''blobs'']" x] that by simp
qed

lemma url_parts_long:
  assumes "CHR ''/'' \<notin> set x" and "CHR ''/'' \<notin> set m"
  shows "length (request_parts (registry_url name [m, x])) \<ge> 4"
    and "length (request_parts (registry_url name [''blobs'', ''uploads'', x])) \<ge> 4"
  using request_parts_url [of "[m, x]" name] request_parts_url [of "[''blobs'', ''uploads'', x]" name] assms
  by (cases "split_on (CHR ''/'') name"; simp)+

text \<open>
  C34. Every address of a hosted Docker registry reaches its handler with the name of the image and the tag,
  digest or identifier it was made from, whatever the name is: a name with further slashes, or one whose
  parts are called manifests, blobs, uploads or tags, is not mistaken for another route.
\<close>

theorem routes_roundtrip:
  assumes "CHR ''/'' \<notin> set x" and "x \<noteq> []"
  shows "let url = (\<lambda>tail. request_parts (registry_url name tail))
    in (\<forall>route \<in> {route_get, route_head, route_put, route_delete}. route (url [''manifests'', x]) = ManifestAt name x) \<and>
       (\<forall>route \<in> {route_get, route_head, route_delete}. route (url [''blobs'', x]) = BlobAt name x) \<and>
       (\<forall>route \<in> {route_get, route_put, route_patch, route_delete}. route (url [''blobs'', ''uploads'', x]) = UploadAt name x) \<and>
       route_get (url [''tags'', ''list'']) = TagList name \<and>
       route_post (url [''blobs'', ''uploads'', '''']) = UploadStart name \<and>
       route_post (url [''blobs'', ''uploads'']) = UploadStart name"
proof -
  have long: "parts \<noteq> [''v2'']" "parts \<noteq> [''v2'', ''_catalog'']" if "length parts \<ge> 4" for parts :: "string list"
    using that by auto
  note at = routes_of_url [OF assms(1)]
  note routes = route_get_def route_head_def route_put_def route_delete_def route_patch_def route_post_def
    manifest_route_def blob_route_def upload_route_def tags_route_def orelse_route_def
  have tags: "CHR ''/'' \<notin> set ''list''" "CHR ''/'' \<notin> set ''uploads''" "CHR ''/'' \<notin> set []" by simp_all
  show ?thesis
    unfolding Let_def
    using at(1) [of "''manifests''" name] at(2) [of "''manifests''" _ name] at(3) [of "''manifests''" name]
      at(1) [of "''blobs''" name] at(2) [of "''blobs''" _ name] at(3) [of "''blobs''" name]
      at(4) [of name] at(5) [of _ name]
      routes_of_url(1) [OF tags(1), of "''tags''" name]
      routes_of_url(4) [OF tags(3), of name]
      routes_of_url(1) [OF tags(2), of "''blobs''" name]
      routes_of_url(3) [OF tags(2), of "''blobs''" name]
      long [OF url_parts_long(1) [OF assms(1)], of "''manifests''" name] long [OF url_parts_long(1) [OF assms(1)], of "''blobs''" name]
      long [OF url_parts_long(2) [OF assms(1), of "[]"], of name] long [OF url_parts_long(1) [OF tags(1)], of "''tags''" name]
    by (simp add: routes)
qed

theorem routes_roundtrip_witness:
  "route_get (request_parts (registry_url ''a/blobs/uploads'' [''blobs'', ''sha256:00''])) =
     BlobAt ''a/blobs/uploads'' ''sha256:00''"
  using routes_roundtrip [of "''sha256:00''" "''a/blobs/uploads''"] by (simp add: Let_def)

text \<open>
  C33. A client that follows the links of a list of tags or images gets it completely: the pages together are
  in strictly increasing order, so nothing comes twice, everything listed existed when its page was made, and
  a name after the given start that exists all the time is listed, even when other names are added and removed
  between the requests. As long as the names come from a finite set, the walk ends after at most one request
  more than there are names. Without a limit of at least one the query is refused.
\<close>

theorem pages_complete:
  assumes "parse_pagination_params query = Inr p"
    and "follow_pages (map sorted_names stored) p = (vs, finished)"
  shows "pg_limit p \<noteq> Some 0 \<and> sorted_wrt (<) vs \<and>
    (\<forall>x \<in> set vs. after (pg_last p) x \<and> (\<exists>names \<in> set stored. x \<in> set names)) \<and>
    (finished \<longrightarrow> (\<forall>x. (\<forall>names \<in> set stored. x \<in> set names) \<longrightarrow> after (pg_last p) x \<longrightarrow> x \<in> set vs)) \<and>
    (card (\<Union>names \<in> set stored. set names) < length stored \<longrightarrow> finished)"
proof -
  have limit: "pg_limit p \<noteq> Some 0"
    using assms(1) pagination_pairs_limit unfolding parse_pagination_params_def by fastforce
  have sorted: "\<forall>all \<in> set (map sorted_names stored). sorted_wrt (<) all" by (simp add: sorted_names_props(1))
  note facts = follow_pages_facts [OF sorted limit assms(2)]
  have "finished" if few: "card (\<Union>names \<in> set stored. set names) < length stored"
  proof (rule ccontr)
    assume "\<not> finished"
    then have "length stored \<le> length vs" using facts by simp
    moreover have "distinct vs" using facts strict_sorted_iff by blast
    moreover have "set vs \<subseteq> (\<Union>names \<in> set stored. set names)" using facts sorted_names_props(2) by fastforce
    ultimately show False using few card_mono [of "\<Union>names \<in> set stored. set names" "set vs"] distinct_card [of vs] by simp
  qed
  with limit facts show ?thesis by (simp add: sorted_names_props(2))
qed

theorem pages_complete_witness:
  "\<exists>p. parse_pagination_params (Some [(''n'', ''2''), (''last'', ''a'')]) = Inr p \<and>
     follow_pages (map sorted_names [[''c'', ''b'', ''a'', ''d''], [''aa'', ''c'', ''d'', ''e''], [''d'']]) p = ([''b'', ''c'', ''d'', ''e''], True)
     \<and> pg_limit p = Some 2 \<and> ''d'' \<in> set [''b'', ''c'', ''d'', ''e'']"
proof -
  let ?p = "\<lparr>pg_limit = Some 2, pg_last = Some ''a''\<rparr>" and ?s = "[[''c'', ''b'', ''a'', ''d''], [''aa'', ''c'', ''d'', ''e''], [''d'']]"
  have p: "parse_pagination_params (Some [(''n'', ''2''), (''last'', ''a'')]) = Inr ?p"
  proof -
    have "show_nat 2 = ''2''" by code_simp
    then have "parse_u64 ''2'' = Some 2" using parse_u64_show [of 2] by simp
    then show ?thesis by (simp add: parse_pagination_params_def max_pagination_page_size_def)
  qed
  have f: "follow_pages (map sorted_names ?s) ?p = ([''b'', ''c'', ''d'', ''e''], True)" by code_simp
  from pages_complete [OF p f] have "''d'' \<in> set [''b'', ''c'', ''d'', ''e'']" by simp
  with p f show ?thesis by auto
qed

end
