(* ===== verification/DockerDeletion.thy ===== *)
theory DockerDeletion
  imports DockerRoutes
begin

text \<open>
  Deleting Docker packages (\<open>delete_docker_package\<close> and the batch of pkgly/src/app/api/repository/packages.rs)
  and keeping the table of Docker objects true to the storage (\<open>reconcile_docker_objects\<close> of
  pkgly/src/repository/docker/metadata.rs), for the local storage and a hosted repository, which has no
  proxy index. A \<open>HashSet\<close> is a list without repetitions; \<open>order\<close> gives the order it is walked in. The loops
  have fuel; their result is \<open>None\<close> when it does not suffice, or when the parser of a manifest does not
  return (see DockerManifest).
\<close>

section \<open>What belongs to a manifest\<close>

datatype docker_deletion_error =
    ManifestMissing
  | InvalidManifestPath
  | DeletionStorage local_error
  | DeletionInvalid manifest_problem
  | DeletionAccounting object_error

type_synonym ('z, 'a) deletion_op = "('z registry_db_scheme, docker_deletion_error, 'a) stm"

definition set_insert :: "'a \<Rightarrow> 'a list \<Rightarrow> 'a list" where
  "set_insert x xs = (if x \<in> set xs then xs else xs @ [x])"

definition tagmeta :: "string \<Rightarrow> string" where
  "tagmeta path = path @ ''.nr-docker-tagmeta''"

definition collect_blob_path :: "string \<Rightarrow> string \<Rightarrow> string list \<times> string list \<Rightarrow> string list \<times> string list" where
  "collect_blob_path repository_name digest sets =
     (case sets of (collected, paths) \<Rightarrow>
        if digest \<in> set collected then (collected, paths)
        else (collected @ [digest], set_insert (object_path repository_name ''blobs'' digest) paths))"

definition blob_paths :: "string \<Rightarrow> string list \<Rightarrow> string list \<Rightarrow> string list" where
  "blob_paths repository_name digests paths =
     snd (foldl (\<lambda>sets digest. collect_blob_path repository_name digest sets) ([], paths) digests)"

definition manifest_targets :: "string \<Rightarrow> string \<Rightarrow> string \<Rightarrow> string list \<Rightarrow> string list" where
  "manifest_targets repository_name cache_path digest paths =
     (let paths = set_insert (tagmeta cache_path) (set_insert cache_path paths);
          digest_path = object_path repository_name ''manifests'' digest
      in if digest_path \<noteq> cache_path
         then set_insert (tagmeta digest_path) (set_insert digest_path paths) else paths)"

definition collect_manifest_paths ::
  "registry_env \<Rightarrow> uuid \<Rightarrow> string \<Rightarrow> string \<Rightarrow> string list \<Rightarrow> string list \<Rightarrow>
     ('z, (string list \<times> string list \<times> string list) option) deletion_op" where
  "collect_manifest_paths env repository repository_name cache_path visited paths =
     bind_ok (map_err DeletionStorage (open_file (re_local env) (re_base env) repository (path_from cache_path))) (\<lambda>opened.
       case opened of
         None \<Rightarrow> fail ManifestMissing
       | Some (SDirectory _ _) \<Rightarrow> fail (DeletionInvalid ExpectedFile)
       | Some (SFile _ bytes) \<Rightarrow>
           (case from_bytes (re_json env) bytes oci_image_manifest_type of
              None \<Rightarrow> ret None
            | Some (Inl _) \<Rightarrow> fail (DeletionInvalid NotAManifest)
            | Some (Inr m) \<Rightarrow>
                let digest = sha256_digest env bytes;
                    paths = manifest_targets repository_name cache_path digest paths
                in if digest \<in> set visited then ret (Some (visited, paths, []))
                   else let visited = visited @ [digest]
                        in ret (Some (case m of
                             DockerV2 i \<Rightarrow>
                               (visited, blob_paths repository_name (map ds_digest (im_config i # im_layers i)) paths, [])
                           | OciImage i \<Rightarrow>
                               (visited, blob_paths repository_name
                                  (map ds_digest ((case oi_config i of None \<Rightarrow> [] | Some c \<Rightarrow> [c]) @ oi_layers i)) paths, [])
                           | OciIndex i \<Rightarrow>
                               (visited, paths,
                                map (\<lambda>d. object_path repository_name ''manifests'' (md_digest d))
                                  (filter (\<lambda>d. md_digest d \<notin> set visited) (ox_manifests i)))))))"

section \<open>One package\<close>

fun collect_stack ::
  "registry_env \<Rightarrow> uuid \<Rightarrow> string \<Rightarrow> string \<Rightarrow> nat \<Rightarrow> string list \<Rightarrow> string list \<Rightarrow> string list \<Rightarrow>
     ('z, string list option) deletion_op" where
  "collect_stack env repository repository_name root fuel [] visited paths = ret (Some paths)"
| "collect_stack env repository repository_name root 0 (_ # _) visited paths = ret None"
| "collect_stack env repository repository_name root (Suc fuel) (p # ps) visited paths =
     (\<lambda>s. let stack = p # ps; current = last stack; rest = butlast stack
          in case collect_manifest_paths env repository repository_name current visited paths s of
               (Inr None, t) \<Rightarrow> (Inr None, t)
             | (Inr (Some (visited', paths', nested)), t) \<Rightarrow>
                 collect_stack env repository repository_name root fuel (rest @ nested) visited' paths' t
             | (Inl e, t) \<Rightarrow>
                 if e = ManifestMissing \<and> current \<noteq> root
                 then collect_stack env repository repository_name root fuel rest visited paths t
                 else (Inl e, t))"

fun delete_files_batch :: "registry_env \<Rightarrow> uuid \<Rightarrow> storage_path list \<Rightarrow> ('z, nat) local_op" where
  "delete_files_batch env repository [] = ret 0"
| "delete_files_batch env repository (p # ps) =
     bind_ok (delete_file (re_local env) (re_base env) repository p) (\<lambda>deleted.
     bind_ok (delete_files_batch env repository ps) (\<lambda>n. ret (if deleted then Suc n else n)))"

record docker_deletion_result =
  removed_manifests :: nat
  removed_blobs :: nat

definition delete_targets ::
  "registry_env \<Rightarrow> (string list \<Rightarrow> string list) \<Rightarrow> uuid \<Rightarrow> string list \<Rightarrow> ('z, nat) deletion_op" where
  "delete_targets env order repository paths =
     bind_ok (map_err DeletionStorage (delete_files_batch env repository (map path_from (order paths)))) (\<lambda>n.
     bind_ok (map_err DeletionAccounting (delete_paths repository (order paths))) (\<lambda>_. ret n))"

definition delete_docker_package ::
  "registry_env \<Rightarrow> (string list \<Rightarrow> string list) \<Rightarrow> nat \<Rightarrow> uuid \<Rightarrow> string \<Rightarrow>
     ('z, docker_deletion_result option) deletion_op" where
  "delete_docker_package env order fuel repository cache_path =
     (case split_manifest_cache_path cache_path of
        None \<Rightarrow> fail InvalidManifestPath
      | Some (repository_name, _) \<Rightarrow>
          bind_ok (collect_stack env repository repository_name cache_path fuel [cache_path] [] []) (\<lambda>collected.
            case collected of
              None \<Rightarrow> ret None
            | Some paths \<Rightarrow>
                bind_ok (delete_targets env order repository paths) (\<lambda>_.
                  ret (Some \<lparr>removed_manifests = length (filter (\<lambda>p. contains_str ''/manifests/'' p \<and>
                                \<not> ends_with ''.nr-docker-tagmeta'' p) paths),
                             removed_blobs = length (filter (contains_str ''/blobs/'') paths)\<rparr>))))"

section \<open>Several packages\<close>

text \<open>\<open>StreamingDockerBatchDeletion\<close>.\<close>

record docker_batch =
  bd_paths :: "string list"
  bd_visited :: "string list"
  bd_missing :: "string list"
  bd_rejected :: "string list"
  bd_packages :: nat
  bd_objects :: nat

definition docker_batch_delete_flush_threshold :: nat where
  "docker_batch_delete_flush_threshold = 1000"

definition flush_batch ::
  "registry_env \<Rightarrow> (string list \<Rightarrow> string list) \<Rightarrow> uuid \<Rightarrow> docker_batch \<Rightarrow> ('z, docker_batch) deletion_op" where
  "flush_batch env order repository b =
     (if bd_paths b = [] then ret b
      else bind_ok (delete_targets env order repository (bd_paths b)) (\<lambda>n.
             ret (b\<lparr>bd_paths := [], bd_objects := bd_objects b + n\<rparr>)))"

definition flush_if_needed ::
  "registry_env \<Rightarrow> (string list \<Rightarrow> string list) \<Rightarrow> uuid \<Rightarrow> docker_batch \<Rightarrow> ('z, docker_batch) deletion_op" where
  "flush_if_needed env order repository b =
     (if length (bd_paths b) \<ge> docker_batch_delete_flush_threshold then flush_batch env order repository b else ret b)"

text \<open>The stack of one requested path; the flag is \<open>found_manifest\<close>. Failures of a flush end the batch.\<close>

fun batch_stack ::
  "registry_env \<Rightarrow> (string list \<Rightarrow> string list) \<Rightarrow> uuid \<Rightarrow> string \<Rightarrow> string \<Rightarrow> nat \<Rightarrow> string list \<Rightarrow> bool \<Rightarrow> docker_batch \<Rightarrow>
     ('z, (bool \<times> docker_batch) option) deletion_op" where
  "batch_stack env order repository repository_name path fuel [] found b = ret (Some (found, b))"
| "batch_stack env order repository repository_name path 0 (_ # _) found b = ret None"
| "batch_stack env order repository repository_name path (Suc fuel) (p # ps) found b =
     (\<lambda>s. let stack = p # ps; current = last stack; rest = butlast stack
          in case collect_manifest_paths env repository repository_name current (bd_visited b) (bd_paths b) s of
               (Inr None, t) \<Rightarrow> (Inr None, t)
             | (Inr (Some (visited, paths, nested)), t) \<Rightarrow>
                 bind_ok (flush_if_needed env order repository (b\<lparr>bd_visited := visited, bd_paths := paths\<rparr>))
                   (batch_stack env order repository repository_name path fuel (rest @ nested) True) t
             | (Inl e, t) \<Rightarrow>
                 if e = ManifestMissing \<and> current \<noteq> path
                 then batch_stack env order repository repository_name path fuel rest found b t
                 else if e = InvalidManifestPath
                 then (Inr (Some (False, b\<lparr>bd_rejected := bd_rejected b @ [path]\<rparr>)), t)
                 else (Inr (Some (False, b\<lparr>bd_missing := bd_missing b @ [path]\<rparr>)), t))"

fun batch_paths ::
  "registry_env \<Rightarrow> (string list \<Rightarrow> string list) \<Rightarrow> nat \<Rightarrow> uuid \<Rightarrow> string list \<Rightarrow> docker_batch \<Rightarrow>
     ('z, docker_batch option) deletion_op" where
  "batch_paths env order fuel repository [] b = ret (Some b)"
| "batch_paths env order fuel repository (path # rest) b =
     (if \<not> is_valid_docker_manifest_path path
      then batch_paths env order fuel repository rest (b\<lparr>bd_rejected := bd_rejected b @ [path]\<rparr>)
      else case split_manifest_cache_path path of
             None \<Rightarrow> batch_paths env order fuel repository rest (b\<lparr>bd_rejected := bd_rejected b @ [path]\<rparr>)
           | Some (repository_name, _) \<Rightarrow>
               bind_ok (batch_stack env order repository repository_name path fuel [path] False b) (\<lambda>r.
                 case r of
                   None \<Rightarrow> ret None
                 | Some (found, b) \<Rightarrow>
                     batch_paths env order fuel repository rest
                       (if found then b\<lparr>bd_packages := Suc (bd_packages b)\<rparr> else b)))"

fun batch_tagmetas ::
  "registry_env \<Rightarrow> (string list \<Rightarrow> string list) \<Rightarrow> uuid \<Rightarrow> string list \<Rightarrow> docker_batch \<Rightarrow> ('z, docker_batch) deletion_op" where
  "batch_tagmetas env order repository [] b = ret b"
| "batch_tagmetas env order repository (path # rest) b =
     bind_ok (flush_if_needed env order repository (b\<lparr>bd_paths := set_insert (tagmeta path) (bd_paths b)\<rparr>))
       (batch_tagmetas env order repository rest)"

definition collect_docker_deletions_batch ::
  "registry_env \<Rightarrow> (string list \<Rightarrow> string list) \<Rightarrow> nat \<Rightarrow> uuid \<Rightarrow> string list \<Rightarrow> ('z, docker_batch option) deletion_op" where
  "collect_docker_deletions_batch env order fuel repository paths =
     bind_ok (batch_paths env order fuel repository paths
        \<lparr>bd_paths = [], bd_visited = [], bd_missing = [], bd_rejected = [], bd_packages = 0, bd_objects = 0\<rparr>) (\<lambda>r.
       case r of
         None \<Rightarrow> ret None
       | Some b \<Rightarrow>
           bind_ok (batch_tagmetas env order repository paths b) (\<lambda>b.
           bind_ok (flush_batch env order repository b) (\<lambda>b. ret (Some b))))"

section \<open>Reconciling the table with the storage\<close>

datatype reconcile_error = ReconcileStorage local_error | ReconcileDatabase object_error

type_synonym ('z, 'a) reconcile_op = "('z registry_db_scheme, reconcile_error, 'a) stm"

definition in_storage :: "('s, local_error, 'a) stm \<Rightarrow> ('s, reconcile_error, 'a) stm" where
  "in_storage m = map_err ReconcileStorage m"

definition in_database :: "('s, object_error, 'a) stm \<Rightarrow> ('s, reconcile_error, 'a) stm" where
  "in_database m = map_err ReconcileDatabase m"

definition read_manifest_file ::
  "registry_env \<Rightarrow> uuid \<Rightarrow> storage_path \<Rightarrow> ('z, (bytes \<times> nat) option) local_op" where
  "read_manifest_file env repository path =
     bind_ok (open_file (re_local env) (re_base env) repository path) (\<lambda>opened.
       ret (case opened of
              Some (SFile meta content) \<Rightarrow> Some (content, ff_size (sf_file_type meta))
            | _ \<Rightarrow> None))"

type_synonym observed_object = "string \<times> nat \<times> string list \<times> int option"

definition observed_file :: "file_type storage_file_meta option \<Rightarrow> nat option" where
  "observed_file meta =
     (case meta of
        None \<Rightarrow> None
      | Some m \<Rightarrow> (case sf_file_type m of TypeFile f \<Rightarrow> Some (ff_size f) | TypeDirectory _ \<Rightarrow> None))"

fun backfill_collect ::
  "registry_env \<Rightarrow> uuid \<Rightarrow> string \<Rightarrow> nat \<Rightarrow> string list \<Rightarrow> string list \<Rightarrow> observed_object list \<Rightarrow>
     ('z, observed_object list option) reconcile_op" where
  "backfill_collect env repository repository_name fuel [] visited objects = ret (Some objects)"
| "backfill_collect env repository repository_name 0 (_ # _) visited objects = ret None"
| "backfill_collect env repository repository_name (Suc fuel) (p # ps) visited objects =
     (let path = last (p # ps); rest = butlast (p # ps)
      in if path \<in> set visited then backfill_collect env repository repository_name fuel rest visited objects
         else bind_ok (in_database (revision_of repository path)) (\<lambda>revision.
              if split_manifest_cache_path path \<noteq> None then
                bind_ok (in_storage (read_manifest_file env repository (path_from path))) (\<lambda>read.
                  case read of
                    None \<Rightarrow> backfill_collect env repository repository_name fuel rest (path # visited) objects
                  | Some (content, sz) \<Rightarrow>
                      (case manifest_references (re_json env) repository_name content of
                         None \<Rightarrow> ret None
                       | Some references \<Rightarrow>
                           backfill_collect env repository repository_name fuel (rest @ references) (path # visited)
                             (objects @ [(path, sz, references, revision)])))
              else
                bind_ok (in_storage (get_file_information (re_local env) (re_base env) repository (path_from path)))
                  (\<lambda>meta.
                    backfill_collect env repository repository_name fuel rest (path # visited)
                      (case observed_file meta of
                         None \<Rightarrow> objects
                       | Some sz \<Rightarrow> objects @ [(path, sz, [], revision)]))))"

fun publish_objects :: "uuid \<Rightarrow> observed_object list \<Rightarrow> ('z, unit) reconcile_op" where
  "publish_objects repository [] = ret ()"
| "publish_objects repository ((path, sz, references, revision) # rest) =
     bind_ok (in_database (case revision of
                Some known \<Rightarrow> bind_ok (upsert_if_revision repository path sz references known) (\<lambda>_. ret ())
              | None \<Rightarrow> insert_missing repository path sz references)) (\<lambda>_.
       publish_objects repository rest)"

definition backfill_manifest_objects ::
  "registry_env \<Rightarrow> nat \<Rightarrow> uuid \<Rightarrow> string \<Rightarrow> ('z, int option option) reconcile_op" where
  "backfill_manifest_objects env fuel repository root =
     (case split_manifest_cache_path root of
        None \<Rightarrow> ret (Some None)
      | Some (repository_name, _) \<Rightarrow>
          bind_ok (backfill_collect env repository repository_name fuel [root] [] []) (\<lambda>objects.
            case objects of
              None \<Rightarrow> ret None
            | Some objects \<Rightarrow>
                bind_ok (publish_objects repository (rev objects)) (\<lambda>_.
                bind_ok (in_database (referenced_size repository root)) (\<lambda>total. ret (Some total)))))"

record reconcile_summary =
  rs_backfilled :: nat
  rs_corrected :: nat
  rs_removed :: nat

text \<open>The first pass: a failed backfill is only logged.\<close>

fun backfill_entries ::
  "registry_env \<Rightarrow> nat \<Rightarrow> uuid \<Rightarrow> docker_manifest_entry list \<Rightarrow> nat \<Rightarrow> ('z, nat option) reconcile_op" where
  "backfill_entries env fuel repository [] n = ret (Some n)"
| "backfill_entries env fuel repository (entry # rest) n =
     bind_ok (in_database (needs_backfill repository (me_cache_path entry))) (\<lambda>needed.
       if \<not> needed then backfill_entries env fuel repository rest n
       else (\<lambda>s. case backfill_manifest_objects env fuel repository (me_cache_path entry) s of
                   (Inr None, t) \<Rightarrow> (Inr None, t)
                 | (Inr (Some _), t) \<Rightarrow> backfill_entries env fuel repository rest (Suc n) t
                 | (Inl _, t) \<Rightarrow> backfill_entries env fuel repository rest n t))"

text \<open>The second pass: the number of corrected rows, and the rows whose file is missing.\<close>

fun compare_rows ::
  "registry_env \<Rightarrow> uuid \<Rightarrow> (string \<times> int \<times> int) list \<Rightarrow> nat \<Rightarrow> (string \<times> int) list \<Rightarrow>
     ('z, nat \<times> (string \<times> int) list) reconcile_op" where
  "compare_rows env repository [] n missing = ret (n, missing)"
| "compare_rows env repository ((path, stored_size, revision) # rest) n missing =
     (\<lambda>s. case get_file_information (re_local env) (re_base env) repository (path_from path) s of
            (Inl _, t) \<Rightarrow> compare_rows env repository rest n missing t
          | (Inr meta, t) \<Rightarrow>
              (case observed_file meta of
                 None \<Rightarrow> compare_rows env repository rest n (missing @ [(path, revision)]) t
               | Some sz \<Rightarrow>
                   if sz \<noteq> nat (max stored_size 0) then
                     bind_ok (in_database (update_size_if_revision repository path sz revision)) (\<lambda>corrected.
                       compare_rows env repository rest (if corrected then Suc n else n) missing) t
                   else compare_rows env repository rest n missing t))"

definition reconcile_docker_objects ::
  "registry_env \<Rightarrow> nat \<Rightarrow> uuid \<Rightarrow> ('z, reconcile_summary option) reconcile_op" where
  "reconcile_docker_objects env fuel repository =
     bind_ok (in_storage (collect_manifest_entries env fuel repository)) (\<lambda>found.
       case found of
         None \<Rightarrow> ret None
       | Some entries \<Rightarrow>
           bind_ok (backfill_entries env fuel repository entries 0) (\<lambda>filled.
             case filled of
               None \<Rightarrow> ret None
             | Some backfilled \<Rightarrow>
                 bind_ok (in_database (list_rows repository)) (\<lambda>rows.
                 bind_ok (compare_rows env repository rows 0 []) (\<lambda>(corrected, missing).
                 bind_ok (if missing = [] then ret 0
                          else in_database (delete_paths_if_revisions repository missing)) (\<lambda>removed.
                   ret (Some \<lparr>rs_backfilled = backfilled, rs_corrected = corrected, rs_removed = removed\<rparr>))))))"

section \<open>What a deletion takes\<close>

lemma set_set_insert [simp]: "set (set_insert x xs) = insert x (set xs)"
  by (auto simp: set_insert_def)

lemma set_manifest_targets:
  "set (manifest_targets name path digest paths) =
     set paths \<union> {path, tagmeta path, object_path name ''manifests'' digest, tagmeta (object_path name ''manifests'' digest)}"
  by (auto simp: manifest_targets_def Let_def)

lemma set_blob_paths: "set (blob_paths name digests paths) = set paths \<union> object_path name ''blobs'' ` set digests"
proof -
  have "\<forall>d \<in> set (fst sets). object_path name ''blobs'' d \<in> set (snd sets) \<Longrightarrow>
      set (snd (foldl (\<lambda>sets d. collect_blob_path name d sets) sets digests)) =
      set (snd sets) \<union> object_path name ''blobs'' ` set digests" for sets
  proof (induction digests arbitrary: sets)
    case (Cons d digests)
    have "\<forall>c \<in> set (fst (collect_blob_path name d sets)). object_path name ''blobs'' c \<in> set (snd (collect_blob_path name d sets))"
      and "set (snd (collect_blob_path name d sets)) = insert (object_path name ''blobs'' d) (set (snd sets))"
      using Cons.prems by (auto simp: collect_blob_path_def split: prod.splits)
    with Cons.IH [of "collect_blob_path name d sets"] show ?case by simp
  qed simp
  from this [of "([], paths)"] show ?thesis by (simp add: blob_paths_def)
qed

definition image_digests :: "oci_image_manifest \<Rightarrow> string list" where
  "image_digests i = map ds_digest ((case oi_config i of None \<Rightarrow> [] | Some c \<Rightarrow> [c]) @ oi_layers i)"

definition package_targets :: "registry_env \<Rightarrow> string \<Rightarrow> string \<Rightarrow> bytes \<Rightarrow> oci_image_manifest \<Rightarrow> string set" where
  "package_targets env name path content i =
     (let digest_path = object_path name ''manifests'' (sha256_digest env content)
      in {path, tagmeta path, digest_path, tagmeta digest_path} \<union> object_path name ''blobs'' ` set (image_digests i))"

lemma collect_manifest_paths_targets:
  assumes "collect_manifest_paths env repository name path [] [] s = (r, t)"
  shows "(\<exists>e. r = Inl e) \<or>
    (\<exists>content i meta visited paths. open_file (re_local env) (re_base env) repository (path_from path) s = (Inr (Some (SFile meta content)), t) \<and>
       mj_oci_image (re_json env) content = Inr i \<and> r = Inr (Some (visited, paths, [])) \<and>
       set paths = package_targets env name path content i)"
proof (cases r)
  case (Inr x)
  with assms obtain opened u where o: "open_file (re_local env) (re_base env) repository (path_from path) s = (Inr opened, u)"
    and rest: "(case opened of
         None \<Rightarrow> fail ManifestMissing
       | Some (SDirectory _ _) \<Rightarrow> fail (DeletionInvalid ExpectedFile)
       | Some (SFile _ bytes) \<Rightarrow>
           (case from_bytes (re_json env) bytes oci_image_manifest_type of
              None \<Rightarrow> ret None
            | Some (Inl _) \<Rightarrow> fail (DeletionInvalid NotAManifest)
            | Some (Inr m) \<Rightarrow>
                let digest = sha256_digest env bytes;
                    paths = manifest_targets name path digest []
                in if digest \<in> set [] then ret (Some ([], paths, []))
                   else let visited = [] @ [digest]
                        in ret (Some (case m of
                             DockerV2 i \<Rightarrow>
                               (visited, blob_paths name (map ds_digest (im_config i # im_layers i)) paths, [])
                           | OciImage i \<Rightarrow>
                               (visited, blob_paths name
                                  (map ds_digest ((case oi_config i of None \<Rightarrow> [] | Some c \<Rightarrow> [c]) @ oi_layers i)) paths, [])
                           | OciIndex i \<Rightarrow>
                               (visited, paths,
                                map (\<lambda>d. object_path name ''manifests'' (md_digest d))
                                  (filter (\<lambda>d. md_digest d \<notin> set visited) (ox_manifests i))))))) u = (Inr x, t)"
    unfolding collect_manifest_paths_def by (auto simp: bind_ok_Inr_iff map_err_Inr)
  then obtain meta content where f: "opened = Some (SFile meta content)"
    by (auto simp: fail_def split: option.splits storage_file.splits)
  with rest obtain i where i: "mj_oci_image (re_json env) content = Inr i"
    by (cases "mj_oci_image (re_json env) content") (auto simp: from_bytes_oci_image fail_def)
  have x: "x = Some ([sha256_digest env content], blob_paths name (image_digests i)
      (manifest_targets name path (sha256_digest env content) []), [])" and u: "u = t"
    using rest f i by (simp_all add: from_bytes_oci_image ret_app Let_def image_digests_def)
  have "set (blob_paths name (image_digests i) (manifest_targets name path (sha256_digest env content) [])) =
      package_targets env name path content i"
    by (auto simp: set_blob_paths set_manifest_targets package_targets_def Let_def)
  with o f i x u Inr show ?thesis by blast
qed simp

lemma delete_paths_rows:
  assumes "delete_paths repository paths s = (Inr x, t)"
  shows "docker_objects t = filter (\<lambda>r. \<not> (do_repository r = repository \<and> do_path r \<in> set paths)) (docker_objects s)"
  using assms by (auto simp: delete_paths_def update_sql_def dest: exec_sql_Inr)

definition rows_same :: "'z object_db_scheme \<Rightarrow> 'z object_db_scheme \<Rightarrow> bool" where
  "rows_same s t = (docker_objects t = docker_objects s)"

interpretation rows_frame: frame rows_same
  by unfold_locales (auto simp: rows_same_def)

lemma rest_rows: "rest_kept s t \<Longrightarrow> docker_objects t = docker_objects (s :: 'z object_db_scheme)"
  unfolding rest_kept_def by (cases s; cases t) simp

lemma delete_files_batch_kept: "preserves rest_kept (delete_files_batch env repository ps)"
  by (induction ps) (auto intro!: rest_frame.kept_intros rest_frame.kept_operations)

lemma rest_rows_kept: "preserves rest_kept m \<Longrightarrow> preserves (rows_same :: 'z object_db_scheme \<Rightarrow> _) m"
  by (auto simp: preserves_def rows_same_def dest: rest_rows)

lemma delete_targets_rows:
  assumes run: "delete_targets env order repository paths s = (Inr n, t)" and order: "\<And>xs. set (order xs) = set xs"
  shows "docker_objects t = filter (\<lambda>r. \<not> (do_repository r = repository \<and> do_path r \<in> set paths))
    (docker_objects (s :: 'z registry_db_scheme))"
proof -
  obtain m u x where d: "delete_files_batch env repository (map path_from (order paths)) s = (Inr m, u)"
    and r: "delete_paths repository (order paths) u = (Inr x, t)"
    using run by (auto simp: delete_targets_def bind_ok_Inr_iff map_err_Inr ret_app)
  have "docker_objects u = docker_objects s" by (rule rest_rows) (rule preservesD [OF delete_files_batch_kept d])
  with delete_paths_rows [OF r] order show ?thesis by simp
qed

lemma open_file_rows:
  "open_file e base repository p s = (r, t) \<Longrightarrow> docker_objects t = docker_objects (s :: 'z object_db_scheme)"
  by (rule rest_rows) (rule preservesD [OF rest_frame.kept_operations(7)])

lemma deleted_rows:
  fixes s t :: "'z registry_db_scheme"
  assumes "delete_docker_package env order fuel repository path s = (Inr (Some r), t)"
    and "\<And>xs. set (order xs) = set xs"
  shows "\<exists>name reference content i. split_manifest_cache_path path = Some (name, reference) \<and>
    (\<exists>meta u. open_file (re_local env) (re_base env) repository (path_from path) s = (Inr (Some (SFile meta content)), u)) \<and>
    mj_oci_image (re_json env) content = Inr i \<and>
    docker_objects t = filter (\<lambda>row. \<not> (do_repository row = repository \<and>
      do_path row \<in> package_targets env name path content i)) (docker_objects s)"
proof -
  obtain name reference where split: "split_manifest_cache_path path = Some (name, reference)"
    using assms(1) by (auto simp: delete_docker_package_def fail_def split: option.splits)
  obtain collected u where c: "collect_stack env repository name path fuel [path] [] [] s = (Inr collected, u)"
    and rest: "(case collected of None \<Rightarrow> ret None
        | Some paths \<Rightarrow> bind_ok (delete_targets env order repository paths) (\<lambda>_.
            ret (Some \<lparr>removed_manifests = length (filter (\<lambda>p. contains_str ''/manifests/'' p \<and>
                                \<not> ends_with ''.nr-docker-tagmeta'' p) paths),
                       removed_blobs = length (filter (contains_str ''/blobs/'') paths)\<rparr>))) u = (Inr (Some r), t)"
    using assms(1) split by (auto simp: delete_docker_package_def bind_ok_Inr_iff)
  then obtain paths where p: "collected = Some paths" by (cases collected) (auto simp: ret_app)
  with c obtain n where n: "fuel = Suc n" by (cases fuel) (auto simp: ret_app)
  obtain x v where cm: "collect_manifest_paths env repository name path [] [] s = (x, v)" by fastforce
  note step = c [unfolded n collect_stack.simps Let_def, simplified, unfolded cm]
  have "\<not> isl x" using step by (cases x) auto
  with collect_manifest_paths_targets [OF cm] obtain content i meta visited ps where
    o: "open_file (re_local env) (re_base env) repository (path_from path) s = (Inr (Some (SFile meta content)), v)"
    and i: "mj_oci_image (re_json env) content = Inr i" and x: "x = Inr (Some (visited, ps, []))"
    and ps: "set ps = package_targets env name path content i"
    by auto
  have "paths = ps" "u = v" using step x p by (simp_all add: ret_app)
  then obtain m where "delete_targets env order repository ps v = (Inr m, t)"
    using rest p by (auto simp: bind_ok_Inr_iff ret_app)
  from delete_targets_rows [OF this assms(2)] have
    "docker_objects t = filter (\<lambda>row. \<not> (do_repository row = repository \<and>
      do_path row \<in> package_targets env name path content i)) (docker_objects s)"
    using open_file_rows [OF o] ps by simp
  with split o i show ?thesis by blast
qed

text \<open>The stored document is read as an image manifest, which names no other manifest: one round empties the
  stack, so one unit of fuel is enough and more makes no difference.\<close>

lemma collect_stack_one:
  "collect_stack env repository name path (Suc n) [path] [] [] s =
     (case collect_manifest_paths env repository name path [] [] s of
        (Inl e, t) \<Rightarrow> (Inl e, t)
      | (Inr None, t) \<Rightarrow> (Inr None, t)
      | (Inr (Some (_, paths, _)), t) \<Rightarrow> (Inr (Some paths), t))"
proof -
  obtain x t where cm: "collect_manifest_paths env repository name path [] [] s = (x, t)" by fastforce
  from collect_manifest_paths_targets [OF cm] show ?thesis
    by (auto simp: cm ret_app)
qed

lemma collect_stack_total:
  assumes "0 < fuel"
  shows "collect_stack env repository name path fuel [path] [] [] s = collect_stack env repository name path 1 [path] [] [] s"
    and "fst (collect_stack env repository name path fuel [path] [] [] s) \<noteq> Inr None"
proof -
  obtain n where n: "fuel = Suc n" using assms by (cases fuel) auto
  obtain x t where cm: "collect_manifest_paths env repository name path [] [] s = (x, t)" by fastforce
  show "collect_stack env repository name path fuel [path] [] [] s = collect_stack env repository name path 1 [path] [] [] s"
    unfolding n One_nat_def by (simp only: collect_stack_one)
  from collect_manifest_paths_targets [OF cm]
  show "fst (collect_stack env repository name path fuel [path] [] [] s) \<noteq> Inr None"
    unfolding n collect_stack_one cm by auto
qed

lemma delete_docker_package_total:
  assumes "0 < fuel"
  shows "delete_docker_package env order fuel repository path s = delete_docker_package env order 1 repository path s"
    and "fst (delete_docker_package env order fuel repository path s) \<noteq> Inr None"
proof -
  show "delete_docker_package env order fuel repository path s = delete_docker_package env order 1 repository path s"
    by (auto simp: delete_docker_package_def bind_ok_def collect_stack_total(1) [OF assms] split: option.splits)
  show "fst (delete_docker_package env order fuel repository path s) \<noteq> Inr None"
  proof (cases "split_manifest_cache_path path")
    case (Some x)
    obtain name ref where x: "x = (name, ref)" by fastforce
    obtain r t where c: "collect_stack env repository name path fuel [path] [] [] s = (r, t)" by fastforce
    then have "r \<noteq> Inr None" using collect_stack_total(2) [OF assms, of env repository name path s] by simp
    with c show ?thesis
      by (auto simp: delete_docker_package_def Some x bind_ok_def ret_def fail_def
          split: sum.splits prod.splits option.splits)
  qed (simp add: delete_docker_package_def fail_def)
qed

text \<open>
  C35. Deleting one Docker package always comes to an end: any fuel above zero gives the same result, and it is
  a success or an error. The deletion takes everything the manifest names with it: when it succeeds, the
  rows of the repository that go are exactly those of the manifest, of its copy stored by digest, and of the
  configuration and all layers it names. Nothing else is looked at, so a layer that another tag still names
  goes too; and the stored document is read as an image manifest whatever its type, so of an index, whose
  images are not layers, no image goes.
\<close>

theorem deletion_takes_shared_layers:
  fixes s t :: "'z registry_db_scheme"
  assumes "0 < fuel" and "delete_docker_package env order fuel repository path s = (x, t)"
    and "\<And>xs. set (order xs) = set xs"
  shows "(\<forall>more_fuel > 0. delete_docker_package env order more_fuel repository path s = (x, t)) \<and> x \<noteq> Inr None \<and>
    (\<forall>r. x = Inr (Some r) \<longrightarrow>
      (\<exists>name reference content i. split_manifest_cache_path path = Some (name, reference) \<and>
        (\<exists>meta u. open_file (re_local env) (re_base env) repository (path_from path) s = (Inr (Some (SFile meta content)), u)) \<and>
        mj_oci_image (re_json env) content = Inr i \<and>
        docker_objects t = filter (\<lambda>row. \<not> (do_repository row = repository \<and>
          do_path row \<in> package_targets env name path content i)) (docker_objects s)))"
proof -
  have same: "delete_docker_package env order more_fuel repository path s = (x, t)" if "0 < more_fuel" for more_fuel
    using delete_docker_package_total(1) [OF assms(1)] delete_docker_package_total(1) [OF that] assms(2) by metis
  have some: "x \<noteq> Inr None"
    using delete_docker_package_total(2) [OF assms(1), of env order repository path s] assms(2) by simp
  show ?thesis
  proof (intro conjI allI impI same some)
    fix r
    assume "x = Inr (Some r)"
    from deleted_rows [OF assms(2) [unfolded this] assms(3)]
    show "\<exists>name reference content i. split_manifest_cache_path path = Some (name, reference) \<and>
        (\<exists>meta u. open_file (re_local env) (re_base env) repository (path_from path) s = (Inr (Some (SFile meta content)), u)) \<and>
        mj_oci_image (re_json env) content = Inr i \<and>
        docker_objects t = filter (\<lambda>row. \<not> (do_repository row = repository \<and>
          do_path row \<in> package_targets env name path content i)) (docker_objects s)" .
  qed
qed

section \<open>What the reconciliation keeps\<close>

text \<open>A relation on states that the storage and the writes of one repository keep.\<close>

locale object_frame = frame same
  for same :: "'z registry_db_scheme \<Rightarrow> 'z registry_db_scheme \<Rightarrow> bool" +
  fixes repository :: uuid
  assumes same_rest: "rest_kept s t \<Longrightarrow> same s t"
    and writes: "preserves same (insert_missing repository path n references)"
      "preserves same (upsert_if_revision repository path n references known)"
      "preserves same (update_size_if_revision repository path n known)"
      "preserves same (delete_paths_if_revisions repository candidates)"
begin

lemma from_storage: "preserves rest_kept m \<Longrightarrow> preserves same m"
  by (auto simp: preserves_def intro: same_rest)

lemma reads:
  "preserves same (revision_of repository path)" "preserves same (list_rows repository)"
  "preserves same (needs_backfill repository path)" "preserves same (referenced_size repository path)"
proof -
  show "preserves same (revision_of repository path)" "preserves same (list_rows repository)"
    "preserves same (needs_backfill repository path)"
    unfolding revision_of_def list_rows_def needs_backfill_def by (rule frame_select)+
  show "preserves same (referenced_size repository path)"
    unfolding referenced_size_def by (rule frame_try) (auto simp: Let_def split: if_splits)
qed

lemma storage_reads:
  "preserves same (in_storage (read_manifest_file env repository location))"
  "preserves same (in_storage (get_file_information e base repository location))"
  unfolding in_storage_def read_manifest_file_def
  by (intro frame_map_err from_storage rest_frame.frame_bind rest_frame.frame_pure rest_frame.kept_operations)+

lemma database: "preserves same m \<Longrightarrow> preserves same (in_database m)"
  unfolding in_database_def by (rule frame_map_err)

lemma backfill_collect_kept:
  "preserves same (backfill_collect env repository name fuel pending visited objects)"
proof (induction fuel arbitrary: pending visited objects)
  case 0
  show ?case by (cases pending) (simp_all add: frame_pure)
next
  case (Suc fuel)
  show ?case
  proof (cases pending)
    case (Cons p ps)
    show ?thesis
      unfolding Cons backfill_collect.simps Let_def
      by (intro frame_if frame_bind frame_option frame_pair frame_pure database reads storage_reads Suc)
  qed (simp add: frame_pure)
qed

lemma publish_objects_kept: "preserves same (publish_objects repository objects)"
proof (induction objects)
  case (Cons object rest)
  obtain path n references revision where object: "object = (path, n, references, revision)" by (cases object) auto
  show ?case
    unfolding object publish_objects.simps
    by (intro frame_bind database frame_option frame_pure writes Cons)
qed (simp add: frame_pure)

lemma backfill_manifest_kept: "preserves same (backfill_manifest_objects env fuel repository root)"
  unfolding backfill_manifest_objects_def
  by (intro frame_option frame_pair frame_bind frame_pure database reads backfill_collect_kept publish_objects_kept)

lemma backfill_entries_kept: "preserves same (backfill_entries env fuel repository entries n)"
proof (induction entries arbitrary: n)
  case (Cons entry rest)
  let ?m = "backfill_manifest_objects env fuel repository (me_cache_path entry)"
  have "preserves same (\<lambda>s. case ?m s of
      (Inr None, t) \<Rightarrow> (Inr None, t)
    | (Inr (Some _), t) \<Rightarrow> backfill_entries env fuel repository rest (Suc n) t
    | (Inl _, t) \<Rightarrow> backfill_entries env fuel repository rest n t)"
  proof (rule preservesI)
    fix s t :: "'z registry_db_scheme" and r
    assume run: "(case ?m s of
      (Inr None, t) \<Rightarrow> (Inr None, t)
    | (Inr (Some _), t) \<Rightarrow> backfill_entries env fuel repository rest (Suc n) t
    | (Inl _, t) \<Rightarrow> backfill_entries env fuel repository rest n t) = (r, t)"
    obtain x u where m: "?m s = (x, u)" by fastforce
    have first: "same s u" by (rule preservesD [OF backfill_manifest_kept m])
    have "u = t \<or> same u t" using run m preservesD [OF Cons] by (auto split: sum.splits option.splits)
    with first show "same s t" using same_trans by blast
  qed
  then show ?case unfolding backfill_entries.simps by (intro frame_bind frame_if database reads Cons)
qed (simp add: frame_pure)

lemma compare_rows_kept: "preserves same (compare_rows env repository rows n missing)"
proof (induction rows arbitrary: n missing)
  case (Cons row rest)
  obtain path stored revision where row: "row = (path, stored, revision)" by (cases row) auto
  let ?m = "get_file_information (re_local env) (re_base env) repository (path_from path)"
  have kept: "preserves same (bind_ok (in_database (update_size_if_revision repository path sz revision))
      (\<lambda>corrected. compare_rows env repository rest (if corrected then Suc n else n) missing))" for sz
    by (intro frame_bind database writes Cons)
  show ?case
  proof (rule preservesI)
    fix s t :: "'z registry_db_scheme" and r
    assume run: "compare_rows env repository (row # rest) n missing s = (r, t)"
    obtain x u where m: "?m s = (x, u)" by fastforce
    have first: "same s u" by (rule preservesD [OF from_storage [OF rest_frame.kept_operations(6)] m])
    have "same u t"
    proof (cases x)
      case (Inl e)
      then show ?thesis using run m row preservesD [OF Cons] by simp
    next
      case (Inr meta)
      then show ?thesis
        using run m row preservesD [OF Cons] preservesD [OF kept]
        by (cases "observed_file meta") (auto split: if_splits)
    qed
    with first show "same s t" by (rule same_trans)
  qed
qed (simp add: frame_pure)

lemma manifest_search_kept: "preserves rest_kept (collect_manifest_entries env fuel repository)"
proof -
  have entries: "preserves rest_kept (visit_entries env r segments path files)" for r segments path files
  proof (induction files)
    case (Cons entry rest)
    show ?case
    proof (cases "sf_file_type entry")
      case (TypeDirectory n)
      show ?thesis
        unfolding visit_entries.simps TypeDirectory file_type.case Let_def
        by (intro rest_frame.frame_if rest_frame.frame_bind rest_frame.frame_pair rest_frame.frame_pure
            rest_frame.kept_operations Cons)
    qed (simp add: Cons)
  qed (simp add: rest_frame.frame_pure)
  have "preserves rest_kept (visit_queue env r fuel queue)" for r queue
  proof (induction fuel arbitrary: queue)
    case 0
    show ?case by (cases queue) (auto simp: rest_frame.frame_pure)
  next
    case (Suc fuel)
    show ?case
    proof (cases queue)
      case (Cons q rest)
      obtain segments path where q: "q = (segments, path)" by fastforce
      show ?thesis
        unfolding Cons q visit_queue.simps
        by (intro rest_frame.frame_bind rest_frame.kept_operations)
          (auto split: option.splits storage_file.splits
            intro!: Suc rest_frame.frame_bind rest_frame.frame_pair rest_frame.frame_pure entries)
    qed (simp add: rest_frame.frame_pure)
  qed
  then show ?thesis unfolding collect_manifest_entries_def .
qed

lemma reconcile_kept: "preserves same (reconcile_docker_objects env fuel repository)"
proof -
  have "preserves same (in_storage (collect_manifest_entries env fuel repository))"
    unfolding in_storage_def by (intro frame_map_err from_storage manifest_search_kept)
  then show ?thesis
    unfolding reconcile_docker_objects_def
    by (intro frame_bind frame_option frame_pair frame_if frame_pure database reads writes
        backfill_entries_kept compare_rows_kept)
qed

end

text \<open>The schema of the table, and the rows of the other repositories.\<close>

interpretation schema_frame: object_frame objects_kept repository
  by unfold_locales (auto simp: objects_kept_def object_queries_kept dest: rest_rows)

definition others_same :: "uuid \<Rightarrow> 'z object_db_scheme \<Rightarrow> 'z object_db_scheme \<Rightarrow> bool" where
  "others_same repository s t =
     (filter (\<lambda>r. do_repository r \<noteq> repository) (docker_objects t) =
      filter (\<lambda>r. do_repository r \<noteq> repository) (docker_objects s))"

interpretation others_frame: frame "others_same repository"
  by unfold_locales (auto simp: others_same_def)

lemma revised_others:
  assumes "revise_rows P u rows = Inr (n, rows')" and "\<And>r. P r \<Longrightarrow> do_repository r = repository"
    and "\<And>r. do_repository (u r) = do_repository r"
  shows "filter (\<lambda>r. do_repository r \<noteq> repository) rows' = filter (\<lambda>r. do_repository r \<noteq> repository) rows"
  unfolding revise_rows_Inr(2) [OF assms(1)] by (induction rows) (use assms(2,3) in auto)

lemma others_writes:
  "preserves (others_same repository) (insert_missing repository path n references)"
  "preserves (others_same repository) (upsert_if_revision repository path n references known)"
  "preserves (others_same repository) (update_size_if_revision repository path n known)"
  "preserves (others_same repository) (delete_paths_if_revisions repository candidates)"
proof -
  show "preserves (others_same repository) (insert_missing repository path n references)"
    unfolding insert_missing_def
    by (intro others_frame.frame_bind others_frame.frame_pure others_frame.frame_try)
      (auto simp: others_same_def new_object_def split: if_splits)
  show "preserves (others_same repository) (upsert_if_revision repository path n references known)"
    unfolding upsert_if_revision_def
    by (intro others_frame.frame_bind others_frame.frame_pure others_frame.frame_try)
      (auto simp: others_same_def is_object_def intro: revised_others split: sum.splits)
  show "preserves (others_same repository) (update_size_if_revision repository path n known)"
    unfolding update_size_if_revision_def
    by (intro others_frame.frame_bind others_frame.frame_pure others_frame.frame_try)
      (auto simp: others_same_def is_object_def intro: revised_others split: sum.splits)
  show "preserves (others_same repository) (delete_paths_if_revisions repository candidates)"
    unfolding delete_paths_if_revisions_def
    by (intro others_frame.frame_if others_frame.frame_pure others_frame.frame_exec)
      (auto simp: others_same_def Let_def intro: filter_cong)
qed

interpretation confined_frame: object_frame "others_same repository" repository
  by unfold_locales (auto simp: others_same_def others_writes dest: rest_rows)

text \<open>
  A reconciliation of a repository, whatever it finds in the storage and whichever reads, writes and
  statements fail, keeps the table of Docker objects well-formed (one row per object, sizes and revisions in
  range) and leaves the rows of all other repositories as they are.
\<close>

theorem reconciliation_confined:
  assumes "reconcile_docker_objects env fuel repository s = (r, t)"
  shows "(wf_objects (docker_objects s) \<longrightarrow> wf_objects (docker_objects t)) \<and>
    filter (\<lambda>row. do_repository row \<noteq> repository) (docker_objects t) =
    filter (\<lambda>row. do_repository row \<noteq> repository) (docker_objects s)"
  using preservesD [OF schema_frame.reconcile_kept assms] preservesD [OF confined_frame.reconcile_kept assms]
  by (simp add: objects_kept_def others_same_def)

section \<open>Examples\<close>

text \<open>Two tags that share the layer \<open>l\<close>; the first byte of a document stands for its content.\<close>

definition shared_layer :: descriptor where
  "shared_layer = \<lparr>ds_media_type = [], ds_digest = ''l'', ds_size = 1, ds_urls = None, ds_annotations = None\<rparr>"

declare from_bytes.simps [code]

definition deletion_env :: registry_env where
  "deletion_env =
     \<lparr>re_local = sample_env, re_base = [''srv''], re_sha256 = id, re_md5 = id, re_sha1 = id, re_sha3 = id,
      re_base64 = hex_text, re_base64_decode = (\<lambda>_. None),
      re_json = \<lparr>mj_docker_v2 = (\<lambda>_. Inl SerdeError),
        mj_oci_image = (\<lambda>_. Inr \<lparr>oi_schema_version = 2, oi_media_type = None, oi_config = None,
          oi_layers = [shared_layer], oi_annotations = None\<rparr>),
        mj_oci_index = (\<lambda>_. Inl SerdeError), mj_value = (\<lambda>_. Some None)\<rparr>,
      re_write_size = 8191\<rparr>"

definition tagged_tree :: tree where
  "tagged_tree =
     (let image = [''srv'', ''r1'', ''v2'', ''img'']
      in map (\<lambda>p. (p, DirNode)) [[''srv''], [''srv'', ''r1''], [''srv'', ''r1'', ''v2''], image, image @ [''blobs''], image @ [''manifests'']] @
         [(image @ [''blobs'', ''l''], FileNode [9]), (image @ [''manifests'', ''a''], FileNode [1]),
          (image @ [''manifests'', ''b''], FileNode [2])])"

definition tagged_db :: registry_db where
  "tagged_db = object_db.extend (local_state.extend (sample_local tagged_tree)
     \<lparr>object_repositories = [1],
      docker_objects = [new_object 1 ''v2/img/manifests/a'' 1 [''v2/img/blobs/l''],
        new_object 1 ''v2/img/manifests/b'' 1 [''v2/img/blobs/l''], new_object 1 ''v2/img/blobs/l'' 1 []]\<rparr>)
     \<lparr>upload_states = Map.empty\<rparr>"

definition tag_deleted :: registry_db where
  "tag_deleted = snd (delete_docker_package deletion_env id 1 1 ''v2/img/manifests/a'' tagged_db)"

theorem deletion_takes_shared_layers_witness:
  "\<exists>r. delete_docker_package deletion_env id 1 1 ''v2/img/manifests/a'' tagged_db = (Inr (Some r), tag_deleted) \<and>
     map do_path (docker_objects tag_deleted) = [''v2/img/manifests/b''] \<and>
     node_at (disk tag_deleted) [''srv'', ''r1'', ''v2'', ''img'', ''manifests'', ''b''] = Some (FileNode [2]) \<and>
     node_at (disk tag_deleted) [''srv'', ''r1'', ''v2'', ''img'', ''blobs'', ''l''] = None"
proof -
  have "case delete_docker_package deletion_env id 1 1 ''v2/img/manifests/a'' tagged_db of
      (Inr (Some _), t) \<Rightarrow> node_at (disk t) [''srv'', ''r1'', ''v2'', ''img'', ''manifests'', ''b''] = Some (FileNode [2]) \<and>
        node_at (disk t) [''srv'', ''r1'', ''v2'', ''img'', ''blobs'', ''l''] = None
    | _ \<Rightarrow> False" by code_simp
  then obtain r where run: "delete_docker_package deletion_env id 1 1 ''v2/img/manifests/a'' tagged_db = (Inr (Some r), tag_deleted)"
    and files: "node_at (disk tag_deleted) [''srv'', ''r1'', ''v2'', ''img'', ''manifests'', ''b''] = Some (FileNode [2])"
      "node_at (disk tag_deleted) [''srv'', ''r1'', ''v2'', ''img'', ''blobs'', ''l''] = None"
    unfolding tag_deleted_def
    by (cases "delete_docker_package deletion_env id 1 1 ''v2/img/manifests/a'' tagged_db")
      (auto split: sum.splits option.splits)
  have "set (id xs) = set xs" for xs :: "string list" by simp
  from deletion_takes_shared_layers [OF zero_less_one run this] obtain name reference content i where
    split: "split_manifest_cache_path ''v2/img/manifests/a'' = Some (name, reference)"
    and i: "mj_oci_image (re_json deletion_env) content = Inr i"
    and rows: "docker_objects tag_deleted = filter (\<lambda>row. \<not> (do_repository row = 1 \<and>
      do_path row \<in> package_targets deletion_env name ''v2/img/manifests/a'' content i)) (docker_objects tagged_db)"
    by blast
  have "split_manifest_cache_path ''v2/img/manifests/a'' = Some (''img'', ''a'')" by code_simp
  with split have name: "name = ''img''" by simp
  have layers: "image_digests i = [''l'']" using i by (auto simp: deletion_env_def image_digests_def shared_layer_def)
  have left: "map do_path (docker_objects tag_deleted) = [''v2/img/manifests/b'']"
    unfolding rows package_targets_def layers name Let_def
    by (simp add: tagged_db_def object_db.defs local_state.defs new_object_def object_path_def tagmeta_def sha256_digest_def)
  show ?thesis by (intro exI [of _ r] conjI) (rule run, rule left, rule files, rule files)
qed

theorem reconciliation_confined_witness:
  "wf_objects (docker_objects (snd (reconcile_docker_objects deletion_env 9 1 tagged_db)))"
proof -
  have "wf_objects (docker_objects tagged_db)" by code_simp
  moreover obtain r t where run: "reconcile_docker_objects deletion_env 9 1 tagged_db = (r, t)" by fastforce
  ultimately show ?thesis using reconciliation_confined [OF run] by simp
qed

end
