(* ===== verification/GoModules.thy ===== *)
theory GoModules
  imports StoragePath
begin

text \<open>
  Names of Go modules and versions (pkgly/src/repository/go/types.rs) and the requests of the module
  proxy protocol (pkgly/src/repository/go/utils.rs): the path of a request is parsed into a module, a
  version and a kind of request, from which the path in the storage and the key of the proxy's cache are
  made. \<open>GoModulePath\<close> and \<open>GoVersion\<close> are the strings that their constructors accept.
\<close>

section \<open>Module paths\<close>

datatype go_module_error =
    EmptyPath
  | EmptyVersion
  | InvalidCharacters string
  | InvalidPathFormat string
  | InvalidDomain string
  | InvalidVersion string
  | InvalidModulePath string
  | InvalidGoRequest string

definition is_valid_path_char :: "char \<Rightarrow> bool" where
  "is_valid_path_char c =
     (is_ascii_alnum c \<or> c \<in> {CHR ''-'', CHR ''_'', CHR ''.'', CHR ''/'', CHR ''~''})"

text \<open>A byte above 127 belongs to a character that fails the last test, whatever the first two say.\<close>

definition is_valid_label :: "string \<Rightarrow> bool" where
  "is_valid_label label =
     (label \<noteq> [] \<and> length label \<le> 63 \<and> is_ascii_alnum (hd label) \<and> is_ascii_alnum (last label) \<and>
      list_all (\<lambda>c. is_ascii_alnum c \<or> c = CHR ''-'') label)"

definition is_valid_domain :: "string \<Rightarrow> bool" where
  "is_valid_domain domain =
     (domain \<noteq> [] \<and> length domain \<le> 253 \<and> list_all is_valid_label (split_on (CHR ''.'') domain))"

definition validate_module_path :: "string \<Rightarrow> go_module_error + unit" where
  "validate_module_path path =
     (if path = [] then Inl EmptyPath
      else if list_ex (\<lambda>c. \<not> is_valid_path_char c) path then Inl (InvalidCharacters path)
      else if starts_with ''/'' path \<or> ends_with ''/'' path then Inl (InvalidPathFormat path)
      else if contains_str ''//'' path then Inl (InvalidPathFormat path)
      else
        (let parts = split_on (CHR ''/'') path
         in if length parts > 1 \<and> contains_str ''.'' (hd parts) \<and> \<not> is_valid_domain (hd parts)
            then Inl (InvalidDomain (hd parts)) else Inr ()))"

definition go_module_path :: "string \<Rightarrow> go_module_error + string" where
  "go_module_path path =
     (case validate_module_path path of Inl e \<Rightarrow> Inl e | Inr _ \<Rightarrow> Inr path)"

section \<open>Versions\<close>

definition is_pseudo_version :: "string \<Rightarrow> bool" where
  "is_pseudo_version version = (contains_str ''-'' version \<and> length (filter (\<lambda>c. c = CHR ''-'') version) \<ge> 2)"

definition trim_v :: "string \<Rightarrow> string" where
  "trim_v = trim_start_while (\<lambda>c. c = CHR ''v'')"

definition parse_semver :: "string \<Rightarrow> go_module_error + u64 \<times> u64 \<times> u64" where
  "parse_semver version =
     (let base_version = trim_v (if is_pseudo_version version then hd (split_on (CHR ''-'') version) else version)
      in case split_on (CHR ''.'') base_version of
           [a, b, c] \<Rightarrow>
             (case (parse_u64 a, parse_u64 b, parse_u64 c) of
                (Some major, Some minor, Some patch) \<Rightarrow> Inr (major, minor, patch)
              | _ \<Rightarrow> Inl (InvalidVersion version))
         | _ \<Rightarrow> Inl (InvalidVersion version))"

definition validate_version :: "string \<Rightarrow> go_module_error + unit" where
  "validate_version version =
     (if version = [] then Inl EmptyVersion
      else
        (let version = trim_v version
         in if contains_str '' '' version then Inl (InvalidVersion version)
            else
              (let parts = split_on (CHR ''.'') version
               in if length parts < 2 then Inl (InvalidVersion version)
                  else if parse_u64 (hd parts) = None then Inl (InvalidVersion version)
                  else Inr ())))"

definition go_version :: "string \<Rightarrow> go_module_error + string" where
  "go_version version = (case validate_version version of Inl e \<Rightarrow> Inl e | Inr _ \<Rightarrow> Inr version)"

section \<open>Requests\<close>

datatype go_request_type =
    ListVersions
  | VersionInfo
  | GoMod
  | ModuleZip
  | Latest
  | GoModWithoutVersion
  | SumdbSupported
  | SumdbLookup
  | SumdbTile

record go_module_request =
  gr_module_path :: string
  gr_version :: "string option"
  gr_request_type :: go_request_type
  gr_sumdb_path :: "string option"

definition module_request :: "go_request_type \<Rightarrow> string \<Rightarrow> go_module_error + go_module_request" where
  "module_request request_type module_part =
     (case go_module_path module_part of
        Inl e \<Rightarrow> Inl e
      | Inr module_path \<Rightarrow>
          Inr \<lparr>gr_module_path = module_path, gr_version = None, gr_request_type = request_type, gr_sumdb_path = None\<rparr>)"

definition sumdb_request :: "go_request_type \<Rightarrow> string \<Rightarrow> go_module_error + go_module_request" where
  "sumdb_request request_type stored =
     (case go_module_path ''sumdb.request'' of
        Inl e \<Rightarrow> Inl e
      | Inr dummy_module \<Rightarrow>
          Inr \<lparr>gr_module_path = dummy_module, gr_version = None, gr_request_type = request_type,
               gr_sumdb_path = Some stored\<rparr>)"

definition parse_sumdb_request :: "string \<Rightarrow> go_module_error + go_module_request" where
  "parse_sumdb_request path =
     (if ends_with ''/supported'' path then
        (let normalized = trim_start_while (\<lambda>c. c = CHR ''/'') (trim_prefixes ''sum.golang.org/'' path);
             stored = (if normalized = [] then ''supported'' else normalized)
         in if contains_str ''..'' stored then Inl (InvalidGoRequest (''Invalid sumdb path: '' @ path))
            else sumdb_request SumdbSupported stored)
      else
        (case strip_prefix ''sum.golang.org/lookup/'' path of
           Some lookup_path \<Rightarrow>
             (let lookup_path = trim_start_while (\<lambda>c. c = CHR ''/'') lookup_path
              in if contains_str ''..'' lookup_path
                 then Inl (InvalidGoRequest (''Invalid sumdb lookup path: '' @ path))
                 else sumdb_request SumdbLookup (''lookup/'' @ lookup_path))
         | None \<Rightarrow>
             (case strip_prefix ''sum.golang.org/tile/'' path of
                Some tile_path \<Rightarrow>
                  (let tile_path = trim_start_while (\<lambda>c. c = CHR ''/'') tile_path
                   in if contains_str ''..'' tile_path
                      then Inl (InvalidGoRequest (''Invalid sumdb tile path: '' @ path))
                      else sumdb_request SumdbTile (''tile/'' @ tile_path))
              | None \<Rightarrow> Inl (InvalidGoRequest (''Unsupported sumdb path: '' @ path)))))"

definition versioned_request ::
  "go_request_type \<Rightarrow> string \<Rightarrow> string \<Rightarrow> go_module_error + go_module_request" where
  "versioned_request request_type module_path version_str =
     (case go_version version_str of
        Inl e \<Rightarrow> Inl e
      | Inr version \<Rightarrow>
          Inr \<lparr>gr_module_path = module_path, gr_version = Some version, gr_request_type = request_type,
               gr_sumdb_path = None\<rparr>)"

text \<open>A path with \<open>/@v/\<close> whose file has none of the three extensions goes on to the next test.\<close>

definition from_path :: "string \<Rightarrow> go_module_error + go_module_request" where
  "from_path full =
     (let path = trim_start_while (\<lambda>c. c = CHR ''/'') full;
          no_endpoint = (case strip_suffix ''/go.mod'' path of
                           Some module_part \<Rightarrow> module_request GoModWithoutVersion module_part
                         | None \<Rightarrow> Inl (InvalidModulePath path))
      in if path = [] then Inl EmptyPath
         else case strip_prefix ''sumdb/'' path of
           Some sumdb_path \<Rightarrow> parse_sumdb_request sumdb_path
         | None \<Rightarrow>
        (case strip_suffix ''/@latest'' path of
           Some module_part \<Rightarrow> module_request Latest module_part
         | None \<Rightarrow>
        (case strip_suffix ''/@v/list'' path of
           Some module_part \<Rightarrow> module_request ListVersions module_part
         | None \<Rightarrow>
        (case split_once ''/@v/'' path of
           None \<Rightarrow> no_endpoint
         | Some (module_part, file_part) \<Rightarrow>
             (case go_module_path module_part of
                Inl e \<Rightarrow> Inl e
              | Inr module_path \<Rightarrow>
             (case strip_suffix ''.info'' file_part of
                Some version_str \<Rightarrow> versioned_request VersionInfo module_path version_str
              | None \<Rightarrow>
             (case strip_suffix ''.mod'' file_part of
                Some version_str \<Rightarrow> versioned_request GoMod module_path version_str
              | None \<Rightarrow>
             (case strip_suffix ''.zip'' file_part of
                Some version_str \<Rightarrow> versioned_request ModuleZip module_path version_str
              | None \<Rightarrow> no_endpoint))))))))"

section \<open>Where a request leads\<close>

definition versioned_path :: "go_module_request \<Rightarrow> string \<Rightarrow> string option" where
  "versioned_path r ext =
     map_option (\<lambda>version. gr_module_path r @ ''/@v/'' @ version @ ext) (gr_version r)"

text \<open>The text made into the storage path; \<open>None\<close> when a version is needed and missing (\<open>NotFound\<close>).\<close>

definition request_text :: "go_module_request \<Rightarrow> string option" where
  "request_text r =
     (case gr_request_type r of
        ListVersions \<Rightarrow> Some (gr_module_path r @ ''/@v/list'')
      | VersionInfo \<Rightarrow> versioned_path r ''.info''
      | GoMod \<Rightarrow> versioned_path r ''.mod''
      | ModuleZip \<Rightarrow> versioned_path r ''.zip''
      | Latest \<Rightarrow> Some (gr_module_path r @ ''/@latest'')
      | GoModWithoutVersion \<Rightarrow> Some (gr_module_path r @ ''/go.mod'')
      | SumdbSupported \<Rightarrow> Some ''sumdb/supported''
      | SumdbLookup \<Rightarrow> Some ''sumdb/lookup''
      | SumdbTile \<Rightarrow> Some ''sumdb/tile'')"

definition request_storage_path :: "go_module_request \<Rightarrow> storage_path option" where
  "request_storage_path r = map_option path_from (request_text r)"

definition trim_slashes :: "string \<Rightarrow> string" where
  "trim_slashes s = trim_end_while (\<lambda>c. c = CHR ''/'') (trim_start_while (\<lambda>c. c = CHR ''/'') s)"

definition cache_key :: "go_module_request \<Rightarrow> string option" where
  "cache_key r =
     (let r' = r\<lparr>gr_module_path := trim_slashes (gr_module_path r)\<rparr>
      in case gr_request_type r of
           SumdbSupported \<Rightarrow> Some ''sumdb/supported''
         | SumdbLookup \<Rightarrow>
             (let key = (case gr_sumdb_path r of None \<Rightarrow> [] | Some k \<Rightarrow> k)
              in if key = [] then Some ''sumdb/lookup''
                 else Some (''sumdb/'' @ trim_start_while (\<lambda>c. c = CHR ''/'') key))
         | SumdbTile \<Rightarrow>
             (let key = (case gr_sumdb_path r of None \<Rightarrow> [] | Some k \<Rightarrow> k)
              in if key = [] then Some ''sumdb/lookup''
                 else Some (''sumdb/'' @ trim_start_while (\<lambda>c. c = CHR ''/'') key))
         | _ \<Rightarrow> request_text r')"

definition generate_go_mod :: "string \<Rightarrow> string" where
  "generate_go_mod module_path = ''module '' @ module_path @ [CHR 0x0A, CHR 0x0A] @ ''go 1.21'' @ [CHR 0x0A]"

section \<open>The requests that are accepted\<close>

definition versioned_type :: "go_request_type \<Rightarrow> bool" where
  "versioned_type t = (t \<in> {VersionInfo, GoMod, ModuleZip})"

definition sumdb_type :: "go_request_type \<Rightarrow> bool" where
  "sumdb_type t = (t \<in> {SumdbSupported, SumdbLookup, SumdbTile})"

text \<open>A request for a module: its path and version are ones the constructors accept.\<close>

definition wf_module_request :: "go_module_request \<Rightarrow> bool" where
  "wf_module_request r =
     (go_module_path (gr_module_path r) = Inr (gr_module_path r) \<and>
      \<not> starts_with ''sumdb/'' (gr_module_path r @ ''/'') \<and> gr_sumdb_path r = None \<and> \<not> sumdb_type (gr_request_type r) \<and>
      (if versioned_type (gr_request_type r)
       then (case gr_version r of None \<Rightarrow> False | Some v \<Rightarrow> go_version v = Inr v)
       else gr_version r = None))"

lemma go_module_pathD:
  assumes "go_module_path m = Inr m'"
  shows "m' = m" and "m \<noteq> []" and "list_all is_valid_path_char m" and "hd m \<noteq> CHR ''/''" and "last m \<noteq> CHR ''/''"
    and "\<not> contains_str ''//'' m"
  using assms
  by (auto simp: go_module_path_def validate_module_path_def Let_def list_all_iff list_ex_iff starts_with_char
      ends_with_char split: sum.splits if_splits)

lemma go_versionD: "go_version v = Inr v' \<Longrightarrow> v' = v"
  by (auto simp: go_version_def split: sum.splits)

lemma no_at: "list_all is_valid_path_char m \<Longrightarrow> CHR ''@'' \<notin> set m"
  by (auto simp: list_all_iff is_valid_path_char_def is_ascii_alnum_def is_ascii_alpha_def is_ascii_lower_def
      is_ascii_upper_def is_ascii_digit_def)

lemma split_once_at:
  assumes "CHR ''@'' \<notin> set m"
  shows "split_once ''/@v/'' (m @ ''/@v/'' @ f) = Some (m, f)"
  using assms
proof (induction m)
  case Nil
  show ?case by simp
next
  case (Cons c m)
  have "strip_prefix ''/@v/'' (c # m @ ''/@v/'' @ f) = None"
    using Cons.prems by (cases m) (auto split: if_splits)
  then show ?case using Cons by (auto simp del: strip_prefix.simps)
qed

lemma split_once_no_at: "CHR ''@'' \<notin> set m \<Longrightarrow> split_once ''/@v/'' m = None"
  by (auto simp: split_once_None contains_str_iff)

lemma module_request_Inr:
  "module_request t m = Inr r \<longleftrightarrow> go_module_path m = Inr m \<and>
     r = \<lparr>gr_module_path = m, gr_version = None, gr_request_type = t, gr_sumdb_path = None\<rparr>"
  by (auto simp: module_request_def dest: go_module_pathD(1) split: sum.splits)

lemma versioned_request_Inr:
  "versioned_request t m v = Inr r \<longleftrightarrow> go_version v = Inr v \<and>
     r = \<lparr>gr_module_path = m, gr_version = Some v, gr_request_type = t, gr_sumdb_path = None\<rparr>"
  by (auto simp: versioned_request_def dest: go_versionD split: sum.splits)

lemma sumdb_request_stored: "parse_sumdb_request p = Inr r \<Longrightarrow> gr_sumdb_path r \<noteq> None"
  by (auto simp: parse_sumdb_request_def sumdb_request_def Let_def split: if_splits option.splits sum.splits)

definition leading :: "string \<Rightarrow> string" where
  "leading p = trim_start_while (\<lambda>c. c = CHR ''/'') p"

lemma starts_with_dir:
  "c \<notin> set w \<Longrightarrow> starts_with (w @ [c]) (m @ c # rest) \<longleftrightarrow> starts_with (w @ [c]) (m @ [c])"
proof (induction w arbitrary: m)
  case Nil
  then show ?case by (cases m) (auto simp: starts_with_def)
next
  case (Cons x w)
  then show ?case by (cases m) (auto simp: starts_with_def split: if_splits)
qed

lemma sumdb_dir: "starts_with ''sumdb/'' (m @ ''/'' @ rest) \<longleftrightarrow> starts_with ''sumdb/'' (m @ ''/'')"
  using starts_with_dir [of "CHR ''/''" "''sumdb''" m rest] by simp

text \<open>The text of a request for a module is its module, a slash and a part with the at sign, or \<open>go.mod\<close>.\<close>

lemma request_text_cases:
  assumes "request_text r = Some t" and "wf_module_request r"
  obtains v ext where "t = gr_module_path r @ ''/@v/'' @ v @ ext" and "gr_version r = Some v" and "go_version v = Inr v"
      and "(gr_request_type r, ext) \<in> {(VersionInfo, ''.info''), (GoMod, ''.mod''), (ModuleZip, ''.zip'')}"
  | "t = gr_module_path r @ ''/@v/list''" and "gr_version r = None" and "gr_request_type r = ListVersions"
  | "t = gr_module_path r @ ''/@latest''" and "gr_version r = None" and "gr_request_type r = Latest"
  | "t = gr_module_path r @ ''/go.mod''" and "gr_version r = None" and "gr_request_type r = GoModWithoutVersion"
  using assms
  by (cases "gr_request_type r")
    (auto simp: request_text_def versioned_path_def wf_module_request_def versioned_type_def sumdb_type_def
      split: option.splits)

lemma no_suffix:
  "strip_suffix ''/@latest'' (m @ ''/@v/'' @ v @ ''.info'') = None"
  "strip_suffix ''/@latest'' (m @ ''/@v/'' @ v @ ''.mod'') = None"
  "strip_suffix ''/@latest'' (m @ ''/@v/'' @ v @ ''.zip'') = None"
  "strip_suffix ''/@v/list'' (m @ ''/@v/'' @ v @ ''.info'') = None"
  "strip_suffix ''/@v/list'' (m @ ''/@v/'' @ v @ ''.mod'') = None"
  "strip_suffix ''/@v/list'' (m @ ''/@v/'' @ v @ ''.zip'') = None"
  "strip_suffix ''/@latest'' (m @ ''/@v/list'') = None"
  "strip_suffix ''/@latest'' (m @ ''/go.mod'') = None"
  "strip_suffix ''/@v/list'' (m @ ''/go.mod'') = None"
  "strip_suffix ''.info'' (v @ ''.mod'') = None" "strip_suffix ''.info'' (v @ ''.zip'') = None"
  "strip_suffix ''.mod'' (v @ ''.zip'') = None"
  by (simp_all add: strip_suffix_def)

lemmas other_suffixes = no_suffix no_suffix [simplified append_Cons append_Nil]

lemma from_path_text:
  assumes wf: "wf_module_request r" and shown: "request_text r = Some t" and lead: "leading p = t"
  shows "from_path p = Inr r"
proof -
  have m: "go_module_path (gr_module_path r) = Inr (gr_module_path r)" using wf by (simp add: wf_module_request_def)
  note at = no_at [OF go_module_pathD(3) [OF m]]
  have sum: "strip_prefix ''sumdb/'' (gr_module_path r @ ''/'' @ rest) = None" for rest
    using wf sumdb_dir [of "gr_module_path r" rest] by (auto simp: wf_module_request_def starts_with_def)
  have s: "gr_sumdb_path r = None" using wf by (simp add: wf_module_request_def)
  from shown wf show ?thesis
  proof (cases rule: request_text_cases)
    case (1 v ext)
    have "strip_prefix ''sumdb/'' t = None" using sum [of "''@v/'' @ v @ ext"] 1(1) by simp
    moreover have "split_once ''/@v/'' t = Some (gr_module_path r, v @ ext)" using split_once_at [OF at] 1(1) by simp
    moreover have "t \<noteq> []" using 1(1) by simp
    ultimately show ?thesis using 1 m s lead
      by (cases r) (auto simp: from_path_def leading_def Let_def other_suffixes versioned_request_Inr)
  next
    case 2
    have "strip_prefix ''sumdb/'' t = None" using sum [of "''@v/list''"] 2(1) by simp
    then show ?thesis using 2 m s lead
      by (cases r) (auto simp: from_path_def leading_def Let_def other_suffixes module_request_Inr)
  next
    case 3
    have "strip_prefix ''sumdb/'' t = None" using sum [of "''@latest''"] 3(1) by simp
    then show ?thesis using 3 m s lead
      by (cases r) (auto simp: from_path_def leading_def Let_def other_suffixes module_request_Inr)
  next
    case 4
    have "strip_prefix ''sumdb/'' t = None" using sum [of "''go.mod''"] 4(1) by simp
    moreover have "split_once ''/@v/'' t = None" using at 4(1) by (intro split_once_no_at) auto
    ultimately show ?thesis using 4 m s lead
      by (cases r) (auto simp: from_path_def leading_def Let_def other_suffixes module_request_Inr)
  qed
qed

lemma from_path_accepted:
  assumes "from_path p = Inr r" and "gr_sumdb_path r = None"
  shows "wf_module_request r \<and> request_text r = Some (leading p)"
proof -
  let ?t = "leading p"
  have ne: "?t \<noteq> []" and nosum: "strip_prefix ''sumdb/'' ?t = None"
    using assms by (auto simp: from_path_def leading_def Let_def dest: sumdb_request_stored split: if_splits option.splits)
  have sum: "\<not> starts_with ''sumdb/'' (m @ ''/'')" if "?t = m @ CHR ''/'' # rest" for m rest
    using nosum sumdb_dir [of m rest] that by (simp add: starts_with_def)
  note wf = wf_module_request_def request_text_def versioned_path_def versioned_type_def sumdb_type_def
  have goal: "wf_module_request r \<and> request_text r = Some ?t" if "module_request t m = Inr r"
    "(t, ?t) \<in> {(Latest, m @ ''/@latest''), (ListVersions, m @ ''/@v/list''), (GoModWithoutVersion, m @ ''/go.mod'')}" for t m
    using that sum [of m "tl (drop (length m) ?t)"] by (auto simp: module_request_Inr wf)
  have goal': "wf_module_request r \<and> request_text r = Some ?t" if "go_module_path m = Inr m'"
    "versioned_request t m' v = Inr r" "(t, ?t) \<in> {(VersionInfo, m @ ''/@v/'' @ v @ ''.info''),
      (GoMod, m @ ''/@v/'' @ v @ ''.mod''), (ModuleZip, m @ ''/@v/'' @ v @ ''.zip'')}" for t m m' v
    using that sum [of m "tl (drop (length m) ?t)"] go_module_pathD(1) [OF that(1)]
    by (auto simp: versioned_request_Inr wf)
  show ?thesis
    using assms(1) ne nosum goal goal'
    by (auto simp: from_path_def leading_def [symmetric] Let_def strip_suffix_Some dest!: split_once_Some
        split: option.splits sum.splits)
qed

lemma trim_accepted:
  assumes "go_module_path m = Inr m"
  shows "trim_slashes m = m"
  using go_module_pathD(2,4,5) [OF assms] by (simp add: trim_slashes_def trim_start_while_id trim_end_while_id)

lemma cache_key_module:
  assumes "wf_module_request r"
  shows "cache_key r = request_text r"
proof -
  have "r\<lparr>gr_module_path := trim_slashes (gr_module_path r)\<rparr> = r"
    using assms trim_accepted by (cases r) (simp add: wf_module_request_def)
  then show ?thesis using assms
    by (cases "gr_request_type r") (auto simp: cache_key_def Let_def wf_module_request_def sumdb_type_def)
qed

lemma cache_key_sumdb: "sumdb_type (gr_request_type r) \<Longrightarrow> cache_key r = Some k \<Longrightarrow> starts_with ''sumdb/'' k"
  by (auto simp: sumdb_type_def cache_key_def Let_def starts_with_def split: if_splits)

lemma sumdb_request_type: "parse_sumdb_request p = Inr r \<Longrightarrow> sumdb_type (gr_request_type r)"
  by (auto simp: parse_sumdb_request_def sumdb_request_def Let_def sumdb_type_def
      split: if_splits option.splits sum.splits)

lemma text_not_sumdb:
  assumes "wf_module_request r" and "request_text r = Some t"
  shows "\<not> starts_with ''sumdb/'' t"
  using assms(2,1)
proof (cases rule: request_text_cases)
  case (1 v ext)
  then show ?thesis using assms(1) sumdb_dir [of "gr_module_path r" "''@v/'' @ v @ ext"] by (simp add: wf_module_request_def)
next
  case 2
  then show ?thesis using assms(1) sumdb_dir [of "gr_module_path r" "''@v/list''"] by (simp add: wf_module_request_def)
next
  case 3
  then show ?thesis using assms(1) sumdb_dir [of "gr_module_path r" "''@latest''"] by (simp add: wf_module_request_def)
next
  case 4
  then show ?thesis using assms(1) sumdb_dir [of "gr_module_path r" "''go.mod''"] by (simp add: wf_module_request_def)
qed

lemma from_path_sumdb:
  assumes "from_path p = Inr r" and "gr_sumdb_path r \<noteq> None"
  shows "sumdb_type (gr_request_type r)"
proof (cases "strip_prefix ''sumdb/'' (leading p)")
  case (Some rest)
  then show ?thesis using assms by (auto simp: from_path_def leading_def Let_def dest: sumdb_request_type split: if_splits)
next
  case None
  then have "gr_sumdb_path r = None" using assms(1)
    by (auto simp: from_path_def leading_def Let_def module_request_Inr versioned_request_Inr
        split: if_splits option.splits sum.splits)
  with assms(2) show ?thesis by simp
qed

section \<open>Properties\<close>

text \<open>
  C39. The requests of the Go module protocol are parsed without loss. A path is accepted as a request for a
  module exactly when it is, up to slashes at its start, the text that is made from the request again: a
  module path and a version that their constructors accept, with one of the six endings. The same text names
  the file in the storage.
\<close>

theorem go_requests_roundtrip:
  "(from_path p = Inr r \<and> gr_sumdb_path r = None) = (wf_module_request r \<and> request_text r = Some (leading p))"
proof
  assume "from_path p = Inr r \<and> gr_sumdb_path r = None"
  then show "wf_module_request r \<and> request_text r = Some (leading p)" using from_path_accepted by blast
next
  assume h: "wf_module_request r \<and> request_text r = Some (leading p)"
  then have "from_path p = Inr r" using from_path_text by blast
  with h show "from_path p = Inr r \<and> gr_sumdb_path r = None" unfolding wf_module_request_def by blast
qed

text \<open>
  C40. The proxy's cache never mixes requests up: when a request for a module and any other accepted request,
  one for a checksum database included, have the same cache key, they are the same request.
\<close>

theorem go_cache_keys_distinct:
  assumes "from_path p = Inr r" and "gr_sumdb_path r = None" and "from_path q = Inr r'"
    and "cache_key r' = cache_key r"
  shows "r' = r"
proof -
  have wf: "wf_module_request r" "request_text r = Some (leading p)" using from_path_accepted [OF assms(1,2)] by auto
  have k: "cache_key r' = Some (leading p)" using cache_key_module [OF wf(1)] wf(2) assms(4) by simp
  have "gr_sumdb_path r' = None"
  proof (rule ccontr)
    assume "gr_sumdb_path r' \<noteq> None"
    from cache_key_sumdb [OF from_path_sumdb [OF assms(3) this] k] text_not_sumdb [OF wf] show False by simp
  qed
  from from_path_accepted [OF assms(3) this] have wf': "wf_module_request r'" "request_text r' = Some (leading q)" by auto
  have "leading q = leading p" using cache_key_module [OF wf'(1)] wf'(2) k by simp
  then have "from_path q = Inr r" using from_path_text [OF wf(1)] wf(2) by simp
  with assms(3) show ?thesis by simp
qed

theorem go_cache_keys_distinct_witness:
  "from_path ''/a.b/c/@latest'' = Inr \<lparr>gr_module_path = ''a.b/c'', gr_version = None, gr_request_type = Latest, gr_sumdb_path = None\<rparr> \<and>
   from_path ''a.b/c/@latest'' = from_path ''/a.b/c/@latest''"
proof -
  let ?r = "\<lparr>gr_module_path = ''a.b/c'', gr_version = None, gr_request_type = Latest, gr_sumdb_path = None\<rparr>"
  obtain r' where r': "from_path ''a.b/c/@latest'' = Inr r'" and k: "cache_key r' = cache_key ?r"
    by (rule that [of ?r]) code_simp+
  have r: "from_path ''/a.b/c/@latest'' = Inr ?r" by code_simp
  have "r' = ?r" by (rule go_cache_keys_distinct [OF r _ r' k]) simp
  with r r' show ?thesis by simp
qed

end
