(* ===== verification/PackageRows.thy ===== *)
theory PackageRows
  imports Webhooks "HOL-Library.Monad_Syntax"
begin

text \<open>
  How the row of a package file is made from a project version (\<open>build_upsert_input\<close> of
  crates/core/src/database/entities/package_file.rs): the metadata of the version are JSON, which is read as
  the metadata of one package format after the other (crates/core/src/repository/project). Deserialisation
  follows serde's derived code on JSON objects: a field of another type is an error, an unknown field is
  ignored, an optional field may be missing or null. Parsing a date (chrono) is a parameter.
\<close>

section \<open>Reading fields\<close>

definition json_get :: "string \<Rightarrow> json \<Rightarrow> json option" where
  "json_get k j = (case j of JObject kvs \<Rightarrow> map_of kvs k | _ \<Rightarrow> None)"

definition as_str :: "json \<Rightarrow> string option" where
  "as_str j = (case j of JString s \<Rightarrow> Some s | _ \<Rightarrow> None)"

definition as_u64 :: "json \<Rightarrow> u64 option" where
  "as_u64 j = (case j of JNumber n \<Rightarrow> if 0 \<le> n \<and> n < 2 ^ 64 then Some (word_of_int n) else None | _ \<Rightarrow> None)"

definition as_bool :: "json \<Rightarrow> bool option" where
  "as_bool j = (case j of JBool b \<Rightarrow> Some b | _ \<Rightarrow> None)"

fun all_some :: "'a option list \<Rightarrow> 'a list option" where
  "all_some [] = Some []"
| "all_some (x # xs) = do { a \<leftarrow> x; as \<leftarrow> all_some xs; Some (a # as) }"

definition as_list :: "(json \<Rightarrow> 'a option) \<Rightarrow> json \<Rightarrow> 'a list option" where
  "as_list read j = (case j of JArray xs \<Rightarrow> all_some (map read xs) | _ \<Rightarrow> None)"

definition as_map :: "(json \<Rightarrow> 'a option) \<Rightarrow> json \<Rightarrow> (string \<times> 'a) list option" where
  "as_map read j =
     (case j of JObject kvs \<Rightarrow> all_some (map (\<lambda>(k, v). map_option (Pair k) (read v)) kvs) | _ \<Rightarrow> None)"

text \<open>A field that must be there, an \<open>Option\<close>, and a field with \<open>#[serde(default)]\<close>.\<close>

definition required :: "(json \<Rightarrow> 'a option) \<Rightarrow> string \<Rightarrow> json \<Rightarrow> 'a option" where
  "required read k j = Option.bind (json_get k j) read"

definition optional :: "(json \<Rightarrow> 'a option) \<Rightarrow> string \<Rightarrow> json \<Rightarrow> 'a option option" where
  "optional read k j =
     (case json_get k j of
        None \<Rightarrow> Some None
      | Some v \<Rightarrow> if v = JNull then Some None else map_option Some (read v))"

definition defaulted :: "'a \<Rightarrow> (json \<Rightarrow> 'a option) \<Rightarrow> string \<Rightarrow> json \<Rightarrow> 'a option" where
  "defaulted d read k j = (case json_get k j of None \<Rightarrow> Some d | Some v \<Rightarrow> read v)"

section \<open>The metadata of the formats\<close>

record deb_package_metadata =
  deb_distribution :: string
  deb_component :: string
  deb_architecture :: string
  deb_filename :: string
  deb_size :: u64
  deb_md5 :: string
  deb_sha1 :: string
  deb_sha256 :: string
  deb_section :: "string option"
  deb_priority :: "string option"
  deb_maintainer :: "string option"
  deb_installed_size :: "u64 option"
  deb_depends :: "string list"
  deb_homepage :: "string option"
  deb_description :: "string option"

definition parse_deb :: "json \<Rightarrow> deb_package_metadata option" where
  "parse_deb j = do {
     distribution \<leftarrow> required as_str ''distribution'' j;
     component \<leftarrow> required as_str ''component'' j;
     architecture \<leftarrow> required as_str ''architecture'' j;
     filename \<leftarrow> required as_str ''filename'' j;
     sz \<leftarrow> required as_u64 ''size'' j;
     md5 \<leftarrow> required as_str ''md5'' j;
     sha1 \<leftarrow> required as_str ''sha1'' j;
     sha256 \<leftarrow> required as_str ''sha256'' j;
     sect \<leftarrow> optional as_str ''section'' j;
     priority \<leftarrow> optional as_str ''priority'' j;
     maintainer \<leftarrow> optional as_str ''maintainer'' j;
     installed_size \<leftarrow> optional as_u64 ''installed_size'' j;
     depends \<leftarrow> defaulted [] (as_list as_str) ''depends'' j;
     homepage \<leftarrow> optional as_str ''homepage'' j;
     description \<leftarrow> optional as_str ''description'' j;
     Some \<lparr>deb_distribution = distribution, deb_component = component, deb_architecture = architecture,
           deb_filename = filename, deb_size = sz, deb_md5 = md5, deb_sha1 = sha1, deb_sha256 = sha256,
           deb_section = sect, deb_priority = priority, deb_maintainer = maintainer,
           deb_installed_size = installed_size, deb_depends = depends, deb_homepage = homepage,
           deb_description = description\<rparr> }"

record cargo_dependency_metadata =
  cd_name :: string
  cd_req :: "string option"
  cd_optional :: bool
  cd_default_features :: bool
  cd_features :: "string list"
  cd_target :: "string option"
  cd_kind :: "string option"
  cd_registry :: "string option"
  cd_package :: "string option"

definition parse_cargo_dependency :: "json \<Rightarrow> cargo_dependency_metadata option" where
  "parse_cargo_dependency j = do {
     name \<leftarrow> required as_str ''name'' j;
     req \<leftarrow> optional as_str ''req'' j;
     opt \<leftarrow> defaulted False as_bool ''optional'' j;
     default_features \<leftarrow> defaulted False as_bool ''default_features'' j;
     features \<leftarrow> defaulted [] (as_list as_str) ''features'' j;
     target \<leftarrow> optional as_str ''target'' j;
     kind \<leftarrow> optional as_str ''kind'' j;
     registry \<leftarrow> optional as_str ''registry'' j;
     package \<leftarrow> optional as_str ''package'' j;
     Some \<lparr>cd_name = name, cd_req = req, cd_optional = opt, cd_default_features = default_features,
           cd_features = features, cd_target = target, cd_kind = kind, cd_registry = registry,
           cd_package = package\<rparr> }"

record cargo_package_metadata =
  cp_checksum :: string
  cp_crate_size :: u64
  cp_yanked :: bool
  cp_features :: "(string \<times> string list) list"
  cp_dependencies :: "cargo_dependency_metadata list"
  cp_extra :: "json option"

definition parse_cargo :: "json \<Rightarrow> cargo_package_metadata option" where
  "parse_cargo j = do {
     checksum \<leftarrow> required as_str ''checksum'' j;
     crate_size \<leftarrow> required as_u64 ''crate_size'' j;
     yanked \<leftarrow> defaulted False as_bool ''yanked'' j;
     features \<leftarrow> defaulted [] (as_map (as_list as_str)) ''features'' j;
     dependencies \<leftarrow> defaulted [] (as_list parse_cargo_dependency) ''dependencies'' j;
     extra \<leftarrow> optional Some ''extra'' j;
     Some \<lparr>cp_checksum = checksum, cp_crate_size = crate_size, cp_yanked = yanked, cp_features = features,
           cp_dependencies = dependencies, cp_extra = extra\<rparr> }"

record python_package_metadata =
  py_filename :: string
  py_normalized_name :: "string option"
  py_requires_python :: "string option"
  py_sha256 :: "string option"
  py_extra :: "json option"

definition parse_python :: "json \<Rightarrow> python_package_metadata option" where
  "parse_python j = do {
     filename \<leftarrow> required as_str ''filename'' j;
     normalized_name \<leftarrow> optional as_str ''normalized_name'' j;
     requires_python \<leftarrow> optional as_str ''requires_python'' j;
     sha256 \<leftarrow> optional as_str ''sha256'' j;
     extra \<leftarrow> optional Some ''extra'' j;
     Some \<lparr>py_filename = filename, py_normalized_name = normalized_name, py_requires_python = requires_python,
           py_sha256 = sha256, py_extra = extra\<rparr> }"

record php_package_metadata =
  php_filename :: string
  php_dist_type :: "string option"
  php_sha256 :: "string option"
  php_homepage :: "string option"
  php_extra :: "json option"

definition parse_php :: "json \<Rightarrow> php_package_metadata option" where
  "parse_php j = do {
     filename \<leftarrow> required as_str ''filename'' j;
     dist_type \<leftarrow> optional as_str ''dist_type'' j;
     sha256 \<leftarrow> optional as_str ''sha256'' j;
     homepage \<leftarrow> optional as_str ''homepage'' j;
     extra \<leftarrow> optional Some ''extra'' j;
     Some \<lparr>php_filename = filename, php_dist_type = dist_type, php_sha256 = sha256, php_homepage = homepage,
           php_extra = extra\<rparr> }"

record ruby_dependency_metadata =
  rd_name :: string
  rd_requirements :: "string list"

definition parse_ruby_dependency :: "json \<Rightarrow> ruby_dependency_metadata option" where
  "parse_ruby_dependency j = do {
     name \<leftarrow> required as_str ''name'' j;
     requirements \<leftarrow> defaulted [] (as_list as_str) ''requirements'' j;
     Some \<lparr>rd_name = name, rd_requirements = requirements\<rparr> }"

record ruby_package_metadata =
  rb_filename :: string
  rb_platform :: "string option"
  rb_sha256 :: "string option"
  rb_dependencies :: "ruby_dependency_metadata list"
  rb_required_ruby :: "string option"
  rb_required_rubygems :: "string option"

definition parse_ruby :: "json \<Rightarrow> ruby_package_metadata option" where
  "parse_ruby j = do {
     filename \<leftarrow> required as_str ''filename'' j;
     platform \<leftarrow> optional as_str ''platform'' j;
     sha256 \<leftarrow> optional as_str ''sha256'' j;
     dependencies \<leftarrow> defaulted [] (as_list parse_ruby_dependency) ''dependencies'' j;
     required_ruby \<leftarrow> optional as_str ''required_ruby'' j;
     required_rubygems \<leftarrow> optional as_str ''required_rubygems'' j;
     Some \<lparr>rb_filename = filename, rb_platform = platform, rb_sha256 = sha256, rb_dependencies = dependencies,
           rb_required_ruby = required_ruby, rb_required_rubygems = required_rubygems\<rparr> }"

record proxy_artifact_meta =
  pa_package_name :: string
  pa_package_key :: string
  pa_version :: "string option"
  pa_cache_path :: string
  pa_upstream_digest :: "string option"
  pa_upstream_url :: "string option"
  pa_size :: "u64 option"
  pa_docker_references :: "string list option"
  pa_fetched_at :: instant

definition as_kind :: "json \<Rightarrow> unit option" where
  "as_kind j = (if j = JString ''proxy_artifact'' then Some () else None)"

definition parse_proxy_artifact :: "(string \<Rightarrow> instant option) \<Rightarrow> json \<Rightarrow> proxy_artifact_meta option" where
  "parse_proxy_artifact parse_time j = do {
     kind \<leftarrow> defaulted () as_kind ''type'' j;
     package_name \<leftarrow> required as_str ''package_name'' j;
     package_key \<leftarrow> required as_str ''package_key'' j;
     version \<leftarrow> optional as_str ''version'' j;
     cache_path \<leftarrow> required as_str ''cache_path'' j;
     upstream_digest \<leftarrow> optional as_str ''upstream_digest'' j;
     upstream_url \<leftarrow> optional as_str ''upstream_url'' j;
     sz \<leftarrow> optional as_u64 ''size'' j;
     docker_references \<leftarrow> optional (as_list as_str) ''docker_references'' j;
     fetched_at \<leftarrow> required (\<lambda>v. Option.bind (as_str v) parse_time) ''fetched_at'' j;
     Some \<lparr>pa_package_name = package_name, pa_package_key = package_key, pa_version = version,
           pa_cache_path = cache_path, pa_upstream_digest = upstream_digest, pa_upstream_url = upstream_url,
           pa_size = sz, pa_docker_references = docker_references, pa_fetched_at = fetched_at\<rparr> }"

section \<open>The row of a version\<close>

text \<open>\<open>VersionData::extra\<close> of the stored document.\<close>

definition version_extra :: "version_row \<Rightarrow> json option" where
  "version_extra v = (case json_get ''extra'' (pv_extra v) of None \<Rightarrow> None | Some j \<Rightarrow> if j = JNull then None else Some j)"

definition parse_extra :: "(json \<Rightarrow> 'a option) \<Rightarrow> version_row \<Rightarrow> 'a option" where
  "parse_extra read v = Option.bind (version_extra v) read"

definition extract_u64 :: "json option \<Rightarrow> u64 option" where
  "extract_u64 value =
     (case value of
        None \<Rightarrow> None
      | Some j \<Rightarrow>
          (case as_u64 j of Some n \<Rightarrow> Some n | None \<Rightarrow> Option.bind (as_str j) parse_u64))"

fun first_some :: "('a \<Rightarrow> 'b option) \<Rightarrow> 'a list \<Rightarrow> 'b option" where
  "first_some f [] = None"
| "first_some f (x # xs) = (case f x of Some y \<Rightarrow> Some y | None \<Rightarrow> first_some f xs)"

definition extract_size :: "version_row \<Rightarrow> u64 option" where
  "extract_size v =
     Option.bind (version_extra v)
       (\<lambda>extra. first_some (\<lambda>key. extract_u64 (json_get key extra)) [''size'', ''crate_size'', ''size_bytes''])"

definition extract_digest :: "version_row \<Rightarrow> string option" where
  "extract_digest v =
     Option.bind (version_extra v)
       (\<lambda>extra. first_some (\<lambda>key. normalize_digest (Option.bind (json_get key extra) as_str))
          [''sha256'', ''checksum'', ''digest'', ''content_digest''])"

text \<open>\<open>size.unwrap_or_default() as i64\<close>: a size of 2^63 or more becomes negative.\<close>

definition size_i64 :: "u64 option \<Rightarrow> int" where
  "size_i64 sz = sint (case sz of None \<Rightarrow> 0 | Some n \<Rightarrow> n)"

definition hosted_fields :: "version_row \<Rightarrow> string \<times> string \<times> int \<times> string option" where
  "hosted_fields v =
     (let path = pv_path v;
          name = file_name_from_path path (pv_version v);
          size_bytes = size_i64 (extract_size v);
          content_digest = extract_digest v
      in case parse_extra parse_deb v of
           Some m \<Rightarrow> (deb_filename m, pv_version v, sint (deb_size m), normalize_digest (Some (deb_sha256 m)))
         | None \<Rightarrow>
        (case parse_extra parse_cargo v of
           Some m \<Rightarrow> (path, name, sint (cp_crate_size m), normalize_digest (Some (cp_checksum m)))
         | None \<Rightarrow>
        (case parse_extra parse_python v of
           Some m \<Rightarrow> (if contains_str ''/'' (py_filename m) then py_filename m else path, py_filename m,
                      size_bytes, normalize_digest (py_sha256 m))
         | None \<Rightarrow>
        (case parse_extra parse_php v of
           Some m \<Rightarrow> (let path = (if contains_str ''/'' (php_filename m) then php_filename m else path)
                      in (path, file_name_from_path path (pv_version v), size_bytes, normalize_digest (php_sha256 m)))
         | None \<Rightarrow>
        (case parse_extra parse_ruby v of
           Some m \<Rightarrow> (if contains_str ''/'' (rb_filename m) then rb_filename m else path, rb_filename m,
                      size_bytes, normalize_digest (rb_sha256 m))
         | None \<Rightarrow> (path, name, size_bytes, content_digest))))))"

definition build_upsert_input :: "(string \<Rightarrow> instant option) \<Rightarrow> project_row \<Rightarrow> version_row \<Rightarrow> upsert_input" where
  "build_upsert_input parse_time project v =
     (case parse_extra (parse_proxy_artifact parse_time) v of
        Some meta \<Rightarrow>
          \<lparr>ui_repository_id = pv_repository_id v, ui_project_id = Some (pr_id project),
           ui_project_version_id = Some (pv_id v), ui_package = pa_package_key meta,
           ui_name = (case pa_version meta of
                        Some n \<Rightarrow> n | None \<Rightarrow> file_name_from_path (pa_cache_path meta) (pv_version v)),
           ui_path = pa_cache_path meta, ui_size_bytes = size_i64 (pa_size meta),
           ui_referenced_size_bytes = None, ui_content_digest = None,
           ui_upstream_digest = normalize_digest (pa_upstream_digest meta), ui_modified_at = pa_fetched_at meta\<rparr>
      | None \<Rightarrow>
          (case hosted_fields v of (path, name, size_bytes, content_digest) \<Rightarrow>
            \<lparr>ui_repository_id = pv_repository_id v, ui_project_id = Some (pr_id project),
             ui_project_version_id = Some (pv_id v), ui_package = pr_key project, ui_name = name, ui_path = path,
             ui_size_bytes = size_bytes, ui_referenced_size_bytes = None, ui_content_digest = content_digest,
             ui_upstream_digest = None, ui_modified_at = pv_updated_at v\<rparr>))"

section \<open>Writing metadata\<close>

definition json_opt :: "('a \<Rightarrow> json) \<Rightarrow> 'a option \<Rightarrow> json" where
  "json_opt write x = (case x of None \<Rightarrow> JNull | Some v \<Rightarrow> write v)"

definition json_u64 :: "u64 \<Rightarrow> json" where
  "json_u64 n = JNumber (uint n)"

definition json_texts :: "string list \<Rightarrow> json" where
  "json_texts xs = JArray (map JString xs)"

text \<open>A hash map becomes an object with its keys in order.\<close>

definition json_map :: "('a \<Rightarrow> json) \<Rightarrow> (string \<times> 'a) list \<Rightarrow> json" where
  "json_map write kvs = JObject (btree_from (map (\<lambda>(k, v). (k, write v)) kvs))"

definition php_to_json :: "php_package_metadata \<Rightarrow> json" where
  "php_to_json m =
     json_object [(''filename'', JString (php_filename m)), (''dist_type'', json_opt JString (php_dist_type m)),
       (''sha256'', json_opt JString (php_sha256 m)), (''homepage'', json_opt JString (php_homepage m)),
       (''extra'', json_opt id (php_extra m))]"

definition ruby_dependency_to_json :: "ruby_dependency_metadata \<Rightarrow> json" where
  "ruby_dependency_to_json d =
     json_object [(''name'', JString (rd_name d)), (''requirements'', json_texts (rd_requirements d))]"

definition ruby_to_json :: "ruby_package_metadata \<Rightarrow> json" where
  "ruby_to_json m =
     json_object [(''filename'', JString (rb_filename m)), (''platform'', json_opt JString (rb_platform m)),
       (''sha256'', json_opt JString (rb_sha256 m)),
       (''dependencies'', JArray (map ruby_dependency_to_json (rb_dependencies m))),
       (''required_ruby'', json_opt JString (rb_required_ruby m)),
       (''required_rubygems'', json_opt JString (rb_required_rubygems m))]"

definition cargo_dependency_to_json :: "cargo_dependency_metadata \<Rightarrow> json" where
  "cargo_dependency_to_json d =
     json_object [(''name'', JString (cd_name d)), (''req'', json_opt JString (cd_req d)),
       (''optional'', JBool (cd_optional d)), (''default_features'', JBool (cd_default_features d)),
       (''features'', json_texts (cd_features d)), (''target'', json_opt JString (cd_target d)),
       (''kind'', json_opt JString (cd_kind d)), (''registry'', json_opt JString (cd_registry d)),
       (''package'', json_opt JString (cd_package d))]"

definition cargo_to_json :: "cargo_package_metadata \<Rightarrow> json" where
  "cargo_to_json m =
     json_object [(''checksum'', JString (cp_checksum m)), (''crate_size'', json_u64 (cp_crate_size m)),
       (''yanked'', JBool (cp_yanked m)), (''features'', json_map json_texts (cp_features m)),
       (''dependencies'', JArray (map cargo_dependency_to_json (cp_dependencies m))),
       (''extra'', json_opt id (cp_extra m))]"

section \<open>Facts on fields\<close>

lemma map_of_btree_insert: "wf_btree m \<Longrightarrow> map_of (btree_insert k v m) j = (if j = k then Some v else map_of m j)"
proof (induction k v m rule: btree_insert.induct)
  case (2 k v l w m)
  have "map_of m j = None" if "j \<le> l"
  proof -
    have "j \<notin> fst ` set m" using 2(2) that by (auto simp: wf_btree_Cons)
    then show ?thesis by (simp add: map_of_eq_None_iff)
  qed
  then show ?case using 2 by (auto simp: wf_btree_Cons)
qed simp

lemma map_of_btree_from: "map_of (btree_from kvs) k = map_of (rev kvs) k"
proof (induction kvs rule: rev_induct)
  case (snoc e kvs)
  obtain j v where e: "e = (j, v)" by (rule prod.exhaust)
  have "map_of (btree_insert j v (btree_from kvs)) k = (if k = j then Some v else map_of (btree_from kvs) k)"
    by (rule map_of_btree_insert) (rule wf_btree_from)
  moreover have "btree_from (kvs @ [e]) = btree_insert j v (btree_from kvs)" by (simp add: btree_from_def e)
  ultimately show ?case using snoc e by simp
qed (simp add: btree_from_def)

lemma json_get_object: "json_get k (json_object kvs) = map_of (rev kvs) k"
  by (simp add: json_get_def json_object_def map_of_btree_from)

lemma optional_opt:
  assumes "json_get k j = Some (json_opt write x)" and "\<And>v. read (write v) = Some v" and "\<And>v. write v \<noteq> JNull"
  shows "optional read k j = Some x"
  using assms by (cases x) (auto simp: optional_def json_opt_def)

lemma as_str_text [simp]: "as_str (JString s) = Some s"
  by (simp add: as_str_def)

text \<open>
  The metadata of a PHP or Ruby package are read as those of a Python package, whose other fields are all
  optional: the branches for the two formats are never taken.
\<close>

lemma php_read_as_python:
  "parse_python (php_to_json m) = Some \<lparr>py_filename = php_filename m, py_normalized_name = None,
     py_requires_python = None, py_sha256 = php_sha256 m, py_extra = (case php_extra m of Some JNull \<Rightarrow> None | x \<Rightarrow> x)\<rparr>"
  "parse_deb (php_to_json m) = None" "parse_cargo (php_to_json m) = None"
  "parse_proxy_artifact parse_time (php_to_json m) = None"
  by (auto simp: php_to_json_def parse_python_def parse_deb_def parse_cargo_def parse_proxy_artifact_def required_def
      optional_def defaulted_def json_get_object json_opt_def bind_eq_None_conv split: option.splits json.splits)

lemma ruby_read_as_python:
  "parse_python (ruby_to_json m) = Some \<lparr>py_filename = rb_filename m, py_normalized_name = None,
     py_requires_python = None, py_sha256 = rb_sha256 m, py_extra = None\<rparr>"
  "parse_deb (ruby_to_json m) = None" "parse_cargo (ruby_to_json m) = None"
  "parse_proxy_artifact parse_time (ruby_to_json m) = None"
  by (auto simp: ruby_to_json_def parse_python_def parse_deb_def parse_cargo_def parse_proxy_artifact_def required_def
      optional_def defaulted_def json_get_object json_opt_def bind_eq_None_conv split: option.splits json.splits)

theorem php_row_named_as_python:
  assumes "version_extra v = Some (php_to_json m)"
  shows "build_upsert_input parse_time project v =
    \<lparr>ui_repository_id = pv_repository_id v, ui_project_id = Some (pr_id project), ui_project_version_id = Some (pv_id v),
     ui_package = pr_key project, ui_name = php_filename m,
     ui_path = (if contains_str ''/'' (php_filename m) then php_filename m else pv_path v), ui_size_bytes = 0,
     ui_referenced_size_bytes = None, ui_content_digest = normalize_digest (php_sha256 m), ui_upstream_digest = None,
     ui_modified_at = pv_updated_at v\<rparr>"
  using assms php_read_as_python
  by (simp add: build_upsert_input_def hosted_fields_def parse_extra_def Let_def extract_size_def extract_u64_def
      json_get_object php_to_json_def size_i64_def)

end
