(* ===== verification/StoredFiles.thy ===== *)
theory StoredFiles
  imports StorageContents
begin

text \<open>
  The local storage as a map from paths to contents: in a tree without symbolic links a successful save
  sets the content of its path and no other, a successful read returns it, and whatever fails, reading
  changes nothing. \<open>file_store\<close> is the contract of this map; the package formats that keep their files in a
  storage rely on it.
\<close>

section \<open>Trees without links\<close>

definition linkless :: "tree \<Rightarrow> bool" where
  "linkless t = list_all (\<lambda>e. \<not> is_link (Some (snd e))) t"

lemma linkless_free:
  assumes "linkless t"
  shows "link_free t"
proof -
  have "\<not> is_link (node_at t p)" for p
  proof (cases "node_at t p")
    case (Some n)
    then show ?thesis using assms
      by (auto simp: node_at_def linkless_def list_all_iff split: if_splits dest!: map_of_SomeD)
  qed simp
  then show ?thesis by (simp add: link_free_def)
qed

definition links_kept :: "'z local_state_scheme \<Rightarrow> 'z local_state_scheme \<Rightarrow> bool" where
  "links_kept s t = (linkless (disk s) \<longrightarrow> linkless (disk t))"

lemma linkless_set_node: "linkless t \<Longrightarrow> \<not> is_link (Some n) \<Longrightarrow> linkless (set_node p n t)"
  by (fastforce simp: linkless_def list_all_iff dest: set_node_mem)

lemma linkless_remove: "linkless t \<Longrightarrow> linkless (remove_below p t)"
  by (auto simp: linkless_def list_all_iff remove_below_def)

lemma linkless_update: "linkless t \<Longrightarrow> linkless (update_file q f t)"
  by (auto simp: update_file_def linkless_set_node split: option.splits node.splits)

lemma linkless_move: "linkless t \<Longrightarrow> linkless (move_below a b t)"
  using linkless_remove [of t b] by (auto simp: move_below_def linkless_def list_all_iff)

lemma linkless_mkdir: "mkdir t p = Inr t' \<Longrightarrow> linkless t \<Longrightarrow> linkless t'"
  by (auto simp: mkdir_def linkless_set_node split: sum.splits if_splits)

lemma linkless_make_dirs: "linkless t \<Longrightarrow> linkless (snd (make_dirs t r))"
  by (induction t r rule: make_dirs.induct)
    (auto split: sum.splits io_error.splits prod.splits dest: linkless_mkdir)

lemma links_kept_sys:
  assumes "\<And>t. linkless t \<Longrightarrow> linkless (snd (f t))"
  shows "preserves links_kept (sys f)"
  using sys_run assms by (fastforce simp: preserves_def links_kept_def)

interpretation links_frame: storage_frame links_kept
proof unfold_locales
  show "preserves links_kept (create_dir_all p)" for p
    unfolding create_dir_all_def by (rule links_kept_sys) (rule linkless_make_dirs)
  show "preserves links_kept (open_create p)" for p
    unfolding open_create_def by (rule links_kept_sys) (auto simp: linkless_set_node split: sum.splits option.splits node.splits)
  show "preserves links_kept (open_new p)" for p
    unfolding open_new_def by (rule links_kept_sys) (auto simp: linkless_set_node split: sum.splits)
  show "preserves links_kept (set_len_zero p)" for p
    unfolding set_len_zero_def by (rule links_kept_sys) (simp add: linkless_update)
  show "preserves links_kept (write_all k q bs)" for k q bs
    by (auto simp: preserves_def links_kept_def write_all_def Let_def linkless_update split: if_splits)
  show "preserves links_kept (remove_file p)" for p
    unfolding remove_file_def
    by (rule links_kept_sys) (auto simp: linkless_remove split: sum.splits option.splits node.splits)
  show "preserves links_kept (remove_dir_all p)" for p
    unfolding remove_dir_all_def
    by (rule links_kept_sys) (auto simp: linkless_remove split: sum.splits option.splits node.splits)
  show "preserves links_kept (rename p p')" for p p'
    unfolding rename_def by (rule links_kept_sys) (auto simp: linkless_move split: sum.splits option.splits)
qed (auto simp: links_kept_def)

section \<open>Saving and reading\<close>

definition store_ready :: "local_env \<Rightarrow> fspath \<Rightarrow> uuid \<Rightarrow> 'z local_state_scheme \<Rightarrow> bool" where
  "store_ready e base repository s =
     (wf_tree (disk s) \<and> linkless (disk s) \<and> node_at (disk s) base = Some DirNode \<and> list_all normal_name base \<and>
      normal_name (le_uuid_text e repository) \<and> \<not> is_hidden_file base)"

definition stored :: "local_env \<Rightarrow> fspath \<Rightarrow> uuid \<Rightarrow> 'z local_state_scheme \<Rightarrow> storage_path \<Rightarrow> bytes option" where
  "stored e base repository s location =
     (case node_at (disk s) (get_path e base repository location) of Some (FileNode bs) \<Rightarrow> Some bs | _ \<Rightarrow> None)"

definition visible_at :: "local_env \<Rightarrow> fspath \<Rightarrow> uuid \<Rightarrow> storage_path \<Rightarrow> bool" where
  "visible_at e base repository location = (\<not> is_hidden_file (get_path e base repository location))"

lemma ready_plain: "store_ready e base repository s \<Longrightarrow> plain_storage e base (disk s) repository"
  by (simp add: store_ready_def plain_storage_def linkless_free)

lemma set_len_zero_empties:
  "io (set_len_zero f) s = (Inr x, t) \<Longrightarrow>
    node_at (disk t) q = (if q = f \<and> (\<exists>bs. node_at (disk s) f = Some (FileNode bs)) then Some (FileNode []) else node_at (disk s) q)"
  by (auto simp: io_Inr set_len_zero_def node_at_update_file dest!: sys_Inr sym [of "update_file f (\<lambda>_. []) (disk s)"]
      split: if_splits option.splits node.splits)

lemma write_and_unlock_grows:
  assumes "content = Content bs \<or> content = Bytes bs" and run: "write_and_unlock content f s = (Inr n, t)"
  shows "file_grown f bs (disk s) (disk t)"
proof -
  obtain r u where w: "write_to content f s = (r, u)" by fastforce
  obtain r' u' where h: "io handle_call u = (r', u')" by fastforce
  have r: "r = Inr n" and u: "u' = t"
    using run w h by (auto simp: write_and_unlock_def ret_app fail_app split: sum.splits)
  have "disk u' = disk u"
    using h by (auto simp: io_def map_err_def handle_call_def sys_def Let_def split: prod.splits sum.splits if_splits)
  moreover have "file_grown f bs (disk s) (disk u)"
    using w r assms(1) write_all_grows
    by (auto simp: write_to_def Let_def bind_look bind_ok_Inr_iff io_Inr ret_app)
  ultimately show ?thesis using u by simp
qed

lemma save_file_sets:
  assumes plain: "plain_storage e base (disk s) repository" and content: "content = Content bs \<or> content = Bytes bs"
    and run: "save_file e base repository content location s = (Inr x, t)"
  shows "node_at (disk t) (get_path e base repository location) = Some (FileNode bs)"
    and "q \<noteq> get_path e base repository location \<Longrightarrow> node_at (disk t) q = node_at (disk s) q \<or>
      node_at (disk s) q = None \<and> node_at (disk t) q = Some DirNode"
proof -
  let ?p = "get_path e base repository location"
  obtain cp s1 f s2 s3 s4 s5 n s6 where got: "get_path_for_creation e base (disk s) repository location = Inr cp"
    and mk: "make_parent cp s = (Inr (), s1)" and op: "io (open_create (cp_path cp)) s1 = (Inr f, s2)"
    and lk: "io handle_call s2 = (Inr (), s3)" and ze: "io (set_len_zero f) s3 = (Inr (), s4)"
    and sk: "io handle_call s4 = (Inr (), s5)" and wr: "write_and_unlock content f s5 = (Inr n, s6)"
    and t: "disk t = disk s6"
    using run
    by (auto simp: save_file_def bind_look bind_from_result bind_ok_Inr_iff ret_app run_post_save_file_def set_state_def
        split: sum.splits if_splits)
  have "open_append_handle e base repository location s = (Inr (f, cp_path cp), s3)"
    using got mk op lk by (simp add: open_append_handle_def bind_look bind_from_result ret_app)
  note o = open_append_opens [OF plain this]
  have d: "disk s5 = disk s4" using sk by (auto simp: io_Inr handle_call_def dest!: sys_Inr)
  note z = set_len_zero_empties [OF ze]
  note g = write_and_unlock_grows [OF content wr, unfolded d file_grown_def, folded t]
  show "node_at (disk t) ?p = Some (FileNode bs)"
    using g z [of ?p] openedD(2) [OF o(2)] o(1) by simp
  show "node_at (disk t) q = node_at (disk s) q \<or> node_at (disk s) q = None \<and> node_at (disk t) q = Some DirNode" if "q \<noteq> ?p"
    using g z [of q] openedD(3) [OF o(2), of q] o(1) that by auto
qed

lemma ready_kept:
  assumes ready: "store_ready e base repository s" and links: "links_kept s t" and wf: "wf_tree (disk t)"
    and base: "node_at (disk t) base = Some DirNode"
  shows "store_ready e base repository t"
  using assms by (simp add: store_ready_def links_kept_def)

lemma save_file_stored:
  assumes ready: "store_ready e base repository s" and content: "content = Content bs \<or> content = Bytes bs"
    and run: "save_file e base repository content location s = (Inr x, t)"
  shows "store_ready e base repository t"
    and "stored e base repository t q = (if components q = components location then Some bs else stored e base repository s q)"
proof -
  note s = save_file_sets [OF ready_plain [OF ready] content run]
  have ne: "base \<noteq> get_path e base repository location" by (simp add: get_path_def repository_root_def)
  have wf: "wf_tree (disk t)"
    using preservesD [OF kept_operations(1) run] ready by (simp add: tree_kept_def store_ready_def)
  have "node_at (disk t) base = Some DirNode" using s(2) [OF ne] ready by (auto simp: store_ready_def)
  from ready_kept [OF ready preservesD [OF links_frame.kept_operations(1) run] wf this]
  show "store_ready e base repository t" .
  show "stored e base repository t q = (if components q = components location then Some bs else stored e base repository s q)"
  proof (cases "components q = components location")
    case True
    then show ?thesis using s(1) by (simp add: stored_def get_path_def)
  next
    case False
    then have "get_path e base repository q \<noteq> get_path e base repository location" by (simp add: get_path_def)
    from s(2) [OF this] False show ?thesis by (auto simp: stored_def)
  qed
qed

text \<open>Reading changes nothing that is visible, whatever fails, and returns what is stored.\<close>

lemma visible_ready:
  assumes ready: "store_ready e base repository s" and vis: "visible s t" and links: "links_kept s t"
  shows "store_ready e base repository t" and "visible_at e base repository q \<Longrightarrow> stored e base repository t q = stored e base repository s q"
proof -
  have wf: "wf_tree (disk s)" and b: "node_at (disk s) base = Some DirNode" using ready by (simp_all add: store_ready_def)
  have "wf_tree (disk t)" and "node_at (disk t) base = Some DirNode" using vis wf b by (auto simp: visible_def steady_def)
  then show "store_ready e base repository t" by (rule ready_kept [OF ready links])
  show "visible_at e base repository q \<Longrightarrow> stored e base repository t q = stored e base repository s q"
    using visibleD(2) [OF vis wf] by (simp add: stored_def visible_at_def)
qed

lemma open_file_stored:
  assumes ready: "store_ready e base repository s" and vis: "visible_at e base repository location"
    and run: "open_file e base repository location s = (Inr x, t)"
  shows "case x of Some (SFile m bs) \<Rightarrow> stored e base repository s location = Some bs | _ \<Rightarrow> stored e base repository s location = None"
proof -
  let ?p = "get_path e base repository location"
  have wf: "wf_tree (disk s)" and lf: "link_free (disk s)" using ready by (simp_all add: store_ready_def linkless_free)
  have chk: "checked_path e base (disk s) repository location = Inr ?p"
    using run by (auto simp: open_file_def bind_look bind_from_result checked_path_def Let_def split: sum.splits if_splits)
  then obtain w where val: "validate location = Inr w" by (auto simp: checked_path_def split: sum.splits)
  note names = plain_names [OF ready_plain [OF ready] val]
  show ?thesis
  proof (cases "path_exists (disk s) ?p")
    case False
    then have "x = None" using run chk by (simp add: open_file_def bind_look bind_from_result ret_app)
    with False path_exists_plain [OF wf lf names] show ?thesis by (simp add: stored_def)
  next
    case True
    then have n: "node_at (disk s) ?p \<noteq> None" using path_exists_plain [OF wf lf names] by simp
    show ?thesis
    proof (cases "node_at (disk s) ?p = Some DirNode")
      case True
      then have "path_is_dir (disk s) ?p" using path_is_dir_plain [OF wf lf names] by simp
      then obtain y where "x = Some y" "\<exists>u. open_folder e ?p s = (Inr y, u)"
        using run chk \<open>path_exists (disk s) ?p\<close> by (auto simp: open_file_def bind_look bind_from_result bind_ok_Inr_iff ret_app)
      then have "\<exists>d fs. x = Some (SDirectory d fs)" by (auto simp: open_folder_def bind_ok_Inr_iff ret_app)
      with True show ?thesis by (auto simp: stored_def)
    next
      case False
      then obtain bs where bs: "node_at (disk s) ?p = Some (FileNode bs)"
        using n link_freeD [OF lf, of ?p] by (cases "node_at (disk s) ?p") (auto, metis is_link_simps(4) node.exhaust)
      have nodir: "\<not> path_is_dir (disk s) ?p" using path_is_dir_plain [OF wf lf names] bs by simp
      then obtain y u where y: "inner_open_file e ?p s = (Inr y, u)" "x = Some y"
        using run chk \<open>path_exists (disk s) ?p\<close> by (auto simp: open_file_def bind_look bind_from_result bind_ok_Inr_iff ret_app)
      from inner_open_exact [OF wf bs _ y(1)] vis y(2) bs show ?thesis by (auto simp: stored_def visible_at_def)
    qed
  qed
qed

section \<open>The contract of a storage\<close>

text \<open>\<open>DynStorage\<close>: the operations of a storage, whichever it is, on the files of one repository.\<close>

record 's dyn_storage =
  ds_save :: "storage_path \<Rightarrow> file_content \<Rightarrow> ('s, local_error, nat \<times> bool) stm"
  ds_open :: "storage_path \<Rightarrow> ('s, local_error, storage_file option) stm"
  ds_delete :: "storage_path \<Rightarrow> ('s, local_error, bool) stm"
  ds_info :: "storage_path \<Rightarrow> ('s, local_error, file_type storage_file_meta option) stm"

text \<open>What a client relies on: \<open>contents s p\<close> are the bytes of the file \<open>p\<close> in a state \<open>s\<close> that satisfies
  \<open>good\<close>; \<open>path_ok\<close> are the paths that belong to the clients.\<close>

locale file_store =
  fixes storage :: "'s dyn_storage" and good :: "'s \<Rightarrow> bool" and path_ok :: "storage_path \<Rightarrow> bool"
    and contents :: "'s \<Rightarrow> storage_path \<Rightarrow> bytes option"
  assumes save_good: "good s \<Longrightarrow> ds_save storage p c s = (Inr x, t) \<Longrightarrow> c = Content bs \<or> c = Bytes bs \<Longrightarrow> good t"
    and save_contents: "good s \<Longrightarrow> ds_save storage p c s = (Inr x, t) \<Longrightarrow> c = Content bs \<or> c = Bytes bs \<Longrightarrow>
      contents t q = (if components q = components p then Some bs else contents s q)"
    and open_good: "good s \<Longrightarrow> ds_open storage p s = (r, t) \<Longrightarrow> good t"
    and open_contents: "good s \<Longrightarrow> ds_open storage p s = (r, t) \<Longrightarrow> path_ok q \<Longrightarrow> contents t q = contents s q"
    and open_result: "good s \<Longrightarrow> path_ok p \<Longrightarrow> ds_open storage p s = (Inr y, t) \<Longrightarrow>
      (case y of Some (SFile m bs) \<Rightarrow> contents s p = Some bs | _ \<Rightarrow> contents s p = None)"
begin

lemma open_file_iff:
  assumes "good s" and "path_ok p" and "ds_open storage p s = (Inr x, t)"
  shows "contents s p = (case x of Some (SFile m bs) \<Rightarrow> Some bs | _ \<Rightarrow> None)"
  using open_result [OF assms] by (auto split: option.splits storage_file.splits)

text \<open>What was saved is read back, by any client that comes next.\<close>

lemma saved_then_read:
  assumes "good s" and "path_ok p" and "ds_save storage p (Content bs) s = (Inr x, t)" and "ds_open storage p t = (Inr y, u)"
  shows "\<exists>m. y = Some (SFile m bs)"
proof -
  have "good t" by (rule save_good [OF assms(1,3)]) simp
  moreover have "contents t p = Some bs" using save_contents [OF assms(1,3), of bs p] by simp
  ultimately show ?thesis using open_file_iff [OF _ assms(2,4)] by (auto split: option.splits storage_file.splits)
qed

end

definition local_storage :: "local_env \<Rightarrow> fspath \<Rightarrow> uuid \<Rightarrow> 'z local_state_scheme dyn_storage" where
  "local_storage e base repository =
     \<lparr>ds_save = (\<lambda>p content. save_file e base repository content p), ds_open = open_file e base repository,
      ds_delete = delete_file e base repository, ds_info = get_file_information e base repository\<rparr>"

lemma local_storage_simps [simp]:
  "ds_save (local_storage e base repository) p content = save_file e base repository content p"
  "ds_open (local_storage e base repository) = open_file e base repository"
  "ds_delete (local_storage e base repository) = delete_file e base repository"
  "ds_info (local_storage e base repository) = get_file_information e base repository"
  by (simp_all add: local_storage_def)

interpretation local_files: file_store "local_storage e base repository" "store_ready e base repository"
    "visible_at e base repository" "stored e base repository" for e base repository
proof unfold_locales
  fix s t :: "'z local_state_scheme" and p q r
  assume ready: "store_ready e base repository s" and run: "ds_open (local_storage e base repository) p s = (r, t)"
  have kept: "visible s t" "links_kept s t"
    using preservesD [OF visible_operations(2)] preservesD [OF links_frame.kept_operations(7)] run by simp_all
  show "store_ready e base repository t" by (rule visible_ready(1) [OF ready kept])
  show "visible_at e base repository q \<Longrightarrow> stored e base repository t q = stored e base repository s q"
    by (rule visible_ready(2) [OF ready kept])
next
  fix s t :: "'z local_state_scheme" and p c x bs q
  assume ready: "store_ready e base repository s" and run: "ds_save (local_storage e base repository) p c s = (Inr x, t)"
    and c: "c = Content bs \<or> c = Bytes bs"
  show "store_ready e base repository t"
    and "stored e base repository t q = (if components q = components p then Some bs else stored e base repository s q)"
    using save_file_stored [OF ready c] run by simp_all
next
  fix s t :: "'z local_state_scheme" and p y
  assume "store_ready e base repository s" and "visible_at e base repository p"
    and "ds_open (local_storage e base repository) p s = (Inr y, t)"
  then show "case y of Some (SFile m bs) \<Rightarrow> stored e base repository s p = Some bs | _ \<Rightarrow> stored e base repository s p = None"
    using open_file_stored by simp
qed

end
