(* ===== verification/Projects.thy ===== *)
theory Projects
  imports PackageRows RepoAuth StoredFiles
begin

text \<open>
  Projects and their versions (crates/core/src/database/entities/project with the constraints of
  crates/core/migrations), and the state of the site that the package formats work on: the database of
  users, tokens, webhooks and projects, the catalogue of package files, and the disk. The identifiers the
  database generates are taken from a list.
\<close>

section \<open>The state of the site\<close>

record package_site = webhook_db +
  ps_catalog :: catalog_db
  ps_disk :: local_state
  ps_row_ids :: "uuid list"

type_synonym ('z, 'e, 'a) site_stm = "('z package_site_scheme, 'e, 'a) stm"

text \<open>A statement on a part of the state: the script of failures is shared.\<close>

definition focus :: "('s \<Rightarrow> 't) \<Rightarrow> ('t \<Rightarrow> 's \<Rightarrow> 's) \<Rightarrow> ('t, 'e, 'a) stm \<Rightarrow> ('s, 'e, 'a) stm" where
  "focus get put m s = (case m (get s) of (r, u) \<Rightarrow> (r, put u s))"

definition catalog_part :: "'z package_site_scheme \<Rightarrow> catalog_db" where
  "catalog_part s = (ps_catalog s)
     \<lparr>faults := faults s, cat_now := now s, cat_repositories := repositories s,
      cat_projects := map pr_id (project_rows s), cat_versions := map pv_id (version_rows s)\<rparr>"

definition put_catalog :: "catalog_db \<Rightarrow> 'z package_site_scheme \<Rightarrow> 'z package_site_scheme" where
  "put_catalog c s = s\<lparr>ps_catalog := c, faults := faults c\<rparr>"

definition disk_part :: "'z package_site_scheme \<Rightarrow> local_state" where
  "disk_part s = (ps_disk s)\<lparr>faults := faults s\<rparr>"

definition put_disk :: "local_state \<Rightarrow> 'z package_site_scheme \<Rightarrow> 'z package_site_scheme" where
  "put_disk d s = s\<lparr>ps_disk := d, faults := faults d\<rparr>"

fun catalog_sqlx :: "catalog_error \<Rightarrow> sqlx_error" where
  "catalog_sqlx CatalogFailed = QueryFailed"
| "catalog_sqlx CatalogForeignKey = ForeignKeyViolation"
| "catalog_sqlx CatalogSequence = SequenceExhausted"
| "catalog_sqlx NegativeLimit = QueryFailed"

definition in_catalog :: "(catalog_db, catalog_error, 'a) stm \<Rightarrow> ('z, sqlx_error, 'a) site_stm" where
  "in_catalog m = map_err catalog_sqlx (focus catalog_part put_catalog m)"

definition on_disk :: "(local_state, 'e, 'a) stm \<Rightarrow> ('z, 'e, 'a) site_stm" where
  "on_disk m = focus disk_part put_disk m"

section \<open>Release types\<close>

datatype release_type = Stable | Beta | Alpha | Snapshot | ReleaseCandidate | Unknown

fun release_as_str :: "release_type \<Rightarrow> string" where
  "release_as_str Stable = ''stable''"
| "release_as_str Beta = ''beta''"
| "release_as_str Alpha = ''alpha''"
| "release_as_str Snapshot = ''snapshot''"
| "release_as_str ReleaseCandidate = ''release_candidate''"
| "release_as_str Unknown = ''unknown''"

definition release_type_from_version :: "string \<Rightarrow> release_type" where
  "release_type_from_version version =
     (let version = to_lower version
      in if contains_str ''snapshot'' version then Snapshot
         else if contains_str ''beta'' version then Beta
         else if contains_str ''alpha'' version then Alpha
         else if contains_str ''.rc'' version then ReleaseCandidate
         else Stable)"

section \<open>Projects\<close>

definition project_has_key :: "string \<Rightarrow> uuid \<Rightarrow> project_row \<Rightarrow> bool" where
  "project_has_key project_key repository p =
     (pr_repository_id p = repository \<and> to_lower (pr_key p) = to_lower project_key)"

definition find_by_id :: "uuid \<Rightarrow> ('z, sqlx_error, project_row option) site_stm" where
  "find_by_id i = select_sql QueryFailed (\<lambda>s. find (\<lambda>p. pr_id p = i) (project_rows s))"

definition find_by_project_key :: "string \<Rightarrow> uuid \<Rightarrow> ('z, sqlx_error, project_row option) site_stm" where
  "find_by_project_key project_key repository =
     select_sql QueryFailed (\<lambda>s. find (project_has_key project_key repository) (project_rows s))"

definition find_by_project_directory :: "string \<Rightarrow> uuid \<Rightarrow> ('z, sqlx_error, project_row option) site_stm" where
  "find_by_project_directory directory repository =
     select_sql QueryFailed
       (\<lambda>s. find (\<lambda>p. pr_repository_id p = repository \<and> to_lower (pr_path p) = to_lower directory) (project_rows s))"

record new_project =
  np_scope :: "string option"
  np_project_key :: string
  np_name :: string
  np_description :: "string option"
  np_repository :: uuid
  np_storage_path :: string

definition next_row_id :: "'z package_site_scheme \<Rightarrow> uuid" where
  "next_row_id s = (case ps_row_ids s of [] \<Rightarrow> 0 | i # _ \<Rightarrow> i)"

text \<open>The constraints of the table: \<open>(key, repository_id)\<close> without regard to case, \<open>(path, repository_id)\<close>
  with it.\<close>

definition project_conflicts :: "project_row \<Rightarrow> project_row \<Rightarrow> bool" where
  "project_conflicts p q =
     (pr_id p = pr_id q \<or>
      (pr_repository_id p = pr_repository_id q \<and>
       (to_lower (pr_key p) = to_lower (pr_key q) \<or> pr_path p = pr_path q)))"

definition insert_project :: "new_project \<Rightarrow> ('z, sqlx_error, project_row) site_stm" where
  "insert_project n =
     try_sql QueryFailed (\<lambda>s.
       let row = \<lparr>pr_id = next_row_id s, pr_repository_id = np_repository n, pr_scope = np_scope n,
                  pr_key = np_project_key n, pr_name = Some (np_name n), pr_path = np_storage_path n,
                  pr_description = np_description n, pr_npm_dist_tags = None, pr_updated_at = now s,
                  pr_created_at = now s\<rparr>
       in if np_repository n \<notin> set (repositories s) then Inl ForeignKeyViolation
          else if list_ex (project_conflicts row) (project_rows s) then Inl UniqueViolation
          else Inr (row, s\<lparr>project_rows := project_rows s @ [row], ps_row_ids := tl (ps_row_ids s)\<rparr>))"

section \<open>Versions\<close>

definition find_by_version_and_project :: "string \<Rightarrow> uuid \<Rightarrow> ('z, sqlx_error, version_row option) site_stm" where
  "find_by_version_and_project version project =
     select_sql QueryFailed (\<lambda>s. find (\<lambda>v. pv_project_id v = project \<and> pv_version v = version) (version_rows s))"

definition find_by_version_directory :: "string \<Rightarrow> uuid \<Rightarrow> ('z, sqlx_error, version_row option) site_stm" where
  "find_by_version_directory directory repository =
     select_sql QueryFailed
       (\<lambda>s. find (\<lambda>v. pv_repository_id v = repository \<and> to_lower (pv_path v) = to_lower directory) (version_rows s))"

definition find_ids_by_version_dir :: "string \<Rightarrow> uuid \<Rightarrow> ('z, sqlx_error, (uuid \<times> uuid) option) site_stm" where
  "find_ids_by_version_dir directory repository =
     bind_ok (find_by_version_directory directory repository)
       (\<lambda>found. ret (map_option (\<lambda>v. (pv_project_id v, pv_id v)) found))"

definition get_all_versions :: "uuid \<Rightarrow> ('z, sqlx_error, version_row list) site_stm" where
  "get_all_versions project =
     select_sql QueryFailed
       (\<lambda>s. sort_key (\<lambda>v. - pv_created_at v) (filter (\<lambda>v. pv_project_id v = project) (version_rows s)))"

definition latest_version :: "uuid \<Rightarrow> release_type \<Rightarrow> ('z, sqlx_error, version_row option) site_stm" where
  "latest_version project rt =
     bind_ok (get_all_versions project)
       (\<lambda>versions. ret (find (\<lambda>v. pv_release_type v = release_as_str rt) versions))"

record new_version =
  nv_project_id :: uuid
  nv_repository_id :: uuid
  nv_version :: string
  nv_release_type :: release_type
  nv_version_path :: string
  nv_publisher :: "rowid option"
  nv_version_page :: "string option"
  nv_extra :: json

text \<open>The constraints: \<open>(project_id, version)\<close>, \<open>(path, project_id)\<close>, and the path in lower case within a
  repository.\<close>

definition version_conflicts :: "version_row \<Rightarrow> version_row \<Rightarrow> bool" where
  "version_conflicts v w =
     (pv_id v = pv_id w \<or>
      (pv_project_id v = pv_project_id w \<and> (pv_version v = pv_version w \<or> pv_path v = pv_path w)) \<or>
      (pv_repository_id v = pv_repository_id w \<and> to_lower (pv_path v) = to_lower (pv_path w)))"

definition insert_version_row :: "new_version \<Rightarrow> ('z, sqlx_error, version_row) site_stm" where
  "insert_version_row n =
     try_sql QueryFailed (\<lambda>s.
       let row = \<lparr>pv_id = next_row_id s, pv_project_id = nv_project_id n, pv_repository_id = nv_repository_id n,
                  pv_version = nv_version n, pv_release_type = release_as_str (nv_release_type n),
                  pv_path = nv_version_path n, pv_publisher = nv_publisher n, pv_version_page = nv_version_page n,
                  pv_extra = nv_extra n, pv_updated_at = now s, pv_created_at = now s\<rparr>
       in if sql_length (nv_version n) > 255 then Inl QueryFailed
          else if nv_project_id n \<notin> set (map pr_id (project_rows s)) \<or> nv_repository_id n \<notin> set (repositories s) \<or>
                  (case nv_publisher n of None \<Rightarrow> False | Some u \<Rightarrow> u \<notin> set (map u_id (users s)))
          then Inl ForeignKeyViolation
          else if list_ex (version_conflicts row) (version_rows s) then Inl UniqueViolation
          else Inr (row, s\<lparr>version_rows := version_rows s @ [row], ps_row_ids := tl (ps_row_ids s)\<rparr>))"

definition upsert_from_project_version ::
  "(string \<Rightarrow> instant option) \<Rightarrow> version_row \<Rightarrow> ('z, sqlx_error, package_file option) site_stm" where
  "upsert_from_project_version parse_time v =
     bind_ok (find_by_id (pv_project_id v)) (\<lambda>project.
       case project of
         None \<Rightarrow> ret None
       | Some p \<Rightarrow>
           bind_ok (in_catalog (upsert_file_row (build_upsert_input parse_time p v))) (\<lambda>row. ret (Some row)))"

text \<open>\<open>NewVersion::insert\<close>: two statements, not a transaction.\<close>

definition insert_version ::
  "(string \<Rightarrow> instant option) \<Rightarrow> new_version \<Rightarrow> ('z, sqlx_error, version_row) site_stm" where
  "insert_version parse_time n =
     bind_ok (insert_version_row n) (\<lambda>v.
     bind_ok (upsert_from_project_version parse_time v) (\<lambda>_. ret v))"

record update_project_version =
  up_release_type :: "release_type option"
  up_publisher :: "rowid option option"
  up_version_page :: "string option option"
  up_extra :: "json option"

definition updated_version :: "update_project_version \<Rightarrow> instant \<Rightarrow> version_row \<Rightarrow> version_row" where
  "updated_version u time v =
     v\<lparr>pv_updated_at := time,
       pv_release_type := (case up_release_type u of Some r \<Rightarrow> release_as_str r | None \<Rightarrow> pv_release_type v),
       pv_extra := (case up_extra u of Some e \<Rightarrow> e | None \<Rightarrow> pv_extra v),
       pv_version_page := (case up_version_page u of Some p \<Rightarrow> p | None \<Rightarrow> pv_version_page v),
       pv_publisher := (case up_publisher u of Some p \<Rightarrow> p | None \<Rightarrow> pv_publisher v)\<rparr>"

definition update_version_row :: "update_project_version \<Rightarrow> uuid \<Rightarrow> ('z, sqlx_error, unit) site_stm" where
  "update_version_row u i =
     try_sql QueryFailed (\<lambda>s.
       if i \<in> set (map pv_id (version_rows s)) \<and>
          (case up_publisher u of Some (Some w) \<Rightarrow> w \<notin> set (map u_id (users s)) | _ \<Rightarrow> False)
       then Inl ForeignKeyViolation
       else Inr ((), s\<lparr>version_rows :=
              map (\<lambda>v. if pv_id v = i then updated_version u (now s) v else v) (version_rows s)\<rparr>))"

definition update_version ::
  "(string \<Rightarrow> instant option) \<Rightarrow> update_project_version \<Rightarrow> uuid \<Rightarrow> ('z, sqlx_error, unit) site_stm" where
  "update_version parse_time u i =
     bind_ok (update_version_row u i) (\<lambda>_.
     bind_ok (select_sql QueryFailed (\<lambda>s. find (\<lambda>v. pv_id v = i) (version_rows s))) (\<lambda>found.
       case found of
         None \<Rightarrow> fail QueryFailed
       | Some v \<Rightarrow> bind_ok (upsert_from_project_version parse_time v) (\<lambda>_. ret ())))"

text \<open>\<open>DELETE FROM project_versions WHERE id = \<dots>\<close>; the rows of its package files go with it.\<close>

definition delete_version :: "uuid \<Rightarrow> ('z, sqlx_error, unit) site_stm" where
  "delete_version i =
     update_sql QueryFailed (\<lambda>s.
       s\<lparr>version_rows := filter (\<lambda>v. pv_id v \<noteq> i) (version_rows s),
         ps_catalog := (ps_catalog s)\<lparr>package_files :=
           filter (\<lambda>f. pf_project_version_id f \<noteq> Some i) (package_files (ps_catalog s))\<rparr>\<rparr>)"

section \<open>The disk and the database\<close>

text \<open>The script of failures is inherited from \<open>conn\<close>: updating it leaves the parts of the site alone.\<close>

lemma faults_update_parts [simp]:
  "ps_disk (s\<lparr>faults := f\<rparr>) = ps_disk (s :: 'z package_site_scheme)"
  "ps_catalog (s\<lparr>faults := f\<rparr>) = ps_catalog s" "ps_row_ids (s\<lparr>faults := f\<rparr>) = ps_row_ids s"
  "project_rows (s\<lparr>faults := f\<rparr>) = project_rows s" "version_rows (s\<lparr>faults := f\<rparr>) = version_rows s"
  by (cases s; simp)+

lemma disk_part_put [simp]: "disk_part (put_disk d s) = d"
  by (cases d; cases s) (simp add: disk_part_def put_disk_def)

definition site_storage :: "local_env \<Rightarrow> fspath \<Rightarrow> uuid \<Rightarrow> 'z package_site_scheme dyn_storage" where
  "site_storage e base repository =
     \<lparr>ds_save = (\<lambda>p content. on_disk (save_file e base repository content p)),
      ds_open = (\<lambda>p. on_disk (open_file e base repository p)),
      ds_delete = (\<lambda>p. on_disk (delete_file e base repository p)),
      ds_info = (\<lambda>p. on_disk (get_file_information e base repository p))\<rparr>"

definition site_ready :: "local_env \<Rightarrow> fspath \<Rightarrow> uuid \<Rightarrow> 'z package_site_scheme \<Rightarrow> bool" where
  "site_ready e base repository s = store_ready e base repository (ps_disk s)"

definition site_file :: "local_env \<Rightarrow> fspath \<Rightarrow> uuid \<Rightarrow> 'z package_site_scheme \<Rightarrow> storage_path \<Rightarrow> bytes option" where
  "site_file e base repository s p = stored e base repository (ps_disk s) p"

lemma disk_part_ready:
  "store_ready e base repository (disk_part s) = site_ready e base repository s"
  "stored e base repository (disk_part s) p = site_file e base repository s p"
  by (simp_all add: disk_part_def site_ready_def site_file_def store_ready_def stored_def)

lemma on_disk_run: "on_disk m s = (r, t) \<Longrightarrow> \<exists>u. m (disk_part s) = (r, u) \<and> t = put_disk u s"
  by (auto simp: on_disk_def focus_def split: prod.splits)

lemma put_disk_ready:
  "site_ready e base repository (put_disk u s) = store_ready e base repository u"
  "site_file e base repository (put_disk u s) p = stored e base repository u p"
  using disk_part_ready [of e base repository "put_disk u s"] by simp_all

interpretation site_files: file_store "site_storage e base repository" "site_ready e base repository"
    "visible_at e base repository" "site_file e base repository" for e base repository
proof unfold_locales
  fix s t :: "'z package_site_scheme" and p c x bs q
  assume g: "site_ready e base repository s" and run: "ds_save (site_storage e base repository) p c s = (Inr x, t)"
    and c: "c = Content bs \<or> c = Bytes bs"
  obtain u where u: "ds_save (local_storage e base repository) p c (disk_part s) = (Inr x, u)" "t = put_disk u s"
    using on_disk_run run by (fastforce simp: site_storage_def)
  have g': "store_ready e base repository (disk_part s)" using g by (simp add: disk_part_ready)
  show "site_ready e base repository t" using local_files.save_good [OF g' u(1) c] u(2) by (simp add: put_disk_ready)
  show "site_file e base repository t q = (if components q = components p then Some bs else site_file e base repository s q)"
    using local_files.save_contents [OF g' u(1) c, of q] u(2) by (simp add: put_disk_ready disk_part_ready)
next
  fix s t :: "'z package_site_scheme" and p q r
  assume g: "site_ready e base repository s" and run: "ds_open (site_storage e base repository) p s = (r, t)"
  obtain u where u: "ds_open (local_storage e base repository) p (disk_part s) = (r, u)" "t = put_disk u s"
    using on_disk_run run by (fastforce simp: site_storage_def)
  have g': "store_ready e base repository (disk_part s)" using g by (simp add: disk_part_ready)
  show "site_ready e base repository t" using local_files.open_good [OF g' u(1)] u(2) by (simp add: put_disk_ready)
  show "visible_at e base repository q \<Longrightarrow> site_file e base repository t q = site_file e base repository s q"
    using local_files.open_contents [OF g' u(1)] u(2) by (simp add: put_disk_ready disk_part_ready)
next
  fix s t :: "'z package_site_scheme" and p y
  assume g: "site_ready e base repository s" and v: "visible_at e base repository p"
    and run: "ds_open (site_storage e base repository) p s = (Inr y, t)"
  obtain u where u: "ds_open (local_storage e base repository) p (disk_part s) = (Inr y, u)"
    using on_disk_run run by (fastforce simp: site_storage_def)
  have "store_ready e base repository (disk_part s)" using g by (simp add: disk_part_ready)
  from local_files.open_result [OF this v u]
  show "case y of Some (SFile m bs) \<Rightarrow> site_file e base repository s p = Some bs | _ \<Rightarrow> site_file e base repository s p = None"
    by (simp only: disk_part_ready)
qed

text \<open>Statements of the database leave the disk alone, and what happens on the disk the database.\<close>

definition disk_kept :: "'z package_site_scheme \<Rightarrow> 'z package_site_scheme \<Rightarrow> bool" where
  "disk_kept s t = (ps_disk t = ps_disk s)"

interpretation disk_frame: frame disk_kept
  by unfold_locales (auto simp: disk_kept_def)

lemma disk_keptD:
  "disk_kept s t \<Longrightarrow> site_ready e base repository t = site_ready e base repository s"
  "disk_kept s t \<Longrightarrow> site_file e base repository t p = site_file e base repository s p"
  by (simp_all add: disk_kept_def site_ready_def site_file_def)

lemma disk_kept_catalog [frame_intros]: "preserves disk_kept (in_catalog m)"
  unfolding in_catalog_def
  by (rule disk_frame.frame_map_err) (auto simp: preserves_def focus_def disk_kept_def put_catalog_def split: prod.splits)

lemma disk_kept_project [frame_intros]:
  "preserves disk_kept (find_by_id i)" "preserves disk_kept (find_by_project_key k r)"
  "preserves disk_kept (insert_project n)" "preserves disk_kept (find_by_version_and_project v p)"
  "preserves disk_kept (get_all_versions p)" "preserves disk_kept (insert_version_row nv)"
  "preserves disk_kept (delete_version i)"
  unfolding find_by_id_def find_by_project_key_def insert_project_def find_by_version_and_project_def
    get_all_versions_def insert_version_row_def delete_version_def
  by (rule disk_frame.frame_select disk_frame.frame_try disk_frame.frame_update,
      (auto simp: disk_kept_def Let_def split: if_splits)?)+

lemma disk_kept_versions [frame_intros]:
  "preserves disk_kept (upsert_from_project_version pt v)" "preserves disk_kept (insert_version pt nv)"
  unfolding insert_version_def upsert_from_project_version_def
  by (intro frame_intros | simp split: option.split)+

end
