(* ===== verification/Spec2Isabelle.thy ===== *)
theory Spec2Isabelle
  imports DockerAuth Egress VirtualRepo PackageFiles WebhookDelivery AdvisoryJobs UploadIntegrity DockerDeletion GoModules Projects
begin

text \<open>
  A model of pkgly, a self-hosted package registry: an HTTP server in Rust that keeps repositories of
  many package formats in storages, their catalogue, users, tokens and webhooks in a PostgreSQL
  database, and browser sessions in an embedded key-value store.

  The program and the theories.

  A request passes through these parts. The authentication layer (pkgly/src/app/authentication) turns
  its headers into an identity; on the package routes the repository front end
  (pkgly/src/repository/repo_http) does the same with its own rules and caches. Then a handler asks
  the permission functions whether the identity may read, write or edit the repository, works on the
  database and on a storage, and may enqueue events for webhooks. Background tasks clean sessions,
  deliver webhooks, refresh mirrors and delete old packages.

  \<^item> \<open>Prelude\<close>: machine integers (\<open>i32\<close>, \<open>i64\<close>, \<open>u64\<close>, \<open>u8\<close> as words, or as integers where the code
    checks a range), the functions of Rust's standard library on strings (a string is the list of the
    bytes of its UTF-8 text), the result type \<open>'e + 'a\<close> of a fallible function, and the monad of
    statements \<open>res\<close>: a computation maps a state to a result and the next state. The state carries a
    schedule of failures, so that every database statement or system call can fail. The locale
    \<open>frame\<close> collects the rules by which a relation between states is kept along a computation; it is
    interpreted for the invariants and confinement relations of the components.
  \<^item> \<open>StoragePath\<close> (crates/core/src/storage/storage_path.rs): parsing, checking and printing of the
    paths below a repository. \<open>Names\<close> (crates/core/src/user/mod.rs, storage/mod.rs,
    repository/mod.rs): validated names.
  \<^item> \<open>UserDb\<close>, \<open>Permissions\<close>, \<open>AuthTokens\<close> (crates/core/src/database/entities/user and
    crates/core/src/user): the tables as lists of rows with the constraints of crates/core/migrations,
    one function per query, the decision whether a user may act on a repository, and access tokens with
    their scopes. \<open>Sessions\<close> (pkgly/src/app/authentication/session.rs): the session table with
    transactions that are published by a commit. \<open>Authn\<close> (pkgly/src/app/authentication) and
    \<open>UserAdmin\<close> (pkgly/src/app/api/user_management.rs): identities and the handlers of user management.
  \<^item> \<open>RepoAuth\<close> (pkgly/src/repository/repo_http/repo_auth.rs) and \<open>DockerAuth\<close>
    (pkgly/src/repository/docker/auth.rs, pkgly/src/app/site.rs): the package routes' authentication with
    its caches, the Docker token end point, and the look-up of a repository by name.
  \<^item> \<open>Egress\<close> (crates/core/src/egress.rs, pkgly/src/utils/egress.rs, upstream.rs): which addresses and
    URLs outgoing requests may reach. \<open>VirtualRepo\<close> (pkgly/src/repository/virtual): the ordered search
    through the members of a virtual repository.
  \<^item> \<open>PackageFiles\<close> (crates/core/src/database/entities/package_file.rs): the catalogue, its pages and the
    selection of the files that retention deletes; \<open>PackageRows\<close>: the row of a file made from the JSON
    metadata of a project version; \<open>Projects\<close> (crates/core/src/database/entities/project): the rows of
    projects and versions, written together with the package file. \<open>AdvisoryJobs\<close> (pkgly/src/repository/retention,
    pkgly/src/repository/deb): maintenance runs under advisory locks of the database, with the
    connection pool and sessions that hold them.
  \<^item> \<open>Webhooks\<close> and \<open>WebhookDelivery\<close> (pkgly/src/app/webhooks/mod.rs): definitions and events, and the
    delivery queue as a step relation over claims, attempts, retries, crashes and the passing of time.
  \<^item> \<open>FileSystem\<close> and \<open>LocalStorage\<close> (crates/storage/src/local, crates/storage/src/fs): directories, files
    and symbolic links as \<open>std::fs\<close> shows them, and the storage with its metadata sidecars on top.
    \<open>StorageContents\<close>: what appending, moving and deleting leave in a tree without symbolic links.
    \<open>StoredFiles\<close>: the storage as a map from paths to contents, the contract package formats rely on.
  \<^item> \<open>GoModules\<close> (pkgly/src/repository/go/types.rs, utils.rs): module paths, versions, the requests of the
    module protocol and the keys of the proxy's cache.
  \<^item> The hosted Docker registry (pkgly/src/repository/docker). \<open>DockerManifest\<close> (types.rs, metadata.rs):
    manifests with the detection of their kind, the paths of blobs and manifests, and the storage paths a
    manifest refers to. \<open>DockerObjects\<close> (crates/core/src/database/entities/docker_object.rs and its
    migrations): the accounting table, with revisions that guard a reconciliation, and the recursive
    queries for sizes and unshared objects. \<open>DockerUploads\<close> (handlers.rs, pkgly/src/app/mod.rs, site.rs):
    chunked uploads with their hash state, completed, cancelled or resumed, and blobs read and deleted.
    \<open>UploadIntegrity\<close>: sequences of upload requests. \<open>DockerRoutes\<close> (handlers.rs, mod.rs): which handler
    a request goes to, pages, the lists of images and tags, manifests read. \<open>DockerDeletion\<close>
    (pkgly/src/app/api/repository/packages.rs, metadata.rs): deletion of images with the objects nobody
    else refers to, the reconciliation of the accounting with the storage, and its backfill.

  What the lemmas show.

  Each component has an invariant of its state (\<open>wf_users\<close>, \<open>wf_tokens\<close>, \<open>wf_catalog\<close>, \<open>wf_tree\<close>, \<open>rows_ok\<close> and others) that every
  operation keeps whatever statement fails, the exact effect of its operations on every branch, and the
  properties that span operations: what is written is read back (storage paths, tokens, sessions, scopes,
  files, uploaded blobs, registry routes), what pages through a list visits every entry once, decisions of the optimised code agree with reference definitions (permissions, address
  classes, virtual resolution), and the step relations keep their bounds (attempts, leases, locks).
  Several theorems state behaviour that contradicts the intent of the code: they are named in the
  manifest as findings (the last administrator removed by the permission handler, live tokens of
  deactivated users on package routes, locks kept by a panic, files created through dangling links, layers
  of another image deleted with an image, blobs stored under a digest that is not theirs).

  Some of these hold under a condition of the code's use, which the text before the theorem names. A file
  reads back whatever failures later steps and other users of the storage add, its hashes too when no
  sidecar existed (an overwritten file keeps those of its old content). Uploaded blobs have the digest
  they are stored under as long as an upload is addressed by one image (\<open>other_image_stored_wrong\<close> shows
  why). The revision of an object guards a reconciliation as long as the object was not removed and
  recorded anew since (\<open>reused_revision_removes_new_row\<close>).

  Bounds and fuel.

  Recursion is structural or has a termination proof, with these exceptions. Path resolution follows at
  most \<open>max_links = 40\<close> symbolic links, as the kernel does, and fails beyond them. The worker's loop
  \<open>process_due_deliveries\<close> takes fuel; \<open>delivery_pass_terminates\<close> shows that any fuel larger than the
  attempts left in the queue (at most five for each row) is enough. The detection of a manifest's kind is a
  \<open>partial_function\<close>, because it does not end on some documents (\<open>manifest_parser_diverges\<close>). The walks over
  the objects of a registry take fuel for the directories or objects they open: \<open>visit_queue\<close> for the
  directories of an image list (without links to a directory above itself their number is enough),
  \<open>backfill_collect\<close> for the entries of its stack (every path is read once, so the references of the
  manifests read bound it), and \<open>collect_stack\<close> for the manifests of one package, where one round is
  enough, since the code reads each as an image manifest, which nests none (\<open>collect_stack_one\<close>; the
  deletion of a package gives the same result for every positive fuel).
  The deletion of a repository by the
  local storage retries three times, as the code does. Redirects are followed four times.

  Parameters.

  Third-party code is an argument of the definitions that use it: password and token digests, random
  identifiers, base64 and percent decoding, date formats, URL and network parsing, DNS, HTTP, JSON
  documents kept as text, the hashes of a file's content. Where a property relies on one of them, the
  hypothesis says what (for example that printing and parsing a time are inverse) and its witness
  instantiates it.

  Not modelled.

  Simplifications of the database: a refused insert leaves the sequence of identifiers as it was, where
  PostgreSQL skips a number; creating a session reads the clock once; the database
  session of a running job is lost only when the job dies. The request paths of the Docker registry are the printed storage paths.

  The storage on S3 (a client of the AWS SDK), the Docker proxy and the handlers that store or delete a
  manifest, the formats of the other package managers, single sign-on, search, server start-up,
  configuration files, mail, metrics, logging, the
  command line client and the compile-time macros. In the local storage operations run one at a time: the
  file locks that serialise them are left out, an existence test fails only for reasons of the tree, and
  the list of fresh identifiers stands for the random generator (the nil identifier when it is empty).
\<close>

end
